(* ===== verification/Prelude.thy ===== *)
theory Prelude
  imports Main "HOL-Library.Word" "HOL-Library.Char_ord" "HOL-Library.List_Lexorder"
begin

text \<open>
  Shared vocabulary of the development. A Go \<^verbatim>\<open>string\<close> and a Go \<^verbatim>\<open>[]byte\<close> are both a
  sequence of bytes, and both are a HOL \<open>string\<close> here (\<open>char\<close> is the type of the 256
  bytes). A Go function that returns \<^verbatim>\<open>(T, error)\<close> returns \<open>error + T\<close>, \<open>Inl\<close> being
  the error; the text of an error message is never part of a model, its kind is.
  The theory also holds the generic facts on lists, maps and words the components use.
\<close>

unbundle bit_operations_syntax

type_synonym bytes = string

section \<open>Collections of facts\<close>

named_theorems inv_intros \<open>introduction rules for component invariants\<close>
named_theorems go_simps \<open>evaluation rules for the modelled standard library\<close>

section \<open>Error results\<close>

abbreviation is_ok :: "'e + 'a \<Rightarrow> bool" where
  "is_ok r \<equiv> \<not> isl r"

lemma is_ok_Inr [simp]: "is_ok (Inr x)"
  by simp

lemma is_okE: "is_ok r \<Longrightarrow> (\<And>x. r = Inr x \<Longrightarrow> P) \<Longrightarrow> P"
  by (cases r) auto

lemma sum_case_Inr_conv [simp]:
  "(case r of Inl e \<Rightarrow> Inl e | Inr x \<Rightarrow> f x) = Inr y \<longleftrightarrow> (\<exists>x. r = Inr x \<and> f x = Inr y)"
  by (cases r) auto

section \<open>Lists\<close>

lemma nth_take_append_drop:
  "k \<le> length xs \<Longrightarrow> i < k \<Longrightarrow> take k xs ! i = xs ! i"
  by simp

lemma append_eq_same_length:
  "length a = length c \<Longrightarrow> a @ b = c @ d \<longleftrightarrow> a = c \<and> b = d"
  by simp

lemma list_eq_take_drop_iff:
  "k \<le> length xs \<Longrightarrow> k \<le> length ys \<Longrightarrow>
   xs = ys \<longleftrightarrow> take k xs = take k ys \<and> drop k xs = drop k ys"
  by (metis append_take_drop_id)

lemma fold_snoc: "fold f (xs @ [x]) s = f x (fold f xs s)"
  by simp

lemma filter_eq_self_iff: "filter P xs = xs \<longleftrightarrow> (\<forall>x \<in> set xs. P x)"
  by (metis filter_id_conv)

text \<open>Splitting at the first byte that ends a field: what a delimiter-separated payload relies on.\<close>

lemma append_delim_inj:
  assumes "d \<notin> set a" "d \<notin> set b" "a @ d # x = b @ d # y"
  shows "a = b \<and> x = y"
  using assms
proof (induction a arbitrary: b)
  case Nil
  then show ?case by (cases b) auto
next
  case (Cons c a)
  then show ?case by (cases b) auto
qed

lemma takeWhile_dropWhile_snoc:
  "dropWhile P xs = y # ys \<Longrightarrow> xs = takeWhile P xs @ y # ys"
  by (metis takeWhile_dropWhile_id)

section \<open>Association lists kept in insertion order\<close>

fun al_get :: "('k \<times> 'v) list \<Rightarrow> 'k \<Rightarrow> 'v option" where
  "al_get [] k = None"
| "al_get ((k', v) # xs) k = (if k = k' then Some v else al_get xs k)"

fun al_put :: "'k \<Rightarrow> 'v \<Rightarrow> ('k \<times> 'v) list \<Rightarrow> ('k \<times> 'v) list" where
  "al_put k v [] = [(k, v)]"
| "al_put k v ((k', v') # xs) =
     (if k = k' then (k, v) # xs else (k', v') # al_put k v xs)"

definition al_del :: "'k \<Rightarrow> ('k \<times> 'v) list \<Rightarrow> ('k \<times> 'v) list" where
  "al_del k xs = filter (\<lambda>p. fst p \<noteq> k) xs"

lemma al_get_put [simp]: "al_get (al_put k v xs) k' = (if k' = k then Some v else al_get xs k')"
  by (induction k v xs rule: al_put.induct) auto

lemma al_get_del [simp]: "al_get (al_del k xs) k' = (if k' = k then None else al_get xs k')"
  by (induction xs) (auto simp: al_del_def)

lemma keys_put: "map fst (al_put k v xs) =
  (if k \<in> fst ` set xs then map fst xs else map fst xs @ [k])"
  by (induction k v xs rule: al_put.induct) auto

lemma al_get_None_iff: "al_get xs k = None \<longleftrightarrow> k \<notin> fst ` set xs"
  by (induction xs) force+

lemma al_get_SomeD: "al_get xs k = Some v \<Longrightarrow> (k, v) \<in> set xs"
  by (induction xs) (auto split: if_splits)

lemma al_get_eq_map_of: "al_get xs k = map_of xs k"
  by (induction xs) auto

end
