(* ===== verification/GoStd.thy ===== *)
theory GoStd
  imports Prelude
begin

text \<open>
  The parts of Go's standard library the kernel computes with, as executable definitions:
  \<^verbatim>\<open>crypto/sha256\<close>, \<^verbatim>\<open>encoding/hex\<close>, \<^verbatim>\<open>encoding/base64\<close> (StdEncoding), the \<^verbatim>\<open>%d\<close> verb of
  \<^verbatim>\<open>fmt\<close>, and the prefix, suffix and trim functions of \<^verbatim>\<open>strings\<close>. They are not the program:
  they carry no map entry. \<^verbatim>\<open>crypto/ed25519\<close> is a parameter of the definitions that use it.
\<close>

section \<open>crypto/sha256\<close>

text \<open>
  FIPS 180-4 takes its constants from primes: the first 32 bits of the fractional parts of the
  cube roots of the first 64 primes (the rounds), and of the square roots of the first 8 (the
  initial state). They are computed: \<open>iroot\<close> is the integer root, found bit by bit.
\<close>

fun iroot_bits :: "nat \<Rightarrow> nat \<Rightarrow> int \<Rightarrow> int \<Rightarrow> int" where
  "iroot_bits 0 k n r = r"
| "iroot_bits (Suc b) k n r =
     (let r' = r + 2 ^ b in iroot_bits b k n (if r' ^ k \<le> n then r' else r))"

definition frac_root :: "nat \<Rightarrow> int \<Rightarrow> 32 word" where
  "frac_root k p = word_of_int (iroot_bits 40 k (p * 2 ^ (32 * k)) 0)"

definition is_prime :: "int \<Rightarrow> bool" where
  "is_prime n \<longleftrightarrow> list_all (\<lambda>d. n mod d \<noteq> 0) [2..n - 1]"

definition sha_k :: "32 word list" where
  "sha_k = map (frac_root 3) (filter is_prime [2..311])"

definition sha_init :: "32 word list" where
  "sha_init = map (frac_root 2) [2, 3, 5, 7, 11, 13, 17, 19]"

definition rotr32 :: "nat \<Rightarrow> 32 word \<Rightarrow> 32 word" where
  "rotr32 n x = (drop_bit n x OR push_bit (32 - n) x)"

definition byte32 :: "char \<Rightarrow> 32 word" where
  "byte32 c = of_char c"

fun be_words :: "bytes \<Rightarrow> 32 word list" where
  "be_words (a # b # c # d # xs) =
     (push_bit 24 (byte32 a) OR push_bit 16 (byte32 b) OR push_bit 8 (byte32 c) OR byte32 d)
       # be_words xs"
| "be_words _ = []"

definition word_bytes :: "32 word \<Rightarrow> bytes" where
  "word_bytes w = map (\<lambda>s. char_of (uint (drop_bit s w))) [24, 16, 8, 0]"

text \<open>The message schedule, newest word first.\<close>

fun sha_sched :: "nat \<Rightarrow> 32 word list \<Rightarrow> 32 word list" where
  "sha_sched 0 w = w"
| "sha_sched (Suc n) w =
     (let x = w ! 14; y = w ! 1;
          s0 = rotr32 7 x XOR rotr32 18 x XOR drop_bit 3 x;
          s1 = rotr32 17 y XOR rotr32 19 y XOR drop_bit 10 y
      in sha_sched n ((w ! 15 + s0 + w ! 6 + s1) # w))"

fun sha_rounds :: "(32 word \<times> 32 word) list \<Rightarrow> 32 word list \<Rightarrow> 32 word list" where
  "sha_rounds ((k, w) # kws) [a, b, c, d, e, f, g, h] =
     (let s1 = rotr32 6 e XOR rotr32 11 e XOR rotr32 25 e;
          ch = (e AND f) XOR (NOT e AND g);
          t1 = h + s1 + ch + k + w;
          s0 = rotr32 2 a XOR rotr32 13 a XOR rotr32 22 a;
          mj = (a AND b) XOR (a AND c) XOR (b AND c);
          t2 = s0 + mj
      in sha_rounds kws [t1 + t2, a, b, c, d + t1, e, f, g])"
| "sha_rounds _ st = st"

definition sha_block :: "bytes \<Rightarrow> 32 word list \<Rightarrow> 32 word list" where
  "sha_block blk st =
     map2 (+) st (sha_rounds (zip sha_k (rev (sha_sched 48 (rev (be_words blk))))) st)"

function sha_blocks :: "bytes \<Rightarrow> 32 word list \<Rightarrow> 32 word list" where
  "sha_blocks bs st = (if length bs < 64 then st else sha_blocks (drop 64 bs) (sha_block (take 64 bs) st))"
  by pat_completeness auto
termination
  by (relation "measure (\<lambda>(bs, st). length bs)") auto

declare sha_blocks.simps [simp del]

definition sha_pad :: "nat \<Rightarrow> bytes" where
  "sha_pad n = char_of (128 :: int) # replicate ((119 - n mod 64) mod 64) (char_of (0 :: int))
     @ map (\<lambda>s. char_of (drop_bit s (8 * int n))) [56, 48, 40, 32, 24, 16, 8, 0]"

definition sha256 :: "bytes \<Rightarrow> bytes" where
  "sha256 m = concat (map word_bytes (sha_blocks (m @ sha_pad (length m)) sha_init))"

lemma length_sha_rounds: "length st = 8 \<Longrightarrow> length (sha_rounds kws st) = 8"
  by (induction kws st rule: sha_rounds.induct) (auto simp: Let_def)

lemma length_sha_block: "length st = 8 \<Longrightarrow> length (sha_block b st) = 8"
  by (simp add: sha_block_def length_sha_rounds)

lemma length_sha_blocks: "length st = 8 \<Longrightarrow> length (sha_blocks bs st) = 8"
proof (induction bs st rule: sha_blocks.induct)
  case (1 bs st)
  then show ?case by (subst sha_blocks.simps) (simp add: length_sha_block)
qed

lemma length_sha256 [simp]: "length (sha256 m) = 32"
proof -
  have "length (concat (map word_bytes ws)) = 4 * length ws" for ws
    by (induction ws) (auto simp: word_bytes_def)
  moreover have "length (sha_blocks (m @ sha_pad (length m)) sha_init) = 8"
    by (rule length_sha_blocks) (simp add: sha_init_def)
  ultimately show ?thesis by (simp add: sha256_def)
qed

text \<open>
  What a statement that rests on SHA-256 may fail by: two different byte strings of an explicit
  list, all of them hashed by the program, have the same digest.
\<close>

definition collision :: "bytes list \<Rightarrow> bool" where
  "collision xs \<longleftrightarrow> list_ex (\<lambda>x. list_ex (\<lambda>y. x \<noteq> y \<and> sha256 x = sha256 y) xs) xs"

lemma collision_iff: "collision xs \<longleftrightarrow> \<not> inj_on sha256 (set xs)"
  by (auto simp: collision_def list_ex_iff inj_on_def)

lemma collision_mono: "collision xs \<Longrightarrow> set xs \<subseteq> set ys \<Longrightarrow> collision ys"
  by (auto simp: collision_def list_ex_iff)


section \<open>encoding/hex\<close>

definition hex_digit :: "nat \<Rightarrow> char" where
  "hex_digit n = ''0123456789abcdef'' ! n"

fun hex_encode :: "bytes \<Rightarrow> string" where
  "hex_encode [] = []"
| "hex_encode (c # cs) =
     hex_digit (of_char c div 16) # hex_digit (of_char c mod 16) # hex_encode cs"

definition unhex :: "char \<Rightarrow> nat option" where
  "unhex c =
     (let n = of_char c in
      if 48 \<le> n \<and> n \<le> 57 then Some (n - 48)
      else if 97 \<le> n \<and> n \<le> 102 then Some (n - 87)
      else if 65 \<le> n \<and> n \<le> 70 then Some (n - 55)
      else None)"

fun hex_decode :: "string \<Rightarrow> bytes option" where
  "hex_decode [] = Some []"
| "hex_decode [a] = None"
| "hex_decode (a # b # cs) =
     (case (unhex a, unhex b) of
        (Some x, Some y) \<Rightarrow> map_option ((#) (char_of (16 * x + y))) (hex_decode cs)
      | _ \<Rightarrow> None)"

lemma of_char_less_256: "(of_char c :: nat) < 256"
  by simp

lemma hex_table:
  "list_all (\<lambda>n. unhex (hex_digit n) = Some n \<and> hex_digit n \<in> set ''0123456789abcdef'') [0..<16]"
  by code_simp

lemma unhex_hex_digit: "n < 16 \<Longrightarrow> unhex (hex_digit n) = Some n"
  and hex_digit_set: "n < 16 \<Longrightarrow> hex_digit n \<in> set ''0123456789abcdef''"
  using hex_table by (auto simp: list_all_iff simp del: set_simps)

lemma nibble_bounds [simp]: "(of_char c :: nat) div 16 < 16" "(of_char c :: nat) mod 16 < 16"
  by (rule less_mult_imp_div_less) simp_all

theorem hex_roundtrip [simp]: "hex_decode (hex_encode s) = Some s"
proof (induction s)
  case Nil
  then show ?case by simp
next
  case (Cons c s)
  have "16 * ((of_char c :: nat) div 16) + of_char c mod 16 = of_char c"
    by simp
  with Cons show ?case by (simp add: unhex_hex_digit)
qed

lemma hex_encode_inject [simp]: "hex_encode a = hex_encode b \<longleftrightarrow> a = b"
  by (metis hex_roundtrip option.inject)

lemma length_hex_encode [simp]: "length (hex_encode s) = 2 * length s"
  by (induction s) auto

lemma hex_encode_set: "set (hex_encode s) \<subseteq> set ''0123456789abcdef''"
proof (induction s)
  case (Cons c s)
  have "hex_digit (of_char c div 16) \<in> set ''0123456789abcdef''"
    "hex_digit (of_char c mod 16) \<in> set ''0123456789abcdef''"
    by (simp_all only: hex_digit_set nibble_bounds)
  with Cons show ?case by (simp only: hex_encode.simps list.set insert_subset)
qed simp

section \<open>fmt: the verb \<^verbatim>\<open>%d\<close>\<close>

definition dec_digit :: "nat \<Rightarrow> char" where
  "dec_digit n = ''0123456789'' ! n"

fun dec_nat :: "nat \<Rightarrow> string" where
  "dec_nat n = (if n < 10 then [dec_digit n] else dec_nat (n div 10) @ [dec_digit (n mod 10)])"

declare dec_nat.simps [simp del]

definition dec_int :: "int \<Rightarrow> string" where
  "dec_int i = (if i < 0 then CHR ''-'' # dec_nat (nat (- i)) else dec_nat (nat i))"

text \<open>Reading the digits back, for injectivity.\<close>

definition dec_value :: "string \<Rightarrow> nat" where
  "dec_value s = foldl (\<lambda>n c. 10 * n + (of_char c - 48)) 0 s"

lemma dec_table:
  "list_all (\<lambda>n. of_char (dec_digit n) - (48::nat) = n \<and> dec_digit n \<in> set ''0123456789'') [0..<10]"
  by code_simp

lemma dec_digit_value: "n < 10 \<Longrightarrow> of_char (dec_digit n) - (48::nat) = n"
  and dec_digit_set: "n < 10 \<Longrightarrow> dec_digit n \<in> set ''0123456789''"
  using dec_table by (auto simp: list_all_iff simp del: set_simps)

lemma dec_value_dec_nat: "dec_value (dec_nat n) = n"
proof (induction n rule: dec_nat.induct)
  case (1 n)
  then show ?case
    by (subst dec_nat.simps) (auto simp: dec_value_def dec_digit_value)
qed

lemma dec_nat_inject [simp]: "dec_nat a = dec_nat b \<longleftrightarrow> a = b"
  by (metis dec_value_dec_nat)

lemma dec_nat_set: "set (dec_nat n) \<subseteq> set ''0123456789''"
proof (induction n rule: dec_nat.induct)
  case (1 n)
  have "dec_digit (n mod 10) \<in> set ''0123456789''"
    by (rule dec_digit_set) simp
  with 1 dec_digit_set [of n] show ?case
    by (subst dec_nat.simps) auto
qed

lemma dec_nat_nonempty [simp]: "dec_nat n \<noteq> []"
  by (subst dec_nat.simps) simp

lemma colon_notin_dec_nat [simp]: "CHR '':'' \<notin> set (dec_nat n)"
  using dec_nat_set [of n] by auto

lemma minus_notin_dec_nat: "CHR ''-'' \<notin> set (dec_nat n)"
  using dec_nat_set [of n] by auto

lemma colon_notin_dec_int [simp]: "CHR '':'' \<notin> set (dec_int i)"
  by (simp add: dec_int_def)

lemma dec_int_inject [simp]: "dec_int a = dec_int b \<longleftrightarrow> a = b"
proof
  assume eq: "dec_int a = dec_int b"
  have no: "dec_nat n \<noteq> CHR ''-'' # xs" for n xs
    using minus_notin_dec_nat [of n] by auto
  show "a = b"
    using eq no no [symmetric] by (auto simp: dec_int_def split: if_splits)
qed simp

section \<open>encoding/base64, StdEncoding\<close>

definition b64_alphabet :: string where
  "b64_alphabet = ''ABCDEFGHIJKLMNOPQRSTUVWXYZabcdefghijklmnopqrstuvwxyz0123456789+/''"

definition b64_char :: "nat \<Rightarrow> char" where
  "b64_char n = b64_alphabet ! n"

definition b64_val :: "char \<Rightarrow> nat option" where
  "b64_val c = map_of (zip b64_alphabet [0..<64]) c"

abbreviation cn :: "char \<Rightarrow> nat" where
  "cn \<equiv> of_char"

fun b64_encode :: "bytes \<Rightarrow> string" where
  "b64_encode [] = []"
| "b64_encode [x] = [b64_char (cn x div 4), b64_char (cn x mod 4 * 16), CHR ''='', CHR ''='']"
| "b64_encode [x, y] =
     [b64_char (cn x div 4), b64_char (cn x mod 4 * 16 + cn y div 16),
      b64_char (cn y mod 16 * 4), CHR ''='']"
| "b64_encode (x # y # z # rest) =
     b64_char (cn x div 4) # b64_char (cn x mod 4 * 16 + cn y div 16)
     # b64_char (cn y mod 16 * 4 + cn z div 64) # b64_char (cn z mod 64) # b64_encode rest"

text \<open>
  Go's decoder skips carriage returns and newlines, wants full padding on the last quantum, and
  (not being strict) ignores the bits a padded quantum does not use.
\<close>

fun b64_quads :: "string \<Rightarrow> bytes option" where
  "b64_quads [] = Some []"
| "b64_quads (a # b # c # d # rest) =
     (if d = CHR ''='' then
        if rest \<noteq> [] then None
        else if c = CHR ''='' then
          (case (b64_val a, b64_val b) of
             (Some p, Some q) \<Rightarrow> Some [char_of (p * 4 + q div 16)]
           | _ \<Rightarrow> None)
        else
          (case (b64_val a, b64_val b, b64_val c) of
             (Some p, Some q, Some r) \<Rightarrow>
               Some [char_of (p * 4 + q div 16), char_of (q mod 16 * 16 + r div 4)]
           | _ \<Rightarrow> None)
      else
        (case (b64_val a, b64_val b, b64_val c, b64_val d) of
           (Some p, Some q, Some r, Some s) \<Rightarrow>
             map_option (\<lambda>bs. char_of (p * 4 + q div 16) # char_of (q mod 16 * 16 + r div 4)
                             # char_of (r mod 4 * 64 + s) # bs) (b64_quads rest)
         | _ \<Rightarrow> None))"
| "b64_quads _ = None"

definition b64_decode :: "string \<Rightarrow> bytes option" where
  "b64_decode s = b64_quads (filter (\<lambda>c. c \<noteq> CHR 0x0A \<and> c \<noteq> CHR 0x0D) s)"

lemma b64_table:
  "list_all (\<lambda>n. b64_val (b64_char n) = Some n \<and> b64_char n \<noteq> CHR ''=''
     \<and> b64_char n \<noteq> CHR 0x0A \<and> b64_char n \<noteq> CHR 0x0D \<and> b64_char n \<noteq> CHR '':'') [0..<64]"
  by code_simp

lemma b64_char_props [simp]:
  assumes "n < 64"
  shows "b64_val (b64_char n) = Some n" "b64_char n \<noteq> CHR ''=''"
    "b64_char n \<noteq> CHR 0x0A" "b64_char n \<noteq> CHR 0x0D" "b64_char n \<noteq> CHR '':''" "CHR '':'' \<noteq> b64_char n"
  using b64_table assms by (auto simp: list_all_iff)

lemma b64_pack: "m < 4 \<Longrightarrow> q < (16::nat) \<Longrightarrow> m * 16 + q < 64"
  and b64_pack2: "m < 16 \<Longrightarrow> q < (4::nat) \<Longrightarrow> m * 4 + q < 64"
  by simp_all

lemma cn_div [simp]: "cn x div 4 < 64" "cn x div 16 < 16" "cn x div 64 < 4"
  by (rule less_mult_imp_div_less, simp)+

lemma b64_bounds [simp]:
  "cn x mod 4 * 16 < 64" "cn x mod 4 * 16 + cn y div 16 < 64"
  "cn y mod 16 * 4 < 64" "cn y mod 16 * 4 + cn z div 64 < 64"
  using b64_pack [of "cn x mod 4" 0] b64_pack [of "cn x mod 4" "cn y div 16"]
    b64_pack2 [of "cn y mod 16" 0] b64_pack2 [of "cn y mod 16" "cn z div 64"]
  by simp_all

lemma unpack16 [simp]: "q < 16 \<Longrightarrow> (m * 16 + q) div 16 = (m::nat)"
    "q < 16 \<Longrightarrow> (m * 16 + q) mod 16 = (q::nat)"
  and unpack4 [simp]: "q < 4 \<Longrightarrow> (m * 4 + q) div 4 = (m::nat)"
    "q < 4 \<Longrightarrow> (m * 4 + q) mod 4 = (q::nat)"
  by simp_all

lemma repack [simp]: "n div 4 * 4 + n mod 4 = (n::nat)" "n div 16 * 16 + n mod 16 = (n::nat)"
    "n div 64 * 64 + n mod 64 = (n::nat)"
  by simp_all

lemma b64_quads_encode: "b64_quads (b64_encode s) = Some s"
  by (induction s rule: b64_encode.induct) (simp_all del: of_char_mod_256)

lemma b64_encode_no_newline:
  "filter (\<lambda>c. c \<noteq> CHR 0x0A \<and> c \<noteq> CHR 0x0D) (b64_encode s) = b64_encode s"
  by (induction s rule: b64_encode.induct) auto

theorem b64_roundtrip [simp]: "b64_decode (b64_encode s) = Some s"
  by (simp add: b64_decode_def b64_encode_no_newline b64_quads_encode)

lemma b64_encode_inject [simp]: "b64_encode a = b64_encode b \<longleftrightarrow> a = b"
  by (metis b64_roundtrip option.inject)

lemma colon_notin_b64_encode [simp]: "CHR '':'' \<notin> set (b64_encode s)"
  by (induction s rule: b64_encode.induct) auto

section \<open>strings\<close>

definition has_prefix :: "string \<Rightarrow> string \<Rightarrow> bool" where
  "has_prefix s p \<longleftrightarrow> take (length p) s = p"

definition has_suffix :: "string \<Rightarrow> string \<Rightarrow> bool" where
  "has_suffix s p \<longleftrightarrow> length p \<le> length s \<and> drop (length s - length p) s = p"

definition trim_suffix :: "string \<Rightarrow> string \<Rightarrow> string" where
  "trim_suffix s p = (if has_suffix s p then take (length s - length p) s else s)"

lemma has_prefix_iff: "has_prefix s p \<longleftrightarrow> (\<exists>r. s = p @ r)"
  by (metis append_eq_conv_conj has_prefix_def)

lemma has_suffix_iff: "has_suffix s p \<longleftrightarrow> (\<exists>r. s = r @ p)"
proof
  assume "has_suffix s p"
  then have "s = take (length s - length p) s @ p"
    by (metis append_take_drop_id has_suffix_def)
  then show "\<exists>r. s = r @ p" by blast
qed (auto simp: has_suffix_def)

lemma trim_suffix_append [simp]: "trim_suffix (r @ p) p = r"
  by (auto simp: trim_suffix_def has_suffix_def)

text \<open>The UTF-8 forms of the white space \<^verbatim>\<open>strings.TrimSpace\<close> removes.\<close>

definition space_runes :: "string list" where
  "space_runes =
     map (\<lambda>c. [c]) [CHR 0x09, CHR 0x0A, CHR 0x0B, CHR 0x0C, CHR 0x0D, CHR 0x20]
     @ map (\<lambda>c. [CHR 0xC2, c]) [CHR 0x85, CHR 0xA0]
     @ [[CHR 0xE1, CHR 0x9A, CHR 0x80], [CHR 0xE2, CHR 0x81, CHR 0x9F], [CHR 0xE3, CHR 0x80, CHR 0x80]]
     @ map (\<lambda>c. [CHR 0xE2, CHR 0x80, c])
         [CHR 0x80, CHR 0x81, CHR 0x82, CHR 0x83, CHR 0x84, CHR 0x85, CHR 0x86, CHR 0x87, CHR 0x88,
          CHR 0x89, CHR 0x8A, CHR 0xA8, CHR 0xA9, CHR 0xAF]"

fun trim_left_fuel :: "nat \<Rightarrow> string list \<Rightarrow> string \<Rightarrow> string" where
  "trim_left_fuel 0 rs s = s"
| "trim_left_fuel (Suc n) rs s =
     (case find (has_prefix s) rs of None \<Rightarrow> s | Some r \<Rightarrow> trim_left_fuel n rs (drop (length r) s))"

definition TrimSpace :: "string \<Rightarrow> string" where
  "TrimSpace s =
     (let t = trim_left_fuel (length s) space_runes s
      in rev (trim_left_fuel (length t) (map rev space_runes) (rev t)))"

text \<open>A text with no white space at its ends is left as it is.\<close>

definition visible :: "string \<Rightarrow> bool" where
  "visible s \<longleftrightarrow> list_all (\<lambda>c. 33 \<le> cn c \<and> cn c \<le> 126) s"

lemma space_runes_table:
  "list_all (\<lambda>r. r \<noteq> [] \<and> \<not> (33 \<le> cn (hd r) \<and> cn (hd r) \<le> 126)
     \<and> \<not> (33 \<le> cn (last r) \<and> cn (last r) \<le> 126)) space_runes"
  by code_simp

lemma trim_left_visible:
  assumes "visible s" "list_all (\<lambda>r. r \<noteq> [] \<and> \<not> (33 \<le> cn (hd r) \<and> cn (hd r) \<le> 126)) rs"
  shows "trim_left_fuel n rs s = s"
proof -
  have "\<not> has_prefix s r" if r: "r \<in> set rs" for r
  proof
    assume "has_prefix s r"
    then obtain t where "s = r @ t" by (auto simp: has_prefix_iff)
    with assms r show False by (cases r) (auto simp: visible_def list_all_iff)
  qed
  then have "find (has_prefix s) rs = None" by (auto simp: find_None_iff)
  then show ?thesis by (cases n) simp_all
qed

lemma TrimSpace_visible [simp]: "visible s \<Longrightarrow> TrimSpace s = s"
proof -
  assume v: "visible s"
  then have "visible (rev s)" by (simp add: visible_def list_all_iff)
  moreover have "list_all (\<lambda>r. r \<noteq> [] \<and> \<not> (33 \<le> cn (hd r) \<and> cn (hd r) \<le> 126)) (map rev space_runes)"
    using space_runes_table by (auto simp: list_all_iff hd_rev)
  moreover have "list_all (\<lambda>r. r \<noteq> [] \<and> \<not> (33 \<le> cn (hd r) \<and> cn (hd r) \<le> 126)) space_runes"
    using space_runes_table by (auto simp: list_all_iff)
  ultimately show ?thesis using v by (simp add: TrimSpace_def Let_def trim_left_visible)
qed

lemma b64_visible_table: "list_all (\<lambda>n. 33 \<le> cn (b64_char n) \<and> cn (b64_char n) \<le> 126) [0..<64]"
  by code_simp

lemma b64_char_visible: "n < 64 \<Longrightarrow> 33 \<le> cn (b64_char n) \<and> cn (b64_char n) \<le> 126"
  using b64_visible_table by (auto simp: list_all_iff)

lemma b64_visible [simp]: "visible (b64_encode s)"
  by (induction s rule: b64_encode.induct)
    (auto simp: visible_def b64_char_visible b64_bounds cn_div)

end
