(* ===== verification/Merkle.thy ===== *)
theory Merkle
  imports GoStd
begin

text \<open>
  \<^verbatim>\<open>kernel/internal/ledger/merkle.go\<close>: the RFC 6962 tree over the effect ledger. A Go
  \<^verbatim>\<open>Hash\<close> is an array of 32 bytes; here it is a byte string, and \<open>wf_hash\<close> says it has that
  length. Tree sizes are Go \<^verbatim>\<open>int\<close>s: the two verifiers, which receive them from outside, take
  \<open>int\<close> and check the sign as the code does; inside a tree they are list lengths.
\<close>

type_synonym hash = bytes

definition wf_hash :: "hash \<Rightarrow> bool" where
  "wf_hash h \<longleftrightarrow> length h = 32"

definition leafPrefix :: char where
  "leafPrefix = CHR 0x00"

definition interiorPrefix :: char where
  "interiorPrefix = CHR 0x01"

definition hash_String :: "hash \<Rightarrow> string" where
  "hash_String h = ''sha256:'' @ hex_encode h"

datatype hash_error = HashPrefix | HashHex | HashSize

definition ParseHash :: "string \<Rightarrow> hash_error + hash" where
  "ParseHash s =
     (if length s < length ''sha256:'' \<or> take (length ''sha256:'') s \<noteq> ''sha256:''
      then Inl HashPrefix
      else (case hex_decode (drop (length ''sha256:'') s) of
              None \<Rightarrow> Inl HashHex
            | Some raw \<Rightarrow> if length raw \<noteq> 32 then Inl HashSize else Inr raw))"

definition LeafHash :: "bytes \<Rightarrow> hash" where
  "LeafHash entryJSON = sha256 (leafPrefix # entryJSON)"

definition interiorHash :: "hash \<Rightarrow> hash \<Rightarrow> hash" where
  "interiorHash l r = sha256 (interiorPrefix # l @ r)"

definition EmptyRoot :: hash where
  "EmptyRoot = sha256 []"

section \<open>The tree shape\<close>

text \<open>
  The loop doubles \<open>k\<close> from 1 while twice \<open>k\<close> is below \<open>n\<close>. The guard \<open>0 < k\<close> holds
  throughout (it starts at 1); it is there so that the function is total.
\<close>

function pow2_loop :: "nat \<Rightarrow> nat \<Rightarrow> nat" where
  "pow2_loop k n = (if 0 < k \<and> 2 * k < n then pow2_loop (2 * k) n else k)"
  by pat_completeness auto
termination
  by (relation "measure (\<lambda>(k, n). n - k)") auto

declare pow2_loop.simps [simp del]

definition largestPowerOfTwoBelow :: "nat \<Rightarrow> nat" where
  "largestPowerOfTwoBelow n = pow2_loop 1 n"

lemma pow2_loop_bounds:
  "0 < k \<Longrightarrow> k < n \<Longrightarrow> k = 2 ^ i \<Longrightarrow>
   pow2_loop k n < n \<and> n \<le> 2 * pow2_loop k n \<and> (\<exists>j. pow2_loop k n = 2 ^ j)"
proof (induction k n arbitrary: i rule: pow2_loop.induct)
  case (1 k n)
  show ?case
  proof (cases "2 * k < n")
    case True
    have "pow2_loop (2 * k) n < n \<and> n \<le> 2 * pow2_loop (2 * k) n
        \<and> (\<exists>j. pow2_loop (2 * k) n = 2 ^ j)"
      by (rule "1.IH" [of "Suc i"]) (use True 1(2,4) in auto)
    with True 1 show ?thesis by (subst (1 2 3) pow2_loop.simps) simp
  next
    case False
    with 1 show ?thesis by (subst (1 2 3) pow2_loop.simps) auto
  qed
qed

lemma lp2_less: "1 < n \<Longrightarrow> largestPowerOfTwoBelow n < n"
  and lp2_double: "1 < n \<Longrightarrow> n \<le> 2 * largestPowerOfTwoBelow n"
  and lp2_power: "1 < n \<Longrightarrow> \<exists>j. largestPowerOfTwoBelow n = 2 ^ j"
  using pow2_loop_bounds [of 1 n 0] by (auto simp: largestPowerOfTwoBelow_def)

lemma lp2_pos: "1 < n \<Longrightarrow> 0 < largestPowerOfTwoBelow n"
  using lp2_double [of n] by linarith

lemmas lp2_bounds = lp2_less lp2_double lp2_pos

lemma lp2_pos_always: "0 < largestPowerOfTwoBelow n"
proof (cases "1 < n")
  case False
  then have "largestPowerOfTwoBelow n = 1"
    unfolding largestPowerOfTwoBelow_def by (subst pow2_loop.simps) auto
  then show ?thesis by simp
qed (rule lp2_pos)

lemma lp2_unique:
  assumes a: "2 ^ j < n" "n \<le> 2 * 2 ^ j"
  shows "largestPowerOfTwoBelow n = 2 ^ j"
proof -
  have "(1::nat) \<le> 2 ^ j" by simp
  with a have n: "1 < n" by linarith
  then obtain i where i: "largestPowerOfTwoBelow n = 2 ^ i" using lp2_power by blast
  have "(2::nat) ^ i < 2 ^ Suc j" "(2::nat) ^ j < 2 ^ Suc i"
    using lp2_less [OF n] lp2_double [OF n] a by (simp_all add: i)
  then have "i < Suc j" "j < Suc i"
    by (simp_all del: power_Suc)
  with i show ?thesis by simp
qed

function MerkleRoot :: "hash list \<Rightarrow> hash" where
  "MerkleRoot leaves =
     (if length leaves = 0 then EmptyRoot
      else if length leaves = 1 then leaves ! 0
      else let k = largestPowerOfTwoBelow (length leaves)
           in interiorHash (MerkleRoot (take k leaves)) (MerkleRoot (drop k leaves)))"
  by pat_completeness auto
termination
proof (relation "measure length", goal_cases)
  case (2 leaves x)
  then have "largestPowerOfTwoBelow (length leaves) < length leaves"
    by (intro lp2_less) linarith
  with 2 show ?case by simp
next
  case (3 leaves x)
  with lp2_pos_always [of "length leaves"] show ?case by (cases leaves) auto
qed simp

declare MerkleRoot.simps [simp del]

section \<open>Inclusion\<close>

function inclusionPath :: "hash list \<Rightarrow> nat \<Rightarrow> hash list" where
  "inclusionPath leaves index =
     (if length leaves \<le> 1 then []
      else let k = largestPowerOfTwoBelow (length leaves)
           in if index < k
              then inclusionPath (take k leaves) index @ [MerkleRoot (drop k leaves)]
              else inclusionPath (drop k leaves) (index - k) @ [MerkleRoot (take k leaves)])"
  by pat_completeness auto
termination
proof (relation "measure (\<lambda>(l, i). length l)", goal_cases)
  case (2 leaves index x)
  then have "largestPowerOfTwoBelow (length leaves) < length leaves"
    by (intro lp2_less) linarith
  with 2 show ?case by simp
next
  case (3 leaves index x)
  with lp2_pos_always [of "length leaves"] show ?case by (cases leaves) auto
qed simp

declare inclusionPath.simps [simp del]

datatype proof_error = IndexOutOfRange | NegativeSize | OldExceedsNew | TooFewLeaves

definition InclusionProof :: "hash list \<Rightarrow> int \<Rightarrow> proof_error + hash list" where
  "InclusionProof leaves index =
     (if index < 0 \<or> index \<ge> int (length leaves) then Inl IndexOutOfRange
      else Inr (inclusionPath leaves (nat index)))"

text \<open>The inner loop \<^verbatim>\<open>for fn != 0 && fn&1 == 0\<close>: both cursors climb to the next right child.\<close>

fun climb_even :: "nat \<Rightarrow> nat \<Rightarrow> nat \<times> nat" where
  "climb_even fn sn =
     (if fn \<noteq> 0 \<and> fn mod 2 = 0 then climb_even (fn div 2) (sn div 2) else (fn, sn))"

declare climb_even.simps [simp del]

text \<open>The body of the loop over the proof: \<open>None\<close> is the early \<^verbatim>\<open>return false\<close>.\<close>

fun inclusion_loop :: "hash list \<Rightarrow> nat \<Rightarrow> nat \<Rightarrow> hash \<Rightarrow> (nat \<times> hash) option" where
  "inclusion_loop [] fn sn computed = Some (sn, computed)"
| "inclusion_loop (sibling # proof) fn sn computed =
     (if sn = 0 then None
      else if fn mod 2 = 1 \<or> fn = sn then
        (case climb_even fn sn of
           (fn', sn') \<Rightarrow> inclusion_loop proof (fn' div 2) (sn' div 2) (interiorHash sibling computed))
      else inclusion_loop proof (fn div 2) (sn div 2) (interiorHash computed sibling))"

definition VerifyInclusion :: "hash \<Rightarrow> int \<Rightarrow> int \<Rightarrow> hash list \<Rightarrow> hash \<Rightarrow> bool" where
  "VerifyInclusion leaf index treeSize proof root =
     (if index < 0 \<or> treeSize \<le> 0 \<or> index \<ge> treeSize then False
      else (case inclusion_loop proof (nat index) (nat (treeSize - 1)) leaf of
              None \<Rightarrow> False
            | Some (sn, computed) \<Rightarrow> sn = 0 \<and> computed = root))"

section \<open>Consistency\<close>

text \<open>
  The branch \<open>n \<le> 1\<close> with \<open>m \<noteq> n\<close> is not reached from \<^verbatim>\<open>ConsistencyProof\<close>, which calls with
  \<open>0 < m < n\<close> (there the Go recursion would not return); it makes the function total.
\<close>

function subProof :: "hash list \<Rightarrow> nat \<Rightarrow> bool \<Rightarrow> hash list" where
  "subProof leaves m complete =
     (let n = length leaves in
      if m = n then (if complete then [] else [MerkleRoot leaves])
      else if n \<le> 1 then []
      else let k = largestPowerOfTwoBelow n in
           if m \<le> k then subProof (take k leaves) m complete @ [MerkleRoot (drop k leaves)]
           else subProof (drop k leaves) (m - k) False @ [MerkleRoot (take k leaves)])"
  by pat_completeness auto
termination
proof (relation "measure (\<lambda>(l, m, c). length l)", goal_cases)
  case (2 leaves m complete x xa)
  then have "largestPowerOfTwoBelow (length leaves) < length leaves"
    by (intro lp2_less) linarith
  with 2 show ?case by simp
next
  case (3 leaves m complete x xa)
  with lp2_pos_always [of "length leaves"] show ?case by (cases leaves) auto
qed simp

declare subProof.simps [simp del]

definition ConsistencyProof :: "hash list \<Rightarrow> int \<Rightarrow> int \<Rightarrow> proof_error + hash list" where
  "ConsistencyProof leaves m n =
     (if m < 0 \<or> n < 0 then Inl NegativeSize
      else if m > n then Inl OldExceedsNew
      else if n > int (length leaves) then Inl TooFewLeaves
      else if m = 0 \<or> m = n then Inr []
      else Inr (subProof (take (nat n) leaves) (nat m) True))"

text \<open>The seeding loop \<^verbatim>\<open>for fn&1 == 1\<close>.\<close>

fun climb_odd :: "nat \<Rightarrow> nat \<Rightarrow> nat \<times> nat" where
  "climb_odd fn sn = (if fn mod 2 = 1 then climb_odd (fn div 2) (sn div 2) else (fn, sn))"

declare climb_odd.simps [simp del]

fun consistency_loop ::
  "hash list \<Rightarrow> nat \<Rightarrow> nat \<Rightarrow> hash \<Rightarrow> hash \<Rightarrow> (nat \<times> hash \<times> hash) option" where
  "consistency_loop [] fn sn oldHash newHash = Some (sn, oldHash, newHash)"
| "consistency_loop (sibling # rest) fn sn oldHash newHash =
     (if sn = 0 then None
      else if fn mod 2 = 1 \<or> fn = sn then
        (case climb_even fn sn of
           (fn', sn') \<Rightarrow> consistency_loop rest (fn' div 2) (sn' div 2)
             (interiorHash sibling oldHash) (interiorHash sibling newHash))
      else consistency_loop rest (fn div 2) (sn div 2) oldHash (interiorHash newHash sibling))"

definition VerifyConsistency :: "int \<Rightarrow> int \<Rightarrow> hash \<Rightarrow> hash \<Rightarrow> hash list \<Rightarrow> bool" where
  "VerifyConsistency m n oldRoot newRoot proof =
     (if m < 0 \<or> n < 0 \<or> m > n then False
      else if m = 0 then proof = []
      else if m = n then proof = [] \<and> oldRoot = newRoot
      else case proof of
        [] \<Rightarrow> False
      | p # ps \<Rightarrow>
          (case climb_odd (nat (m - 1)) (nat (n - 1)) of
             (fn, sn) \<Rightarrow>
               (let (seed, rest) = (if fn \<noteq> 0 then (p, ps) else (oldRoot, proof)) in
                case consistency_loop rest fn sn seed seed of
                  None \<Rightarrow> False
                | Some (sn', oldHash, newHash) \<Rightarrow>
                    sn' = 0 \<and> oldHash = oldRoot \<and> newHash = newRoot)))"

section \<open>The compact tree\<close>

record compact_tree =
  ct_size :: nat
  ct_nodes :: "hash list"

definition ct_empty :: compact_tree where
  "ct_empty = \<lparr>ct_size = 0, ct_nodes = []\<rparr>"

text \<open>
  The carry loop. Reading \<^verbatim>\<open>t.nodes[level]\<close> out of range panics in Go: \<open>None\<close> here.
\<close>

function ct_carry :: "nat \<Rightarrow> hash list \<Rightarrow> nat \<Rightarrow> hash \<Rightarrow> (hash \<times> nat) option" where
  "ct_carry sz nodes level carry =
     (if sz div 2 ^ level mod 2 = 1 then
        (if level < length nodes
         then ct_carry sz nodes (Suc level) (interiorHash (nodes ! level) carry)
         else None)
      else Some (carry, level))"
  by pat_completeness auto
termination
  by (relation "measure (\<lambda>(s, nodes, level, c). length nodes - level)") auto

declare ct_carry.simps [simp del]

definition ct_Append :: "compact_tree \<Rightarrow> hash \<Rightarrow> compact_tree option" where
  "ct_Append t leaf =
     (case ct_carry (ct_size t) (ct_nodes t) 0 leaf of
        None \<Rightarrow> None
      | Some (carry, level) \<Rightarrow>
          (let nodes = ct_nodes t @ replicate (Suc level - length (ct_nodes t)) (replicate 32 (CHR 0x00))
           in Some \<lparr>ct_size = ct_size t + 1, ct_nodes = nodes[level := carry]\<rparr>))"

fun ct_fold :: "nat \<Rightarrow> nat \<Rightarrow> hash list \<Rightarrow> hash option \<Rightarrow> hash option" where
  "ct_fold sz level [] acc = acc"
| "ct_fold sz level (h # hs) acc =
     (if sz div 2 ^ level mod 2 = 0 then ct_fold sz (Suc level) hs acc
      else case acc of
             None \<Rightarrow> ct_fold sz (Suc level) hs (Some h)
           | Some root \<Rightarrow> ct_fold sz (Suc level) hs (Some (interiorHash h root)))"

text \<open>
  \<^verbatim>\<open>var root Hash\<close> is the zero hash until the first live level is met; a nonempty tree always
  has one.
\<close>

definition ct_Root :: "compact_tree \<Rightarrow> hash" where
  "ct_Root t =
     (if ct_size t = 0 then EmptyRoot
      else case ct_fold (ct_size t) 0 (ct_nodes t) None of
             None \<Rightarrow> replicate 32 (CHR 0x00)
           | Some root \<Rightarrow> root)"

fun ct_append_all :: "compact_tree \<Rightarrow> hash list \<Rightarrow> compact_tree option" where
  "ct_append_all t [] = Some t"
| "ct_append_all t (h # hs) =
     (case ct_Append t h of None \<Rightarrow> None | Some t' \<Rightarrow> ct_append_all t' hs)"

end
