(* ===== verification/Merkle_Walk.thy ===== *)
theory Merkle_Walk
  imports Merkle
begin

text \<open>
  The two verifiers of \<^verbatim>\<open>merkle.go\<close> climb the tree with the same pair of cursors and differ only
  in what a sibling does to the accumulated hashes. This theory proves the climb once, over an
  abstract accumulator: \<open>walk\<close> is the loop, \<open>climb\<close> the recursion over the tree shape that RFC
  6962 defines, and \<open>walk_iff_climb\<close> says the loop accepts exactly the proofs of that shape and
  folds them in the same order.
\<close>

fun walk ::
  "('h \<Rightarrow> 's \<Rightarrow> 's) \<Rightarrow> ('h \<Rightarrow> 's \<Rightarrow> 's) \<Rightarrow> 'h list \<Rightarrow> nat \<Rightarrow> nat \<Rightarrow> 's \<Rightarrow> (nat \<times> 's) option" where
  "walk l r [] fn sn st = Some (sn, st)"
| "walk l r (x # p) fn sn st =
     (if sn = 0 then None
      else if fn mod 2 = 1 \<or> fn = sn then
        (case climb_even fn sn of (fn', sn') \<Rightarrow> walk l r p (fn' div 2) (sn' div 2) (l x st))
      else walk l r p (fn div 2) (sn div 2) (r x st))"

lemma inclusion_loop_walk:
  "inclusion_loop p fn sn c = walk interiorHash (\<lambda>x c. interiorHash c x) p fn sn c"
  by (induction p fn sn c rule: inclusion_loop.induct) (auto split: prod.splits)

lemma consistency_loop_walk:
  "consistency_loop p fn sn old new =
     walk (\<lambda>x (a, b). (interiorHash x a, interiorHash x b)) (\<lambda>x (a, b). (a, interiorHash b x))
       p fn sn (old, new)"
  by (induction p fn sn old new rule: consistency_loop.induct) (auto split: prod.splits)

text \<open>
  The recursion over the tree: the path of the perfect block of \<open>2 ^ t\<close> leaves that starts at
  leaf \<open>i\<close> in a tree of \<open>n\<close> leaves, siblings bottom-up.
\<close>

function climb ::
  "('h \<Rightarrow> 's \<Rightarrow> 's) \<Rightarrow> ('h \<Rightarrow> 's \<Rightarrow> 's) \<Rightarrow> nat \<Rightarrow> nat \<Rightarrow> nat \<Rightarrow> 's \<Rightarrow> 'h list \<Rightarrow> 's option" where
  "climb l r t n i st p =
     (if n \<le> 2 ^ t then (if p = [] then Some st else None)
      else if p = [] then None
      else let k = largestPowerOfTwoBelow n in
           if i < k then map_option (r (last p)) (climb l r t k i st (butlast p))
           else map_option (l (last p)) (climb l r t (n - k) (i - k) st (butlast p)))"
  by pat_completeness auto
termination
  by (relation "measure (\<lambda>(l, r, t, n, i, st, p). length p)") auto

declare climb.simps [simp del]

subsection \<open>How the cursors of a subtree relate to those of the whole tree\<close>

lemma climb_even_odd: "fn mod 2 = 1 \<Longrightarrow> climb_even fn sn = (fn, sn)"
  by (subst climb_even.simps) simp

lemma climb_even_power: "climb_even (2 ^ e) (2 ^ e) = (1, 1)"
  by (induction e) (subst climb_even.simps, simp)+

lemma climb_even_shift:
  "f \<noteq> 0 \<Longrightarrow> f \<le> s \<Longrightarrow> s < 2 ^ e \<Longrightarrow>
   \<exists>d f' s'. climb_even f s = (f', s') \<and> climb_even (f + 2 ^ e) (s + 2 ^ e) = (f' + 2 ^ Suc d, s' + 2 ^ Suc d)
     \<and> f' \<le> s' \<and> s' < 2 ^ Suc d"
proof (induction f s arbitrary: e rule: climb_even.induct)
  case (1 f s)
  obtain d where e: "e = Suc d"
    using 1(2-4) by (cases e) auto
  show ?case
  proof (cases "f mod 2 = 0")
    case False
    then have "(f + 2 ^ e) mod 2 = 1" by (simp add: e)
    with False 1(2-4) show ?thesis
      by (intro exI [of _ d] exI [of _ f] exI [of _ s]) (simp add: climb_even_odd e)
  next
    case True
    then have half: "f div 2 \<noteq> 0" "f div 2 \<le> s div 2" "s div 2 < 2 ^ d"
      using 1(2-4) e by auto
    have step: "climb_even f s = climb_even (f div 2) (s div 2)"
      using True 1(2) by (subst climb_even.simps) simp
    have step': "climb_even (f + 2 ^ e) (s + 2 ^ e) = climb_even (f div 2 + 2 ^ d) (s div 2 + 2 ^ d)"
      using True 1(2) by (subst climb_even.simps) (simp add: e add.commute)
    show ?thesis
      unfolding step step' using "1.IH" [OF _ half] True 1(2) by simp
  qed
qed

text \<open>
  The right subtree below a left sibling of \<open>2 ^ e\<close> nodes: both cursors carry the extra bit, and
  when the subtree's walk is over they have met at a power of two.
\<close>

lemma walk_right:
  "walk l r p f s st = Some (0, st') \<Longrightarrow> f \<le> s \<Longrightarrow> s < 2 ^ e \<Longrightarrow>
   \<exists>e'. \<forall>q. walk l r (p @ q) (f + 2 ^ e) (s + 2 ^ e) st = walk l r q (2 ^ e') (2 ^ e') st'"
proof (induction p arbitrary: f s st e)
  case Nil
  then show ?case by (auto intro: exI [of _ e])
next
  case (Cons x p)
  then have s: "s \<noteq> 0" by (auto split: if_splits)
  with Cons.prems obtain d where e: "e = Suc d" by (cases e) auto
  show ?case
  proof (cases "f mod 2 = 1 \<or> f = s")
    case True
    with s have "f \<noteq> 0" by auto
    from climb_even_shift [OF this Cons.prems(2,3)] obtain d' f' s' where c:
      "climb_even f s = (f', s')"
      "climb_even (f + 2 ^ e) (s + 2 ^ e) = (f' + 2 ^ Suc d', s' + 2 ^ Suc d')"
      "f' \<le> s'" "s' < 2 ^ Suc d'"
      by blast
    have "walk l r p (f' div 2) (s' div 2) (l x st) = Some (0, st')"
      using Cons.prems(1) True s c(1) by simp
    moreover have "f' div 2 \<le> s' div 2" "s' div 2 < 2 ^ d'"
      using c(3,4) by auto
    ultimately obtain e' where
      "\<forall>q. walk l r (p @ q) (f' div 2 + 2 ^ d') (s' div 2 + 2 ^ d') (l x st) = walk l r q (2 ^ e') (2 ^ e') st'"
      using Cons.IH by blast
    moreover have "(f + 2 ^ e) mod 2 = 1 \<or> f + 2 ^ e = s + 2 ^ e"
      using True e by auto
    ultimately show ?thesis
      using s c(2) by (intro exI [of _ e']) (simp add: add.commute)
  next
    case False
    then have "walk l r p (f div 2) (s div 2) (r x st) = Some (0, st')"
      using Cons.prems(1) s by simp
    moreover have "f div 2 \<le> s div 2" "s div 2 < 2 ^ d"
      using Cons.prems(2,3) e by auto
    ultimately obtain e' where
      "\<forall>q. walk l r (p @ q) (f div 2 + 2 ^ d) (s div 2 + 2 ^ d) (r x st) = walk l r q (2 ^ e') (2 ^ e') st'"
      using Cons.IH by blast
    moreover have "\<not> ((f + 2 ^ e) mod 2 = 1 \<or> f + 2 ^ e = s + 2 ^ e)"
      using False e by auto
    ultimately show ?thesis
      using s e by (intro exI [of _ e']) (simp add: add.commute)
  qed
qed

text \<open>The left subtree is perfect: its walk never meets the ragged edge of the whole tree.\<close>

lemma walk_left:
  "walk l r p f (2 ^ a - 1) st = Some (0, st') \<Longrightarrow> f < 2 ^ a \<Longrightarrow> 2 ^ a \<le> s \<Longrightarrow>
   walk l r (p @ q) f s st = walk l r q 0 (s div 2 ^ a) st'"
proof (induction p arbitrary: f a s st)
  case Nil
  then have "(2::nat) ^ a \<le> 1" by simp
  then have "(2::nat) ^ a = 1" using one_le_power [of "2::nat" a] by linarith
  with Nil show ?case by simp
next
  case (Cons x p)
  obtain b where a: "a = Suc b" using Cons.prems(1) by (cases a) auto
  have half: "(2 ^ a - 1) div 2 = (2::nat) ^ b - 1" using a by simp
  have "(2::nat) \<le> 2 ^ a" using power_increasing [of 1 a "2::nat"] a by simp
  then have nz: "(2::nat) ^ a - 1 \<noteq> 0" by linarith
  have nx: "f div 2 < 2 ^ b" "2 ^ b \<le> s div 2" "s div 2 div 2 ^ b = s div 2 ^ a" "s \<noteq> 0" "f \<noteq> s"
    using Cons.prems(2,3) a by (auto simp: div_mult2_eq)
  show ?case
  proof (cases "f mod 2 = 1")
    case True
    then have "walk l r p (f div 2) (2 ^ b - 1) (l x st) = Some (0, st')"
      using Cons.prems(1) nz half by (simp add: climb_even_odd)
    from Cons.IH [OF this nx(1,2)] True nx(3-) show ?thesis
      by (simp add: climb_even_odd)
  next
    case False
    have "odd ((2::nat) ^ a - 1)" using a by simp
    with False have "f \<noteq> 2 ^ a - 1" by (metis odd_iff_mod_2_eq_one)
    with Cons.prems(1) nz half False have "walk l r p (f div 2) (2 ^ b - 1) (r x st) = Some (0, st')"
      by simp
    from Cons.IH [OF this nx(1,2)] False nx(3-) show ?thesis by simp
  qed
qed

subsection \<open>The loop depends on the proof only through its length\<close>

lemma walk_length_only:
  "length p = length p' \<Longrightarrow>
   map_option fst (walk l r p fn sn st) = map_option fst (walk l r p' fn sn st')"
  by (induction p p' arbitrary: fn sn st st' rule: list_induct2) (auto split: prod.splits)

lemma walk_stops: "walk l r p fn sn st = Some (0, a) \<Longrightarrow> q \<noteq> [] \<Longrightarrow> walk l r (p @ q) fn sn st = None"
proof (induction p arbitrary: fn sn st)
  case Nil
  then show ?case by (cases q) auto
next
  case (Cons x p)
  then show ?case by (auto split: if_splits prod.splits)
qed

lemma walk_same_length:
  assumes a: "walk l r p fn sn st = Some (0, a)" and b: "walk l r p' fn sn st' = Some (0, b)"
  shows "length p = length p'"
proof (rule ccontr)
  assume ne: "length p \<noteq> length p'"
  have False if w: "walk l r p fn sn st = Some (0, a)" "walk l r p' fn sn st' = Some (0, b)"
      and lt: "length p < length p'" for p p' a b st st'
  proof -
    have "map_option fst (walk l r (take (length p) p') fn sn st) = Some 0"
      using walk_length_only [of "take (length p) p'" p l r fn sn st st] w(1) lt by simp
    then obtain c where c: "walk l r (take (length p) p') fn sn st = Some (0, c)" by auto
    have "drop (length p) p' \<noteq> []" using lt by simp
    from walk_stops [OF c this] have "walk l r p' fn sn st = None" by simp
    with walk_length_only [of p' p' l r fn sn st st'] w(2) show False by simp
  qed
  from this [OF a b] this [OF b a] ne show False by (meson linorder_neqE_nat)
qed

subsection \<open>The loop computes the recursion over the tree\<close>

lemma lp2_ge_block: "2 ^ t < n \<Longrightarrow> 2 ^ t \<le> largestPowerOfTwoBelow n"
proof -
  assume n: "(2::nat) ^ t < n"
  have "(1::nat) \<le> 2 ^ t" by simp
  with n have "1 < n" by linarith
  then obtain j where j: "largestPowerOfTwoBelow n = 2 ^ j" "n \<le> 2 * 2 ^ j"
    using lp2_power lp2_double by metis
  with n have "(2::nat) ^ t < 2 ^ Suc j" by simp
  then have "t < Suc j" by (simp del: power_Suc)
  with j show ?thesis by simp
qed

lemma block_pred_div:
  assumes "0 < b" "0 < e"
  shows "(b * e - 1) div b = e - (1::nat)"
proof (rule div_nat_eqI)
  show "b * (e - 1) \<le> b * e - 1" "b * e - 1 < b * Suc (e - 1)"
    using assms by (auto simp: diff_mult_distrib2)
qed

lemma block_one: "b * e < n \<Longrightarrow> n \<le> 2 * (b * e) \<Longrightarrow> (n - 1) div b div e = (1::nat)"
  unfolding div_mult2_eq [symmetric] by (intro div_nat_eqI) auto

lemma block_ge: "0 < b \<Longrightarrow> b * e < n \<Longrightarrow> e \<le> (n - 1) div (b::nat)"
  using div_le_mono [of "b * e" "n - 1" b] by simp

lemma block_shift: "0 < b \<Longrightarrow> b * e \<le> i \<Longrightarrow> (i - b * e) div b + e = i div (b::nat)"
  using div_mult_self3 [of b e "i - b * e"] by (simp add: add.commute mult.commute)

lemma power_split: "t \<le> j \<Longrightarrow> (2::nat) ^ j = 2 ^ t * 2 ^ (j - t)"
  by (simp flip: power_add)

lemma dvd_block_le: "b dvd k \<Longrightarrow> i < k \<Longrightarrow> b dvd i \<Longrightarrow> i + b \<le> (k::nat)"
proof -
  assume a: "b dvd k" "i < k" "b dvd i"
  then have "b dvd k - i" "0 < k - i" by (simp_all add: dvd_diff_nat)
  then have "b \<le> k - i" by (rule dvd_imp_le)
  with a show ?thesis by linarith
qed

lemma walk_climb:
  "climb l r t n i st p = Some a \<Longrightarrow> 2 ^ t dvd i \<Longrightarrow> i + 2 ^ t \<le> n \<Longrightarrow>
   walk l r p (i div 2 ^ t) ((n - 1) div 2 ^ t) st = Some (0, a)"
proof (induction l r t n i st p arbitrary: a rule: climb.induct)
  case (1 l r t n i st p)
  show ?case
  proof (cases "n \<le> 2 ^ t")
    case True
    with 1(3-5) have "p = []" "a = st" "i = 0" "n = 2 ^ t"
      by (auto simp: climb.simps [of l r t n] split: if_splits)
    then show ?thesis by simp
  next
    case big: False
    define k where k: "k = largestPowerOfTwoBelow n"
    have "(1::nat) \<le> 2 ^ t" by simp
    with big have n1: "1 < n" by linarith
    obtain j where j: "k = 2 ^ j" using lp2_power [OF n1] k by blast
    have kn: "k < n" "n \<le> 2 * k" using lp2_bounds [OF n1] k by auto
    have tj: "t \<le> j" using lp2_ge_block [of t n] big by (simp add: k [symmetric] j)
    note split = power_split [OF tj]
    have p: "p \<noteq> []" using 1(3) big by (auto simp: climb.simps [of l r t n] split: if_splits)
    then have p': "p = butlast p @ [last p]" by simp
    show ?thesis
    proof (cases "i < k")
      case True
      then obtain b where b: "climb l r t k i st (butlast p) = Some b" "a = r (last p) b"
        using 1(3) big p by (subst (asm) climb.simps) (auto simp: k Let_def)
      have "2 ^ t dvd k" using split j by simp
      then have ik: "i + 2 ^ t \<le> k"
        using True 1(4) by (rule dvd_block_le)
      have "walk l r (butlast p) (i div 2 ^ t) ((k - 1) div 2 ^ t) st = Some (0, b)"
        by (rule "1.IH"(1) [OF big p k True b(1) 1(4) ik])
      moreover have "(k - 1) div 2 ^ t = 2 ^ (j - t) - 1"
        unfolding j split by (rule block_pred_div) simp_all
      ultimately have w: "walk l r (butlast p) (i div 2 ^ t) (2 ^ (j - t) - 1) st = Some (0, b)"
        by simp
      have s: "(n - 1) div 2 ^ t div 2 ^ (j - t) = 1"
        using kn unfolding j split by (rule block_one)
      have "i div 2 ^ t < 2 ^ (j - t)"
        using True unfolding j split by (metis less_mult_imp_div_less mult.commute)
      moreover have "2 ^ (j - t) \<le> (n - 1) div 2 ^ t"
        using kn(1) unfolding j split by (intro block_ge) simp_all
      ultimately have "walk l r (butlast p @ [last p]) (i div 2 ^ t) ((n - 1) div 2 ^ t) st
          = walk l r [last p] 0 ((n - 1) div 2 ^ t div 2 ^ (j - t)) b"
        by (rule walk_left [OF w])
      with p' s b(2) show ?thesis by simp
    next
      case False
      then obtain b where b: "climb l r t (n - k) (i - k) st (butlast p) = Some b" "a = l (last p) b"
        using 1(3) big p by (subst (asm) climb.simps) (auto simp: k Let_def)
      have d: "2 ^ t dvd i - k" using 1(4) split j False by (simp add: dvd_diff_nat)
      have ik: "i - k + 2 ^ t \<le> n - k" using 1(5) False by linarith
      have w: "walk l r (butlast p) ((i - k) div 2 ^ t) ((n - k - 1) div 2 ^ t) st = Some (0, b)"
        by (rule "1.IH"(2) [OF big p k False b(1) d ik])
      have le: "(i - k) div 2 ^ t \<le> (n - k - 1) div 2 ^ t"
        using ik by (intro div_le_mono) (use \<open>1 \<le> 2 ^ t\<close> in linarith)
      have "n - k - 1 < 2 ^ t * 2 ^ (j - t)" using kn n1 split j by simp
      then have lt: "(n - k - 1) div 2 ^ t < 2 ^ (j - t)"
        by (simp add: less_mult_imp_div_less mult.commute)
      have f: "(i - k) div 2 ^ t + 2 ^ (j - t) = i div 2 ^ t"
        using False unfolding j split by (intro block_shift) simp_all
      have "n - k - 1 = n - 1 - k" by simp
      then have s: "(n - k - 1) div 2 ^ t + 2 ^ (j - t) = (n - 1) div 2 ^ t"
        using kn(1) unfolding j split by (simp only:) (intro block_shift, simp_all)
      from walk_right [OF w le lt] obtain e where
        "walk l r (butlast p @ [last p]) (i div 2 ^ t) ((n - 1) div 2 ^ t) st
          = walk l r [last p] (2 ^ e) (2 ^ e) b"
        unfolding f s by blast
      with p' b(2) show ?thesis by (simp add: climb_even_power)
    qed
  qed
qed

text \<open>The recursion accepts every proof of one length, and the loop no other.\<close>

lemma climb_defined: "\<exists>d. \<forall>st p. climb l r t n i st p \<noteq> None \<longleftrightarrow> length p = d"
proof (induction n arbitrary: i rule: less_induct)
  case (less n)
  show ?case
  proof (cases "n \<le> 2 ^ t")
    case True
    then show ?thesis by (intro exI [of _ 0]) (simp add: climb.simps [of l r t n])
  next
    case False
    have "(1::nat) \<le> 2 ^ t" by simp
    with False have n1: "1 < n" by linarith
    define k where k: "k = largestPowerOfTwoBelow n"
    obtain a where a: "\<forall>st p. climb l r t k i st p \<noteq> None \<longleftrightarrow> length p = a"
      using less [of k i] lp2_bounds [OF n1] k by auto
    obtain b where b: "\<forall>st p. climb l r t (n - k) (i - k) st p \<noteq> None \<longleftrightarrow> length p = b"
      using less [of "n - k" "i - k"] lp2_bounds [OF n1] k by auto
    have "climb l r t n i st p \<noteq> None \<longleftrightarrow> length p = (if i < k then Suc a else Suc b)" for st p
      using False a b by (subst climb.simps) (auto simp: k [symmetric] Let_def)
    then show ?thesis by blast
  qed
qed

theorem walk_iff_climb:
  assumes i: "2 ^ t dvd i" "i + 2 ^ t \<le> n"
  shows "walk l r p (i div 2 ^ t) ((n - 1) div 2 ^ t) st = Some (0, a) \<longleftrightarrow> climb l r t n i st p = Some a"
proof
  assume w: "walk l r p (i div 2 ^ t) ((n - 1) div 2 ^ t) st = Some (0, a)"
  obtain d where d: "\<forall>st p. climb l r t n i st p \<noteq> None \<longleftrightarrow> length p = d"
    using climb_defined [of l r t n i] by blast
  show "climb l r t n i st p = Some a"
  proof (cases p)
    case Nil
    with w have "(n - 1) div 2 ^ t = 0" "a = st" by auto
    then have "n - 1 < 2 ^ t" by (simp add: div_eq_0_iff)
    then have "n \<le> 2 ^ t" by linarith
    with Nil \<open>a = st\<close> show ?thesis by (simp add: climb.simps [of l r t n])
  next
    case (Cons x q)
    obtain b where b: "climb l r t n i st (replicate d x) = Some b" using d by fastforce
    have "length p = d"
      using walk_same_length [OF w walk_climb [OF b i]] by simp
    with d obtain c where c: "climb l r t n i st p = Some c" by fastforce
    from walk_climb [OF c i] w c show ?thesis by simp
  qed
qed (rule walk_climb [OF _ i])

text \<open>Two accumulators related by a projection.\<close>

lemma climb_project:
  assumes "\<And>x s. f (l x s) = l' x (f s)" "\<And>x s. f (r x s) = r' x (f s)"
  shows "map_option f (climb l r t n i st p) = climb l' r' t n i (f st) p"
  using assms
proof (induction l r t n i st p rule: climb.induct)
  case (1 l r t n i st p)
  note eqs = climb.simps [of l r t n i st p] climb.simps [of l' r' t n i "f st" p]
  show ?case
  proof (cases "n \<le> 2 ^ t \<or> p = []")
    case True
    then show ?thesis by (auto simp: eqs)
  next
    case False
    then have n: "\<not> n \<le> 2 ^ t" and p: "p \<noteq> []" by auto
    define k where k: "k = largestPowerOfTwoBelow n"
    have comp: "map_option f (map_option (h (last p)) z) = map_option (h' (last p)) (map_option f z)"
      if "\<And>x s. f (h x s) = h' x (f s)" for h h' z
      using that by (cases z) auto
    show ?thesis
    proof (cases "i < k")
      case True
      from "1.IH"(1) [OF n p k True "1.prems"] comp [of r r', OF "1.prems"(2)] n p True show ?thesis
        by (simp add: eqs Let_def k [symmetric])
    next
      case False
      from "1.IH"(2) [OF n p k False "1.prems"] comp [of l l', OF "1.prems"(1)] n p False show ?thesis
        by (simp add: eqs Let_def k [symmetric])
    qed
  qed
qed

end
