(* ===== verification/Merkle_Proofs.thy ===== *)
theory Merkle_Proofs
  imports Merkle_Walk
begin

text \<open>
  What the proofs of \<^verbatim>\<open>merkle.go\<close> prove. Completeness: the proofs the code builds are accepted.
  Soundness: an accepted proof shows what it claims, or the byte strings that were hashed, listed
  by \<open>root_inputs\<close> (building a tree) and \<open>inclusion_inputs\<close>/\<open>consistency_inputs\<close> (checking a
  proof), hold two different ones with the same SHA-256. The compact tree computes the same head.
\<close>

abbreviation wf_hashes :: "hash list \<Rightarrow> bool" where
  "wf_hashes hs \<equiv> list_all wf_hash hs"

lemma wf_hash_sha [simp]: "wf_hash (sha256 m)" "wf_hash (LeafHash m)" "wf_hash (interiorHash l r)"
    "wf_hash EmptyRoot"
  by (simp_all add: wf_hash_def LeafHash_def interiorHash_def EmptyRoot_def)

lemma wf_hashes_take [simp]: "wf_hashes hs \<Longrightarrow> wf_hashes (take k hs)"
  by (auto simp: list_all_iff dest: in_set_takeD)

lemma wf_hashes_drop [simp]: "wf_hashes hs \<Longrightarrow> wf_hashes (drop k hs)"
  by (auto simp: list_all_iff dest: in_set_dropD)

section \<open>The head as a function of the leaves\<close>

lemma MerkleRoot_Nil [simp]: "MerkleRoot [] = EmptyRoot"
  and MerkleRoot_one [simp]: "MerkleRoot [h] = h"
  by (subst MerkleRoot.simps, simp)+

lemma MerkleRoot_split:
  "1 < length hs \<Longrightarrow> k = largestPowerOfTwoBelow (length hs) \<Longrightarrow>
   MerkleRoot hs = interiorHash (MerkleRoot (take k hs)) (MerkleRoot (drop k hs))"
  by (subst MerkleRoot.simps) (auto simp: Let_def)

text \<open>The byte strings hashed while computing a head.\<close>

function root_inputs :: "hash list \<Rightarrow> bytes list" where
  "root_inputs hs =
     (if length hs = 0 then [[]]
      else if length hs = 1 then []
      else let k = largestPowerOfTwoBelow (length hs)
           in (interiorPrefix # MerkleRoot (take k hs) @ MerkleRoot (drop k hs))
              # root_inputs (take k hs) @ root_inputs (drop k hs))"
  by pat_completeness auto
termination
proof (relation "measure length", goal_cases)
  case (2 hs x)
  then have "largestPowerOfTwoBelow (length hs) < length hs"
    by (intro lp2_less) linarith
  with 2 show ?case by simp
next
  case (3 hs x)
  with lp2_pos_always [of "length hs"] show ?case by (cases hs) auto
qed simp

declare root_inputs.simps [simp del]

lemma root_inputs_split:
  "1 < length hs \<Longrightarrow> k = largestPowerOfTwoBelow (length hs) \<Longrightarrow>
   root_inputs hs = (interiorPrefix # MerkleRoot (take k hs) @ MerkleRoot (drop k hs))
     # root_inputs (take k hs) @ root_inputs (drop k hs)"
  by (subst root_inputs.simps) (auto simp: Let_def)

lemma length_induct_split:
  assumes "P []" "\<And>h. P [h]"
    and "\<And>hs k. 1 < length hs \<Longrightarrow> k = largestPowerOfTwoBelow (length hs) \<Longrightarrow>
      P (take k hs) \<Longrightarrow> P (drop k hs) \<Longrightarrow> P hs"
  shows "P (hs :: 'a list)"
proof (induction hs rule: length_induct)
  case (1 hs)
  show ?case
  proof (cases "1 < length hs")
    case True
    then show ?thesis using 1 lp2_bounds [OF True] by (intro assms(3) [OF True refl]) auto
  next
    case False
    then show ?thesis using assms(1,2) by (cases hs) auto
  qed
qed

lemma wf_MerkleRoot [simp]: "wf_hashes hs \<Longrightarrow> wf_hash (MerkleRoot hs)"
proof (induction hs rule: length_induct_split)
  case (3 hs k)
  then show ?case by (simp only: MerkleRoot_split [OF 3(1,2)] wf_hash_sha)
qed auto

lemma interior_inject:
  assumes "inj_on sha256 X" "interiorPrefix # l @ r \<in> X" "interiorPrefix # l' @ r' \<in> X"
    and "wf_hash l" "wf_hash l'" "interiorHash l r = interiorHash l' r'"
  shows "l = l' \<and> r = r'"
proof -
  have "interiorPrefix # l @ r = interiorPrefix # l' @ r'"
    by (rule inj_onD [OF assms(1) _ assms(2,3), OF assms(6) [unfolded interiorHash_def]])
  with assms(4,5) show ?thesis by (simp add: wf_hash_def)
qed

lemma root_same_length:
  "length hs = length hs' \<Longrightarrow> wf_hashes hs \<Longrightarrow> wf_hashes hs' \<Longrightarrow>
   inj_on sha256 (set (root_inputs hs) \<union> set (root_inputs hs')) \<Longrightarrow>
   MerkleRoot hs = MerkleRoot hs' \<Longrightarrow> hs = hs'"
proof (induction hs arbitrary: hs' rule: length_induct_split)
  case (2 h)
  from 2(1) obtain h' where "hs' = [h']" by (cases hs') auto
  with 2(5) show ?case by simp
next
  case (3 hs k)
  have n': "1 < length hs'" and k': "k = largestPowerOfTwoBelow (length hs')"
    using 3(1,2,5) by simp_all
  note split = MerkleRoot_split [OF 3(1,2)] MerkleRoot_split [OF n' k']
    root_inputs_split [OF 3(1,2)] root_inputs_split [OF n' k']
  have "MerkleRoot (take k hs) = MerkleRoot (take k hs') \<and> MerkleRoot (drop k hs) = MerkleRoot (drop k hs')"
    using 3(6-9) by (intro interior_inject [OF 3(8)]) (simp_all add: split)
  moreover have "inj_on sha256 (set (root_inputs (take k hs)) \<union> set (root_inputs (take k hs')))"
    "inj_on sha256 (set (root_inputs (drop k hs)) \<union> set (root_inputs (drop k hs')))"
    using 3(8) by (auto simp: split elim!: inj_on_subset)
  ultimately have "take k hs = take k hs'" "drop k hs = drop k hs'"
    using 3(3) [of "take k hs'"] 3(4) [of "drop k hs'"] 3(5-7) by simp_all
  then show ?case by (metis append_take_drop_id)
next
  case 1
  from 1(1) show ?case by simp
qed

section \<open>Inclusion\<close>

definition incl_l :: "hash \<Rightarrow> hash \<times> bytes list \<Rightarrow> hash \<times> bytes list" where
  "incl_l x s = (interiorHash x (fst s), (interiorPrefix # x @ fst s) # snd s)"

definition incl_r :: "hash \<Rightarrow> hash \<times> bytes list \<Rightarrow> hash \<times> bytes list" where
  "incl_r x s = (interiorHash (fst s) x, (interiorPrefix # fst s @ x) # snd s)"

text \<open>The byte strings the verifier hashes.\<close>

definition inclusion_inputs :: "hash \<Rightarrow> int \<Rightarrow> int \<Rightarrow> hash list \<Rightarrow> bytes list" where
  "inclusion_inputs leaf index treeSize proof =
     (case walk incl_l incl_r proof (nat index) (nat (treeSize - 1)) (leaf, []) of
        None \<Rightarrow> [] | Some (_, _, ins) \<Rightarrow> ins)"

lemma inclusionPath_split:
  "1 < length hs \<Longrightarrow> k = largestPowerOfTwoBelow (length hs) \<Longrightarrow>
   inclusionPath hs i =
     (if i < k then inclusionPath (take k hs) i @ [MerkleRoot (drop k hs)]
      else inclusionPath (drop k hs) (i - k) @ [MerkleRoot (take k hs)])"
  by (subst inclusionPath.simps) (auto simp: Let_def)

lemma climb_split:
  assumes "\<not> n \<le> 2 ^ t" "p \<noteq> []" "k = largestPowerOfTwoBelow n"
  shows "climb l r t n i st p =
    (if i < k then map_option (r (last p)) (climb l r t k i st (butlast p))
     else map_option (l (last p)) (climb l r t (n - k) (i - k) st (butlast p)))"
  using assms by (subst climb.simps) (auto simp: Let_def)

lemma climb_inclusionPath:
  "i < length hs \<Longrightarrow>
   climb interiorHash (\<lambda>x c. interiorHash c x) 0 (length hs) i (hs ! i) (inclusionPath hs i)
     = Some (MerkleRoot hs)"
proof (induction hs arbitrary: i rule: length_induct_split)
  case (2 h)
  then show ?case by (subst climb.simps) (simp add: inclusionPath.simps)
next
  case (3 hs k)
  have n: "\<not> length hs \<le> 2 ^ 0" using 3(1) by simp
  have k: "k < length hs" "0 < k" using lp2_bounds 3(1,2) by auto
  note split = inclusionPath_split [OF 3(1,2)] MerkleRoot_split [OF 3(1,2)]
  show ?case
  proof (cases "i < k")
    case True
    have "climb interiorHash (\<lambda>x c. interiorHash c x) 0 k i (hs ! i) (inclusionPath (take k hs) i)
        = Some (MerkleRoot (take k hs))"
      using 3(3) [of i] True k by simp
    then show ?thesis
      by (subst climb_split [OF n _ 3(2)]) (simp_all add: split True)
  next
    case False
    have "climb interiorHash (\<lambda>x c. interiorHash c x) 0 (length hs - k) (i - k) (hs ! i)
        (inclusionPath (drop k hs) (i - k)) = Some (MerkleRoot (drop k hs))"
      using 3(4) [of "i - k"] 3(5) False k by simp
    then show ?thesis
      by (subst climb_split [OF n _ 3(2)]) (simp_all add: split False)
  qed
qed simp

lemma VerifyInclusion_iff:
  "VerifyInclusion leaf index treeSize p root \<longleftrightarrow>
     0 \<le> index \<and> index < treeSize \<and>
     climb interiorHash (\<lambda>x c. interiorHash c x) 0 (nat treeSize) (nat index) leaf p = Some root"
proof (cases "0 \<le> index \<and> index < treeSize")
  case True
  then have n: "nat (treeSize - 1) = nat treeSize - 1" "nat index + 2 ^ 0 \<le> nat treeSize"
    by simp_all linarith+
  have "VerifyInclusion leaf index treeSize p root \<longleftrightarrow>
      walk interiorHash (\<lambda>x c. interiorHash c x) p (nat index) (nat treeSize - 1) leaf = Some (0, root)"
    using True by (auto simp: VerifyInclusion_def inclusion_loop_walk n split: option.splits)
  also have "\<dots> \<longleftrightarrow>
      climb interiorHash (\<lambda>x c. interiorHash c x) 0 (nat treeSize) (nat index) leaf p = Some root"
    using walk_iff_climb [OF _ n(2), of interiorHash "\<lambda>x c. interiorHash c x" p leaf root] by simp
  finally show ?thesis using True by simp
qed (auto simp: VerifyInclusion_def)

lemma VerifyInclusion_complete:
  "0 \<le> i \<Longrightarrow> i < int (length hs) \<Longrightarrow>
   InclusionProof hs i = Inr p \<Longrightarrow>
   VerifyInclusion (hs ! nat i) i (int (length hs)) p (MerkleRoot hs)"
  using climb_inclusionPath [of "nat i" hs]
  by (auto simp: VerifyInclusion_iff InclusionProof_def split: if_splits)

lemma climb_inclusion_unique:
  "climb incl_l incl_r 0 n i (c, ins0) p = Some (MerkleRoot hs, ins) \<Longrightarrow>
   n = length hs \<Longrightarrow> i < n \<Longrightarrow> wf_hashes hs \<Longrightarrow> wf_hashes p \<Longrightarrow> wf_hash c \<Longrightarrow>
   inj_on sha256 (set ins \<union> set (root_inputs hs)) \<Longrightarrow>
   c = hs ! i \<and> p = inclusionPath hs i"
proof (induction hs arbitrary: n i p ins rule: length_induct_split)
  case (2 h)
  from 2(1-3) show ?case
    by (simp add: climb.simps [of _ _ 0 "Suc 0"] inclusionPath.simps split: if_splits)
next
  case (3 hs k)
  have big: "\<not> n \<le> 2 ^ 0" using 3(1,6) by simp
  have p: "p \<noteq> []" using 3(5) big by (auto simp: climb.simps [of incl_l incl_r 0 n i "(c, ins0)" p])
  have kn: "k < n" "0 < k" "k = largestPowerOfTwoBelow n" using lp2_bounds 3(1,2,6) by auto
  note split = inclusionPath_split [OF 3(1,2)] MerkleRoot_split [OF 3(1,2)] root_inputs_split [OF 3(1,2)]
  note eq = 3(5) [unfolded climb_split [OF big p kn(3)]]
  have pp: "p = butlast p @ [last p]" "wf_hash (last p)" "wf_hashes (butlast p)"
    using p 3(9) by (auto simp: list_all_iff dest: in_set_butlastD)
  have wf: "wf_hashes (take k hs)" "wf_hashes (drop k hs)" using 3(8) by auto
  have wfsub: "wf_hash (fst a)" if "climb incl_l incl_r t m j (c, ins0) q = Some a" for t m j q a
    using that 3(10) unfolding climb.simps [of incl_l incl_r t m j "(c, ins0)" q]
    by (auto simp: Let_def incl_l_def incl_r_def split: if_splits)
  show ?case
  proof (cases "i < k")
    case True
    then obtain a where a: "climb incl_l incl_r 0 k i (c, ins0) (butlast p) = Some a"
        "(MerkleRoot hs, ins) = incl_r (last p) a"
      using eq by auto
    have ins: "ins = (interiorPrefix # fst a @ last p) # snd a"
      and r: "interiorHash (fst a) (last p) = interiorHash (MerkleRoot (take k hs)) (MerkleRoot (drop k hs))"
      using a(2) by (auto simp: incl_r_def split)
    have e: "fst a = MerkleRoot (take k hs) \<and> last p = MerkleRoot (drop k hs)"
      using wfsub [OF a(1)] wf r by (intro interior_inject [OF 3(11)]) (simp_all add: ins split)
    have "c = take k hs ! i \<and> butlast p = inclusionPath (take k hs) i"
    proof (rule 3(3))
      show "climb incl_l incl_r 0 k i (c, ins0) (butlast p) = Some (MerkleRoot (take k hs), snd a)"
        using a(1) e by (metis prod.collapse)
      show "inj_on sha256 (set (snd a) \<union> set (root_inputs (take k hs)))"
        using 3(11) by (rule inj_on_subset) (auto simp: ins split)
    qed (use True kn 3(6) wf pp 3(10) in auto)
    with True e pp(1) show ?thesis by (simp add: split)
  next
    case False
    then obtain a where a: "climb incl_l incl_r 0 (n - k) (i - k) (c, ins0) (butlast p) = Some a"
        "(MerkleRoot hs, ins) = incl_l (last p) a"
      using eq by auto
    have ins: "ins = (interiorPrefix # last p @ fst a) # snd a"
      and r: "interiorHash (last p) (fst a) = interiorHash (MerkleRoot (take k hs)) (MerkleRoot (drop k hs))"
      using a(2) by (auto simp: incl_l_def split)
    have e: "last p = MerkleRoot (take k hs) \<and> fst a = MerkleRoot (drop k hs)"
      using pp wf r by (intro interior_inject [OF 3(11)]) (simp_all add: ins split)
    have "c = drop k hs ! (i - k) \<and> butlast p = inclusionPath (drop k hs) (i - k)"
    proof (rule 3(4))
      show "climb incl_l incl_r 0 (n - k) (i - k) (c, ins0) (butlast p) = Some (MerkleRoot (drop k hs), snd a)"
        using a(1) e by (metis prod.collapse)
      show "inj_on sha256 (set (snd a) \<union> set (root_inputs (drop k hs)))"
        using 3(11) by (rule inj_on_subset) (auto simp: ins split)
    qed (use False kn 3(6,7) wf pp 3(10) in auto)
    with False e pp(1) kn 3(6,7) show ?thesis by (simp add: split)
  qed
qed simp

lemma VerifyInclusion_sound:
  assumes v: "VerifyInclusion leaf i (int (length hs)) p (MerkleRoot hs)"
    and wf: "wf_hash leaf" "wf_hashes hs" "wf_hashes p"
  shows "leaf = hs ! nat i \<and> p = inclusionPath hs (nat i)
    \<or> \<not> inj_on sha256 (set (inclusion_inputs leaf i (int (length hs)) p @ root_inputs hs))"
proof -
  from v have i: "0 \<le> i" "i < int (length hs)"
    and c: "climb interiorHash (\<lambda>x c. interiorHash c x) 0 (length hs) (nat i) leaf p = Some (MerkleRoot hs)"
    by (auto simp: VerifyInclusion_iff)
  have "map_option fst (climb incl_l incl_r 0 (length hs) (nat i) (leaf, []) p) = Some (MerkleRoot hs)"
    using c by (subst climb_project [where l' = interiorHash and r' = "\<lambda>x c. interiorHash c x"])
      (auto simp: incl_l_def incl_r_def)
  then obtain ins where t: "climb incl_l incl_r 0 (length hs) (nat i) (leaf, []) p = Some (MerkleRoot hs, ins)"
    by auto
  then have "walk incl_l incl_r p (nat i) (length hs - 1) (leaf, []) = Some (0, MerkleRoot hs, ins)"
    using walk_climb [OF t] i by (simp add: nat_less_iff Suc_leI)
  moreover have "nat (int (length hs) - 1) = length hs - 1" by simp
  ultimately have ins: "inclusion_inputs leaf i (int (length hs)) p = ins"
    by (simp add: inclusion_inputs_def)
  show ?thesis
  proof (cases "inj_on sha256 (set ins \<union> set (root_inputs hs))")
    case True
    have "nat i < length hs" using i by linarith
    from climb_inclusion_unique [OF t refl this wf(2,3,1) True] show ?thesis by simp
  next
    case False
    then show ?thesis by (simp add: ins)
  qed
qed

end
