(* ===== verification/Merkle_Compact.thy ===== *)
theory Merkle_Compact
  imports Merkle_Proofs
begin

text \<open>
  \<^verbatim>\<open>CompactTree\<close> of \<^verbatim>\<open>merkle.go\<close> refines the tree over the whole leaf list: after any appends its
  root is \<^verbatim>\<open>MerkleRoot\<close> of the leaves, and no append reads past its node array. The interface the
  ledger and the witness log rely on is the locale \<open>append_log\<close>.
\<close>

section \<open>The interface: an append-only log with a head\<close>

locale append_log =
  fixes new :: "'s" and app :: "'s \<Rightarrow> 'h \<Rightarrow> 's option" and head :: "'s \<Rightarrow> 'd"
    and repr :: "'s \<Rightarrow> 'h list \<Rightarrow> bool" and spec :: "'h list \<Rightarrow> 'd"
  assumes repr_new: "repr new []"
    and repr_app: "repr s xs \<Longrightarrow> \<exists>s'. app s x = Some s' \<and> repr s' (xs @ [x])"
    and head_repr: "repr s xs \<Longrightarrow> head s = spec xs"
begin

fun app_all :: "'s \<Rightarrow> 'h list \<Rightarrow> 's option" where
  "app_all s [] = Some s"
| "app_all s (x # xs) = (case app s x of None \<Rightarrow> None | Some s' \<Rightarrow> app_all s' xs)"

lemma app_all_repr: "repr s xs \<Longrightarrow> \<exists>s'. app_all s ys = Some s' \<and> repr s' (xs @ ys)"
proof (induction ys arbitrary: s xs)
  case (Cons y ys)
  from repr_app [OF Cons.prems, of y] obtain s1 where s1: "app s y = Some s1" "repr s1 (xs @ [y])" by blast
  from Cons.IH [OF s1(2)] s1(1) show ?case by auto
qed simp

lemma app_repr: "repr s xs \<Longrightarrow> app s x = Some s' \<Longrightarrow> repr s' (xs @ [x])"
  by (metis option.inject repr_app)

lemma app_total: "repr s xs \<Longrightarrow> app s x \<noteq> None"
  by (metis option.distinct(1) repr_app)

lemma rebuild: "\<exists>s. app_all new ys = Some s \<and> repr s ys \<and> head s = spec ys"
  using app_all_repr [OF repr_new, of ys] head_repr by auto

lemma app_all_repr_eq: "repr s xs \<Longrightarrow> app_all s ys = Some s' \<Longrightarrow> repr s' (xs @ ys)"
  by (metis option.inject app_all_repr)

end

section \<open>The compact tree\<close>

text \<open>Bit \<open>l\<close> of the size is set: level \<open>l\<close> holds the head of its block of leaves.\<close>

definition ct_block :: "nat \<Rightarrow> hash list \<Rightarrow> nat \<Rightarrow> hash list" where
  "ct_block sz hs l = take (2 ^ l) (drop (sz div 2 ^ Suc l * 2 ^ Suc l) hs)"

definition ct_repr :: "compact_tree \<Rightarrow> hash list \<Rightarrow> bool" where
  "ct_repr t hs \<longleftrightarrow> ct_size t = length hs \<and> length hs < 2 ^ length (ct_nodes t) \<and>
     (\<forall>l < length (ct_nodes t). length hs div 2 ^ l mod 2 = 1 \<longrightarrow>
        ct_nodes t ! l = MerkleRoot (ct_block (length hs) hs l))"

lemma ct_repr_empty: "ct_repr ct_empty []"
  by (simp add: ct_repr_def ct_empty_def)

lemma MerkleRoot_join:
  assumes "length a = 2 ^ l" "0 < length b" "length b \<le> 2 ^ l"
  shows "MerkleRoot (a @ b) = interiorHash (MerkleRoot a) (MerkleRoot b)"
proof -
  have k: "largestPowerOfTwoBelow (length (a @ b)) = 2 ^ l"
    using assms by (intro lp2_unique) auto
  have "(1::nat) \<le> 2 ^ l" by simp
  moreover have "length (a @ b) = 2 ^ l + length b" using assms(1) by simp
  ultimately have "1 < length (a @ b)" using assms(2) by linarith
  from MerkleRoot_split [OF this k [symmetric]] assms(1) show ?thesis by simp
qed

lemma bit_set_split:
  "n div 2 ^ l mod 2 = 1 \<Longrightarrow> n = n div 2 ^ Suc l * 2 ^ Suc l + 2 ^ l + n mod 2 ^ l" for n l :: nat
proof -
  assume a: "n div 2 ^ l mod 2 = 1"
  have "n = n div 2 ^ l * 2 ^ l + n mod 2 ^ l" by (rule div_mult_mod_eq [symmetric])
  moreover have "n div 2 ^ l = n div 2 ^ Suc l * 2 + 1"
    using a div_mult_mod_eq [of "n div 2 ^ l" 2] by (simp add: div_mult2_eq [symmetric] mult.commute)
  ultimately show ?thesis by (simp add: algebra_simps)
qed

lemma bit_clear_mod: "n div 2 ^ l mod 2 = 0 \<Longrightarrow> n mod 2 ^ Suc l = n mod 2 ^ l" for n l :: nat
  using mod_mult2_eq [of n "2 ^ l" 2] by (simp add: mult.commute)

lemma ct_carry_repr:
  assumes "ct_repr t hs" "\<forall>i < l. length hs div 2 ^ i mod 2 = 1" "length hs mod 2 ^ l = 2 ^ l - 1"
    and "c = MerkleRoot (drop (Suc (length hs) - 2 ^ l) (hs @ [h]))"
  shows "\<exists>l' c'. ct_carry (length hs) (ct_nodes t) l c = Some (c', l') \<and>
    length hs div 2 ^ l' mod 2 = 0 \<and> length hs mod 2 ^ l' = 2 ^ l' - 1 \<and>
    c' = MerkleRoot (drop (Suc (length hs) - 2 ^ l') (hs @ [h]))"
  using assms(2-)
proof (induction "length (ct_nodes t) - l" arbitrary: l c rule: less_induct)
  case less
  let ?n = "length hs"
  show ?case
  proof (cases "?n div 2 ^ l mod 2 = 1")
    case False
    then have "?n div 2 ^ l mod 2 = 0" by presburger
    with less.prems False show ?thesis
      by (intro exI [of _ l] exI [of _ c]) (simp add: ct_carry.simps [of ?n "ct_nodes t" l])
  next
    case True
    have ll: "l < length (ct_nodes t)"
    proof (rule ccontr)
      assume "\<not> l < length (ct_nodes t)"
      then have "(2::nat) ^ length (ct_nodes t) \<le> 2 ^ l" by simp
      with assms(1) have "?n < 2 ^ l" unfolding ct_repr_def by linarith
      with True show False by simp
    qed
    define q where "q = ?n div 2 ^ Suc l * 2 ^ Suc l"
    have pos: "(1::nat) \<le> 2 ^ l" by simp
    have n: "?n = q + 2 ^ l + (2 ^ l - 1)" using bit_set_split [OF True] less.prems(2) by (simp add: q_def)
    have node: "ct_nodes t ! l = MerkleRoot (take (2 ^ l) (drop q hs))"
      using assms(1) ll True by (simp add: ct_repr_def ct_block_def q_def)
    have at: "Suc ?n - 2 ^ l = q + 2 ^ l" "Suc ?n - 2 ^ Suc l = q" using n pos by simp_all
    have "drop q (hs @ [h]) = take (2 ^ l) (drop q hs) @ drop (q + 2 ^ l) (hs @ [h])"
    proof -
      have "drop q (hs @ [h]) = take (2 ^ l) (drop q (hs @ [h])) @ drop (2 ^ l) (drop q (hs @ [h]))"
        by (metis append_take_drop_id)
      moreover have "take (2 ^ l) (drop q (hs @ [h])) = take (2 ^ l) (drop q hs)" using n by simp
      moreover have "drop (2 ^ l) (drop q (hs @ [h])) = drop (q + 2 ^ l) (hs @ [h])"
        by (simp only: drop_drop add.commute)
      ultimately show ?thesis by (simp only:)
    qed
    then have "MerkleRoot (drop q (hs @ [h])) = MerkleRoot (take (2 ^ l) (drop q hs) @ drop (q + 2 ^ l) (hs @ [h]))"
      by (simp only:)
    also have "\<dots> = interiorHash (MerkleRoot (take (2 ^ l) (drop q hs))) (MerkleRoot (drop (q + 2 ^ l) (hs @ [h])))"
    proof (rule MerkleRoot_join)
      have "length (drop (q + 2 ^ l) (hs @ [h])) = 2 ^ l"
        unfolding length_drop length_append list.size using n pos by linarith
      then show "0 < length (drop (q + 2 ^ l) (hs @ [h]))" "length (drop (q + 2 ^ l) (hs @ [h])) \<le> 2 ^ l"
        by simp_all
      show "length (take (2 ^ l) (drop q hs)) = 2 ^ l"
        unfolding length_take length_drop min_def using n pos by (auto split: if_splits)
    qed
    finally have "MerkleRoot (drop q (hs @ [h])) = interiorHash (MerkleRoot (take (2 ^ l) (drop q hs)))
        (MerkleRoot (drop (q + 2 ^ l) (hs @ [h])))" .
    then have join: "MerkleRoot (drop (Suc ?n - 2 ^ Suc l) (hs @ [h])) = interiorHash (ct_nodes t ! l) c"
      unfolding at(2) node less.prems(3) at(1) .
    have low: "?n mod 2 ^ Suc l = 2 ^ Suc l - 1"
    proof -
      have "?n = ?n div 2 ^ Suc l * 2 ^ Suc l + (2 ^ Suc l - 1)" using n by (simp add: q_def)
      then have "?n mod 2 ^ Suc l = (2 ^ Suc l - 1) mod 2 ^ Suc l" by (metis mod_mult_self3)
      then show ?thesis by simp
    qed
    have set: "\<forall>i < Suc l. ?n div 2 ^ i mod 2 = 1" using less.prems(1) True by (auto simp: less_Suc_eq)
    have dec: "length (ct_nodes t) - Suc l < length (ct_nodes t) - l" using ll by simp
    obtain l' c' where "ct_carry ?n (ct_nodes t) (Suc l) (interiorHash (ct_nodes t ! l) c) = Some (c', l')"
      "?n div 2 ^ l' mod 2 = 0" "?n mod 2 ^ l' = 2 ^ l' - 1"
      "c' = MerkleRoot (drop (Suc ?n - 2 ^ l') (hs @ [h]))"
      using less.hyps [OF dec set low join [symmetric]] by metis
    then show ?thesis
      using True ll by (intro exI [of _ l'] exI [of _ c']) (simp add: ct_carry.simps [of ?n "ct_nodes t" l])
  qed
qed

lemma ct_block_append:
  "2 ^ l \<le> length (drop (length hs div 2 ^ Suc l * 2 ^ Suc l) hs) \<Longrightarrow>
   Suc (length hs) div 2 ^ Suc l = length hs div 2 ^ Suc l \<Longrightarrow>
   ct_block (Suc (length hs)) (hs @ [h]) l = ct_block (length hs) hs l"
  by (simp add: ct_block_def)

lemma Suc_div_power:
  assumes "n mod 2 ^ l = 2 ^ l - 1" "n div 2 ^ l mod 2 = 0" "l < i"
  shows "Suc n div 2 ^ i = n div 2 ^ (i::nat)"
proof -
  have m: "n mod 2 ^ Suc l = 2 ^ l - 1"
    using assms(1) bit_clear_mod [OF assms(2)] by simp
  have "Suc (n mod 2 ^ Suc l) < 2 ^ Suc l" unfolding m by simp
  then have "Suc n div 2 ^ Suc l = n div 2 ^ Suc l" by (simp add: div_Suc mod_Suc)
  moreover obtain d where "i = Suc l + d" using assms(3) less_iff_Suc_add by auto
  ultimately show ?thesis by (simp add: power_add div_mult2_eq)
qed

lemma Suc_mod_power:
  assumes "n mod 2 ^ l = 2 ^ l - 1"
  shows "Suc n mod 2 ^ l = (0::nat)"
  using assms by (simp add: mod_Suc)

lemma Suc_bit_clear:
  assumes "n mod 2 ^ l = 2 ^ l - 1" "i < l"
  shows "Suc n div 2 ^ i mod 2 = (0::nat)"
proof -
  have "2 ^ Suc i dvd (2::nat) ^ l" using assms(2) by (intro le_imp_power_dvd) simp
  then have "2 ^ Suc i dvd Suc n" using Suc_mod_power [OF assms(1)] by (meson dvd_trans mod_0_imp_dvd)
  then obtain c where "Suc n = 2 ^ i * (2 * c)" by (auto simp: mult.assoc)
  then show ?thesis by simp
qed

lemma ct_Append_repr:
  assumes r: "ct_repr t hs"
  shows "\<exists>t'. ct_Append t h = Some t' \<and> ct_repr t' (hs @ [h])"
proof -
  let ?n = "length hs"
  have sz: "ct_size t = ?n" using r by (simp add: ct_repr_def)
  obtain l c where carry: "ct_carry ?n (ct_nodes t) 0 h = Some (c, l)"
    and bit: "?n div 2 ^ l mod 2 = 0" and low: "?n mod 2 ^ l = 2 ^ l - 1"
    and c: "c = MerkleRoot (drop (Suc ?n - 2 ^ l) (hs @ [h]))"
    using ct_carry_repr [OF r, of 0 h h] by auto
  define nodes where "nodes = (ct_nodes t @ replicate (Suc l - length (ct_nodes t)) (replicate 32 (CHR 0x00)))[l := c]"
  have app: "ct_Append t h = Some \<lparr>ct_size = Suc ?n, ct_nodes = nodes\<rparr>"
    by (simp add: ct_Append_def sz carry nodes_def Let_def)
  have len: "length nodes = max (length (ct_nodes t)) (Suc l)" by (simp add: nodes_def)
  have pos: "(1::nat) \<le> 2 ^ l" by simp
  define q where "q = ?n div 2 ^ Suc l * 2 ^ Suc l"
  have n: "?n = q + (2 ^ l - 1)"
    using low bit_clear_mod [OF bit] div_mult_mod_eq [of ?n "2 ^ Suc l"] by (simp add: q_def)
  have small: "Suc ?n < 2 ^ length nodes"
  proof -
    have "Suc ?n \<noteq> 2 ^ length nodes"
    proof
      assume eq: "Suc ?n = 2 ^ length nodes"
      have s: "Suc ?n = ?n div 2 ^ Suc l * 2 ^ Suc l + 2 ^ l" using n pos unfolding q_def by linarith
      have "Suc ?n mod 2 ^ Suc l = 2 ^ l mod 2 ^ Suc l"
        by (subst s) (simp del: power_Suc)
      also have "\<dots> = 2 ^ l" by simp
      finally have "Suc ?n mod 2 ^ Suc l = 2 ^ l" .
      moreover have "2 ^ Suc l dvd (2::nat) ^ length nodes"
        using len by (intro le_imp_power_dvd) simp
      ultimately show False unfolding eq by (simp add: mod_eq_0_iff_dvd [symmetric] del: power_Suc)
    qed
    moreover have "?n < 2 ^ length (ct_nodes t)" using r by (simp add: ct_repr_def)
    moreover have "(2::nat) ^ length (ct_nodes t) \<le> 2 ^ length nodes"
      using len by (intro power_increasing) simp_all
    ultimately show ?thesis by linarith
  qed
  have "ct_repr \<lparr>ct_size = Suc ?n, ct_nodes = nodes\<rparr> (hs @ [h])"
    unfolding ct_repr_def
  proof (intro conjI allI impI)
    fix i
    assume i: "i < length (ct_nodes \<lparr>ct_size = Suc ?n, ct_nodes = nodes\<rparr>)"
      and b: "length (hs @ [h]) div 2 ^ i mod 2 = 1"
    have "\<not> i < l" using Suc_bit_clear [OF low, of i] b by auto
    then consider "i = l" | "l < i" by linarith
    then show "ct_nodes \<lparr>ct_size = Suc ?n, ct_nodes = nodes\<rparr> ! i
        = MerkleRoot (ct_block (length (hs @ [h])) (hs @ [h]) i)"
    proof cases
      case 1
      have "Suc ?n div 2 ^ Suc l = ?n div 2 ^ Suc l"
        by (rule Suc_div_power [OF low bit]) simp
      then have e: "Suc ?n div 2 ^ Suc l * 2 ^ Suc l = q" by (simp only: q_def)
      have "Suc ?n - 2 ^ l = q" using n pos by linarith
      moreover have "length (drop q (hs @ [h])) = 2 ^ l"
        unfolding length_drop length_append list.size using n pos by linarith
      ultimately have "ct_block (Suc ?n) (hs @ [h]) l = drop (Suc ?n - 2 ^ l) (hs @ [h])"
        unfolding ct_block_def e by simp
      moreover have "nodes ! l = c" by (simp add: nodes_def)
      ultimately show ?thesis using 1 c by simp
    next
      case 2
      note same = Suc_div_power [OF low bit]
      have ib: "?n div 2 ^ i mod 2 = 1" using b same [OF 2] by simp
      have it: "i < length (ct_nodes t)" using 2 i len by (simp add: max_def split: if_splits)
      have le: "?n div 2 ^ Suc i * 2 ^ Suc i + 2 ^ i \<le> ?n"
        using bit_set_split [OF ib] by linarith
      have "ct_block (Suc ?n) (hs @ [h]) i = ct_block ?n hs i"
      proof (rule ct_block_append)
        show "2 ^ i \<le> length (drop (?n div 2 ^ Suc i * 2 ^ Suc i) hs)"
          using le unfolding length_drop by linarith
        show "Suc ?n div 2 ^ Suc i = ?n div 2 ^ Suc i" using 2 by (intro same) simp
      qed
      moreover have "ct_nodes t ! i = MerkleRoot (ct_block ?n hs i)"
        using r it ib unfolding ct_repr_def by blast
      moreover have "nodes ! i = ct_nodes t ! i"
        using it 2 by (simp add: nodes_def nth_append)
      ultimately show ?thesis by simp
    qed
  qed (use small in simp_all)
  with app show ?thesis by blast
qed

text \<open>The fold that reads the head off the live levels.\<close>

lemma ct_fold_root:
  "l + length ns = length nodes \<Longrightarrow> drop l nodes = ns \<Longrightarrow> n = length hs \<Longrightarrow> n < 2 ^ length nodes \<Longrightarrow>
   \<forall>i < length nodes. n div 2 ^ i mod 2 = 1 \<longrightarrow> nodes ! i = MerkleRoot (ct_block n hs i) \<Longrightarrow>
   acc = (if n mod 2 ^ l = 0 then None else Some (MerkleRoot (drop (n - n mod 2 ^ l) hs))) \<Longrightarrow>
   ct_fold n l ns acc = (if n = 0 then None else Some (MerkleRoot hs))"
proof (induction ns arbitrary: l acc)
  case Nil
  then have "n mod 2 ^ l = n" by simp
  with Nil show ?case by simp
next
  case (Cons h ns)
  have l: "l < length nodes" "nodes ! l = h" "drop (Suc l) nodes = ns"
    using Cons.prems(1,2) drop_drop [of 1 l nodes] by (auto simp: nth_via_drop)
  have ih: "ct_fold n (Suc l) ns acc' = (if n = 0 then None else Some (MerkleRoot hs))"
    if "acc' = (if n mod 2 ^ Suc l = 0 then None else Some (MerkleRoot (drop (n - n mod 2 ^ Suc l) hs)))" for acc'
    using that Cons.prems(1,3-5) l(3) by (intro Cons.IH) simp_all
  show ?case
  proof (cases "n div 2 ^ l mod 2 = 0")
    case True
    have "ct_fold n l (h # ns) acc = ct_fold n (Suc l) ns acc" using True by simp
    also have "\<dots> = (if n = 0 then None else Some (MerkleRoot hs))"
      by (rule ih) (simp only: Cons.prems(6) bit_clear_mod [OF True])
    finally show ?thesis .
  next
    case False
    then have b: "n div 2 ^ l mod 2 = 1" by presburger
    define q where "q = n div 2 ^ Suc l * 2 ^ Suc l"
    note n = bit_set_split [OF b, folded q_def]
    have m: "n mod 2 ^ Suc l = 2 ^ l + n mod 2 ^ l"
      using n div_mult_mod_eq [of n "2 ^ Suc l"] by (simp add: q_def del: power_Suc)
    have h: "h = MerkleRoot (take (2 ^ l) (drop q hs))"
      using Cons.prems(5) l b by (simp add: ct_block_def q_def)
    have at: "n - n mod 2 ^ Suc l = q" "n - n mod 2 ^ l = q + 2 ^ l" using n m by linarith+
    have new: "MerkleRoot (drop q hs) = (if n mod 2 ^ l = 0 then h
        else interiorHash h (MerkleRoot (drop (q + 2 ^ l) hs)))"
    proof (cases "n mod 2 ^ l = 0")
      case True
      then show ?thesis using n Cons.prems(3) h by simp
    next
      case False
      have "drop q hs = take (2 ^ l) (drop q hs) @ drop (q + 2 ^ l) hs"
        by (metis add.commute append_take_drop_id drop_drop)
      moreover have "MerkleRoot (take (2 ^ l) (drop q hs) @ drop (q + 2 ^ l) hs)
          = interiorHash h (MerkleRoot (drop (q + 2 ^ l) hs))"
        unfolding h
      proof (rule MerkleRoot_join)
        have "n mod 2 ^ l < 2 ^ l" by simp
        then show "length (drop (q + 2 ^ l) hs) \<le> 2 ^ l"
          using n Cons.prems(3) unfolding length_drop by linarith
        show "0 < length (drop (q + 2 ^ l) hs)" using n Cons.prems(3) False by simp
        show "length (take (2 ^ l) (drop q hs)) = 2 ^ l" using n Cons.prems(3) by simp
      qed
      ultimately show ?thesis using False by simp
    qed
    have "ct_fold n l (h # ns) acc = ct_fold n (Suc l) ns (Some (MerkleRoot (drop q hs)))"
      using b Cons.prems(6) new at(2) by (cases "n mod 2 ^ l = 0") simp_all
    also have "\<dots> = (if n = 0 then None else Some (MerkleRoot hs))"
      using m at(1) by (intro ih) simp
    finally show ?thesis .
  qed
qed

lemma ct_Root_repr: "ct_repr t hs \<Longrightarrow> ct_Root t = MerkleRoot hs"
proof -
  assume r: "ct_repr t hs"
  have "ct_fold (length hs) 0 (ct_nodes t) None = (if length hs = 0 then None else Some (MerkleRoot hs))"
    using r by (intro ct_fold_root [where nodes = "ct_nodes t"]) (simp_all add: ct_repr_def)
  with r show ?thesis by (auto simp: ct_Root_def ct_repr_def)
qed

interpretation ct: append_log ct_empty ct_Append ct_Root ct_repr MerkleRoot
  by unfold_locales (auto simp: ct_repr_empty ct_Append_repr ct_Root_repr)

lemma ct_app_all [simp]: "ct.app_all t hs = ct_append_all t hs"
  by (induction hs arbitrary: t) (auto split: option.splits)

end
