(* ===== verification/Json.thy ===== *)
theory Json
  imports GoStd
begin

text \<open>
  What the kernel uses of \<^verbatim>\<open>encoding/json\<close>: how \<^verbatim>\<open>json.Marshal\<close> writes a value, with Go's
  default HTML escaping and its replacement of invalid UTF-8, how the decoder reads one, and that
  reading what was written gives the value back when its strings are ASCII. A number is kept as
  its literal text, as the decoder keeps it until it meets the Go type it goes to.
\<close>

section \<open>UTF-8, as \<^verbatim>\<open>utf8.DecodeRune\<close> accepts it\<close>

definition in_range :: "nat \<Rightarrow> nat \<Rightarrow> char \<Rightarrow> bool" where
  "in_range lo hi c \<longleftrightarrow> lo \<le> of_char c \<and> of_char c \<le> hi"

abbreviation cont :: "char \<Rightarrow> bool" where
  "cont \<equiv> in_range 128 191"

text \<open>The length of the valid rune at the head of a string.\<close>

fun utf8_rune :: "string \<Rightarrow> nat option" where
  "utf8_rune [] = None"
| "utf8_rune (a # s) =
     (if in_range 0 127 a then Some 1
      else case s of
        [] \<Rightarrow> None
      | b # s \<Rightarrow>
          if in_range 194 223 a then (if cont b then Some 2 else None)
          else case s of
            [] \<Rightarrow> None
          | c # s \<Rightarrow>
              if in_range 224 239 a then
                (if (if of_char a = (224::nat) then in_range 160 191 b
                     else if of_char a = (237::nat) then in_range 128 159 b else cont b) \<and> cont c
                 then Some 3 else None)
              else case s of
                [] \<Rightarrow> None
              | d # _ \<Rightarrow>
                  (if in_range 240 244 a
                      \<and> (if of_char a = (240::nat) then in_range 144 191 b
                         else if of_char a = (244::nat) then in_range 128 143 b else cont b)
                      \<and> cont c \<and> cont d
                   then Some 4 else None))"

section \<open>Strings\<close>

definition bs :: char where
  "bs = CHR 0x5C"

definition dq :: char where
  "dq = CHR 0x22"

definition json_char :: "char \<Rightarrow> string" where
  "json_char c =
     (if c = dq \<or> c = bs then [bs, c]
      else if c = CHR 0x08 then [bs, CHR ''b'']
      else if c = CHR 0x0C then [bs, CHR ''f'']
      else if c = CHR 0x0A then [bs, CHR ''n'']
      else if c = CHR 0x0D then [bs, CHR ''r'']
      else if c = CHR 0x09 then [bs, CHR ''t'']
      else if (of_char c :: nat) < 32 \<or> c \<in> set ''<>&'' then
        [bs, CHR ''u'', CHR ''0'', CHR ''0'', hex_digit (of_char c div 16), hex_digit (of_char c mod 16)]
      else [c])"

function json_body :: "string \<Rightarrow> string" where
  "json_body [] = []"
| "json_body (c # cs) =
     (if in_range 0 127 c then json_char c @ json_body cs
      else case utf8_rune (c # cs) of
        None \<Rightarrow> bs # ''ufffd'' @ json_body cs
      | Some n \<Rightarrow>
          (if take 3 (c # cs) = [CHR 0xE2, CHR 0x80, CHR 0xA8] then bs # ''u2028''
           else if take 3 (c # cs) = [CHR 0xE2, CHR 0x80, CHR 0xA9] then bs # ''u2029''
           else take (max 1 n) (c # cs)) @ json_body (drop (max 1 n) (c # cs)))"
  by pat_completeness auto
termination
  by (relation "measure length") auto

definition json_string :: "string \<Rightarrow> string" where
  "json_string s = dq # json_body s @ [dq]"

section \<open>Values\<close>

datatype json =
    JNull
  | JBool bool
  | JNum string
  | JStr string
  | JArr "json list"
  | JObj "(string \<times> json) list"

fun commas :: "string list \<Rightarrow> string" where
  "commas [] = []"
| "commas [x] = x"
| "commas (x # xs) = x @ CHR '','' # commas xs"

fun json_print :: "json \<Rightarrow> string" where
  "json_print JNull = ''null''"
| "json_print (JBool b) = (if b then ''true'' else ''false'')"
| "json_print (JNum t) = t"
| "json_print (JStr s) = json_string s"
| "json_print (JArr vs) = CHR ''['' # commas (map json_print vs) @ '']''"
| "json_print (JObj kvs) =
     CHR ''{'' # commas (map (\<lambda>kv. json_string (fst kv) @ CHR '':'' # json_print (snd kv)) kvs) @ ''}''"

section \<open>The decoder\<close>

definition skip_ws :: "string \<Rightarrow> string" where
  "skip_ws s = dropWhile (\<lambda>c. c \<in> {CHR 0x20, CHR 0x09, CHR 0x0A, CHR 0x0D}) s"

definition hex4 :: "string \<Rightarrow> nat option" where
  "hex4 s =
     (case s of
        a # b # c # d # _ \<Rightarrow>
          (case (unhex a, unhex b, unhex c, unhex d) of
             (Some w, Some x, Some y, Some z) \<Rightarrow> Some (4096 * w + 256 * x + 16 * y + z)
           | _ \<Rightarrow> None)
      | _ \<Rightarrow> None)"

definition utf8_encode :: "nat \<Rightarrow> string" where
  "utf8_encode r =
     (if r < 128 then [char_of r]
      else if r < 2048 then [char_of (192 + r div 64), char_of (128 + r mod 64)]
      else if r < 65536 then
        [char_of (224 + r div 4096), char_of (128 + r div 64 mod 64), char_of (128 + r mod 64)]
      else
        [char_of (240 + r div 262144), char_of (128 + r div 4096 mod 64),
         char_of (128 + r div 64 mod 64), char_of (128 + r mod 64)])"

definition replacement :: string where
  "replacement = utf8_encode 65533"

text \<open>The rune after \<^verbatim>\<open>\u\<close>: surrogate halves pair up, a lone one is replaced.\<close>

definition jp_rune :: "string \<Rightarrow> (string \<times> string) option" where
  "jp_rune s =
     (case hex4 s of
        None \<Rightarrow> None
      | Some r \<Rightarrow>
          let rest = drop 4 s in
          if r < 55296 \<or> 57344 \<le> r then Some (utf8_encode r, rest)
          else if r < 56320 \<and> take 2 rest = [bs, CHR ''u''] then
            (case hex4 (drop 2 rest) of
               Some l \<Rightarrow>
                 if 56320 \<le> l \<and> l < 57344
                 then Some (utf8_encode (65536 + (r - 55296) * 1024 + (l - 56320)), drop 6 rest)
                 else Some (replacement, rest)
             | None \<Rightarrow> Some (replacement, rest))
          else Some (replacement, rest))"

text \<open>One character of a string literal, decoded.\<close>

definition jp_char :: "string \<Rightarrow> (string \<times> string) option" where
  "jp_char s =
     (case s of [] \<Rightarrow> None
      | c # r \<Rightarrow>
          if c = dq \<or> (of_char c :: nat) < 32 then None
          else if c = bs then
            (case r of
               [] \<Rightarrow> None
             | d # r \<Rightarrow>
                 if d = dq \<or> d = bs \<or> d = CHR ''/'' then Some ([d], r)
                 else if d = CHR ''b'' then Some ([CHR 0x08], r)
                 else if d = CHR ''f'' then Some ([CHR 0x0C], r)
                 else if d = CHR ''n'' then Some ([CHR 0x0A], r)
                 else if d = CHR ''r'' then Some ([CHR 0x0D], r)
                 else if d = CHR ''t'' then Some ([CHR 0x09], r)
                 else if d = CHR ''u'' then jp_rune r
                 else None)
          else if in_range 0 127 c then Some ([c], r)
          else (case utf8_rune s of
                  None \<Rightarrow> Some (replacement, r)
                | Some n \<Rightarrow> Some (take n s, drop n s)))"

text \<open>The rest of a string literal after its opening quote. A literal has no more characters
  than the text that holds it: its length is fuel enough.\<close>

fun jp_str :: "nat \<Rightarrow> string \<Rightarrow> (string \<times> string) option" where
  "jp_str n s =
     (case s of [] \<Rightarrow> None
      | c # r \<Rightarrow>
          if c = dq then Some ([], r)
          else (case n of 0 \<Rightarrow> None
                | Suc n \<Rightarrow>
                    (case jp_char s of None \<Rightarrow> None
                     | Some (d, r) \<Rightarrow>
                         (case jp_str n r of None \<Rightarrow> None | Some (t, r) \<Rightarrow> Some (d @ t, r)))))"

declare jp_str.simps [simp del]

definition digit :: "char \<Rightarrow> bool" where
  "digit c \<longleftrightarrow> in_range 48 57 c"

definition jp_frac :: "string \<Rightarrow> (string \<times> string) option" where
  "jp_frac s =
     (case s of
        c # r \<Rightarrow>
          if c = CHR ''.'' then
            (if takeWhile digit r = [] then None else Some (c # takeWhile digit r, dropWhile digit r))
          else Some ([], s)
      | [] \<Rightarrow> Some ([], s))"

definition jp_exp :: "string \<Rightarrow> (string \<times> string) option" where
  "jp_exp s =
     (case s of
        c # r \<Rightarrow>
          if c = CHR ''e'' \<or> c = CHR ''E'' then
            (let sg = takeWhile (\<lambda>d. d \<in> {CHR ''+'', CHR ''-''}) (take 1 r); r = drop (length sg) r in
             if takeWhile digit r = [] then None
             else Some (c # sg @ takeWhile digit r, dropWhile digit r))
          else Some ([], s)
      | [] \<Rightarrow> Some ([], s))"

text \<open>A number literal: an integer part with no leading zero, a fraction, an exponent.\<close>

definition jp_num :: "string \<Rightarrow> (string \<times> string) option" where
  "jp_num s =
     (let sg = (case s of c # _ \<Rightarrow> if c = CHR ''-'' then [c] else [] | [] \<Rightarrow> []);
          r = drop (length sg) s;
          ds = takeWhile digit r;
          ip = (if take 1 ds = ''0'' then ''0'' else ds)
      in if ds = [] then None
         else (case jp_frac (drop (length ip) r) of None \<Rightarrow> None
               | Some (fr, r) \<Rightarrow>
                   (case jp_exp r of None \<Rightarrow> None
                    | Some (ex, r) \<Rightarrow> Some (sg @ ip @ fr @ ex, r))))"

fun jp_val :: "nat \<Rightarrow> string \<Rightarrow> (json \<times> string) option"
  and jp_arr :: "nat \<Rightarrow> string \<Rightarrow> (json list \<times> string) option"
  and jp_obj :: "nat \<Rightarrow> string \<Rightarrow> ((string \<times> json) list \<times> string) option" where
  "jp_val 0 s = None"
| "jp_val (Suc n) s =
     (case skip_ws s of
        [] \<Rightarrow> None
      | c # r \<Rightarrow>
          if c = dq then map_option (\<lambda>(t, r). (JStr t, r)) (jp_str (length r) r)
          else if c = CHR ''['' then
            (case skip_ws r of
               d # r' \<Rightarrow> if d = CHR '']'' then Some (JArr [], r')
                          else map_option (\<lambda>(vs, r). (JArr vs, r)) (jp_arr n r)
             | [] \<Rightarrow> None)
          else if c = CHR ''{'' then
            (case skip_ws r of
               d # r' \<Rightarrow> if d = CHR ''}'' then Some (JObj [], r')
                          else map_option (\<lambda>(kvs, r). (JObj kvs, r)) (jp_obj n r)
             | [] \<Rightarrow> None)
          else if c = CHR ''n'' then
            (if take 3 r = ''ull'' then Some (JNull, drop 3 r) else None)
          else if c = CHR ''t'' then
            (if take 3 r = ''rue'' then Some (JBool True, drop 3 r) else None)
          else if c = CHR ''f'' then
            (if take 4 r = ''alse'' then Some (JBool False, drop 4 r) else None)
          else map_option (\<lambda>(t, r). (JNum t, r)) (jp_num (c # r)))"
| "jp_arr 0 s = None"
| "jp_arr (Suc n) s =
     (case jp_val n s of
        None \<Rightarrow> None
      | Some (v, r) \<Rightarrow>
          (case skip_ws r of
             [] \<Rightarrow> None
           | c # r \<Rightarrow>
               if c = CHR '']'' then Some ([v], r)
               else if c = CHR '','' then map_option (\<lambda>(vs, r). (v # vs, r)) (jp_arr n r)
               else None))"
| "jp_obj 0 s = None"
| "jp_obj (Suc n) s =
     (case skip_ws s of
        [] \<Rightarrow> None
      | q # r \<Rightarrow>
          if q \<noteq> dq then None
          else (case jp_str (length r) r of
                  None \<Rightarrow> None
                | Some (k, r) \<Rightarrow>
                    (case skip_ws r of
                       [] \<Rightarrow> None
                     | c # r \<Rightarrow>
                         if c \<noteq> CHR '':'' then None
                         else (case jp_val n r of
                                 None \<Rightarrow> None
                               | Some (v, r) \<Rightarrow>
                                   (case skip_ws r of
                                      [] \<Rightarrow> None
                                    | c # r \<Rightarrow>
                                        if c = CHR ''}'' then Some ([(k, v)], r)
                                        else if c = CHR '','' then
                                          map_option (\<lambda>(kvs, r). ((k, v) # kvs, r)) (jp_obj n r)
                                        else None)))))"

text \<open>Each call of the three descends into a shorter text after at most two calls: twice the
  length of the text is fuel enough.\<close>

definition json_parse :: "string \<Rightarrow> json option" where
  "json_parse s =
     (case jp_val (2 * length s + 2) s of
        Some (v, r) \<Rightarrow> if skip_ws r = [] then Some v else None
      | None \<Rightarrow> None)"

section \<open>Reading back what was written\<close>

definition ascii :: "string \<Rightarrow> bool" where
  "ascii s \<longleftrightarrow> list_all (in_range 0 127) s"

lemma ascii_simps [simp]:
  "ascii []" "ascii (c # s) \<longleftrightarrow> in_range 0 127 c \<and> ascii s" "ascii (s @ t) \<longleftrightarrow> ascii s \<and> ascii t"
  by (simp_all add: ascii_def)


lemma jp_rune_low: "x < 8 \<Longrightarrow> y < 16 \<Longrightarrow>
  jp_rune (CHR ''0'' # CHR ''0'' # hex_digit x # hex_digit y # r) = Some ([char_of (16 * x + y)], r)"
proof -
  assume a: "x < 8" "y < 16"
  have "unhex CHR ''0'' = Some 0" by (simp add: unhex_def)
  with a show ?thesis by (simp add: jp_rune_def hex4_def unhex_hex_digit Let_def utf8_encode_def)
qed

lemma jp_char_char: "in_range 0 127 c \<Longrightarrow> jp_char (json_char c @ r) = Some ([c], r)"
proof -
  assume a: "in_range 0 127 c"
  have n: "(of_char c :: nat) div 16 < 8" using a by (simp add: in_range_def)
  have m: "char_of (16 * (of_char c div 16 :: nat) + of_char c mod 16) = c" by simp
  consider "c = dq \<or> c = bs" | "c = CHR 0x08" | "c = CHR 0x0C" | "c = CHR 0x0A" | "c = CHR 0x0D"
    | "c = CHR 0x09" | "json_char c = [bs, CHR ''u'', CHR ''0'', CHR ''0'', hex_digit (of_char c div 16), hex_digit (of_char c mod 16)]"
    | "c \<noteq> dq" "c \<noteq> bs" "json_char c = [c]" "\<not> (of_char c :: nat) < 32"
    unfolding json_char_def by (smt (verit))
  then show ?thesis
  proof cases
    case 7
    then show ?thesis
      using jp_rune_low [OF n, of "of_char c mod 16" r] m by (simp add: jp_char_def bs_def dq_def)
  next
    case 8
    then show ?thesis using a by (simp add: jp_char_def)
  qed (auto simp: json_char_def jp_char_def dq_def bs_def)
qed

lemma json_char_Cons: "\<exists>d x. json_char c = d # x \<and> d \<noteq> dq"
  by (simp add: json_char_def dq_def bs_def)

lemma json_body_ascii: "ascii (c # cs) \<Longrightarrow> json_body (c # cs) = json_char c @ json_body cs"
  by simp

declare json_body.simps(2) [simp del]

lemma jp_str_body:
  "ascii s \<Longrightarrow> length s \<le> n \<Longrightarrow> jp_str n (json_body s @ dq # r) = Some (s, r)"
proof (induction s arbitrary: n)
  case Nil
  then show ?case by (simp add: jp_str.simps)
next
  case (Cons c s)
  then obtain m where n: "n = Suc m" "length s \<le> m" by (cases n) auto
  obtain d x where d: "json_char c = d # x" "d \<noteq> dq" using json_char_Cons by blast
  have "jp_char (json_char c @ json_body s @ dq # r) = Some ([c], json_body s @ dq # r)"
    using Cons.prems by (simp add: jp_char_char)
  with d n Cons show ?case
    by (subst jp_str.simps) (simp add: json_body_ascii)
qed

lemma length_json_body: "ascii s \<Longrightarrow> length s \<le> length (json_body s)"
proof (induction s)
  case (Cons c s)
  obtain d x where "json_char c = d # x" using json_char_Cons by blast
  with Cons show ?case by (simp add: json_body_ascii)
qed simp

lemma jp_str_string:
  "ascii s \<Longrightarrow> jp_str (length (json_body s @ dq # r)) (json_body s @ dq # r) = Some (s, r)"
  using length_json_body [of s] by (intro jp_str_body) auto

text \<open>What follows a value inside a text.\<close>

definition stop :: "string \<Rightarrow> bool" where
  "stop r \<longleftrightarrow> (case r of [] \<Rightarrow> True | c # _ \<Rightarrow> c \<in> {CHR '','', CHR '']'', CHR ''}''})"

lemma stop_simps [simp]: "stop []" "stop (CHR '','' # r)" "stop (CHR '']'' # r)" "stop (CHR ''}'' # r)"
  by (simp_all add: stop_def)

lemma skip_ws_simps [simp]:
  "skip_ws (CHR '','' # r) = CHR '','' # r" "skip_ws (CHR '']'' # r) = CHR '']'' # r"
  "skip_ws (CHR ''}'' # r) = CHR ''}'' # r" "skip_ws (dq # r) = dq # r" "skip_ws (CHR '':'' # r) = CHR '':'' # r"
  "skip_ws []  = []"
  by (simp_all add: skip_ws_def dq_def)

lemma digit_set: "digit c \<longleftrightarrow> c \<in> set ''0123456789''"
proof
  assume "digit c"
  then have "of_char c \<in> set [48..<58 :: nat]" by (simp add: digit_def in_range_def) presburger
  then have "char_of (of_char c :: nat) \<in> char_of ` set [48..<58 :: nat]" by blast
  also have "char_of ` set [48..<58 :: nat] = set ''0123456789''" by code_simp
  finally show "c \<in> set ''0123456789''" by simp
qed (auto simp: digit_def in_range_def)

lemma digits_dec_nat: "\<forall>c \<in> set (dec_nat n). digit c"
  using dec_nat_set [of n] by (auto simp only: digit_set)

lemma dec_nat_hd: "0 < n \<Longrightarrow> hd (dec_nat n) \<noteq> CHR ''0''"
proof (induction n rule: dec_nat.induct)
  case (1 n)
  show ?case
  proof (cases "n < 10")
    case True
    have "list_all (\<lambda>n. dec_digit n \<noteq> CHR ''0'') [1..<10]" by code_simp
    with True 1(2) show ?thesis by (subst dec_nat.simps) (auto simp: list_all_iff)
  next
    case False
    with 1 show ?thesis by (subst dec_nat.simps) simp
  qed
qed

lemma jp_num_tail: "stop r \<Longrightarrow> takeWhile digit r = [] \<and> jp_frac r = Some ([], r) \<and> jp_exp r = Some ([], r)"
  by (cases r) (auto simp: stop_def jp_frac_def jp_exp_def digit_def in_range_def)

lemma jp_num_dec_nat:
  assumes "stop r"
  shows "takeWhile digit (dec_nat n @ r) = dec_nat n"
    "take 1 (dec_nat n) = ''0'' \<longrightarrow> dec_nat n = ''0''"
proof -
  show "takeWhile digit (dec_nat n @ r) = dec_nat n"
    using digits_dec_nat [of n] jp_num_tail [OF assms] by (simp add: takeWhile_append)
  show "take 1 (dec_nat n) = ''0'' \<longrightarrow> dec_nat n = ''0''"
  proof (cases "n = 0")
    case True
    then show ?thesis by (simp add: dec_nat.simps dec_digit_def)
  next
    case False
    with dec_nat_hd [of n] show ?thesis by (cases "dec_nat n") auto
  qed
qed

lemma jp_num_dec_int: "stop r \<Longrightarrow> jp_num (dec_int i @ r) = Some (dec_int i, r)"
proof -
  assume r: "stop r"
  have no: "case dec_nat n @ r of c # _ \<Rightarrow> c \<noteq> CHR ''-''" for n
    using minus_notin_dec_nat [of n] dec_nat_nonempty [of n] by (cases "dec_nat n") auto
  have pos: "jp_num (dec_nat n @ r) = Some (dec_nat n, r)" for n
    using no [of n] jp_num_dec_nat [OF r, of n] jp_num_tail [OF r]
    by (auto simp: jp_num_def Let_def split: list.splits if_splits)
  have "jp_num (CHR ''-'' # dec_nat n @ r) = Some (CHR ''-'' # dec_nat n, r)" for n
    using jp_num_dec_nat [OF r, of n] jp_num_tail [OF r]
    by (auto simp: jp_num_def Let_def)
  with pos show ?thesis by (simp add: dec_int_def)
qed

fun json_ok :: "json \<Rightarrow> bool" where
  "json_ok (JNum t) \<longleftrightarrow> (\<exists>i. t = dec_int i)"
| "json_ok (JStr s) \<longleftrightarrow> ascii s"
| "json_ok (JArr vs) \<longleftrightarrow> (\<forall>v \<in> set vs. json_ok v)"
| "json_ok (JObj kvs) \<longleftrightarrow> (\<forall>kv \<in> set kvs. ascii (fst kv) \<and> json_ok (snd kv))"
| "json_ok _ \<longleftrightarrow> True"

lemma dec_int_hd: "\<exists>c x. dec_int i = c # x \<and> (c = CHR ''-'' \<or> digit c)"
proof -
  have "\<exists>c x. dec_nat n = c # x \<and> digit c" for n
    using dec_nat_nonempty [of n] digits_dec_nat [of n] by (cases "dec_nat n") auto
  then show ?thesis by (cases "i < 0") (simp_all add: dec_int_def, metis)
qed

lemma dec_head_other:
  assumes "c = CHR ''-'' \<or> digit c"
  shows "c \<noteq> dq" "c \<noteq> CHR ''[''" "c \<noteq> CHR ''{''" "c \<noteq> CHR ''n''" "c \<noteq> CHR ''t''" "c \<noteq> CHR ''f''"
    "c \<noteq> CHR '']''" "skip_ws (c # x) = c # x"
  using assms by (auto simp: digit_def in_range_def dq_def skip_ws_def)

lemma json_print_hd:
  assumes "json_ok v"
  shows "\<exists>c x. json_print v = c # x \<and> c \<noteq> CHR '']'' \<and> (\<forall>y. skip_ws (c # y) = c # y)"
proof (cases v)
  case (JNum t)
  with assms obtain i where "t = dec_int i" by auto
  with JNum dec_int_hd [of i] dec_head_other show ?thesis by (metis json_print.simps(3))
qed (auto simp: json_string_def skip_ws_def dq_def)

lemma skip_ws_print: "json_ok v \<Longrightarrow> skip_ws (json_print v @ r) = json_print v @ r"
  using json_print_hd [of v] by force

lemma commas_Cons: "xs \<noteq> [] \<Longrightarrow> commas (x # xs) = x @ CHR '','' # commas xs"
  by (cases xs) auto

definition reads :: "json \<Rightarrow> bool" where
  "reads v \<longleftrightarrow> (\<forall>n r. stop r \<longrightarrow> 2 * length (json_print v) \<le> n \<longrightarrow> jp_val n (json_print v @ r) = Some (v, r))"

lemma readsD: "reads v \<Longrightarrow> stop r \<Longrightarrow> 2 * length (json_print v) \<le> n \<Longrightarrow> jp_val n (json_print v @ r) = Some (v, r)"
  by (simp add: reads_def)

lemma jp_arr_print:
  "\<forall>v \<in> set vs. reads v \<Longrightarrow> vs \<noteq> [] \<Longrightarrow> 2 * length (commas (map json_print vs)) + 1 \<le> n \<Longrightarrow>
   jp_arr n (commas (map json_print vs) @ CHR '']'' # r) = Some (vs, r)"
proof (induction vs arbitrary: n)
  case (Cons v vs)
  from Cons.prems obtain m where n: "n = Suc m" by (cases n) auto
  show ?case
  proof (cases "vs = []")
    case True
    with Cons.prems n show ?thesis by (simp add: readsD)
  next
    case False
    with Cons.prems n have l: "2 * length (json_print v) \<le> m"
      "2 * length (commas (map json_print vs)) + 1 \<le> m" by (simp_all add: commas_Cons)
    with Cons n False show ?thesis by (simp add: commas_Cons readsD)
  qed
qed simp

abbreviation member :: "string \<times> json \<Rightarrow> string" where
  "member kv \<equiv> json_string (fst kv) @ CHR '':'' # json_print (snd kv)"

lemma jp_obj_print:
  "\<forall>kv \<in> set kvs. ascii (fst kv) \<and> reads (snd kv) \<and> json_ok (snd kv) \<Longrightarrow> kvs \<noteq> [] \<Longrightarrow>
   2 * length (commas (map member kvs)) + 1 \<le> n \<Longrightarrow>
   jp_obj n (commas (map member kvs) @ CHR ''}'' # r) = Some (kvs, r)"
proof (induction kvs arbitrary: n)
  case (Cons kv kvs)
  from Cons.prems obtain m where n: "n = Suc m" by (cases n) auto
  obtain k v where kv: "kv = (k, v)" by (cases kv)
  with Cons.prems have k: "ascii k" "reads v" by simp_all
  show ?case
  proof (cases "kvs = []")
    case True
    with Cons.prems n kv show ?thesis
      using jp_str_string [OF k(1), of "CHR '':'' # json_print v @ CHR ''}'' # r"]
      by (simp add: json_string_def readsD)
  next
    case False
    with Cons.prems n kv have l: "2 * length (json_print v) \<le> m"
      "2 * length (commas (map member kvs)) + 1 \<le> m" by (simp_all add: commas_Cons)
    with Cons n False kv show ?thesis
      using jp_str_string [OF k(1), of "CHR '':'' # json_print v @ CHR '','' # commas (map member kvs) @ CHR ''}'' # r"]
      by (simp add: commas_Cons json_string_def readsD)
  qed
qed simp

lemma jp_val_Suc: "2 * length x \<le> n \<Longrightarrow> x \<noteq> [] \<Longrightarrow> \<exists>m. n = Suc m \<and> 2 * length x \<le> Suc m"
  by (cases n) auto

lemma skip_ws_open [simp]: "skip_ws (CHR ''['' # r) = CHR ''['' # r" "skip_ws (CHR ''{'' # r) = CHR ''{'' # r"
  by (simp_all add: skip_ws_def)

theorem json_reads: "json_ok v \<Longrightarrow> reads v"
proof (induction v)
  case JNull
  have "jp_val (Suc m) (''null'' @ r) = Some (JNull, r)" for m r
    by (simp add: skip_ws_def dq_def)
  then show ?case unfolding reads_def by (metis json_print.simps(1) jp_val_Suc list.discI)
next
  case (JBool b)
  have "jp_val (Suc m) (json_print (JBool b) @ r) = Some (JBool b, r)" for m r
    by (cases b) (simp_all add: skip_ws_def dq_def)
  moreover have "json_print (JBool b) \<noteq> []" by simp
  ultimately show ?case unfolding reads_def by (metis jp_val_Suc)
next
  case (JNum t)
  then obtain i where t: "t = dec_int i" by auto
  obtain c x where c: "dec_int i = c # x" "c = CHR ''-'' \<or> digit c" using dec_int_hd by blast
  have "jp_val (Suc m) (dec_int i @ r) = Some (JNum t, r)" if "stop r" for m r
  proof -
    have "jp_num (c # x @ r) = Some (c # x, r)" using jp_num_dec_int [OF that, of i] c(1) by simp
    then show ?thesis by (simp add: t c(1) dec_head_other [OF c(2)])
  qed
  moreover have "dec_int i \<noteq> []" using c by simp
  ultimately show ?case unfolding reads_def t json_print.simps by (metis jp_val_Suc)
next
  case (JStr s)
  then have "jp_val (Suc m) (json_print (JStr s) @ r) = Some (JStr s, r)" for m r
    using jp_str_string [of s r] by (simp add: json_string_def)
  moreover have "json_print (JStr s) \<noteq> []" by (simp add: json_string_def)
  ultimately show ?case unfolding reads_def by (metis jp_val_Suc)
next
  case (JArr vs)
  have "jp_val (Suc m) (json_print (JArr vs) @ r) = Some (JArr vs, r)"
    if m: "2 * length (json_print (JArr vs)) \<le> Suc m" for m r
  proof (cases vs)
    case Nil
    then show ?thesis by (simp add: dq_def)
  next
    case (Cons v ws)
    have "jp_arr m (commas (map json_print vs) @ CHR '']'' # r) = Some (vs, r)"
      using m JArr Cons by (intro jp_arr_print) auto
    moreover obtain c x where "commas (map json_print vs) = c # x" "c \<noteq> CHR '']''" "\<forall>y. skip_ws (c # y) = c # y"
      using json_print_hd [of v] JArr.prems Cons by (cases ws) fastforce+
    ultimately show ?thesis by (simp add: dq_def)
  qed
  then show ?case unfolding reads_def using jp_val_Suc [of "json_print (JArr vs)"] by fastforce
next
  case (JObj kvs)
  have "jp_val (Suc m) (json_print (JObj kvs) @ r) = Some (JObj kvs, r)"
    if m: "2 * length (json_print (JObj kvs)) \<le> Suc m" for m r
  proof (cases kvs)
    case Nil
    then show ?thesis by (simp add: dq_def)
  next
    case (Cons kv ws)
    have "\<forall>kv \<in> set kvs. ascii (fst kv) \<and> reads (snd kv) \<and> json_ok (snd kv)"
      using JObj by (force intro: snds.intros)
    then have "jp_obj m (commas (map member kvs) @ CHR ''}'' # r) = Some (kvs, r)"
      using m Cons by (intro jp_obj_print) auto
    moreover obtain x where "commas (map member kvs) = dq # x"
      using Cons by (cases ws) (auto simp: json_string_def)
    moreover have "dq \<noteq> CHR ''}''" "CHR ''{'' \<noteq> dq" by (simp_all add: dq_def)
    ultimately show ?thesis by simp
  qed
  then show ?case unfolding reads_def using jp_val_Suc [of "json_print (JObj kvs)"] by fastforce
qed

theorem json_roundtrip: "json_ok v \<Longrightarrow> json_parse (json_print v) = Some v"
  using readsD [OF json_reads, of v "[]" "2 * length (json_print v) + 2"] by (simp add: json_parse_def)

lemma json_print_inject: "json_ok v \<Longrightarrow> json_ok w \<Longrightarrow> json_print v = json_print w \<longleftrightarrow> v = w"
  by (metis json_roundtrip option.inject)

end
