(* ===== verification/Signing.thy ===== *)
theory Signing
  imports Json
begin

text \<open>
  \<^verbatim>\<open>kernel/internal/signing/signing.go\<close>: the Ed25519 envelope the kernel signs and verifies with,
  and the canonical form a manifest is hashed in. Ed25519 itself is a parameter: a record of its
  three operations, and \<open>ed_correct\<close> is the documented contract of a key pair (the key and
  signature sizes, and that the public key verifies what the private key signs). Nothing here
  assumes that signatures cannot be forged.
\<close>

record ed25519 =
  ed_sign :: "bytes \<Rightarrow> bytes \<Rightarrow> bytes"
  ed_verify :: "bytes \<Rightarrow> bytes \<Rightarrow> bytes \<Rightarrow> bool"
  ed_public :: "bytes \<Rightarrow> bytes"

record keypair =
  kp_public :: bytes
  kp_private :: bytes

definition PublicKeySize :: nat where "PublicKeySize = 32"
definition PrivateKeySize :: nat where "PrivateKeySize = 64"
definition SignatureSize :: nat where "SignatureSize = 64"

definition ed_correct :: "ed25519 \<Rightarrow> keypair \<Rightarrow> bool" where
  "ed_correct ed k \<longleftrightarrow> length (kp_public k) = PublicKeySize \<and>
     (\<forall>m. ed_verify ed (kp_public k) m (ed_sign ed (kp_private k) m)
        \<and> length (ed_sign ed (kp_private k) m) = SignatureSize)"

definition keypair_Sign :: "ed25519 \<Rightarrow> keypair \<Rightarrow> bytes \<Rightarrow> string" where
  "keypair_Sign ed k payload = b64_encode (ed_sign ed (kp_private k) payload)"

definition PublicB64 :: "keypair \<Rightarrow> string" where
  "PublicB64 k = b64_encode (kp_public k)"

text \<open>The Go \<^verbatim>\<open>error\<close> of a check: \<open>None\<close> is \<^verbatim>\<open>nil\<close>.\<close>

datatype sig_error = InvalidKey | InvalidSignatureEncoding | SignatureFailed

definition signing_Verify :: "ed25519 \<Rightarrow> string \<Rightarrow> string \<Rightarrow> bytes \<Rightarrow> sig_error option" where
  "signing_Verify ed pubB64 sigB64 payload =
     (case b64_decode pubB64 of
        None \<Rightarrow> Some InvalidKey
      | Some pub \<Rightarrow>
          if length pub \<noteq> PublicKeySize then Some InvalidKey
          else (case b64_decode sigB64 of
                  None \<Rightarrow> Some InvalidSignatureEncoding
                | Some sig \<Rightarrow> if ed_verify ed pub payload sig then None else Some SignatureFailed))"

lemma signing_Verify_Sign [simp]:
  "ed_correct ed k \<Longrightarrow> signing_Verify ed (PublicB64 k) (keypair_Sign ed k m) m = None"
  by (simp add: signing_Verify_def PublicB64_def keypair_Sign_def ed_correct_def)

lemma signing_Verify_None:
  "signing_Verify ed p s m = None \<longleftrightarrow>
   (\<exists>pub sig. b64_decode p = Some pub \<and> length pub = PublicKeySize \<and> b64_decode s = Some sig
      \<and> ed_verify ed pub m sig)"
  by (auto simp: signing_Verify_def split: option.splits)

lemma PublicB64_nonempty: "ed_correct ed k \<Longrightarrow> PublicB64 k \<noteq> []"
  using b64_roundtrip [of "kp_public k"]
  by (cases "kp_public k") (auto simp: PublicB64_def ed_correct_def PublicKeySize_def b64_decode_def)

section \<open>The canonical form of a manifest\<close>

text \<open>
  \<^verbatim>\<open>marshalCanonical\<close> over a decoded document: a Go map is an object whose members have distinct
  names, in no particular order; its members are written in the order of their names.
\<close>

lemma size_snd_sorted [termination_simp]:
  "kv \<in> set (sort_key fst kvs) \<Longrightarrow> size (snd kv) < Suc (size_list (size_prod (\<lambda>_. 0) size) kvs)"
  for kvs :: "(string \<times> json) list"
  by (induction kvs) (auto simp: set_insort_key)

fun marshalCanonical :: "json \<Rightarrow> string" where
  "marshalCanonical (JObj kvs) =
     CHR ''{'' # commas (map (\<lambda>kv. json_string (fst kv) @ CHR '':'' # marshalCanonical (snd kv))
                            (sort_key fst kvs)) @ ''}''"
| "marshalCanonical (JArr vs) = CHR ''['' # commas (map marshalCanonical vs) @ '']''"
| "marshalCanonical v = json_print v"

definition CanonicalManifestHash :: "(string \<times> json) list \<Rightarrow> bytes" where
  "CanonicalManifestHash manifest =
     sha256 (marshalCanonical (JObj (filter (\<lambda>kv. fst kv \<noteq> ''signature'') manifest)))"

definition package_payload :: "bytes \<Rightarrow> bytes \<Rightarrow> bytes" where
  "package_payload manifestHash artifactHash = (''aura-pkg-v1:'' @ manifestHash) @ artifactHash"

definition ArtifactHash :: "bytes \<Rightarrow> bytes" where
  "ArtifactHash artifact = sha256 artifact"

text \<open>A map is its set of members: the hash does not see the order they come in, nor the
  signature member.\<close>

lemma sort_members_unique:
  assumes "set xs = set ys" "distinct (map fst xs)" "distinct (map fst ys)"
  shows "sort_key fst xs = sort_key fst (ys :: (string \<times> 'v) list)"
proof (rule map_sorted_distinct_set_unique)
  show "inj_on fst (set (sort_key fst xs) \<union> set (sort_key fst ys))"
    using assms by (simp add: distinct_map)
qed (use assms in \<open>simp_all add: distinct_map\<close>)

lemma distinct_keys_filter: "distinct (map fst xs) \<Longrightarrow> distinct (map fst (filter P xs))"
  by (simp add: distinct_map_filter)

end
