(* ===== verification/Approval.thy ===== *)
theory Approval
  imports Signing
begin

text \<open>
  \<^verbatim>\<open>kernel/internal/ledger/approval.go\<close>: an operator's signature over one gated delivery, with the
  digests of what the operator was shown. \<^verbatim>\<open>Approval.Verify\<close> sorts the context in place; here it
  returns the sorted approval with the verdict, \<open>None\<close> being Go's \<^verbatim>\<open>nil\<close>.
\<close>

definition ApprovalDomain :: string where "ApprovalDomain = ''aura-approval-v1''"
definition ApprovalApprove :: string where "ApprovalApprove = ''approve''"
definition ApprovalDeny :: string where "ApprovalDeny = ''deny''"
definition MaxContextEntries :: nat where "MaxContextEntries = 8"

record context_entry =
  ce_label :: string
  ce_digest :: string

record approval =
  ap_operator :: string
  ap_pubkey :: string
  ap_envelope :: string
  ap_decision :: string
  ap_ts :: int
  ap_context :: "context_entry list"
  ap_sig :: string

text \<open>The two patterns: \<^verbatim>\<open>^[a-z][a-z0-9_]{0,31}$\<close> and \<^verbatim>\<open>^[a-z0-9][a-z0-9-]{0,15}:[0-9a-f]{64,128}$\<close>.\<close>

definition lower :: "char \<Rightarrow> bool" where "lower c \<longleftrightarrow> in_range 97 122 c"
definition label_rest :: "char \<Rightarrow> bool" where "label_rest c \<longleftrightarrow> lower c \<or> digit c \<or> c = CHR ''_''"
definition algo_rest :: "char \<Rightarrow> bool" where "algo_rest c \<longleftrightarrow> lower c \<or> digit c \<or> c = CHR ''-''"
definition lower_hex :: "char \<Rightarrow> bool" where "lower_hex c \<longleftrightarrow> digit c \<or> in_range 97 102 c"

definition contextLabelRe :: "string \<Rightarrow> bool" where
  "contextLabelRe s =
     (case s of [] \<Rightarrow> False | c # r \<Rightarrow> lower c \<and> list_all label_rest r \<and> length r \<le> 31)"

definition contextDigestRe :: "string \<Rightarrow> bool" where
  "contextDigestRe s =
     (let algo = takeWhile (\<lambda>c. c \<noteq> CHR '':'') s; rest = dropWhile (\<lambda>c. c \<noteq> CHR '':'') s in
      case algo of [] \<Rightarrow> False
      | c # a \<Rightarrow> (lower c \<or> digit c) \<and> list_all algo_rest a \<and> length a \<le> 15
          \<and> (case rest of [] \<Rightarrow> False
             | _ # h \<Rightarrow> list_all lower_hex h \<and> 64 \<le> length h \<and> length h \<le> 128))"

datatype context_error = TooManyEntries | BadLabel | BadDigest | DuplicateLabel

fun context_lines :: "string option \<Rightarrow> context_entry list \<Rightarrow> context_error + string list" where
  "context_lines prev [] = Inr []"
| "context_lines prev (e # es) =
     (if \<not> contextLabelRe (ce_label e) then Inl BadLabel
      else if \<not> contextDigestRe (ce_digest e) then Inl BadDigest
      else if prev = Some (ce_label e) then Inl DuplicateLabel
      else (case context_lines (Some (ce_label e)) es of
              Inl err \<Rightarrow> Inl err
            | Inr ls \<Rightarrow> Inr ((ce_label e @ CHR ''='' # ce_digest e) # ls)))"

fun join_lines :: "string list \<Rightarrow> string" where
  "join_lines [] = []"
| "join_lines [l] = l"
| "join_lines (l # ls) = l @ CHR 0x0A # join_lines ls"

definition CanonicalContext :: "context_entry list \<Rightarrow> context_error + string" where
  "CanonicalContext entries =
     (if entries = [] then Inr []
      else if length entries > MaxContextEntries then Inl TooManyEntries
      else (case context_lines None (sort_key ce_label entries) of
              Inl err \<Rightarrow> Inl err
            | Inr ls \<Rightarrow> Inr (join_lines ls)))"

definition ContextDigest :: "context_entry list \<Rightarrow> context_error + string" where
  "ContextDigest entries =
     (case CanonicalContext entries of
        Inl err \<Rightarrow> Inl err
      | Inr c \<Rightarrow> if c = [] then Inr [] else Inr (''sha256:'' @ hex_encode (sha256 c)))"

definition colon :: "string \<Rightarrow> string \<Rightarrow> string" where
  "colon a b = a @ CHR '':'' # b"

definition approval_base :: "string \<Rightarrow> string \<Rightarrow> string \<Rightarrow> string \<Rightarrow> int \<Rightarrow> string" where
  "approval_base node session envelope decision ts =
     colon ApprovalDomain (colon node (colon session (colon envelope (colon decision (dec_int ts)))))"

definition ApprovalPayload ::
  "string \<Rightarrow> string \<Rightarrow> string \<Rightarrow> string \<Rightarrow> int \<Rightarrow> context_entry list \<Rightarrow> context_error + bytes" where
  "ApprovalPayload node session envelope decision ts shown =
     (let base = approval_base node session envelope decision ts in
      case ContextDigest shown of
        Inl err \<Rightarrow> Inl err
      | Inr d \<Rightarrow> if d = [] then Inr base else Inr (base @ CHR '':'' # d))"

datatype approval_error =
    NoApproval | NoOperator | NoDelivery | BadDecision | BadApprovalKey | BadApprovalSig
  | BadContext context_error | ApprovalUnverified

definition sort_context :: "approval \<Rightarrow> approval" where
  "sort_context a = a\<lparr>ap_context := sort_key ce_label (ap_context a)\<rparr>"

definition approval_Verify ::
  "ed25519 \<Rightarrow> approval option \<Rightarrow> string \<Rightarrow> string \<Rightarrow> approval option \<times> approval_error option" where
  "approval_Verify ed ma node session =
     (case ma of
        None \<Rightarrow> (None, Some NoApproval)
      | Some a \<Rightarrow>
          if ap_operator a = [] then (Some a, Some NoOperator)
          else if ap_envelope a = [] then (Some a, Some NoDelivery)
          else if ap_decision a \<noteq> ApprovalApprove \<and> ap_decision a \<noteq> ApprovalDeny
          then (Some a, Some BadDecision)
          else (case b64_decode (TrimSpace (ap_pubkey a)) of
                  None \<Rightarrow> (Some a, Some BadApprovalKey)
                | Some pub \<Rightarrow>
                    if length pub \<noteq> PublicKeySize then (Some a, Some BadApprovalKey)
                    else (case b64_decode (TrimSpace (ap_sig a)) of
                            None \<Rightarrow> (Some a, Some BadApprovalSig)
                          | Some sig \<Rightarrow>
                              if length sig \<noteq> SignatureSize then (Some a, Some BadApprovalSig)
                              else (let a = sort_context a in
                                    case ApprovalPayload node session (ap_envelope a) (ap_decision a)
                                           (ap_ts a) (ap_context a) of
                                      Inl err \<Rightarrow> (Some a, Some (BadContext err))
                                    | Inr payload \<Rightarrow>
                                        if ed_verify ed pub payload sig then (Some a, None)
                                        else (Some a, Some ApprovalUnverified)))))"

definition Shows :: "approval option \<Rightarrow> string \<Rightarrow> bool" where
  "Shows ma label =
     (case ma of None \<Rightarrow> False | Some a \<Rightarrow> list_ex (\<lambda>e. ce_label e = label) (ap_context a))"

definition Unbound :: "approval option \<Rightarrow> string list \<Rightarrow> string list" where
  "Unbound ma required = filter (\<lambda>label. \<not> Shows ma label) required"

definition Binds :: "approval option \<Rightarrow> string \<Rightarrow> bool" where
  "Binds ma envelope =
     (case ma of None \<Rightarrow> False | Some a \<Rightarrow> ap_envelope a \<noteq> [] \<and> ap_envelope a = envelope)"

datatype sign_approval_error =
  SignNoOperator | SignBadDecision | SignBadKey | SignNoDelivery | SignBadContext context_error

definition SignApproval ::
  "ed25519 \<Rightarrow> string \<Rightarrow> bytes \<Rightarrow> string \<Rightarrow> string \<Rightarrow> string \<Rightarrow> string \<Rightarrow> int \<Rightarrow> context_entry list
   \<Rightarrow> sign_approval_error + approval" where
  "SignApproval ed operator priv node session envelope decision ts shown =
     (if operator = [] then Inl SignNoOperator
      else if decision \<noteq> ApprovalApprove \<and> decision \<noteq> ApprovalDeny then Inl SignBadDecision
      else if length priv \<noteq> PrivateKeySize then Inl SignBadKey
      else if envelope = [] then Inl SignNoDelivery
      else (let shown = sort_key ce_label shown in
            case ApprovalPayload node session envelope decision ts shown of
              Inl err \<Rightarrow> Inl (SignBadContext err)
            | Inr payload \<Rightarrow>
                Inr \<lparr>ap_operator = operator, ap_pubkey = b64_encode (ed_public ed priv),
                     ap_envelope = envelope, ap_decision = decision, ap_ts = ts,
                     ap_context = shown, ap_sig = b64_encode (ed_sign ed priv payload)\<rparr>))"

section \<open>What the payload binds\<close>

lemma label_no_eq: "contextLabelRe s \<Longrightarrow> CHR ''='' \<notin> set s"
  by (auto simp: contextLabelRe_def list_all_iff label_rest_def lower_def digit_def in_range_def
      split: list.splits)

lemma digest_no_newline: "contextDigestRe s \<Longrightarrow> CHR 0x0A \<notin> set s"
proof
  assume d: "contextDigestRe s" and n: "CHR 0x0A \<in> set s"
  define a where "a = takeWhile (\<lambda>c. c \<noteq> CHR '':'') s"
  define r where "r = dropWhile (\<lambda>c. c \<noteq> CHR '':'') s"
  have s: "s = a @ r" by (simp add: a_def r_def)
  have "hd r = CHR '':''" if "r \<noteq> []" using that hd_dropWhile unfolding r_def by blast
  with d n s show False
    unfolding contextDigestRe_def a_def [symmetric] r_def [symmetric] Let_def
    by (auto simp: list_all_iff algo_rest_def lower_hex_def lower_def digit_def in_range_def
        split: list.splits)
qed

lemma label_no_newline: "contextLabelRe s \<Longrightarrow> CHR 0x0A \<notin> set s"
  by (auto simp: contextLabelRe_def list_all_iff label_rest_def lower_def digit_def in_range_def
      split: list.splits)

lemma context_lines_inject:
  "context_lines p a = Inr ls \<Longrightarrow> context_lines q b = Inr ls \<Longrightarrow> a = b"
proof (induction a arbitrary: p q b ls)
  case Nil
  then show ?case by (cases b) (auto split: if_splits sum.splits)
next
  case (Cons x a)
  then obtain ls' where ls: "ls = (ce_label x @ CHR ''='' # ce_digest x) # ls'"
    "context_lines (Some (ce_label x)) a = Inr ls'" "contextLabelRe (ce_label x)"
    by (auto split: if_splits sum.splits)
  with Cons.prems(2) obtain y b' where b: "b = y # b'" by (cases b) auto
  with Cons.prems(2) ls have y: "ce_label x @ CHR ''='' # ce_digest x = ce_label y @ CHR ''='' # ce_digest y"
    "context_lines (Some (ce_label y)) b' = Inr ls'" "contextLabelRe (ce_label y)"
    by (auto split: if_splits sum.splits)
  from append_delim_inj [OF label_no_eq [OF ls(3)] label_no_eq [OF y(3)] y(1)]
  have "x = y" by simp
  with b Cons.IH [OF ls(2) y(2)] show ?case by simp
qed

lemma context_lines_no_newline:
  "context_lines p a = Inr ls \<Longrightarrow> \<forall>l \<in> set ls. CHR 0x0A \<notin> set l \<and> l \<noteq> []"
proof (induction a arbitrary: p ls)
  case (Cons x a)
  then obtain ls' where "ls = (ce_label x @ CHR ''='' # ce_digest x) # ls'"
    "context_lines (Some (ce_label x)) a = Inr ls'" "contextLabelRe (ce_label x)" "contextDigestRe (ce_digest x)"
    by (auto split: if_splits sum.splits)
  with Cons.IH label_no_newline digest_no_newline show ?case by fastforce
qed simp

lemma join_lines_inject:
  "\<forall>l \<in> set a. CHR 0x0A \<notin> set l \<and> l \<noteq> [] \<Longrightarrow> \<forall>l \<in> set b. CHR 0x0A \<notin> set l \<and> l \<noteq> [] \<Longrightarrow>
   join_lines a = join_lines b \<Longrightarrow> a = b"
proof (induction a arbitrary: b rule: join_lines.induct)
  case 1
  then show ?case by (cases b rule: join_lines.cases) auto
next
  case (2 l)
  then show ?case by (cases b rule: join_lines.cases) auto
next
  case (3 l l2 ls)
  show ?case
  proof (cases b rule: join_lines.cases)
    case (3 m m2 ms)
    with "3.prems" append_delim_inj [of "CHR 0x0A" l m "join_lines (l2 # ls)" "join_lines (m2 # ms)"]
    have "l = m" "join_lines (l2 # ls) = join_lines (m2 # ms)" by auto
    with "3.IH" [of "m2 # ms"] "3.prems" 3 show ?thesis by simp
  qed (use "3.prems" in auto)
qed

lemma context_lines_length: "context_lines p a = Inr ls \<Longrightarrow> length ls = length a"
  by (induction a arbitrary: p ls) (auto split: if_splits sum.splits)

lemma sort_key_idem [simp]: "sort_key f (sort_key f xs) = sort_key f xs"
  by (rule sort_key_id_if_sorted) simp

lemma sort_key_Nil_iff: "sort_key f xs = [] \<longleftrightarrow> xs = []"
  by (metis length_0_conv length_sort)

lemma CanonicalContext_inject:
  assumes "CanonicalContext a = Inr c" "CanonicalContext b = Inr c"
  shows "sort_key ce_label a = sort_key ce_label b"
proof -
  let ?la = "if a = [] then [] else projr (context_lines None (sort_key ce_label a))"
  have lines: "\<exists>ls. context_lines None (sort_key ce_label x) = Inr ls \<and> join_lines ls = c"
    if "CanonicalContext x = Inr c" for x
    using that by (auto simp: CanonicalContext_def split: if_splits sum.splits)
  obtain la lb where la: "context_lines None (sort_key ce_label a) = Inr la" "join_lines la = c"
    and lb: "context_lines None (sort_key ce_label b) = Inr lb" "join_lines lb = c"
    using lines [OF assms(1)] lines [OF assms(2)] by blast
  have "la = lb"
    using context_lines_no_newline [OF la(1)] context_lines_no_newline [OF lb(1)] la(2) lb(2)
    by (intro join_lines_inject) simp_all
  with la(1) lb(1) show ?thesis using context_lines_inject by blast
qed

lemma CanonicalContext_empty: "CanonicalContext a = Inr [] \<longleftrightarrow> a = []"
proof
  assume "CanonicalContext a = Inr []"
  moreover have "CanonicalContext [] = Inr []" by (simp add: CanonicalContext_def)
  ultimately have "sort_key ce_label a = sort_key ce_label []" by (rule CanonicalContext_inject)
  then show "a = []" by (simp add: sort_key_Nil_iff)
qed (simp add: CanonicalContext_def)

lemma colon_inject:
  "CHR '':'' \<notin> set a \<Longrightarrow> CHR '':'' \<notin> set b \<Longrightarrow> colon a x = colon b y \<longleftrightarrow> a = b \<and> x = y"
  unfolding colon_def using append_delim_inj [of "CHR '':''" a b x y] by auto

lemma colon_same [simp]: "colon a x = colon a y \<longleftrightarrow> x = y"
  by (simp add: colon_def)

lemma colon_append: "colon a x @ y = colon a (x @ y)"
  by (simp add: colon_def)

definition colon_free :: "string list \<Rightarrow> bool" where
  "colon_free ss \<longleftrightarrow> list_all (\<lambda>s. CHR '':'' \<notin> set s) ss"

lemma ContextDigest_Inr:
  "ContextDigest a = Inr d \<longleftrightarrow>
   (\<exists>c. CanonicalContext a = Inr c \<and> d = (if c = [] then [] else ''sha256:'' @ hex_encode (sha256 c)))"
  by (auto simp: ContextDigest_def split: sum.splits)

lemma ApprovalPayload_inject:
  assumes "ApprovalPayload n s e d t x = Inr p" "ApprovalPayload n' s' e' d' t' x' = Inr p"
    and "colon_free [n, s, e, d]" "colon_free [n', s', e', d']"
  shows "(n, s, e, d, t) = (n', s', e', d', t')
    \<and> (\<exists>c c'. CanonicalContext x = Inr c \<and> CanonicalContext x' = Inr c' \<and> (c = c' \<or> collision [c, c']))"
proof -
  obtain c where c: "CanonicalContext x = Inr c"
    and p: "p = approval_base n s e d t @ (if c = [] then [] else CHR '':'' # ''sha256:'' @ hex_encode (sha256 c))"
    using assms(1) by (auto simp: ApprovalPayload_def Let_def ContextDigest_Inr split: sum.splits if_splits)
  obtain c' where c': "CanonicalContext x' = Inr c'"
    and p': "p = approval_base n' s' e' d' t' @ (if c' = [] then [] else CHR '':'' # ''sha256:'' @ hex_encode (sha256 c'))"
    using assms(2) by (auto simp: ApprovalPayload_def Let_def ContextDigest_Inr split: sum.splits if_splits)
  let ?h = "\<lambda>c. if c = [] then [] else CHR '':'' # ''sha256:'' @ hex_encode (sha256 c)"
  have eq: "n = n'" "s = s'" "e = e'" "d = d'" "dec_int t @ ?h c = dec_int t' @ ?h c'"
    using assms(3,4) p [symmetric] p' unfolding approval_base_def colon_append
    by (simp_all add: colon_inject colon_free_def)
  have no: "CHR '':'' \<notin> set (dec_int i)" for i by (rule colon_notin_dec_int)
  have dd: False if "dec_int i = dec_int j @ CHR '':'' # r" for i j r
    using no [of i] that by simp
  have tl: "t = t' \<and> ?h c = ?h c'"
  proof (cases "c = []"; cases "c' = []")
    assume "c \<noteq> []" "c' \<noteq> []"
    with eq(5) append_delim_inj [OF no [of t] no [of t']] show ?thesis by simp
  qed (use eq(5) dd dd [OF sym] in auto)
  have "c = c' \<or> collision [c, c']"
    using tl by (auto simp: collision_def split: if_splits)
  with eq tl c c' show ?thesis by blast
qed

lemma ApprovalPayload_sort: "ApprovalPayload n s e d t (sort_key ce_label x) = ApprovalPayload n s e d t x"
  by (simp add: ApprovalPayload_def ContextDigest_def CanonicalContext_def sort_key_Nil_iff)

section \<open>Signing and verifying\<close>

lemma approval_Verify_None:
  "approval_Verify ed ma node session = (r, None) \<longleftrightarrow>
   (\<exists>a pub sig payload. ma = Some a \<and> r = Some (sort_context a) \<and> ap_operator a \<noteq> [] \<and> ap_envelope a \<noteq> []
      \<and> (ap_decision a = ApprovalApprove \<or> ap_decision a = ApprovalDeny)
      \<and> b64_decode (TrimSpace (ap_pubkey a)) = Some pub \<and> length pub = PublicKeySize
      \<and> b64_decode (TrimSpace (ap_sig a)) = Some sig \<and> length sig = SignatureSize
      \<and> ApprovalPayload node session (ap_envelope a) (ap_decision a) (ap_ts a) (ap_context a) = Inr payload
      \<and> ed_verify ed pub payload sig)"
  by (auto simp: approval_Verify_def Let_def sort_context_def ApprovalPayload_sort
      split: option.splits if_splits sum.splits)

lemma approval_Verify_sorted:
  "fst (approval_Verify ed ma node session) = r \<Longrightarrow> snd (approval_Verify ed ma node session) = None \<Longrightarrow>
   approval_Verify ed r node session = (r, None)"
proof -
  assume "fst (approval_Verify ed ma node session) = r" "snd (approval_Verify ed ma node session) = None"
  then have "approval_Verify ed ma node session = (r, None)" by (simp add: prod_eq_iff)
  then show ?thesis
    unfolding approval_Verify_None
    by (elim exE conjE) (simp add: sort_context_def ApprovalPayload_sort)
qed

definition signer :: "ed25519 \<Rightarrow> bytes \<Rightarrow> keypair" where
  "signer ed priv = \<lparr>kp_public = ed_public ed priv, kp_private = priv\<rparr>"

lemma SignApproval_verifies:
  assumes "SignApproval ed operator priv node session envelope decision ts shown = Inr a"
    and "ed_correct ed (signer ed priv)"
  shows "approval_Verify ed (Some a) node session = (Some a, None)"
proof -
  obtain payload where
    p: "ApprovalPayload node session envelope decision ts shown = Inr payload"
    and a: "a = \<lparr>ap_operator = operator, ap_pubkey = b64_encode (ed_public ed priv),
       ap_envelope = envelope, ap_decision = decision, ap_ts = ts,
       ap_context = sort_key ce_label shown, ap_sig = b64_encode (ed_sign ed priv payload)\<rparr>"
    and g: "operator \<noteq> []" "envelope \<noteq> []" "decision = ApprovalApprove \<or> decision = ApprovalDeny"
    using assms(1)
    by (auto simp: SignApproval_def Let_def ApprovalPayload_sort split: if_splits sum.splits)
  show ?thesis
    unfolding approval_Verify_None using p g assms(2)
    by (simp add: a sort_context_def ApprovalPayload_sort ed_correct_def signer_def)
qed

end
