(* ===== verification/Ledger_Entry.thy ===== *)
theory Ledger_Entry
  imports Approval
begin

text \<open>
  The sealed entry of \<^verbatim>\<open>kernel/internal/ledger/ledger.go\<close>, its JSON form and its hash. Marshalling
  follows the struct tags (\<^verbatim>\<open>omitempty\<close> included); unmarshalling follows the decoder: members in
  order, unknown names skipped, names matched up to case folding, \<^verbatim>\<open>null\<close> leaving a field as it
  is, a value of the wrong type or an integer out of range an error.
\<close>

record compensation =
  co_capability :: string
  co_port :: string
  co_schema :: string

record entry =
  en_seq :: nat
  en_prev :: string
  en_ts :: int
  en_node :: string
  en_session :: string
  en_envelope :: string
  en_cause :: string
  en_actor :: string
  en_capability :: string
  en_decision :: string
  en_outcome :: string
  en_policy :: string
  en_waived :: bool
  en_payload_sha256 :: string
  en_compensation :: "compensation option"
  en_compensates :: string
  en_inference :: "string list"
  en_approver :: "approval option"

section \<open>Marshalling\<close>

definition omit_empty :: "string \<Rightarrow> string \<Rightarrow> (string \<times> json) list" where
  "omit_empty k s = (if s = [] then [] else [(k, JStr s)])"

definition omit_nil :: "string \<Rightarrow> ('a \<Rightarrow> json) \<Rightarrow> 'a option \<Rightarrow> (string \<times> json) list" where
  "omit_nil k f p = (case p of None \<Rightarrow> [] | Some x \<Rightarrow> [(k, f x)])"

definition omit_none :: "string \<Rightarrow> ('a \<Rightarrow> json) \<Rightarrow> 'a list \<Rightarrow> (string \<times> json) list" where
  "omit_none k f xs = (if xs = [] then [] else [(k, JArr (map f xs))])"

definition compensation_json :: "compensation \<Rightarrow> json" where
  "compensation_json c =
     JObj ([(''capability'', JStr (co_capability c)), (''port'', JStr (co_port c))]
           @ omit_empty ''schema'' (co_schema c))"

definition context_json :: "context_entry \<Rightarrow> json" where
  "context_json e = JObj [(''label'', JStr (ce_label e)), (''digest'', JStr (ce_digest e))]"

definition approval_json :: "approval \<Rightarrow> json" where
  "approval_json a =
     JObj ([(''operator'', JStr (ap_operator a)), (''pubkey'', JStr (ap_pubkey a)),
            (''envelope'', JStr (ap_envelope a)), (''decision'', JStr (ap_decision a)),
            (''ts'', JNum (dec_int (ap_ts a)))]
           @ omit_none ''context'' context_json (ap_context a)
           @ [(''sig'', JStr (ap_sig a))])"

definition entry_json :: "entry \<Rightarrow> json" where
  "entry_json e =
     JObj ([(''seq'', JNum (dec_nat (en_seq e))), (''prev'', JStr (en_prev e)),
            (''ts'', JNum (dec_int (en_ts e))), (''node'', JStr (en_node e)),
            (''session'', JStr (en_session e)), (''envelope'', JStr (en_envelope e)),
            (''cause'', JStr (en_cause e)), (''actor'', JStr (en_actor e)),
            (''capability'', JStr (en_capability e)), (''decision'', JStr (en_decision e)),
            (''outcome'', JStr (en_outcome e)), (''policy'', JStr (en_policy e))]
           @ (if en_waived e then [(''waived'', JBool True)] else [])
           @ [(''payload_sha256'', JStr (en_payload_sha256 e))]
           @ omit_nil ''compensation'' compensation_json (en_compensation e)
           @ omit_empty ''compensates'' (en_compensates e)
           @ omit_none ''inference'' JStr (en_inference e)
           @ omit_nil ''approver'' approval_json (en_approver e))"

definition Marshal_Entry :: "entry \<Rightarrow> bytes" where
  "Marshal_Entry e = json_print (entry_json e)"

definition Entry_Hash :: "entry \<Rightarrow> string" where
  "Entry_Hash e = ''sha256:'' @ hex_encode (sha256 (Marshal_Entry e))"

section \<open>Unmarshalling\<close>

text \<open>
  \<^verbatim>\<open>foldName\<close>: ASCII letters to upper case, and the two runes outside ASCII that fold to one,
  the long s and the Kelvin sign.
\<close>

fun fold_name :: "string \<Rightarrow> string" where
  "fold_name (a # b # c # s) =
     (if a = CHR 0xE2 \<and> b = CHR 0x84 \<and> c = CHR 0xAA then CHR ''K'' # fold_name s
      else if a = CHR 0xC5 \<and> b = CHR 0xBF then CHR ''S'' # fold_name (c # s)
      else (if lower a then char_of (cn a - 32) else a) # fold_name (b # c # s))"
| "fold_name (a # b # s) =
     (if a = CHR 0xC5 \<and> b = CHR 0xBF then CHR ''S'' # fold_name s
      else (if lower a then char_of (cn a - 32) else a) # fold_name (b # s))"
| "fold_name (a # s) = (if lower a then char_of (cn a - 32) else a) # fold_name s"
| "fold_name [] = []"

definition field_of :: "(string \<times> 'f) list \<Rightarrow> string \<Rightarrow> 'f option" where
  "field_of table k = al_get (map (\<lambda>(n, f). (fold_name n, f)) table) (fold_name k)"

definition to_string :: "json \<Rightarrow> string \<Rightarrow> string option" where
  "to_string v old = (case v of JStr s \<Rightarrow> Some s | JNull \<Rightarrow> Some old | _ \<Rightarrow> None)"

definition to_bool :: "json \<Rightarrow> bool \<Rightarrow> bool option" where
  "to_bool v old = (case v of JBool b \<Rightarrow> Some b | JNull \<Rightarrow> Some old | _ \<Rightarrow> None)"

definition parse_uint64 :: "string \<Rightarrow> nat option" where
  "parse_uint64 t =
     (if t \<noteq> [] \<and> list_all digit t \<and> int (dec_value t) < 2 ^ 64 then Some (dec_value t) else None)"

definition parse_int64 :: "string \<Rightarrow> int option" where
  "parse_int64 t =
     (let neg = take 1 t = ''-''; ds = (if neg then drop 1 t else t); n = int (dec_value ds) in
      if ds \<noteq> [] \<and> list_all digit ds \<and> (if neg then n \<le> 2 ^ 63 else n < 2 ^ 63)
      then Some (if neg then - n else n) else None)"

definition to_uint64 :: "json \<Rightarrow> nat \<Rightarrow> nat option" where
  "to_uint64 v old = (case v of JNum t \<Rightarrow> parse_uint64 t | JNull \<Rightarrow> Some old | _ \<Rightarrow> None)"

definition to_int64 :: "json \<Rightarrow> int \<Rightarrow> int option" where
  "to_int64 v old = (case v of JNum t \<Rightarrow> parse_int64 t | JNull \<Rightarrow> Some old | _ \<Rightarrow> None)"

fun map_all :: "('a \<Rightarrow> 'b option) \<Rightarrow> 'a list \<Rightarrow> 'b list option" where
  "map_all f [] = Some []"
| "map_all f (x # xs) =
     (case f x of None \<Rightarrow> None | Some y \<Rightarrow> map_option ((#) y) (map_all f xs))"

definition to_slice :: "(json \<Rightarrow> 'a option) \<Rightarrow> json \<Rightarrow> 'a list option" where
  "to_slice f v = (case v of JArr vs \<Rightarrow> map_all f vs | JNull \<Rightarrow> Some [] | _ \<Rightarrow> None)"

text \<open>A struct: the members in order, each setting its field; \<^verbatim>\<open>null\<close> sets nothing.\<close>

fun set_fields :: "('r \<Rightarrow> string \<times> json \<Rightarrow> 'r option) \<Rightarrow> 'r \<Rightarrow> (string \<times> json) list \<Rightarrow> 'r option" where
  "set_fields f r [] = Some r"
| "set_fields f r (m # ms) = (case f r m of None \<Rightarrow> None | Some r \<Rightarrow> set_fields f r ms)"

definition to_struct :: "('r \<Rightarrow> string \<times> json \<Rightarrow> 'r option) \<Rightarrow> 'r \<Rightarrow> json \<Rightarrow> 'r option" where
  "to_struct f r v = (case v of JObj ms \<Rightarrow> set_fields f r ms | JNull \<Rightarrow> Some r | _ \<Rightarrow> None)"

definition to_pointer ::
  "('r \<Rightarrow> string \<times> json \<Rightarrow> 'r option) \<Rightarrow> 'r \<Rightarrow> json \<Rightarrow> 'r option \<Rightarrow> 'r option option" where
  "to_pointer f zero v old =
     (case v of
        JNull \<Rightarrow> Some None
      | _ \<Rightarrow> map_option Some (to_struct f (case old of None \<Rightarrow> zero | Some r \<Rightarrow> r) v))"

datatype compensation_field = FCapability | FPort | FSchema

definition compensation_table :: "(string \<times> compensation_field) list" where
  "compensation_table = [(''capability'', FCapability), (''port'', FPort), (''schema'', FSchema)]"

definition set_compensation :: "compensation \<Rightarrow> string \<times> json \<Rightarrow> compensation option" where
  "set_compensation c m =
     (case field_of compensation_table (fst m) of
        None \<Rightarrow> Some c
      | Some FCapability \<Rightarrow> map_option (\<lambda>s. c\<lparr>co_capability := s\<rparr>) (to_string (snd m) (co_capability c))
      | Some FPort \<Rightarrow> map_option (\<lambda>s. c\<lparr>co_port := s\<rparr>) (to_string (snd m) (co_port c))
      | Some FSchema \<Rightarrow> map_option (\<lambda>s. c\<lparr>co_schema := s\<rparr>) (to_string (snd m) (co_schema c)))"

definition zero_compensation :: compensation where
  "zero_compensation = \<lparr>co_capability = [], co_port = [], co_schema = []\<rparr>"

datatype context_field = FLabel | FDigest

definition context_table :: "(string \<times> context_field) list" where
  "context_table = [(''label'', FLabel), (''digest'', FDigest)]"

definition set_context :: "context_entry \<Rightarrow> string \<times> json \<Rightarrow> context_entry option" where
  "set_context c m =
     (case field_of context_table (fst m) of
        None \<Rightarrow> Some c
      | Some FLabel \<Rightarrow> map_option (\<lambda>s. c\<lparr>ce_label := s\<rparr>) (to_string (snd m) (ce_label c))
      | Some FDigest \<Rightarrow> map_option (\<lambda>s. c\<lparr>ce_digest := s\<rparr>) (to_string (snd m) (ce_digest c)))"

definition zero_context :: context_entry where
  "zero_context = \<lparr>ce_label = [], ce_digest = []\<rparr>"

datatype approval_field = FOperator | FPubkey | FEnvelopeA | FDecisionA | FTsA | FContext | FSig

definition approval_table :: "(string \<times> approval_field) list" where
  "approval_table = [(''operator'', FOperator), (''pubkey'', FPubkey), (''envelope'', FEnvelopeA),
     (''decision'', FDecisionA), (''ts'', FTsA), (''context'', FContext), (''sig'', FSig)]"

definition set_approval :: "approval \<Rightarrow> string \<times> json \<Rightarrow> approval option" where
  "set_approval a m =
     (case field_of approval_table (fst m) of
        None \<Rightarrow> Some a
      | Some FOperator \<Rightarrow> map_option (\<lambda>s. a\<lparr>ap_operator := s\<rparr>) (to_string (snd m) (ap_operator a))
      | Some FPubkey \<Rightarrow> map_option (\<lambda>s. a\<lparr>ap_pubkey := s\<rparr>) (to_string (snd m) (ap_pubkey a))
      | Some FEnvelopeA \<Rightarrow> map_option (\<lambda>s. a\<lparr>ap_envelope := s\<rparr>) (to_string (snd m) (ap_envelope a))
      | Some FDecisionA \<Rightarrow> map_option (\<lambda>s. a\<lparr>ap_decision := s\<rparr>) (to_string (snd m) (ap_decision a))
      | Some FTsA \<Rightarrow> map_option (\<lambda>i. a\<lparr>ap_ts := i\<rparr>) (to_int64 (snd m) (ap_ts a))
      | Some FContext \<Rightarrow> map_option (\<lambda>cs. a\<lparr>ap_context := cs\<rparr>)
          (to_slice (to_struct set_context zero_context) (snd m))
      | Some FSig \<Rightarrow> map_option (\<lambda>s. a\<lparr>ap_sig := s\<rparr>) (to_string (snd m) (ap_sig a)))"

definition zero_approval :: approval where
  "zero_approval = \<lparr>ap_operator = [], ap_pubkey = [], ap_envelope = [], ap_decision = [], ap_ts = 0,
     ap_context = [], ap_sig = []\<rparr>"

datatype entry_field =
    FSeq | FPrev | FTs | FNode | FSession | FEnvelope | FCause | FActor | FCapabilityE | FDecision
  | FOutcome | FPolicy | FWaived | FPayload | FCompensation | FCompensates | FInference | FApprover

definition entry_table :: "(string \<times> entry_field) list" where
  "entry_table = [(''seq'', FSeq), (''prev'', FPrev), (''ts'', FTs), (''node'', FNode),
     (''session'', FSession), (''envelope'', FEnvelope), (''cause'', FCause), (''actor'', FActor),
     (''capability'', FCapabilityE), (''decision'', FDecision), (''outcome'', FOutcome),
     (''policy'', FPolicy), (''waived'', FWaived), (''payload_sha256'', FPayload),
     (''compensation'', FCompensation), (''compensates'', FCompensates), (''inference'', FInference),
     (''approver'', FApprover)]"

definition set_entry :: "entry \<Rightarrow> string \<times> json \<Rightarrow> entry option" where
  "set_entry e m =
     (case field_of entry_table (fst m) of
        None \<Rightarrow> Some e
      | Some FSeq \<Rightarrow> map_option (\<lambda>n. e\<lparr>en_seq := n\<rparr>) (to_uint64 (snd m) (en_seq e))
      | Some FPrev \<Rightarrow> map_option (\<lambda>s. e\<lparr>en_prev := s\<rparr>) (to_string (snd m) (en_prev e))
      | Some FTs \<Rightarrow> map_option (\<lambda>i. e\<lparr>en_ts := i\<rparr>) (to_int64 (snd m) (en_ts e))
      | Some FNode \<Rightarrow> map_option (\<lambda>s. e\<lparr>en_node := s\<rparr>) (to_string (snd m) (en_node e))
      | Some FSession \<Rightarrow> map_option (\<lambda>s. e\<lparr>en_session := s\<rparr>) (to_string (snd m) (en_session e))
      | Some FEnvelope \<Rightarrow> map_option (\<lambda>s. e\<lparr>en_envelope := s\<rparr>) (to_string (snd m) (en_envelope e))
      | Some FCause \<Rightarrow> map_option (\<lambda>s. e\<lparr>en_cause := s\<rparr>) (to_string (snd m) (en_cause e))
      | Some FActor \<Rightarrow> map_option (\<lambda>s. e\<lparr>en_actor := s\<rparr>) (to_string (snd m) (en_actor e))
      | Some FCapabilityE \<Rightarrow> map_option (\<lambda>s. e\<lparr>en_capability := s\<rparr>) (to_string (snd m) (en_capability e))
      | Some FDecision \<Rightarrow> map_option (\<lambda>s. e\<lparr>en_decision := s\<rparr>) (to_string (snd m) (en_decision e))
      | Some FOutcome \<Rightarrow> map_option (\<lambda>s. e\<lparr>en_outcome := s\<rparr>) (to_string (snd m) (en_outcome e))
      | Some FPolicy \<Rightarrow> map_option (\<lambda>s. e\<lparr>en_policy := s\<rparr>) (to_string (snd m) (en_policy e))
      | Some FWaived \<Rightarrow> map_option (\<lambda>b. e\<lparr>en_waived := b\<rparr>) (to_bool (snd m) (en_waived e))
      | Some FPayload \<Rightarrow> map_option (\<lambda>s. e\<lparr>en_payload_sha256 := s\<rparr>) (to_string (snd m) (en_payload_sha256 e))
      | Some FCompensation \<Rightarrow> map_option (\<lambda>p. e\<lparr>en_compensation := p\<rparr>)
          (to_pointer set_compensation zero_compensation (snd m) (en_compensation e))
      | Some FCompensates \<Rightarrow> map_option (\<lambda>s. e\<lparr>en_compensates := s\<rparr>) (to_string (snd m) (en_compensates e))
      | Some FInference \<Rightarrow> map_option (\<lambda>ss. e\<lparr>en_inference := ss\<rparr>)
          (to_slice (\<lambda>v. to_string v []) (snd m))
      | Some FApprover \<Rightarrow> map_option (\<lambda>p. e\<lparr>en_approver := p\<rparr>)
          (to_pointer set_approval zero_approval (snd m) (en_approver e)))"

definition zero_entry :: entry where
  "zero_entry = \<lparr>en_seq = 0, en_prev = [], en_ts = 0, en_node = [], en_session = [], en_envelope = [],
     en_cause = [], en_actor = [], en_capability = [], en_decision = [], en_outcome = [],
     en_policy = [], en_waived = False, en_payload_sha256 = [], en_compensation = None,
     en_compensates = [], en_inference = [], en_approver = None\<rparr>"

definition Unmarshal_Entry :: "bytes \<Rightarrow> entry option" where
  "Unmarshal_Entry raw =
     (case json_parse raw of None \<Rightarrow> None | Some v \<Rightarrow> to_struct set_entry zero_entry v)"

section \<open>Reading an entry back\<close>

definition int64_ok :: "int \<Rightarrow> bool" where
  "int64_ok i \<longleftrightarrow> - (2 ^ 63) \<le> i \<and> i < 2 ^ 63"

definition compensation_ok :: "compensation \<Rightarrow> bool" where
  "compensation_ok c \<longleftrightarrow> ascii (co_capability c) \<and> ascii (co_port c) \<and> ascii (co_schema c)"

definition context_ok :: "context_entry \<Rightarrow> bool" where
  "context_ok c \<longleftrightarrow> ascii (ce_label c) \<and> ascii (ce_digest c)"

definition approval_ok :: "approval \<Rightarrow> bool" where
  "approval_ok a \<longleftrightarrow> list_all ascii [ap_operator a, ap_pubkey a, ap_envelope a, ap_decision a, ap_sig a]
     \<and> int64_ok (ap_ts a) \<and> list_all context_ok (ap_context a)"

definition entry_ok :: "entry \<Rightarrow> bool" where
  "entry_ok e \<longleftrightarrow> int (en_seq e) < 2 ^ 64 \<and> int64_ok (en_ts e)
     \<and> list_all ascii [en_prev e, en_node e, en_session e, en_envelope e, en_cause e, en_actor e,
         en_capability e, en_decision e, en_outcome e, en_policy e, en_payload_sha256 e, en_compensates e]
     \<and> list_all ascii (en_inference e)
     \<and> pred_option compensation_ok (en_compensation e) \<and> pred_option approval_ok (en_approver e)"

lemma compensation_fields:
  "field_of compensation_table ''capability'' = Some FCapability"
  "field_of compensation_table ''port'' = Some FPort"
  "field_of compensation_table ''schema'' = Some FSchema"
  by code_simp+

lemma context_fields:
  "field_of context_table ''label'' = Some FLabel" "field_of context_table ''digest'' = Some FDigest"
  by code_simp+

lemma approval_fields:
  "field_of approval_table ''operator'' = Some FOperator" "field_of approval_table ''pubkey'' = Some FPubkey"
  "field_of approval_table ''envelope'' = Some FEnvelopeA" "field_of approval_table ''decision'' = Some FDecisionA"
  "field_of approval_table ''ts'' = Some FTsA" "field_of approval_table ''context'' = Some FContext"
  "field_of approval_table ''sig'' = Some FSig"
  by code_simp+

lemma entry_names:
  "map fold_name (map fst entry_table) = [''SEQ'', ''PREV'', ''TS'', ''NODE'', ''SESSION'', ''ENVELOPE'', ''CAUSE'', ''ACTOR'', ''CAPABILITY'', ''DECISION'', ''OUTCOME'', ''POLICY'', ''WAIVED'', ''PAYLOAD_SHA256'', ''COMPENSATION'', ''COMPENSATES'', ''INFERENCE'', ''APPROVER'']"
  by code_simp

lemma entry_table_folded:
  "map (\<lambda>(n, f). (fold_name n, f)) entry_table = zip (map fold_name (map fst entry_table)) (map snd entry_table)"
  by (simp add: zip_map_map zip_same_conv_map entry_table_def)

lemma fold_names:
  "fold_name ''seq'' = ''SEQ''"
  "fold_name ''prev'' = ''PREV''"
  "fold_name ''ts'' = ''TS''"
  "fold_name ''node'' = ''NODE''"
  "fold_name ''session'' = ''SESSION''"
  "fold_name ''envelope'' = ''ENVELOPE''"
  "fold_name ''cause'' = ''CAUSE''"
  "fold_name ''actor'' = ''ACTOR''"
  "fold_name ''capability'' = ''CAPABILITY''"
  "fold_name ''decision'' = ''DECISION''"
  "fold_name ''outcome'' = ''OUTCOME''"
  "fold_name ''policy'' = ''POLICY''"
  "fold_name ''waived'' = ''WAIVED''"
  "fold_name ''payload_sha256'' = ''PAYLOAD_SHA256''"
  "fold_name ''compensation'' = ''COMPENSATION''"
  "fold_name ''compensates'' = ''COMPENSATES''"
  "fold_name ''inference'' = ''INFERENCE''"
  "fold_name ''approver'' = ''APPROVER''"
  using entry_names by (simp_all only: entry_table_def list.map fst_conv list.inject)

lemma entry_fields:
  "field_of entry_table ''seq'' = Some FSeq"
  "field_of entry_table ''prev'' = Some FPrev"
  "field_of entry_table ''ts'' = Some FTs"
  "field_of entry_table ''node'' = Some FNode"
  "field_of entry_table ''session'' = Some FSession"
  "field_of entry_table ''envelope'' = Some FEnvelope"
  "field_of entry_table ''cause'' = Some FCause"
  "field_of entry_table ''actor'' = Some FActor"
  "field_of entry_table ''capability'' = Some FCapabilityE"
  "field_of entry_table ''decision'' = Some FDecision"
  "field_of entry_table ''outcome'' = Some FOutcome"
  "field_of entry_table ''policy'' = Some FPolicy"
  "field_of entry_table ''waived'' = Some FWaived"
  "field_of entry_table ''payload_sha256'' = Some FPayload"
  "field_of entry_table ''compensation'' = Some FCompensation"
  "field_of entry_table ''compensates'' = Some FCompensates"
  "field_of entry_table ''inference'' = Some FInference"
  "field_of entry_table ''approver'' = Some FApprover"
  unfolding field_of_def entry_table_folded entry_names fold_names
  by (simp_all add: entry_table_def)

lemma parse_uint64_dec [simp]: "int n < 2 ^ 64 \<Longrightarrow> parse_uint64 (dec_nat n) = Some n"
  using digits_dec_nat [of n] by (simp add: parse_uint64_def list_all_iff dec_value_dec_nat)

lemma parse_int64_dec [simp]: "int64_ok i \<Longrightarrow> parse_int64 (dec_int i) = Some i"
proof -
  assume i: "int64_ok i"
  have no: "take 1 (dec_nat n) \<noteq> ''-''" for n
    using minus_notin_dec_nat [of n] by (cases "dec_nat n") auto
  have d: "list_all digit (dec_nat n)" for n using digits_dec_nat [of n] by (simp add: list_all_iff)
  show ?thesis
    using i no [of "nat i"] d
    by (cases "i < 0") (simp_all add: parse_int64_def dec_int_def Let_def dec_value_dec_nat int64_ok_def)
qed

lemma set_fields_append:
  "set_fields f r (xs @ ys) = (case set_fields f r xs of None \<Rightarrow> None | Some r \<Rightarrow> set_fields f r ys)"
  by (induction xs arbitrary: r) (auto split: option.splits)

lemma map_all_map: "list_all (\<lambda>x. f (g x) = Some x) xs \<Longrightarrow> map_all f (map g xs) = Some xs"
  by (induction xs) auto

lemma read_compensation: "to_struct set_compensation zero_compensation (compensation_json c) = Some c"
  by (simp add: to_struct_def compensation_json_def set_compensation_def compensation_fields to_string_def
      omit_empty_def set_fields_append zero_compensation_def)

lemma read_context: "to_struct set_context zero_context (context_json c) = Some c"
  by (simp add: to_struct_def context_json_def set_context_def context_fields to_string_def zero_context_def)

lemma contexts: "map_all (to_struct set_context zero_context) (map context_json cs) = Some cs"
  by (rule map_all_map) (simp add: list_all_iff read_context)

lemma read_approval: "approval_ok a \<Longrightarrow> to_struct set_approval zero_approval (approval_json a) = Some a"
  by (simp add: to_struct_def approval_json_def set_approval_def approval_fields to_string_def to_int64_def
      omit_none_def set_fields_append zero_approval_def approval_ok_def to_slice_def contexts)

lemma pointer_Obj:
  "to_struct f zero (JObj ms) = Some r \<Longrightarrow> to_pointer f zero (JObj ms) None = Some (Some r)"
  by (simp add: to_pointer_def)

lemma read_entry: "entry_ok e \<Longrightarrow> to_struct set_entry zero_entry (entry_json e) = Some e"
proof -
  assume ok: "entry_ok e"
  have c: "to_pointer set_compensation zero_compensation (compensation_json c) None = Some (Some c)" for c
    using read_compensation [of c] unfolding compensation_json_def by (rule pointer_Obj)
  have a: "to_pointer set_approval zero_approval (approval_json a) None = Some (Some a)" if "approval_ok a" for a
    using read_approval [OF that] unfolding approval_json_def by (rule pointer_Obj)
  have i: "to_slice (\<lambda>v. to_string v []) (JArr (map JStr xs)) = Some xs" for xs
    by (simp add: to_slice_def map_all_map to_string_def list_all_iff)
  note set = set_entry_def entry_fields to_string_def to_int64_def to_uint64_def to_bool_def
  have s1: "set_fields set_entry zero_entry
     [(''seq'', JNum (dec_nat (en_seq e))), (''prev'', JStr (en_prev e)),
            (''ts'', JNum (dec_int (en_ts e))), (''node'', JStr (en_node e)),
            (''session'', JStr (en_session e)), (''envelope'', JStr (en_envelope e)),
            (''cause'', JStr (en_cause e)), (''actor'', JStr (en_actor e)),
            (''capability'', JStr (en_capability e)), (''decision'', JStr (en_decision e)),
            (''outcome'', JStr (en_outcome e)), (''policy'', JStr (en_policy e))]
     = Some (e\<lparr>en_waived := False, en_payload_sha256 := [], en_compensation := None,
     en_compensates := [], en_inference := [], en_approver := None\<rparr>)" (is "_ = Some ?e1")
    using ok by (simp add: set entry_ok_def zero_entry_def)
  have w: "set_fields set_entry r (if b then [(''waived'', JBool True)] else []) = Some (r\<lparr>en_waived := b\<rparr>)"
    if "\<not> en_waived r" for b r using that by (simp add: set)
  have p: "set_fields set_entry r [(''payload_sha256'', JStr s)] = Some (r\<lparr>en_payload_sha256 := s\<rparr>)" for s r
    by (simp add: set)
  have co: "set_fields set_entry r (omit_nil ''compensation'' compensation_json m) = Some (r\<lparr>en_compensation := m\<rparr>)"
    if "en_compensation r = None" for m r using that by (cases m) (simp_all add: set c omit_nil_def)
  have cs: "set_fields set_entry r (omit_empty ''compensates'' s) = Some (r\<lparr>en_compensates := s\<rparr>)"
    if "en_compensates r = []" for s r using that by (simp add: set omit_empty_def)
  have inf: "set_fields set_entry r (omit_none ''inference'' JStr xs) = Some (r\<lparr>en_inference := xs\<rparr>)"
    if "en_inference r = []" for xs r using that by (simp add: set_entry_def entry_fields omit_none_def i)
  have ap: "set_fields set_entry r (omit_nil ''approver'' approval_json m) = Some (r\<lparr>en_approver := m\<rparr>)"
    if "en_approver r = None" "pred_option approval_ok m" for m r
    using that by (cases m) (simp_all add: set a omit_nil_def)
  have okap: "pred_option approval_ok (en_approver e)" using ok by (simp add: entry_ok_def)
  show ?thesis
    unfolding to_struct_def entry_json_def json.case set_fields_append
    by (simp add: s1 w p co cs inf ap okap del: set_fields.simps)
qed

lemma json_ok_entry: "entry_ok e \<Longrightarrow> json_ok (entry_json e)"
proof -
  assume ok: "entry_ok e"
  have n: "\<exists>i. dec_nat n = dec_int i" for n
    by (rule exI [of _ "int n"]) (simp add: dec_int_def)
  have "compensation_ok c \<Longrightarrow> json_ok (compensation_json c)" for c
    by (auto simp: compensation_json_def omit_empty_def compensation_ok_def in_range_def)
  moreover have "context_ok c \<Longrightarrow> json_ok (context_json c)" for c
    by (auto simp: context_json_def context_ok_def in_range_def)
  then have "approval_ok a \<Longrightarrow> json_ok (approval_json a)" for a
    by (auto simp: approval_json_def approval_ok_def omit_none_def list_all_iff in_range_def)
  ultimately show ?thesis
    using ok n
    by (auto simp: entry_json_def entry_ok_def omit_nil_def omit_empty_def omit_none_def list_all_iff
        in_range_def pred_option_def split: option.split)
qed

theorem Entry_roundtrip: "entry_ok e \<Longrightarrow> Unmarshal_Entry (Marshal_Entry e) = Some e"
  by (simp add: Unmarshal_Entry_def Marshal_Entry_def json_roundtrip json_ok_entry read_entry)

lemma Marshal_inject: "entry_ok e \<Longrightarrow> entry_ok e' \<Longrightarrow> Marshal_Entry e = Marshal_Entry e' \<Longrightarrow> e = e'"
  by (metis Entry_roundtrip option.inject)

end
