(* ===== verification/Store_Ledger.thy ===== *)
theory Store_Ledger
  imports GoStd
begin

text \<open>
  The evidence tables of \<^verbatim>\<open>kernel/internal/store/store.go\<close>: ledger entries, checkpoints,
  successions, countersignatures, witnessed heads, the witness log, secrets. A table is the list of
  its rows; \<^verbatim>\<open>INSERT\<close> refuses a row that would break a PRIMARY KEY or UNIQUE constraint,
  \<^verbatim>\<open>INSERT OR REPLACE\<close> removes the rows it would clash with, \<^verbatim>\<open>ORDER BY seq\<close> sorts. The
  argument \<open>fault\<close> is true when the database itself fails the call.
\<close>

record entry_row =
  er_seq :: nat
  er_hash :: string
  er_session :: string
  er_entry :: bytes
  er_ts :: int

record checkpoint_row =
  cp_seq :: nat
  cp_head_hash :: string
  cp_pubkey :: string
  cp_signature :: string
  cp_ts :: int
  cp_merkle_root :: string

record succession_row =
  su_seq :: nat
  su_from_pubkey :: string
  su_to_pubkey :: string
  su_from_sig :: string
  su_to_sig :: string
  su_reason :: string
  su_ts :: int

record witness_row =
  wr_seq :: nat
  wr_witness_key :: string
  wr_merkle_root :: string
  wr_signature :: string
  wr_url :: string
  wr_ts :: int

record witnessed_head =
  wh_node :: string
  wh_seq :: nat
  wh_merkle_root :: string
  wh_pubkey :: string
  wh_ts :: int

record witness_log_row =
  wl_seq :: nat
  wl_node :: string
  wl_node_seq :: nat
  wl_merkle_root :: string
  wl_node_pubkey :: string
  wl_signature :: string
  wl_ts :: int
  wl_entry :: bytes

record seen_head =
  sh_witness_key :: string
  sh_url :: string
  sh_size :: nat
  sh_root :: string
  sh_ts :: int

record secret_row =
  se_name :: string
  se_ciphertext :: string
  se_updated :: int

record ledger_db =
  db_entries :: "entry_row list"
  db_checkpoints :: "checkpoint_row list"
  db_successions :: "succession_row list"
  db_witnesses :: "witness_row list"
  db_heads :: "witnessed_head list"
  db_log :: "witness_log_row list"
  db_seen :: "seen_head list"
  db_secrets :: "secret_row list"
  db_attestations :: "(string \<times> bytes \<times> int) list"

definition empty_db :: ledger_db where
  "empty_db = \<lparr>db_entries = [], db_checkpoints = [], db_successions = [], db_witnesses = [],
     db_heads = [], db_log = [], db_seen = [], db_secrets = [], db_attestations = []\<rparr>"

datatype db_error = DbFault | DbConstraint | NotFound

section \<open>Ledger entries\<close>

definition AppendLedgerEntry ::
  "bool \<Rightarrow> nat \<Rightarrow> string \<Rightarrow> string \<Rightarrow> bytes \<Rightarrow> int \<Rightarrow> ledger_db \<Rightarrow> db_error + ledger_db" where
  "AppendLedgerEntry fault sq h session raw ts db =
     (if fault then Inl DbFault
      else if list_ex (\<lambda>r. er_seq r = sq \<or> er_hash r = h) (db_entries db) then Inl DbConstraint
      else Inr (db\<lparr>db_entries := db_entries db @
        [\<lparr>er_seq = sq, er_hash = h, er_session = session, er_entry = raw, er_ts = ts\<rparr>]\<rparr>))"

definition by_seq :: "entry_row list \<Rightarrow> entry_row list" where
  "by_seq rs = sort_key er_seq rs"

definition LedgerHead :: "bool \<Rightarrow> ledger_db \<Rightarrow> db_error + (nat \<times> string)" where
  "LedgerHead fault db =
     (if fault then Inl DbFault
      else (case rev (by_seq (db_entries db)) of
              [] \<Rightarrow> Inr (0, [])
            | r # _ \<Rightarrow> Inr (er_seq r, er_hash r)))"

definition LedgerEntryCount :: "bool \<Rightarrow> ledger_db \<Rightarrow> db_error + nat" where
  "LedgerEntryCount fault db = (if fault then Inl DbFault else Inr (length (db_entries db)))"

definition LedgerEntriesBySession :: "bool \<Rightarrow> string \<Rightarrow> ledger_db \<Rightarrow> db_error + bytes list" where
  "LedgerEntriesBySession fault session db =
     (if fault then Inl DbFault
      else Inr (map er_entry (filter (\<lambda>r. er_session r = session) (by_seq (db_entries db)))))"

definition LedgerEntryByHash :: "bool \<Rightarrow> string \<Rightarrow> ledger_db \<Rightarrow> db_error + bytes" where
  "LedgerEntryByHash fault h db =
     (if fault then Inl DbFault
      else (case find (\<lambda>r. er_hash r = h) (db_entries db) of
              None \<Rightarrow> Inl NotFound | Some r \<Rightarrow> Inr (er_entry r)))"

definition LedgerEntries :: "bool \<Rightarrow> nat \<Rightarrow> nat \<Rightarrow> ledger_db \<Rightarrow> db_error + bytes list" where
  "LedgerEntries fault fromSeq limit db =
     (if fault then Inl DbFault
      else (let rs = map er_entry (filter (\<lambda>r. fromSeq \<le> er_seq r) (by_seq (db_entries db)))
            in Inr (if 0 < limit then take limit rs else rs)))"

section \<open>Checkpoints\<close>

definition SaveCheckpoint :: "bool \<Rightarrow> checkpoint_row \<Rightarrow> ledger_db \<Rightarrow> db_error + ledger_db" where
  "SaveCheckpoint fault cp db =
     (if fault then Inl DbFault
      else if list_ex (\<lambda>c. cp_seq c = cp_seq cp) (db_checkpoints db) then Inl DbConstraint
      else Inr (db\<lparr>db_checkpoints := db_checkpoints db @ [cp]\<rparr>))"

definition LedgerCheckpoints :: "bool \<Rightarrow> ledger_db \<Rightarrow> db_error + checkpoint_row list" where
  "LedgerCheckpoints fault db =
     (if fault then Inl DbFault else Inr (sort_key cp_seq (db_checkpoints db)))"

definition LastCheckpoint :: "bool \<Rightarrow> ledger_db \<Rightarrow> db_error + checkpoint_row option" where
  "LastCheckpoint fault db =
     (if fault then Inl DbFault
      else (case rev (sort_key cp_seq (db_checkpoints db)) of [] \<Rightarrow> Inr None | c # _ \<Rightarrow> Inr (Some c)))"

section \<open>Attestations\<close>

definition SaveAttestation :: "bool \<Rightarrow> string \<Rightarrow> bytes \<Rightarrow> int \<Rightarrow> ledger_db \<Rightarrow> db_error + ledger_db" where
  "SaveAttestation fault h raw ts db =
     (if fault then Inl DbFault
      else if list_ex (\<lambda>a. fst a = h) (db_attestations db) then Inr db
      else Inr (db\<lparr>db_attestations := db_attestations db @ [(h, raw, ts)]\<rparr>))"

definition Attestation :: "bool \<Rightarrow> string \<Rightarrow> ledger_db \<Rightarrow> db_error + bytes" where
  "Attestation fault h db =
     (if fault then Inl DbFault
      else (case al_get (db_attestations db) h of None \<Rightarrow> Inl NotFound | Some (raw, _) \<Rightarrow> Inr raw))"

section \<open>Witnesses\<close>

definition SaveWitness :: "bool \<Rightarrow> witness_row \<Rightarrow> ledger_db \<Rightarrow> db_error + ledger_db" where
  "SaveWitness fault w db =
     (if fault then Inl DbFault
      else Inr (db\<lparr>db_witnesses :=
        filter (\<lambda>r. \<not> (wr_seq r = wr_seq w \<and> wr_witness_key r = wr_witness_key w)) (db_witnesses db) @ [w]\<rparr>))"

definition LedgerWitnesses :: "bool \<Rightarrow> ledger_db \<Rightarrow> db_error + witness_row list" where
  "LedgerWitnesses fault db =
     (if fault then Inl DbFault
      else Inr (sort_key wr_seq (sort_key wr_witness_key (db_witnesses db))))"

definition SaveWitnessedHead :: "bool \<Rightarrow> witnessed_head \<Rightarrow> ledger_db \<Rightarrow> db_error + ledger_db" where
  "SaveWitnessedHead fault h db =
     (if fault then Inl DbFault
      else Inr (db\<lparr>db_heads := filter (\<lambda>r. wh_node r \<noteq> wh_node h) (db_heads db) @ [h]\<rparr>))"

definition WitnessedHeadCount :: "bool \<Rightarrow> ledger_db \<Rightarrow> db_error + nat" where
  "WitnessedHeadCount fault db = (if fault then Inl DbFault else Inr (length (db_heads db)))"

definition PruneWitnessedHeads :: "bool \<Rightarrow> int \<Rightarrow> ledger_db \<Rightarrow> db_error + (ledger_db \<times> nat)" where
  "PruneWitnessedHeads fault cutoff db =
     (if fault then Inl DbFault
      else Inr (db\<lparr>db_heads := filter (\<lambda>r. \<not> wh_ts r < cutoff) (db_heads db)\<rparr>,
                length (filter (\<lambda>r. wh_ts r < cutoff) (db_heads db))))"

definition LastWitnessedHead :: "bool \<Rightarrow> string \<Rightarrow> ledger_db \<Rightarrow> db_error + witnessed_head option" where
  "LastWitnessedHead fault node db =
     (if fault then Inl DbFault else Inr (find (\<lambda>r. wh_node r = node) (db_heads db)))"

definition AppendWitnessLog :: "bool \<Rightarrow> witness_log_row \<Rightarrow> ledger_db \<Rightarrow> db_error + ledger_db" where
  "AppendWitnessLog fault r db =
     (if fault then Inl DbFault
      else if list_ex (\<lambda>l. wl_seq l = wl_seq r) (db_log db) then Inl DbConstraint
      else Inr (db\<lparr>db_log := db_log db @ [r]\<rparr>))"

definition WitnessLogEntries :: "bool \<Rightarrow> nat \<Rightarrow> nat \<Rightarrow> ledger_db \<Rightarrow> db_error + witness_log_row list" where
  "WitnessLogEntries fault fromSeq limit db =
     (if fault then Inl DbFault
      else (let rs = filter (\<lambda>r. fromSeq \<le> wl_seq r) (sort_key wl_seq (db_log db))
            in Inr (if 0 < limit then take limit rs else rs)))"

definition WitnessLogSize :: "bool \<Rightarrow> ledger_db \<Rightarrow> db_error + nat" where
  "WitnessLogSize fault db =
     (if fault then Inl DbFault else Inr (fold max (map wl_seq (db_log db)) 0))"

definition SaveSeenWitnessHead :: "bool \<Rightarrow> seen_head \<Rightarrow> ledger_db \<Rightarrow> db_error + ledger_db" where
  "SaveSeenWitnessHead fault h db =
     (if fault then Inl DbFault
      else Inr (db\<lparr>db_seen := filter (\<lambda>r. sh_witness_key r \<noteq> sh_witness_key h) (db_seen db) @ [h]\<rparr>))"

definition SeenWitnessHeadFor :: "bool \<Rightarrow> string \<Rightarrow> ledger_db \<Rightarrow> db_error + seen_head option" where
  "SeenWitnessHeadFor fault key db =
     (if fault then Inl DbFault else Inr (find (\<lambda>r. sh_witness_key r = key) (db_seen db)))"

section \<open>Successions and secrets\<close>

definition LedgerSuccessions :: "bool \<Rightarrow> ledger_db \<Rightarrow> db_error + succession_row list" where
  "LedgerSuccessions fault db =
     (if fault then Inl DbFault else Inr (sort_key su_seq (db_successions db)))"

definition SaveSecret :: "bool \<Rightarrow> string \<Rightarrow> string \<Rightarrow> int \<Rightarrow> ledger_db \<Rightarrow> db_error + ledger_db" where
  "SaveSecret fault n c ts db =
     (if fault then Inl DbFault
      else Inr (db\<lparr>db_secrets := filter (\<lambda>r. se_name r \<noteq> n) (db_secrets db)
                  @ [\<lparr>se_name = n, se_ciphertext = c, se_updated = ts\<rparr>]\<rparr>))"

definition Secret :: "bool \<Rightarrow> string \<Rightarrow> ledger_db \<Rightarrow> db_error + string option" where
  "Secret fault n db =
     (if fault then Inl DbFault
      else Inr (map_option se_ciphertext (find (\<lambda>r. se_name r = n) (db_secrets db))))"

text \<open>
  \<^verbatim>\<open>CommitSuccession\<close>: one transaction. \<open>io k\<close> is the failure of the \<open>k\<close>-th statement; any
  error rolls the whole of it back, which is the old database.
\<close>

datatype succession_error = CsDatabase db_error | CsReseal string

fun reseal_all ::
  "(nat \<Rightarrow> bool) \<Rightarrow> (string \<Rightarrow> string \<Rightarrow> string option) \<Rightarrow> int \<Rightarrow> nat \<Rightarrow> secret_row list \<Rightarrow> secret_row list
   \<Rightarrow> succession_error + secret_row list" where
  "reseal_all io reseal ts k [] table = Inr table"
| "reseal_all io reseal ts k (s # ss) table =
     (case reseal (se_name s) (se_ciphertext s) of
        None \<Rightarrow> Inl (CsReseal (se_name s))
      | Some c \<Rightarrow>
          if io k then Inl (CsDatabase DbFault)
          else reseal_all io reseal ts (Suc k) ss
                 (map (\<lambda>r. if se_name r = se_name s then r\<lparr>se_ciphertext := c, se_updated := ts\<rparr> else r)
                    table))"

definition CommitSuccession ::
  "(nat \<Rightarrow> bool) \<Rightarrow> succession_row \<Rightarrow> (string \<Rightarrow> string \<Rightarrow> string option) \<Rightarrow> ledger_db
   \<Rightarrow> ledger_db \<times> (succession_error + nat)" where
  "CommitSuccession io rec reseal db =
     (if io 0 \<or> io 1 then (db, Inl (CsDatabase DbFault))
      else if list_ex (\<lambda>r. su_seq r = su_seq rec \<or> su_from_pubkey r = su_from_pubkey rec
                          \<or> su_to_pubkey r = su_to_pubkey rec) (db_successions db)
      then (db, Inl (CsDatabase DbConstraint))
      else if io 2 then (db, Inl (CsDatabase DbFault))
      else (case reseal_all io reseal (su_ts rec) 4 (sort_key se_name (db_secrets db)) (db_secrets db) of
              Inl e \<Rightarrow> (db, Inl e)
            | Inr table \<Rightarrow>
                if io 3 then (db, Inl (CsDatabase DbFault))
                else (db\<lparr>db_successions := db_successions db @ [rec], db_secrets := table\<rparr>,
                      Inr (length (db_secrets db)))))"

section \<open>Facts about the tables\<close>

lemma find_filter_append [simp]:
  "\<not> P x \<Longrightarrow> find P (filter Q xs @ [x]) = find P (filter Q xs)"
  by (induction xs) auto

lemma find_filter_other: "(\<And>x. P x \<Longrightarrow> Q x) \<Longrightarrow> find P (filter Q xs) = find P xs"
  by (induction xs) auto

lemma find_replaced: "(\<And>x. x \<in> set xs \<Longrightarrow> Q x \<Longrightarrow> \<not> P x) \<Longrightarrow> P y \<Longrightarrow> find P (filter Q xs @ [y]) = Some y"
  by (induction xs) auto

lemma LastWitnessedHead_Save:
  "SaveWitnessedHead f h db = Inr db' \<Longrightarrow>
   LastWitnessedHead False node db' =
     (if node = wh_node h then Inr (Some h) else LastWitnessedHead False node db)"
  by (auto simp: SaveWitnessedHead_def LastWitnessedHead_def find_replaced find_filter_other
      split: if_splits)

text \<open>A succession is stored with every secret under the new key, or nothing changes.\<close>

lemma reseal_all_names:
  "reseal_all io reseal ts k ss table = Inr table' \<Longrightarrow> map se_name table' = map se_name table"
proof (induction ss arbitrary: k table)
  case (Cons s ss)
  have "map se_name (map (\<lambda>r. if se_name r = se_name s then r\<lparr>se_ciphertext := c, se_updated := ts\<rparr> else r) table)
      = map se_name table" for c by (induction table) auto
  with Cons show ?case by (auto split: option.splits if_splits)
qed simp

lemma reseal_all_contents:
  "reseal_all io reseal ts k ss table = Inr table' \<Longrightarrow> distinct (map se_name ss) \<Longrightarrow>
   (\<forall>r \<in> set table'. (\<exists>s \<in> set ss. se_name s = se_name r
        \<and> reseal (se_name s) (se_ciphertext s) = Some (se_ciphertext r))
      \<or> (r \<in> set table \<and> se_name r \<notin> se_name ` set ss))"
proof (induction ss arbitrary: k table)
  case (Cons s ss)
  from Cons.prems obtain c where c: "reseal (se_name s) (se_ciphertext s) = Some c"
    and rest: "reseal_all io reseal ts (Suc k) ss
      (map (\<lambda>r. if se_name r = se_name s then r\<lparr>se_ciphertext := c, se_updated := ts\<rparr> else r) table)
      = Inr table'"
    by (auto split: option.splits if_splits)
  show ?case
  proof
    fix r assume "r \<in> set table'"
    with Cons.IH [OF rest] Cons.prems(2) consider
      "\<exists>s' \<in> set ss. se_name s' = se_name r \<and> reseal (se_name s') (se_ciphertext s') = Some (se_ciphertext r)"
      | "r \<in> set (map (\<lambda>r. if se_name r = se_name s then r\<lparr>se_ciphertext := c, se_updated := ts\<rparr> else r) table)"
        "se_name r \<notin> se_name ` set ss" by auto
    then show "(\<exists>s' \<in> set (s # ss). se_name s' = se_name r
        \<and> reseal (se_name s') (se_ciphertext s') = Some (se_ciphertext r))
      \<or> (r \<in> set table \<and> se_name r \<notin> se_name ` set (s # ss))"
    proof cases
      case 2
      then show ?thesis using c by (auto split: if_splits)
    qed auto
  qed
qed simp

end
