(* ===== verification/Ledger.thy ===== *)
theory Ledger
  imports Merkle_Compact Ledger_Entry Store_Ledger
begin

text \<open>
  \<^verbatim>\<open>kernel/internal/ledger/ledger.go\<close>: the effect ledger of a node. Its state is the in-memory
  \<^verbatim>\<open>Ledger\<close> (head, checkpoint cadence, compact tree) beside the database; the mutex makes each
  operation one step. The environment of an operation is explicit: \<open>now k\<close> is what the clock
  says (in nanoseconds) the \<open>k\<close>-th time the operation reads it, \<open>io k\<close> whether its \<open>k\<close>-th
  database call fails. An operation returns \<open>None\<close> where the Go code would panic.
\<close>

definition checkpointEveryN :: int where "checkpointEveryN = 100"
definition checkpointEveryT :: int where "checkpointEveryT = 60 * 1000000000"

definition unix_milli :: "int \<Rightarrow> int" where
  "unix_milli t = t div 1000000"

record seal_request =
  sr_session :: string
  sr_envelope :: string
  sr_cause :: string
  sr_actor :: string
  sr_capability :: string
  sr_decision :: string
  sr_outcome :: string
  sr_policy :: string
  sr_payload :: bytes
  sr_compensation :: "compensation option"
  sr_waived :: bool
  sr_compensates :: string
  sr_inference :: "string list"
  sr_approver :: "approval option"

record ledger =
  lg_node :: string
  lg_keys :: keypair
  lg_pub :: string
  lg_last_seq :: nat
  lg_last_hash :: string
  lg_since :: int
  lg_last_cp_at :: int
  lg_tree :: compact_tree

type_synonym ledger_state = "ledger \<times> ledger_db"

section \<open>The vocabulary of an entry\<close>

definition PolicyDecisions :: "string list" where
  "PolicyDecisions = [''allow'', ''gate'', ''deny'']"

definition EffectOutcomes :: "string list" where
  "EffectOutcomes = [''delivered'', ''denied'']"

definition oneOf :: "string \<Rightarrow> string list \<Rightarrow> bool" where
  "oneOf v xs = list_ex (\<lambda>s. v = s) xs"

datatype request_error = NoCapability | NoActor | NoPolicy | UnknownDecision | UnknownOutcome

definition validateVocabulary :: "seal_request \<Rightarrow> request_error option" where
  "validateVocabulary r =
     (if sr_capability r = [] then Some NoCapability
      else if sr_actor r = [] then Some NoActor
      else if sr_policy r = [] then Some NoPolicy
      else if \<not> oneOf (sr_decision r) PolicyDecisions then Some UnknownDecision
      else if \<not> oneOf (sr_outcome r) EffectOutcomes then Some UnknownOutcome
      else None)"

text \<open>The loop of \<^verbatim>\<open>normalizeInference\<close>: \<open>seen\<close> is its map, \<open>out\<close> the slice it grows.\<close>

fun inference_loop :: "string list \<Rightarrow> string list \<Rightarrow> string list \<Rightarrow> string list" where
  "inference_loop seen out [] = out"
| "inference_loop seen out (h # hs) =
     (if h = [] \<or> h \<in> set seen then inference_loop seen out hs
      else inference_loop (h # seen) (out @ [h]) hs)"

definition normalizeInference :: "string list \<Rightarrow> string list" where
  "normalizeInference hashes = sort (inference_loop [] [] hashes)"

lemma inference_loop_set: "set (inference_loop seen out hs) = set out \<union> (set hs - set seen - {[]})"
  by (induction seen out hs rule: inference_loop.induct) auto

lemma inference_loop_distinct:
  "distinct out \<Longrightarrow> set out \<subseteq> set seen \<Longrightarrow> distinct (inference_loop seen out hs)"
  by (induction seen out hs rule: inference_loop.induct) auto

section \<open>Checkpoints\<close>

definition checkpointPayload :: "nat \<Rightarrow> string \<Rightarrow> string \<Rightarrow> bytes" where
  "checkpointPayload sq headHash merkleRoot =
     (if merkleRoot = [] then ''aura-ledger-checkpoint-v1:'' @ dec_nat sq @ CHR '':'' # headHash
      else ''aura-ledger-checkpoint-v2:'' @ dec_nat sq @ CHR '':'' # headHash @ CHR '':'' # merkleRoot)"

definition sealCheckpointLocked ::
  "ed25519 \<Rightarrow> bool \<Rightarrow> int \<Rightarrow> int \<Rightarrow> ledger_state \<Rightarrow> ledger_state \<times> db_error option" where
  "sealCheckpointLocked ed fault t1 t2 s =
     (let l = fst s; root = hash_String (ct_Root (lg_tree l));
          sig = keypair_Sign ed (lg_keys l) (checkpointPayload (lg_last_seq l) (lg_last_hash l) root);
          cp = \<lparr>cp_seq = lg_last_seq l, cp_head_hash = lg_last_hash l, cp_pubkey = lg_pub l,
                cp_signature = sig, cp_ts = unix_milli t1, cp_merkle_root = root\<rparr>
      in case SaveCheckpoint fault cp (snd s) of
           Inl e \<Rightarrow> (s, Some e)
         | Inr db \<Rightarrow> ((l\<lparr>lg_since := 0, lg_last_cp_at := t2\<rparr>, db), None))"

datatype checkpoint_error = NothingToCheckpoint | CheckpointNotSaved db_error

definition Checkpoint ::
  "ed25519 \<Rightarrow> (nat \<Rightarrow> bool) \<Rightarrow> (nat \<Rightarrow> int) \<Rightarrow> ledger_state \<Rightarrow> ledger_state \<times> checkpoint_error option" where
  "Checkpoint ed io now s =
     (if lg_last_seq (fst s) = 0 then (s, Some NothingToCheckpoint)
      else if (case LedgerCheckpoints (io 0) (snd s) of
                 Inl e \<Rightarrow> False
               | Inr cps \<Rightarrow> list_ex (\<lambda>c. cp_seq c = lg_last_seq (fst s)) cps)
      then (s, None)
      else (case sealCheckpointLocked ed (io 1) (now 0) (now 1) s of
              (s, e) \<Rightarrow> (s, map_option CheckpointNotSaved e)))"

section \<open>Sealing\<close>

datatype seal_error =
    BadRequest request_error
  | UnverifiableApproval approval_error
  | NotStored db_error
  | CheckpointFailed string db_error

definition make_entry :: "ledger \<Rightarrow> int \<Rightarrow> seal_request \<Rightarrow> entry" where
  "make_entry l t r =
     \<lparr>en_seq = lg_last_seq l + 1, en_prev = lg_last_hash l, en_ts = unix_milli t, en_node = lg_node l,
      en_session = sr_session r, en_envelope = sr_envelope r, en_cause = sr_cause r,
      en_actor = sr_actor r, en_capability = sr_capability r, en_decision = sr_decision r,
      en_outcome = sr_outcome r, en_policy = sr_policy r, en_waived = sr_waived r,
      en_payload_sha256 = hex_encode (sha256 (sr_payload r)), en_compensation = sr_compensation r,
      en_compensates = sr_compensates r, en_inference = normalizeInference (sr_inference r),
      en_approver = sr_approver r\<rparr>"

definition check_approver ::
  "ed25519 \<Rightarrow> string \<Rightarrow> seal_request \<Rightarrow> seal_request \<times> approval_error option" where
  "check_approver ed node r =
     (case sr_approver r of
        None \<Rightarrow> (r, None)
      | Some a \<Rightarrow> (case approval_Verify ed (Some a) node (sr_session r) of
                     (a, e) \<Rightarrow> (r\<lparr>sr_approver := a\<rparr>, e)))"

definition Seal ::
  "ed25519 \<Rightarrow> (nat \<Rightarrow> bool) \<Rightarrow> (nat \<Rightarrow> int) \<Rightarrow> seal_request \<Rightarrow> ledger_state
   \<Rightarrow> (ledger_state \<times> (seal_error + string)) option" where
  "Seal ed io now req s =
     (let l = fst s in
      case validateVocabulary req of
        Some e \<Rightarrow> Some (s, Inl (BadRequest e))
      | None \<Rightarrow>
          (case check_approver ed (lg_node l) req of
             (req, Some e) \<Rightarrow> Some (s, Inl (UnverifiableApproval e))
           | (req, None) \<Rightarrow>
               (let entry = make_entry l (now 0) req; h = Entry_Hash entry; raw = Marshal_Entry entry in
                case AppendLedgerEntry (io 0) (en_seq entry) h (sr_session req) raw
                       (unix_milli (now 1)) (snd s) of
                  Inl e \<Rightarrow> Some (s, Inl (NotStored e))
                | Inr db \<Rightarrow>
                    (case ct_Append (lg_tree l) (LeafHash raw) of
                       None \<Rightarrow> None
                     | Some tree \<Rightarrow>
                         (let l = l\<lparr>lg_last_seq := en_seq entry, lg_last_hash := h, lg_tree := tree,
                                    lg_since := lg_since l + 1\<rparr> in
                          if checkpointEveryN \<le> lg_since l \<or> checkpointEveryT \<le> now 2 - lg_last_cp_at l
                          then (case sealCheckpointLocked ed (io 1) (now 3) (now 4) (l, db) of
                                  (s, Some e) \<Rightarrow> Some (s, Inl (CheckpointFailed h e))
                                | (s, None) \<Rightarrow> Some (s, Inr h))
                          else Some ((l, db), Inr h))))))"

section \<open>Opening a ledger\<close>

datatype open_error = NoKeys | HeadUnreadable db_error | EntriesUnreadable db_error
  | Inconsistent | CheckpointUnreadable db_error

definition Open ::
  "(nat \<Rightarrow> bool) \<Rightarrow> (nat \<Rightarrow> int) \<Rightarrow> ledger_db \<Rightarrow> string \<Rightarrow> keypair option \<Rightarrow> (open_error + ledger) option" where
  "Open io now db nodeID mkeys =
     (case mkeys of
        None \<Rightarrow> Some (Inl NoKeys)
      | Some keys \<Rightarrow>
          (case LedgerHead (io 0) db of
             Inl e \<Rightarrow> Some (Inl (HeadUnreadable e))
           | Inr (sq, h) \<Rightarrow>
               (case LedgerEntries (io 1) 1 0 db of
                  Inl e \<Rightarrow> Some (Inl (EntriesUnreadable e))
                | Inr entries \<Rightarrow>
                    (case ct_append_all ct_empty (map LeafHash entries) of
                       None \<Rightarrow> None
                     | Some tree \<Rightarrow>
                         if length entries \<noteq> sq then Some (Inl Inconsistent)
                         else (let l = \<lparr>lg_node = nodeID, lg_keys = keys, lg_pub = PublicB64 keys,
                                        lg_last_seq = sq, lg_last_hash = h, lg_since = 0,
                                        lg_last_cp_at = now 0, lg_tree = tree\<rparr> in
                               case LastCheckpoint (io 2) db of
                                 Inl e \<Rightarrow> Some (Inl (CheckpointUnreadable e))
                               | Inr (Some c) \<Rightarrow>
                                   Some (Inr (l\<lparr>lg_since := int sq - int (cp_seq c),
                                                lg_last_cp_at := cp_ts c * 1000000\<rparr>))
                               | Inr None \<Rightarrow>
                                   Some (Inr (if sq > 0 then l\<lparr>lg_since := checkpointEveryN\<rparr> else l)))))))"

record head =
  hd_seq :: nat
  hd_head_hash :: string
  hd_merkle_root :: string
  hd_node :: string
  hd_pubkey :: string

definition Head :: "ledger \<Rightarrow> head" where
  "Head l = \<lparr>hd_seq = lg_last_seq l, hd_head_hash = lg_last_hash l,
     hd_merkle_root = hash_String (ct_Root (lg_tree l)), hd_node = lg_node l, hd_pubkey = lg_pub l\<rparr>"

record summary =
  sm_entries :: nat
  sm_last_hash :: string
  sm_checkpoints :: nat
  sm_node_pubkey :: string

definition Summarize :: "(nat \<Rightarrow> bool) \<Rightarrow> ledger_state \<Rightarrow> db_error + summary" where
  "Summarize io s =
     (case LedgerEntryCount (io 0) (snd s) of
        Inl e \<Rightarrow> Inl e
      | Inr n \<Rightarrow>
          (case LedgerCheckpoints (io 1) (snd s) of
             Inl e \<Rightarrow> Inl e
           | Inr cps \<Rightarrow> Inr \<lparr>sm_entries = n, sm_last_hash = lg_last_hash (fst s),
                            sm_checkpoints = length cps, sm_node_pubkey = lg_pub (fst s)\<rparr>))"

end
