(* ===== verification/Ledger_Inv.thy ===== *)
theory Ledger_Inv
  imports Ledger
begin

text \<open>
  The ledger as an append-only log of entries. \<open>ledger_inv ed s es\<close> says that the state \<open>s\<close>
  holds exactly the entries \<open>es\<close>: stored rows, chain, compact tree and checkpoints agree with
  the list. Every operation keeps it for the same list, except a seal, which adds one entry.
\<close>

section \<open>The chain\<close>

fun chained :: "nat \<Rightarrow> string \<Rightarrow> entry list \<Rightarrow> bool" where
  "chained n p [] \<longleftrightarrow> True"
| "chained n p (e # es) \<longleftrightarrow> en_seq e = Suc n \<and> en_prev e = p \<and> chained (Suc n) (Entry_Hash e) es"

definition chain_head :: "string \<Rightarrow> entry list \<Rightarrow> string" where
  "chain_head p es = (if es = [] then p else Entry_Hash (last es))"

lemma chain_head_simps [simp]:
  "chain_head p [] = p" "chain_head p (es @ [e]) = Entry_Hash e"
  "chain_head p (e # es) = chain_head (Entry_Hash e) es"
  by (simp_all add: chain_head_def)

lemma chained_append:
  "chained n p (xs @ ys) \<longleftrightarrow> chained n p xs \<and> chained (n + length xs) (chain_head p xs) ys"
  by (induction xs arbitrary: n p) auto

lemma chained_nth: "chained n p es \<Longrightarrow> i < length es \<Longrightarrow> en_seq (es ! i) = Suc (n + i)"
  by (induction es arbitrary: n p i) (auto simp: nth_Cons split: nat.splits)

section \<open>The invariant\<close>

definition stored :: "entry \<Rightarrow> entry_row \<Rightarrow> bool" where
  "stored e r \<longleftrightarrow> er_seq r = en_seq e \<and> er_hash r = Entry_Hash e \<and> er_entry r = Marshal_Entry e
     \<and> er_session r = en_session e"

definition leaves :: "entry list \<Rightarrow> hash list" where
  "leaves es = map (\<lambda>e. LeafHash (Marshal_Entry e)) es"

lemma leaves_simps [simp]: "leaves [] = []" "leaves (xs @ ys) = leaves xs @ leaves ys"
  "length (leaves xs) = length xs" "leaves (take k xs) = take k (leaves xs)"
  by (simp_all add: leaves_def take_map)

definition checkpoint_ok :: "ed25519 \<Rightarrow> entry list \<Rightarrow> checkpoint_row \<Rightarrow> bool" where
  "checkpoint_ok ed es c \<longleftrightarrow>
     0 < cp_seq c \<and> cp_seq c \<le> length es
     \<and> cp_head_hash c = Entry_Hash (es ! (cp_seq c - 1))
     \<and> cp_merkle_root c = hash_String (MerkleRoot (leaves (take (cp_seq c) es)))
     \<and> signing_Verify ed (cp_pubkey c) (cp_signature c)
          (checkpointPayload (cp_seq c) (cp_head_hash c) (cp_merkle_root c)) = None"

definition authorized :: "ed25519 \<Rightarrow> entry \<Rightarrow> bool" where
  "authorized ed e \<longleftrightarrow> (case en_approver e of None \<Rightarrow> True
     | Some a \<Rightarrow> approval_Verify ed (Some a) (en_node e) (en_session e) = (Some a, None))"

definition well_worded :: "entry \<Rightarrow> bool" where
  "well_worded e \<longleftrightarrow> en_capability e \<noteq> [] \<and> en_actor e \<noteq> [] \<and> en_policy e \<noteq> []
     \<and> en_decision e \<in> set PolicyDecisions \<and> en_outcome e \<in> set EffectOutcomes"

definition db_inv :: "ed25519 \<Rightarrow> string \<Rightarrow> ledger_db \<Rightarrow> entry list \<Rightarrow> bool" where
  "db_inv ed node db es \<longleftrightarrow>
     list_all2 stored es (db_entries db) \<and> chained 0 [] es \<and> distinct (map Entry_Hash es)
     \<and> list_all (\<lambda>e. authorized ed e \<and> well_worded e \<and> en_node e = node) es
     \<and> list_all (checkpoint_ok ed es) (db_checkpoints db)
     \<and> distinct (map cp_seq (db_checkpoints db))"

definition ledger_inv :: "ed25519 \<Rightarrow> ledger_state \<Rightarrow> entry list \<Rightarrow> bool" where
  "ledger_inv ed s es \<longleftrightarrow>
     ed_correct ed (lg_keys (fst s)) \<and> lg_pub (fst s) = PublicB64 (lg_keys (fst s))
     \<and> lg_last_seq (fst s) = length es \<and> lg_last_hash (fst s) = chain_head [] es
     \<and> ct_repr (lg_tree (fst s)) (leaves es)
     \<and> db_inv ed (lg_node (fst s)) (snd s) es"

section \<open>Small facts\<close>

lemma hash_String_nonempty [simp]: "hash_String h \<noteq> []"
  by (simp add: hash_String_def)

lemma db_inv_seqs:
  "list_all2 stored es rows \<Longrightarrow> chained n p es \<Longrightarrow> map er_seq rows = [Suc n..<Suc n + length es]"
proof (induction es rows arbitrary: n p rule: list_all2_induct)
  case (Cons e es r rows)
  then have "map er_seq rows = [Suc (Suc n)..<Suc (Suc n) + length es]"
    using Cons.IH [of "Suc n" "Entry_Hash e"] by simp
  with Cons.hyps Cons.prems show ?case by (simp add: stored_def upt_conv_Cons del: upt_Suc)
qed simp

lemma db_inv_by_seq: "db_inv ed node db es \<Longrightarrow> by_seq (db_entries db) = db_entries db"
  using db_inv_seqs [of es "db_entries db" 0 "[]"]
  by (simp add: db_inv_def by_seq_def sort_key_id_if_sorted del: upt_Suc)

lemma db_inv_raws: "db_inv ed node db es \<Longrightarrow> map er_entry (db_entries db) = map Marshal_Entry es"
proof -
  assume "db_inv ed node db es"
  then have "list_all2 stored es (db_entries db)" by (simp add: db_inv_def)
  then show ?thesis by (induction rule: list_all2_induct) (simp_all add: stored_def)
qed

lemma db_inv_length: "db_inv ed node db es \<Longrightarrow> length (db_entries db) = length es"
  by (auto simp: db_inv_def dest: list_all2_lengthD)

lemma db_inv_entries: "db_inv ed node db es \<Longrightarrow> LedgerEntries False 1 0 db = Inr (map Marshal_Entry es)"
proof -
  assume i: "db_inv ed node db es"
  have "\<forall>r \<in> set (db_entries db). 1 \<le> er_seq r"
  proof
    fix r assume "r \<in> set (db_entries db)"
    then have "er_seq r \<in> set (map er_seq (db_entries db))" by simp
    then show "1 \<le> er_seq r"
      using db_inv_seqs [of es "db_entries db" 0 "[]"] i by (simp add: db_inv_def del: upt_Suc set_map)
  qed
  then have "filter (\<lambda>r. 1 \<le> er_seq r) (db_entries db) = db_entries db" by simp
  with i show ?thesis by (simp add: LedgerEntries_def db_inv_by_seq db_inv_raws)
qed

lemma list_all2_append_one: "list_all2 P xs ys \<Longrightarrow> P x y \<Longrightarrow> list_all2 P (xs @ [x]) (ys @ [y])"
  by (simp add: list_all2_appendI)

lemma stored_hashes: "list_all2 stored es rows \<Longrightarrow> map er_hash rows = map Entry_Hash es"
  by (induction rule: list_all2_induct) (simp_all add: stored_def)

lemma checkpoint_ok_mono: "checkpoint_ok ed es c \<Longrightarrow> checkpoint_ok ed (es @ xs) c"
  by (auto simp: checkpoint_ok_def nth_append)

section \<open>Checkpoints keep the log\<close>

lemma sealCheckpoint_inv:
  assumes "ledger_inv ed s es" "es \<noteq> []"
  shows "ledger_inv ed (fst (sealCheckpointLocked ed fault t1 t2 s)) es"
proof -
  obtain l db where s: "s = (l, db)" by (cases s)
  let ?root = "hash_String (ct_Root (lg_tree l))"
  define cp where "cp = \<lparr>cp_seq = lg_last_seq l, cp_head_hash = lg_last_hash l, cp_pubkey = lg_pub l,
      cp_signature = keypair_Sign ed (lg_keys l) (checkpointPayload (lg_last_seq l) (lg_last_hash l) ?root),
      cp_ts = unix_milli t1, cp_merkle_root = ?root\<rparr>"
  have "ct_Root (lg_tree l) = MerkleRoot (leaves es)"
    using assms(1) s by (intro ct.head_repr) (simp add: ledger_inv_def)
  moreover have "es ! (length es - 1) = last es" using assms(2) by (simp add: last_conv_nth)
  ultimately have cp: "checkpoint_ok ed es cp"
    using assms s by (auto simp: checkpoint_ok_def cp_def ledger_inv_def chain_head_def)
  have sv: "sealCheckpointLocked ed fault t1 t2 s =
    (case SaveCheckpoint fault cp db of Inl e \<Rightarrow> (s, Some e)
     | Inr db \<Rightarrow> ((l\<lparr>lg_since := 0, lg_last_cp_at := t2\<rparr>, db), None))"
    unfolding s sealCheckpointLocked_def cp_def Let_def fst_conv snd_conv by (rule refl)
  show ?thesis
  proof (cases "SaveCheckpoint fault cp db")
    case (Inl e)
    with sv assms(1) show ?thesis by simp
  next
    case (Inr db')
    then have "db' = db\<lparr>db_checkpoints := db_checkpoints db @ [cp]\<rparr>" "cp_seq cp \<notin> cp_seq ` set (db_checkpoints db)"
      by (auto simp: SaveCheckpoint_def list_ex_iff split: if_splits)
    with sv Inr assms(1) s cp show ?thesis by (auto simp: ledger_inv_def db_inv_def)
  qed
qed

lemma Checkpoint_inv:
  assumes "ledger_inv ed s es"
  shows "ledger_inv ed (fst (Checkpoint ed io now s)) es"
proof (cases "lg_last_seq (fst s) = 0")
  case False
  then have "es \<noteq> []" using assms by (auto simp: ledger_inv_def)
  with sealCheckpoint_inv [OF assms] assms show ?thesis
    by (auto simp: Checkpoint_def split: prod.split sum.split) (metis fst_conv)+
qed (use assms in \<open>simp add: Checkpoint_def\<close>)

section \<open>Sealing adds one entry\<close>

text \<open>The entry a seal adds is the one the request describes.\<close>

definition from_request :: "seal_request \<Rightarrow> entry \<Rightarrow> bool" where
  "from_request r e \<longleftrightarrow> en_session e = sr_session r \<and> en_envelope e = sr_envelope r
     \<and> en_cause e = sr_cause r \<and> en_actor e = sr_actor r \<and> en_capability e = sr_capability r
     \<and> en_decision e = sr_decision r \<and> en_outcome e = sr_outcome r \<and> en_policy e = sr_policy r
     \<and> en_waived e = sr_waived r \<and> en_payload_sha256 e = hex_encode (sha256 (sr_payload r))
     \<and> en_compensation e = sr_compensation r \<and> en_compensates e = sr_compensates r
     \<and> en_inference e = normalizeInference (sr_inference r)
     \<and> en_approver e = map_option sort_context (sr_approver r)"

lemma check_approver_ok:
  assumes "check_approver ed (lg_node l) r = (r', None)"
  shows "authorized ed (make_entry l t r')"
    and "r' = r\<lparr>sr_approver := map_option sort_context (sr_approver r)\<rparr>"
proof -
  show "r' = r\<lparr>sr_approver := map_option sort_context (sr_approver r)\<rparr>"
  proof (cases "sr_approver r")
    case None
    with assms show ?thesis by (simp add: check_approver_def)
  next
    case (Some a)
    with assms obtain b where "approval_Verify ed (Some a) (lg_node l) (sr_session r) = (b, None)"
      "r' = r\<lparr>sr_approver := b\<rparr>" by (auto simp: check_approver_def split: prod.splits)
    then show ?thesis unfolding approval_Verify_None using Some by auto
  qed
  show "authorized ed (make_entry l t r')"
  proof (cases "sr_approver r")
    case None
    with assms show ?thesis by (auto simp: check_approver_def authorized_def make_entry_def)
  next
    case (Some a)
    with assms obtain b where b: "approval_Verify ed (Some a) (lg_node l) (sr_session r) = (b, None)"
      "r' = r\<lparr>sr_approver := b\<rparr>" by (auto simp: check_approver_def split: prod.splits)
    then have "approval_Verify ed b (lg_node l) (sr_session r) = (b, None)"
      by (intro approval_Verify_sorted [of ed "Some a"]) simp_all
    moreover obtain c where "b = Some c" using b(1) unfolding approval_Verify_None by auto
    ultimately show ?thesis using b(2) by (auto simp: authorized_def make_entry_def)
  qed
qed

lemma validate_ok: "validateVocabulary r = None \<Longrightarrow> well_worded (make_entry l t (r\<lparr>sr_approver := a\<rparr>))"
  by (auto simp: validateVocabulary_def well_worded_def make_entry_def oneOf_def list_ex_iff split: if_splits)

lemma append_inv:
  assumes i: "ledger_inv ed (l, db) es"
    and e: "e = make_entry l t r" "authorized ed e" "well_worded e"
    and a: "AppendLedgerEntry fault (en_seq e) (Entry_Hash e) (sr_session r) (Marshal_Entry e) ts db = Inr db'"
    and tr: "ct_Append (lg_tree l) (LeafHash (Marshal_Entry e)) = Some tree"
  shows "ledger_inv ed (l\<lparr>lg_last_seq := en_seq e, lg_last_hash := Entry_Hash e, lg_tree := tree,
      lg_since := lg_since l + 1\<rparr>, db') (es @ [e])"
proof -
  have e_simps: "en_seq e = Suc (length es)" "en_prev e = chain_head [] es" "en_node e = lg_node l"
    "en_session e = sr_session r"
    using i e(1) by (simp_all add: ledger_inv_def make_entry_def)
  have db': "db' = db\<lparr>db_entries := db_entries db @ [\<lparr>er_seq = en_seq e, er_hash = Entry_Hash e,
      er_session = sr_session r, er_entry = Marshal_Entry e, er_ts = ts\<rparr>]\<rparr>"
    and fresh: "Entry_Hash e \<notin> er_hash ` set (db_entries db)"
    using a by (auto simp: AppendLedgerEntry_def list_ex_iff split: if_splits)
  have "Entry_Hash e \<notin> set (map Entry_Hash es)"
  proof -
    have "map er_hash (db_entries db) = map Entry_Hash es"
      using i by (intro stored_hashes) (simp add: ledger_inv_def db_inv_def)
    then have "er_hash ` set (db_entries db) = set (map Entry_Hash es)" by (metis list.set_map)
    with fresh show ?thesis by simp
  qed
  moreover have "ct_repr tree (leaves (es @ [e]))"
    using ct.app_repr [OF _ tr, of "leaves es"] i by (simp add: ledger_inv_def leaves_def)
  moreover have "list_all2 stored (es @ [e]) (db_entries db')"
    unfolding db' using i e_simps
    by (simp add: ledger_inv_def db_inv_def list_all2_append_one stored_def)
  moreover have "list_all (checkpoint_ok ed (es @ [e])) (db_checkpoints db)"
    using i by (auto simp: ledger_inv_def db_inv_def list_all_iff intro: checkpoint_ok_mono)
  ultimately show ?thesis
    using i e e_simps by (simp add: ledger_inv_def db_inv_def chained_append db')
qed

lemma Seal_step:
  assumes i: "ledger_inv ed s es" and r: "Seal ed io now req s = res"
  shows "\<exists>s' out. res = Some (s', out) \<and>
    ((s' = s \<and> (\<exists>err. out = Inl err \<and> (\<forall>h e. err \<noteq> CheckpointFailed h e))) \<or>
     (\<exists>e. ledger_inv ed s' (es @ [e]) \<and> from_request req e \<and> en_ts e = unix_milli (now 0)
        \<and> lg_node (fst s') = lg_node (fst s) \<and> lg_keys (fst s') = lg_keys (fst s)
        \<and> (out = Inr (Entry_Hash e) \<or> (\<exists>d. out = Inl (CheckpointFailed (Entry_Hash e) d)))))"
proof -
  obtain l db where s: "s = (l, db)" by (cases s)
  show ?thesis
  proof (cases "validateVocabulary req")
    case (Some e)
    with r s show ?thesis by (auto simp: Seal_def Let_def)
  next
    case v: None
    obtain req' ae where ca: "check_approver ed (lg_node l) req = (req', ae)" by fastforce
    show ?thesis
    proof (cases ae)
      case (Some e)
      with r s v ca show ?thesis by (auto simp: Seal_def Let_def)
    next
      case None
      note req' = check_approver_ok [OF ca [unfolded None]]
      define e where "e = make_entry l (now 0) req'"
      have e: "authorized ed e" "well_worded e" "from_request req e" "en_ts e = unix_milli (now 0)"
        using req'(1) validate_ok [OF v] unfolding e_def
        by (simp_all only: req'(2)) (simp_all add: from_request_def make_entry_def)
      show ?thesis
      proof (cases "AppendLedgerEntry (io 0) (en_seq e) (Entry_Hash e) (sr_session req') (Marshal_Entry e)
          (unix_milli (now 1)) db")
        case (Inl err)
        with r s v ca None show ?thesis by (auto simp: Seal_def Let_def e_def)
      next
        case (Inr db')
        obtain tree where tr: "ct_Append (lg_tree l) (LeafHash (Marshal_Entry e)) = Some tree"
          using ct.app_total [of "lg_tree l" "leaves es"] i s by (auto simp: ledger_inv_def)
        define l' where "l' = l\<lparr>lg_last_seq := en_seq e, lg_last_hash := Entry_Hash e, lg_tree := tree,
          lg_since := lg_since l + 1\<rparr>"
        have inv: "ledger_inv ed (l', db') (es @ [e])"
          unfolding l'_def by (rule append_inv [OF i [unfolded s] e_def e(1,2) Inr tr])
        obtain s2 d where cp: "sealCheckpointLocked ed (io 1) (now 3) (now 4) (l', db') = (s2, d)" by fastforce
        have inv2: "ledger_inv ed s2 (es @ [e])"
          using sealCheckpoint_inv [OF inv, of "io 1" "now 3" "now 4"] cp by simp
        have same: "lg_node (fst s2) = lg_node l" "lg_keys (fst s2) = lg_keys l"
          using cp by (auto simp: sealCheckpointLocked_def Let_def l'_def split: sum.splits)
        have res: "res = (if checkpointEveryN \<le> lg_since l' \<or> checkpointEveryT \<le> now 2 - lg_last_cp_at l'
            then (case (s2, d) of (s, Some x) \<Rightarrow> Some (s, Inl (CheckpointFailed (Entry_Hash e) x))
                  | (s, None) \<Rightarrow> Some (s, Inr (Entry_Hash e)))
            else Some ((l', db'), Inr (Entry_Hash e)))"
          unfolding r [symmetric] Seal_def s Let_def fst_conv snd_conv v ca None option.case prod.case
            e_def [symmetric] Inr sum.case tr
          unfolding l'_def [symmetric] cp prod.case by (simp add: l'_def)
        have "\<exists>s' out. res = Some (s', out) \<and> ledger_inv ed s' (es @ [e]) \<and> lg_node (fst s') = lg_node l
            \<and> lg_keys (fst s') = lg_keys l
            \<and> (out = Inr (Entry_Hash e) \<or> (\<exists>d. out = Inl (CheckpointFailed (Entry_Hash e) d)))"
        proof (cases "checkpointEveryN \<le> lg_since l' \<or> checkpointEveryT \<le> now 2 - lg_last_cp_at l'")
          case True
          with res inv2 same show ?thesis
            by (cases d; intro exI [of _ s2]) auto
        next
          case False
          with res inv show ?thesis by (intro exI [of _ "(l', db')"]) (auto simp: l'_def)
        qed
        with e(3,4) s show ?thesis by (metis fst_conv)
      qed
    qed
  qed
qed

section \<open>Opening restores the log\<close>

lemma LedgerHead_inv:
  assumes "db_inv ed node db es"
  shows "LedgerHead False db = Inr (length es, chain_head [] es)"
proof (cases es rule: rev_cases)
  case Nil
  then have "db_entries db = []" using db_inv_length [OF assms] by simp
  then show ?thesis by (simp add: LedgerHead_def by_seq_def Nil)
next
  case (snoc xs e)
  have rows: "list_all2 stored es (db_entries db)" "chained 0 [] es"
    using assms by (simp_all add: db_inv_def)
  then obtain ys r where "db_entries db = ys @ [r]" "stored e r"
    unfolding snoc by (auto simp: list_all2_append1 list_all2_Cons1)
  moreover have "en_seq e = length es" using rows(2) unfolding snoc by (simp add: chained_append)
  ultimately show ?thesis
    using db_inv_by_seq [OF assms] by (simp add: LedgerHead_def stored_def snoc)
qed

lemma Open_inv:
  assumes i: "db_inv ed node db es" and k: "ed_correct ed keys"
  shows "\<exists>l. Open (\<lambda>_. False) now db node (Some keys) = Some (Inr l)
    \<and> ledger_inv ed (l, db) es \<and> lg_node l = node \<and> lg_keys l = keys"
proof -
  obtain tree where t: "ct_append_all ct_empty (leaves es) = Some tree" "ct_repr tree (leaves es)"
    using ct.rebuild [of "leaves es"] by auto
  have "LastCheckpoint False db = Inr None \<or> (\<exists>c. LastCheckpoint False db = Inr (Some c))"
    by (auto simp: LastCheckpoint_def split: list.split)
  then show ?thesis
    using i k t LedgerHead_inv [OF i] db_inv_entries [OF i]
    by (auto simp: Open_def Let_def leaves_def comp_def ledger_inv_def)
qed

end
