(* ===== verification/Succession.thy ===== *)
theory Succession
  imports Signing Store_Ledger
begin

text \<open>
  \<^verbatim>\<open>kernel/internal/ledger/succession.go\<close>: the key history of a node, reconstructed backwards
  from the one key a verifier trusts. Sequence numbers are \<^verbatim>\<open>uint64\<close>, here \<open>nat\<close> below
  \<open>2 ^ 64\<close>; a Go map is an association list.
\<close>

definition SuccessionPayload :: "nat \<Rightarrow> string \<Rightarrow> string \<Rightarrow> int \<Rightarrow> bytes" where
  "SuccessionPayload sq from_key to_key ts =
     ''aura-ledger-succession-v1:'' @ dec_nat sq @ CHR '':'' # from_key @ CHR '':'' # to_key
       @ CHR '':'' # dec_int ts"

datatype succession_failure = HandsToItself | NotSignedByOutgoing sig_error | NotSignedByIncoming sig_error

definition VerifySuccession :: "ed25519 \<Rightarrow> succession_row \<Rightarrow> succession_failure option" where
  "VerifySuccession ed r =
     (if su_from_pubkey r = su_to_pubkey r then Some HandsToItself
      else (let payload = SuccessionPayload (su_seq r) (su_from_pubkey r) (su_to_pubkey r) (su_ts r) in
            case signing_Verify ed (su_from_pubkey r) (su_from_sig r) payload of
              Some e \<Rightarrow> Some (NotSignedByOutgoing e)
            | None \<Rightarrow>
                (case signing_Verify ed (su_to_pubkey r) (su_to_sig r) payload of
                   Some e \<Rightarrow> Some (NotSignedByIncoming e)
                 | None \<Rightarrow> None)))"

record key_segment =
  ks_up_to :: nat
  ks_pubkey :: string

record key_timeline =
  kt_segments :: "key_segment list"
  kt_rotations :: nat

definition maxSeq :: nat where
  "maxSeq = 2 ^ 64 - 1"

definition KeyAt :: "key_timeline \<Rightarrow> nat \<Rightarrow> string" where
  "KeyAt t sq =
     (case find (\<lambda>s. sq \<le> ks_up_to s) (kt_segments t) of
        Some s \<Rightarrow> ks_pubkey s
      | None \<Rightarrow> if kt_segments t = [] then [] else ks_pubkey (last (kt_segments t)))"

datatype timeline_error =
  NoAnchor | Fork | BadSuccession succession_failure | Cycle | Unreachable | OutOfOrder

fun index_by_to ::
  "(string \<times> succession_row) list \<Rightarrow> succession_row list \<Rightarrow> (string \<times> succession_row) list option" where
  "index_by_to byTo [] = Some byTo"
| "index_by_to byTo (r # rs) =
     (case al_get byTo (su_to_pubkey r) of
        Some _ \<Rightarrow> None
      | None \<Rightarrow> index_by_to (al_put (su_to_pubkey r) r byTo) rs)"

text \<open>
  The walk back. The loop runs while \<^verbatim>\<open>used <= len(successions)\<close>; its first argument is how many
  rounds are left. \<open>reversed\<close> holds the segments newest first.
\<close>

fun walk_back ::
  "nat \<Rightarrow> ed25519 \<Rightarrow> (string \<times> succession_row) list \<Rightarrow> string \<Rightarrow> string list \<Rightarrow> key_segment list \<Rightarrow> nat
   \<Rightarrow> timeline_error + (key_segment list \<times> nat)" where
  "walk_back 0 ed byTo current seen reversed used = Inr (reversed, used)"
| "walk_back (Suc n) ed byTo current seen reversed used =
     (case al_get byTo current of
        None \<Rightarrow> Inr (reversed, used)
      | Some r \<Rightarrow>
          (case VerifySuccession ed r of
             Some e \<Rightarrow> Inl (BadSuccession e)
           | None \<Rightarrow>
               if su_from_pubkey r \<in> set seen then Inl Cycle
               else walk_back n ed byTo (su_from_pubkey r) (su_from_pubkey r # seen)
                      (reversed @ [\<lparr>ks_up_to = su_seq r, ks_pubkey = su_from_pubkey r\<rparr>]) (Suc used)))"

fun ascending :: "nat option \<Rightarrow> key_segment list \<Rightarrow> bool" where
  "ascending prev [] = True"
| "ascending prev (s # ss) =
     ((case prev of None \<Rightarrow> True | Some u \<Rightarrow> u < ks_up_to s) \<and> ascending (Some (ks_up_to s)) ss)"

definition BuildKeyTimeline ::
  "ed25519 \<Rightarrow> succession_row list \<Rightarrow> string \<Rightarrow> timeline_error + key_timeline" where
  "BuildKeyTimeline ed successions trusted =
     (if trusted = [] then Inl NoAnchor
      else if successions = [] then
        Inr \<lparr>kt_segments = [\<lparr>ks_up_to = maxSeq, ks_pubkey = trusted\<rparr>], kt_rotations = 0\<rparr>
      else (case index_by_to [] successions of
              None \<Rightarrow> Inl Fork
            | Some byTo \<Rightarrow>
                (case walk_back (Suc (length successions)) ed byTo trusted [trusted]
                        [\<lparr>ks_up_to = maxSeq, ks_pubkey = trusted\<rparr>] 0 of
                   Inl e \<Rightarrow> Inl e
                 | Inr (reversed, used) \<Rightarrow>
                     if used \<noteq> length successions then Inl Unreachable
                     else if \<not> ascending None (rev reversed) then Inl OutOfOrder
                     else Inr \<lparr>kt_segments = rev reversed, kt_rotations = length reversed - 1\<rparr>)))"

section \<open>A timeline that was built\<close>

text \<open>One key handed over to the next by a stored row both of them signed.\<close>

definition handover :: "ed25519 \<Rightarrow> succession_row list \<Rightarrow> key_segment \<Rightarrow> key_segment \<Rightarrow> bool" where
  "handover ed rows a b \<longleftrightarrow>
     (\<exists>r \<in> set rows. VerifySuccession ed r = None \<and> su_seq r = ks_up_to a
        \<and> su_from_pubkey r = ks_pubkey a \<and> su_to_pubkey r = ks_pubkey b)"

lemma index_by_to_rows:
  "index_by_to byTo rows = Some t \<Longrightarrow> (k, r) \<in> set t \<Longrightarrow> \<forall>(k, r) \<in> set byTo. su_to_pubkey r = k \<Longrightarrow>
   su_to_pubkey r = k \<and> (r \<in> set rows \<or> (k, r) \<in> set byTo)"
proof (induction rows arbitrary: byTo)
  case (Cons x rows)
  have put: "al_get xs k' = None \<Longrightarrow> set (al_put k' v xs) = insert (k', v) (set xs)"
    for k' v and xs :: "(string \<times> succession_row) list"
    by (induction k' v xs rule: al_put.induct) (auto split: if_splits)
  from Cons.prems obtain n: "al_get byTo (su_to_pubkey x) = None"
    and i: "index_by_to (al_put (su_to_pubkey x) x byTo) rows = Some t" by (auto split: option.splits)
  have "\<forall>(k, r) \<in> set (al_put (su_to_pubkey x) x byTo). su_to_pubkey r = k"
    using Cons.prems(3) put [OF n] by auto
  from Cons.IH [OF i Cons.prems(2) this] put [OF n] show ?case by auto
qed auto

lemma walk_back_links:
  assumes "walk_back n ed byTo current seen reversed used = Inr (segs, used')"
    and "\<forall>k r. al_get byTo k = Some r \<longrightarrow> su_to_pubkey r = k \<and> r \<in> set rows"
    and "reversed \<noteq> []" "ks_pubkey (last reversed) = current" "seen = rev (map ks_pubkey reversed)"
    and "distinct (map ks_pubkey reversed)" "successively (\<lambda>b a. handover ed rows a b) reversed"
    and "length reversed = Suc used"
  shows "successively (\<lambda>b a. handover ed rows a b) segs \<and> distinct (map ks_pubkey segs)
    \<and> segs \<noteq> [] \<and> hd segs = hd reversed \<and> length segs = Suc used'"
  using assms
proof (induction n ed byTo current seen reversed used rule: walk_back.induct)
  case (2 n ed byTo current seen reversed used)
  show ?case
  proof (cases "al_get byTo current")
    case None
    with 2 show ?thesis by simp
  next
    case (Some r)
    let ?s = "\<lparr>ks_up_to = su_seq r, ks_pubkey = su_from_pubkey r\<rparr>"
    from 2(2) Some have v: "VerifySuccession ed r = None" "su_from_pubkey r \<notin> set seen"
      and w: "walk_back n ed byTo (su_from_pubkey r) (su_from_pubkey r # seen) (reversed @ [?s]) (Suc used)
        = Inr (segs, used')"
      by (auto split: option.splits if_splits)
    have "handover ed rows ?s (last reversed)"
      unfolding handover_def using v(1) 2(3,5) Some by (auto intro!: bexI [of _ r])
    then have "successively (\<lambda>b a. handover ed rows a b) (reversed @ [?s])"
      using 2(4,8) by (simp add: successively_append_iff)
    from 2(1) [OF Some v w 2(3) _ _ _ _ this] 2 v(2) show ?thesis
      by (simp add: hd_append)
  qed
qed simp

lemma ascending_sorted: "ascending p ss \<Longrightarrow>
  sorted_wrt (<) (map ks_up_to ss) \<and> (\<forall>u. p = Some u \<longrightarrow> (\<forall>s \<in> set ss. u < ks_up_to s))"
proof (induction p ss rule: ascending.induct)
  case (2 p s ss)
  then show ?case by (cases p) fastforce+
qed simp

lemma successively_rev_iff: "successively P (rev xs) \<longleftrightarrow> successively (\<lambda>x y. P y x) xs"
  by (rule successively_rev)

theorem BuildKeyTimeline_sound:
  assumes "BuildKeyTimeline ed rows trusted = Inr t"
  shows "successively (handover ed rows) (kt_segments t)"
    and "sorted_wrt (<) (map ks_up_to (kt_segments t))" "distinct (map ks_pubkey (kt_segments t))"
    and "kt_segments t \<noteq> []" "last (kt_segments t) = \<lparr>ks_up_to = maxSeq, ks_pubkey = trusted\<rparr>"
    and "kt_rotations t = length rows" "length (kt_segments t) = Suc (length rows)"
proof -
  have all: "successively (handover ed rows) (kt_segments t)
    \<and> sorted_wrt (<) (map ks_up_to (kt_segments t)) \<and> distinct (map ks_pubkey (kt_segments t))
    \<and> kt_segments t \<noteq> [] \<and> last (kt_segments t) = \<lparr>ks_up_to = maxSeq, ks_pubkey = trusted\<rparr>
    \<and> kt_rotations t = length rows \<and> length (kt_segments t) = Suc (length rows)"
  proof (cases "rows = []")
    case True
    with assms show ?thesis by (auto simp: BuildKeyTimeline_def split: if_splits)
  next
    case False
    with assms obtain byTo reversed where
      b: "index_by_to [] rows = Some byTo"
      and w: "walk_back (Suc (length rows)) ed byTo trusted [trusted]
          [\<lparr>ks_up_to = maxSeq, ks_pubkey = trusted\<rparr>] 0 = Inr (reversed, length rows)"
      and a: "ascending None (rev reversed)"
      and t: "t = \<lparr>kt_segments = rev reversed, kt_rotations = length reversed - 1\<rparr>"
      unfolding BuildKeyTimeline_def by (auto simp del: walk_back.simps split: if_splits option.splits sum.splits)
    have rows: "\<forall>k r. al_get byTo k = Some r \<longrightarrow> su_to_pubkey r = k \<and> r \<in> set rows"
      using index_by_to_rows [OF b] by (auto dest!: al_get_SomeD)
    from walk_back_links [OF w rows]
    have "successively (\<lambda>b a. handover ed rows a b) reversed" "distinct (map ks_pubkey reversed)"
      "reversed \<noteq> []" "hd reversed = \<lparr>ks_up_to = maxSeq, ks_pubkey = trusted\<rparr>"
      "length reversed = Suc (length rows)" by simp_all
    with ascending_sorted [OF a] show ?thesis
      by (simp add: t successively_rev_iff last_rev rev_map [symmetric])
  qed
  then show "successively (handover ed rows) (kt_segments t)"
    and "sorted_wrt (<) (map ks_up_to (kt_segments t))" "distinct (map ks_pubkey (kt_segments t))"
    and "kt_segments t \<noteq> []" "last (kt_segments t) = \<lparr>ks_up_to = maxSeq, ks_pubkey = trusted\<rparr>"
    and "kt_rotations t = length rows" "length (kt_segments t) = Suc (length rows)"
    by simp_all
qed

section \<open>Every honest history is read back\<close>

definition segment_of :: "succession_row \<Rightarrow> key_segment" where
  "segment_of r = \<lparr>ks_up_to = su_seq r, ks_pubkey = su_from_pubkey r\<rparr>"

text \<open>
  What a node that rotates writes: rows, oldest first, each signed by both keys, each taking over
  where the last one ended, at increasing sequence numbers, never going back to a key it had.
\<close>

definition honest_history :: "ed25519 \<Rightarrow> succession_row list \<Rightarrow> string \<Rightarrow> bool" where
  "honest_history ed rs current \<longleftrightarrow>
     list_all (\<lambda>r. VerifySuccession ed r = None) rs
     \<and> successively (\<lambda>a b. su_to_pubkey a = su_from_pubkey b) rs
     \<and> (rs \<noteq> [] \<longrightarrow> su_to_pubkey (last rs) = current)
     \<and> distinct (map su_from_pubkey rs @ [current])
     \<and> sorted_wrt (<) (map su_seq rs) \<and> list_all (\<lambda>r. su_seq r < maxSeq) rs"

lemma walk_back_complete:
  "\<forall>r \<in> set rs. al_get byTo (su_to_pubkey r) = Some r \<and> VerifySuccession ed r = None \<Longrightarrow>
   successively (\<lambda>a b. su_to_pubkey a = su_from_pubkey b) rs \<Longrightarrow>
   rs \<noteq> [] \<Longrightarrow> su_to_pubkey (last rs) = current \<Longrightarrow>
   al_get byTo (su_from_pubkey (hd rs)) = None \<Longrightarrow>
   distinct (map su_from_pubkey rs) \<Longrightarrow> set (map su_from_pubkey rs) \<inter> set seen = {} \<Longrightarrow> length rs < n \<Longrightarrow>
   walk_back n ed byTo current seen reversed used
     = Inr (reversed @ rev (map segment_of rs), used + length rs)"
proof (induction rs arbitrary: n current seen reversed used rule: rev_induct)
  case (snoc r rs)
  then obtain m where n: "n = Suc m" by (cases n) auto
  show ?case
  proof (cases "rs = []")
    case True
    with snoc.prems n obtain l where "m = Suc l" by (cases m) auto
    with snoc.prems n True show ?thesis by (auto simp: segment_of_def)
  next
    case False
    have "walk_back m ed byTo (su_from_pubkey r) (su_from_pubkey r # seen) (reversed @ [segment_of r]) (Suc used)
        = Inr ((reversed @ [segment_of r]) @ rev (map segment_of rs), Suc used + length rs)"
      using snoc.prems n False by (intro snoc.IH) (auto simp: successively_append_iff)
    with snoc.prems n False show ?thesis by (auto simp: segment_of_def)
  qed
qed simp

lemma index_by_to_complete:
  "distinct (map su_to_pubkey rows) \<Longrightarrow> \<forall>r \<in> set rows. al_get byTo (su_to_pubkey r) = None \<Longrightarrow>
   \<exists>t. index_by_to byTo rows = Some t
     \<and> (\<forall>k. al_get t k = (case find (\<lambda>r. su_to_pubkey r = k) rows of Some r \<Rightarrow> Some r | None \<Rightarrow> al_get byTo k))"
proof (induction rows arbitrary: byTo)
  case (Cons r rows)
  have "\<exists>t. index_by_to (al_put (su_to_pubkey r) r byTo) rows = Some t
     \<and> (\<forall>k. al_get t k = (case find (\<lambda>r. su_to_pubkey r = k) rows of Some r \<Rightarrow> Some r
          | None \<Rightarrow> al_get (al_put (su_to_pubkey r) r byTo) k))"
    using Cons.prems by (intro Cons.IH) (auto simp: image_iff)
  then obtain t where t: "index_by_to (al_put (su_to_pubkey r) r byTo) rows = Some t"
    "\<And>k. al_get t k = (case find (\<lambda>r. su_to_pubkey r = k) rows of Some r \<Rightarrow> Some r
          | None \<Rightarrow> al_get (al_put (su_to_pubkey r) r byTo) k)" by blast
  have "find (\<lambda>x. su_to_pubkey x = su_to_pubkey r) rows = None"
    using Cons.prems(1) by (auto simp: find_None_iff image_iff)
  with t Cons.prems show ?case by (auto split: option.splits)
qed simp

lemma find_unique: "distinct (map f rows) \<Longrightarrow> r \<in> set rows \<Longrightarrow> find (\<lambda>x. f x = f r) rows = Some r"
  by (induction rows) force+

lemma ascending_sorted_wrt:
  "sorted_wrt (<) (map ks_up_to ss) \<Longrightarrow> (\<And>u. p = Some u \<Longrightarrow> \<forall>s \<in> set ss. u < ks_up_to s) \<Longrightarrow> ascending p ss"
  by (induction p ss rule: ascending.induct) (auto split: option.splits)

lemma chain_to_from:
  "successively (\<lambda>a b. su_to_pubkey a = su_from_pubkey b) rs \<Longrightarrow> rs \<noteq> [] \<Longrightarrow>
   map su_to_pubkey rs = tl (map su_from_pubkey rs) @ [su_to_pubkey (last rs)]"
  by (induction rs rule: induct_list012) auto

theorem BuildKeyTimeline_complete:
  assumes h: "honest_history ed rs trusted" and "set rows = set rs" "distinct rows" "trusted \<noteq> []"
  shows "BuildKeyTimeline ed rows trusted =
    Inr \<lparr>kt_segments = map segment_of rs @ [\<lparr>ks_up_to = maxSeq, ks_pubkey = trusted\<rparr>],
         kt_rotations = length rs\<rparr>"
proof (cases "rs = []")
  case True
  with assms(2,4) show ?thesis by (simp add: BuildKeyTimeline_def)
next
  case False
  have d: "distinct (map su_from_pubkey rs)" "trusted \<notin> set (map su_from_pubkey rs)"
    using h by (simp_all add: honest_history_def)
  have to: "map su_to_pubkey rs = tl (map su_from_pubkey rs) @ [trusted]"
    using h False chain_to_from by (auto simp: honest_history_def)
  have dto: "distinct (map su_to_pubkey rs)"
    unfolding to using d by (cases rs) auto
  have drs: "distinct rs" using d(1) by (simp add: distinct_map)
  have len: "length rows = length rs"
    using assms(2,3) drs by (metis distinct_card)
  have drows: "distinct (map su_to_pubkey rows)"
    using dto assms(2,3) by (simp add: distinct_map)
  obtain t where t: "index_by_to [] rows = Some t"
    "\<And>k. al_get t k = (case find (\<lambda>r. su_to_pubkey r = k) rows of Some r \<Rightarrow> Some r | None \<Rightarrow> None)"
    using index_by_to_complete [OF drows, of "[]"] by (auto simp del: index_by_to.simps cong: option.case_cong)
  have get: "al_get t (su_to_pubkey r) = Some r" if "r \<in> set rs" for r
    using that find_unique [OF drows] assms(2) by (simp add: t(2))
  have "su_from_pubkey (hd rs) \<notin> set (map su_to_pubkey rs)"
    unfolding to using d False by (cases rs) auto
  then have "find (\<lambda>r. su_to_pubkey r = su_from_pubkey (hd rs)) rows = None"
    unfolding find_None_iff assms(2) by (metis image_eqI set_map)
  then have none: "al_get t (su_from_pubkey (hd rs)) = None" by (simp add: t(2))
  have w: "walk_back (Suc (length rows)) ed t trusted [trusted] [\<lparr>ks_up_to = maxSeq, ks_pubkey = trusted\<rparr>] 0
      = Inr ([\<lparr>ks_up_to = maxSeq, ks_pubkey = trusted\<rparr>] @ rev (map segment_of rs), 0 + length rs)"
    using h False get none d len
    by (intro walk_back_complete) (auto simp: honest_history_def list_all_iff)
  have "ascending None (map segment_of rs @ [\<lparr>ks_up_to = maxSeq, ks_pubkey = trusted\<rparr>])"
    using h by (intro ascending_sorted_wrt)
      (auto simp: honest_history_def sorted_wrt_append segment_of_def list_all_iff comp_def)
  with w t(1) len assms(4) False show ?thesis
    by (cases rows) (simp_all add: BuildKeyTimeline_def del: walk_back.simps)
qed

end
