(* ===== verification/Verify.thy ===== *)
theory Verify
  imports Ledger_Inv Succession
begin

text \<open>
  \<^verbatim>\<open>kernel/internal/ledger/verify.go\<close>, with the check of countersignatures of \<^verbatim>\<open>witness.go\<close> it
  calls: the offline verification of a stored ledger. Nothing of the in-memory ledger is read, only
  the database. \<open>io k\<close> is the failure of the \<open>k\<close>-th query.
\<close>

section \<open>The report\<close>

datatype broken_reason = NotJson | WrongSeq nat | PrevMismatch

record report =
  rp_total :: nat
  rp_chain_intact :: bool
  rp_broken_at :: nat
  rp_broken_reason :: "broken_reason option"
  rp_checkpoints :: nat
  rp_checkpoints_valid :: nat
  rp_key_available :: bool
  rp_fingerprint :: string
  rp_merkle_root :: string
  rp_merkle_checkpoints :: nat
  rp_merkle_mismatches :: nat
  rp_witnesses :: nat
  rp_witnesses_valid :: nat
  rp_approvals :: nat
  rp_approvals_invalid :: nat
  rp_approval_failure :: "(nat \<times> approval_error) option"
  rp_timeline :: "key_segment list"
  rp_rotations :: nat
  rp_succession_failure :: "timeline_error option"

definition zero_report :: report where
  "zero_report = \<lparr>rp_total = 0, rp_chain_intact = False, rp_broken_at = 0, rp_broken_reason = None,
     rp_checkpoints = 0, rp_checkpoints_valid = 0, rp_key_available = False, rp_fingerprint = [],
     rp_merkle_root = [], rp_merkle_checkpoints = 0, rp_merkle_mismatches = 0, rp_witnesses = 0,
     rp_witnesses_valid = 0, rp_approvals = 0, rp_approvals_invalid = 0, rp_approval_failure = None,
     rp_timeline = [], rp_rotations = 0, rp_succession_failure = None\<rparr>"

definition Report_Sound :: "report \<Rightarrow> bool" where
  "Report_Sound r \<longleftrightarrow>
     rp_chain_intact r \<and> rp_merkle_mismatches r = 0 \<and> rp_succession_failure r = None
     \<and> (\<not> rp_key_available r \<or> rp_checkpoints_valid r = rp_checkpoints r)
     \<and> rp_witnesses_valid r = rp_witnesses r \<and> rp_approvals_invalid r = 0"

definition Fingerprint :: "string \<Rightarrow> string" where
  "Fingerprint pub =
     (case b64_decode pub of None \<Rightarrow> ''invalid'' | Some raw \<Rightarrow> hex_encode (take 6 (sha256 raw)))"

definition brokenReport :: "report \<Rightarrow> nat \<Rightarrow> broken_reason \<Rightarrow> report" where
  "brokenReport r at reason =
     r\<lparr>rp_chain_intact := False, rp_broken_at := at, rp_broken_reason := Some reason\<rparr>"

section \<open>The walk over the entries\<close>

text \<open>The variables of the loop; the two Go maps are association lists, the latest first.\<close>

record walk_state =
  wk_prev :: string
  wk_by_hash :: "(string \<times> entry) list"
  wk_root_at :: "(nat \<times> hash) list"
  wk_tree :: compact_tree
  wk_report :: report

definition check_entry_approver :: "ed25519 \<Rightarrow> entry \<Rightarrow> report \<Rightarrow> report" where
  "check_entry_approver ed e r =
     (case en_approver e of
        None \<Rightarrow> r
      | Some a \<Rightarrow>
          (let r = r\<lparr>rp_approvals := rp_approvals r + 1\<rparr> in
           case snd (approval_Verify ed (Some a) (en_node e) (en_session e)) of
             None \<Rightarrow> r
           | Some err \<Rightarrow>
               (let r = r\<lparr>rp_approvals_invalid := rp_approvals_invalid r + 1\<rparr> in
                if rp_approval_failure r = None then r\<lparr>rp_approval_failure := Some (en_seq e, err)\<rparr>
                else r)))"

datatype 'a walked = Broken report | Panicked | Walked 'a

fun verify_walk ::
  "ed25519 \<Rightarrow> nat list \<Rightarrow> nat \<Rightarrow> bytes list \<Rightarrow> walk_state \<Rightarrow> walk_state walked" where
  "verify_walk ed wantRootAt i [] w = Walked w"
| "verify_walk ed wantRootAt i (raw # raws) w =
     (case Unmarshal_Entry raw of
        None \<Rightarrow> Broken (brokenReport (wk_report w) (i + 1) NotJson)
      | Some e \<Rightarrow>
          if en_seq e \<noteq> i + 1 then Broken (brokenReport (wk_report w) (i + 1) (WrongSeq (en_seq e)))
          else if en_prev e \<noteq> wk_prev w then Broken (brokenReport (wk_report w) (en_seq e) PrevMismatch)
          else (case ct_Append (wk_tree w) (LeafHash raw) of
                  None \<Rightarrow> Panicked
                | Some tree \<Rightarrow>
                    verify_walk ed wantRootAt (i + 1) raws
                      \<lparr>wk_prev = Entry_Hash e, wk_by_hash = (Entry_Hash e, e) # wk_by_hash w,
                       wk_root_at = (if en_seq e \<in> set wantRootAt
                                     then (en_seq e, ct_Root tree) # wk_root_at w else wk_root_at w),
                       wk_tree = tree, wk_report = check_entry_approver ed e (wk_report w)\<rparr>))"

section \<open>Checkpoints and countersignatures\<close>

definition check_checkpoint ::
  "ed25519 \<Rightarrow> key_timeline \<Rightarrow> walk_state \<Rightarrow> checkpoint_row \<Rightarrow> report \<Rightarrow> report" where
  "check_checkpoint ed timeline w c r =
     (case al_get (wk_by_hash w) (cp_head_hash c) of
        None \<Rightarrow> r
      | Some e \<Rightarrow>
          if en_seq e \<noteq> cp_seq c then r
          else if signing_Verify ed (KeyAt timeline (cp_seq c)) (cp_signature c)
                    (checkpointPayload (cp_seq c) (cp_head_hash c) (cp_merkle_root c)) \<noteq> None then r
          else (let r = r\<lparr>rp_checkpoints_valid := rp_checkpoints_valid r + 1\<rparr> in
                if cp_merkle_root c = [] then r
                else (let r = r\<lparr>rp_merkle_checkpoints := rp_merkle_checkpoints r + 1\<rparr> in
                      if (case al_get (wk_root_at w) (cp_seq c) of
                            None \<Rightarrow> True | Some got \<Rightarrow> hash_String got \<noteq> cp_merkle_root c)
                      then r\<lparr>rp_merkle_mismatches := rp_merkle_mismatches r + 1\<rparr> else r)))"

definition witnessPayload :: "string \<Rightarrow> nat \<Rightarrow> string \<Rightarrow> bytes" where
  "witnessPayload nodeID sq merkleRoot =
     ''aura-ledger-witness-v1:'' @ nodeID @ CHR '':'' # dec_nat sq @ CHR '':'' # merkleRoot"

definition witnessedNodeID :: "bool \<Rightarrow> ledger_db \<Rightarrow> string" where
  "witnessedNodeID fault db =
     (case LedgerEntries fault 1 1 db of
        Inl _ \<Rightarrow> []
      | Inr [] \<Rightarrow> []
      | Inr (raw # _) \<Rightarrow> (case Unmarshal_Entry raw of None \<Rightarrow> [] | Some e \<Rightarrow> en_node e))"

definition witness_valid :: "ed25519 \<Rightarrow> (nat \<times> hash) list \<Rightarrow> string \<Rightarrow> witness_row \<Rightarrow> bool" where
  "witness_valid ed rootAt nodeID row \<longleftrightarrow>
     (case al_get rootAt (wr_seq row) of
        None \<Rightarrow> False
      | Some want \<Rightarrow>
          hash_String want = wr_merkle_root row \<and> nodeID \<noteq> []
          \<and> signing_Verify ed (wr_witness_key row) (wr_signature row)
               (witnessPayload nodeID (wr_seq row) (wr_merkle_root row)) = None)"

definition verifyWitnesses ::
  "ed25519 \<Rightarrow> bool \<Rightarrow> bool \<Rightarrow> ledger_db \<Rightarrow> checkpoint_row list \<Rightarrow> (nat \<times> hash) list \<Rightarrow> nat \<times> nat" where
  "verifyWitnesses ed fault1 fault2 db checkpoints rootAt =
     (case LedgerWitnesses fault1 db of
        Inl _ \<Rightarrow> (0, 0)
      | Inr rows \<Rightarrow>
          (let nodeID = (if checkpoints \<noteq> [] then witnessedNodeID fault2 db else [])
           in (length rows, length (filter (witness_valid ed rootAt nodeID) rows))))"

section \<open>The verification\<close>

datatype verify_error = EntriesNotRead db_error | CheckpointsNotRead report db_error
  | SuccessionsNotRead report db_error

definition Verify ::
  "ed25519 \<Rightarrow> (nat \<Rightarrow> bool) \<Rightarrow> ledger_db \<Rightarrow> string \<Rightarrow> (verify_error + report) option" where
  "Verify ed io db pub =
     (case LedgerEntries (io 0) 1 0 db of
        Inl e \<Rightarrow> Some (Inl (EntriesNotRead e))
      | Inr entries \<Rightarrow>
          (let r = zero_report\<lparr>rp_total := length entries, rp_chain_intact := True\<rparr>;
               r = (if pub \<noteq> [] then r\<lparr>rp_key_available := True, rp_fingerprint := Fingerprint pub\<rparr> else r)
           in case LedgerCheckpoints (io 1) db of
                Inl e \<Rightarrow> Some (Inl (CheckpointsNotRead r e))
              | Inr checkpoints \<Rightarrow>
                  (let r = r\<lparr>rp_checkpoints := length checkpoints\<rparr> in
                   case verify_walk ed (map cp_seq checkpoints) 0 entries
                          \<lparr>wk_prev = [], wk_by_hash = [], wk_root_at = [], wk_tree = ct_empty, wk_report = r\<rparr> of
                     Broken r \<Rightarrow> Some (Inr r)
                   | Panicked \<Rightarrow> None
                   | Walked w \<Rightarrow>
                       (let r = (wk_report w)\<lparr>rp_merkle_root := hash_String (ct_Root (wk_tree w))\<rparr> in
                        if \<not> rp_key_available r then Some (Inr r)
                        else (case LedgerSuccessions (io 2) db of
                                Inl e \<Rightarrow> Some (Inl (SuccessionsNotRead r e))
                              | Inr successions \<Rightarrow>
                                  (case BuildKeyTimeline ed successions pub of
                                     Inl e \<Rightarrow> Some (Inr (r\<lparr>rp_succession_failure := Some e\<rparr>))
                                   | Inr t \<Rightarrow>
                                       (let r = r\<lparr>rp_timeline := kt_segments t, rp_rotations := kt_rotations t\<rparr>;
                                            r = fold (check_checkpoint ed t w) checkpoints r;
                                            (n, v) = verifyWitnesses ed (io 3) (io 4) db checkpoints (wk_root_at w)
                                        in Some (Inr (r\<lparr>rp_witnesses := n, rp_witnesses_valid := v\<rparr>)))))))))"

end
