(* ===== verification/Merkle_Consistency.thy ===== *)
theory Merkle_Consistency
  imports Merkle_Proofs
begin

text \<open>
  \<^verbatim>\<open>ConsistencyProof\<close> and \<^verbatim>\<open>VerifyConsistency\<close> of \<^verbatim>\<open>merkle.go\<close>: the proof the code builds is
  accepted, and an accepted proof shows that the old tree's leaves are the first leaves of the new
  tree's, unless two of the byte strings that were hashed collide.
\<close>

definition cons_l :: "hash \<Rightarrow> hash \<times> hash \<Rightarrow> hash \<times> hash" where
  "cons_l x s = (interiorHash x (fst s), interiorHash x (snd s))"

definition cons_r :: "hash \<Rightarrow> hash \<times> hash \<Rightarrow> hash \<times> hash" where
  "cons_r x s = (fst s, interiorHash (snd s) x)"

lemma cons_app [simp]:
  "cons_l x (a, b) = (interiorHash x a, interiorHash x b)" "cons_r x (a, b) = (a, interiorHash b x)"
  by (simp_all add: cons_l_def cons_r_def)

text \<open>
  The old tree of \<open>m\<close> leaves ends in a perfect block of \<open>2 ^ t\<close> leaves, where \<open>m = 2 ^ t * u\<close> with
  \<open>u\<close> odd. The seeding loop moves the cursors to that block.
\<close>

lemma odd_part_ex: "0 < m \<Longrightarrow> \<exists>t u. m = 2 ^ t * u \<and> odd (u::nat)"
proof (induction m rule: less_induct)
  case (less m)
  show ?case
  proof (cases "odd m")
    case True
    then show ?thesis by (intro exI [of _ 0] exI [of _ m]) simp
  next
    case False
    then obtain k where k: "m = 2 * k" by blast
    with less obtain t u where "k = 2 ^ t * u" "odd u" by (metis less_add_same_cancel1 mult_2 nat_0_less_mult_iff zero_less_numeral)
    with k show ?thesis by (intro exI [of _ "Suc t"] exI [of _ u]) simp
  qed
qed

lemma climb_odd_block:
  "m = 2 ^ t * u \<Longrightarrow> odd u \<Longrightarrow> climb_odd (m - 1) s = (u - 1, s div 2 ^ t)"
proof (induction t arbitrary: m s)
  case 0
  then show ?case by (subst climb_odd.simps) auto
next
  case (Suc t)
  define m' where "m' = 2 ^ t * u"
  have m: "m = 2 * m'" "0 < m'" using Suc.prems by (auto simp: m'_def odd_pos)
  then have "(m - 1) mod 2 = 1" "(m - 1) div 2 = m' - 1" by (cases m'; simp)+
  then have "climb_odd (m - 1) s = climb_odd (m' - 1) (s div 2)"
    by (subst climb_odd.simps) simp
  also have "\<dots> = (u - 1, s div 2 div 2 ^ t)" by (rule Suc.IH [OF m'_def Suc.prems(2)])
  finally show ?case by (simp add: div_mult2_eq)
qed

text \<open>The block's subtree head, which seeds both recomputed heads.\<close>

definition old_seed :: "hash list \<Rightarrow> nat \<Rightarrow> nat \<Rightarrow> hash" where
  "old_seed hs t m = MerkleRoot (take (2 ^ t) (drop (m - 2 ^ t) hs))"

lemma subProof_split:
  "1 < length hs \<Longrightarrow> k = largestPowerOfTwoBelow (length hs) \<Longrightarrow> m \<noteq> length hs \<Longrightarrow>
   subProof hs m c =
     (if m \<le> k then subProof (take k hs) m c @ [MerkleRoot (drop k hs)]
      else subProof (drop k hs) (m - k) False @ [MerkleRoot (take k hs)])"
  by (subst subProof.simps) (auto simp: Let_def)

lemma MerkleRoot_take_split:
  assumes n: "1 < length hs" "k = largestPowerOfTwoBelow (length hs)" and m: "k < m" "m \<le> length hs"
  shows "MerkleRoot (take m hs) = interiorHash (MerkleRoot (take k hs)) (MerkleRoot (take (m - k) (drop k hs)))"
proof -
  obtain j where j: "k = 2 ^ j" using lp2_power n by metis
  have "largestPowerOfTwoBelow m = k"
    using lp2_bounds [OF n(1)] n(2) m unfolding j by (intro lp2_unique) simp_all
  moreover have "1 < m" using m(1) lp2_bounds [OF n(1)] n(2) by simp
  ultimately have "MerkleRoot (take m hs) =
      interiorHash (MerkleRoot (take k (take m hs))) (MerkleRoot (drop k (take m hs)))"
    using m(2) by (intro MerkleRoot_split) simp_all
  with m(1) show ?thesis by (simp add: min_def drop_take)
qed

text \<open>In a right subtree the block is the same: the subtree starts at a multiple of its size.\<close>

lemma block_in_right:
  fixes m k :: nat
  assumes "m = 2 ^ t * u" "odd u" "k = 2 ^ j" "k < m" "m < 2 * k"
  shows "\<exists>u'. m - k = 2 ^ t * u' \<and> odd u'" "2 ^ t \<le> m - k" "m \<noteq> 2 ^ t"
proof -
  have "t < j"
  proof (rule ccontr)
    assume "\<not> t < j"
    then have "k dvd m" using assms by (simp add: le_imp_power_dvd)
    then obtain c where "m = k * c" by blast
    with assms(4,5) have "1 < c" "c < 2" by (auto simp: mult.commute)
    then show False by simp
  qed
  then have k: "k = 2 ^ t * (2 * 2 ^ (j - t - 1))"
    using assms(3) by (metis Suc_diff_Suc diff_Suc_1 less_imp_le power_Suc power_split minus_nat.diff_0 diff_diff_left plus_1_eq_Suc add.commute)
  have u: "2 * 2 ^ (j - t - 1) < u" using assms(1,4) k by simp
  have "m - k = 2 ^ t * (u - 2 * 2 ^ (j - t - 1))"
    unfolding assms(1) k by (simp add: diff_mult_distrib2)
  moreover have "odd (u - 2 * 2 ^ (j - t - 1))" using assms(2) u by simp
  ultimately show "\<exists>u'. m - k = 2 ^ t * u' \<and> odd u'" by blast
  then show "2 ^ t \<le> m - k" using assms(4) by (metis dvd_imp_le dvd_triv_left zero_less_diff)
  show "m \<noteq> 2 ^ t" using \<open>t < j\<close> assms(3,4) by (metis less_imp_not_less power_strict_increasing_iff one_less_numeral_iff semiring_norm(76))
qed

lemma block_at_power:
  assumes "(2::nat) ^ j = 2 ^ t * u" "odd u"
  shows "t = j"
proof -
  have "t \<le> j"
  proof (rule ccontr)
    assume "\<not> t \<le> j"
    then have "(2::nat) ^ j < 2 ^ t" by simp
    moreover have "(2::nat) ^ t \<le> 2 ^ j" using assms by (metis dvd_imp_le dvd_triv_left zero_less_numeral zero_less_power)
    ultimately show False by simp
  qed
  with assms(1) have "u = 2 ^ (j - t)" using power_split [of t j] by simp
  with assms(2) \<open>t \<le> j\<close> show ?thesis by (cases "j - t") auto
qed

lemma climb_subProof:
  assumes "0 < m" "m < length hs" "m = 2 ^ t * u" "odd u"
  shows "\<exists>rest. subProof hs m c = (if c \<and> m = 2 ^ t then [] else [old_seed hs t m]) @ rest \<and>
    climb cons_l cons_r t (length hs) (m - 2 ^ t) (old_seed hs t m, old_seed hs t m) rest
      = Some (MerkleRoot (take m hs), MerkleRoot hs)"
  using assms
proof (induction hs arbitrary: m u c rule: length_induct_split)
  case (3 hs k)
  have k: "k < length hs" "0 < k" "length hs \<le> 2 * k" using lp2_bounds 3(1,2) by auto
  obtain j where j: "k = 2 ^ j" using lp2_power 3(1,2) by metis
  have le: "2 ^ t \<le> m" using 3(5,7) by (simp add: dvd_imp_le)
  then have big: "\<not> length hs \<le> 2 ^ t" using 3(6) by simp
  have sub: "subProof hs m c =
     (if m \<le> k then subProof (take k hs) m c @ [MerkleRoot (drop k hs)]
      else subProof (drop k hs) (m - k) False @ [MerkleRoot (take k hs)])"
    using 3(6) by (intro subProof_split [OF 3(1,2)]) simp
  note root = MerkleRoot_split [OF 3(1,2)]
  consider "m < k" | "m = k" | "k < m" by linarith
  then show ?case
  proof cases
    case 1
    obtain rest where r: "subProof (take k hs) m c =
        (if c \<and> m = 2 ^ t then [] else [old_seed (take k hs) t m]) @ rest"
      "climb cons_l cons_r t k (m - 2 ^ t) (old_seed (take k hs) t m, old_seed (take k hs) t m) rest
        = Some (MerkleRoot (take m hs), MerkleRoot (take k hs))"
      using 3(3) [OF 3(5) _ 3(7,8), of c] 1 k(1) by auto
    have seed: "old_seed (take k hs) t m = old_seed hs t m"
      using 1 le by (simp add: old_seed_def take_drop)
    have "m - 2 ^ t < k" using 1 by simp
    with r show ?thesis
      by (intro exI [of _ "rest @ [MerkleRoot (drop k hs)]"])
        (simp add: sub 1 less_imp_le climb_split [OF big _ 3(2)] seed root)
  next
    case 2
    with j 3(7,8) have t: "t = j" using block_at_power by metis
    then have seed: "old_seed hs t m = MerkleRoot (take k hs)"
      using 2 j by (simp add: old_seed_def)
    have m0: "m - 2 ^ t = 0" "m = 2 ^ t" using 2 t j by simp_all
    have sp: "subProof (take k hs) m c = (if c then [] else [MerkleRoot (take k hs)])"
      using 2 k(1) by (subst subProof.simps) simp
    have cl: "climb cons_l cons_r t k 0 (MerkleRoot (take k hs), MerkleRoot (take k hs)) []
        = Some (MerkleRoot (take k hs), MerkleRoot (take k hs))"
      using t j by (subst climb.simps) simp
    show ?thesis
    proof (intro exI conjI)
      show "subProof hs m c = (if c \<and> m = 2 ^ t then [] else [old_seed hs t m]) @ [MerkleRoot (drop k hs)]"
        using sub sp 2 m0(2) seed by simp
      show "climb cons_l cons_r t (length hs) (m - 2 ^ t) (old_seed hs t m, old_seed hs t m)
          [MerkleRoot (drop k hs)] = Some (MerkleRoot (take m hs), MerkleRoot hs)"
        unfolding seed m0(1) by (subst climb_split [OF big _ 3(2)]) (simp_all add: cl k 2 root)
    qed
  next
    case 3
    have m2: "m < 2 * k" using \<open>m < length hs\<close> k by linarith
    note bl = block_in_right [OF \<open>m = 2 ^ t * u\<close> \<open>odd u\<close> j 3 m2]
    obtain u' where u': "m - k = 2 ^ t * u'" "odd u'" using bl(1) by blast
    have lt: "0 < m - k" "m - k < length (drop k hs)" using 3 \<open>m < length hs\<close> by auto
    from "3.IH"(2) [OF lt u', of False] obtain rest where
      r: "subProof (drop k hs) (m - k) False = old_seed (drop k hs) t (m - k) # rest"
      "climb cons_l cons_r t (length hs - k) (m - k - 2 ^ t)
         (old_seed (drop k hs) t (m - k), old_seed (drop k hs) t (m - k)) rest
        = Some (MerkleRoot (take (m - k) (drop k hs)), MerkleRoot (drop k hs))"
      by auto
    have seed: "old_seed (drop k hs) t (m - k) = old_seed hs t m"
      using 3 bl(2) by (simp add: old_seed_def)
    have i: "\<not> m - 2 ^ t < k" "m - 2 ^ t - k = m - k - 2 ^ t" using bl(2) 3 by simp_all
    have "MerkleRoot (take m hs) = interiorHash (MerkleRoot (take k hs)) (MerkleRoot (take (m - k) (drop k hs)))"
      using 3 \<open>m < length hs\<close> by (intro MerkleRoot_take_split [OF "3.hyps"]) simp_all
    with r 3 bl(3) show ?thesis
      by (intro exI [of _ "rest @ [MerkleRoot (take k hs)]"])
        (simp add: sub climb_split [OF big _ "3.hyps"(2)] seed i(1) add.commute MerkleRoot_split [OF "3.hyps"])
  qed
qed auto

section \<open>The verifier\<close>

lemma VerifyConsistency_iff:
  assumes "0 < m" "m < n" "m = 2 ^ t * u" "odd u"
  shows "VerifyConsistency (int m) (int n) old new p \<longleftrightarrow>
    (\<exists>seed rest. p = (if m = 2 ^ t then [] else [seed]) @ rest \<and> (m = 2 ^ t \<longrightarrow> seed = old)
      \<and> climb cons_l cons_r t n (m - 2 ^ t) (seed, seed) rest = Some (old, new))"
proof -
  have nat: "nat (int m - 1) = m - 1" "nat (int n - 1) = n - 1" by linarith+
  have le: "2 ^ t \<le> m" using assms(1,3) by (simp add: dvd_imp_le)
  have i: "2 ^ t dvd m - 2 ^ t" "m - 2 ^ t + 2 ^ t \<le> n"
    using le assms(2,3) by (simp_all add: dvd_diff_nat)
  have fn: "(m - 2 ^ t) div 2 ^ t = u - 1"
    unfolding assms(3) by (simp add: diff_mult_distrib2 [symmetric, of "2 ^ t" u 1, simplified])
  have one: "u = 1 \<longleftrightarrow> m = 2 ^ t" using assms(3) by simp
  have loop: "consistency_loop q (u - 1) ((n - 1) div 2 ^ t) s s = Some (0, o', w) \<longleftrightarrow>
      climb cons_l cons_r t n (m - 2 ^ t) (s, s) q = Some (o', w)" for q s o' w
  proof -
    have "(\<lambda>x (a, b). (interiorHash x a, interiorHash x b)) = cons_l"
      "(\<lambda>x (a, b). (a, interiorHash b x)) = cons_r"
      by (auto simp: fun_eq_iff)
    then show ?thesis
      using walk_iff_climb [OF i, of cons_l cons_r q "(s, s)" "(o', w)"]
      by (simp add: consistency_loop_walk fn)
  qed
  have nonempty: "q \<noteq> []" if "climb cons_l cons_r t n (m - 2 ^ t) (s, s) q = Some z" for q s z
    using that le assms(2) by (auto simp: climb.simps [of cons_l cons_r t n "m - 2 ^ t" "(s, s)" q])
  note co = climb_odd_block [OF assms(3,4), of "n - 1"]
  have "VerifyConsistency (int m) (int n) old new p \<longleftrightarrow> p \<noteq> [] \<and>
     (if u = 1 then consistency_loop p (u - 1) ((n - 1) div 2 ^ t) old old = Some (0, old, new)
      else consistency_loop (tl p) (u - 1) ((n - 1) div 2 ^ t) (hd p) (hd p) = Some (0, old, new))"
    (is "_ \<longleftrightarrow> ?rhs")
  proof (cases p)
    case Nil
    with assms(1,2) show ?thesis by (simp add: VerifyConsistency_def)
  next
    case (Cons x xs)
    have "0 < u" using odd_pos [OF assms(4)] .
    then have "VerifyConsistency (int m) (int n) old new p \<longleftrightarrow>
      (case consistency_loop (if u = 1 then p else xs) (u - 1) ((n - 1) div 2 ^ t)
         (if u = 1 then old else x) (if u = 1 then old else x) of
         None \<Rightarrow> False
       | Some (sn', oldHash, newHash) \<Rightarrow> sn' = 0 \<and> oldHash = old \<and> newHash = new)"
      using assms(1,2) Cons unfolding VerifyConsistency_def nat co
      by (cases "u = 1") (simp_all del: consistency_loop.simps)
    then show ?thesis using Cons by (auto split: option.splits)
  qed
  also have "\<dots> \<longleftrightarrow> (\<exists>seed rest. p = (if m = 2 ^ t then [] else [seed]) @ rest \<and> (m = 2 ^ t \<longrightarrow> seed = old)
      \<and> climb cons_l cons_r t n (m - 2 ^ t) (seed, seed) rest = Some (old, new))"
    unfolding loop one using nonempty [of old "[]" "(old, new)"] by (cases p) auto
  finally show ?thesis .
qed

lemma VerifyConsistency_complete:
  assumes "ConsistencyProof hs (int m) (int n) = Inr p"
  shows "VerifyConsistency (int m) (int n) (MerkleRoot (take m hs)) (MerkleRoot (take n hs)) p"
proof -
  from assms have mn: "m \<le> n" "n \<le> length hs"
    and p: "p = (if m = 0 \<or> m = n then [] else subProof (take n hs) m True)"
    by (auto simp: ConsistencyProof_def split: if_splits)
  show ?thesis
  proof (cases "m = 0 \<or> m = n")
    case True
    then show ?thesis by (auto simp: p VerifyConsistency_def)
  next
    case False
    with mn have m: "0 < m" "m < n" "m < length (take n hs)" by auto
    then obtain t u where tu: "m = 2 ^ t * u" "odd u" using odd_part_ex by blast
    obtain rest where r: "subProof (take n hs) m True =
        (if True \<and> m = 2 ^ t then [] else [old_seed (take n hs) t m]) @ rest"
      "climb cons_l cons_r t n (m - 2 ^ t) (old_seed (take n hs) t m, old_seed (take n hs) t m) rest
        = Some (MerkleRoot (take m hs), MerkleRoot (take n hs))"
      using climb_subProof [OF m(1,3) tu, of True] mn m(2) by auto
    have "m = 2 ^ t \<longrightarrow> old_seed (take n hs) t m = MerkleRoot (take m hs)"
      using m(2) by (simp add: old_seed_def)
    with r show ?thesis
      unfolding VerifyConsistency_iff [OF m(1,2) tu] p using False by auto
  qed
qed

text \<open>Soundness, with the hashed byte strings recorded beside the two hashes.\<close>

definition tcons_l :: "hash \<Rightarrow> (hash \<times> hash) \<times> bytes list \<Rightarrow> (hash \<times> hash) \<times> bytes list" where
  "tcons_l x s = (cons_l x (fst s),
     [interiorPrefix # x @ fst (fst s), interiorPrefix # x @ snd (fst s)] @ snd s)"

definition tcons_r :: "hash \<Rightarrow> (hash \<times> hash) \<times> bytes list \<Rightarrow> (hash \<times> hash) \<times> bytes list" where
  "tcons_r x s = (cons_r x (fst s), (interiorPrefix # snd (fst s) @ x) # snd s)"

definition consistency_inputs :: "int \<Rightarrow> int \<Rightarrow> hash \<Rightarrow> hash list \<Rightarrow> bytes list" where
  "consistency_inputs m n oldRoot p =
     (case climb_odd (nat (m - 1)) (nat (n - 1)) of
        (fn, sn) \<Rightarrow>
          (let (seed, rest) = (if fn \<noteq> 0 then (hd p, tl p) else (oldRoot, p)) in
           case walk tcons_l tcons_r rest fn sn ((seed, seed), []) of
             None \<Rightarrow> [] | Some (_, _, ins) \<Rightarrow> ins))"

lemma tcons_app [simp]:
  "tcons_l x ((a, b), ins) = ((interiorHash x a, interiorHash x b),
     (interiorPrefix # x @ a) # (interiorPrefix # x @ b) # ins)"
  "tcons_r x ((a, b), ins) = ((a, interiorHash b x), (interiorPrefix # b @ x) # ins)"
  by (simp_all add: tcons_l_def tcons_r_def)

lemma climb_tcons_wf:
  "climb tcons_l tcons_r t n i ((s, s), []) p = Some ((a, b), ins) \<Longrightarrow> wf_hash s \<Longrightarrow> wf_hash a \<and> wf_hash b"
proof (induction p arbitrary: n i a b ins rule: rev_induct)
  case Nil
  then show ?case by (auto simp: climb.simps [of tcons_l tcons_r t n] split: if_splits)
next
  case (snoc x p)
  then have big: "\<not> n \<le> 2 ^ t" by (auto simp: climb.simps [of tcons_l tcons_r t n])
  show ?case
    using snoc.prems snoc.IH unfolding climb_split [OF big _ refl, of "p @ [x]", simplified]
    by (fastforce split: if_splits)
qed

lemma climb_consistency_prefix:
  "climb tcons_l tcons_r t n i ((s, s), []) p = Some ((MerkleRoot old, MerkleRoot new), ins) \<Longrightarrow>
   length new = n \<Longrightarrow> length old = i + 2 ^ t \<Longrightarrow> 2 ^ t dvd i \<Longrightarrow> i + 2 ^ t \<le> n \<Longrightarrow>
   wf_hashes old \<Longrightarrow> wf_hashes new \<Longrightarrow> wf_hashes p \<Longrightarrow> wf_hash s \<Longrightarrow>
   inj_on sha256 (set ins \<union> set (root_inputs old) \<union> set (root_inputs new)) \<Longrightarrow>
   old = take (i + 2 ^ t) new"
proof (induction p arbitrary: n i old new ins rule: rev_induct)
  case Nil
  have small: "n \<le> 2 ^ t"
    using Nil(1) by (auto simp: climb.simps [of tcons_l tcons_r t n] split: if_splits)
  then have eq: "MerkleRoot old = MerkleRoot new" "i = 0" "n = 2 ^ t"
    using Nil(1,5) by (auto simp: climb.simps [of tcons_l tcons_r t n] split: if_splits)
  have "old = new"
  proof (rule root_same_length)
    show "inj_on sha256 (set (root_inputs old) \<union> set (root_inputs new))"
      using Nil(10) by (rule inj_on_subset) auto
  qed (use eq Nil(2,3,6,7) in simp_all)
  with eq Nil(2) show ?case by simp
next
  case (snoc x p)
  have big: "\<not> n \<le> 2 ^ t"
    using snoc.prems(1) by (auto simp: climb.simps [of tcons_l tcons_r t n])
  have "(1::nat) \<le> 2 ^ t" by simp
  with big have n1: "1 < n" by linarith
  define k where k: "k = largestPowerOfTwoBelow n"
  have kn: "k < n" "n \<le> 2 * k" "0 < k" using lp2_bounds [OF n1] k by auto
  obtain j where j: "k = 2 ^ j" using lp2_power [OF n1] k by metis
  have tk: "2 ^ t \<le> k" using lp2_ge_block [of t n] big k by simp
  then have "t \<le> j" unfolding j by simp
  then have tkd: "2 ^ t dvd k" unfolding j by (rule le_imp_power_dvd)
  have new1: "1 < length new" "k = largestPowerOfTwoBelow (length new)" using n1 snoc.prems(2) k by auto
  note rnew = MerkleRoot_split [OF new1] root_inputs_split [OF new1]
  note eq = snoc.prems(1) [unfolded climb_split [OF big _ k, of "p @ [x]", simplified]]
  have wf: "wf_hash x" "wf_hashes p" "wf_hashes (take k new)" "wf_hashes (drop k new)"
    "wf_hashes (take k old)" "wf_hashes (drop k old)"
    using snoc.prems(6-8) by simp_all
  show ?case
  proof (cases "i < k")
    case True
    then obtain a b jns where c: "climb tcons_l tcons_r t k i ((s, s), []) p = Some ((a, b), jns)"
        "MerkleRoot old = a" "MerkleRoot new = interiorHash b x" "ins = (interiorPrefix # b @ x) # jns"
      using eq by auto
    have wb: "wf_hash b" using climb_tcons_wf [OF c(1) snoc.prems(9)] by simp
    have "b = MerkleRoot (take k new) \<and> x = MerkleRoot (drop k new)"
    proof (rule interior_inject [OF snoc.prems(10)])
      show "interiorHash b x = interiorHash (MerkleRoot (take k new)) (MerkleRoot (drop k new))"
        using c(3) by (simp only: rnew)
    qed (use wb wf in \<open>simp_all add: c(4) rnew\<close>)
    with c have c': "climb tcons_l tcons_r t k i ((s, s), []) p
        = Some ((MerkleRoot old, MerkleRoot (take k new)), jns)" by simp
    have ik: "i + 2 ^ t \<le> k" using tkd True snoc.prems(4) by (rule dvd_block_le)
    have "inj_on sha256 (set jns \<union> set (root_inputs old) \<union> set (root_inputs (take k new)))"
      using snoc.prems(10) by (rule inj_on_subset) (auto simp: c(4) rnew)
    from snoc.IH [OF c' _ snoc.prems(3,4) ik snoc.prems(6) wf(3,2) snoc.prems(9) this]
    have "old = take (i + 2 ^ t) (take k new)" using kn(1) snoc.prems(2) by simp
    with ik show ?thesis by (simp add: min_def)
  next
    case False
    then obtain a b jns where c: "climb tcons_l tcons_r t (n - k) (i - k) ((s, s), []) p = Some ((a, b), jns)"
        "MerkleRoot old = interiorHash x a" "MerkleRoot new = interiorHash x b"
        "ins = (interiorPrefix # x @ a) # (interiorPrefix # x @ b) # jns"
      using eq by auto
    have lo: "k < length old" "length old \<le> 2 * k"
      using False snoc.prems(3,5) kn(2) \<open>1 \<le> 2 ^ t\<close> by linarith+
    have "largestPowerOfTwoBelow (length old) = k" using lo unfolding j by (intro lp2_unique)
    then have old1: "1 < length old" "k = largestPowerOfTwoBelow (length old)" using lo kn(3) by simp_all
    note rold = MerkleRoot_split [OF old1] root_inputs_split [OF old1]
    have "x = MerkleRoot (take k new) \<and> b = MerkleRoot (drop k new)"
    proof (rule interior_inject [OF snoc.prems(10)])
      show "interiorHash x b = interiorHash (MerkleRoot (take k new)) (MerkleRoot (drop k new))"
        using c(3) by (simp only: rnew)
    qed (use wf in \<open>simp_all add: c(4) rnew\<close>)
    moreover have "x = MerkleRoot (take k old) \<and> a = MerkleRoot (drop k old)"
    proof (rule interior_inject [OF snoc.prems(10)])
      show "interiorHash x a = interiorHash (MerkleRoot (take k old)) (MerkleRoot (drop k old))"
        using c(2) by (simp only: rold)
    qed (use wf in \<open>simp_all add: c(4) rold\<close>)
    ultimately have e: "MerkleRoot (take k old) = MerkleRoot (take k new)"
      and c': "climb tcons_l tcons_r t (n - k) (i - k) ((s, s), []) p
        = Some ((MerkleRoot (drop k old), MerkleRoot (drop k new)), jns)"
      using c(1) by auto
    have tkeq: "take k old = take k new"
    proof (rule root_same_length [OF _ _ _ _ e])
      show "inj_on sha256 (set (root_inputs (take k old)) \<union> set (root_inputs (take k new)))"
        using snoc.prems(10) by (rule inj_on_subset) (auto simp: rnew rold)
    qed (use wf lo kn(1) snoc.prems(2) in simp_all)
    have "inj_on sha256 (set jns \<union> set (root_inputs (drop k old)) \<union> set (root_inputs (drop k new)))"
      using snoc.prems(10) by (rule inj_on_subset) (auto simp: c(4) rnew rold)
    from snoc.IH [OF c' _ _ _ _ wf(6,4,2) snoc.prems(9) this]
    have "drop k old = take (i - k + 2 ^ t) (drop k new)"
      using False snoc.prems(2-5) tkd by (simp add: dvd_diff_nat)
    then have "drop k old = drop k (take (i + 2 ^ t) new)"
      using False by (simp add: drop_take)
    moreover have "take k old = take k (take (i + 2 ^ t) new)"
      using tkeq False by (simp add: min_def)
    ultimately show ?thesis by (metis append_take_drop_id)
  qed
qed

lemma VerifyConsistency_sound:
  assumes v: "VerifyConsistency (int (length old)) (int (length new)) (MerkleRoot old) (MerkleRoot new) p"
    and wf: "wf_hashes old" "wf_hashes new" "wf_hashes p"
  shows "old = take (length old) new
    \<or> \<not> inj_on sha256 (set (consistency_inputs (int (length old)) (int (length new)) (MerkleRoot old) p
                 @ root_inputs old @ root_inputs new))"
proof -
  have "length old \<le> length new" using v by (auto simp: VerifyConsistency_def split: if_splits)
  then consider "old = []" | "length old = length new" "old \<noteq> []"
    | "0 < length old" "length old < length new"
    by (cases "old = []") force+
  then show ?thesis
  proof cases
    case 1
    then show ?thesis by simp
  next
    case 2
    with v have "MerkleRoot old = MerkleRoot new" by (auto simp: VerifyConsistency_def split: if_splits)
    with 2 wf have "old = new" if "inj_on sha256 (set (root_inputs old) \<union> set (root_inputs new))"
      using that by (intro root_same_length)
    moreover have "set (root_inputs old) \<union> set (root_inputs new) \<subseteq> set (X @ root_inputs old @ root_inputs new)"
      for X by auto
    ultimately show ?thesis using 2 by (metis inj_on_subset take_all_iff order_refl)
  next
    case 3
    obtain t u where tu: "length old = 2 ^ t * u" "odd u" using odd_part_ex [OF 3(1)] by blast
    have le: "2 ^ t \<le> length old" using 3(1) tu(1) by (simp add: dvd_imp_le)
    from v [unfolded VerifyConsistency_iff [OF 3 tu]] obtain seed rest where
      p: "p = (if length old = 2 ^ t then [] else [seed]) @ rest"
      and s: "length old = 2 ^ t \<longrightarrow> seed = MerkleRoot old"
      and c: "climb cons_l cons_r t (length new) (length old - 2 ^ t) (seed, seed) rest
        = Some (MerkleRoot old, MerkleRoot new)" by blast
    have "map_option fst (climb tcons_l tcons_r t (length new) (length old - 2 ^ t) ((seed, seed), []) rest)
        = Some (MerkleRoot old, MerkleRoot new)"
      using c by (subst climb_project [where l' = cons_l and r' = cons_r])
        (auto simp: tcons_l_def tcons_r_def)
    then obtain ins where t: "climb tcons_l tcons_r t (length new) (length old - 2 ^ t) ((seed, seed), []) rest
        = Some ((MerkleRoot old, MerkleRoot new), ins)" by auto
    have i: "2 ^ t dvd length old - 2 ^ t" "length old - 2 ^ t + 2 ^ t \<le> length new"
      using le 3(2) tu(1) by (simp_all add: dvd_diff_nat)
    have "(length old - 2 ^ t) div 2 ^ t = u - 1"
      unfolding tu(1) by (simp add: diff_mult_distrib2 [symmetric, of "2 ^ t" u 1, simplified])
    with walk_climb [OF t i]
    have w: "walk tcons_l tcons_r rest (u - 1) ((length new - 1) div 2 ^ t) ((seed, seed), [])
        = Some (0, (MerkleRoot old, MerkleRoot new), ins)" by simp
    have nat: "nat (int (length old) - 1) = length old - 1" "nat (int (length new) - 1) = length new - 1"
      by linarith+
    have "u - 1 \<noteq> 0 \<longleftrightarrow> length old \<noteq> 2 ^ t" using tu odd_pos [OF tu(2)] by auto
    then have ins: "consistency_inputs (int (length old)) (int (length new)) (MerkleRoot old) p = ins"
      using w s p unfolding consistency_inputs_def nat climb_odd_block [OF tu]
      by (cases "length old = 2 ^ t") simp_all
    have wr: "wf_hashes rest" using wf(3) p by (auto split: if_splits)
    have ws: "wf_hash seed" using s p wf by (cases "length old = 2 ^ t") (auto simp del: list_all_iff)
    show ?thesis
    proof (cases "inj_on sha256 (set ins \<union> set (root_inputs old) \<union> set (root_inputs new))")
      case True
      from climb_consistency_prefix [OF t refl _ i wf(1,2) wr ws True] le show ?thesis by simp
    next
      case False
      then show ?thesis by (simp add: ins Un_assoc)
    qed
  qed
qed

end
