(* ===== verification/Merkle_Properties.thy ===== *)
theory Merkle_Properties
  imports Merkle_Consistency Merkle_Compact
begin

text \<open>
  What the tree of \<^verbatim>\<open>merkle.go\<close> promises, stated over its own functions: what proofs are issued
  and accepted, what an accepted proof binds, what a tree head binds. The statements that rest on
  SHA-256 name the byte strings hashed: the claim holds, or two of them collide.
\<close>

lemma MerkleRoot_pair: "MerkleRoot [x, y] = interiorHash x y"
proof -
  have "largestPowerOfTwoBelow (length [x, y]) = 1"
    by (simp add: largestPowerOfTwoBelow_def pow2_loop.simps)
  then show ?thesis
    by (subst MerkleRoot.simps) (simp add: MerkleRoot.simps [of "[_]"])
qed

section \<open>The length of a proof\<close>

lemma lp2_half: "1 < n \<Longrightarrow> n \<le> 2 ^ Suc d \<Longrightarrow> largestPowerOfTwoBelow n \<le> 2 ^ d"
proof -
  assume n: "1 < n" "n \<le> 2 ^ Suc d"
  obtain j where j: "largestPowerOfTwoBelow n = 2 ^ j" using lp2_power [OF n(1)] by blast
  have "(2::nat) ^ j < 2 ^ Suc d" using lp2_less [OF n(1)] n(2) unfolding j by linarith
  then have "j < Suc d" by (simp del: power_Suc)
  then show ?thesis by (simp add: j)
qed

lemma length_inclusionPath: "length hs \<le> 2 ^ d \<Longrightarrow> length (inclusionPath hs i) \<le> d"
proof (induction hs arbitrary: d i rule: length_induct_split)
  case (3 hs k)
  have "d \<noteq> 0" using 3(1,5) by (cases d) auto
  then obtain e where d: "d = Suc e" by (cases d) auto
  have "k \<le> 2 ^ e" using lp2_half [OF 3(1)] 3(2,5) d by simp
  moreover have "length hs - k \<le> k" using lp2_double [OF 3(1)] 3(2) by simp
  ultimately have "length (inclusionPath (take k hs) i) \<le> e"
    "length (inclusionPath (drop k hs) (i - k)) \<le> e"
    by (auto intro!: 3(3,4))
  then show ?case by (simp add: inclusionPath_split [OF 3(1,2)] d)
qed (simp_all add: inclusionPath.simps [of "[]"] inclusionPath.simps [of "[_]"])

section \<open>What a head binds\<close>

function head_inputs :: "bytes list \<Rightarrow> bytes list" where
  "head_inputs es =
     (if length es = 0 then [[]]
      else if length es = 1 then [leafPrefix # es ! 0]
      else let k = largestPowerOfTwoBelow (length es) in
        (interiorPrefix # MerkleRoot (map LeafHash (take k es)) @ MerkleRoot (map LeafHash (drop k es)))
          # head_inputs (take k es) @ head_inputs (drop k es))"
  by pat_completeness auto
termination
proof (relation "measure length", goal_cases)
  case (2 es x)
  then have "largestPowerOfTwoBelow (length es) < length es"
    by (intro lp2_less) linarith
  with 2 show ?case by simp
next
  case (3 es x)
  with lp2_pos_always [of "length es"] show ?case by (cases es) auto
qed simp

declare head_inputs.simps [simp del]

lemma head_inputs_small [simp]: "head_inputs [] = [[]]" "head_inputs [e] = [leafPrefix # e]"
  by (simp_all add: head_inputs.simps)

lemma head_inputs_split:
  "1 < length es \<Longrightarrow> k = largestPowerOfTwoBelow (length es) \<Longrightarrow>
   head_inputs es = (interiorPrefix # MerkleRoot (map LeafHash (take k es)) @ MerkleRoot (map LeafHash (drop k es)))
     # head_inputs (take k es) @ head_inputs (drop k es)"
  by (subst head_inputs.simps) (auto simp: Let_def)

text \<open>The byte string whose SHA-256 the head is comes first.\<close>

lemma head_inputs_hd: "head_inputs es \<noteq> [] \<and> MerkleRoot (map LeafHash es) = sha256 (hd (head_inputs es))"
proof (induction es rule: length_induct_split)
  case (3 es k)
  with MerkleRoot_split [of "map LeafHash es" k] show ?case
    by (simp add: head_inputs_split [OF 3(1,2)] interiorHash_def take_map drop_map)
qed (simp_all add: EmptyRoot_def LeafHash_def MerkleRoot.simps [of "[_]"])

lemma list_012_cases:
  obtains "xs = []" | x where "xs = [x]" | "1 < length xs"
  by (cases xs rule: remdups_adj.cases) auto

lemma wf_leaves [simp]: "wf_hashes (map LeafHash es)"
  by (simp add: list_all_iff)

lemma hd_head_inputs:
  assumes "inj_on sha256 (set (head_inputs es) \<union> set (head_inputs es'))"
    and "MerkleRoot (map LeafHash es) = MerkleRoot (map LeafHash es')"
  shows "hd (head_inputs es) = hd (head_inputs es')"
proof (rule inj_onD [OF assms(1)])
  show "sha256 (hd (head_inputs es)) = sha256 (hd (head_inputs es'))"
    using assms(2) head_inputs_hd by metis
  show "hd (head_inputs es) \<in> set (head_inputs es) \<union> set (head_inputs es')"
    "hd (head_inputs es') \<in> set (head_inputs es) \<union> set (head_inputs es')"
    using head_inputs_hd [of es] head_inputs_hd [of es'] by (simp_all add: hd_in_set)
qed

lemma head_inputs_long: "1 < length es \<Longrightarrow> \<exists>x. hd (head_inputs es) = interiorPrefix # x"
  by (subst head_inputs.simps) (auto simp: Let_def)

lemma head_inject:
  "inj_on sha256 (set (head_inputs es) \<union> set (head_inputs es')) \<Longrightarrow>
   MerkleRoot (map LeafHash es) = MerkleRoot (map LeafHash es') \<Longrightarrow> es = es'"
proof (induction es arbitrary: es' rule: length_induct_split)
  case 1
  have "hd (head_inputs es') = []" using hd_head_inputs [OF 1] by simp
  with head_inputs_long [of es'] show ?case by (cases es' rule: list_012_cases) auto
next
  case (2 e)
  have "hd (head_inputs es') = leafPrefix # e" using hd_head_inputs [OF 2] by simp
  with head_inputs_long [of es'] show ?case
    by (cases es' rule: list_012_cases) (auto simp: leafPrefix_def interiorPrefix_def)
next
  case (3 es k)
  have hd: "hd (head_inputs es') = hd (head_inputs es)" by (rule hd_head_inputs [OF 3(5,6), symmetric])
  show ?case
  proof (cases "1 < length es'")
    case True
    define k' where "k' = largestPowerOfTwoBelow (length es')"
    note s = head_inputs_split [OF 3(1,2)] head_inputs_split [OF True k'_def]
    have "length (MerkleRoot (map LeafHash xs)) = 32" for xs
      using wf_MerkleRoot [OF wf_leaves [of xs]] by (simp add: wf_hash_def)
    with hd have "MerkleRoot (map LeafHash (take k es)) = MerkleRoot (map LeafHash (take k' es'))"
      "MerkleRoot (map LeafHash (drop k es)) = MerkleRoot (map LeafHash (drop k' es'))"
      by (simp_all add: s)
    moreover have "inj_on sha256 (set (head_inputs (take k es)) \<union> set (head_inputs (take k' es')))"
      "inj_on sha256 (set (head_inputs (drop k es)) \<union> set (head_inputs (drop k' es')))"
      using 3(5) by (auto simp: s elim!: inj_on_subset)
    ultimately have "take k es = take k' es'" "drop k es = drop k' es'"
      using 3(3) [of "take k' es'"] 3(4) [of "drop k' es'"] by simp_all
    then show ?thesis by (metis append_take_drop_id)
  next
    case False
    with hd head_inputs_long [OF 3(1)] show ?thesis
      by (cases es' rule: list_012_cases) (auto simp: leafPrefix_def interiorPrefix_def)
  qed
qed

section \<open>Properties\<close>

text \<open>A tree head binds the whole ledger behind it: two lists of entries with the same
  \<^verbatim>\<open>MerkleRoot\<close> over their leaf hashes are the same list, of whatever lengths, or two of the byte
  strings hashed on the way collide under SHA-256. The 0x00/0x01 prefixes are what makes it hold
  across lengths.\<close>

theorem head_binds_entries:
  assumes "MerkleRoot (map LeafHash es) = MerkleRoot (map LeafHash es')"
  shows "es = es' \<or> collision (head_inputs es @ head_inputs es')"
  using head_inject [OF _ assms] by (simp add: collision_iff) blast

theorem head_binds_entries_witness:
  "[''a'', ''b'', ''c''] = [''a'', ''b'', ''c'']
   \<or> collision (head_inputs [''a'', ''b'', ''c''] @ head_inputs [''a'', ''b'', ''c''])"
  by (rule head_binds_entries) (rule refl)

text \<open>Every position of a tree has an inclusion proof, the verifier accepts it against the
  tree's head, and it is no longer than the depth of the tree (\<open>d\<close> hashes for up to
  \<open>2 ^ d\<close> leaves).\<close>

theorem inclusion_proof_issued:
  assumes "0 \<le> index" "index < int (length leaves)" "length leaves \<le> 2 ^ d"
  shows "\<exists>proof. InclusionProof leaves index = Inr proof
    \<and> VerifyInclusion (leaves ! nat index) index (int (length leaves)) proof (MerkleRoot leaves)
    \<and> length proof \<le> d"
proof -
  have "InclusionProof leaves index = Inr (inclusionPath leaves (nat index))"
    using assms by (simp add: InclusionProof_def)
  with VerifyInclusion_complete [OF assms(1,2) this] length_inclusionPath [OF assms(3)]
  show ?thesis by blast
qed

theorem inclusion_proof_issued_witness:
  "\<exists>proof. InclusionProof [LeafHash ''a'', LeafHash ''b'', LeafHash ''c''] 2 = Inr proof
    \<and> VerifyInclusion ([LeafHash ''a'', LeafHash ''b'', LeafHash ''c''] ! nat 2) 2
        (int (length [LeafHash ''a'', LeafHash ''b'', LeafHash ''c''])) proof
        (MerkleRoot [LeafHash ''a'', LeafHash ''b'', LeafHash ''c''])
    \<and> length proof \<le> 2"
  by (rule inclusion_proof_issued) simp_all

text \<open>C14: An accepted inclusion proof tells the truth: against the head of a tree and its size,
  the verifier accepts only the leaf really at that index, with the one path the tree issues for
  it, or two of the byte strings hashed (by the verifier or in the tree) collide.\<close>

theorem inclusion_proof_binds_leaf:
  assumes "VerifyInclusion leaf index (int (length leaves)) proof (MerkleRoot leaves)"
    and "wf_hash leaf" "wf_hashes leaves" "wf_hashes proof"
  shows "leaf = leaves ! nat index \<and> InclusionProof leaves index = Inr proof
    \<or> collision (inclusion_inputs leaf index (int (length leaves)) proof @ root_inputs leaves)"
proof -
  from assms(1) have "\<not> (index < 0 \<or> int (length leaves) \<le> index)"
    by (auto simp: VerifyInclusion_def split: if_splits)
  with VerifyInclusion_sound [OF assms] show ?thesis
    unfolding InclusionProof_def collision_iff by auto
qed

theorem inclusion_proof_binds_leaf_witness:
  "LeafHash ''b'' = [LeafHash ''a'', LeafHash ''b''] ! nat 1
     \<and> InclusionProof [LeafHash ''a'', LeafHash ''b''] 1 = Inr [LeafHash ''a'']
   \<or> collision (inclusion_inputs (LeafHash ''b'') 1 (int (length [LeafHash ''a'', LeafHash ''b'']))
       [LeafHash ''a''] @ root_inputs [LeafHash ''a'', LeafHash ''b''])"
proof (rule inclusion_proof_binds_leaf)
  show "VerifyInclusion (LeafHash ''b'') 1 (int (length [LeafHash ''a'', LeafHash ''b'']))
      [LeafHash ''a''] (MerkleRoot [LeafHash ''a'', LeafHash ''b''])"
    by (simp add: VerifyInclusion_def MerkleRoot_pair MerkleRoot.simps [of "[_]"] climb_even.simps)
qed simp_all

text \<open>For every two sizes of one history the node has a consistency proof, and the verifier
  accepts it against the heads of the two prefixes.\<close>

theorem consistency_proof_issued:
  assumes "m \<le> n" "n \<le> length leaves"
  shows "\<exists>proof. ConsistencyProof leaves (int m) (int n) = Inr proof
    \<and> VerifyConsistency (int m) (int n) (MerkleRoot (take m leaves)) (MerkleRoot (take n leaves)) proof"
proof -
  from assms obtain p where p: "ConsistencyProof leaves (int m) (int n) = Inr p"
    by (cases "ConsistencyProof leaves (int m) (int n)") (auto simp: ConsistencyProof_def split: if_splits)
  with VerifyConsistency_complete [OF p] show ?thesis by blast
qed

theorem consistency_proof_issued_witness:
  "\<exists>proof. ConsistencyProof [LeafHash ''a'', LeafHash ''b'', LeafHash ''c''] (int 2) (int 3) = Inr proof
    \<and> VerifyConsistency (int 2) (int 3)
        (MerkleRoot (take 2 [LeafHash ''a'', LeafHash ''b'', LeafHash ''c'']))
        (MerkleRoot (take 3 [LeafHash ''a'', LeafHash ''b'', LeafHash ''c''])) proof"
  by (rule consistency_proof_issued) simp_all

text \<open>C15: A consistency proof the verifier accepts between the heads of two histories shows that
  the older is a prefix of the newer: nothing was altered, dropped, reordered or inserted before
  it, or two of the byte strings hashed collide.\<close>

theorem consistency_proof_binds_prefix:
  assumes "VerifyConsistency (int (length old)) (int (length new)) (MerkleRoot old) (MerkleRoot new) proof"
    and "wf_hashes old" "wf_hashes new" "wf_hashes proof"
  shows "old = take (length old) new
    \<or> collision (consistency_inputs (int (length old)) (int (length new)) (MerkleRoot old) proof
                 @ root_inputs old @ root_inputs new)"
  unfolding collision_iff by (rule VerifyConsistency_sound [OF assms])

theorem consistency_proof_binds_prefix_witness:
  "[LeafHash ''a''] = take (length [LeafHash ''a'']) [LeafHash ''a'', LeafHash ''b'']
    \<or> collision (consistency_inputs (int (length [LeafHash ''a'']))
         (int (length [LeafHash ''a'', LeafHash ''b''])) (MerkleRoot [LeafHash ''a'']) [LeafHash ''b'']
       @ root_inputs [LeafHash ''a''] @ root_inputs [LeafHash ''a'', LeafHash ''b''])"
proof (rule consistency_proof_binds_prefix)
  show "VerifyConsistency (int (length [LeafHash ''a''])) (int (length [LeafHash ''a'', LeafHash ''b'']))
     (MerkleRoot [LeafHash ''a'']) (MerkleRoot [LeafHash ''a'', LeafHash ''b'']) [LeafHash ''b'']"
    by (simp add: VerifyConsistency_def MerkleRoot_pair MerkleRoot.simps [of "[_]"] climb_even.simps climb_odd.simps)
qed simp_all

text \<open>C24: The compact tree the node keeps in memory is the tree over the whole history: appending
  any list of leaves to the empty tree never reads outside its node array (the Go code does not
  panic), counts them, and its root is \<^verbatim>\<open>MerkleRoot\<close> of the list.\<close>

theorem compact_tree_refines:
  "\<exists>t. ct_append_all ct_empty leaves = Some t \<and> ct_size t = length leaves
    \<and> ct_Root t = MerkleRoot leaves"
proof -
  obtain t where "ct_append_all ct_empty leaves = Some t" "ct_repr t leaves" "ct_Root t = MerkleRoot leaves"
    using ct.rebuild [of leaves] by auto
  then show ?thesis by (auto simp: ct_repr_def)
qed

end
