(* ===== verification/Verify_Proofs.thy ===== *)
theory Verify_Proofs
  imports Verify Merkle_Properties
begin

text \<open>
  What the verifier's loops compute: which entries a completed walk has read, which tree heads it
  remembered, what the checkpoint and countersignature counts count.
\<close>

section \<open>The walk\<close>

abbreviation decoded :: "bytes list \<Rightarrow> entry list \<Rightarrow> bool" where
  "decoded raws es \<equiv> list_all2 (\<lambda>raw e. Unmarshal_Entry raw = Some e) raws es"

abbreviation invalid_approval :: "ed25519 \<Rightarrow> entry \<Rightarrow> bool" where
  "invalid_approval ed e \<equiv> en_approver e \<noteq> None
     \<and> snd (approval_Verify ed (en_approver e) (en_node e) (en_session e)) \<noteq> None"

text \<open>The fields the walk does not touch.\<close>

definition same_report :: "report \<Rightarrow> report \<Rightarrow> bool" where
  "same_report r r' \<longleftrightarrow> rp_total r' = rp_total r \<and> rp_chain_intact r' = rp_chain_intact r
     \<and> rp_checkpoints r' = rp_checkpoints r \<and> rp_checkpoints_valid r' = rp_checkpoints_valid r
     \<and> rp_key_available r' = rp_key_available r \<and> rp_merkle_mismatches r' = rp_merkle_mismatches r
     \<and> rp_witnesses r' = rp_witnesses r \<and> rp_witnesses_valid r' = rp_witnesses_valid r
     \<and> rp_succession_failure r' = rp_succession_failure r"

lemma same_report_refl [simp]: "same_report r r"
  by (simp add: same_report_def)

lemma same_report_trans: "same_report a b \<Longrightarrow> same_report b c \<Longrightarrow> same_report a c"
  by (simp add: same_report_def)

lemma check_entry_approver:
  "same_report r (check_entry_approver ed e r)"
  "rp_approvals_invalid (check_entry_approver ed e r)
     = rp_approvals_invalid r + (if invalid_approval ed e then 1 else 0)"
  by (auto simp: check_entry_approver_def same_report_def Let_def split: option.splits)

lemma verify_walk_Walked:
  "verify_walk ed want i raws w = Walked w' \<Longrightarrow> ct_repr (wk_tree w) hs \<Longrightarrow> length hs = i \<Longrightarrow>
   \<exists>es. decoded raws es \<and> chained i (wk_prev w) es
     \<and> wk_by_hash w' = rev (map (\<lambda>e. (Entry_Hash e, e)) es) @ wk_by_hash w
     \<and> (\<forall>n. al_get (wk_root_at w') n =
          (if n \<in> set want \<and> i < n \<and> n \<le> i + length raws
           then Some (MerkleRoot (hs @ map LeafHash (take (n - i) raws))) else al_get (wk_root_at w) n))
     \<and> ct_repr (wk_tree w') (hs @ map LeafHash raws)
     \<and> same_report (wk_report w) (wk_report w')
     \<and> rp_approvals_invalid (wk_report w')
         = rp_approvals_invalid (wk_report w) + length (filter (invalid_approval ed) es)"
proof (induction raws arbitrary: i w hs)
  case Nil
  then show ?case by auto
next
  case (Cons raw raws)
  from Cons.prems(1) obtain e tree where
    e: "Unmarshal_Entry raw = Some e" "en_seq e = Suc i" "en_prev e = wk_prev w"
    and tree: "ct_Append (wk_tree w) (LeafHash raw) = Some tree"
    and w': "verify_walk ed want (Suc i) raws
      \<lparr>wk_prev = Entry_Hash e, wk_by_hash = (Entry_Hash e, e) # wk_by_hash w,
       wk_root_at = (if Suc i \<in> set want then (Suc i, ct_Root tree) # wk_root_at w else wk_root_at w),
       wk_tree = tree, wk_report = check_entry_approver ed e (wk_report w)\<rparr> = Walked w'"
    by (auto split: option.splits if_splits)
  have repr: "ct_repr tree (hs @ [LeafHash raw])" using ct.app_repr [OF Cons.prems(2) tree] .
  have root: "ct_Root tree = MerkleRoot (hs @ [LeafHash raw])" using ct.head_repr [OF repr] .
  from Cons.IH [OF w', of "hs @ [LeafHash raw]"] repr Cons.prems(3) obtain es where
    es: "decoded raws es" "chained (Suc i) (Entry_Hash e) es"
      "wk_by_hash w' = rev (map (\<lambda>e. (Entry_Hash e, e)) es) @ (Entry_Hash e, e) # wk_by_hash w"
      "ct_repr (wk_tree w') ((hs @ [LeafHash raw]) @ map LeafHash raws)"
    and ra: "\<forall>n. al_get (wk_root_at w') n =
          (if n \<in> set want \<and> Suc i < n \<and> n \<le> Suc i + length raws
           then Some (MerkleRoot ((hs @ [LeafHash raw]) @ map LeafHash (take (n - Suc i) raws)))
           else al_get (if Suc i \<in> set want then (Suc i, ct_Root tree) # wk_root_at w else wk_root_at w) n)"
    and rp: "same_report (check_entry_approver ed e (wk_report w)) (wk_report w')"
      "rp_approvals_invalid (wk_report w') = rp_approvals_invalid (check_entry_approver ed e (wk_report w))
         + length (filter (invalid_approval ed) es)"
    by auto
  have "al_get (wk_root_at w') n =
          (if n \<in> set want \<and> i < n \<and> n \<le> i + length (raw # raws)
           then Some (MerkleRoot (hs @ map LeafHash (take (n - i) (raw # raws)))) else al_get (wk_root_at w) n)" for n
  proof (cases "n \<le> Suc i")
    case True
    then show ?thesis using ra root by (cases "n = Suc i") auto
  next
    case False
    then have "take (n - i) (raw # raws) = raw # take (n - Suc i) raws"
      by (simp add: take_Cons')
    with False show ?thesis using ra by (simp del: take_Suc_Cons)
  qed
  moreover have "same_report (wk_report w) (wk_report w')"
    using check_entry_approver(1) rp(1) by (rule same_report_trans)
  ultimately show ?case
    using e es rp(2) by (intro exI [of _ "e # es"]) (auto simp: check_entry_approver(2))
qed

lemma verify_walk_no_panic:
  "ct_repr (wk_tree w) hs \<Longrightarrow> verify_walk ed want i raws w \<noteq> Panicked"
proof (induction raws arbitrary: i w hs)
  case (Cons raw raws)
  obtain tree where t: "ct_Append (wk_tree w) (LeafHash raw) = Some tree"
    using ct.app_total [OF Cons.prems] by auto
  from Cons.IH ct.app_repr [OF Cons.prems t] t show ?case by (auto split: option.splits)
qed simp

lemma verify_walk_complete:
  "decoded raws es \<Longrightarrow> chained i (wk_prev w) es \<Longrightarrow> ct_repr (wk_tree w) hs \<Longrightarrow>
   \<exists>w'. verify_walk ed want i raws w = Walked w'"
proof (induction raws es arbitrary: i w hs rule: list_all2_induct)
  case (Cons raw raws e es)
  obtain tree where t: "ct_Append (wk_tree w) (LeafHash raw) = Some tree"
    using ct.app_total [OF Cons.prems(2)] by auto
  from Cons ct.app_repr [OF Cons.prems(2) t] t show ?case by auto
qed simp

lemma verify_walk_broken:
  "verify_walk ed want i raws w = Broken r \<Longrightarrow> \<not> rp_chain_intact r"
  by (induction ed want i raws w rule: verify_walk.induct)
    (auto simp: brokenReport_def split: option.splits if_splits)

section \<open>The checkpoints\<close>

definition cp_valid :: "ed25519 \<Rightarrow> key_timeline \<Rightarrow> walk_state \<Rightarrow> checkpoint_row \<Rightarrow> bool" where
  "cp_valid ed t w c \<longleftrightarrow> (\<exists>e. al_get (wk_by_hash w) (cp_head_hash c) = Some e \<and> en_seq e = cp_seq c)
     \<and> signing_Verify ed (KeyAt t (cp_seq c)) (cp_signature c)
         (checkpointPayload (cp_seq c) (cp_head_hash c) (cp_merkle_root c)) = None"

definition cp_agrees :: "walk_state \<Rightarrow> checkpoint_row \<Rightarrow> bool" where
  "cp_agrees w c \<longleftrightarrow> cp_merkle_root c = []
     \<or> (\<exists>h. al_get (wk_root_at w) (cp_seq c) = Some h \<and> hash_String h = cp_merkle_root c)"

lemma check_checkpoint_counts:
  "rp_checkpoints_valid (check_checkpoint ed t w c r)
     = rp_checkpoints_valid r + (if cp_valid ed t w c then 1 else 0)"
  "rp_merkle_mismatches (check_checkpoint ed t w c r)
     = rp_merkle_mismatches r + (if cp_valid ed t w c \<and> \<not> cp_agrees w c then 1 else 0)"
  "rp_total (check_checkpoint ed t w c r) = rp_total r"
  "rp_chain_intact (check_checkpoint ed t w c r) = rp_chain_intact r"
  "rp_checkpoints (check_checkpoint ed t w c r) = rp_checkpoints r"
  "rp_key_available (check_checkpoint ed t w c r) = rp_key_available r"
  "rp_approvals_invalid (check_checkpoint ed t w c r) = rp_approvals_invalid r"
  "rp_succession_failure (check_checkpoint ed t w c r) = rp_succession_failure r"
  "rp_merkle_root (check_checkpoint ed t w c r) = rp_merkle_root r"
  "rp_timeline (check_checkpoint ed t w c r) = rp_timeline r"
  by (auto simp: check_checkpoint_def cp_valid_def cp_agrees_def Let_def split: option.splits)

lemma fold_check_checkpoint:
  "rp_checkpoints_valid (fold (check_checkpoint ed t w) cs r)
     = rp_checkpoints_valid r + length (filter (cp_valid ed t w) cs)"
  "rp_merkle_mismatches (fold (check_checkpoint ed t w) cs r)
     = rp_merkle_mismatches r + length (filter (\<lambda>c. cp_valid ed t w c \<and> \<not> cp_agrees w c) cs)"
  "rp_total (fold (check_checkpoint ed t w) cs r) = rp_total r"
  "rp_chain_intact (fold (check_checkpoint ed t w) cs r) = rp_chain_intact r"
  "rp_checkpoints (fold (check_checkpoint ed t w) cs r) = rp_checkpoints r"
  "rp_key_available (fold (check_checkpoint ed t w) cs r) = rp_key_available r"
  "rp_approvals_invalid (fold (check_checkpoint ed t w) cs r) = rp_approvals_invalid r"
  "rp_succession_failure (fold (check_checkpoint ed t w) cs r) = rp_succession_failure r"
  "rp_merkle_root (fold (check_checkpoint ed t w) cs r) = rp_merkle_root r"
  "rp_timeline (fold (check_checkpoint ed t w) cs r) = rp_timeline r"
  by (induction cs arbitrary: r) (simp_all add: check_checkpoint_counts)

section \<open>A verification that completed\<close>

lemma filter_length_all: "length (filter P xs) = length xs \<longleftrightarrow> (\<forall>x \<in> set xs. P x)"
  by (metis filter_True length_filter_less less_irrefl)

definition start_walk :: "report \<Rightarrow> walk_state" where
  "start_walk r = \<lparr>wk_prev = [], wk_by_hash = [], wk_root_at = [], wk_tree = ct_empty, wk_report = r\<rparr>"

definition start_report :: "nat \<Rightarrow> string \<Rightarrow> nat \<Rightarrow> report" where
  "start_report n pub k =
     (let r = zero_report\<lparr>rp_total := n, rp_chain_intact := True\<rparr>;
          r = (if pub \<noteq> [] then r\<lparr>rp_key_available := True, rp_fingerprint := Fingerprint pub\<rparr> else r)
      in r\<lparr>rp_checkpoints := k\<rparr>)"

lemma start_report_fields [simp]:
  "rp_total (start_report n pub k) = n" "rp_chain_intact (start_report n pub k)"
  "rp_key_available (start_report n pub k) \<longleftrightarrow> pub \<noteq> []" "rp_checkpoints (start_report n pub k) = k"
  "rp_checkpoints_valid (start_report n pub k) = 0" "rp_merkle_mismatches (start_report n pub k) = 0"
  "rp_witnesses (start_report n pub k) = 0" "rp_witnesses_valid (start_report n pub k) = 0"
  "rp_approvals_invalid (start_report n pub k) = 0" "rp_succession_failure (start_report n pub k) = None"
  by (auto simp: start_report_def zero_report_def Let_def)

lemma Verify_unfold:
  assumes "LedgerEntries (io 0) 1 0 db = Inr raws" "LedgerCheckpoints (io 1) db = Inr cps"
  shows "Verify ed io db pub =
    (case verify_walk ed (map cp_seq cps) 0 raws (start_walk (start_report (length raws) pub (length cps))) of
       Broken r \<Rightarrow> Some (Inr r)
     | Panicked \<Rightarrow> None
     | Walked w \<Rightarrow>
         (let r = (wk_report w)\<lparr>rp_merkle_root := hash_String (ct_Root (wk_tree w))\<rparr> in
          if \<not> rp_key_available r then Some (Inr r)
          else (case LedgerSuccessions (io 2) db of
                  Inl e \<Rightarrow> Some (Inl (SuccessionsNotRead r e))
                | Inr successions \<Rightarrow>
                    (case BuildKeyTimeline ed successions pub of
                       Inl e \<Rightarrow> Some (Inr (r\<lparr>rp_succession_failure := Some e\<rparr>))
                     | Inr t \<Rightarrow>
                         (let r = r\<lparr>rp_timeline := kt_segments t, rp_rotations := kt_rotations t\<rparr>;
                              r = fold (check_checkpoint ed t w) cps r;
                              (n, v) = verifyWitnesses ed (io 3) (io 4) db cps (wk_root_at w)
                          in Some (Inr (r\<lparr>rp_witnesses := n, rp_witnesses_valid := v\<rparr>)))))))"
  unfolding Verify_def assms sum.case Let_def start_walk_def start_report_def by (rule refl)

end
