(* ===== verification/Verify_Sound.thy ===== *)
theory Verify_Sound
  imports Verify_Proofs
begin

text \<open>
  Soundness and completeness of the offline verification: what a report that is sound says about the
  stored bytes, and that a ledger the node itself wrote is reported sound.
\<close>

section \<open>What a sound report says\<close>

lemma hash_String_inject [simp]: "hash_String a = hash_String b \<longleftrightarrow> a = b"
  by (simp add: hash_String_def)

lemma Verify_Sound_walk:
  assumes v: "Verify ed io db pub = Some (Inr r)" and s: "Report_Sound r"
  obtains raws cps w where
    "LedgerEntries False 1 0 db = Inr raws" "LedgerCheckpoints False db = Inr cps"
    "verify_walk ed (map cp_seq cps) 0 raws (start_walk (start_report (length raws) pub (length cps))) = Walked w"
    "rp_total r = length raws" "rp_merkle_root r = hash_String (MerkleRoot (map LeafHash raws))"
    "pub \<noteq> [] \<Longrightarrow> \<exists>rows t. LedgerSuccessions False db = Inr rows \<and> BuildKeyTimeline ed rows pub = Inr t
       \<and> (\<forall>c \<in> set cps. cp_valid ed t w c \<and> cp_agrees w c)"
    "rp_approvals_invalid r = rp_approvals_invalid (wk_report w)"
proof -
  obtain raws where raws: "LedgerEntries (io 0) 1 0 db = Inr raws"
    using v by (cases "LedgerEntries (io 0) 1 0 db") (simp_all add: Verify_def)
  obtain cps where cps: "LedgerCheckpoints (io 1) db = Inr cps"
    using v unfolding Verify_def raws sum.case Let_def by (cases "LedgerCheckpoints (io 1) db") simp_all
  have raws': "LedgerEntries False 1 0 db = Inr raws"
    using raws by (cases "io 0") (simp_all add: LedgerEntries_def)
  have cps': "LedgerCheckpoints False db = Inr cps"
    using cps by (cases "io 1") (simp_all add: LedgerCheckpoints_def)
  let ?w0 = "start_walk (start_report (length raws) pub (length cps))"
  let ?walk = "verify_walk ed (map cp_seq cps) 0 raws ?w0"
  note u = v [unfolded Verify_unfold [OF raws cps]]
  obtain w where w: "?walk = Walked w"
  proof (cases ?walk)
    case (Broken r')
    with u have "r = r'" by simp
    with verify_walk_broken [OF Broken] s show ?thesis by (simp add: Report_Sound_def)
  next
    case Panicked
    with u show ?thesis by simp
  qed (use that in blast)
  have repr: "ct_repr (wk_tree ?w0) []" by (simp add: start_walk_def ct.repr_new)
  from verify_walk_Walked [OF w repr list.size(3)] have facts: "ct_repr (wk_tree w) (map LeafHash raws)"
    "same_report (wk_report ?w0) (wk_report w)" by auto
  have root: "ct_Root (wk_tree w) = MerkleRoot (map LeafHash raws)" using ct.head_repr [OF facts(1)] .
  have rep: "rp_key_available (wk_report w) \<longleftrightarrow> pub \<noteq> []" "rp_total (wk_report w) = length raws"
    "rp_checkpoints (wk_report w) = length cps" "rp_checkpoints_valid (wk_report w) = 0"
    "rp_merkle_mismatches (wk_report w) = 0"
    using facts(2) by (simp_all add: same_report_def start_walk_def)
  let ?r1 = "(wk_report w)\<lparr>rp_merkle_root := hash_String (ct_Root (wk_tree w))\<rparr>"
  show ?thesis
  proof (cases "pub = []")
    case True
    then have "r = ?r1" using u rep(1) unfolding w walked.case Let_def by simp
    then show ?thesis by (intro that [OF raws' cps' w]) (use True rep root in simp_all)
  next
    case False
    then have u2: "(case LedgerSuccessions (io 2) db of
                  Inl e \<Rightarrow> Some (Inl (SuccessionsNotRead ?r1 e))
                | Inr successions \<Rightarrow>
                    (case BuildKeyTimeline ed successions pub of
                       Inl e \<Rightarrow> Some (Inr (?r1\<lparr>rp_succession_failure := Some e\<rparr>))
                     | Inr t \<Rightarrow>
                         (let r = ?r1\<lparr>rp_timeline := kt_segments t, rp_rotations := kt_rotations t\<rparr>;
                              r = fold (check_checkpoint ed t w) cps r;
                              (n, v) = verifyWitnesses ed (io 3) (io 4) db cps (wk_root_at w)
                          in Some (Inr (r\<lparr>rp_witnesses := n, rp_witnesses_valid := v\<rparr>))))) = Some (Inr r)"
      using u unfolding w walked.case Let_def by (simp add: rep)
    obtain rows where rows: "LedgerSuccessions (io 2) db = Inr rows"
      using u2 by (cases "LedgerSuccessions (io 2) db") simp_all
    have rows': "LedgerSuccessions False db = Inr rows"
      using rows by (cases "io 2") (simp_all add: LedgerSuccessions_def)
    obtain t where t: "BuildKeyTimeline ed rows pub = Inr t"
    proof (cases "BuildKeyTimeline ed rows pub")
      case (Inl e)
      with u2 rows have "rp_succession_failure r = Some e" by auto
      with s show ?thesis by (simp add: Report_Sound_def)
    qed (use that in blast)
    obtain n k where nk: "verifyWitnesses ed (io 3) (io 4) db cps (wk_root_at w) = (n, k)" by fastforce
    define r2 where "r2 = fold (check_checkpoint ed t w) cps
      (?r1\<lparr>rp_timeline := kt_segments t, rp_rotations := kt_rotations t\<rparr>)"
    have r: "r = r2\<lparr>rp_witnesses := n, rp_witnesses_valid := k\<rparr>"
      using u2 unfolding rows sum.case t nk Let_def prod.case r2_def by simp
    have r2: "rp_checkpoints_valid r2 = length (filter (cp_valid ed t w) cps)"
      "rp_merkle_mismatches r2 = length (filter (\<lambda>c. cp_valid ed t w c \<and> \<not> cp_agrees w c) cps)"
      "rp_checkpoints r2 = length cps" "rp_key_available r2" "rp_total r2 = length raws"
      "rp_merkle_root r2 = hash_String (ct_Root (wk_tree w))"
      "rp_approvals_invalid r2 = rp_approvals_invalid (wk_report w)"
      unfolding r2_def using False by (simp_all add: fold_check_checkpoint rep)
    have "length (filter (cp_valid ed t w) cps) = length cps"
      "length (filter (\<lambda>c. cp_valid ed t w c \<and> \<not> cp_agrees w c) cps) = 0"
      using s r2 by (simp_all add: r Report_Sound_def)
    then have "\<forall>c \<in> set cps. cp_valid ed t w c \<and> cp_agrees w c"
      unfolding filter_length_all length_0_conv filter_empty_conv by blast
    with rows' t r2 show ?thesis
      by (intro that [OF raws' cps' w]) (simp_all add: r root)
  qed
qed

lemma Sound_entries:
  assumes v: "Verify ed io db pub = Some (Inr r)" and s: "Report_Sound r"
  shows "\<exists>raws es. LedgerEntries False 1 0 db = Inr raws \<and> decoded raws es \<and> chained 0 [] es
    \<and> rp_total r = length es \<and> rp_merkle_root r = hash_String (MerkleRoot (map LeafHash raws))
    \<and> (\<forall>e \<in> set es. \<not> invalid_approval ed e)"
proof (rule Verify_Sound_walk [OF v s], goal_cases)
  case (1 raws cps w)
  note a = 1(1,3,4,5,7)
  have repr: "ct_repr (wk_tree (start_walk (start_report (length raws) pub (length cps)))) []"
    by (simp add: start_walk_def ct.repr_new)
  from verify_walk_Walked [OF a(2) repr list.size(3)] obtain es where es: "decoded raws es"
    "chained 0 (wk_prev (start_walk (start_report (length raws) pub (length cps)))) es"
    "rp_approvals_invalid (wk_report w)
      = rp_approvals_invalid (wk_report (start_walk (start_report (length raws) pub (length cps))))
        + length (filter (invalid_approval ed) es)"
    by blast
  have "filter (invalid_approval ed) es = []"
    using s a(5) es(3) by (simp add: Report_Sound_def start_walk_def)
  then have "\<forall>e \<in> set es. \<not> invalid_approval ed e" unfolding filter_empty_conv .
  moreover have "chained 0 [] es" using es(2) by (simp add: start_walk_def)
  ultimately show ?thesis
    using a(1,3,4) es(1) list_all2_lengthD [OF es(1)] by (intro exI [of _ raws] exI [of _ es]) simp
qed

lemma Sound_checkpoint:
  assumes v: "Verify ed io db pub = Some (Inr r)" and s: "Report_Sound r" and pub: "pub \<noteq> []"
    and c: "c \<in> set (db_checkpoints db)" and root: "cp_merkle_root c \<noteq> []"
  shows "\<exists>raws rows t. LedgerEntries False 1 0 db = Inr raws
    \<and> LedgerSuccessions False db = Inr rows \<and> BuildKeyTimeline ed rows pub = Inr t
    \<and> 0 < cp_seq c \<and> cp_seq c \<le> length raws
    \<and> cp_merkle_root c = hash_String (MerkleRoot (map LeafHash (take (cp_seq c) raws)))
    \<and> signing_Verify ed (KeyAt t (cp_seq c)) (cp_signature c)
         (checkpointPayload (cp_seq c) (cp_head_hash c) (cp_merkle_root c)) = None"
proof (rule Verify_Sound_walk [OF v s], goal_cases)
  case (1 raws cps w)
  note a = 1(1,2,3) 1(6) [OF pub]
  have "c \<in> set cps" using a(2) c by (auto simp: LedgerCheckpoints_def)
  with a(4) obtain rows t where t: "LedgerSuccessions False db = Inr rows" "BuildKeyTimeline ed rows pub = Inr t"
    "cp_valid ed t w c" "cp_agrees w c" by blast
  have repr: "ct_repr (wk_tree (start_walk (start_report (length raws) pub (length cps)))) []"
    by (simp add: start_walk_def ct.repr_new)
  have ra: "al_get (wk_root_at w) n = (if n \<in> set (map cp_seq cps) \<and> 0 < n \<and> n \<le> length raws
      then Some (MerkleRoot (map LeafHash (take n raws))) else None)" for n
    using verify_walk_Walked [OF a(3) repr list.size(3)] by (elim exE conjE) (simp add: start_walk_def)
  from t(4) root obtain h where "al_get (wk_root_at w) (cp_seq c) = Some h" "hash_String h = cp_merkle_root c"
    by (auto simp: cp_agrees_def)
  with ra [of "cp_seq c"] have "0 < cp_seq c" "cp_seq c \<le> length raws"
    "cp_merkle_root c = hash_String (MerkleRoot (map LeafHash (take (cp_seq c) raws)))"
    by (auto split: if_splits)
  with a(1) t show ?thesis by (auto simp: cp_valid_def)
qed

section \<open>An honest ledger is sound\<close>

text \<open>
  The countersignatures a node has stored are over heads it checkpointed, and the key timeline gives
  for each checkpoint the key it was signed with.
\<close>

definition countersigned_ok :: "ed25519 \<Rightarrow> string \<Rightarrow> ledger_db \<Rightarrow> bool" where
  "countersigned_ok ed node db \<longleftrightarrow>
     list_all (\<lambda>row. node \<noteq> []
       \<and> list_ex (\<lambda>c. cp_seq c = wr_seq row \<and> cp_merkle_root c = wr_merkle_root row) (db_checkpoints db)
       \<and> signing_Verify ed (wr_witness_key row) (wr_signature row)
            (witnessPayload node (wr_seq row) (wr_merkle_root row)) = None) (db_witnesses db)"

lemma decoded_Marshal: "list_all entry_ok es \<Longrightarrow> decoded (map Marshal_Entry es) es"
  by (induction es) (auto simp: Entry_roundtrip)

lemma al_get_rev_map:
  "distinct (map f es) \<Longrightarrow> e \<in> set es \<Longrightarrow> al_get (rev (map (\<lambda>e. (f e, e)) es)) (f e) = Some e"
  unfolding al_get_eq_map_of by (rule map_of_is_SomeI) (auto simp: rev_map [symmetric] comp_def)

lemma decoded_unique: "decoded raws es \<Longrightarrow> decoded raws es' \<Longrightarrow> es = es'"
proof (induction raws es arbitrary: es' rule: list_all2_induct)
  case (Cons raw raws e es)
  then obtain x xs where "es' = x # xs" "Unmarshal_Entry raw = Some x" "decoded raws xs"
    unfolding list_all2_Cons1 by blast
  with Cons.hyps Cons.IH [of xs] show ?case by simp
qed simp

lemma LedgerEntries_first:
  "LedgerEntries False 1 0 db = Inr raws \<Longrightarrow> LedgerEntries False 1 1 db = Inr (take 1 raws)"
  by (auto simp: LedgerEntries_def Let_def)

lemma Verify_honest:
  assumes i: "db_inv ed node db es" and ok: "list_all entry_ok es"
    and t: "BuildKeyTimeline ed (sort_key su_seq (db_successions db)) pub = Inr t"
    and k: "\<forall>c \<in> set (db_checkpoints db). KeyAt t (cp_seq c) = cp_pubkey c"
    and cw: "countersigned_ok ed node db"
  shows "\<exists>r. Verify ed (\<lambda>_. False) db pub = Some (Inr r) \<and> Report_Sound r \<and> rp_total r = length es
    \<and> rp_merkle_root r = hash_String (MerkleRoot (leaves es))
    \<and> rp_timeline r = kt_segments t \<and> rp_checkpoints_valid r = length (db_checkpoints db)"
proof -
  let ?raws = "map Marshal_Entry es"
  define cps where "cps = sort_key cp_seq (db_checkpoints db)"
  have raws: "LedgerEntries False 1 0 db = Inr ?raws" using db_inv_entries [OF i] .
  have cps: "LedgerCheckpoints False db = Inr cps" by (simp add: LedgerCheckpoints_def cps_def)
  have set_cps: "set cps = set (db_checkpoints db)" "length cps = length (db_checkpoints db)"
    by (simp_all add: cps_def)
  let ?w0 = "start_walk (start_report (length ?raws) pub (length cps))"
  have repr: "ct_repr (wk_tree ?w0) []" by (simp add: start_walk_def ct.repr_new)
  have ch: "chained 0 [] es" "distinct (map Entry_Hash es)" using i by (simp_all add: db_inv_def)
  obtain w where w: "verify_walk ed (map cp_seq cps) 0 ?raws ?w0 = Walked w"
    using verify_walk_complete [OF decoded_Marshal [OF ok] _ repr, of 0] ch(1)
    by (metis start_walk_def walk_state.select_convs(1))
  from verify_walk_Walked [OF w repr list.size(3)] obtain es' where es': "decoded ?raws es'"
    and bh: "wk_by_hash w = rev (map (\<lambda>e. (Entry_Hash e, e)) es')"
    and ra: "\<forall>n. al_get (wk_root_at w) n = (if n \<in> set (map cp_seq cps) \<and> 0 < n \<and> n \<le> length ?raws
      then Some (MerkleRoot (map LeafHash (take n ?raws))) else None)"
    and tr: "ct_repr (wk_tree w) (map LeafHash ?raws)"
    and rep: "same_report (wk_report ?w0) (wk_report w)"
      "rp_approvals_invalid (wk_report w) = length (filter (invalid_approval ed) es')"
    by (elim exE conjE) (simp add: start_walk_def)
  have es: "es' = es" using decoded_unique [OF es' decoded_Marshal [OF ok]] .
  have lv: "map LeafHash ?raws = leaves es" "map LeafHash (take n ?raws) = leaves (take n es)" for n
    by (simp_all add: leaves_def take_map comp_def)
  have inval: "filter (invalid_approval ed) es = []"
  proof -
    have "\<not> invalid_approval ed e" if "e \<in> set es" for e
    proof -
      have "authorized ed e" using i that by (simp add: db_inv_def list_all_iff)
      then show ?thesis by (cases "en_approver e") (simp_all add: authorized_def)
    qed
    then show ?thesis unfolding filter_empty_conv by blast
  qed
  have pub: "pub \<noteq> []" using t by (auto simp: BuildKeyTimeline_def)
  have ok_cp: "cp_valid ed t w c \<and> cp_agrees w c" if "c \<in> set cps" for c
  proof -
    have c: "checkpoint_ok ed es c" "KeyAt t (cp_seq c) = cp_pubkey c"
      using that i k set_cps(1) by (auto simp: db_inv_def list_all_iff)
    let ?e = "es ! (cp_seq c - 1)"
    have "cp_seq c - 1 < length es" using c(1) by (auto simp: checkpoint_ok_def)
    then have "al_get (wk_by_hash w) (Entry_Hash ?e) = Some ?e" "en_seq ?e = cp_seq c"
      using al_get_rev_map [OF ch(2)] chained_nth [OF ch(1)] c(1)
      by (auto simp: bh es checkpoint_ok_def)
    then show ?thesis
      using c that ra by (auto simp: cp_valid_def cp_agrees_def checkpoint_ok_def lv)
  qed
  have node: "witnessedNodeID False db = node" if "es \<noteq> []"
  proof -
    obtain e xs where e: "es = e # xs" using \<open>es \<noteq> []\<close> by (cases es) auto
    then have "Unmarshal_Entry (Marshal_Entry e) = Some e" "en_node e = node"
      using ok i by (simp_all add: Entry_roundtrip db_inv_def)
    with e LedgerEntries_first [OF raws] show ?thesis by (simp add: witnessedNodeID_def)
  qed
  have ok_w: "witness_valid ed (wk_root_at w) (if cps \<noteq> [] then witnessedNodeID False db else []) row"
    if row: "row \<in> set (db_witnesses db)" for row
  proof -
    obtain c where c: "c \<in> set cps" "cp_seq c = wr_seq row" "cp_merkle_root c = wr_merkle_root row"
      and s: "node \<noteq> []" "signing_Verify ed (wr_witness_key row) (wr_signature row)
            (witnessPayload node (wr_seq row) (wr_merkle_root row)) = None"
      using cw row set_cps(1) by (auto simp: countersigned_ok_def list_all_iff list_ex_iff)
    have ck: "checkpoint_ok ed es c" using c(1) i set_cps(1) by (auto simp: db_inv_def list_all_iff)
    then have "es \<noteq> []" by (auto simp: checkpoint_ok_def)
    moreover have "wr_seq row \<in> set (map cp_seq cps)" using c(1,2) by force
    ultimately show ?thesis using node c s ck ra
      by (auto simp: witness_valid_def checkpoint_ok_def lv split: option.split)
  qed
  let ?r = "(wk_report w)\<lparr>rp_merkle_root := hash_String (ct_Root (wk_tree w)),
      rp_timeline := kt_segments t, rp_rotations := kt_rotations t\<rparr>"
  let ?r2 = "fold (check_checkpoint ed t w) cps ?r"
  obtain n v where nv: "verifyWitnesses ed False False db cps (wk_root_at w) = (n, v)" by fastforce
  have "n = v"
  proof -
    have "set (sort_key wr_seq (sort_key wr_witness_key (db_witnesses db))) = set (db_witnesses db)" by simp
    then have "\<forall>row \<in> set (sort_key wr_seq (sort_key wr_witness_key (db_witnesses db))).
        witness_valid ed (wk_root_at w) (if cps \<noteq> [] then witnessedNodeID False db else []) row"
      using ok_w by blast
    from this [folded filter_length_all] nv show ?thesis
      by (auto simp: verifyWitnesses_def LedgerWitnesses_def Let_def simp del: length_sort)
  qed
  have V: "Verify ed (\<lambda>_. False) db pub = Some (Inr (?r2\<lparr>rp_witnesses := n, rp_witnesses_valid := v\<rparr>))"
  proof -
    have ka: "rp_key_available (wk_report w)" using rep(1) pub by (simp add: same_report_def start_walk_def)
    have ls: "LedgerSuccessions False db = Inr (sort_key su_seq (db_successions db))"
      by (simp add: LedgerSuccessions_def)
    show ?thesis
      unfolding Verify_unfold [where io = "\<lambda>_. False", OF raws cps] w walked.case Let_def ls sum.case t nv prod.case
      by (simp add: ka)
  qed
  have cnt: "length (filter (cp_valid ed t w) cps) = length cps"
    "filter (\<lambda>c. cp_valid ed t w c \<and> \<not> cp_agrees w c) cps = []"
    using ok_cp by (auto simp: filter_length_all filter_empty_conv)
  have root: "ct_Root (wk_tree w) = MerkleRoot (leaves es)"
    using ct.head_repr [OF tr] by (simp only: lv)
  show ?thesis
    using V rep cnt root inval es \<open>n = v\<close> set_cps(2)
    by (auto simp: Report_Sound_def fold_check_checkpoint same_report_def start_walk_def)
qed

end
