(* ===== verification/Witness.thy ===== *)
theory Witness
  imports Verify_Sound
begin

text \<open>
  \<^verbatim>\<open>kernel/internal/ledger/witness.go\<close> and \<^verbatim>\<open>witnesslog.go\<close>: a node that vouches for the heads of
  others, and its own append-only log of what it vouched for. \<^verbatim>\<open>Countersign\<close> takes the witness's
  mutex only inside \<^verbatim>\<open>admit\<close> and around the log append, so it is modelled as two phases, the checks
  and the commit; one handler alone runs the one after the other.
\<close>

definition uint_to_int :: "nat \<Rightarrow> int" where
  "uint_to_int n = (if int n < 2 ^ 63 then int n else int n - 2 ^ 64)"

record wit_statement =
  ws_node :: string
  ws_seq :: nat
  ws_head_hash :: string
  ws_merkle_root :: string
  ws_pubkey :: string
  ws_signature :: string
  ws_from_seq :: nat
  ws_consistency :: "string list"

record countersignature =
  cs_witness_key :: string
  cs_signature :: string
  cs_ts :: int
  cs_log_seq :: nat

section \<open>The node's side\<close>

datatype statement_error =
    NothingToWitness | SeenMoreThanHeld | NoCheckpoint checkpoint_error | CheckpointNotRead
  | ProofEntries db_error | ProofTooShort | ProofFailed proof_error

definition ledger_consistencyProof :: "bool \<Rightarrow> ledger_db \<Rightarrow> nat \<Rightarrow> nat \<Rightarrow> statement_error + string list" where
  "ledger_consistencyProof fault db m n =
     (case LedgerEntries fault 1 0 db of
        Inl e \<Rightarrow> Inl (ProofEntries e)
      | Inr entries \<Rightarrow>
          if length entries < n then Inl ProofTooShort
          else (case ConsistencyProof (map LeafHash entries) (uint_to_int m) (uint_to_int n) of
                  Inl e \<Rightarrow> Inl (ProofFailed e)
                | Inr proof \<Rightarrow> Inr (map hash_String proof)))"

definition ledger_Statement ::
  "ed25519 \<Rightarrow> (nat \<Rightarrow> bool) \<Rightarrow> (nat \<Rightarrow> int) \<Rightarrow> nat \<Rightarrow> ledger_state
   \<Rightarrow> ledger_state \<times> (statement_error + wit_statement)" where
  "ledger_Statement ed io now fromSeq s =
     (let h = Head (fst s) in
      if hd_seq h = 0 then (s, Inl NothingToWitness)
      else if fromSeq > hd_seq h then (s, Inl SeenMoreThanHeld)
      else (case LastCheckpoint (io 0) (snd s) of
              Inl e \<Rightarrow> (s, Inl CheckpointNotRead)
            | Inr cp \<Rightarrow>
                (let ready = (case cp of None \<Rightarrow> False | Some c \<Rightarrow> cp_seq c = hd_seq h);
                     (s, err) = (if ready then (s, None) else Checkpoint ed (\<lambda>k. io (Suc k)) now s) in
                 case err of
                   Some e \<Rightarrow> (s, Inl (NoCheckpoint e))
                 | None \<Rightarrow>
                     (case (if ready then Inr cp else LastCheckpoint (io 3) (snd s)) of
                        Inl _ \<Rightarrow> (s, Inl CheckpointNotRead)
                      | Inr None \<Rightarrow> (s, Inl CheckpointNotRead)
                      | Inr (Some c) \<Rightarrow>
                          (let st = \<lparr>ws_node = hd_node h, ws_seq = hd_seq h, ws_head_hash = hd_head_hash h,
                                     ws_merkle_root = hd_merkle_root h, ws_pubkey = hd_pubkey h,
                                     ws_signature = cp_signature c, ws_from_seq = 0, ws_consistency = []\<rparr> in
                           if 0 < fromSeq \<and> fromSeq < hd_seq h
                           then (case ledger_consistencyProof (io 4) (snd s) fromSeq (hd_seq h) of
                                   Inl e \<Rightarrow> (s, Inl e)
                                 | Inr proof \<Rightarrow>
                                     (s, Inr (st\<lparr>ws_from_seq := fromSeq, ws_consistency := proof\<rparr>)))
                           else (s, Inr st))))))"

section \<open>The witness\<close>

record witness_limits =
  wm_max_nodes :: int
  wm_per_node_per_hour :: int
  wm_min_growth :: nat
  wm_retention_days :: int

definition DefaultWitnessLimits :: witness_limits where
  "DefaultWitnessLimits = \<lparr>wm_max_nodes = 10000, wm_per_node_per_hour = 12, wm_min_growth = 0,
     wm_retention_days = 90\<rparr>"

record witness =
  wi_keys :: keypair
  wi_limits :: witness_limits
  wi_open :: bool
  wi_rate :: "(string \<times> int list) list"
  wi_tree :: compact_tree
  wi_log_size :: nat

type_synonym witness_state = "witness \<times> ledger_db"

record witness_record =
  we_seq :: nat
  we_node :: string
  we_node_seq :: nat
  we_merkle_root :: string
  we_node_pubkey :: string
  we_signature :: string
  we_ts :: int

definition record_json :: "witness_record \<Rightarrow> json" where
  "record_json r =
     JObj [(''seq'', JNum (dec_nat (we_seq r))), (''node'', JStr (we_node r)),
           (''node_seq'', JNum (dec_nat (we_node_seq r))), (''merkle_root'', JStr (we_merkle_root r)),
           (''node_pubkey'', JStr (we_node_pubkey r)), (''signature'', JStr (we_signature r)),
           (''ts'', JNum (dec_int (we_ts r)))]"

definition record_marshal :: "witness_record \<Rightarrow> bytes" where
  "record_marshal r = json_print (record_json r)"

datatype record_field = RSeq | RNode | RNodeSeq | RRoot | RPubkey | RSignature | RTs

definition record_table :: "(string \<times> record_field) list" where
  "record_table = [(''seq'', RSeq), (''node'', RNode), (''node_seq'', RNodeSeq), (''merkle_root'', RRoot),
     (''node_pubkey'', RPubkey), (''signature'', RSignature), (''ts'', RTs)]"

definition set_record :: "witness_record \<Rightarrow> string \<times> json \<Rightarrow> witness_record option" where
  "set_record r m =
     (case field_of record_table (fst m) of
        None \<Rightarrow> Some r
      | Some RSeq \<Rightarrow> map_option (\<lambda>n. r\<lparr>we_seq := n\<rparr>) (to_uint64 (snd m) (we_seq r))
      | Some RNode \<Rightarrow> map_option (\<lambda>s. r\<lparr>we_node := s\<rparr>) (to_string (snd m) (we_node r))
      | Some RNodeSeq \<Rightarrow> map_option (\<lambda>n. r\<lparr>we_node_seq := n\<rparr>) (to_uint64 (snd m) (we_node_seq r))
      | Some RRoot \<Rightarrow> map_option (\<lambda>s. r\<lparr>we_merkle_root := s\<rparr>) (to_string (snd m) (we_merkle_root r))
      | Some RPubkey \<Rightarrow> map_option (\<lambda>s. r\<lparr>we_node_pubkey := s\<rparr>) (to_string (snd m) (we_node_pubkey r))
      | Some RSignature \<Rightarrow> map_option (\<lambda>s. r\<lparr>we_signature := s\<rparr>) (to_string (snd m) (we_signature r))
      | Some RTs \<Rightarrow> map_option (\<lambda>i. r\<lparr>we_ts := i\<rparr>) (to_int64 (snd m) (we_ts r)))"

definition zero_record :: witness_record where
  "zero_record = \<lparr>we_seq = 0, we_node = [], we_node_seq = 0, we_merkle_root = [], we_node_pubkey = [],
     we_signature = [], we_ts = 0\<rparr>"

definition Unmarshal_record :: "bytes \<Rightarrow> witness_record option" where
  "Unmarshal_record raw =
     (case json_parse raw of None \<Rightarrow> None | Some v \<Rightarrow> to_struct set_record zero_record v)"

text \<open>\<^verbatim>\<open>initLog\<close>: \<open>None\<close> is the panic of a tree append, which does not happen.\<close>

fun init_log_loop :: "nat \<Rightarrow> witness_log_row list \<Rightarrow> compact_tree \<Rightarrow> (unit + compact_tree) option" where
  "init_log_loop i [] t = Some (Inr t)"
| "init_log_loop i (r # rs) t =
     (if i + 1 \<noteq> wl_seq r then Some (Inl ())
      else (case ct_Append t (LeafHash (wl_entry r)) of
              None \<Rightarrow> None | Some t \<Rightarrow> init_log_loop (i + 1) rs t))"

datatype witness_error =
    LogUnreadable db_error | LogInconsistent

definition NewWitness :: "bool \<Rightarrow> ledger_db \<Rightarrow> keypair \<Rightarrow> (witness_error + witness) option" where
  "NewWitness fault db keys =
     (case WitnessLogEntries fault 1 0 db of
        Inl e \<Rightarrow> Some (Inl (LogUnreadable e))
      | Inr rows \<Rightarrow>
          (case init_log_loop 0 rows ct_empty of
             None \<Rightarrow> None
           | Some (Inl _) \<Rightarrow> Some (Inl LogInconsistent)
           | Some (Inr t) \<Rightarrow>
               Some (Inr \<lparr>wi_keys = keys, wi_limits = DefaultWitnessLimits, wi_open = False, wi_rate = [],
                         wi_tree = t, wi_log_size = length rows\<rparr>)))"

definition witness_Open :: "witness_limits \<Rightarrow> witness \<Rightarrow> witness" where
  "witness_Open limits w = w\<lparr>wi_open := True, wi_limits := limits\<rparr>"

datatype countersign_error =
    CsNoNode | CsNoKey | CsNoRoot | CsEmpty | CsBadSignature sig_error | CsBadRoot hash_error
  | CsStore db_error | CsRateLimit | CsCapacity | CsTooSoon | CsShrunk | CsStoredRoot hash_error
  | CsBadProof hash_error | CsAnchor | CsRewritten | CsNotRecorded db_error | CsNotLogged db_error

definition admit_refused ::
  "bool \<Rightarrow> witness_limits \<Rightarrow> nat \<Rightarrow> nat \<Rightarrow> bool \<Rightarrow> nat \<Rightarrow> ledger_db \<Rightarrow> countersign_error option" where
  "admit_refused fault limits kept sq previouslySeen prevSeq db =
     (if 0 < wm_per_node_per_hour limits \<and> wm_per_node_per_hour limits \<le> int kept then Some CsRateLimit
      else if \<not> previouslySeen \<and> 0 < wm_max_nodes limits
           \<and> (case WitnessedHeadCount fault db of
                Inl _ \<Rightarrow> False | Inr count \<Rightarrow> wm_max_nodes limits \<le> int count)
      then Some CsCapacity
      else if previouslySeen \<and> 0 < wm_min_growth limits \<and> sq > prevSeq
           \<and> sq - prevSeq < wm_min_growth limits
      then Some CsTooSoon
      else None)"

definition witness_admit ::
  "bool \<Rightarrow> int \<Rightarrow> wit_statement \<Rightarrow> bool \<Rightarrow> nat \<Rightarrow> witness_state \<Rightarrow> witness \<times> countersign_error option" where
  "witness_admit fault now s previouslySeen prevSeq st =
     (let w = fst st in
      if \<not> wi_open w then (w, None)
      else
       (let window = now - 3600000000000;
            kept = filter (\<lambda>t. window < t) (case al_get (wi_rate w) (ws_node s) of None \<Rightarrow> [] | Some ts \<Rightarrow> ts)
        in case admit_refused fault (wi_limits w) (length kept) (ws_seq s) previouslySeen prevSeq (snd st) of
             Some e \<Rightarrow> (w\<lparr>wi_rate := al_put (ws_node s) kept (wi_rate w)\<rparr>, Some e)
           | None \<Rightarrow> (w\<lparr>wi_rate := al_put (ws_node s) (kept @ [now]) (wi_rate w)\<rparr>, None)))"

fun parse_proof :: "string list \<Rightarrow> hash_error + hash list" where
  "parse_proof [] = Inr []"
| "parse_proof (r # rs) =
     (case ParseHash r of
        Inl e \<Rightarrow> Inl e
      | Inr h \<Rightarrow> (case parse_proof rs of Inl e \<Rightarrow> Inl e | Inr hs \<Rightarrow> Inr (h # hs)))"

definition check_extends :: "wit_statement \<Rightarrow> hash \<Rightarrow> witnessed_head \<Rightarrow> countersign_error option" where
  "check_extends s newRoot prev =
     (if ws_seq s < wh_seq prev then Some CsShrunk
      else (case ParseHash (wh_merkle_root prev) of
              Inl e \<Rightarrow> Some (CsStoredRoot e)
            | Inr prevRoot \<Rightarrow>
                (case parse_proof (ws_consistency s) of
                   Inl e \<Rightarrow> Some (CsBadProof e)
                 | Inr proof \<Rightarrow>
                     if ws_seq s \<noteq> wh_seq prev \<and> ws_from_seq s \<noteq> wh_seq prev then Some CsAnchor
                     else if \<not> VerifyConsistency (uint_to_int (wh_seq prev)) (uint_to_int (ws_seq s))
                                  prevRoot newRoot proof then Some CsRewritten
                     else None)))"

definition countersign_check ::
  "ed25519 \<Rightarrow> (nat \<Rightarrow> bool) \<Rightarrow> int \<Rightarrow> wit_statement \<Rightarrow> witness_state \<Rightarrow> witness \<times> countersign_error option" where
  "countersign_check ed io now s st =
     (let w = fst st in
      if ws_node s = [] then (w, Some CsNoNode)
      else if ws_pubkey s = [] then (w, Some CsNoKey)
      else if ws_merkle_root s = [] then (w, Some CsNoRoot)
      else if ws_seq s = 0 then (w, Some CsEmpty)
      else (case signing_Verify ed (ws_pubkey s) (ws_signature s)
                   (checkpointPayload (ws_seq s) (ws_head_hash s) (ws_merkle_root s)) of
              Some e \<Rightarrow> (w, Some (CsBadSignature e))
            | None \<Rightarrow>
                (case ParseHash (ws_merkle_root s) of
                   Inl e \<Rightarrow> (w, Some (CsBadRoot e))
                 | Inr newRoot \<Rightarrow>
                     (case LastWitnessedHead (io 0) (ws_node s) (snd st) of
                        Inl e \<Rightarrow> (w, Some (CsStore e))
                      | Inr mprev \<Rightarrow>
                          (case witness_admit (io 1) now s (mprev \<noteq> None)
                                  (case mprev of None \<Rightarrow> 0 | Some p \<Rightarrow> wh_seq p) st of
                             (w, Some e) \<Rightarrow> (w, Some e)
                           | (w, None) \<Rightarrow>
                               (case mprev of
                                  None \<Rightarrow> (w, None)
                                | Some prev \<Rightarrow> (w, check_extends s newRoot prev)))))))"

definition appendLogLocked ::
  "bool \<Rightarrow> wit_statement \<Rightarrow> string \<Rightarrow> int \<Rightarrow> witness_state \<Rightarrow> (db_error + witness_state) option" where
  "appendLogLocked fault s sig ts st =
     (let w = fst st;
          rec = \<lparr>we_seq = wi_log_size w + 1, we_node = ws_node s, we_node_seq = ws_seq s,
                 we_merkle_root = ws_merkle_root s, we_node_pubkey = ws_pubkey s, we_signature = sig,
                 we_ts = ts\<rparr>;
          raw = record_marshal rec in
      case AppendWitnessLog fault
             \<lparr>wl_seq = we_seq rec, wl_node = we_node rec, wl_node_seq = we_node_seq rec,
              wl_merkle_root = we_merkle_root rec, wl_node_pubkey = we_node_pubkey rec,
              wl_signature = we_signature rec, wl_ts = we_ts rec, wl_entry = raw\<rparr> (snd st) of
        Inl e \<Rightarrow> Some (Inl e)
      | Inr db \<Rightarrow>
          (case ct_Append (wi_tree w) (LeafHash raw) of
             None \<Rightarrow> None
           | Some t \<Rightarrow> Some (Inr (w\<lparr>wi_tree := t, wi_log_size := we_seq rec\<rparr>, db))))"

definition countersign_commit ::
  "ed25519 \<Rightarrow> (nat \<Rightarrow> bool) \<Rightarrow> int \<Rightarrow> wit_statement \<Rightarrow> witness_state
   \<Rightarrow> (witness_state \<times> (countersign_error + countersignature)) option" where
  "countersign_commit ed io now s st =
     (let w = fst st; ts = unix_milli now in
      case SaveWitnessedHead (io 0) \<lparr>wh_node = ws_node s, wh_seq = ws_seq s,
             wh_merkle_root = ws_merkle_root s, wh_pubkey = ws_pubkey s, wh_ts = ts\<rparr> (snd st) of
        Inl e \<Rightarrow> Some (st, Inl (CsNotRecorded e))
      | Inr db \<Rightarrow>
          (let sig = keypair_Sign ed (wi_keys w) (witnessPayload (ws_node s) (ws_seq s) (ws_merkle_root s)) in
           case appendLogLocked (io 1) s sig ts (w, db) of
             None \<Rightarrow> None
           | Some (Inl e) \<Rightarrow> Some ((w, db), Inl (CsNotLogged e))
           | Some (Inr st) \<Rightarrow>
               Some (st, Inr \<lparr>cs_witness_key = PublicB64 (wi_keys w), cs_signature = sig, cs_ts = ts,
                             cs_log_seq = wi_log_size (fst st)\<rparr>)))"

definition Countersign ::
  "ed25519 \<Rightarrow> (nat \<Rightarrow> bool) \<Rightarrow> (nat \<Rightarrow> int) \<Rightarrow> wit_statement \<Rightarrow> witness_state
   \<Rightarrow> (witness_state \<times> (countersign_error + countersignature)) option" where
  "Countersign ed io now s st =
     (case countersign_check ed io (now 0) s st of
        (w, Some e) \<Rightarrow> Some ((w, snd st), Inl e)
      | (w, None) \<Rightarrow> countersign_commit ed (\<lambda>k. io (k + 2)) (now 1) s (w, snd st))"

definition witness_Prune :: "bool \<Rightarrow> int \<Rightarrow> witness_state \<Rightarrow> witness_state \<times> (db_error + nat)" where
  "witness_Prune fault now st =
     (if wm_retention_days (wi_limits (fst st)) \<le> 0 then (st, Inr 0)
      else (case PruneWitnessedHeads fault
                   (unix_milli (now - wm_retention_days (wi_limits (fst st)) * 86400000000000)) (snd st) of
              Inl e \<Rightarrow> (st, Inl e)
            | Inr (db, n) \<Rightarrow> ((fst st, db), Inr n)))"

definition LastSeen :: "bool \<Rightarrow> string \<Rightarrow> witness_state \<Rightarrow> db_error + nat" where
  "LastSeen fault node st =
     (case LastWitnessedHead fault node (snd st) of
        Inl e \<Rightarrow> Inl e | Inr None \<Rightarrow> Inr 0 | Inr (Some h) \<Rightarrow> Inr (wh_seq h))"

definition RecordCountersignature ::
  "ed25519 \<Rightarrow> bool \<Rightarrow> nat \<Rightarrow> string \<Rightarrow> string \<Rightarrow> countersignature \<Rightarrow> ledger_state
   \<Rightarrow> ledger_state \<times> (sig_error + db_error) option" where
  "RecordCountersignature ed fault sq merkleRoot url cs s =
     (case signing_Verify ed (cs_witness_key cs) (cs_signature cs)
             (witnessPayload (lg_node (fst s)) sq merkleRoot) of
        Some e \<Rightarrow> (s, Some (Inl e))
      | None \<Rightarrow>
          (case SaveWitness fault \<lparr>wr_seq = sq, wr_witness_key = cs_witness_key cs,
                  wr_merkle_root = merkleRoot, wr_signature = cs_signature cs, wr_url = url,
                  wr_ts = cs_ts cs\<rparr> (snd s) of
             Inl e \<Rightarrow> (s, Some (Inr e))
           | Inr db \<Rightarrow> ((fst s, db), None)))"

section \<open>The witness's own log\<close>

definition witnessLogDomain :: string where "witnessLogDomain = ''aura-witness-log-v1''"
definition witnessLastSeenDomain :: string where "witnessLastSeenDomain = ''aura-witness-lastseen-v1''"

record log_head =
  lh_witness_key :: string
  lh_size :: nat
  lh_root :: string
  lh_ts :: int
  lh_signature :: string

definition logHeadPayload :: "string \<Rightarrow> nat \<Rightarrow> string \<Rightarrow> bytes" where
  "logHeadPayload key sz root = colon witnessLogDomain (colon key (colon (dec_nat sz) root))"

datatype head_error = HeadIncomplete | HeadSignature sig_error

definition VerifyLogHead :: "ed25519 \<Rightarrow> log_head \<Rightarrow> head_error option" where
  "VerifyLogHead ed h =
     (if lh_witness_key h = [] \<or> lh_root h = [] then Some HeadIncomplete
      else map_option HeadSignature (signing_Verify ed (lh_witness_key h) (lh_signature h)
             (logHeadPayload (lh_witness_key h) (lh_size h) (lh_root h))))"

record last_seen =
  ls_witness_key :: string
  ls_node :: string
  ls_seq :: nat
  ls_merkle_root :: string
  ls_log_size :: nat
  ls_log_root :: string
  ls_ts :: int
  ls_sig :: string

definition lastSeenPayload :: "last_seen \<Rightarrow> bytes" where
  "lastSeenPayload s =
     colon witnessLastSeenDomain (colon (ls_witness_key s) (colon (ls_node s) (colon (dec_nat (ls_seq s))
       (colon (ls_merkle_root s) (colon (dec_nat (ls_log_size s)) (colon (ls_log_root s) (dec_int (ls_ts s))))))))"

datatype last_seen_error = LsNoWitness | LsNoNode | LsSignature sig_error

definition VerifyLastSeen :: "ed25519 \<Rightarrow> last_seen \<Rightarrow> last_seen_error option" where
  "VerifyLastSeen ed s =
     (if ls_witness_key s = [] then Some LsNoWitness
      else if ls_node s = [] then Some LsNoNode
      else map_option LsSignature (signing_Verify ed (ls_witness_key s) (ls_sig s) (lastSeenPayload s)))"

definition Contradicts :: "last_seen \<Rightarrow> last_seen \<Rightarrow> bool" where
  "Contradicts a b =
     (if ls_witness_key a \<noteq> ls_witness_key b \<or> ls_node a \<noteq> ls_node b then False
      else if ls_log_size a = ls_log_size b
              \<and> (ls_seq a \<noteq> ls_seq b \<or> ls_merkle_root a \<noteq> ls_merkle_root b) then True
      else (let (earlier, later) = (if ls_ts b < ls_ts a then (b, a) else (a, b))
            in ls_seq later < ls_seq earlier))"

definition witness_LogHead :: "ed25519 \<Rightarrow> int \<Rightarrow> witness \<Rightarrow> log_head" where
  "witness_LogHead ed now w =
     (let key = PublicB64 (wi_keys w); root = hash_String (ct_Root (wi_tree w)) in
      \<lparr>lh_witness_key = key, lh_size = wi_log_size w, lh_root = root, lh_ts = unix_milli now,
       lh_signature = keypair_Sign ed (wi_keys w) (logHeadPayload key (wi_log_size w) root)\<rparr>)"

definition LastSeenSigned :: "ed25519 \<Rightarrow> bool \<Rightarrow> int \<Rightarrow> string \<Rightarrow> witness_state \<Rightarrow> db_error + last_seen" where
  "LastSeenSigned ed fault now nodeID st =
     (case LastWitnessedHead fault nodeID (snd st) of
        Inl e \<Rightarrow> Inl e
      | Inr mh \<Rightarrow>
          (let w = fst st;
               s = \<lparr>ls_witness_key = PublicB64 (wi_keys w), ls_node = nodeID,
                    ls_seq = (case mh of None \<Rightarrow> 0 | Some h \<Rightarrow> wh_seq h),
                    ls_merkle_root = (case mh of None \<Rightarrow> [] | Some h \<Rightarrow> wh_merkle_root h),
                    ls_log_size = wi_log_size w, ls_log_root = hash_String (ct_Root (wi_tree w)),
                    ls_ts = unix_milli now, ls_sig = []\<rparr>
           in Inr (s\<lparr>ls_sig := keypair_Sign ed (wi_keys w) (lastSeenPayload s)\<rparr>)))"

datatype log_query_error = LqStore db_error | LqUnreadable | LqTooShort | LqNoEntry | LqProof proof_error

fun unmarshal_all :: "witness_log_row list \<Rightarrow> witness_record list option" where
  "unmarshal_all [] = Some []"
| "unmarshal_all (r # rs) =
     (case Unmarshal_record (wl_entry r) of
        None \<Rightarrow> None | Some e \<Rightarrow> map_option ((#) e) (unmarshal_all rs))"

definition LogEntries :: "bool \<Rightarrow> nat \<Rightarrow> nat \<Rightarrow> ledger_db \<Rightarrow> log_query_error + witness_record list" where
  "LogEntries fault fromSeq limit db =
     (case WitnessLogEntries fault (if fromSeq = 0 then 1 else fromSeq) limit db of
        Inl e \<Rightarrow> Inl (LqStore e)
      | Inr rows \<Rightarrow> (case unmarshal_all rows of None \<Rightarrow> Inl LqUnreadable | Some rs \<Rightarrow> Inr rs))"

definition LogConsistency :: "bool \<Rightarrow> nat \<Rightarrow> nat \<Rightarrow> ledger_db \<Rightarrow> log_query_error + string list" where
  "LogConsistency fault m n db =
     (case WitnessLogEntries fault 1 0 db of
        Inl e \<Rightarrow> Inl (LqStore e)
      | Inr rows \<Rightarrow>
          (let n = (if n = 0 then length rows else n) in
           if n > length rows then Inl LqTooShort
           else (case ConsistencyProof (map (\<lambda>r. LeafHash (wl_entry r)) rows) (uint_to_int m) (uint_to_int n) of
                   Inl e \<Rightarrow> Inl (LqProof e)
                 | Inr proof \<Rightarrow> Inr (map hash_String proof))))"

definition LogInclusion ::
  "bool \<Rightarrow> nat \<Rightarrow> ledger_db \<Rightarrow> log_query_error + (witness_record \<times> string list \<times> nat)" where
  "LogInclusion fault sq db =
     (case WitnessLogEntries fault 1 0 db of
        Inl e \<Rightarrow> Inl (LqStore e)
      | Inr rows \<Rightarrow>
          if sq = 0 \<or> sq > length rows then Inl LqNoEntry
          else (case InclusionProof (map (\<lambda>r. LeafHash (wl_entry r)) rows) (uint_to_int (sq - 1)) of
                  Inl e \<Rightarrow> Inl (LqProof e)
                | Inr proof \<Rightarrow>
                    (case Unmarshal_record (wl_entry (rows ! (sq - 1))) of
                       None \<Rightarrow> Inl LqUnreadable
                     | Some rec \<Rightarrow> Inr (rec, map hash_String proof, length rows))))"

end
