(* ===== verification/Witness_Inv.thy ===== *)
theory Witness_Inv
  imports Witness
begin

text \<open>
  The invariant of a witness: its log is numbered without a gap and its tree is the tree over the
  stored records. What each operation does to the log and to the heads it remembers.
\<close>

definition log_leaves :: "ledger_db \<Rightarrow> hash list" where
  "log_leaves db = map (\<lambda>r. LeafHash (wl_entry r)) (db_log db)"

definition log_numbered :: "ledger_db \<Rightarrow> bool" where
  "log_numbered db \<longleftrightarrow> map wl_seq (db_log db) = [1..<Suc (length (db_log db))]"

definition witness_inv :: "ed25519 \<Rightarrow> witness_state \<Rightarrow> bool" where
  "witness_inv ed st \<longleftrightarrow> ed_correct ed (wi_keys (fst st)) \<and> log_numbered (snd st)
     \<and> wi_log_size (fst st) = length (db_log (snd st)) \<and> ct_repr (wi_tree (fst st)) (log_leaves (snd st))"

definition last_head :: "string \<Rightarrow> ledger_db \<Rightarrow> witnessed_head option" where
  "last_head node db = find (\<lambda>r. wh_node r = node) (db_heads db)"

lemma LastWitnessedHead_last [simp]: "LastWitnessedHead False node db = Inr (last_head node db)"
  by (simp add: LastWitnessedHead_def last_head_def)

lemma LastWitnessedHead_Inr: "LastWitnessedHead fault node db = Inr h \<longleftrightarrow> \<not> fault \<and> h = last_head node db"
  by (auto simp: LastWitnessedHead_def last_head_def)

lemma last_head_node: "last_head node db = Some h \<Longrightarrow> wh_node h = node"
  by (auto simp: last_head_def find_Some_iff)

lemma find_filter_put:
  "find (\<lambda>r. f r = k) (filter (\<lambda>r. f r \<noteq> f h) rs @ [h]) = (if f h = k then Some h else find (\<lambda>r. f r = k) rs)"
  by (induction rs) auto

lemma last_head_put [simp]:
  "last_head k (db\<lparr>db_heads := filter (\<lambda>r. wh_node r \<noteq> wh_node h) (db_heads db) @ [h]\<rparr>)
     = (if wh_node h = k then Some h else last_head k db)"
  using find_filter_put [of wh_node k h "db_heads db"] by (simp add: last_head_def)

lemma log_simps [simp]:
  "log_leaves (db\<lparr>db_heads := hs\<rparr>) = log_leaves db" "log_numbered (db\<lparr>db_heads := hs\<rparr>) = log_numbered db"
  "log_leaves (db\<lparr>db_log := db_log db @ [r]\<rparr>) = log_leaves db @ [LeafHash (wl_entry r)]"
  "last_head k (db\<lparr>db_log := l\<rparr>) = last_head k db"
  by (simp_all add: log_leaves_def log_numbered_def last_head_def)

lemma log_numbered_append:
  "log_numbered db \<Longrightarrow> wl_seq r = Suc (length (db_log db)) \<Longrightarrow> log_numbered (db\<lparr>db_log := db_log db @ [r]\<rparr>)"
  by (simp add: log_numbered_def)

lemma log_numbered_fresh: "log_numbered db \<Longrightarrow> \<not> list_ex (\<lambda>l. wl_seq l = Suc (length (db_log db))) (db_log db)"
proof -
  assume "log_numbered db"
  then have "set (map wl_seq (db_log db)) = {1..<Suc (length (db_log db))}" by (simp add: log_numbered_def del: upt_Suc)
  then have "Suc (length (db_log db)) \<notin> set (map wl_seq (db_log db))" by simp
  then show ?thesis unfolding list_ex_iff by (metis image_eqI list.set_map)
qed

lemma log_numbered_entries: "log_numbered db \<Longrightarrow> WitnessLogEntries False 1 0 db = Inr (db_log db)"
proof -
  assume n: "log_numbered db"
  then have "sorted (map wl_seq (db_log db))" by (simp add: log_numbered_def del: upt_Suc)
  then have s: "sort_key wl_seq (db_log db) = db_log db" by (rule sort_key_id_if_sorted)
  have "set (map wl_seq (db_log db)) = {1..<Suc (length (db_log db))}"
    using n by (simp add: log_numbered_def del: upt_Suc)
  then have "\<forall>r \<in> set (db_log db). 1 \<le> wl_seq r" by force
  then show ?thesis by (simp add: WitnessLogEntries_def s)
qed

section \<open>The append\<close>

text \<open>The log record a statement and its countersignature leave.\<close>

definition logged :: "wit_statement \<Rightarrow> string \<Rightarrow> int \<Rightarrow> nat \<Rightarrow> witness_log_row" where
  "logged s sig ts n =
     \<lparr>wl_seq = n, wl_node = ws_node s, wl_node_seq = ws_seq s, wl_merkle_root = ws_merkle_root s,
      wl_node_pubkey = ws_pubkey s, wl_signature = sig, wl_ts = ts,
      wl_entry = record_marshal \<lparr>we_seq = n, we_node = ws_node s, we_node_seq = ws_seq s,
        we_merkle_root = ws_merkle_root s, we_node_pubkey = ws_pubkey s, we_signature = sig, we_ts = ts\<rparr>\<rparr>"

lemma appendLog_step:
  assumes "witness_inv ed (w, db)"
  obtains (failed) "fault" "appendLogLocked fault s sig ts (w, db) = Some (Inl DbFault)"
  | (logged) t where "\<not> fault"
      "appendLogLocked fault s sig ts (w, db) =
         Some (Inr (w\<lparr>wi_tree := t, wi_log_size := Suc (length (db_log db))\<rparr>,
                    db\<lparr>db_log := db_log db @ [logged s sig ts (Suc (length (db_log db)))]\<rparr>))"
      "witness_inv ed (w\<lparr>wi_tree := t, wi_log_size := Suc (length (db_log db))\<rparr>,
                    db\<lparr>db_log := db_log db @ [logged s sig ts (Suc (length (db_log db)))]\<rparr>)"
proof (cases fault)
  case True
  then show ?thesis using failed by (simp add: appendLogLocked_def AppendWitnessLog_def Let_def)
next
  case False
  let ?r = "logged s sig ts (Suc (length (db_log db)))"
  have i: "log_numbered db" "wi_log_size w = length (db_log db)" "ct_repr (wi_tree w) (log_leaves db)"
    "ed_correct ed (wi_keys w)"
    using assms by (simp_all add: witness_inv_def)
  obtain t where t: "ct_Append (wi_tree w) (LeafHash (wl_entry ?r)) = Some t"
    "ct_repr t (log_leaves db @ [LeafHash (wl_entry ?r)])"
    using ct_Append_repr [OF i(3)] by blast
  show ?thesis
  proof (rule logged [OF False])
    have a: "AppendWitnessLog fault ?r db = Inr (db\<lparr>db_log := db_log db @ [?r]\<rparr>)"
      using False log_numbered_fresh [OF i(1)] by (simp add: AppendWitnessLog_def logged_def)
    show "appendLogLocked fault s sig ts (w, db) =
         Some (Inr (w\<lparr>wi_tree := t, wi_log_size := Suc (length (db_log db))\<rparr>, db\<lparr>db_log := db_log db @ [?r]\<rparr>))"
      using a t(1) unfolding appendLogLocked_def by (simp add: Let_def i(2) logged_def)
    show "witness_inv ed (w\<lparr>wi_tree := t, wi_log_size := Suc (length (db_log db))\<rparr>,
                    db\<lparr>db_log := db_log db @ [?r]\<rparr>)"
      using i t(2) log_numbered_append [OF i(1), of ?r] by (simp add: witness_inv_def logged_def)
  qed
qed

section \<open>One countersignature\<close>

lemma witness_admit_keeps:
  "witness_admit fault now s seen prevSeq (w, db) = (w', e) \<Longrightarrow>
     wi_keys w' = wi_keys w \<and> wi_tree w' = wi_tree w \<and> wi_log_size w' = wi_log_size w
     \<and> wi_open w' = wi_open w \<and> wi_limits w' = wi_limits w"
  by (auto simp: witness_admit_def Let_def split: if_splits option.splits)

lemma countersign_check_keeps:
  "countersign_check ed io now s (w, db) = (w', e) \<Longrightarrow>
     wi_keys w' = wi_keys w \<and> wi_tree w' = wi_tree w \<and> wi_log_size w' = wi_log_size w
     \<and> wi_open w' = wi_open w \<and> wi_limits w' = wi_limits w"
  by (auto simp: countersign_check_def Let_def dest: witness_admit_keeps
      split: if_splits option.splits sum.splits prod.splits)

lemma countersign_check_inv:
  "witness_inv ed (w, db) \<Longrightarrow> countersign_check ed io now s (w, db) = (w', e) \<Longrightarrow> witness_inv ed (w', db)"
  using countersign_check_keeps [of ed io now s w db w' e] by (simp add: witness_inv_def)

text \<open>What the check establishes before anything is signed.\<close>

lemma countersign_check_passed:
  assumes "countersign_check ed io now s (w, db) = (w', None)"
  obtains root where "ws_node s \<noteq> []" "ws_seq s \<noteq> 0"
    "signing_Verify ed (ws_pubkey s) (ws_signature s)
       (checkpointPayload (ws_seq s) (ws_head_hash s) (ws_merkle_root s)) = None"
    "ParseHash (ws_merkle_root s) = Inr root"
    "\<And>prev. last_head (ws_node s) db = Some prev \<Longrightarrow> check_extends s root prev = None"
  using assms
  by (auto simp: countersign_check_def Let_def LastWitnessedHead_Inr
      split: if_splits option.splits sum.splits prod.splits)

definition signed_head :: "wit_statement \<Rightarrow> int \<Rightarrow> witnessed_head" where
  "signed_head s ts = \<lparr>wh_node = ws_node s, wh_seq = ws_seq s, wh_merkle_root = ws_merkle_root s,
     wh_pubkey = ws_pubkey s, wh_ts = ts\<rparr>"

definition put_head :: "witnessed_head \<Rightarrow> ledger_db \<Rightarrow> ledger_db" where
  "put_head h db = db\<lparr>db_heads := filter (\<lambda>r. wh_node r \<noteq> wh_node h) (db_heads db) @ [h]\<rparr>"

lemma put_head_simps [simp]:
  "db_log (put_head h db) = db_log db" "log_numbered (put_head h db) = log_numbered db"
  "log_leaves (put_head h db) = log_leaves db"
  "last_head k (put_head h db) = (if wh_node h = k then Some h else last_head k db)"
  by (simp_all add: put_head_def)

lemma witness_inv_put_head [simp]: "witness_inv ed (w, put_head h db) = witness_inv ed (w, db)"
  by (simp add: witness_inv_def)

definition countersigned :: "ed25519 \<Rightarrow> keypair \<Rightarrow> wit_statement \<Rightarrow> string" where
  "countersigned ed k s = keypair_Sign ed k (witnessPayload (ws_node s) (ws_seq s) (ws_merkle_root s))"

lemma countersign_commit_eq:
  "countersign_commit ed io now s (w, db) =
     (if io 0 then Some ((w, db), Inl (CsNotRecorded DbFault))
      else (case appendLogLocked (io 1) s (countersigned ed (wi_keys w) s) (unix_milli now)
                   (w, put_head (signed_head s (unix_milli now)) db) of
              None \<Rightarrow> None
            | Some (Inl e) \<Rightarrow> Some ((w, put_head (signed_head s (unix_milli now)) db), Inl (CsNotLogged e))
            | Some (Inr st) \<Rightarrow>
                Some (st, Inr \<lparr>cs_witness_key = PublicB64 (wi_keys w), cs_signature = countersigned ed (wi_keys w) s,
                   cs_ts = unix_milli now, cs_log_seq = wi_log_size (fst st)\<rparr>)))"
  unfolding countersign_commit_def SaveWitnessedHead_def put_head_def signed_head_def countersigned_def Let_def
  by (simp cong: option.case_cong sum.case_cong)

lemma countersign_commit_step:
  assumes inv: "witness_inv ed (w, db)"
    and c: "countersign_commit ed io now s (w, db) = Some ((w', db'), out)"
  obtains (refused) "out = Inl (CsNotRecorded DbFault)" "db' = db" "w' = w"
  | (unlogged) "out = Inl (CsNotLogged DbFault)" "io 1" "w' = w" "db' = put_head (signed_head s (unix_milli now)) db"
  | (signed) t where
      "out = Inr \<lparr>cs_witness_key = PublicB64 (wi_keys w), cs_signature = countersigned ed (wi_keys w) s,
                  cs_ts = unix_milli now, cs_log_seq = Suc (length (db_log db))\<rparr>"
      "w' = w\<lparr>wi_tree := t, wi_log_size := Suc (length (db_log db))\<rparr>"
      "db' = put_head (signed_head s (unix_milli now)) db
               \<lparr>db_log := db_log db @ [logged s (countersigned ed (wi_keys w) s) (unix_milli now) (Suc (length (db_log db)))]\<rparr>"
      "witness_inv ed (w', db')"
proof (cases "io 0")
  case True
  with c refused show ?thesis by (simp add: countersign_commit_eq)
next
  case False
  have i: "witness_inv ed (w, put_head (signed_head s (unix_milli now)) db)" using inv by simp
  from i show ?thesis
  proof (cases rule: appendLog_step [where fault = "io 1" and s = s
        and sig = "countersigned ed (wi_keys w) s" and ts = "unix_milli now"])
    case failed
    with c False unlogged show ?thesis unfolding countersign_commit_eq by simp
  next
    case (logged t)
    with c False signed [of t] show ?thesis unfolding countersign_commit_eq by simp
  qed
qed

lemma Countersign_eq:
  "Countersign ed io now s (w, db) =
     (case countersign_check ed io (now 0) s (w, db) of
        (w1, Some e) \<Rightarrow> Some ((w1, db), Inl e)
      | (w1, None) \<Rightarrow> countersign_commit ed (\<lambda>k. io (k + 2)) (now 1) s (w1, db))"
  unfolding Countersign_def snd_conv by (rule refl)

lemma check_error_kind: "countersign_check ed io now s st = (w, Some e) \<Longrightarrow> e \<noteq> CsNotLogged d"
  by (auto simp: countersign_check_def Let_def witness_admit_def admit_refused_def check_extends_def
      split: if_splits option.splits sum.splits prod.splits)

lemma Countersign_step:
  assumes inv: "witness_inv ed (w, db)"
    and c: "Countersign ed io now s (w, db) = Some ((w', db'), out)"
  obtains (refused) e where "out = Inl e" "\<And>d. e \<noteq> CsNotLogged d" "db' = db" "witness_inv ed (w', db')"
      "wi_keys w' = wi_keys w"
  | (unlogged) w1 where "out = Inl (CsNotLogged DbFault)" "io 3" "witness_inv ed (w', db')" "wi_keys w' = wi_keys w"
      "countersign_check ed io (now 0) s (w, db) = (w1, None)"
      "db' = put_head (signed_head s (unix_milli (now 1))) db"
  | (signed) w1 where
      "out = Inr \<lparr>cs_witness_key = PublicB64 (wi_keys w), cs_signature = countersigned ed (wi_keys w) s,
                  cs_ts = unix_milli (now 1), cs_log_seq = Suc (length (db_log db))\<rparr>"
      "countersign_check ed io (now 0) s (w, db) = (w1, None)"
      "db' = put_head (signed_head s (unix_milli (now 1))) db
               \<lparr>db_log := db_log db @ [logged s (countersigned ed (wi_keys w) s) (unix_milli (now 1)) (Suc (length (db_log db)))]\<rparr>"
      "witness_inv ed (w', db')" "wi_keys w' = wi_keys w"
proof -
  obtain w1 e where ck: "countersign_check ed io (now 0) s (w, db) = (w1, e)" by fastforce
  note inv1 = countersign_check_inv [OF inv ck]
  have keys: "wi_keys w1 = wi_keys w" using countersign_check_keeps [OF ck] by simp
  show ?thesis
  proof (cases e)
    case (Some err)
    with c ck inv1 keys check_error_kind [of ed io "now 0" s "(w, db)" w1 err]
    show ?thesis by (intro refused [of err]) (simp_all add: Countersign_eq)
  next
    case None
    have c1: "countersign_commit ed (\<lambda>k. io (k + 2)) (now 1) s (w1, db) = Some ((w', db'), out)"
      using c ck None by (simp add: Countersign_eq)
    from inv1 c1 show ?thesis
    proof (cases rule: countersign_commit_step)
      case refused
      with that(1) inv1 keys show ?thesis by simp
    next
      case unlogged
      with that(2) inv1 keys ck None show ?thesis by (simp add: eval_nat_numeral)
    next
      case (signed t)
      with that(3) keys ck None show ?thesis by simp
    qed
  qed
qed

lemma Countersign_total:
  assumes "witness_inv ed (w, db)"
  shows "\<exists>w' db' out. Countersign ed io now s (w, db) = Some ((w', db'), out)"
proof -
  obtain w1 e where ck: "countersign_check ed io (now 0) s (w, db) = (w1, e)" by fastforce
  note inv1 = countersign_check_inv [OF assms ck]
  have "countersign_commit ed io' t s (w1, db) \<noteq> None" for io' t
  proof -
    have "witness_inv ed (w1, put_head (signed_head s (unix_milli t)) db)" using inv1 by simp
    then show ?thesis
      by (cases rule: appendLog_step [where fault = "io' 1" and s = s
            and sig = "countersigned ed (wi_keys w1) s" and ts = "unix_milli t"])
        (simp_all add: countersign_commit_eq)
  qed
  then obtain r where "countersign_commit ed (\<lambda>k. io (k + 2)) (now 1) s (w1, db) = Some r" by blast
  with ck show ?thesis by (cases r; cases e) (auto simp: Countersign_eq)
qed

section \<open>Starting a witness\<close>

lemma init_log_loop_repr:
  assumes "ct_repr t hs" "length hs = i" "map wl_seq rows = [Suc i..<Suc (i + length rows)]"
  shows "\<exists>t'. init_log_loop i rows t = Some (Inr t') \<and> ct_repr t' (hs @ map (\<lambda>r. LeafHash (wl_entry r)) rows)"
  using assms
proof (induction rows arbitrary: i hs t)
  case (Cons r rs)
  obtain t1 where t1: "ct_Append t (LeafHash (wl_entry r)) = Some t1" "ct_repr t1 (hs @ [LeafHash (wl_entry r)])"
    using ct_Append_repr [OF Cons.prems(1)] by blast
  have sq: "wl_seq r = Suc i" "map wl_seq rs = [Suc (Suc i)..<Suc (Suc i + length rs)]"
    using Cons.prems(3) by (simp_all add: upt_rec [of "Suc i"] del: upt_Suc)
  from Cons.IH [OF t1(2) _ sq(2)] Cons.prems(2) obtain t' where
    "init_log_loop (Suc i) rs t1 = Some (Inr t')"
    "ct_repr t' ((hs @ [LeafHash (wl_entry r)]) @ map (\<lambda>r. LeafHash (wl_entry r)) rs)" by auto
  with t1(1) sq(1) show ?case by simp
qed simp

lemma NewWitness_inv:
  assumes "log_numbered db" "ed_correct ed keys"
  shows "\<exists>w. NewWitness False db keys = Some (Inr w) \<and> witness_inv ed (w, db) \<and> wi_keys w = keys
    \<and> \<not> wi_open w"
proof -
  have "map wl_seq (db_log db) = [Suc 0..<Suc (0 + length (db_log db))]"
    using assms(1) by (simp add: log_numbered_def)
  from init_log_loop_repr [OF ct_repr_empty _ this] obtain t where
    "init_log_loop 0 (db_log db) ct_empty = Some (Inr t)" "ct_repr t (log_leaves db)"
    by (auto simp: log_leaves_def)
  with assms show ?thesis by (simp add: NewWitness_def log_numbered_entries [simplified] witness_inv_def)
qed

end
