(* ===== verification/Ledger_Properties.thy ===== *)
theory Ledger_Properties
  imports Verify_Sound
begin

text \<open>
  What the effect ledger promises: sealing, restarting, verifying, and the signatures beside it. The
  witnesses use a toy signature scheme, \<open>toy_ed\<close>, that meets the contract \<open>ed_correct\<close>.
\<close>

section \<open>A signature scheme for the witnesses\<close>

definition toy_ed :: ed25519 where
  "toy_ed = \<lparr>ed_sign = (\<lambda>priv m. sha256 (take 32 priv @ m) @ sha256 m),
     ed_verify = (\<lambda>pub m sig. sig = sha256 (pub @ m) @ sha256 m),
     ed_public = (\<lambda>priv. take 32 priv)\<rparr>"

definition toy_keys :: keypair where
  "toy_keys = \<lparr>kp_public = replicate 32 (CHR ''k''), kp_private = replicate 64 (CHR ''k'')\<rparr>"

lemma toy_correct [simp]: "ed_correct toy_ed toy_keys"
  by (simp add: ed_correct_def toy_ed_def toy_keys_def PublicKeySize_def SignatureSize_def)

lemma toy_signer [simp]: "length priv = 64 \<Longrightarrow> ed_correct toy_ed (signer toy_ed priv)"
  by (simp add: ed_correct_def toy_ed_def signer_def PublicKeySize_def SignatureSize_def)

definition empty_ledger :: "string \<Rightarrow> keypair \<Rightarrow> int \<Rightarrow> ledger" where
  "empty_ledger node keys t = \<lparr>lg_node = node, lg_keys = keys, lg_pub = PublicB64 keys,
     lg_last_seq = 0, lg_last_hash = [], lg_since = 0, lg_last_cp_at = t, lg_tree = ct_empty\<rparr>"

lemma empty_db_inv [simp]: "db_inv ed node empty_db []"
  by (simp add: db_inv_def empty_db_def)

lemma empty_ledger_inv: "ed_correct ed keys \<Longrightarrow> ledger_inv ed (empty_ledger node keys t, empty_db) []"
  by (simp add: ledger_inv_def empty_ledger_def ct.repr_new)

section \<open>Runs of a node\<close>

text \<open>A node seals, checkpoints, and is stopped and opened again on the same database.\<close>

inductive ledger_step :: "ed25519 \<Rightarrow> ledger_state \<Rightarrow> ledger_state \<Rightarrow> bool" for ed where
  seal: "Seal ed io now req s = Some (s', out) \<Longrightarrow> ledger_step ed s s'"
| checkpoint: "Checkpoint ed io now s = (s', out) \<Longrightarrow> ledger_step ed s s'"
| restart: "Open (\<lambda>_. False) now (snd s) (lg_node (fst s)) (Some (lg_keys (fst s))) = Some (Inr l) \<Longrightarrow>
    ledger_step ed s (l, snd s)"

lemma ledger_step_inv:
  assumes "ledger_step ed s s'" "ledger_inv ed s es"
  shows "\<exists>xs. length xs \<le> 1 \<and> ledger_inv ed s' (es @ xs)"
  using assms(1)
proof cases
  case (seal io now req out)
  from Seal_step [OF assms(2) seal] consider "s' = s" | e where "ledger_inv ed s' (es @ [e])" by auto
  then show ?thesis
  proof cases
    case 1
    with assms(2) show ?thesis by (intro exI [of _ "[]"]) simp
  next
    case 2
    then show ?thesis by (intro exI [of _ "[e]"]) simp
  qed
next
  case (checkpoint io now out)
  with Checkpoint_inv [OF assms(2), of io now] show ?thesis by (intro exI [of _ "[]"]) simp
next
  case (restart now l)
  have "db_inv ed (lg_node (fst s)) (snd s) es" "ed_correct ed (lg_keys (fst s))"
    using assms(2) by (simp_all add: ledger_inv_def)
  from Open_inv [OF this, of now] restart(2) have "ledger_inv ed (l, snd s) es" by auto
  with restart(1) show ?thesis by (intro exI [of _ "[]"]) simp
qed

lemma ledger_steps_inv:
  "(ledger_step ed)\<^sup>*\<^sup>* s s' \<Longrightarrow> ledger_inv ed s es \<Longrightarrow> \<exists>xs. ledger_inv ed s' (es @ xs)"
proof (induction rule: rtranclp_induct)
  case base
  then show ?case by (intro exI [of _ "[]"]) simp
next
  case (step y z)
  then obtain xs where "ledger_inv ed y (es @ xs)" by blast
  with ledger_step_inv [OF step.hyps(2)] show ?case by fastforce
qed

section \<open>Properties of sealing\<close>

text \<open>C4: A call of \<^verbatim>\<open>Seal\<close> on a ledger that holds the entries \<open>es\<close> either changes nothing and
  returns an error, or adds exactly one entry: the next sequence number, chained to the last hash,
  with the fields of the request, stored, hashed into the tree and authorised, and the receipt is that
  entry's hash. A failed checkpoint is an error that still carries the receipt. It never panics.\<close>

theorem seal_adds_one_entry:
  assumes "ledger_inv ed s es"
  shows "\<exists>s' out. Seal ed io now req s = Some (s', out) \<and>
    ((s' = s \<and> (\<exists>err. out = Inl err \<and> (\<forall>h e. err \<noteq> CheckpointFailed h e))) \<or>
     (\<exists>e. ledger_inv ed s' (es @ [e]) \<and> from_request req e \<and> en_ts e = unix_milli (now 0)
        \<and> lg_node (fst s') = lg_node (fst s) \<and> lg_keys (fst s') = lg_keys (fst s)
        \<and> (out = Inr (Entry_Hash e) \<or> (\<exists>d. out = Inl (CheckpointFailed (Entry_Hash e) d)))))"
  by (rule Seal_step [OF assms refl])

definition toy_request :: seal_request where
  "toy_request = \<lparr>sr_session = ''s1'', sr_envelope = ''e1'', sr_cause = ''c1'', sr_actor = ''a'',
     sr_capability = ''motor.door'', sr_decision = ''allow'', sr_outcome = ''delivered'',
     sr_policy = ''p'', sr_payload = ''{}'', sr_compensation = None, sr_waived = False,
     sr_compensates = [], sr_inference = [], sr_approver = None\<rparr>"

theorem seal_adds_one_entry_witness:
  "\<exists>s' out. Seal toy_ed (\<lambda>_. False) (\<lambda>_. 5000000) toy_request (empty_ledger ''n1'' toy_keys 0, empty_db)
      = Some (s', out) \<and>
    ((s' = (empty_ledger ''n1'' toy_keys 0, empty_db) \<and> (\<exists>err. out = Inl err \<and> (\<forall>h e. err \<noteq> CheckpointFailed h e))) \<or>
     (\<exists>e. ledger_inv toy_ed s' ([] @ [e]) \<and> from_request toy_request e \<and> en_ts e = unix_milli 5000000
        \<and> lg_node (fst s') = lg_node (fst (empty_ledger ''n1'' toy_keys 0, empty_db))
        \<and> lg_keys (fst s') = lg_keys (fst (empty_ledger ''n1'' toy_keys 0, empty_db))
        \<and> (out = Inr (Entry_Hash e) \<or> (\<exists>d. out = Inl (CheckpointFailed (Entry_Hash e) d)))))"
  by (rule seal_adds_one_entry) (simp add: empty_ledger_inv)

text \<open>C5: The history only grows: whatever a node does from a state that holds \<open>es\<close>, seals,
  checkpoints, restarts, in any order and with any database failures, the state it reaches holds
  \<open>es\<close> followed by the entries sealed since, all of it stored, chained and covered by the tree.\<close>

theorem history_only_grows:
  assumes "ledger_inv ed s es" "(ledger_step ed)\<^sup>*\<^sup>* s s'"
  shows "\<exists>xs. ledger_inv ed s' (es @ xs)"
  by (rule ledger_steps_inv [OF assms(2,1)])

lemma ct_Append_empty: "\<exists>t. ct_Append ct_empty h = Some t"
  using ct.repr_app [OF ct.repr_new] by blast

lemma toy_seal:
  "\<exists>s' h. Seal toy_ed (\<lambda>_. False) (\<lambda>_. 5000000) toy_request (empty_ledger ''n1'' toy_keys 0, empty_db)
      = Some (s', Inr h)"
proof -
  have v: "validateVocabulary toy_request = None"
    by (simp add: validateVocabulary_def toy_request_def oneOf_def PolicyDecisions_def EffectOutcomes_def)
  have c: "check_approver toy_ed n toy_request = (toy_request, None)" for n
    by (simp add: check_approver_def toy_request_def)
  obtain t where t: "ct_Append ct_empty
      (LeafHash (Marshal_Entry (make_entry (empty_ledger ''n1'' toy_keys 0) 5000000 toy_request))) = Some t"
    using ct_Append_empty by blast
  show ?thesis
    using t by (auto simp: Seal_def Let_def v c AppendLedgerEntry_def empty_db_def empty_ledger_def
        checkpointEveryN_def checkpointEveryT_def split: prod.splits option.splits)
qed

theorem history_only_grows_witness:
  "\<exists>s1 h e s2 cp s3 out s4 err l xs.
     Seal toy_ed (\<lambda>_. False) (\<lambda>_. 5000000) toy_request (empty_ledger ''n1'' toy_keys 0, empty_db) = Some (s1, Inr h)
   \<and> Checkpoint toy_ed (\<lambda>_. False) (\<lambda>_. 6000000) s1 = (s2, cp)
   \<and> Seal toy_ed (\<lambda>_. False) (\<lambda>_. 7000000) toy_request s2 = Some (s3, out)
   \<and> Seal toy_ed (\<lambda>_. True) (\<lambda>_. 8000000) toy_request s3 = Some (s4, err)
   \<and> Open (\<lambda>_. False) (\<lambda>_. 9000000) (snd s4) (lg_node (fst s4)) (Some (lg_keys (fst s4))) = Some (Inr l)
   \<and> from_request toy_request e \<and> ledger_inv toy_ed (l, snd s4) ([e] @ xs)"
proof -
  obtain s1 h where s1: "Seal toy_ed (\<lambda>_. False) (\<lambda>_. 5000000) toy_request
      (empty_ledger ''n1'' toy_keys 0, empty_db) = Some (s1, Inr h)"
    using toy_seal by blast
  then obtain e where e: "ledger_inv toy_ed s1 [e]" "from_request toy_request e"
    using Seal_step [OF empty_ledger_inv [OF toy_correct] s1] by auto
  obtain s2 cp where s2: "Checkpoint toy_ed (\<lambda>_. False) (\<lambda>_. 6000000) s1 = (s2, cp)" by fastforce
  then have i2: "ledger_inv toy_ed s2 [e]" using Checkpoint_inv [OF e(1)] by (metis fst_conv)
  obtain s3 out where s3: "Seal toy_ed (\<lambda>_. False) (\<lambda>_. 7000000) toy_request s2 = Some (s3, out)"
    using Seal_step [OF i2 refl] by blast
  obtain xs where i3: "ledger_inv toy_ed s3 ([e] @ xs)"
    using ledger_step_inv [OF ledger_step.seal [OF s3] i2] by blast
  obtain s4 err where s4: "Seal toy_ed (\<lambda>_. True) (\<lambda>_. 8000000) toy_request s3 = Some (s4, err)"
    using Seal_step [OF i3 refl] by blast
  obtain ys where i4: "ledger_inv toy_ed s4 ([e] @ ys)"
    using ledger_step_inv [OF ledger_step.seal [OF s4] i3] by fastforce
  then obtain l where l: "Open (\<lambda>_. False) (\<lambda>_. 9000000) (snd s4) (lg_node (fst s4)) (Some (lg_keys (fst s4))) = Some (Inr l)"
    using Open_inv [of toy_ed "lg_node (fst s4)" "snd s4" "[e] @ ys" "lg_keys (fst s4)" "\<lambda>_. 9000000"]
    by (auto simp: ledger_inv_def)
  have "(ledger_step toy_ed)\<^sup>*\<^sup>* s1 (l, snd s4)"
    using ledger_step.checkpoint [OF s2] ledger_step.seal [OF s3] ledger_step.seal [OF s4]
      ledger_step.restart [OF l] by (meson converse_rtranclp_into_rtranclp rtranclp.rtrancl_refl)
  from history_only_grows [OF e(1) this] show ?thesis using s1 s2 s3 s4 l e(2) by blast
qed

text \<open>C18: Opening a ledger on the database a node left behind gives back the state it had: the same
  entries, head, tree and node, whatever the clock says; no entry is lost by a restart.\<close>

theorem reopen_restores:
  assumes "db_inv ed node db es" "ed_correct ed keys"
  shows "\<exists>l. Open (\<lambda>_. False) now db node (Some keys) = Some (Inr l)
    \<and> ledger_inv ed (l, db) es \<and> lg_node l = node \<and> lg_keys l = keys"
  by (rule Open_inv [OF assms])

theorem reopen_restores_witness:
  "\<exists>s1 h e l. Seal toy_ed (\<lambda>_. False) (\<lambda>_. 5000000) toy_request (empty_ledger ''n1'' toy_keys 0, empty_db) = Some (s1, Inr h)
    \<and> from_request toy_request e \<and> Open (\<lambda>_. False) (\<lambda>_. 7) (snd s1) ''n1'' (Some toy_keys) = Some (Inr l)
    \<and> ledger_inv toy_ed (l, snd s1) [e] \<and> lg_node l = ''n1'' \<and> lg_keys l = toy_keys"
proof -
  obtain s1 h where s1: "Seal toy_ed (\<lambda>_. False) (\<lambda>_. 5000000) toy_request
      (empty_ledger ''n1'' toy_keys 0, empty_db) = Some (s1, Inr h)"
    using toy_seal by blast
  then obtain e where e: "ledger_inv toy_ed s1 [e]" "from_request toy_request e" "lg_node (fst s1) = ''n1''"
    using Seal_step [OF empty_ledger_inv [OF toy_correct] s1] by (auto simp: empty_ledger_def)
  then have "db_inv toy_ed ''n1'' (snd s1) [e]" by (auto simp: ledger_inv_def)
  from reopen_restores [OF this toy_correct] s1 e(2) show ?thesis by blast
qed

text \<open>The checkpoint cadence: when a seal succeeds, fewer than 100 entries are beyond the last
  checkpoint and, by the clock reading the decision is made on, less than a minute has passed since
  it, or a checkpoint has just been made.\<close>

theorem seal_checkpoint_cadence:
  assumes "Seal ed io now req s = Some (s', Inr h)"
  shows "lg_since (fst s') < checkpointEveryN
    \<and> (lg_since (fst s') = 0 \<and> lg_last_cp_at (fst s') = now 4 \<or> now 2 - lg_last_cp_at (fst s') < checkpointEveryT)"
proof -
  obtain l db where s: "s = (l, db)" by (cases s)
  obtain r where ca: "check_approver ed (lg_node l) req = (r, None)" and v: "validateVocabulary req = None"
    using assms by (auto simp: Seal_def s Let_def split: option.splits prod.splits)
  let ?e = "make_entry l (now 0) r"
  obtain db' where a: "AppendLedgerEntry (io 0) (en_seq ?e) (Entry_Hash ?e) (sr_session r) (Marshal_Entry ?e)
      (unix_milli (now 1)) db = Inr db'"
    using assms by (cases "AppendLedgerEntry (io 0) (en_seq ?e) (Entry_Hash ?e) (sr_session r)
      (Marshal_Entry ?e) (unix_milli (now 1)) db") (simp_all add: Seal_def s Let_def ca v)
  obtain tree where t: "ct_Append (lg_tree l) (LeafHash (Marshal_Entry ?e)) = Some tree"
    using assms a by (cases "ct_Append (lg_tree l) (LeafHash (Marshal_Entry ?e))")
      (simp_all add: Seal_def s Let_def ca v)
  show ?thesis
    using assms a t
    by (auto simp: Seal_def s Let_def ca v sealCheckpointLocked_def checkpointEveryN_def
        split: if_splits sum.splits option.splits)
qed

theorem seal_checkpoint_cadence_witness:
  "\<exists>s' h. Seal toy_ed (\<lambda>_. False) (\<lambda>_. 5000000) toy_request (empty_ledger ''n1'' toy_keys 0, empty_db)
      = Some (s', Inr h) \<and> lg_since (fst s') < checkpointEveryN
    \<and> (lg_since (fst s') = 0 \<and> lg_last_cp_at (fst s') = 5000000
       \<or> 5000000 - lg_last_cp_at (fst s') < checkpointEveryT)"
  using toy_seal seal_checkpoint_cadence by blast

text \<open>The declared causes of an entry are a set: \<^verbatim>\<open>normalizeInference\<close> returns the distinct
  non-empty hashes in ascending order, so neither order nor repetition in a request reaches the sealed
  bytes.\<close>

theorem normalizeInference_set:
  "normalizeInference hashes = sorted_list_of_set (set hashes - {[]})"
proof -
  have "distinct (inference_loop [] [] hashes)" by (rule inference_loop_distinct) simp_all
  moreover have "set (inference_loop [] [] hashes) = set hashes - {[]}" by (simp add: inference_loop_set)
  ultimately show ?thesis
    unfolding normalizeInference_def by (metis sorted_list_of_set_sort_remdups distinct_remdups_id)
qed

section \<open>Properties of the bytes that are hashed and signed\<close>

text \<open>An entry is read back from the bytes it was sealed as, field for field, whatever its
  optional parts (strings in ASCII, integers in the range of their Go types).\<close>

theorem entry_reads_back:
  assumes "entry_ok e"
  shows "Unmarshal_Entry (Marshal_Entry e) = Some e"
  by (rule Entry_roundtrip [OF assms])

definition toy_entry :: entry where
  "toy_entry = zero_entry\<lparr>en_seq := 1, en_ts := 5, en_node := ''n1'', en_session := ''s<1>'',
     en_inference := [''a'', ''b''],
     en_compensation := Some \<lparr>co_capability = ''motor.door'', co_port = ''out'', co_schema = []\<rparr>\<rparr>"

lemma toy_entry_ok: "entry_ok toy_entry"
  by (simp add: entry_ok_def toy_entry_def zero_entry_def int64_ok_def compensation_ok_def in_range_def)

theorem entry_reads_back_witness: "Unmarshal_Entry (Marshal_Entry toy_entry) = Some toy_entry"
  by (rule entry_reads_back [OF toy_entry_ok])

definition chain_inputs :: "entry list \<Rightarrow> bytes list" where
  "chain_inputs es = map Marshal_Entry es"

lemma Entry_Hash_bytes: "Entry_Hash e = Entry_Hash e' \<Longrightarrow> sha256 (Marshal_Entry e) = sha256 (Marshal_Entry e')"
  by (simp add: Entry_Hash_def)

lemma Entry_Hash_nonempty [simp]: "Entry_Hash e \<noteq> []"
  by (simp add: Entry_Hash_def)

lemma chained_last: "chained 0 [] (xs @ [e]) \<Longrightarrow> en_prev e = chain_head [] xs \<and> chained 0 [] xs"
  by (simp add: chained_append)

lemma chain_inject:
  "chained 0 [] es \<Longrightarrow> chained 0 [] es' \<Longrightarrow> list_all entry_ok es \<Longrightarrow> list_all entry_ok es' \<Longrightarrow>
   inj_on sha256 (set (chain_inputs es) \<union> set (chain_inputs es')) \<Longrightarrow>
   chain_head [] es = chain_head [] es' \<Longrightarrow> es = es'"
proof (induction es arbitrary: es' rule: rev_induct)
  case Nil
  then show ?case by (cases es' rule: rev_cases) (simp_all, metis Entry_Hash_nonempty)
next
  case (snoc e es)
  from snoc.prems(6) obtain xs x where es': "es' = xs @ [x]"
    by (cases es' rule: rev_cases) simp_all
  have "Marshal_Entry e = Marshal_Entry x"
    by (rule inj_onD [OF snoc.prems(5)])
      (use snoc.prems(6) Entry_Hash_bytes [of e x] in \<open>simp_all add: es' chain_inputs_def\<close>)
  then have x: "x = e" using snoc.prems(3,4) es' Marshal_inject [of e x] by simp
  have "es = xs"
  proof (rule snoc.IH)
    show "chain_head [] es = chain_head [] xs"
      using chained_last [OF snoc.prems(1)] chained_last [of xs x] snoc.prems(2) es' x by simp
    show "inj_on sha256 (set (chain_inputs es) \<union> set (chain_inputs xs))"
      using snoc.prems(5) by (rule inj_on_subset) (auto simp: es' chain_inputs_def)
  qed (use snoc.prems es' chained_last in \<open>auto dest: chained_last\<close>)
  with es' x show ?case by simp
qed

text \<open>The head hash binds the whole chain: two chains of entries, of whatever lengths, that end
  in the same hash are the same chain, or two of the marshalled entries collide under SHA-256.\<close>

theorem chain_head_binds_history:
  assumes "chained 0 [] es" "chained 0 [] es'" "list_all entry_ok es" "list_all entry_ok es'"
    and "chain_head [] es = chain_head [] es'"
  shows "es = es' \<or> collision (chain_inputs es @ chain_inputs es')"
  using chain_inject [OF assms(1-4) _ assms(5)] by (simp add: collision_iff) blast

theorem chain_head_binds_history_witness:
  "[toy_entry] = [toy_entry] \<or> collision (chain_inputs [toy_entry] @ chain_inputs [toy_entry])"
  by (rule chain_head_binds_history) (simp_all add: toy_entry_ok, simp_all add: toy_entry_def zero_entry_def)

text \<open>A checkpoint signature covers what it names and nothing else: two payloads are equal only for
  the same sequence number, head hash and root, and no payload of the old form (without a root) equals
  one of the new form. Head hashes are as the ledger writes them, without a colon after their
  \<^verbatim>\<open>sha256:\<close>.\<close>

theorem checkpointPayload_binds:
  "checkpointPayload n (''sha256:'' @ hex_encode h) r = checkpointPayload m (''sha256:'' @ hex_encode g) q
   \<longleftrightarrow> n = m \<and> h = g \<and> r = q"
proof
  assume eq: "checkpointPayload n (''sha256:'' @ hex_encode h) r
    = checkpointPayload m (''sha256:'' @ hex_encode g) q"
  have hex: "CHR '':'' \<notin> set (hex_encode x)" for x using hex_encode_set [of x] by auto
  have v: "r = [] \<longleftrightarrow> q = []" using eq by (auto simp: checkpointPayload_def split: if_splits)
  let ?t = "\<lambda>h r. ''sha256:'' @ hex_encode h @ (if r = [] then [] else CHR '':'' # r)"
  have "dec_nat n @ CHR '':'' # ?t h r = dec_nat m @ CHR '':'' # ?t g q"
    using eq v by (cases "r = []") (simp_all add: checkpointPayload_def)
  from append_delim_inj [OF colon_notin_dec_nat colon_notin_dec_nat this]
  have "n = m" "?t h r = ?t g q" by simp_all
  moreover have "h = g \<and> r = q"
  proof (cases "r = []")
    case True
    with v \<open>?t h r = ?t g q\<close> show ?thesis by simp
  next
    case False
    with v \<open>?t h r = ?t g q\<close> have "hex_encode h @ CHR '':'' # r = hex_encode g @ CHR '':'' # q" by simp
    from append_delim_inj [OF hex hex this] show ?thesis by simp
  qed
  ultimately show "n = m \<and> h = g \<and> r = q" by simp
qed simp

text \<open>The canonical hash a package signature covers does not depend on the order its manifest's
  members are held in (a Go map has none), nor on the \<^verbatim>\<open>signature\<close> member.\<close>

theorem manifest_hash_order:
  assumes "set (filter (\<lambda>kv. fst kv \<noteq> ''signature'') m) = set (filter (\<lambda>kv. fst kv \<noteq> ''signature'') m')"
    and "distinct (map fst m)" "distinct (map fst m')"
  shows "CanonicalManifestHash m = CanonicalManifestHash m'"
proof -
  have "sort_key fst (filter (\<lambda>kv. fst kv \<noteq> ''signature'') m)
      = sort_key fst (filter (\<lambda>kv. fst kv \<noteq> ''signature'') m')"
    using assms by (intro sort_members_unique) (simp_all add: distinct_keys_filter)
  then show ?thesis by (simp add: CanonicalManifestHash_def)
qed

theorem manifest_hash_order_witness:
  "CanonicalManifestHash [(''id'', JStr ''x''), (''signature'', JNull), (''v'', JNum ''1'')]
   = CanonicalManifestHash [(''v'', JNum ''1''), (''id'', JStr ''x'')]"
  by (rule manifest_hash_order) (auto)

section \<open>Properties of approvals\<close>

text \<open>C25: What an operator signs says what was approved: for identifiers without a colon, two approval
  payloads are equal only for the same node, session, delivery, decision and time, over the same shown
  artifacts (or two canonical contexts collide under SHA-256).\<close>

theorem approval_payload_binds:
  assumes "ApprovalPayload n s e d t x = Inr p" "ApprovalPayload n' s' e' d' t' x' = Inr p"
    and "colon_free [n, s, e, d]" "colon_free [n', s', e', d']"
  shows "(n, s, e, d, t) = (n', s', e', d', t')
    \<and> (sort_key ce_label x = sort_key ce_label x'
       \<or> (\<exists>c c'. CanonicalContext x = Inr c \<and> CanonicalContext x' = Inr c' \<and> collision [c, c']))"
proof -
  obtain c c' where c: "CanonicalContext x = Inr c" "CanonicalContext x' = Inr c'" "c = c' \<or> collision [c, c']"
    and eq: "(n, s, e, d, t) = (n', s', e', d', t')"
    using ApprovalPayload_inject [OF assms] by blast
  show ?thesis
  proof (cases "c = c'")
    case True
    with c CanonicalContext_inject [of x c x'] eq show ?thesis by simp
  next
    case False
    with c eq show ?thesis by blast
  qed
qed

lemma toy_payload: "ApprovalPayload ''n'' ''s'' ''e'' ''approve'' 7 [] = Inr (approval_base ''n'' ''s'' ''e'' ''approve'' 7)"
  by (simp add: ApprovalPayload_def ContextDigest_def CanonicalContext_def Let_def)

theorem approval_payload_binds_witness:
  "(''n'', ''s'', ''e'', ''approve'', 7 :: int) = (''n'', ''s'', ''e'', ''approve'', 7)
    \<and> (sort_key ce_label ([] :: context_entry list) = sort_key ce_label []
       \<or> (\<exists>c c'. CanonicalContext [] = Inr c \<and> CanonicalContext [] = Inr c' \<and> collision [c, c']))"
  by (rule approval_payload_binds [OF toy_payload toy_payload]) (simp_all add: colon_free_def)

text \<open>An approval an operator signs verifies, for the node, session and delivery it names: whatever
  \<^verbatim>\<open>SignApproval\<close> returns, \<^verbatim>\<open>Approval.Verify\<close> accepts.\<close>

theorem signed_approval_verifies:
  assumes "SignApproval ed operator priv node session envelope decision ts shown = Inr a"
    and "ed_correct ed (signer ed priv)"
  shows "approval_Verify ed (Some a) node session = (Some a, None)"
  by (rule SignApproval_verifies [OF assms])

theorem signed_approval_verifies_witness:
  "\<exists>a. SignApproval toy_ed ''op'' (replicate 64 (CHR ''k'')) ''n'' ''s'' ''e'' ''approve'' 7 [] = Inr a
     \<and> approval_Verify toy_ed (Some a) ''n'' ''s'' = (Some a, None)"
proof -
  obtain a where a: "SignApproval toy_ed ''op'' (replicate 64 (CHR ''k'')) ''n'' ''s'' ''e'' ''approve'' 7 [] = Inr a"
    by (simp add: SignApproval_def toy_payload ApprovalApprove_def PrivateKeySize_def Let_def)
  with signed_approval_verifies [OF a toy_signer] show ?thesis by simp
qed

end
