(* ===== verification/Witness_Properties.thy ===== *)
theory Witness_Properties
  imports Witness_Inv Ledger_Properties
begin

text \<open>
  What a witness promises: every countersignature is for a head that extends the last one it signed,
  it is in the witness's own log, honest ledgers are countersigned, and the signed statements of a
  witness agree with each other, with the two situations in which they do not.
\<close>

section \<open>Helper facts\<close>

lemma ParseHash_wf: "ParseHash s = Inr h \<Longrightarrow> wf_hash h"
  by (auto simp: ParseHash_def wf_hash_def split: if_splits option.splits)

lemma parse_proof_wf: "parse_proof rs = Inr hs \<Longrightarrow> wf_hashes hs"
  by (induction rs arbitrary: hs) (auto split: sum.splits dest: ParseHash_wf)

lemma ParseHash_String [simp]: "wf_hash h \<Longrightarrow> ParseHash (hash_String h) = Inr h"
  by (simp add: ParseHash_def hash_String_def wf_hash_def)

lemma parse_proof_String: "wf_hashes hs \<Longrightarrow> parse_proof (map hash_String hs) = Inr hs"
  by (induction hs) simp_all

lemma uint_to_int_small: "n < 2 ^ 63 \<Longrightarrow> uint_to_int n = int n"
  by (simp add: uint_to_int_def)

lemma check_extends_None:
  "check_extends s root prev = None \<longleftrightarrow>
     wh_seq prev \<le> ws_seq s
     \<and> (\<exists>old proof. ParseHash (wh_merkle_root prev) = Inr old \<and> parse_proof (ws_consistency s) = Inr proof
         \<and> (ws_seq s = wh_seq prev \<or> ws_from_seq s = wh_seq prev)
         \<and> VerifyConsistency (uint_to_int (wh_seq prev)) (uint_to_int (ws_seq s)) old root proof)"
  by (auto simp: check_extends_def split: sum.splits)

definition seen_seq :: "string \<Rightarrow> ledger_db \<Rightarrow> nat" where
  "seen_seq node db = (case last_head node db of None \<Rightarrow> 0 | Some h \<Rightarrow> wh_seq h)"

lemma countersign_check_grows:
  assumes "countersign_check ed io now s (w, db) = (w', None)"
  shows "seen_seq (ws_node s) db \<le> ws_seq s"
  using assms
proof (cases rule: countersign_check_passed)
  case (1 root)
  then show ?thesis
    by (cases "last_head (ws_node s) db") (simp_all add: seen_seq_def check_extends_None)
qed

section \<open>One countersignature\<close>

text \<open>\<^verbatim>\<open>Countersign\<close> never panics; it either leaves the witness's log as it was and returns an
  error, or appends exactly one record, for the head of the statement, remembers that head, and
  returns a signature over it that verifies, with the position of the record. The log stays numbered
  without a gap and its tree stays the tree of its records.\<close>

theorem countersign_is_logged:
  assumes "witness_inv ed (w, db)"
  shows "\<exists>w' db' out. Countersign ed io now s (w, db) = Some ((w', db'), out) \<and> witness_inv ed (w', db')
    \<and> (case out of
         Inl e \<Rightarrow> db_log db' = db_log db
       | Inr cs \<Rightarrow> (\<exists>r. db_log db' = db_log db @ [r] \<and> wl_node r = ws_node s \<and> wl_node_seq r = ws_seq s
             \<and> wl_merkle_root r = ws_merkle_root s \<and> wl_signature r = cs_signature cs)
           \<and> cs_log_seq cs = length (db_log db')
           \<and> signing_Verify ed (cs_witness_key cs) (cs_signature cs)
                (witnessPayload (ws_node s) (ws_seq s) (ws_merkle_root s)) = None
           \<and> seen_seq (ws_node s) db \<le> ws_seq s \<and> seen_seq (ws_node s) db' = ws_seq s)"
proof -
  obtain w' db' out where c: "Countersign ed io now s (w, db) = Some ((w', db'), out)"
    using Countersign_total [OF assms] by blast
  have ed: "ed_correct ed (wi_keys w)" using assms by (simp add: witness_inv_def)
  from assms c show ?thesis
  proof (cases rule: Countersign_step)
    case (signed w1)
    from countersign_check_grows [OF signed(2)] c signed ed show ?thesis
      by (simp add: countersigned_def logged_def seen_seq_def signed_head_def)
  qed (use c in simp_all)
qed

text \<open>C11: A witness signs only heads that extend the last one it signed: when it has signed the head
  of a history for a node, and now countersigns the head of another for it, the old history is a
  prefix of the new one, or two hashed byte strings collide.\<close>

theorem countersigned_head_extends:
  assumes "witness_inv ed (w, db)" "Countersign ed io now s (w, db) = Some ((w', db'), Inr cs)"
    and "last_head (ws_node s) db = Some prev"
    and "wh_seq prev = length old" "wh_merkle_root prev = hash_String (MerkleRoot old)"
    and "ws_seq s = length new" "ws_merkle_root s = hash_String (MerkleRoot new)"
    and "wf_hashes old" "wf_hashes new" "length new < 2 ^ 63"
  shows "\<exists>proof. parse_proof (ws_consistency s) = Inr proof
    \<and> (old = take (length old) new
       \<or> collision (consistency_inputs (int (length old)) (int (length new)) (MerkleRoot old) proof
                    @ root_inputs old @ root_inputs new))"
proof -
  from assms(1,2) show ?thesis
  proof (cases rule: Countersign_step)
    case (signed w1)
    from signed(2) obtain root where root: "ParseHash (ws_merkle_root s) = Inr root"
      and ext: "\<And>p. last_head (ws_node s) db = Some p \<Longrightarrow> check_extends s root p = None"
      by (rule countersign_check_passed) blast
    have r: "root = MerkleRoot new" using root assms(7,9) by simp
    from ext [OF assms(3)] obtain oldroot hs where
      le: "length old \<le> length new" and oldr: "ParseHash (wh_merkle_root prev) = Inr oldroot"
      and p: "parse_proof (ws_consistency s) = Inr hs"
      and v: "VerifyConsistency (uint_to_int (length old)) (uint_to_int (length new)) oldroot root hs"
      unfolding check_extends_None assms(4,6) by blast
    have "oldroot = MerkleRoot old" using oldr assms(5,8) by simp
    with v r have v: "VerifyConsistency (int (length old)) (int (length new)) (MerkleRoot old) (MerkleRoot new) hs"
      using le assms(10) by (simp add: uint_to_int_small)
    from VerifyConsistency_sound [OF v assms(8,9) parse_proof_wf [OF p]] p show ?thesis
      unfolding collision_iff by blast
  qed simp_all
qed

section \<open>Witnesses for the theorems\<close>

definition toy_statement :: "keypair \<Rightarrow> bytes \<Rightarrow> wit_statement" where
  "toy_statement k x =
     (let root = hash_String (LeafHash x) in
      \<lparr>ws_node = ''n1'', ws_seq = 1, ws_head_hash = ''h'', ws_merkle_root = root, ws_pubkey = PublicB64 k,
       ws_signature = keypair_Sign toy_ed k (checkpointPayload 1 ''h'' root), ws_from_seq = 0, ws_consistency = []\<rparr>)"

definition toy_witness :: witness where
  "toy_witness = \<lparr>wi_keys = toy_keys, wi_limits = DefaultWitnessLimits, wi_open = False, wi_rate = [],
     wi_tree = ct_empty, wi_log_size = 0\<rparr>"

lemma toy_witness_inv [simp]: "witness_inv toy_ed (toy_witness, empty_db)"
  by (simp add: witness_inv_def toy_witness_def log_leaves_def log_numbered_def empty_db_def ct_repr_empty)

lemma wf_LeafHash [simp]: "wf_hash (LeafHash x)"
  using wf_leaves [of "[x]"] by simp

lemma toy_statement_simps [simp]:
  "ws_node (toy_statement k x) = ''n1''" "ws_seq (toy_statement k x) = 1"
  "ws_merkle_root (toy_statement k x) = hash_String (LeafHash x)" "ws_consistency (toy_statement k x) = []"
  by (simp_all add: toy_statement_def Let_def)

lemma toy_statement_signed:
  "ed_correct toy_ed k \<Longrightarrow> signing_Verify toy_ed (ws_pubkey (toy_statement k x)) (ws_signature (toy_statement k x))
     (checkpointPayload (ws_seq (toy_statement k x)) (ws_head_hash (toy_statement k x)) (ws_merkle_root (toy_statement k x)))
   = None"
  by (simp add: toy_statement_def Let_def)

lemma toy_statement_key: "ed_correct toy_ed k \<Longrightarrow> ws_pubkey (toy_statement k x) \<noteq> []"
  by (simp add: toy_statement_def Let_def PublicB64_nonempty)

lemma toy_check_passes:
  assumes "ed_correct toy_ed k" "\<not> wi_open w" "\<not> io 0"
    and "last_head ''n1'' db = None \<or> last_head ''n1'' db = Some (signed_head (toy_statement k' x) t)"
  shows "countersign_check toy_ed io now (toy_statement k x) (w, db) = (w, None)"
proof -
  have "check_extends (toy_statement k x) (LeafHash x) (signed_head (toy_statement k' x) t) = None"
    by (simp add: check_extends_None signed_head_def VerifyConsistency_def uint_to_int_def)
  with assms toy_statement_signed [OF assms(1)] toy_statement_key [OF assms(1)] show ?thesis
    by (auto simp: countersign_check_def witness_admit_def Let_def)
qed

theorem countersign_is_logged_witness:
  "\<exists>w' db' out. Countersign toy_ed (\<lambda>_. False) (\<lambda>_. 9000000) (toy_statement toy_keys ''x'') (toy_witness, empty_db)
      = Some ((w', db'), out) \<and> witness_inv toy_ed (w', db')"
  using countersign_is_logged [OF toy_witness_inv, of "\<lambda>_. False" "\<lambda>_. 9000000" "toy_statement toy_keys ''x''"]
  by blast

text \<open>A statement whose checks pass is countersigned when the database does not fail.\<close>

lemma Countersign_passes:
  assumes "witness_inv ed (w, db)" "countersign_check ed io (now 0) s (w, db) = (w1, None)" "\<not> io 2" "\<not> io 3"
  shows "\<exists>w' db' cs. Countersign ed io now s (w, db) = Some ((w', db'), Inr cs) \<and> witness_inv ed (w', db')
    \<and> wi_keys w' = wi_keys w \<and> last_head (ws_node s) db' = Some (signed_head s (unix_milli (now 1)))
    \<and> cs_witness_key cs = PublicB64 (wi_keys w) \<and> cs_signature cs = countersigned ed (wi_keys w) s
    \<and> cs_ts cs = unix_milli (now 1)"
proof -
  have inv: "witness_inv ed (w1, put_head (signed_head s (unix_milli (now 1))) db)"
    using countersign_check_inv [OF assms(1,2)] by simp
  have keys: "wi_keys w1 = wi_keys w" using countersign_check_keeps [OF assms(2)] by simp
  from inv show ?thesis
  proof (cases rule: appendLog_step [where fault = "io 3" and s = s
        and sig = "countersigned ed (wi_keys w1) s" and ts = "unix_milli (now 1)"])
    case failed
    with assms(4) show ?thesis by simp
  next
    case (logged t)
    with assms(2,3) keys show ?thesis
      by (simp add: Countersign_eq countersign_commit_eq signed_head_def eval_nat_numeral)
  qed
qed

theorem countersigned_head_extends_witness:
  "\<exists>proof. parse_proof (ws_consistency (toy_statement toy_keys ''x'')) = Inr proof
    \<and> ([LeafHash ''x''] = take (length [LeafHash ''x'']) [LeafHash ''x'']
       \<or> collision (consistency_inputs (int (length [LeafHash ''x''])) (int (length [LeafHash ''x''])) (MerkleRoot [LeafHash ''x'']) proof
                    @ root_inputs [LeafHash ''x''] @ root_inputs [LeafHash ''x'']))"
proof -
  let ?s = "toy_statement toy_keys ''x''" and ?db = "put_head (signed_head (toy_statement toy_keys ''x'') 0) empty_db"
  have inv: "witness_inv toy_ed (toy_witness, ?db)" by simp
  have ck: "countersign_check toy_ed (\<lambda>_. False) 0 ?s (toy_witness, ?db) = (toy_witness, None)"
    by (rule toy_check_passes) (simp_all add: toy_witness_def signed_head_def)
  obtain w' db' cs where c:
    "Countersign toy_ed (\<lambda>_. False) (\<lambda>_. 0) ?s (toy_witness, ?db) = Some ((w', db'), Inr cs)"
    using Countersign_passes [OF inv, of "\<lambda>_. False" "\<lambda>_. 0" ?s] ck by auto
  show ?thesis
    by (rule countersigned_head_extends [OF inv c, where prev = "signed_head ?s 0"])
      (simp_all add: signed_head_def MerkleRoot.simps)
qed

section \<open>The statements of a witness agree\<close>

text \<open>A run of countersignatures, one at a time, in which the log append does not fail.\<close>

inductive witness_step :: "ed25519 \<Rightarrow> witness_state \<Rightarrow> witness_state \<Rightarrow> bool" for ed where
  "Countersign ed io now s st = Some (st', out) \<Longrightarrow> \<not> io 3 \<Longrightarrow> witness_step ed st st'"

definition grown :: "string \<Rightarrow> ledger_db \<Rightarrow> ledger_db \<Rightarrow> bool" where
  "grown node db db' \<longleftrightarrow> seen_seq node db \<le> seen_seq node db' \<and> length (db_log db) \<le> length (db_log db')
     \<and> (length (db_log db) = length (db_log db') \<longrightarrow> last_head node db = last_head node db')"

lemma grown_refl [simp]: "grown node db db"
  by (simp add: grown_def)

lemma grown_trans: "grown node a b \<Longrightarrow> grown node b c \<Longrightarrow> grown node a c"
  by (auto simp: grown_def)

lemma witness_step_grows:
  assumes "witness_step ed (w, db) (w', db')" "witness_inv ed (w, db)"
  shows "witness_inv ed (w', db') \<and> wi_keys w' = wi_keys w \<and> grown node db db'"
  using assms(1)
proof cases
  case (1 io now s out)
  from assms(2) 1(1) show ?thesis
  proof (cases rule: Countersign_step)
    case unlogged
    with 1(2) show ?thesis by simp
  next
    case (signed w1)
    with countersign_check_grows [OF signed(2)] show ?thesis
      by (auto simp: grown_def seen_seq_def signed_head_def)
  qed simp
qed

lemma witness_run_grows:
  "(witness_step ed)\<^sup>*\<^sup>* st st' \<Longrightarrow> witness_inv ed st \<Longrightarrow>
     witness_inv ed st' \<and> wi_keys (fst st') = wi_keys (fst st) \<and> grown node (snd st) (snd st')"
proof (induction rule: rtranclp_induct)
  case (step y z)
  with witness_step_grows [of ed "fst y" "snd y" "fst z" "snd z" node] show ?case
    by (auto intro: grown_trans)
qed simp

text \<open>The answers a witness signs about a node agree: an answer and a later one, with any
  countersignatures between them (their log appends succeed), never contradict each other, in either
  order of the arguments once their timestamps differ.\<close>

theorem witness_answers_agree:
  assumes "witness_inv ed st" "(witness_step ed)\<^sup>*\<^sup>* st st'"
    and "LastSeenSigned ed False ta node st = Inr a" "LastSeenSigned ed False tb node st' = Inr b"
    and "unix_milli ta < unix_milli tb"
  shows "\<not> Contradicts a b \<and> \<not> Contradicts b a"
proof -
  from witness_run_grows [OF assms(2,1), of node] have g: "grown node (snd st) (snd st')"
    and sz: "wi_log_size (fst st') = length (db_log (snd st'))" "wi_log_size (fst st) = length (db_log (snd st))"
    using assms(1) by (simp_all add: witness_inv_def)
  have a: "ls_seq a = seen_seq node (snd st)" "ls_log_size a = length (db_log (snd st))" "ls_ts a = unix_milli ta"
    "ls_merkle_root a = (case last_head node (snd st) of None \<Rightarrow> [] | Some h \<Rightarrow> wh_merkle_root h)"
    and b: "ls_seq b = seen_seq node (snd st')" "ls_log_size b = length (db_log (snd st'))" "ls_ts b = unix_milli tb"
    "ls_merkle_root b = (case last_head node (snd st') of None \<Rightarrow> [] | Some h \<Rightarrow> wh_merkle_root h)"
    using assms(3,4) sz by (auto simp: LastSeenSigned_def Let_def seen_seq_def)
  from g have "seen_seq node (snd st) \<le> seen_seq node (snd st')"
    and "length (db_log (snd st)) = length (db_log (snd st')) \<Longrightarrow> last_head node (snd st) = last_head node (snd st')"
    by (simp_all add: grown_def)
  then show ?thesis using assms(5) a b by (auto simp: Contradicts_def seen_seq_def)
qed

theorem witness_answers_agree_witness:
  "\<exists>st' out a b. Countersign toy_ed (\<lambda>_. False) (\<lambda>_. 0) (toy_statement toy_keys ''x'') (toy_witness, empty_db)
        = Some (st', out)
     \<and> LastSeenSigned toy_ed False 0 ''n1'' (toy_witness, empty_db) = Inr a
     \<and> LastSeenSigned toy_ed False 1000000 ''n1'' st' = Inr b
     \<and> \<not> Contradicts a b \<and> \<not> Contradicts b a"
proof -
  let ?c = "Countersign toy_ed (\<lambda>_. False) (\<lambda>_. 0) (toy_statement toy_keys ''x'') (toy_witness, empty_db)"
  obtain w' db' out where c: "?c = Some ((w', db'), out)"
    using Countersign_total [OF toy_witness_inv] by blast
  obtain a b where ab: "LastSeenSigned toy_ed False 0 ''n1'' (toy_witness, empty_db) = Inr a"
    "LastSeenSigned toy_ed False 1000000 ''n1'' (w', db') = Inr b"
    by (simp add: LastSeenSigned_def Let_def)
  have "(witness_step toy_ed)\<^sup>*\<^sup>* (toy_witness, empty_db) (w', db')"
    by (rule r_into_rtranclp) (rule witness_step.intros [OF c], simp)
  from witness_answers_agree [OF toy_witness_inv this ab] c ab show ?thesis
    by (auto simp: unix_milli_def)
qed

section \<open>Where they do not\<close>

text \<open>When the log append of a countersignature fails, the head has already been remembered: the
  node is refused its countersignature, and from then on the witness's signed answers contradict the
  ones it gave before, with nothing but a database error in between (\<^verbatim>\<open>Countersign\<close> saves the head
  before the log record and does not undo it).\<close>

theorem failed_append_contradicts:
  assumes "witness_inv ed st" "Countersign ed io now s st = Some (st', Inl (CsNotLogged e))"
    and "seen_seq (ws_node s) (snd st) < ws_seq s"
    and "LastSeenSigned ed False ta (ws_node s) st = Inr a" "LastSeenSigned ed False tb (ws_node s) st' = Inr b"
  shows "Contradicts a b \<and> VerifyLastSeen ed a = None \<and> VerifyLastSeen ed b = None"
proof -
  obtain w db w' db' where st: "st = (w, db)" "st' = (w', db')" by (cases st, cases st')
  have ed: "ed_correct ed (wi_keys w)" using assms(1) st by (simp add: witness_inv_def)
  from assms(1,2) show ?thesis
    unfolding st
  proof (cases rule: Countersign_step)
    case (unlogged w1)
    from unlogged(5) have node: "ws_node s \<noteq> []" by (rule countersign_check_passed) blast
    from unlogged(3) assms(1) have "wi_log_size w' = wi_log_size w"
      by (simp add: witness_inv_def st unlogged(6))
    with assms(3-5) unlogged(4,6) ed node PublicB64_nonempty [OF ed] show ?thesis
      by (auto simp: st LastSeenSigned_def Let_def Contradicts_def seen_seq_def signed_head_def VerifyLastSeen_def
          lastSeenPayload_def)
  next
    case (refused err)
    from refused(1) refused(2) [of e] show ?thesis by simp
  qed simp_all
qed

theorem failed_append_contradicts_witness:
  "\<exists>st' e a b. Countersign toy_ed (\<lambda>k. k = 3) (\<lambda>_. 0) (toy_statement toy_keys ''x'') (toy_witness, empty_db)
        = Some (st', Inl (CsNotLogged e)) \<and> Contradicts a b
     \<and> VerifyLastSeen toy_ed a = None \<and> VerifyLastSeen toy_ed b = None"
proof -
  let ?s = "toy_statement toy_keys ''x''" and ?io = "\<lambda>k :: nat. k = 3"
  have ck: "countersign_check toy_ed ?io 0 ?s (toy_witness, empty_db) = (toy_witness, None)"
    by (rule toy_check_passes) (simp_all add: toy_witness_def last_head_def empty_db_def)
  obtain w' db' out where c: "Countersign toy_ed ?io (\<lambda>_. 0) ?s (toy_witness, empty_db) = Some ((w', db'), out)"
    using Countersign_total [OF toy_witness_inv] by blast
  have out: "out = Inl (CsNotLogged DbFault)"
    using c ck by (simp add: Countersign_eq countersign_commit_eq appendLogLocked_def AppendWitnessLog_def Let_def)
  obtain a b where "LastSeenSigned toy_ed False 0 ''n1'' (toy_witness, empty_db) = Inr a"
    "LastSeenSigned toy_ed False 0 ''n1'' (w', db') = Inr b"
    by (simp add: LastSeenSigned_def Let_def)
  from failed_append_contradicts [OF toy_witness_inv c [unfolded out], of 0 a 0 b] this c out show ?thesis
    by (auto simp: seen_seq_def last_head_def empty_db_def)
qed

text \<open>Two statements handled at once: for a node not seen before, the checks of two heads of the
  same size pass on the same state, and then both are signed, logged and remembered in turn, so one
  honest witness holds out two different histories of one node (the checks of \<^verbatim>\<open>Countersign\<close> and its
  commit are not under one lock, and the HTTP handler runs them concurrently).\<close>

theorem concurrent_countersign_splits:
  "\<exists>w1 db1 cs1 w2 db2 cs2.
     countersign_check toy_ed (\<lambda>_. False) 0 (toy_statement toy_keys ''x'') (toy_witness, empty_db) = (toy_witness, None)
   \<and> countersign_check toy_ed (\<lambda>_. False) 0 (toy_statement toy_keys ''y'') (toy_witness, empty_db) = (toy_witness, None)
   \<and> countersign_commit toy_ed (\<lambda>_. False) 0 (toy_statement toy_keys ''x'') (toy_witness, empty_db) = Some ((w1, db1), Inr cs1)
   \<and> countersign_commit toy_ed (\<lambda>_. False) 0 (toy_statement toy_keys ''y'') (w1, db1) = Some ((w2, db2), Inr cs2)
   \<and> map (\<lambda>r. (wl_node r, wl_node_seq r, wl_merkle_root r)) (db_log db2)
       = [(''n1'', 1, hash_String (LeafHash ''x'')), (''n1'', 1, hash_String (LeafHash ''y''))]"
proof -
  have commit: "\<exists>w' db' cs. countersign_commit toy_ed (\<lambda>_. False) 0 s (w, db) = Some ((w', db'), Inr cs)
      \<and> witness_inv toy_ed (w', db')
      \<and> map (\<lambda>r. (wl_node r, wl_node_seq r, wl_merkle_root r)) (db_log db')
        = map (\<lambda>r. (wl_node r, wl_node_seq r, wl_merkle_root r)) (db_log db) @ [(ws_node s, ws_seq s, ws_merkle_root s)]"
    if "witness_inv toy_ed (w, db)" for w db s
  proof -
    have "witness_inv toy_ed (w, put_head (signed_head s (unix_milli 0)) db)" using that by simp
    then show ?thesis
      by (cases rule: appendLog_step [where fault = False and s = s
            and sig = "countersigned toy_ed (wi_keys w) s" and ts = "unix_milli 0"])
        (auto simp: countersign_commit_eq logged_def)
  qed
  obtain w1 db1 cs1 where 1: "countersign_commit toy_ed (\<lambda>_. False) 0 (toy_statement toy_keys ''x'') (toy_witness, empty_db)
      = Some ((w1, db1), Inr cs1)" "witness_inv toy_ed (w1, db1)"
    "map (\<lambda>r. (wl_node r, wl_node_seq r, wl_merkle_root r)) (db_log db1) = [(''n1'', 1, hash_String (LeafHash ''x''))]"
    using commit [OF toy_witness_inv, of "toy_statement toy_keys ''x''"] by (auto simp: empty_db_def)
  obtain w2 db2 cs2 where 2: "countersign_commit toy_ed (\<lambda>_. False) 0 (toy_statement toy_keys ''y'') (w1, db1)
      = Some ((w2, db2), Inr cs2)"
    "map (\<lambda>r. (wl_node r, wl_node_seq r, wl_merkle_root r)) (db_log db2)
       = [(''n1'', 1, hash_String (LeafHash ''x'')), (''n1'', 1, hash_String (LeafHash ''y''))]"
    using commit [OF 1(2), of "toy_statement toy_keys ''y''"] 1(3) by auto
  have ck: "countersign_check toy_ed (\<lambda>_. False) 0 (toy_statement toy_keys x) (toy_witness, empty_db)
      = (toy_witness, None)" for x
    by (rule toy_check_passes) (simp_all add: toy_witness_def last_head_def empty_db_def)
  show ?thesis by (intro exI conjI, rule ck, rule ck, rule 1(1), rule 2(1), rule 2(2))
qed

end
