(* ===== verification/Evidence_Properties.thy ===== *)
theory Evidence_Properties
  imports Ledger_Properties
begin

text \<open>
  What the offline verification and the key history show, and that a key handover is one
  transaction.
\<close>

section \<open>The key history\<close>

definition toy_keys2 :: keypair where
  "toy_keys2 = \<lparr>kp_public = replicate 32 (CHR ''j''), kp_private = replicate 64 (CHR ''j'')\<rparr>"

lemma toy_correct2 [simp]: "ed_correct toy_ed toy_keys2"
  by (simp add: ed_correct_def toy_ed_def toy_keys2_def PublicKeySize_def SignatureSize_def)

definition toy_rotation :: succession_row where
  "toy_rotation = (let p = SuccessionPayload 3 (PublicB64 toy_keys) (PublicB64 toy_keys2) 9 in
     \<lparr>su_seq = 3, su_from_pubkey = PublicB64 toy_keys, su_to_pubkey = PublicB64 toy_keys2,
      su_from_sig = keypair_Sign toy_ed toy_keys p, su_to_sig = keypair_Sign toy_ed toy_keys2 p,
      su_reason = [], su_ts = 9\<rparr>)"

lemma toy_keys_differ [simp]: "PublicB64 toy_keys \<noteq> PublicB64 toy_keys2"
  by (simp add: PublicB64_def toy_keys_def toy_keys2_def)

lemma toy_honest: "honest_history toy_ed [toy_rotation] (PublicB64 toy_keys2)"
  by (simp add: honest_history_def VerifySuccession_def toy_rotation_def Let_def maxSeq_def)

lemma toy_key_nonempty: "PublicB64 toy_keys2 \<noteq> []" "PublicB64 toy_keys \<noteq> []"
  by (rule PublicB64_nonempty [OF toy_correct2], rule PublicB64_nonempty [OF toy_correct])

text \<open>A key timeline the verifier builds is a history: its segments end with the trusted key, their
  ends strictly increase, no key returns, each key was handed to the next by a stored row both of them
  signed, and no stored row is left out.\<close>

theorem timeline_is_signed_history:
  assumes "BuildKeyTimeline ed rows trusted = Inr t"
  shows "successively (handover ed rows) (kt_segments t)
    \<and> sorted_wrt (<) (map ks_up_to (kt_segments t)) \<and> distinct (map ks_pubkey (kt_segments t))
    \<and> kt_segments t \<noteq> [] \<and> last (kt_segments t) = \<lparr>ks_up_to = maxSeq, ks_pubkey = trusted\<rparr>
    \<and> length (kt_segments t) = Suc (length rows) \<and> kt_rotations t = length rows"
  using BuildKeyTimeline_sound [OF assms] by simp

theorem timeline_is_signed_history_witness:
  "\<exists>t. BuildKeyTimeline toy_ed [toy_rotation] (PublicB64 toy_keys2) = Inr t
    \<and> successively (handover toy_ed [toy_rotation]) (kt_segments t)
    \<and> sorted_wrt (<) (map ks_up_to (kt_segments t)) \<and> distinct (map ks_pubkey (kt_segments t))
    \<and> kt_segments t \<noteq> [] \<and> last (kt_segments t) = \<lparr>ks_up_to = maxSeq, ks_pubkey = PublicB64 toy_keys2\<rparr>
    \<and> length (kt_segments t) = Suc (length [toy_rotation]) \<and> kt_rotations t = length [toy_rotation]"
proof -
  obtain t where t: "BuildKeyTimeline toy_ed [toy_rotation] (PublicB64 toy_keys2) = Inr t"
    using BuildKeyTimeline_complete [OF toy_honest, of "[toy_rotation]"] toy_key_nonempty by simp
  from t timeline_is_signed_history [OF t] show ?thesis by blast
qed

text \<open>Every history a rotating node writes is read back from its newest key alone, whatever order
  the rows come in: the timeline gives each old key up to its handover and the new key after, and the
  key in force at a sequence number is the one that held it.\<close>

theorem timeline_reads_back_history:
  assumes "honest_history ed rs trusted" "set rows = set rs" "distinct rows" "trusted \<noteq> []"
  shows "BuildKeyTimeline ed rows trusted =
    Inr \<lparr>kt_segments = map segment_of rs @ [\<lparr>ks_up_to = maxSeq, ks_pubkey = trusted\<rparr>],
         kt_rotations = length rs\<rparr>"
  by (rule BuildKeyTimeline_complete [OF assms])

theorem timeline_reads_back_history_witness:
  "BuildKeyTimeline toy_ed [toy_rotation] (PublicB64 toy_keys2) =
    Inr \<lparr>kt_segments = map segment_of [toy_rotation] @ [\<lparr>ks_up_to = maxSeq, ks_pubkey = PublicB64 toy_keys2\<rparr>],
         kt_rotations = length [toy_rotation]\<rparr>"
  by (rule timeline_reads_back_history [OF toy_honest]) (simp_all add: toy_key_nonempty)

section \<open>Offline verification\<close>

text \<open>C17: No false alarm: the database of a ledger that kept its invariant is reported sound, with every
  checkpoint valid, if no read fails, its entries can be read back from their bytes, it is verified with a
  key whose timeline gives each checkpoint the key it was signed with, and the countersignatures it stores
  are over heads it checkpointed. The last is not kept by \<^verbatim>\<open>RecordCountersignature\<close>, which
  stores what any key signed over any root.\<close>

theorem honest_ledger_is_sound:
  assumes "db_inv ed node db es" "list_all entry_ok es"
    and "BuildKeyTimeline ed (sort_key su_seq (db_successions db)) pub = Inr t"
    and "\<forall>c \<in> set (db_checkpoints db). KeyAt t (cp_seq c) = cp_pubkey c"
    and "countersigned_ok ed node db"
  shows "\<exists>r. Verify ed (\<lambda>_. False) db pub = Some (Inr r) \<and> Report_Sound r \<and> rp_total r = length es
    \<and> rp_merkle_root r = hash_String (MerkleRoot (leaves es))
    \<and> rp_timeline r = kt_segments t \<and> rp_checkpoints_valid r = length (db_checkpoints db)"
  by (rule Verify_honest [OF assms])

definition toy_sealed :: entry where
  "toy_sealed = toy_entry\<lparr>en_capability := ''motor.door'', en_actor := ''a'', en_policy := ''p'',
     en_decision := ''allow'', en_outcome := ''delivered''\<rparr>"

definition toy_db :: ledger_db where
  "toy_db = empty_db\<lparr>db_entries := [\<lparr>er_seq = 1, er_hash = Entry_Hash toy_sealed,
     er_session = en_session toy_sealed, er_entry = Marshal_Entry toy_sealed, er_ts = 0\<rparr>],
     db_checkpoints := [\<lparr>cp_seq = 1, cp_head_hash = Entry_Hash toy_sealed, cp_pubkey = PublicB64 toy_keys,
       cp_signature = keypair_Sign toy_ed toy_keys (checkpointPayload 1 (Entry_Hash toy_sealed)
         (hash_String (MerkleRoot (leaves [toy_sealed])))),
       cp_ts = 0, cp_merkle_root = hash_String (MerkleRoot (leaves [toy_sealed]))\<rparr>]\<rparr>"

lemma toy_db_inv: "db_inv toy_ed ''n1'' toy_db [toy_sealed]"
  by (simp add: db_inv_def toy_db_def empty_db_def stored_def toy_sealed_def toy_entry_def zero_entry_def
      authorized_def well_worded_def PolicyDecisions_def EffectOutcomes_def checkpoint_ok_def)

lemma toy_sealed_ok: "list_all entry_ok [toy_sealed]"
  using toy_entry_ok by (simp add: entry_ok_def toy_sealed_def in_range_def)

lemma toy_timeline:
  "BuildKeyTimeline toy_ed (sort_key su_seq (db_successions toy_db)) (PublicB64 toy_keys)
   = Inr \<lparr>kt_segments = [\<lparr>ks_up_to = maxSeq, ks_pubkey = PublicB64 toy_keys\<rparr>], kt_rotations = 0\<rparr>"
  by (simp add: BuildKeyTimeline_def toy_key_nonempty toy_db_def empty_db_def)

lemma toy_checkpoint_key:
  "\<forall>c \<in> set (db_checkpoints toy_db). KeyAt \<lparr>kt_segments = [\<lparr>ks_up_to = maxSeq, ks_pubkey = PublicB64 toy_keys\<rparr>],
     kt_rotations = 0\<rparr> (cp_seq c) = cp_pubkey c"
  by (simp add: toy_db_def KeyAt_def maxSeq_def)

lemma toy_countersigned: "countersigned_ok toy_ed ''n1'' toy_db"
  by (simp add: countersigned_ok_def toy_db_def empty_db_def)

lemmas toy_verifies = Verify_honest [OF toy_db_inv toy_sealed_ok toy_timeline toy_checkpoint_key toy_countersigned]

theorem honest_ledger_is_sound_witness:
  "\<exists>r. Verify toy_ed (\<lambda>_. False) toy_db (PublicB64 toy_keys) = Some (Inr r) \<and> Report_Sound r
    \<and> rp_total r = length [toy_sealed]
    \<and> rp_merkle_root r = hash_String (MerkleRoot (leaves [toy_sealed]))
    \<and> rp_timeline r = kt_segments \<lparr>kt_segments = [\<lparr>ks_up_to = maxSeq, ks_pubkey = PublicB64 toy_keys\<rparr>], kt_rotations = 0\<rparr>
    \<and> rp_checkpoints_valid r = length (db_checkpoints toy_db)"
  by (rule honest_ledger_is_sound [OF toy_db_inv toy_sealed_ok toy_timeline toy_checkpoint_key toy_countersigned])

text \<open>C16: A sound report means what it says: the stored bytes decode to entries numbered without a gap
  and chained by their recomputed hashes, as many as the report counts, the reported root is the tree
  head over the stored bytes, and no approval among them fails its signature.\<close>

theorem sound_report_means_chained:
  assumes "Verify ed io db pub = Some (Inr r)" "Report_Sound r"
  shows "\<exists>raws es. LedgerEntries False 1 0 db = Inr raws \<and> decoded raws es \<and> chained 0 [] es
    \<and> rp_total r = length es \<and> rp_merkle_root r = hash_String (MerkleRoot (map LeafHash raws))
    \<and> (\<forall>e \<in> set es. \<not> invalid_approval ed e)"
  by (rule Sound_entries [OF assms])

theorem sound_report_means_chained_witness:
  "\<exists>r raws es. Verify toy_ed (\<lambda>_. False) toy_db (PublicB64 toy_keys) = Some (Inr r)
    \<and> LedgerEntries False 1 0 toy_db = Inr raws \<and> decoded raws es \<and> chained 0 [] es
    \<and> rp_total r = length es \<and> rp_merkle_root r = hash_String (MerkleRoot (map LeafHash raws))"
  using toy_verifies sound_report_means_chained by blast

text \<open>C6: Tampering with anything a checkpoint covers shows: if a database verifies as sound and holds a
  checkpoint over the tree head of the true first entries, then the entries it stores up to that
  checkpoint are, byte for byte, the true ones, or two hashed byte strings collide. Nothing before a
  signed checkpoint can be changed, dropped, inserted or reordered.\<close>

theorem tampering_shows:
  assumes "Verify ed io db pub = Some (Inr r)" "Report_Sound r" "pub \<noteq> []"
    and "c \<in> set (db_checkpoints db)"
    and "cp_merkle_root c = hash_String (MerkleRoot (map LeafHash true_raws))"
  shows "\<exists>raws. LedgerEntries False 1 0 db = Inr raws \<and> cp_seq c \<le> length raws
    \<and> (take (cp_seq c) raws = true_raws
       \<or> collision (head_inputs (take (cp_seq c) raws) @ head_inputs true_raws))"
proof -
  have "cp_merkle_root c \<noteq> []" using assms(5) by simp
  from Sound_checkpoint [OF assms(1-4) this] obtain raws where
    raws: "LedgerEntries False 1 0 db = Inr raws" "cp_seq c \<le> length raws"
      "cp_merkle_root c = hash_String (MerkleRoot (map LeafHash (take (cp_seq c) raws)))" by blast
  then have "MerkleRoot (map LeafHash (take (cp_seq c) raws)) = MerkleRoot (map LeafHash true_raws)"
    using assms(5) by simp
  from head_inject [OF _ this] have
    "take (cp_seq c) raws = true_raws \<or> collision (head_inputs (take (cp_seq c) raws) @ head_inputs true_raws)"
    by (simp add: collision_iff) blast
  with raws show ?thesis by blast
qed

theorem tampering_shows_witness:
  "\<exists>raws. LedgerEntries False 1 0 toy_db = Inr raws \<and> 1 \<le> length raws
    \<and> (take 1 raws = [Marshal_Entry toy_sealed]
       \<or> collision (head_inputs (take 1 raws) @ head_inputs [Marshal_Entry toy_sealed]))"
proof -
  obtain r where r: "Verify toy_ed (\<lambda>_. False) toy_db (PublicB64 toy_keys) = Some (Inr r)" "Report_Sound r"
    using toy_verifies by blast
  from tampering_shows [OF r toy_key_nonempty(2), of "hd (db_checkpoints toy_db)" "[Marshal_Entry toy_sealed]"]
  show ?thesis by (simp add: toy_db_def leaves_def)
qed

section \<open>A handover is one transaction\<close>

text \<open>\<^verbatim>\<open>CommitSuccession\<close> is atomic: on an error the database is what it was; otherwise the handover
  is recorded and every stored secret is the old one under the new key, none dropped and none left under
  the old, and no key appears twice on either side of a handover.\<close>

theorem succession_commit_atomic:
  assumes "CommitSuccession io rec reseal db = (db', out)" "distinct (map se_name (db_secrets db))"
  shows "(\<exists>e. out = Inl e \<and> db' = db)
    \<or> (out = Inr (length (db_secrets db)) \<and> db_successions db' = db_successions db @ [rec]
       \<and> list_all (\<lambda>r. su_from_pubkey r \<noteq> su_from_pubkey rec \<and> su_to_pubkey r \<noteq> su_to_pubkey rec) (db_successions db)
       \<and> map se_name (db_secrets db') = map se_name (db_secrets db)
       \<and> (\<forall>r \<in> set (db_secrets db'). \<exists>s \<in> set (db_secrets db). se_name s = se_name r
            \<and> reseal (se_name s) (se_ciphertext s) = Some (se_ciphertext r)))"
proof (cases out)
  case (Inl e)
  with assms(1) show ?thesis
    by (auto simp: CommitSuccession_def split: if_splits sum.splits)
next
  case (Inr n)
  with assms(1) obtain table where
    t: "reseal_all io reseal (su_ts rec) 4 (sort_key se_name (db_secrets db)) (db_secrets db) = Inr table"
    and db': "db' = db\<lparr>db_successions := db_successions db @ [rec], db_secrets := table\<rparr>"
    and n: "n = length (db_secrets db)"
    and fresh: "\<not> list_ex (\<lambda>r. su_seq r = su_seq rec \<or> su_from_pubkey r = su_from_pubkey rec
       \<or> su_to_pubkey r = su_to_pubkey rec) (db_successions db)"
    by (auto simp: CommitSuccession_def split: if_splits sum.splits)
  have d: "distinct (map se_name (sort_key se_name (db_secrets db)))"
    using assms(2) by (simp add: distinct_map)
  have "set (map se_name table) = set (map se_name (db_secrets db))"
    using reseal_all_names [OF t] by simp
  with reseal_all_contents [OF t d] have "\<forall>r \<in> set table. \<exists>s \<in> set (db_secrets db). se_name s = se_name r
      \<and> reseal (se_name s) (se_ciphertext s) = Some (se_ciphertext r)" by fastforce
  with reseal_all_names [OF t] fresh show ?thesis
    by (simp add: Inr n db' list_ex_iff list_all_iff)
qed

theorem succession_commit_atomic_witness:
  "\<exists>db' out. CommitSuccession (\<lambda>_. False) toy_rotation (\<lambda>n c. Some (c @ ''!''))
      (empty_db\<lparr>db_secrets := [\<lparr>se_name = ''a'', se_ciphertext = ''x'', se_updated = 0\<rparr>]\<rparr>) = (db', out)
    \<and> ((\<exists>e. out = Inl e \<and> db' = empty_db\<lparr>db_secrets := [\<lparr>se_name = ''a'', se_ciphertext = ''x'', se_updated = 0\<rparr>]\<rparr>)
       \<or> out = Inr 1 \<and> db_successions db' = [toy_rotation])"
proof -
  let ?db = "empty_db\<lparr>db_secrets := [\<lparr>se_name = ''a'', se_ciphertext = ''x'', se_updated = 0\<rparr>]\<rparr>"
  obtain db' out where c: "CommitSuccession (\<lambda>_. False) toy_rotation (\<lambda>n c. Some (c @ ''!'')) ?db = (db', out)"
    by fastforce
  have "distinct (map se_name (db_secrets ?db))" by simp
  from succession_commit_atomic [OF c this] have "(\<exists>e. out = Inl e \<and> db' = ?db)
      \<or> (out = Inr 1 \<and> db_successions db' = [toy_rotation])"
    by (auto simp: empty_db_def)
  with c show ?thesis by blast
qed

end
