(* ===== verification/Witness_Live.thy ===== *)
theory Witness_Live
  imports Witness_Properties Evidence_Properties
begin

text \<open>
  A node and a witness together: the statement a ledger makes about itself is countersigned, and the
  countersignature is one the ledger records.
\<close>

lemma LastCheckpoint_max:
  assumes "c \<in> set (db_checkpoints db)" "\<forall>d \<in> set (db_checkpoints db). cp_seq d \<le> cp_seq c"
  shows "\<exists>d. LastCheckpoint False db = Inr (Some d) \<and> d \<in> set (db_checkpoints db) \<and> cp_seq d = cp_seq c"
proof -
  let ?xs = "sort_key cp_seq (db_checkpoints db)"
  have ne: "?xs \<noteq> []" using assms(1) by (metis empty_iff empty_set set_sort)
  then obtain ys d where xs: "?xs = ys @ [d]" by (cases ?xs rule: rev_cases) simp_all
  have d: "d \<in> set (db_checkpoints db)" using xs by (metis in_set_conv_decomp set_sort)
  have "sorted (map cp_seq (ys @ [d]))" using sorted_sort_key [of cp_seq "db_checkpoints db"] xs by simp
  moreover have "c \<in> set (ys @ [d])" using assms(1) xs by (metis set_sort)
  ultimately have "cp_seq c \<le> cp_seq d" by (auto simp: sorted_append)
  with assms(2) d have "cp_seq d = cp_seq c" by (simp add: order_antisym)
  with d xs show ?thesis by (simp add: LastCheckpoint_def)
qed

lemma Head_inv:
  assumes "ledger_inv ed s es"
  shows "hd_seq (Head (fst s)) = length es" "hd_node (Head (fst s)) = lg_node (fst s)"
    "hd_head_hash (Head (fst s)) = chain_head [] es" "hd_pubkey (Head (fst s)) = PublicB64 (lg_keys (fst s))"
    "hd_merkle_root (Head (fst s)) = hash_String (MerkleRoot (leaves es))"
  using assms ct.head_repr [of "lg_tree (fst s)" "leaves es"]
  by (simp_all add: Head_def ledger_inv_def)

text \<open>After \<^verbatim>\<open>Checkpoint\<close> there is a checkpoint at the head, under the ledger's own key if there was none.\<close>

lemma Checkpoint_head:
  assumes inv: "ledger_inv ed s es" and ne: "es \<noteq> []"
    and fresh: "\<forall>c \<in> set (db_checkpoints (snd s)). cp_seq c \<noteq> length es"
  shows "\<exists>s' c. Checkpoint ed (\<lambda>_. False) now s = (s', None) \<and> ledger_inv ed s' es
    \<and> lg_node (fst s') = lg_node (fst s) \<and> lg_keys (fst s') = lg_keys (fst s)
    \<and> c \<in> set (db_checkpoints (snd s')) \<and> cp_seq c = length es
    \<and> (\<forall>d \<in> set (db_checkpoints (snd s')). cp_seq d = length es \<longrightarrow> cp_pubkey d = PublicB64 (lg_keys (fst s)))"
proof -
  obtain l db where s: "s = (l, db)" by (cases s)
  have l: "lg_last_seq l = length es" "lg_pub l = PublicB64 (lg_keys l)" using inv by (simp_all add: s ledger_inv_def)
  let ?root = "hash_String (ct_Root (lg_tree l))"
  let ?c = "\<lparr>cp_seq = lg_last_seq l, cp_head_hash = lg_last_hash l, cp_pubkey = lg_pub l,
      cp_signature = keypair_Sign ed (lg_keys l) (checkpointPayload (lg_last_seq l) (lg_last_hash l) ?root),
      cp_ts = unix_milli (now 0), cp_merkle_root = ?root\<rparr>"
  have sv: "SaveCheckpoint False ?c db = Inr (db\<lparr>db_checkpoints := db_checkpoints db @ [?c]\<rparr>)"
    using fresh by (auto simp: SaveCheckpoint_def list_ex_iff s l)
  have ck: "Checkpoint ed (\<lambda>_. False) now s
      = ((l\<lparr>lg_since := 0, lg_last_cp_at := now 1\<rparr>, db\<lparr>db_checkpoints := db_checkpoints db @ [?c]\<rparr>), None)"
    using ne fresh sv
    by (auto simp: Checkpoint_def LedgerCheckpoints_def list_ex_iff s l sealCheckpointLocked_def Let_def)
  with Checkpoint_inv [OF inv, of "\<lambda>_. False" now] fresh show ?thesis
    by (intro exI [of _ "(l\<lparr>lg_since := 0, lg_last_cp_at := now 1\<rparr>, db\<lparr>db_checkpoints := db_checkpoints db @ [?c]\<rparr>)"]
        exI [of _ ?c]) (auto simp: s l)
qed

lemma wf_subProof: "wf_hashes hs \<Longrightarrow> wf_hashes (subProof hs m b)"
proof (induction hs m b rule: subProof.induct)
  case (1 hs m b)
  then show ?case by (subst subProof.simps) (simp add: Let_def)
qed

lemma wf_ConsistencyProof: "wf_hashes hs \<Longrightarrow> ConsistencyProof hs m n = Inr p \<Longrightarrow> wf_hashes p"
  by (auto simp: ConsistencyProof_def wf_subProof split: if_splits)

text \<open>The statement of a ledger, and what it carries.\<close>

lemma consistencyProof_inv:
  assumes "ledger_inv ed s es" "length es < 2 ^ 63" "k \<le> length es"
  shows "\<exists>p. ledger_consistencyProof False (snd s) k (length es) = Inr (map hash_String p) \<and> wf_hashes p
    \<and> VerifyConsistency (int k) (int (length es)) (MerkleRoot (leaves (take k es))) (MerkleRoot (leaves es)) p"
proof -
  obtain p where p: "ConsistencyProof (leaves es) (int k) (int (length es)) = Inr p"
    using assms(3) by (cases "ConsistencyProof (leaves es) (int k) (int (length es))")
      (auto simp: ConsistencyProof_def split: if_splits)
  have "map LeafHash (map Marshal_Entry es) = leaves es" by (simp add: leaves_def)
  moreover have "LedgerEntries False 1 0 (snd s) = Inr (map Marshal_Entry es)"
    using assms(1) db_inv_entries unfolding ledger_inv_def by blast
  moreover have "wf_hashes p" using wf_ConsistencyProof [OF _ p] by (simp add: leaves_def list_all_iff)
  ultimately show ?thesis
    using p VerifyConsistency_complete [OF p] assms(2,3)
    by (intro exI [of _ p]) (simp add: ledger_consistencyProof_def uint_to_int_small)
qed

definition statement_of :: "ledger \<Rightarrow> checkpoint_row \<Rightarrow> wit_statement" where
  "statement_of l c = (let h = Head l in
     \<lparr>ws_node = hd_node h, ws_seq = hd_seq h, ws_head_hash = hd_head_hash h, ws_merkle_root = hd_merkle_root h,
      ws_pubkey = hd_pubkey h, ws_signature = cp_signature c, ws_from_seq = 0, ws_consistency = []\<rparr>)"

lemma ledger_Statement_checkpointed:
  assumes inv: "ledger_inv ed s es" and ne: "es \<noteq> []" and k: "k \<le> length es"
    and own: "\<forall>c \<in> set (db_checkpoints (snd s)). cp_seq c = length es \<longrightarrow> cp_pubkey c = PublicB64 (lg_keys (fst s))"
  shows "\<exists>s' c. ledger_inv ed s' es \<and> lg_node (fst s') = lg_node (fst s)
    \<and> checkpoint_ok ed es c \<and> cp_seq c = length es \<and> cp_pubkey c = PublicB64 (lg_keys (fst s))
    \<and> ledger_Statement ed (\<lambda>_. False) now k s =
        (if 0 < k \<and> k < length es
         then (case ledger_consistencyProof False (snd s') k (length es) of
                 Inl e \<Rightarrow> (s', Inl e)
               | Inr proof \<Rightarrow> (s', Inr ((statement_of (fst s) c)\<lparr>ws_from_seq := k, ws_consistency := proof\<rparr>)))
         else (s', Inr (statement_of (fst s) c)))"
proof -
  note h = Head_inv [OF inv]
  have cps: "\<forall>c \<in> set (db_checkpoints (snd t)). cp_seq c \<le> length es \<and> checkpoint_ok ed es c"
    if "ledger_inv ed t es" for t
    using that by (auto simp: ledger_inv_def db_inv_def list_all_iff checkpoint_ok_def)
  show ?thesis
  proof (cases "\<exists>c \<in> set (db_checkpoints (snd s)). cp_seq c = length es")
    case True
    then obtain c0 where c0: "c0 \<in> set (db_checkpoints (snd s))" "cp_seq c0 = length es" by blast
    then obtain c where c: "LastCheckpoint False (snd s) = Inr (Some c)" "c \<in> set (db_checkpoints (snd s))"
      "cp_seq c = length es"
      using LastCheckpoint_max [OF c0(1)] cps [OF inv] by metis
    have "checkpoint_ok ed es c" "cp_pubkey c = PublicB64 (lg_keys (fst s))"
      using cps [OF inv] own c(2,3) by auto
    with inv c ne k show ?thesis
      by (intro exI [of _ s] exI [of _ c]) (simp add: ledger_Statement_def h Let_def statement_of_def cong: sum.case_cong option.case_cong)
  next
    case False
    then have fresh: "\<forall>c \<in> set (db_checkpoints (snd s)). cp_seq c \<noteq> length es" by blast
    obtain s1 c0 where s1: "Checkpoint ed (\<lambda>_. False) now s = (s1, None)" "ledger_inv ed s1 es"
      "lg_node (fst s1) = lg_node (fst s)" and c0: "c0 \<in> set (db_checkpoints (snd s1))" "cp_seq c0 = length es"
      and own1: "\<forall>d \<in> set (db_checkpoints (snd s1)). cp_seq d = length es \<longrightarrow> cp_pubkey d = PublicB64 (lg_keys (fst s))"
      using Checkpoint_head [OF inv ne fresh] by metis
    obtain c where c: "LastCheckpoint False (snd s1) = Inr (Some c)" "c \<in> set (db_checkpoints (snd s1))"
      "cp_seq c = length es"
      using LastCheckpoint_max [OF c0(1)] cps [OF s1(2)] c0(2) by metis
    have ok: "checkpoint_ok ed es c" "cp_pubkey c = PublicB64 (lg_keys (fst s))"
      using cps [OF s1(2)] own1 c(2,3) by auto
    obtain m where m: "LastCheckpoint False (snd s) = Inr m"
      by (cases "rev (sort_key cp_seq (db_checkpoints (snd s)))") (simp_all add: LastCheckpoint_def)
    have "\<not> (case m of None \<Rightarrow> False | Some c \<Rightarrow> cp_seq c = length es)"
    proof (cases m)
      case (Some d)
      have "d \<in> set (rev (sort_key cp_seq (db_checkpoints (snd s))))"
        using m Some by (cases "rev (sort_key cp_seq (db_checkpoints (snd s)))") (simp_all add: LastCheckpoint_def)
      with fresh Some show ?thesis by simp
    qed simp
    with s1 c ok ne k m show ?thesis
      by (intro exI [of _ s1] exI [of _ c]) (simp add: ledger_Statement_def h Let_def statement_of_def cong: sum.case_cong option.case_cong)
  qed
qed

lemma statement_of_inv:
  assumes "ledger_inv ed s es" "es \<noteq> []" "checkpoint_ok ed es c" "cp_seq c = length es"
    "cp_pubkey c = PublicB64 (lg_keys (fst s))"
  shows "ws_node (statement_of (fst s) c) = lg_node (fst s)" "ws_seq (statement_of (fst s) c) = length es"
    "ws_merkle_root (statement_of (fst s) c) = hash_String (MerkleRoot (leaves es))"
    "ws_pubkey (statement_of (fst s) c) = PublicB64 (lg_keys (fst s))"
    "ws_consistency (statement_of (fst s) c) = []"
    "signing_Verify ed (PublicB64 (lg_keys (fst s))) (ws_signature (statement_of (fst s) c))
       (checkpointPayload (length es) (ws_head_hash (statement_of (fst s) c)) (hash_String (MerkleRoot (leaves es)))) = None"
proof -
  have "cp_head_hash c = chain_head [] es"
    using assms(2,3,4) by (simp add: checkpoint_ok_def chain_head_def last_conv_nth)
  moreover have "cp_merkle_root c = hash_String (MerkleRoot (leaves es))"
    using assms(3,4) by (simp add: checkpoint_ok_def)
  ultimately show "ws_node (statement_of (fst s) c) = lg_node (fst s)" "ws_seq (statement_of (fst s) c) = length es"
    "ws_merkle_root (statement_of (fst s) c) = hash_String (MerkleRoot (leaves es))"
    "ws_pubkey (statement_of (fst s) c) = PublicB64 (lg_keys (fst s))"
    "ws_consistency (statement_of (fst s) c) = []"
    "signing_Verify ed (PublicB64 (lg_keys (fst s))) (ws_signature (statement_of (fst s) c))
       (checkpointPayload (length es) (ws_head_hash (statement_of (fst s) c)) (hash_String (MerkleRoot (leaves es)))) = None"
    using Head_inv [OF assms(1)] assms(3-5) unfolding checkpoint_ok_def
    by (simp_all add: statement_of_def Let_def) metis
qed

text \<open>What the witness remembers of the node is a head of this very history.\<close>

definition remembers :: "ledger_db \<Rightarrow> string \<Rightarrow> entry list \<Rightarrow> nat \<Rightarrow> bool" where
  "remembers db node es k \<longleftrightarrow> (case last_head node db of
      None \<Rightarrow> k = 0
    | Some h \<Rightarrow> wh_seq h = k \<and> 0 < k \<and> k \<le> length es
        \<and> wh_merkle_root h = hash_String (MerkleRoot (leaves (take k es))))"

lemma wf_leaves_es [simp]: "wf_hashes (leaves es)"
  by (simp add: leaves_def list_all_iff)

lemma statement_passes:
  assumes "ws_node st \<noteq> []" "ws_pubkey st \<noteq> []" "ws_seq st = length es" "es \<noteq> []"
    and "ws_merkle_root st = hash_String (MerkleRoot (leaves es))" "length es < 2 ^ 63"
    and "signing_Verify ed (ws_pubkey st) (ws_signature st)
           (checkpointPayload (ws_seq st) (ws_head_hash st) (ws_merkle_root st)) = None"
    and "remembers db (ws_node st) es k" "\<not> wi_open w"
    and "0 < k \<Longrightarrow> k < length es \<Longrightarrow> ws_from_seq st = k"
    and "0 < k \<Longrightarrow> \<exists>p. parse_proof (ws_consistency st) = Inr p
           \<and> VerifyConsistency (int k) (int (length es)) (MerkleRoot (leaves (take k es))) (MerkleRoot (leaves es)) p"
  shows "countersign_check ed (\<lambda>_. False) t st (w, db) = (w, None)"
proof (cases "last_head (ws_node st) db")
  case None
  with assms show ?thesis by (simp add: countersign_check_def witness_admit_def Let_def)
next
  case (Some h)
  have h: "wh_seq h = k" "0 < k" "k \<le> length es" "wh_merkle_root h = hash_String (MerkleRoot (leaves (take k es)))"
    using assms(8) Some by (simp_all add: remembers_def)
  have anchor: "k = length es \<or> ws_from_seq st = k" using assms(10) h(2,3) by (cases "k < length es") simp_all
  have "check_extends st (MerkleRoot (leaves es)) h = None"
    using assms(3,6) assms(11) [OF h(2)] h anchor
    unfolding check_extends_None h(4) by (auto simp: uint_to_int_small)
  with assms Some show ?thesis by (simp add: countersign_check_def witness_admit_def Let_def)
qed


text \<open>C26: A ledger that kept its invariant, has a name and holds at least one and fewer than
  $2^{63}$ entries is witnessed, if it has not rotated its key since the checkpoint at its head, if the
  witness is in its own invariant, keeps no limits (is not open to strangers) and remembers nothing of this node or a head of its
  history, and if neither database fails. The statement the ledger makes about itself, anchored where the
  witness last saw it, names the head of its history; the witness countersigns it and remembers that head;
  and the ledger accepts the countersignature and holds it afterwards, under the witness's key, over the
  root of its whole history.\<close>

theorem honest_ledger_is_witnessed:
  assumes "ledger_inv ed s es" "es \<noteq> []" "length es < 2 ^ 63" "lg_node (fst s) \<noteq> []"
    and "\<forall>c \<in> set (db_checkpoints (snd s)). cp_seq c = length es \<longrightarrow> cp_pubkey c = PublicB64 (lg_keys (fst s))"
    and "witness_inv ed (w, db)" "\<not> wi_open w" "remembers db (lg_node (fst s)) es k"
  shows "\<exists>s' st w' db' cs s''.
      ledger_Statement ed (\<lambda>_. False) now k s = (s', Inr st)
    \<and> Countersign ed (\<lambda>_. False) now' st (w, db) = Some ((w', db'), Inr cs)
    \<and> RecordCountersignature ed False (ws_seq st) (ws_merkle_root st) url cs s' = (s'', None)
    \<and> \<lparr>wr_seq = length es, wr_witness_key = PublicB64 (wi_keys w),
        wr_merkle_root = hash_String (MerkleRoot (leaves es)), wr_signature = cs_signature cs,
        wr_url = url, wr_ts = cs_ts cs\<rparr> \<in> set (db_witnesses (snd s''))
    \<and> signing_Verify ed (PublicB64 (wi_keys w)) (cs_signature cs)
        (witnessPayload (lg_node (fst s)) (length es) (hash_String (MerkleRoot (leaves es)))) = None
    \<and> remembers db' (lg_node (fst s)) es (length es)"
proof -
  note inv = assms(1) and ne = assms(2)
  have k: "k \<le> length es" using assms(8) by (simp add: remembers_def split: option.splits)
  obtain s' c where s': "ledger_inv ed s' es" "lg_node (fst s') = lg_node (fst s)"
    and c: "checkpoint_ok ed es c" "cp_seq c = length es" "cp_pubkey c = PublicB64 (lg_keys (fst s))"
    and eq: "ledger_Statement ed (\<lambda>_. False) now k s =
        (if 0 < k \<and> k < length es
         then (case ledger_consistencyProof False (snd s') k (length es) of
                 Inl e \<Rightarrow> (s', Inl e)
               | Inr proof \<Rightarrow> (s', Inr ((statement_of (fst s) c)\<lparr>ws_from_seq := k, ws_consistency := proof\<rparr>)))
         else (s', Inr (statement_of (fst s) c)))"
    using ledger_Statement_checkpointed [OF inv ne k assms(5)] by blast
  note so = statement_of_inv [OF inv ne c]
  obtain p where p: "ledger_consistencyProof False (snd s') k (length es) = Inr (map hash_String p)" "wf_hashes p"
    "VerifyConsistency (int k) (int (length es)) (MerkleRoot (leaves (take k es))) (MerkleRoot (leaves es)) p"
    using consistencyProof_inv [OF s'(1) assms(3) k] by blast
  define st where "st = (if 0 < k \<and> k < length es
      then (statement_of (fst s) c)\<lparr>ws_from_seq := k, ws_consistency := map hash_String p\<rparr>
      else statement_of (fst s) c)"
  have st: "ledger_Statement ed (\<lambda>_. False) now k s = (s', Inr st)" by (simp add: eq st_def p(1))
  have fields: "ws_node st = lg_node (fst s)" "ws_seq st = length es" "ws_pubkey st = PublicB64 (lg_keys (fst s))"
    "ws_merkle_root st = hash_String (MerkleRoot (leaves es))" "ws_head_hash st = ws_head_hash (statement_of (fst s) c)"
    "ws_signature st = ws_signature (statement_of (fst s) c)"
    by (simp_all add: st_def so)
  have "ed_correct ed (lg_keys (fst s))" using inv by (simp add: ledger_inv_def)
  then have pk: "ws_pubkey st \<noteq> []" by (simp add: fields PublicB64_nonempty)
  have "\<exists>p. parse_proof (ws_consistency st) = Inr p
      \<and> VerifyConsistency (int k) (int (length es)) (MerkleRoot (leaves (take k es))) (MerkleRoot (leaves es)) p"
    if "0 < k"
  proof (cases "k < length es")
    case True
    with that p show ?thesis by (simp add: st_def parse_proof_String)
  next
    case False
    with k have "k = length es" by simp
    then show ?thesis by (simp add: st_def so VerifyConsistency_def)
  qed
  then have ck: "countersign_check ed (\<lambda>_. False) (now' 0) st (w, db) = (w, None)"
    using fields pk so(6) assms(2-4,7,8) by (intro statement_passes [where k = k]) (simp_all add: st_def)
  obtain w' db' cs where cs: "Countersign ed (\<lambda>_. False) now' st (w, db) = Some ((w', db'), Inr cs)"
    "last_head (ws_node st) db' = Some (signed_head st (unix_milli (now' 1)))"
    "cs_witness_key cs = PublicB64 (wi_keys w)" "cs_signature cs = countersigned ed (wi_keys w) st"
    using Countersign_passes [where now = now', OF assms(6) ck] by auto
  have "ed_correct ed (wi_keys w)" using assms(6) by (simp add: witness_inv_def)
  then obtain s'' where "RecordCountersignature ed False (ws_seq st) (ws_merkle_root st) url cs s' = (s'', None)"
    "\<lparr>wr_seq = length es, wr_witness_key = PublicB64 (wi_keys w),
      wr_merkle_root = hash_String (MerkleRoot (leaves es)), wr_signature = cs_signature cs,
      wr_url = url, wr_ts = cs_ts cs\<rparr> \<in> set (db_witnesses (snd s''))"
    "signing_Verify ed (PublicB64 (wi_keys w)) (cs_signature cs)
      (witnessPayload (lg_node (fst s)) (length es) (hash_String (MerkleRoot (leaves es)))) = None"
    by (simp add: RecordCountersignature_def SaveWitness_def cs(3,4) countersigned_def s'(2) fields)
  moreover have "remembers db' (lg_node (fst s)) es (length es)"
    using cs(2) ne by (simp add: remembers_def signed_head_def fields)
  ultimately show ?thesis using st cs(1) by blast
qed


theorem honest_ledger_is_witnessed_witness:
  "\<exists>l s' st w' db' cs s''.
      ledger_Statement toy_ed (\<lambda>_. False) (\<lambda>_. 0) 0 (l, toy_db) = (s', Inr st)
    \<and> Countersign toy_ed (\<lambda>_. False) (\<lambda>_. 0) st (toy_witness, empty_db) = Some ((w', db'), Inr cs)
    \<and> RecordCountersignature toy_ed False (ws_seq st) (ws_merkle_root st) ''https://w'' cs s' = (s'', None)
    \<and> (\<exists>r \<in> set (db_witnesses (snd s'')). wr_seq r = 1 \<and> wr_witness_key r = PublicB64 (wi_keys toy_witness)
         \<and> wr_url r = ''https://w'')
    \<and> remembers db' ''n1'' [toy_sealed] 1"
proof -
  obtain l where l: "ledger_inv toy_ed (l, toy_db) [toy_sealed]" "lg_node l = ''n1''" "lg_keys l = toy_keys"
    using Open_inv [OF toy_db_inv toy_correct, of "\<lambda>_. 0"] by blast
  have own: "\<forall>c \<in> set (db_checkpoints (snd (l, toy_db))). cp_seq c = length [toy_sealed]
      \<longrightarrow> cp_pubkey c = PublicB64 (lg_keys (fst (l, toy_db)))"
    by (simp add: toy_db_def l)
  have rem: "remembers empty_db (lg_node (fst (l, toy_db))) [toy_sealed] 0"
    by (simp add: remembers_def last_head_def empty_db_def)
  have "\<not> wi_open toy_witness" by (simp add: toy_witness_def)
  from honest_ledger_is_witnessed [OF l(1) _ _ _ own toy_witness_inv this rem, of "\<lambda>_. 0" "\<lambda>_. 0" "''https://w''"]
  obtain s' st w' db' cs s'' where r:
    "ledger_Statement toy_ed (\<lambda>_. False) (\<lambda>_. 0) 0 (l, toy_db) = (s', Inr st)"
    "Countersign toy_ed (\<lambda>_. False) (\<lambda>_. 0) st (toy_witness, empty_db) = Some ((w', db'), Inr cs)"
    "RecordCountersignature toy_ed False (ws_seq st) (ws_merkle_root st) ''https://w'' cs s' = (s'', None)"
    and row: "\<lparr>wr_seq = length [toy_sealed], wr_witness_key = PublicB64 (wi_keys toy_witness),
        wr_merkle_root = hash_String (MerkleRoot (leaves [toy_sealed])), wr_signature = cs_signature cs,
        wr_url = ''https://w'', wr_ts = cs_ts cs\<rparr> \<in> set (db_witnesses (snd s''))"
    and m: "remembers db' (lg_node (fst (l, toy_db))) [toy_sealed] (length [toy_sealed])"
    by (auto simp del: leaves_simps simp: l(2))
  from row have "\<exists>r \<in> set (db_witnesses (snd s'')). wr_seq r = 1
      \<and> wr_witness_key r = PublicB64 (wi_keys toy_witness) \<and> wr_url r = ''https://w''"
    by (rule rev_bexI) simp
  moreover have "remembers db' ''n1'' [toy_sealed] 1" using m by (simp add: l(2))
  ultimately show ?thesis using r by blast
qed

end
