(* ===== verification/Policy.thy ===== *)
theory Policy
  imports Approval
begin

text \<open>
  \<^verbatim>\<open>kernel/internal/executor/policy.go\<close>: the node's authorization policy. A policy document is an
  ordered list of rules, first match wins. YAML is a third-party package: decoding and encoding a
  document are parameters. The rate limiter reads the clock, which is an argument.
\<close>

section \<open>The document\<close>

text \<open>A \<^verbatim>\<open>Decision\<close> is a Go string; any text can stand in a document until \<^verbatim>\<open>valid\<close> refuses it.\<close>

type_synonym decision = string

definition DecisionAllow :: decision where "DecisionAllow = ''allow''"
definition DecisionGate :: decision where "DecisionGate = ''gate''"
definition DecisionDeny :: decision where "DecisionDeny = ''deny''"

definition decision_valid :: "decision \<Rightarrow> bool" where
  "decision_valid d \<longleftrightarrow> d = DecisionAllow \<or> d = DecisionGate \<or> d = DecisionDeny"

definition SpeculationDeny :: string where "SpeculationDeny = ''deny''"

definition SealFailureDeliver :: string where "SealFailureDeliver = ''deliver''"
definition SealFailureRefuse :: string where "SealFailureRefuse = ''refuse''"

definition seal_failure_valid :: "string \<Rightarrow> bool" where
  "seal_failure_valid s \<longleftrightarrow> s = [] \<or> s = SealFailureDeliver \<or> s = SealFailureRefuse"

record route =
  rt_match :: string
  rt_prefer :: "string list"
  rt_avoid :: "string list"
  rt_reason :: string

record rule =
  ru_match :: string
  ru_decision :: decision
  ru_reason :: string
  ru_limit :: "int option"

record policy_doc =
  po_version :: int
  po_default :: decision
  po_allow_graph_waiver :: "bool option"
  po_speculation :: string
  po_require_signed_approval :: bool
  po_require_approval_context :: "string list"
  po_on_seal_failure :: string
  po_rules :: "rule list"
  po_routes :: "route list"

text \<open>The rate limiter's fixed-window counter.\<close>

record bucket =
  bk_window_start :: int
  bk_count :: int

record policy = policy_doc +
  po_source :: string
  po_hash :: string
  po_buckets :: "(string \<times> bucket) list"

section \<open>Reading a policy\<close>

definition finalize :: "(policy_doc \<Rightarrow> bytes) \<Rightarrow> bytes option \<Rightarrow> string \<Rightarrow> policy_doc \<Rightarrow> policy" where
  "finalize yaml_marshal raw source p =
     (let raw = (case raw of None \<Rightarrow> yaml_marshal p | Some r \<Rightarrow> r) in
      \<lparr>po_version = po_version p, po_default = po_default p, po_allow_graph_waiver = po_allow_graph_waiver p,
       po_speculation = po_speculation p, po_require_signed_approval = po_require_signed_approval p,
       po_require_approval_context = po_require_approval_context p, po_on_seal_failure = po_on_seal_failure p,
       po_rules = po_rules p, po_routes = po_routes p,
       po_source = source, po_hash = ''sha256:'' @ hex_encode (sha256 raw), po_buckets = []\<rparr>)"

definition DefaultPolicy :: "(policy_doc \<Rightarrow> bytes) \<Rightarrow> policy" where
  "DefaultPolicy yaml_marshal =
     finalize yaml_marshal None ''built-in default (no --policy given)''
       \<lparr>po_version = 1, po_default = DecisionGate, po_allow_graph_waiver = Some True, po_speculation = [],
        po_require_signed_approval = False, po_require_approval_context = [], po_on_seal_failure = [],
        po_rules = [], po_routes = []\<rparr>"

definition wellFormed :: string where
  "wellFormed = ''sha256:0000000000000000000000000000000000000000000000000000000000000000''"

definition validateRequiredContext :: "string list \<Rightarrow> context_error option" where
  "validateRequiredContext labels =
     (if labels = [] then None
      else (case CanonicalContext (map (\<lambda>l. \<lparr>ce_label = l, ce_digest = wellFormed\<rparr>) labels) of
              Inl e \<Rightarrow> Some e | Inr _ \<Rightarrow> None))"

datatype policy_error =
    UnreadablePolicy | UnparsedPolicy | BadVersion | BadDefault | BadSealFailure
  | EmptyMatch nat | BadDecision nat | NegativeLimit nat | BadRequiredContext context_error

fun check_rules :: "nat \<Rightarrow> rule list \<Rightarrow> policy_error option" where
  "check_rules i [] = None"
| "check_rules i (r # rs) =
     (if TrimSpace (ru_match r) = [] then Some (EmptyMatch (i + 1))
      else if \<not> decision_valid (ru_decision r) then Some (BadDecision (i + 1))
      else if (case ru_limit r of None \<Rightarrow> False | Some n \<Rightarrow> n < 0) then Some (NegativeLimit (i + 1))
      else check_rules (i + 1) rs)"

definition LoadPolicy ::
  "(policy_doc \<Rightarrow> bytes) \<Rightarrow> (bytes \<Rightarrow> policy_doc option) \<Rightarrow> (string \<Rightarrow> bytes option) \<Rightarrow> string
   \<Rightarrow> policy_error + policy" where
  "LoadPolicy yaml_marshal yaml_unmarshal read_file path =
     (if path = [] then Inr (DefaultPolicy yaml_marshal)
      else (case read_file path of
              None \<Rightarrow> Inl UnreadablePolicy
            | Some raw \<Rightarrow>
                (case yaml_unmarshal raw of
                   None \<Rightarrow> Inl UnparsedPolicy
                 | Some p \<Rightarrow>
                     if po_version p \<noteq> 1 then Inl BadVersion
                     else (let p = (if po_default p = [] then p\<lparr>po_default := DecisionGate\<rparr> else p) in
                       if \<not> decision_valid (po_default p) then Inl BadDefault
                       else if \<not> seal_failure_valid (po_on_seal_failure p) then Inl BadSealFailure
                       else (case check_rules 0 (po_rules p) of
                               Some e \<Rightarrow> Inl e
                             | None \<Rightarrow>
                                 (case validateRequiredContext (po_require_approval_context p) of
                                    Some e \<Rightarrow> Inl (BadRequiredContext e)
                                  | None \<Rightarrow>
                                      (let p = (if po_allow_graph_waiver p = None
                                                then p\<lparr>po_allow_graph_waiver := Some False\<rparr> else p)
                                       in Inr (finalize yaml_marshal (Some raw) path p))))))))"

section \<open>What the document says\<close>

definition GraphWaiverAllowed :: "policy \<Rightarrow> bool" where
  "GraphWaiverAllowed p \<longleftrightarrow> po_allow_graph_waiver p = Some True"

definition SpeculationAllowed :: "policy \<Rightarrow> bool" where
  "SpeculationAllowed p \<longleftrightarrow> po_speculation p \<noteq> SpeculationDeny"

definition SignedApprovalRequired :: "policy \<Rightarrow> bool" where
  "SignedApprovalRequired p \<longleftrightarrow> po_require_signed_approval p \<or> po_require_approval_context p \<noteq> []"

definition SealFailureRefuses :: "policy \<Rightarrow> bool" where
  "SealFailureRefuses p \<longleftrightarrow> po_on_seal_failure p = SealFailureRefuse"

definition SealFailureStance :: "policy \<Rightarrow> string" where
  "SealFailureStance p = (if po_on_seal_failure p = [] then SealFailureDeliver else po_on_seal_failure p)"

definition TypeMotor :: string where "TypeMotor = ''motor''"

definition isEffect :: "string \<Rightarrow> bool" where
  "isEffect capability \<longleftrightarrow> capability = TypeMotor \<or> has_prefix capability (TypeMotor @ ''.'')"

definition matchCapability :: "string \<Rightarrow> string \<Rightarrow> bool" where
  "matchCapability m capability \<longleftrightarrow>
     (if m = ''*'' then True
      else if has_suffix m ''.*''
      then (let prefix = trim_suffix m ''.*'' in capability = prefix \<or> has_prefix capability (prefix @ ''.''))
      else m = capability)"

fun route_loop :: "string \<Rightarrow> route list \<Rightarrow> string list \<times> string list" where
  "route_loop capability [] = ([], [])"
| "route_loop capability (r # rs) =
     (if \<not> matchCapability (rt_match r) capability then route_loop capability rs
      else (rt_prefer r, remdups (rt_avoid r)))"

definition RouteFor :: "policy \<Rightarrow> string \<Rightarrow> string list \<times> string list" where
  "RouteFor p capability = route_loop capability (po_routes p)"

text \<open>The reason is the text for the audit trail; the quoting of \<^verbatim>\<open>%q\<close> is kept as the rule itself.\<close>

datatype reason = RuleReason string | RuleMatch string | DefaultEffect | NotAnEffect

fun decide_loop :: "string \<Rightarrow> rule list \<Rightarrow> (decision \<times> reason \<times> int option) option" where
  "decide_loop capability [] = None"
| "decide_loop capability (r # rs) =
     (if matchCapability (ru_match r) capability
      then Some (ru_decision r,
                 (if ru_reason r = [] then RuleMatch (ru_match r) else RuleReason (ru_reason r)), ru_limit r)
      else decide_loop capability rs)"

definition Decide :: "policy \<Rightarrow> string \<Rightarrow> decision \<times> reason \<times> int option" where
  "Decide p capability =
     (case decide_loop capability (po_rules p) of
        Some d \<Rightarrow> d
      | None \<Rightarrow> if isEffect capability then (po_default p, DefaultEffect, None)
                else (DecisionAllow, NotAnEffect, None))"

section \<open>Authorizing an edge\<close>

definition GateHumanApproval :: string where "GateHumanApproval = ''human-approval''"
definition GateNone :: string where "GateNone = ''none''"

record authorization =
  au_gate :: string
  au_waived :: bool

datatype denied = Denied string reason

definition Authorize :: "policy \<Rightarrow> string \<Rightarrow> string \<Rightarrow> denied + authorization" where
  "Authorize p capability graphGate =
     (let (decision, reason, _) = Decide p capability in
      if decision = DecisionDeny then Inl (Denied capability reason)
      else if graphGate = GateHumanApproval then Inr \<lparr>au_gate = GateHumanApproval, au_waived = False\<rparr>
      else if graphGate = GateNone \<and> GraphWaiverAllowed p
      then Inr \<lparr>au_gate = [], au_waived = (decision = DecisionGate)\<rparr>
      else if decision = DecisionGate then Inr \<lparr>au_gate = GateHumanApproval, au_waived = False\<rparr>
      else Inr \<lparr>au_gate = [], au_waived = False\<rparr>)"

section \<open>The rate limit\<close>

definition minute :: int where "minute = 60 * 1000000000"

text \<open>The fixed-window counter of one capability.\<close>

definition bucket_take :: "int \<Rightarrow> int \<Rightarrow> bucket \<Rightarrow> bucket \<times> bool" where
  "bucket_take now perMinute b =
     (let b = (if minute \<le> now - bk_window_start b then \<lparr>bk_window_start = now, bk_count = 0\<rparr> else b) in
      if perMinute \<le> bk_count b then (b, False)
      else (b\<lparr>bk_count := bk_count b + 1\<rparr>, True))"

definition allowRate :: "int \<Rightarrow> string \<Rightarrow> int \<Rightarrow> policy \<Rightarrow> policy \<times> bool" where
  "allowRate now capability perMinute p =
     (let (buckets, b) =
        (case al_get (po_buckets p) capability of
           Some b \<Rightarrow> (po_buckets p, b)
         | None \<Rightarrow> ((if 1024 < length (po_buckets p) then [] else po_buckets p),
                    \<lparr>bk_window_start = now, bk_count = 0\<rparr>));
        (b, ok) = bucket_take now perMinute b
      in (p\<lparr>po_buckets := al_put capability b buckets\<rparr>, ok))"

definition CheckRate :: "int \<Rightarrow> string \<Rightarrow> policy \<Rightarrow> policy \<times> (string \<times> int \<times> reason) option" where
  "CheckRate now capability p =
     (let (_, reason, limit) = Decide p capability in
      case limit of
        None \<Rightarrow> (p, None)
      | Some n \<Rightarrow>
          if n \<le> 0 then (p, None)
          else (let (p, ok) = allowRate now capability n p
                in (p, if ok then None else Some (capability, n, reason))))"

end
