(* ===== verification/Policy_Properties.thy ===== *)
theory Policy_Properties
  imports Policy Ledger_Properties
begin

text \<open>
  What the policy guarantees: a document that does not grant waivers keeps every effect behind its
  gate whatever a graph asks for, the requirement it places on approvals can be met, and a rate limit
  bounds what is let through in any minute.
\<close>

section \<open>The gate\<close>



definition toy_doc :: policy_doc where
  "toy_doc = \<lparr>po_version = 1, po_default = [], po_allow_graph_waiver = None, po_speculation = [],
     po_require_signed_approval = False, po_require_approval_context = [''screen'', ''invoice''],
     po_on_seal_failure = [],
     po_rules = [\<lparr>ru_match = ''motor.erp.*'', ru_decision = DecisionDeny, ru_reason = [], ru_limit = None\<rparr>,
                 \<lparr>ru_match = ''cognitive.chat'', ru_decision = DecisionAllow, ru_reason = [], ru_limit = Some 3\<rparr>],
     po_routes = []\<rparr>"

definition toy_policy :: policy where
  "toy_policy = finalize (\<lambda>_. []) (Some ''doc'') ''policy.yaml'' (toy_doc\<lparr>po_default := DecisionGate,
     po_allow_graph_waiver := Some False\<rparr>)"

lemma toy_context: "validateRequiredContext [''screen'', ''invoice''] = None"
  by code_simp

lemma toy_match [simp]: "TrimSpace ''motor.erp.*'' \<noteq> []" "TrimSpace ''cognitive.chat'' \<noteq> []"
  by (code_simp, code_simp)

lemma toy_policy_loads:
  "LoadPolicy (\<lambda>_. []) (\<lambda>_. Some toy_doc) (\<lambda>_. Some ''doc'') ''policy.yaml'' = Inr toy_policy"
  by (simp add: LoadPolicy_def toy_policy_def toy_doc_def toy_context decision_valid_def seal_failure_valid_def
      DecisionDeny_def DecisionAllow_def DecisionGate_def)


section \<open>The required context\<close>

lemma LoadPolicy_context:
  "LoadPolicy ym yu read path = Inr p \<Longrightarrow> validateRequiredContext (po_require_approval_context p) = None"
  by (auto simp: LoadPolicy_def Let_def finalize_def DefaultPolicy_def validateRequiredContext_def
      split: if_splits option.splits)

text \<open>What a loaded policy requires an approval to bind can be bound: for every policy that loads,
  any operator key signs an approval that verifies and leaves none of the required labels unbound.\<close>

theorem required_context_is_satisfiable:
  assumes "LoadPolicy ym yu read path = Inr p" "ed_correct ed (signer ed priv)" "length priv = PrivateKeySize"
    and "operator \<noteq> []" "envelope \<noteq> []"
  shows "\<exists>shown a. SignApproval ed operator priv node session envelope ApprovalApprove ts shown = Inr a
    \<and> approval_Verify ed (Some a) node session = (Some a, None)
    \<and> Unbound (Some a) (po_require_approval_context p) = []"
proof -
  let ?labels = "po_require_approval_context p"
  define shown where "shown = map (\<lambda>l. \<lparr>ce_label = l, ce_digest = wellFormed\<rparr>) ?labels"
  obtain c where "CanonicalContext shown = Inr c"
  proof (cases "?labels = []")
    case True
    with that show ?thesis by (simp add: CanonicalContext_def shown_def)
  next
    case False
    with that LoadPolicy_context [OF assms(1)] show ?thesis
      by (auto simp: validateRequiredContext_def shown_def split: sum.splits)
  qed
  then obtain payload where "ApprovalPayload node session envelope ApprovalApprove ts shown = Inr payload"
    by (cases "c = []") (auto simp: ApprovalPayload_def ContextDigest_def Let_def)
  then obtain a where a: "SignApproval ed operator priv node session envelope ApprovalApprove ts shown = Inr a"
    "ap_context a = sort_key ce_label shown"
    using assms(3-5) by (simp add: SignApproval_def Let_def ApprovalPayload_sort)
  have "Shows (Some a) l" if "l \<in> set ?labels" for l
    using that by (auto simp: Shows_def a(2) list_ex_iff shown_def)
  then have "Unbound (Some a) ?labels = []" by (simp add: Unbound_def filter_empty_conv)
  with a(1) SignApproval_verifies [OF a(1) assms(2)] show ?thesis by blast
qed

theorem required_context_is_satisfiable_witness:
  "\<exists>shown a. SignApproval toy_ed ''op'' (replicate 64 (CHR ''k'')) ''n'' ''s'' ''e'' ApprovalApprove 7 shown = Inr a
    \<and> approval_Verify toy_ed (Some a) ''n'' ''s'' = (Some a, None)
    \<and> Unbound (Some a) (po_require_approval_context toy_policy) = []"
  by (rule required_context_is_satisfiable [OF toy_policy_loads]) (simp_all add: PrivateKeySize_def)

section \<open>The rate limit\<close>

text \<open>Requests in the order they arrive, each at its time, and which of them a limit lets through.\<close>

fun check_all :: "(int \<times> string) list \<Rightarrow> policy \<Rightarrow> bool list" where
  "check_all [] p = []"
| "check_all ((t, c) # rs) p = (case CheckRate t c p of (p', e) \<Rightarrow> (e = None) # check_all rs p')"

definition let_through :: "string \<Rightarrow> (int \<times> string) list \<Rightarrow> policy \<Rightarrow> nat" where
  "let_through c rs p = length (filter (\<lambda>(r, ok). snd r = c \<and> ok) (zip rs (check_all rs p)))"

text \<open>How much a bucket can still let through before \<open>t + minute\<close>.\<close>

definition allowance :: "int \<Rightarrow> int \<Rightarrow> bucket option \<Rightarrow> int" where
  "allowance t n b = (case b of None \<Rightarrow> n
     | Some b \<Rightarrow> max 0 (n - bk_count b) + (if t \<le> bk_window_start b then 0 else n))"

lemma bucket_take_allowance:
  assumes "t \<le> now" "now < t + minute" "0 < n" "bucket_take now n b = (b', ok)"
  shows "allowance t n (Some b') + (if ok then 1 else 0) \<le> allowance t n (Some b)"
  using assms by (auto simp: bucket_take_def allowance_def Let_def split: if_splits)

lemma fresh_bucket_allowance:
  assumes "t \<le> now" "0 < n" "bucket_take now n \<lparr>bk_window_start = now, bk_count = 0\<rparr> = (b', ok)"
  shows "allowance t n (Some b') + (if ok then 1 else 0) \<le> allowance t n None"
  using assms by (auto simp: bucket_take_def allowance_def Let_def minute_def split: if_splits)

lemma Decide_buckets [simp]: "Decide (p\<lparr>po_buckets := b\<rparr>) c = Decide p c"
  by (simp add: Decide_def split: option.split)

text \<open>The buckets stay within a set of capabilities small enough that the map is never cleared.\<close>

definition tracked :: "string set \<Rightarrow> policy \<Rightarrow> bool" where
  "tracked K p \<longleftrightarrow> finite K \<and> card K \<le> 1025 \<and> distinct (map fst (po_buckets p)) \<and> fst ` set (po_buckets p) \<subseteq> K"

lemma CheckRate_tracked:
  assumes "tracked K p" "c \<in> K" "CheckRate t c p = (p', e)"
  shows "tracked K p' \<and> Decide p' = Decide p \<and> (\<forall>c'. c' \<noteq> c \<longrightarrow> al_get (po_buckets p') c' = al_get (po_buckets p) c')
    \<and> (\<forall>d w n. Decide p c = (d, w, Some n) \<longrightarrow> 0 < n \<longrightarrow>
        (\<exists>b. al_get (po_buckets p') c = Some b
           \<and> bucket_take t n (case al_get (po_buckets p) c of Some b \<Rightarrow> b
                | None \<Rightarrow> \<lparr>bk_window_start = t, bk_count = 0\<rparr>) = (b, e = None)))"
proof -
  obtain d w l where d: "Decide p c = (d, w, l)" by (cases "Decide p c")
  show ?thesis
  proof (cases "\<exists>n. l = Some n \<and> 0 < n")
    case False
    with assms d show ?thesis by (auto simp: CheckRate_def Let_def split: option.splits if_splits)
  next
    case True
    then obtain n where n: "l = Some n" "0 < n" by blast
    let ?b = "case al_get (po_buckets p) c of Some b \<Rightarrow> b | None \<Rightarrow> \<lparr>bk_window_start = t, bk_count = 0\<rparr>"
    obtain b ok where b: "bucket_take t n ?b = (b, ok)" by fastforce
    have room: "\<not> 1024 < length (po_buckets p)" if "al_get (po_buckets p) c = None"
    proof -
      have "fst ` set (po_buckets p) \<subset> K"
        using that assms(1,2) by (auto simp: tracked_def al_get_None_iff)
      then have "card (fst ` set (po_buckets p)) < card K"
        using assms(1) by (intro psubset_card_mono) (simp_all add: tracked_def)
      moreover have "card (fst ` set (po_buckets p)) = length (po_buckets p)"
        using assms(1) distinct_card [of "map fst (po_buckets p)"] by (simp add: tracked_def)
      ultimately show ?thesis using assms(1) by (simp add: tracked_def)
    qed
    have "allowRate t c n p = (p\<lparr>po_buckets := al_put c b (po_buckets p)\<rparr>, ok)"
      using room b by (cases "al_get (po_buckets p) c") (simp_all add: allowRate_def Let_def)
    then have p': "p' = p\<lparr>po_buckets := al_put c b (po_buckets p)\<rparr>" "(e = None) = ok"
      using assms(3) n by (auto simp: CheckRate_def d Let_def split: if_splits)
    have "distinct (map fst (al_put c b (po_buckets p)))"
      using assms(1) by (auto simp: keys_put tracked_def)
    moreover have "set (map fst (al_put c b (po_buckets p))) \<subseteq> K"
      using assms(1,2) unfolding keys_put by (auto simp: tracked_def)
    ultimately have tr: "tracked K p'" using assms(1) by (simp add: tracked_def p'(1))
    have dec: "Decide p' = Decide p" by (rule ext) (simp add: p'(1))
    have get: "al_get (po_buckets p') c' = (if c' = c then Some b else al_get (po_buckets p) c')" for c'
      by (simp add: p'(1))
    have take: "bucket_take t n ?b = (b, e = None)" using b p'(2) by simp
    show ?thesis
    proof (intro conjI allI impI, rule tr, rule dec)
      fix c' assume "c' \<noteq> c" then show "al_get (po_buckets p') c' = al_get (po_buckets p) c'" by (simp add: get)
    next
      fix d' w' n' assume "Decide p c = (d', w', Some n')" "0 < n'"
      then have "n' = n" using d n by simp
      with take get show "\<exists>b. al_get (po_buckets p') c = Some b
           \<and> bucket_take t n' (case al_get (po_buckets p) c of Some b \<Rightarrow> b
                | None \<Rightarrow> \<lparr>bk_window_start = t, bk_count = 0\<rparr>) = (b, e = None)" by (intro exI [of _ b]) simp
    qed
  qed
qed

lemma let_through_Cons:
  "CheckRate t' c' p = (p', e) \<Longrightarrow>
     let_through c ((t', c') # rs) p = (if c' = c \<and> e = None then 1 else 0) + let_through c rs p'"
  by (simp add: let_through_def)

lemma let_through_allowance:
  assumes "tracked K p" "snd ` set rs \<subseteq> K" "\<forall>r \<in> set rs. t \<le> fst r \<and> fst r < t + minute"
    and "Decide p c = (d, w, Some n)" "0 < n"
  shows "int (let_through c rs p) \<le> allowance t n (al_get (po_buckets p) c)"
  using assms
proof (induction rs arbitrary: p)
  case Nil
  then show ?case by (simp add: let_through_def allowance_def split: option.split)
next
  case (Cons r rs)
  obtain t' c' where r: "r = (t', c')" by (cases r)
  obtain p' e where cr: "CheckRate t' c' p = (p', e)" by fastforce
  have c': "c' \<in> K" and t': "t \<le> t'" "t' < t + minute" using Cons.prems(2,3) by (simp_all add: r)
  note step = CheckRate_tracked [OF Cons.prems(1) c' cr]
  have IH: "int (let_through c rs p') \<le> allowance t n (al_get (po_buckets p') c)"
    using step Cons.prems by (intro Cons.IH) simp_all
  show ?case
  proof (cases "c' = c")
    case False
    with IH step show ?thesis by (simp add: r let_through_Cons [OF cr])
  next
    case True
    with step Cons.prems(4,5) obtain b where b: "al_get (po_buckets p') c = Some b"
      "bucket_take t' n (case al_get (po_buckets p) c of Some b \<Rightarrow> b
         | None \<Rightarrow> \<lparr>bk_window_start = t', bk_count = 0\<rparr>) = (b, e = None)" by blast
    have "allowance t n (Some b) + (if e = None then 1 else 0) \<le> allowance t n (al_get (po_buckets p) c)"
      using b(2) bucket_take_allowance [OF t' Cons.prems(5)] fresh_bucket_allowance [OF t'(1) Cons.prems(5)]
      by (cases "al_get (po_buckets p) c") simp_all
    with IH b(1) True show ?thesis
      using let_through_Cons [OF cr, of c rs] by (cases "e = None") (simp_all add: r)
  qed
qed

text \<open>A rate limit holds over every minute: of the requests that arrive in any interval of a
  minute, for at most 1025 capabilities, at most twice the limit of one go through (a fixed window
  can straddle the interval), and at most the limit when its window begins in the interval.\<close>

theorem rate_limit_bounds_a_minute:
  assumes "tracked K p" "snd ` set rs \<subseteq> K" "\<forall>r \<in> set rs. t \<le> fst r \<and> fst r < t + minute"
    and "Decide p c = (d, w, Some n)" "0 < n" "\<forall>b. al_get (po_buckets p) c = Some b \<longrightarrow> 0 \<le> bk_count b"
  shows "int (let_through c rs p) \<le> (if \<exists>b. al_get (po_buckets p) c = Some b \<and> bk_window_start b < t then 2 * n else n)"
  using let_through_allowance [OF assms(1-5)] assms(5,6)
  by (auto simp: allowance_def split: option.splits if_splits)


theorem rate_limit_bounds_a_minute_witness:
  "int (let_through ''cognitive.chat'' (replicate 5 (7, ''cognitive.chat'')) toy_policy) \<le> 3"
proof -
  have d: "Decide toy_policy ''cognitive.chat'' = (DecisionAllow, RuleMatch ''cognitive.chat'', Some 3)"
    by (simp add: Decide_def toy_policy_def finalize_def toy_doc_def matchCapability_def has_suffix_def trim_suffix_def
        has_prefix_def)
  have "po_buckets toy_policy = []" by (simp add: toy_policy_def finalize_def)
  moreover from this have "tracked {''cognitive.chat''} toy_policy" by (simp add: tracked_def)
  ultimately show ?thesis
    using rate_limit_bounds_a_minute [OF _ _ _ d, where K = "{''cognitive.chat''}" and t = 0
        and rs = "replicate 5 (7, ''cognitive.chat'')"] by (simp add: minute_def)
qed

end
