(* ===== verification/Registry.thy ===== *)
theory Registry
  imports Json "HOL-Library.Multiset"
begin

text \<open>
  \<^verbatim>\<open>kernel/internal/registry/registry.go\<close>: the manifest (C1) and the live registry. The
  bounds of a config parameter are floating point and are left out, with the check that reads them. The
  connections are a Go map, whose iteration order is not specified: the model keeps them as an
  association list, and where the code ranges over the map without sorting, the order is that list's.
  The transport behind \<^verbatim>\<open>Send\<close> is outside; a live skill is known by its connection.
\<close>

record port =
  pt_name :: string
  pt_schema :: string

record mcompensation =
  mc_port :: string
  mc_schema :: string

record config_param =
  cf_key :: string
  cf_type :: string
  cf_default :: json
  cf_options :: "string list"

record manifest =
  mf_id :: string
  mf_version :: string
  mf_protocol :: string
  mf_name :: string
  mf_description :: string
  mf_capability :: string
  mf_type :: string
  mf_format :: string
  mf_ingress :: "port list"
  mf_egress :: "port list"
  mf_config :: "config_param list"
  mf_compensates :: "mcompensation option"

section \<open>The patterns\<close>

definition lower_digit :: "char \<Rightarrow> bool" where
  "lower_digit c \<longleftrightarrow> (CHR ''a'' \<le> c \<and> c \<le> CHR ''z'') \<or> (CHR ''0'' \<le> c \<and> c \<le> CHR ''9'')"

definition decimal :: "char \<Rightarrow> bool" where
  "decimal c \<longleftrightarrow> CHR ''0'' \<le> c \<and> c \<le> CHR ''9''"

text \<open>Splitting at a character, as the regular expressions do where the rest excludes it.\<close>

fun split_on :: "char \<Rightarrow> string \<Rightarrow> string list" where
  "split_on d [] = [[]]"
| "split_on d (c # s) =
     (if c = d then [] # split_on d s
      else (case split_on d s of [] \<Rightarrow> [[c]] | w # ws \<Rightarrow> (c # w) # ws))"

definition plus_of :: "(char \<Rightarrow> bool) \<Rightarrow> string \<Rightarrow> bool" where
  "plus_of P s \<longleftrightarrow> s \<noteq> [] \<and> list_all P s"

definition id_char :: "char \<Rightarrow> bool" where
  "id_char c \<longleftrightarrow> lower_digit c \<or> c = CHR ''-''"

definition idRe :: "string \<Rightarrow> bool" where
  "idRe s \<longleftrightarrow> (case split_on (CHR ''/'') s of [a, b, c] \<Rightarrow> plus_of id_char a \<and> plus_of id_char b \<and> plus_of id_char c
     | _ \<Rightarrow> False)"

definition semverRe :: "string \<Rightarrow> bool" where
  "semverRe s \<longleftrightarrow> (case split_on (CHR ''.'') s of [a, b, c] \<Rightarrow> plus_of decimal a \<and> plus_of decimal b \<and> plus_of decimal c
     | _ \<Rightarrow> False)"

definition schemaRe :: "string \<Rightarrow> bool" where
  "schemaRe s \<longleftrightarrow> (case split_on (CHR ''/'') s of
       [ns, r] \<Rightarrow> plus_of id_char ns
         \<and> (case split_on (CHR 0x40) r of
              [nm, v] \<Rightarrow> plus_of (\<lambda>c. lower_digit c \<or> c = CHR ''_'' \<or> c = CHR ''-'') nm \<and> plus_of decimal v
            | _ \<Rightarrow> False)
     | _ \<Rightarrow> False)"

definition portRe :: "string \<Rightarrow> bool" where
  "portRe s \<longleftrightarrow> plus_of (\<lambda>c. lower_digit c \<or> c = CHR ''_'') s"

definition TypeSensorial :: string where "TypeSensorial = ''sensorial''"
definition SkillTypes :: "string list" where
  "SkillTypes = [''sensorial'', ''cognitive'', ''motor'', ''memory'', ''logical'']"
definition EffectType :: string where "EffectType = ''motor''"

definition capRe :: "string \<Rightarrow> bool" where
  "capRe s \<longleftrightarrow> (case split_on (CHR ''.'') s of
       t # fs \<Rightarrow> t \<in> set SkillTypes \<and> fs \<noteq> []
         \<and> list_all (plus_of (\<lambda>c. lower_digit c \<or> c = CHR ''_'' \<or> c = CHR ''-'')) fs
     | _ \<Rightarrow> False)"

section \<open>Manifests\<close>

definition ValidateCapability :: "string \<Rightarrow> bool" where
  "ValidateCapability capability \<longleftrightarrow> capRe capability"

fun port_schema :: "port list \<Rightarrow> string \<Rightarrow> string option" where
  "port_schema [] name = None"
| "port_schema (p # ps) name = (if pt_name p = name then Some (pt_schema p) else port_schema ps name)"

definition IngressSchema :: "manifest \<Rightarrow> string \<Rightarrow> string option" where
  "IngressSchema m name = port_schema (mf_ingress m) name"

definition EgressSchema :: "manifest \<Rightarrow> string \<Rightarrow> string option" where
  "EgressSchema m name = port_schema (mf_egress m) name"

datatype manifest_error =
    BadId | BadVersion | NoProtocol | NoNameOrDescription | BadCapability | NoFormat | BadType
  | CapabilityNotOfType | NoPorts | BadPortName string | BadPortSchema string
  | CompensatesNotMotor | CompensatesNoPort | CompensatesSchema

fun check_ports :: "port list \<Rightarrow> manifest_error option" where
  "check_ports [] = None"
| "check_ports (p # ps) =
     (if \<not> portRe (pt_name p) then Some (BadPortName (pt_name p))
      else if \<not> schemaRe (pt_schema p) then Some (BadPortSchema (pt_name p))
      else check_ports ps)"

definition manifest_Validate :: "manifest \<Rightarrow> manifest_error option" where
  "manifest_Validate m =
     (if \<not> idRe (mf_id m) then Some BadId
      else if \<not> semverRe (mf_version m) then Some BadVersion
      else if mf_protocol m = [] then Some NoProtocol
      else if mf_name m = [] \<or> mf_description m = [] then Some NoNameOrDescription
      else if \<not> capRe (mf_capability m) then Some BadCapability
      else if mf_format m = [] then Some NoFormat
      else if \<not> list_ex (\<lambda>t. mf_type m = t) SkillTypes then Some BadType
      else if \<not> has_prefix (mf_capability m) (mf_type m @ ''.'') then Some CapabilityNotOfType
      else if mf_ingress m = [] \<and> mf_egress m = [] then Some NoPorts
      else (case check_ports (mf_ingress m @ mf_egress m) of
              Some e \<Rightarrow> Some e
            | None \<Rightarrow>
                (case mf_compensates m of
                   None \<Rightarrow> None
                 | Some c \<Rightarrow>
                     if mf_type m \<noteq> EffectType then Some CompensatesNotMotor
                     else (case IngressSchema m (mc_port c) of
                             None \<Rightarrow> Some CompensatesNoPort
                           | Some sch \<Rightarrow>
                               if mc_schema c \<noteq> [] \<and> mc_schema c \<noteq> sch then Some CompensatesSchema else None))))"

fun find_param :: "config_param list \<Rightarrow> string \<Rightarrow> config_param option" where
  "find_param [] key = None"
| "find_param (p # ps) key = (if cf_key p = key then Some p else find_param ps key)"

definition ConfigParam :: "manifest \<Rightarrow> string \<Rightarrow> config_param option" where
  "ConfigParam m key = find_param (mf_config m) key"

definition layer :: "manifest \<Rightarrow> (string \<times> json) list \<Rightarrow> (string \<times> json) list \<Rightarrow> (string \<times> json) list" where
  "layer m vals out = fold (\<lambda>(k, v) out. if ConfigParam m k = None then out else al_put k v out) vals out"

definition EffectiveConfig :: "manifest \<Rightarrow> (string \<times> json) list \<Rightarrow> (string \<times> json) list \<Rightarrow> (string \<times> json) list" where
  "EffectiveConfig m fileVals storeVals =
     layer m storeVals (layer m fileVals (fold (\<lambda>p out. al_put (cf_key p) (cf_default p) out) (mf_config m) []))"

section \<open>The live registry\<close>

record live =
  lv_manifest :: manifest
  lv_connected :: int
  lv_conn :: string

record registry =
  rg_by_conn :: "(string \<times> live) list"
  rg_rr :: "(string \<times> nat) list"

definition registry_New :: registry where
  "registry_New = \<lparr>rg_by_conn = [], rg_rr = []\<rparr>"

definition Register :: "string \<Rightarrow> live \<Rightarrow> registry \<Rightarrow> registry \<times> nat" where
  "Register connID l r =
     (let l = l\<lparr>lv_conn := connID\<rparr>; m = al_put connID l (rg_by_conn r) in
      (r\<lparr>rg_by_conn := m\<rparr>,
       length (filter (\<lambda>(_, x). mf_id (lv_manifest x) = mf_id (lv_manifest l)) m)))"

definition Replicas :: "registry \<Rightarrow> string \<Rightarrow> nat" where
  "Replicas r pkg = length (filter (\<lambda>(_, x). mf_id (lv_manifest x) = pkg) (rg_by_conn r))"

definition Unregister :: "string \<Rightarrow> registry \<Rightarrow> registry" where
  "Unregister connID r = r\<lparr>rg_by_conn := al_del connID (rg_by_conn r)\<rparr>"

definition provides :: "string \<Rightarrow> live \<Rightarrow> bool" where
  "provides capability l \<longleftrightarrow> mf_capability (lv_manifest l) = capability
     \<or> has_prefix (mf_capability (lv_manifest l)) (capability @ ''.'')"

text \<open>Newest first, by connection id where the times are equal.\<close>

definition newest_first :: "live list \<Rightarrow> live list" where
  "newest_first ls = sort_key (\<lambda>l. - lv_connected l) (sort_key lv_conn ls)"

text \<open>\<^verbatim>\<open>pick\<close> is called with at least one candidate.\<close>

definition pick :: "string \<Rightarrow> live list \<Rightarrow> registry \<Rightarrow> registry \<times> live" where
  "pick capability candidates r =
     (if length candidates = 1 then (r, hd candidates)
      else (let winner = mf_id (lv_manifest (hd candidates));
                replicas = filter (\<lambda>c. mf_id (lv_manifest c) = winner) candidates in
            if length replicas = 1 then (r, hd replicas)
            else (let key = (if capability = [] then winner else capability);
                      n = (case al_get (rg_rr r) key of None \<Rightarrow> 0 | Some n \<Rightarrow> n) in
                  (r\<lparr>rg_rr := al_put key ((n + 1) mod 2 ^ 64) (rg_rr r)\<rparr>, replicas ! (n mod length replicas)))))"

datatype resolve_error = NoPackage string | NoCapability string

definition Resolve :: "string \<Rightarrow> string \<Rightarrow> registry \<Rightarrow> registry \<times> (resolve_error + live)" where
  "Resolve use capability r =
     (let candidates = filter (\<lambda>l. (use \<noteq> [] \<and> mf_id (lv_manifest l) = use)
                                  \<or> (use = [] \<and> capability \<noteq> [] \<and> provides capability l)) (map snd (rg_by_conn r)) in
      if candidates = [] then (r, Inl (if use \<noteq> [] then NoPackage use else NoCapability capability))
      else (case pick capability (newest_first candidates) r of (r, l) \<Rightarrow> (r, Inr l)))"

fun first_preferred :: "string list \<Rightarrow> live list \<Rightarrow> live option" where
  "first_preferred [] candidates = None"
| "first_preferred (want # ws) candidates =
     (case find (\<lambda>l. mf_id (lv_manifest l) = want) candidates of
        Some l \<Rightarrow> Some l | None \<Rightarrow> first_preferred ws candidates)"

definition ResolvePreferred ::
  "string \<Rightarrow> string \<Rightarrow> string list \<Rightarrow> string list \<Rightarrow> registry \<Rightarrow> registry \<times> (resolve_error + live)" where
  "ResolvePreferred use capability prefer avoid r =
     (if use \<noteq> [] \<or> capability = [] \<or> (prefer = [] \<and> avoid = []) then Resolve use capability r
      else (let candidates = filter (provides capability) (map snd (rg_by_conn r)) in
            if candidates = [] then (r, Inl (NoCapability capability))
            else (case first_preferred prefer candidates of
                    Some l \<Rightarrow> (r, Inr l)
                  | None \<Rightarrow>
                      (let kept = filter (\<lambda>l. mf_id (lv_manifest l) \<notin> set avoid) candidates;
                           candidates = (if avoid \<noteq> [] \<and> kept \<noteq> [] then kept else candidates)
                       in case pick capability (newest_first candidates) r of (r, l) \<Rightarrow> (r, Inr l)))))"

definition SendToID :: "(live \<Rightarrow> bool) \<Rightarrow> string \<Rightarrow> registry \<Rightarrow> nat" where
  "SendToID send pkg r =
     length (filter (\<lambda>(_, l). mf_id (lv_manifest l) = pkg \<and> send l) (rg_by_conn r))"

definition Catalog :: "registry \<Rightarrow> manifest list" where
  "Catalog r = sort_key mf_id (map (\<lambda>(_, l). lv_manifest l) (rg_by_conn r))"

end
