(* ===== verification/Registry_Properties.thy ===== *)
theory Registry_Properties
  imports Registry Policy "HOL-Library.Multiset"
begin

text \<open>
  What the rest of the node relies on in the registry: the effect type of a manifest and the effect
  test of the policy agree, and resolution does not depend on the order of the connections.
\<close>

section \<open>The effect type\<close>

lemma has_prefix_append: "has_prefix s (p @ q) \<Longrightarrow> has_prefix s p"
  by (metis append.assoc has_prefix_iff)

text \<open>A manifest that validates is of type motor exactly when its capability is an effect for the
  policy: the skills whose deliveries are sealed (by type) are the skills the policy gates by default
  (by capability), with nothing between the two tests.\<close>

theorem motor_iff_effect:
  assumes "manifest_Validate m = None"
  shows "mf_type m = EffectType \<longleftrightarrow> isEffect (mf_capability m)"
proof -
  have t: "mf_type m \<in> set SkillTypes" and p: "has_prefix (mf_capability m) (mf_type m @ ''.'')"
    using assms by (auto simp: manifest_Validate_def list_ex_iff split: if_splits)
  then show ?thesis
    by (auto simp: SkillTypes_def EffectType_def isEffect_def TypeMotor_def has_prefix_iff)
qed

definition toy_manifest :: manifest where
  "toy_manifest = \<lparr>mf_id = ''deepaxiom/skills/erp'', mf_version = ''1.0.0'', mf_protocol = ''1'',
     mf_name = ''ERP'', mf_description = ''pays'', mf_capability = ''motor.erp.pay'', mf_type = ''motor'',
     mf_format = ''native'', mf_ingress = [\<lparr>pt_name = ''in'', pt_schema = ''std/text@1''\<rparr>], mf_egress = [],
     mf_config = [], mf_compensates = None\<rparr>"

lemma toy_manifest_valid: "manifest_Validate toy_manifest = None"
  by code_simp

theorem motor_iff_effect_witness: "mf_type toy_manifest = EffectType \<longleftrightarrow> isEffect (mf_capability toy_manifest)"
  by (rule motor_iff_effect) (rule toy_manifest_valid)

section \<open>Resolution\<close>

text \<open>The connections of a registry: one entry for each, which knows its own id.\<close>

definition registry_ok :: "registry \<Rightarrow> bool" where
  "registry_ok r \<longleftrightarrow> distinct (map fst (rg_by_conn r)) \<and> (\<forall>(c, l) \<in> set (rg_by_conn r). lv_conn l = c)"

lemma registry_ok_New [inv_intros]: "registry_ok registry_New"
  by (simp add: registry_ok_def registry_New_def)

lemma set_al_put: "distinct (map fst m) \<Longrightarrow> set (al_put k v m) = {p \<in> set m. fst p \<noteq> k} \<union> {(k, v)}"
  by (induction k v m rule: al_put.induct) (auto simp: image_iff)

lemma registry_ok_Register [inv_intros]: "registry_ok r \<Longrightarrow> registry_ok (fst (Register c l r))"
  by (auto simp: registry_ok_def Register_def Let_def set_al_put keys_put)

lemma registry_ok_Unregister [inv_intros]: "registry_ok r \<Longrightarrow> registry_ok (Unregister c r)"
  by (auto simp: registry_ok_def Unregister_def al_del_def distinct_map_filter)

lemma newest_first_cong:
  assumes "mset ls = mset ls'" "distinct (map lv_conn ls)"
  shows "newest_first ls = newest_first ls'"
proof -
  have "inj_on lv_conn (set ls)" using assms(2) by (simp add: distinct_map)
  then have "sort_key lv_conn ls = sort_key lv_conn ls'"
    using assms(1) by (metis properties_for_sort_key mset_sort sorted_sort_key filter_sort sort_key_inj_key_eq)
  then show ?thesis by (simp add: newest_first_def)
qed


definition answering :: "string \<Rightarrow> string \<Rightarrow> live \<Rightarrow> bool" where
  "answering use capability l \<longleftrightarrow> (use \<noteq> [] \<and> mf_id (lv_manifest l) = use)
     \<or> (use = [] \<and> capability \<noteq> [] \<and> provides capability l)"

definition live_of :: "(live \<Rightarrow> bool) \<Rightarrow> registry \<Rightarrow> live list" where
  "live_of P r = newest_first (filter P (map snd (rg_by_conn r)))"

lemma newest_first_Nil [simp]: "newest_first ls = [] \<longleftrightarrow> ls = []"
  by (metis newest_first_def length_0_conv length_sort)

lemma Resolve_live: "Resolve use capability r =
  (if live_of (answering use capability) r = [] then (r, Inl (if use \<noteq> [] then NoPackage use else NoCapability capability))
   else (case pick capability (live_of (answering use capability) r) r of (r, l) \<Rightarrow> (r, Inr l)))"
proof -
  have "(\<lambda>l. (use \<noteq> [] \<and> mf_id (lv_manifest l) = use) \<or> (use = [] \<and> capability \<noteq> [] \<and> provides capability l))
      = answering use capability"
    by (simp add: answering_def fun_eq_iff)
  then show ?thesis
    unfolding Resolve_def live_of_def newest_first_Nil by (simp only: Let_def)
qed

lemma map_snd_conn: "registry_ok r \<Longrightarrow> map lv_conn (map snd (rg_by_conn r)) = map fst (rg_by_conn r)"
  by (auto simp: registry_ok_def)

lemma live_of_cong:
  assumes "registry_ok r" "mset (rg_by_conn r') = mset (rg_by_conn r)"
  shows "live_of P r' = live_of P r"
proof -
  have "distinct (map lv_conn (map snd (rg_by_conn r)))"
    using assms(1) by (simp only: map_snd_conn) (simp add: registry_ok_def)
  then have "distinct (map lv_conn (filter P (map snd (rg_by_conn r))))"
    by (rule distinct_map_filter)
  moreover have "mset (filter P (map snd (rg_by_conn r'))) = mset (filter P (map snd (rg_by_conn r)))"
    using assms(2) by (metis mset_filter mset_map)
  ultimately show ?thesis
    using newest_first_cong [of "filter P (map snd (rg_by_conn r))" "filter P (map snd (rg_by_conn r'))"]
    by (simp add: live_of_def)
qed

lemma pick_answer: "rg_rr r' = rg_rr r \<Longrightarrow> snd (pick capability ls r') = snd (pick capability ls r)
    \<and> rg_rr (fst (pick capability ls r')) = rg_rr (fst (pick capability ls r))"
  by (simp add: pick_def Let_def)

text \<open>Which skill answers a package or a capability does not depend on the order in which the
  connections come (Go ranges over a map): two registries with the same connections and counters give
  the same answer, the same error and the same counters afterwards.\<close>

theorem resolve_order_free:
  assumes "registry_ok r" "mset (rg_by_conn r') = mset (rg_by_conn r)" "rg_rr r' = rg_rr r"
  shows "snd (Resolve use capability r') = snd (Resolve use capability r)
    \<and> rg_rr (fst (Resolve use capability r')) = rg_rr (fst (Resolve use capability r))"
  using assms(3) pick_answer [OF assms(3), of capability "live_of (answering use capability) r"]
  by (simp add: Resolve_live live_of_cong [OF assms(1,2)] case_prod_beta)

definition toy_live :: "string \<Rightarrow> int \<Rightarrow> live" where
  "toy_live c t = \<lparr>lv_manifest = toy_manifest, lv_connected = t, lv_conn = c\<rparr>"

definition toy_registry :: registry where
  "toy_registry = fst (Register ''c2'' (toy_live [] 5) (fst (Register ''c1'' (toy_live [] 3) registry_New)))"

definition toy_swapped :: registry where
  "toy_swapped = toy_registry\<lparr>rg_by_conn := rev (rg_by_conn toy_registry)\<rparr>"

lemma toy_registry_ok: "registry_ok toy_registry"
  by (simp add: toy_registry_def inv_intros)

lemma toy_live_of: "live_of (answering [] ''motor.erp'') toy_registry = [toy_live ''c2'' 5, toy_live ''c1'' 3]"
  by code_simp

theorem resolve_order_free_witness:
  "snd (Resolve [] ''motor.erp'' toy_swapped) = snd (Resolve [] ''motor.erp'' toy_registry)
    \<and> snd (Resolve [] ''motor.erp'' toy_registry) \<noteq> Inl (NoCapability ''motor.erp'')"
proof -
  have "snd (Resolve [] ''motor.erp'' toy_swapped) = snd (Resolve [] ''motor.erp'' toy_registry)"
    using resolve_order_free [OF toy_registry_ok, of toy_swapped "[]" "''motor.erp''"]
    by (simp add: toy_swapped_def)
  moreover have "snd (Resolve [] ''motor.erp'' toy_registry) \<noteq> Inl (NoCapability ''motor.erp'')"
    by (simp add: Resolve_live toy_live_of case_prod_beta)
  ultimately show ?thesis by simp
qed

text \<open>With a policy preference it does: the preferred package is taken from the unsorted connections,
  so which of its replicas answers is the map's choice, neither the newest nor the next in turn.\<close>

lemma preferred_order_bound:
  "snd (ResolvePreferred [] ''motor.erp'' [''deepaxiom/skills/erp''] [] toy_registry)
   \<noteq> snd (ResolvePreferred [] ''motor.erp'' [''deepaxiom/skills/erp''] [] toy_swapped)"
  by code_simp

section \<open>Turns\<close>

text \<open>The answers of a sequence of the same request.\<close>

fun answers :: "nat \<Rightarrow> string \<Rightarrow> string \<Rightarrow> registry \<Rightarrow> (resolve_error + live) list" where
  "answers 0 use capability r = []"
| "answers (Suc n) use capability r =
     (let (r, a) = Resolve use capability r in a # answers n use capability r)"

definition replicas_of :: "live list \<Rightarrow> live list" where
  "replicas_of ls = filter (\<lambda>c. mf_id (lv_manifest c) = mf_id (lv_manifest (hd ls))) ls"

definition turn_key :: "string \<Rightarrow> live list \<Rightarrow> string" where
  "turn_key capability ls = (if capability = [] then mf_id (lv_manifest (hd ls)) else capability)"

definition turn :: "string \<Rightarrow> live list \<Rightarrow> registry \<Rightarrow> nat" where
  "turn capability ls r = (case al_get (rg_rr r) (turn_key capability ls) of None \<Rightarrow> 0 | Some n \<Rightarrow> n)"

lemma replicas_of_le: "length (replicas_of ls) \<le> length ls"
  by (simp add: replicas_of_def)

lemma Resolve_turn:
  assumes "live_of (answering use capability) r = ls" "1 < length (replicas_of ls)" "turn capability ls r + 1 < 2 ^ 64"
  shows "\<exists>r'. Resolve use capability r = (r', Inr (replicas_of ls ! (turn capability ls r mod length (replicas_of ls))))
     \<and> rg_by_conn r' = rg_by_conn r \<and> turn capability ls r' = turn capability ls r + 1"
proof -
  have "1 < length ls" "ls \<noteq> []" using assms(2) replicas_of_le [of ls] by auto
  then show ?thesis
    using assms by (simp add: Resolve_live pick_def Let_def turn_def turn_key_def flip: replicas_of_def)
qed

lemma answers_turns:
  assumes "live_of (answering use capability) r = ls" "1 < length (replicas_of ls)" "turn capability ls r + n < 2 ^ 64"
  shows "answers n use capability r
    = map (\<lambda>i. Inr (replicas_of ls ! (i mod length (replicas_of ls)))) [turn capability ls r ..< turn capability ls r + n]"
  using assms
proof (induction n arbitrary: r)
  case (Suc n)
  then have "turn capability ls r + 1 < 2 ^ 64" by simp
  from Resolve_turn [OF Suc.prems(1,2) this] obtain r' where
    r': "Resolve use capability r = (r', Inr (replicas_of ls ! (turn capability ls r mod length (replicas_of ls))))"
    "rg_by_conn r' = rg_by_conn r" "turn capability ls r' = turn capability ls r + 1" by blast
  moreover have "live_of (answering use capability) r' = ls"
    using Suc.prems(1) r'(2) by (simp add: live_of_def)
  moreover have "turn capability ls r' + n < 2 ^ 64" using Suc.prems(3) r'(3) by simp
  ultimately have "answers n use capability r'
      = map (\<lambda>i. Inr (replicas_of ls ! (i mod length (replicas_of ls)))) [turn capability ls r + 1 ..< turn capability ls r + 1 + n]"
    using Suc.IH [of r'] Suc.prems(2) by simp
  moreover have "[turn capability ls r ..< turn capability ls r + Suc n]
      = turn capability ls r # [turn capability ls r + 1 ..< turn capability ls r + 1 + n]"
    by (simp only: upt_conv_Cons add_Suc_right add_Suc) simp
  ultimately show ?case
    using r'(1) by simp
qed simp

lemma nth_upt_mod:
  assumes "xs \<noteq> []"
  shows "mset (map (\<lambda>i. xs ! (i mod length xs)) [s ..< s + length xs]) = mset xs"
proof (induction s)
  case 0
  have "map (\<lambda>i. xs ! (i mod length xs)) [0 ..< length xs] = map (\<lambda>i. xs ! i) [0 ..< length xs]"
    by (rule map_cong) simp_all
  then show ?case by (simp add: map_nth)
next
  case (Suc s)
  from assms obtain k where k: "length xs = Suc k" by (cases xs) auto
  then have "[s ..< s + length xs] = s # [Suc s ..< s + length xs]"
    by (simp add: upt_conv_Cons)
  moreover have "[Suc s ..< Suc s + length xs] = [Suc s ..< s + length xs] @ [s + length xs]"
    using k by simp
  ultimately show ?case using Suc by simp
qed

text \<open>Sessions are spread over the replicas of a skill: where the newest provider of a capability
  has k replicas, k requests in a row are answered by each replica exactly once, whatever the counter
  stood at.\<close>

theorem replicas_take_turns:
  assumes "live_of (answering use capability) r = ls" "length (replicas_of ls) = k" "1 < k"
    and "turn capability ls r + k < 2 ^ 64"
  shows "mset (answers k use capability r) = image_mset Inr (mset (replicas_of ls))"
proof -
  have "replicas_of ls \<noteq> []" using assms(2,3) by auto
  from arg_cong [OF nth_upt_mod [OF this], of "image_mset Inr" "turn capability ls r"]
  show ?thesis using answers_turns [of use capability r ls k] assms by (simp add: image_mset.compositionality comp_def)
qed

theorem replicas_take_turns_witness:
  "mset (answers 2 [] ''motor.erp'' toy_registry) = {#Inr (toy_live ''c1'' 3), Inr (toy_live ''c2'' 5)#}"
proof -
  have rep: "replicas_of [toy_live ''c2'' 5, toy_live ''c1'' 3] = [toy_live ''c2'' 5, toy_live ''c1'' 3]"
    by code_simp
  have "turn ''motor.erp'' [toy_live ''c2'' 5, toy_live ''c1'' 3] toy_registry = 0"
    by code_simp
  then show ?thesis using replicas_take_turns [OF toy_live_of, of 2] rep by simp
qed

end
