(* ===== verification/Channel.thy ===== *)
theory Channel
  imports GoStd Prelude
begin

text \<open>
  \<^verbatim>\<open>kernel/internal/channel/envelope.go\<close>: the envelope everything travels in, its validation, and
  the bounded deduplicator. A payload is the bytes of a \<^verbatim>\<open>json.RawMessage\<close>, empty when absent.
\<close>

definition ProtocolMajor :: string where "ProtocolMajor = ''1''"

definition QoSReliable :: string where "QoSReliable = ''reliable''"
definition QoSRealtime :: string where "QoSRealtime = ''realtime''"

definition KindData :: string where "KindData = ''data''"
definition KindDone :: string where "KindDone = ''done''"
definition KindError :: string where "KindError = ''error''"
definition KindStatus :: string where "KindStatus = ''status''"
definition KindConfirmRequest :: string where "KindConfirmRequest = ''confirm_request''"
definition KindConfirmResponse :: string where "KindConfirmResponse = ''confirm_response''"
definition KindCancel :: string where "KindCancel = ''cancel''"

lemmas kind_defs = KindData_def KindDone_def KindError_def KindStatus_def KindConfirmRequest_def
  KindConfirmResponse_def KindCancel_def

record envelope =
  ev_v :: string
  ev_id :: string
  ev_cause_id :: string
  ev_session :: string
  ev_node :: string
  ev_port :: string
  ev_seq :: nat
  ev_idem :: string
  ev_schema :: string
  ev_kind :: string
  ev_payload :: bytes
  ev_receipt :: string
  ev_attest :: bytes
  ev_deadline :: int
  ev_priority :: int
  ev_speculative :: bool

text \<open>The zero \<^verbatim>\<open>Envelope\<close>, which composite literals start from.\<close>

definition zero_envelope :: envelope where
  "zero_envelope = \<lparr>ev_v = [], ev_id = [], ev_cause_id = [], ev_session = [], ev_node = [], ev_port = [],
     ev_seq = 0, ev_idem = [], ev_schema = [], ev_kind = [], ev_payload = [], ev_receipt = [],
     ev_attest = [], ev_deadline = 0, ev_priority = 0, ev_speculative = False\<rparr>"

datatype envelope_error =
    BadMajor | MissingID | MissingKind | MissingSession | MissingNodePort | MissingIdem | MissingSchema

definition envelope_Validate :: "envelope \<Rightarrow> envelope_error option" where
  "envelope_Validate e =
     (if ev_v e \<noteq> ProtocolMajor then Some BadMajor
      else if ev_id e = [] then Some MissingID
      else if ev_kind e = [] then Some MissingKind
      else if ev_kind e = KindData then
        (if ev_session e = [] then Some MissingSession
         else if ev_node e = [] \<or> ev_port e = [] then Some MissingNodePort
         else if ev_idem e = [] then Some MissingIdem
         else if ev_schema e = [] then Some MissingSchema
         else None)
      else None)"

section \<open>Ids\<close>

text \<open>\<^verbatim>\<open>NewID\<close>: ten base-32 digits of the millisecond clock, then sixteen of the random bytes. The clock
  and \<^verbatim>\<open>crypto/rand\<close> are arguments.\<close>

definition id_alphabet :: string where "id_alphabet = ''0123456789ABCDEFGHJKMNPQRSTVWXYZ''"

fun id_digits :: "nat \<Rightarrow> nat \<Rightarrow> string" where
  "id_digits 0 now = []"
| "id_digits (Suc i) now = id_digits i (now div 32) @ [id_alphabet ! (now mod 32)]"

definition NewID :: "nat \<Rightarrow> bytes \<Rightarrow> string" where
  "NewID millis random = id_digits 10 millis @ map (\<lambda>b. id_alphabet ! (of_char b mod 32)) random"

end
