(* ===== verification/Causal.thy ===== *)
theory Causal
  imports Channel Registry
begin

text \<open>
  \<^verbatim>\<open>kernel/internal/executor/causal.go\<close>: the four bounded indexes that let a cancel reach a whole
  causal chain and an effect name the inferences behind it. Each evicts its oldest key when a new one
  would exceed its bound; \<open>bounded_fifo\<close> is that contract and what a caller may rely on.
\<close>

section \<open>The contract\<close>

locale bounded_fifo =
  fixes put :: "'s \<Rightarrow> string \<Rightarrow> 'a \<Rightarrow> 's"
    and get :: "'s \<Rightarrow> string \<Rightarrow> 'v option"
    and ok :: "string \<Rightarrow> 'a \<Rightarrow> bool"
    and order :: "'s \<Rightarrow> string list"
    and cap :: "'s \<Rightarrow> nat"
    and inv :: "'s \<Rightarrow> bool"
  assumes put_inv: "inv s \<Longrightarrow> inv (put s k a)"
    and put_cap: "cap (put s k a) = cap s"
    and put_refused: "\<not> ok k a \<Longrightarrow> put s k a = s"
    and inv_keys: "inv s \<Longrightarrow> distinct (order s) \<and> length (order s) \<le> cap s \<and> (get s k \<noteq> None \<longleftrightarrow> k \<in> set (order s))"
    and put_order: "inv s \<Longrightarrow> ok k a \<Longrightarrow> order (put s k a) =
          (if k \<in> set (order s) then order s
           else if length (order s) < cap s then order s @ [k] else tl (order s) @ [k])"
    and put_other: "inv s \<Longrightarrow> k' \<noteq> k \<Longrightarrow> k' \<in> set (order (put s k a)) \<Longrightarrow> get (put s k a) k' = get s k'"
begin

definition puts :: "'s \<Rightarrow> (string \<times> 'a) list \<Rightarrow> 's" where
  "puts s kas = foldl (\<lambda>s (k, a). put s k a) s kas"

lemma puts_simps [simp]: "puts s [] = s" "puts s ((k, a) # kas) = puts (put s k a) kas"
  by (simp_all add: puts_def)

lemma puts_inv: "inv s \<Longrightarrow> inv (puts s kas) \<and> cap (puts s kas) = cap s"
  by (induction kas arbitrary: s) (auto simp: put_inv put_cap)

lemma bounded: "inv s \<Longrightarrow> length (order (puts s kas)) \<le> cap s"
  using puts_inv [of s kas] inv_keys [of "puts s kas"] by simp

text \<open>A key stays, with what it holds, until as many other keys have come in after it as fit.\<close>

lemma put_keeps:
  assumes "inv s" "order s = xs @ k # ys" "Suc (length ys) < cap s" "k' \<noteq> k"
  shows "\<exists>xs' ys'. order (put s k' a) = xs' @ k # ys' \<and> length ys' \<le> Suc (length ys) \<and> get (put s k' a) k = get s k"
proof (cases "ok k' a")
  case False
  with assms show ?thesis by (force simp: put_refused)
next
  case True
  have "\<exists>xs' ys'. order (put s k' a) = xs' @ k # ys' \<and> length ys' \<le> Suc (length ys)"
  proof (cases "k' \<in> set (order s)")
    case True
    with assms \<open>ok k' a\<close> show ?thesis by (force simp: put_order)
  next
    case False
    show ?thesis
    proof (cases xs)
      case Nil
      with assms False True show ?thesis
        by (intro exI [of _ "[]"] exI [of _ "ys @ [k']"]) (simp add: put_order)
    next
      case (Cons x xs')
      show ?thesis
        by (rule exI [of _ "if length (order s) < cap s then xs else xs'"], rule exI [of _ "ys @ [k']"])
          (use assms False True Cons in \<open>simp add: put_order\<close>)
    qed
  qed
  then obtain xs' ys' where *: "order (put s k' a) = xs' @ k # ys'" "length ys' \<le> Suc (length ys)" by blast
  then have "get (put s k' a) k = get s k"
    using assms(1,4) by (intro put_other) simp_all
  with * show ?thesis by blast
qed

lemma puts_keep:
  "inv s \<Longrightarrow> order s = xs @ k # ys \<Longrightarrow> length ys + length kas < cap s \<Longrightarrow> k \<notin> fst ` set kas \<Longrightarrow>
     get (puts s kas) k = get s k"
proof (induction kas arbitrary: s xs ys)
  case (Cons ka kas)
  obtain k' a where ka: "ka = (k', a)" by (cases ka)
  have room: "Suc (length ys) < cap s" "k' \<noteq> k" using Cons.prems(3,4) by (auto simp: ka)
  obtain xs' ys' where
    s': "order (put s k' a) = xs' @ k # ys'" "length ys' \<le> Suc (length ys)" "get (put s k' a) k = get s k"
    using put_keeps [OF Cons.prems(1,2) room, of a] by blast
  from Cons.IH [OF put_inv [OF Cons.prems(1)] s'(1)] Cons.prems(3,4) s'(2,3) show ?case
    by (simp add: ka put_cap)
qed simp

lemma recent_kept:
  assumes "inv s" "ok k a" "k \<notin> set (order s)" "k \<notin> fst ` set kas" "length kas < cap s"
  shows "get (puts (put s k a) kas) k = get (put s k a) k \<and> get (put s k a) k \<noteq> None"
proof -
  have "\<exists>xs. order (put s k a) = xs @ [k]" using assms(1-3) by (auto simp: put_order)
  then obtain xs where o: "order (put s k a) = xs @ k # []" by auto
  have "get (puts (put s k a) kas) k = get (put s k a) k"
    using puts_keep [OF put_inv [OF assms(1)] o] assms(4,5) by (simp add: put_cap)
  moreover have "get (put s k a) k \<noteq> None"
    using inv_keys [OF put_inv [OF assms(1)], of k a k] o by simp
  ultimately show ?thesis by simp
qed

end

section \<open>\<^verbatim>\<open>causalIndex\<close>\<close>

definition maxCausalRoots :: nat where "maxCausalRoots = 8192"
definition maxInFlightRoot :: nat where "maxInFlightRoot = 1024"
definition maxCancelled :: nat where "maxCancelled = 1024"
definition maxAttestRoots :: nat where "maxAttestRoots = 1024"
definition maxAttestPerRoot :: nat where "maxAttestPerRoot = 16"

record causal_index =
  ci_root :: "(string \<times> string) list"
  ci_order :: "string list"
  ci_max :: nat

definition newCausalIndex :: "nat \<Rightarrow> causal_index" where
  "newCausalIndex m = \<lparr>ci_root = [], ci_order = [], ci_max = m\<rparr>"

definition causal_set :: "causal_index \<Rightarrow> string \<Rightarrow> string \<Rightarrow> causal_index" where
  "causal_set c envelopeID root =
     (if envelopeID = [] \<or> root = [] then c
      else (let c = (if al_get (ci_root c) envelopeID = None
                     then (let order = ci_order c @ [envelopeID] in
                           if length order > ci_max c
                           then c\<lparr>ci_order := tl order, ci_root := al_del (hd order) (ci_root c)\<rparr>
                           else c\<lparr>ci_order := order\<rparr>)
                     else c)
            in c\<lparr>ci_root := al_put envelopeID root (ci_root c)\<rparr>))"

definition causal_get :: "causal_index \<Rightarrow> string \<Rightarrow> string option" where
  "causal_get c envelopeID = (if envelopeID = [] then None else al_get (ci_root c) envelopeID)"

text \<open>The invariant shared by the four: the keys of the map are the keys in order, within the bound.\<close>

definition fifo_ok :: "nat \<Rightarrow> string list \<Rightarrow> (string \<times> 'v) list \<Rightarrow> bool" where
  "fifo_ok m order entries \<longleftrightarrow>
     0 < m \<and> distinct order \<and> length order \<le> m \<and> [] \<notin> set order \<and> fst ` set entries = set order"

lemma fifo_get: "fifo_ok m order entries \<Longrightarrow> al_get entries k \<noteq> None \<longleftrightarrow> k \<in> set order"
  by (simp add: fifo_ok_def al_get_None_iff)

lemma fst_set_put: "fst ` set (al_put k v xs) = insert k (fst ` set xs)"
  using arg_cong [OF keys_put [of k v xs], of set] by (auto simp: insert_absorb)

lemma fst_set_del: "fst ` set (al_del k xs) = fst ` set xs - {k}"
  by (auto simp: al_del_def)

lemma fifo_put_known: "fifo_ok m order entries \<Longrightarrow> k \<in> set order \<Longrightarrow> fifo_ok m order (al_put k v entries)"
  by (auto simp: fifo_ok_def fst_set_put)

lemma fifo_put_new:
  assumes "fifo_ok m order entries" "k \<notin> set order" "k \<noteq> []"
  shows "length order < m \<Longrightarrow> fifo_ok m (order @ [k]) (al_put k v entries)"
    and "\<not> length order < m \<Longrightarrow> fifo_ok m (tl order @ [k]) (al_put k v (al_del (hd order) entries)) \<and> order \<noteq> []"
proof -
  show "length order < m \<Longrightarrow> fifo_ok m (order @ [k]) (al_put k v entries)"
    using assms by (auto simp: fifo_ok_def fst_set_put)
  assume "\<not> length order < m"
  with assms(1) have ne: "order \<noteq> []" and len: "length order = m" by (auto simp: fifo_ok_def)
  then obtain x xs where "order = x # xs" by (cases order) auto
  with assms ne len show "fifo_ok m (tl order @ [k]) (al_put k v (al_del (hd order) entries)) \<and> order \<noteq> []"
    by (auto simp: fifo_ok_def fst_set_put fst_set_del)
qed

lemma fifo_evicted:
  "fifo_ok m order entries \<Longrightarrow> k \<notin> set order \<Longrightarrow> \<not> length order < m \<Longrightarrow> hd order \<in> set (tl order) \<Longrightarrow> False"
  by (cases order) (auto simp: fifo_ok_def)

lemma al_put_del: "k \<noteq> x \<Longrightarrow> al_del x (al_put k v m) = al_put k v (al_del x m)"
  by (induction m) (auto simp: al_del_def)

lemma causal_set_cases:
  assumes "fifo_ok (ci_max c) (ci_order c) (ci_root c)" "e \<noteq> []" "r \<noteq> []"
  shows "causal_set c e r =
    (if e \<in> set (ci_order c) then c\<lparr>ci_root := al_put e r (ci_root c)\<rparr>
     else if length (ci_order c) < ci_max c
     then c\<lparr>ci_order := ci_order c @ [e], ci_root := al_put e r (ci_root c)\<rparr>
     else c\<lparr>ci_order := tl (ci_order c) @ [e], ci_root := al_put e r (al_del (hd (ci_order c)) (ci_root c))\<rparr>)"
  using assms fifo_get [OF assms(1), of e] fifo_put_new(2) [OF assms(1), of e]
  by (auto simp: causal_set_def Let_def)

interpretation causal: bounded_fifo causal_set causal_get "\<lambda>e r. e \<noteq> [] \<and> r \<noteq> []" ci_order ci_max
  "\<lambda>c. fifo_ok (ci_max c) (ci_order c) (ci_root c)"
proof (unfold_locales, goal_cases)
  case (1 s k a)
  show ?case
  proof (cases "k = [] \<or> a = []")
    case False
    with 1 show ?thesis by (simp add: causal_set_cases fifo_put_known fifo_put_new)
  qed (use 1 in \<open>simp add: causal_set_def\<close>)
next
  case (2 s k a)
  then show ?case by (simp add: causal_set_def Let_def)
next
  case (3 k a s)
  then show ?case by (auto simp: causal_set_def)
next
  case (4 s k)
  then show ?case using fifo_get [OF 4, of k] by (auto simp: fifo_ok_def causal_get_def)
next
  case (5 s k a)
  then show ?case by (simp add: causal_set_cases)
next
  case (6 s k' k a)
  show ?case
  proof (cases "k = [] \<or> a = []")
    case False
    with 6 show ?thesis by (auto simp: causal_set_cases causal_get_def dest: fifo_evicted split: if_splits)
  qed (use 6 in \<open>simp add: causal_set_def\<close>)
qed


section \<open>\<^verbatim>\<open>cancelledSet\<close> and \<^verbatim>\<open>channel.Dedup\<close>\<close>

record bounded_set =
  bs_seen :: "(string \<times> unit) list"
  bs_order :: "string list"
  bs_max :: nat

definition newCancelledSet :: "nat \<Rightarrow> bounded_set" where
  "newCancelledSet m = \<lparr>bs_seen = [], bs_order = [], bs_max = m\<rparr>"

definition cancelled_add :: "bounded_set \<Rightarrow> string \<Rightarrow> bounded_set" where
  "cancelled_add c root =
     (if root = [] then c
      else if al_get (bs_seen c) root \<noteq> None then c
      else (let seen = al_put root () (bs_seen c); order = bs_order c @ [root] in
            if length order > bs_max c
            then c\<lparr>bs_order := tl order, bs_seen := al_del (hd order) seen\<rparr>
            else c\<lparr>bs_order := order, bs_seen := seen\<rparr>))"

definition cancelled_has :: "bounded_set \<Rightarrow> string \<Rightarrow> bool" where
  "cancelled_has c root \<longleftrightarrow> (if root = [] then False else al_get (bs_seen c) root \<noteq> None)"

definition NewDedup :: "nat \<Rightarrow> bounded_set" where
  "NewDedup m = \<lparr>bs_seen = [], bs_order = [], bs_max = m\<rparr>"

definition Seen :: "bounded_set \<Rightarrow> string \<Rightarrow> bounded_set \<times> bool" where
  "Seen d key =
     (if key = [] then (d, False)
      else if al_get (bs_seen d) key \<noteq> None then (d, True)
      else (let seen = al_put key () (bs_seen d); order = bs_order d @ [key] in
            if length order > bs_max d
            then (d\<lparr>bs_order := tl order, bs_seen := al_del (hd order) seen\<rparr>, False)
            else (d\<lparr>bs_order := order, bs_seen := seen\<rparr>, False)))"

definition set_ok :: "bounded_set \<Rightarrow> bool" where
  "set_ok c \<longleftrightarrow> fifo_ok (bs_max c) (bs_order c) (bs_seen c)"

lemma al_put_known: "al_get m k = Some v \<Longrightarrow> al_put k v m = m"
  by (induction m) (auto split: if_splits)

lemma cancelled_add_cases:
  assumes "set_ok c" "root \<noteq> []"
  shows "cancelled_add c root =
    (if root \<in> set (bs_order c) then c\<lparr>bs_seen := al_put root () (bs_seen c)\<rparr>
     else if length (bs_order c) < bs_max c
     then c\<lparr>bs_order := bs_order c @ [root], bs_seen := al_put root () (bs_seen c)\<rparr>
     else c\<lparr>bs_order := tl (bs_order c) @ [root], bs_seen := al_put root () (al_del (hd (bs_order c)) (bs_seen c))\<rparr>)"
proof (cases "root \<in> set (bs_order c)")
  case True
  with assms have "al_get (bs_seen c) root = Some ()"
    using fifo_get [of "bs_max c" "bs_order c" "bs_seen c" root] by (auto simp: set_ok_def)
  with True assms(2) show ?thesis by (simp add: cancelled_add_def al_put_known)
next
  case False
  then have none: "al_get (bs_seen c) root = None"
    using assms fifo_get [of "bs_max c" "bs_order c" "bs_seen c" root]
    by (cases "al_get (bs_seen c) root") (auto simp: set_ok_def)
  show ?thesis
  proof (cases "length (bs_order c) < bs_max c")
    case True
    with False none assms(2) show ?thesis by (simp add: cancelled_add_def Let_def)
  next
    case full: False
    from fifo_put_new(2) [OF assms(1) [unfolded set_ok_def] False assms(2) full]
    have ne: "bs_order c \<noteq> []" by simp
    with False have "root \<noteq> hd (bs_order c)" by auto
    with False none assms(2) full ne show ?thesis
      by (simp add: cancelled_add_def Let_def al_put_del)
  qed
qed

interpretation cancelled: bounded_fifo "\<lambda>c k (_ :: unit). cancelled_add c k"
  "\<lambda>c k. if cancelled_has c k then Some () else None" "\<lambda>k _. k \<noteq> []" bs_order bs_max set_ok
proof (unfold_locales, goal_cases)
  case (1 s k a)
  then show ?case
    by (cases "k = []") (simp_all add: cancelled_add_cases set_ok_def fifo_put_known fifo_put_new, simp add: cancelled_add_def)
next
  case (2 s k a)
  then show ?case by (simp add: cancelled_add_def Let_def)
next
  case (3 k a s)
  then show ?case by (simp add: cancelled_add_def)
next
  case (4 s k)
  then show ?case using fifo_get [OF 4 [unfolded set_ok_def], of k] by (auto simp: set_ok_def fifo_ok_def cancelled_has_def)
next
  case (5 s k a)
  then show ?case by (simp add: cancelled_add_cases)
next
  case (6 s k' k a)
  show ?case
  proof (cases "k = []")
    case False
    with 6 show ?thesis
      by (auto simp: cancelled_add_cases cancelled_has_def set_ok_def dest: fifo_evicted split: if_splits)
  qed (simp add: cancelled_add_def)
qed

lemma Seen_eq: "Seen d key = (cancelled_add d key, cancelled_has d key)"
  by (simp add: Seen_def cancelled_add_def cancelled_has_def Let_def)

section \<open>\<^verbatim>\<open>inFlightIndex\<close>\<close>

text \<open>A wired destination of an edge (\<^verbatim>\<open>session.go\<close>); no skill is the client.\<close>

record dest =
  de_ref :: string
  de_port :: string
  de_gate :: string
  de_skill :: "live option"
  de_waived :: bool
  de_schema :: string
  de_qos :: string
  de_speculative :: bool
  de_deadline_ms :: int
  de_priority :: int
  de_from :: string

record hop =
  hp_to :: dest
  hp_cause_id :: string

record in_flight =
  if_by_root :: "(string \<times> (string \<times> hop) list) list"
  if_order :: "string list"
  if_max :: nat

definition newInFlightIndex :: "nat \<Rightarrow> in_flight" where
  "newInFlightIndex m = \<lparr>if_by_root = [], if_order = [], if_max = m\<rparr>"

definition hop_key :: "hop \<Rightarrow> string" where
  "hop_key h = de_ref (hp_to h) @ ''.'' @ de_port (hp_to h)"

definition in_flight_record :: "in_flight \<Rightarrow> string \<Rightarrow> hop \<Rightarrow> in_flight" where
  "in_flight_record f root h =
     (if root = [] \<or> de_skill (hp_to h) = None then f
      else (case al_get (if_by_root f) root of
              Some dests \<Rightarrow> f\<lparr>if_by_root := al_put root (al_put (hop_key h) h dests) (if_by_root f)\<rparr>
            | None \<Rightarrow>
                (let byRoot = al_put root [(hop_key h, h)] (if_by_root f); order = if_order f @ [root] in
                 if length order > if_max f
                 then f\<lparr>if_order := tl order, if_by_root := al_del (hd order) byRoot\<rparr>
                 else f\<lparr>if_order := order, if_by_root := byRoot\<rparr>)))"

definition in_flight_take :: "in_flight \<Rightarrow> string \<Rightarrow> in_flight \<times> hop list" where
  "in_flight_take f root =
     (case al_get (if_by_root f) root of
        None \<Rightarrow> (f, [])
      | Some dests \<Rightarrow>
          (f\<lparr>if_by_root := al_del root (if_by_root f), if_order := remove1 root (if_order f)\<rparr>, map snd dests))"

definition in_flight_ok :: "in_flight \<Rightarrow> bool" where
  "in_flight_ok f \<longleftrightarrow> fifo_ok (if_max f) (if_order f) (if_by_root f)"

lemma in_flight_record_cases:
  assumes "in_flight_ok f" "root \<noteq> []" "de_skill (hp_to h) \<noteq> None"
  shows "in_flight_record f root h =
    (if root \<in> set (if_order f)
     then f\<lparr>if_by_root := al_put root (al_put (hop_key h) h (the (al_get (if_by_root f) root))) (if_by_root f)\<rparr>
     else if length (if_order f) < if_max f
     then f\<lparr>if_order := if_order f @ [root], if_by_root := al_put root [(hop_key h, h)] (if_by_root f)\<rparr>
     else f\<lparr>if_order := tl (if_order f) @ [root],
            if_by_root := al_put root [(hop_key h, h)] (al_del (hd (if_order f)) (if_by_root f))\<rparr>)"
proof (cases "root \<in> set (if_order f)")
  case True
  with assms show ?thesis
    using fifo_get [of "if_max f" "if_order f" "if_by_root f" root]
    by (cases "al_get (if_by_root f) root") (auto simp: in_flight_ok_def in_flight_record_def)
next
  case False
  then have none: "al_get (if_by_root f) root = None"
    using assms fifo_get [of "if_max f" "if_order f" "if_by_root f" root]
    by (cases "al_get (if_by_root f) root") (auto simp: in_flight_ok_def)
  show ?thesis
  proof (cases "length (if_order f) < if_max f")
    case True
    with False none assms(2,3) show ?thesis by (auto simp: in_flight_record_def Let_def)
  next
    case full: False
    from fifo_put_new(2) [OF assms(1) [unfolded in_flight_ok_def] False assms(2) full]
    have ne: "if_order f \<noteq> []" by simp
    with False have "root \<noteq> hd (if_order f)" by auto
    with False none assms(2,3) full ne show ?thesis
      by (auto simp: in_flight_record_def Let_def al_put_del)
  qed
qed

interpretation inflight: bounded_fifo in_flight_record "\<lambda>f. al_get (if_by_root f)"
  "\<lambda>root h. root \<noteq> [] \<and> de_skill (hp_to h) \<noteq> None" if_order if_max in_flight_ok
proof (unfold_locales, goal_cases)
  case (1 s k a)
  show ?case
  proof (cases "k = [] \<or> de_skill (hp_to a) = None")
    case False
    then have "k \<noteq> []" "de_skill (hp_to a) \<noteq> None" by simp_all
    with 1 show ?thesis
      by (simp add: in_flight_record_cases) (simp add: in_flight_ok_def fifo_put_known fifo_put_new)
  qed (use 1 in \<open>simp add: in_flight_record_def\<close>)
next
  case (2 s k a)
  then show ?case by (simp add: in_flight_record_def Let_def split: option.split)
next
  case (3 k a s)
  then show ?case by (simp add: in_flight_record_def)
next
  case (4 s k)
  then show ?case using fifo_get [OF 4 [unfolded in_flight_ok_def], of k] by (auto simp: in_flight_ok_def fifo_ok_def)
next
  case (5 s k a)
  then show ?case by (simp only: in_flight_record_cases simp_thms) simp
next
  case (6 s k' k a)
  show ?case
  proof (cases "k = [] \<or> de_skill (hp_to a) = None")
    case False
    then have "k \<noteq> []" "de_skill (hp_to a) \<noteq> None" by simp_all
    with 6 show ?thesis
      by (auto simp: in_flight_record_cases in_flight_ok_def dest: fifo_evicted split: if_splits)
  qed (simp add: in_flight_record_def)
qed

lemma in_flight_take_ok: "in_flight_ok f \<Longrightarrow> in_flight_ok (fst (in_flight_take f root))"
  by (auto simp: in_flight_take_def in_flight_ok_def fifo_ok_def fst_set_del length_remove1
      dest: in_set_takeD notin_set_remove1 split: option.split)

lemma in_flight_take_once: "al_get (if_by_root (fst (in_flight_take f root))) root = None"
  by (simp add: in_flight_take_def split: option.split)

section \<open>\<^verbatim>\<open>attestIndex\<close>\<close>

record attest_index =
  at_by_root :: "(string \<times> string list) list"
  at_truncated :: "string list"
  at_order :: "string list"
  at_max :: nat
  at_max_per_root :: nat

definition newAttestIndex :: "nat \<Rightarrow> nat \<Rightarrow> attest_index" where
  "newAttestIndex m k = \<lparr>at_by_root = [], at_truncated = [], at_order = [], at_max = m, at_max_per_root = k\<rparr>"

definition attest_add :: "attest_index \<Rightarrow> string \<Rightarrow> string \<Rightarrow> attest_index" where
  "attest_add a root h =
     (if root = [] \<or> h = [] then a
      else (let existing = (case al_get (at_by_root a) root of None \<Rightarrow> [] | Some hs \<Rightarrow> hs);
                a = (if al_get (at_by_root a) root = None
                     then (let order = at_order a @ [root] in
                           if length order > at_max a
                           then a\<lparr>at_order := tl order, at_by_root := al_del (hd order) (at_by_root a),
                                  at_truncated := removeAll (hd order) (at_truncated a)\<rparr>
                           else a\<lparr>at_order := order\<rparr>)
                     else a) in
            if h \<in> set existing then a
            else if at_max_per_root a \<le> length existing
            then a\<lparr>at_truncated := List.insert root (at_truncated a)\<rparr>
            else a\<lparr>at_by_root := al_put root (existing @ [h]) (at_by_root a)\<rparr>))"

definition attest_get :: "attest_index \<Rightarrow> string \<Rightarrow> string list \<times> bool" where
  "attest_get a root =
     (if root = [] then ([], False)
      else ((case al_get (at_by_root a) root of None \<Rightarrow> [] | Some hs \<Rightarrow> hs), root \<in> set (at_truncated a)))"

definition attest_ok :: "attest_index \<Rightarrow> bool" where
  "attest_ok a \<longleftrightarrow> fifo_ok (at_max a) (at_order a) (at_by_root a) \<and> 0 < at_max_per_root a"

text \<open>What \<^verbatim>\<open>add\<close> makes of the hashes a root holds.\<close>

definition merged :: "nat \<Rightarrow> string list \<Rightarrow> string \<Rightarrow> string list" where
  "merged k hs h = (if h \<in> set hs \<or> k \<le> length hs then hs else hs @ [h])"

lemma attest_add_known:
  assumes "attest_ok a" "root \<noteq> []" "h \<noteq> []" "al_get (at_by_root a) root = Some hs"
  shows "attest_add a root h = a\<lparr>at_by_root := al_put root (merged (at_max_per_root a) hs h) (at_by_root a),
     at_truncated := (if h \<notin> set hs \<and> at_max_per_root a \<le> length hs then List.insert root (at_truncated a)
                      else at_truncated a)\<rparr>"
  using assms by (simp add: attest_add_def merged_def al_put_known)

lemma attest_add_new:
  assumes "attest_ok a" "root \<noteq> []" "h \<noteq> []" "al_get (at_by_root a) root = None"
  shows "attest_add a root h =
    (if length (at_order a) < at_max a
     then a\<lparr>at_order := at_order a @ [root], at_by_root := al_put root [h] (at_by_root a)\<rparr>
     else a\<lparr>at_order := tl (at_order a) @ [root],
            at_by_root := al_put root [h] (al_del (hd (at_order a)) (at_by_root a)),
            at_truncated := removeAll (hd (at_order a)) (at_truncated a)\<rparr>)"
proof (cases "length (at_order a) < at_max a")
  case True
  with assms show ?thesis by (simp add: attest_add_def attest_ok_def Let_def)
next
  case False
  with assms have "at_order a \<noteq> []" by (auto simp: attest_ok_def fifo_ok_def)
  with False assms show ?thesis by (simp add: attest_add_def attest_ok_def Let_def)
qed

lemma attest_keys: "attest_ok a \<Longrightarrow> al_get (at_by_root a) k \<noteq> None \<longleftrightarrow> k \<in> set (at_order a)"
  using fifo_get [of "at_max a" "at_order a" "at_by_root a" k] by (simp add: attest_ok_def)

interpretation attest: bounded_fifo attest_add "\<lambda>a. al_get (at_by_root a)"
  "\<lambda>root h. root \<noteq> [] \<and> h \<noteq> []" at_order at_max attest_ok
proof (unfold_locales, goal_cases)
  case (1 s k a)
  show ?case
  proof (cases "k = [] \<or> a = []")
    case False
    then have ne: "k \<noteq> []" "a \<noteq> []" by simp_all
    show ?thesis
    proof (cases "al_get (at_by_root s) k")
      case None
      with 1 ne attest_keys [OF 1, of k] show ?thesis
        by (simp add: attest_add_new) (simp add: attest_ok_def fifo_put_new)
    next
      case (Some hs)
      with 1 ne attest_keys [OF 1, of k] show ?thesis
        by (simp add: attest_add_known) (simp add: attest_ok_def fifo_put_known)
    qed
  qed (use 1 in \<open>simp add: attest_add_def\<close>)
next
  case (2 s k a)
  then show ?case by (simp add: attest_add_def Let_def)
next
  case (3 k a s)
  then show ?case by (auto simp: attest_add_def)
next
  case (4 s k)
  then show ?case using attest_keys [OF 4, of k] by (auto simp: attest_ok_def fifo_ok_def)
next
  case (5 s k a)
  then have ne: "k \<noteq> []" "a \<noteq> []" by simp_all
  show ?case
  proof (cases "al_get (at_by_root s) k")
    case None
    with 5 ne attest_keys [OF 5(1), of k] show ?thesis by (simp add: attest_add_new)
  next
    case (Some hs)
    with 5 ne attest_keys [OF 5(1), of k] show ?thesis by (simp add: attest_add_known)
  qed
next
  case (6 s k' k a)
  show ?case
  proof (cases "k = [] \<or> a = []")
    case False
    then have ne: "k \<noteq> []" "a \<noteq> []" by simp_all
    show ?thesis
    proof (cases "al_get (at_by_root s) k")
      case None
      with 6 ne attest_keys [OF 6(1), of k] show ?thesis
        by (auto simp: attest_add_new attest_ok_def dest: fifo_evicted split: if_splits)
    next
      case (Some hs)
      with 6 ne show ?thesis by (simp add: attest_add_known)
    qed
  qed (auto simp: attest_add_def)
qed

section \<open>What an index holds after a run\<close>

text \<open>The distinct elements of a list in the order they first come.\<close>

definition firsts :: "'a list \<Rightarrow> 'a list" where
  "firsts xs = rev (remdups (rev xs))"

lemma firsts_snoc: "firsts (xs @ [x]) = (if x \<in> set xs then firsts xs else firsts xs @ [x])"
  by (simp add: firsts_def)

lemma firsts_simps [simp]: "firsts [] = []" "set (firsts xs) = set xs" "distinct (firsts xs)"
  by (simp_all add: firsts_def)

definition attested :: "string \<Rightarrow> (string \<times> string) list \<Rightarrow> string list" where
  "attested root rhs = firsts (map snd (filter (\<lambda>x. fst x = root) rhs))"

lemma attested_snoc: "attested root (rhs @ [(r, h)]) =
    (if r = root \<and> h \<notin> set (attested root rhs) then attested root rhs @ [h] else attested root rhs)"
  by (auto simp: attested_def firsts_snoc)

lemma attest_run:
  assumes "0 < m" "0 < k" "\<forall>(r, h) \<in> set rhs. r \<noteq> [] \<and> h \<noteq> []" "length (firsts (map fst rhs)) \<le> m"
  shows "attest_ok (attest.puts (newAttestIndex m k) rhs)
    \<and> at_max (attest.puts (newAttestIndex m k) rhs) = m \<and> at_max_per_root (attest.puts (newAttestIndex m k) rhs) = k
    \<and> at_order (attest.puts (newAttestIndex m k) rhs) = firsts (map fst rhs)
    \<and> (\<forall>r. al_get (at_by_root (attest.puts (newAttestIndex m k) rhs)) r
            = (if r \<in> fst ` set rhs then Some (take k (attested r rhs)) else None))
    \<and> (\<forall>r. r \<in> set (at_truncated (attest.puts (newAttestIndex m k) rhs)) \<longleftrightarrow> k < length (attested r rhs))"
  using assms
proof (induction rhs rule: rev_induct)
  case Nil
  then show ?case by (simp add: newAttestIndex_def attest_ok_def fifo_ok_def attested_def)
next
  case (snoc x rhs)
  obtain r h where x: "x = (r, h)" by (cases x)
  have "length (firsts (map fst rhs)) \<le> m"
    using snoc.prems(4) by (simp add: firsts_snoc x split: if_splits)
  with snoc have IH: "attest_ok (attest.puts (newAttestIndex m k) rhs)"
    "at_max (attest.puts (newAttestIndex m k) rhs) = m" "at_max_per_root (attest.puts (newAttestIndex m k) rhs) = k"
    "at_order (attest.puts (newAttestIndex m k) rhs) = firsts (map fst rhs)"
    "\<And>r. al_get (at_by_root (attest.puts (newAttestIndex m k) rhs)) r
            = (if r \<in> fst ` set rhs then Some (take k (attested r rhs)) else None)"
    "\<And>r. r \<in> set (at_truncated (attest.puts (newAttestIndex m k) rhs)) \<longleftrightarrow> k < length (attested r rhs)"
    by auto
  define a where "a = attest.puts (newAttestIndex m k) rhs"
  note IH = IH [folded a_def]
  have ne: "r \<noteq> []" "h \<noteq> []" using snoc.prems(3) by (auto simp: x)
  have run: "attest.puts (newAttestIndex m k) (rhs @ [(r, h)]) = attest_add a r h"
    by (simp add: attest.puts_def a_def)
  have ok: "attest_ok (attest_add a r h)" by (rule attest.put_inv [OF IH(1)])
  show ?case
  proof (cases "r \<in> fst ` set rhs")
    case True
    then have add: "attest_add a r h = a\<lparr>at_by_root := al_put r (merged k (take k (attested r rhs)) h) (at_by_root a),
        at_truncated := (if h \<notin> set (take k (attested r rhs)) \<and> k \<le> length (take k (attested r rhs))
                         then List.insert r (at_truncated a) else at_truncated a)\<rparr>"
      using attest_add_known [OF IH(1) ne, of "take k (attested r rhs)"] IH(3,5) by simp
    have "take k (attested r (rhs @ [(r, h)])) = merged k (take k (attested r rhs)) h"
      using in_set_takeD [of h k "attested r rhs"]
      by (auto simp: attested_snoc merged_def not_le)
    moreover have "(k < length (attested r (rhs @ [(r, h)]))) \<longleftrightarrow> k < length (attested r rhs)
        \<or> h \<notin> set (take k (attested r rhs)) \<and> k \<le> length (attested r rhs)"
      using in_set_takeD [of h k "attested r rhs"]
      by (cases "k < length (attested r rhs)") (auto simp: attested_snoc)
    moreover have "attested r' (rhs @ [(r, h)]) = attested r' rhs" if "r' \<noteq> r" for r'
      using that by (simp add: attested_snoc)
    moreover have "fst ` set (rhs @ [(r, h)]) = fst ` set rhs" "firsts (map fst (rhs @ [(r, h)])) = firsts (map fst rhs)"
      using True by (auto simp: firsts_snoc)
    ultimately have upd: "take k (attested r (rhs @ [(r, h)])) = merged k (take k (attested r rhs)) h"
      "(k < length (attested r (rhs @ [(r, h)]))) \<longleftrightarrow> k < length (attested r rhs)
        \<or> h \<notin> set (take k (attested r rhs)) \<and> k \<le> length (attested r rhs)"
      "\<And>r'. r' \<noteq> r \<Longrightarrow> attested r' (rhs @ [(r, h)]) = attested r' rhs"
      "fst ` set (rhs @ [(r, h)]) = fst ` set rhs" "firsts (map fst (rhs @ [(r, h)])) = firsts (map fst rhs)"
      by blast+
    have trunc: "(r' \<in> set (at_truncated (attest_add a r h))) = (k < length (attested r' (rhs @ [(r, h)])))" for r'
      by (cases "r' = r") (simp_all add: add upd(2,3) IH(6), blast?)
    have by_root: "al_get (at_by_root (attest_add a r h)) r'
        = (if r' \<in> fst ` set (rhs @ [(r, h)]) then Some (take k (attested r' (rhs @ [(r, h)]))) else None)" for r'
      unfolding upd(4) by (cases "r' = r") (use True in \<open>simp_all add: add upd(1,3) IH(5)\<close>)
    show ?thesis
      unfolding x run
      by (intro conjI allI ok trunc by_root) (simp_all only: upd(5), simp_all add: add IH(2,3,4))
  next
    case False
    then have "filter (\<lambda>x. fst x = r) rhs = []"
      by (auto simp: filter_empty_conv)
    with False have none: "al_get (at_by_root a) r = None" "attested r rhs = []"
      by (simp_all add: IH(5) attested_def)
    have "length (at_order a) < at_max a"
      using snoc.prems(4) False IH(2,4) by (simp add: firsts_snoc x)
    then have add: "attest_add a r h = a\<lparr>at_order := at_order a @ [r], at_by_root := al_put r [h] (at_by_root a)\<rparr>"
      using attest_add_new [OF IH(1) ne none(1)] by simp
    show ?thesis
      using ok False IH(2-6) none assms(2) unfolding x run
      by (auto simp: add attested_snoc firsts_snoc image_iff)
  qed
qed

end
