(* ===== verification/Causal_Properties.thy ===== *)
theory Causal_Properties
  imports Causal
begin

text \<open>What the indexes of a session promise: the inferences a chain is sealed with, and how long a
  cancelled chain stays cancelled.\<close>

section \<open>Attestations\<close>

text \<open>After any run of attestations for at most as many chains as the index tracks, a chain cites
  its first distinct attestations in the order they came, as many as the bound allows, and the set is
  flagged truncated exactly when there were more.\<close>

theorem attestations_cited:
  assumes "0 < m" "0 < k" "\<forall>(r, h) \<in> set rhs. r \<noteq> [] \<and> h \<noteq> []" "length (firsts (map fst rhs)) \<le> m"
  shows "attest_get (foldl (\<lambda>a (r, h). attest_add a r h) (newAttestIndex m k) rhs) root
    = (if root = [] then ([], False)
       else (take k (attested root rhs), k < length (attested root rhs)))"
proof -
  have run: "foldl (\<lambda>a (r, h). attest_add a r h) (newAttestIndex m k) rhs = attest.puts (newAttestIndex m k) rhs"
    by (simp add: attest.puts_def)
  have "attested root rhs = []" if "root \<notin> fst ` set rhs"
  proof -
    from that have "filter (\<lambda>x. fst x = root) rhs = []" by (auto simp: filter_empty_conv)
    then show ?thesis by (simp add: attested_def)
  qed
  then show ?thesis
    using attest_run [OF assms] unfolding run by (simp add: attest_get_def)
qed

theorem attestations_cited_witness:
  "attest_get (foldl (\<lambda>a (r, h). attest_add a r h) (newAttestIndex maxAttestRoots 2)
     [(''m1'', ''a''), (''m2'', ''x''), (''m1'', ''b''), (''m1'', ''a''), (''m1'', ''c'')]) ''m1''
   = ([''a'', ''b''], True)"
  by (subst attestations_cited) (simp_all add: maxAttestRoots_def attested_def firsts_def)

text \<open>A chain that is evicted loses its attestations and its flag: what is sealed for it afterwards
  cites nothing and says nothing was left out.\<close>

lemma evicted_chain_forgets:
  "attest_get (foldl (\<lambda>a (r, h). attest_add a r h) (newAttestIndex 1 1) [(''m1'', ''a''), (''m1'', ''b''), (''m2'', ''x'')]) ''m1''
   = ([], False)"
  by code_simp

section \<open>Cancelled chains\<close>

lemma set_tl_subset: "set (tl xs) \<subseteq> set xs"
  by (cases xs) auto

context bounded_fifo
begin

lemma puts_fresh:
  assumes "inv s" "distinct (map fst kas)" "fst ` set kas \<inter> set (order s) = {}" "\<forall>(k, a) \<in> set kas. ok k a"
  shows "order (puts s kas) = drop (length (order s) + length kas - cap s) (order s @ map fst kas)"
  using assms
proof (induction kas arbitrary: s)
  case Nil
  then show ?case using inv_keys [OF Nil.prems(1)] by simp
next
  case (Cons ka kas)
  obtain k a where ka: "ka = (k, a)" by (cases ka)
  define s' where "s' = put s k a"
  have o: "order s' = (if length (order s) < cap s then order s @ [k] else tl (order s) @ [k])"
    using Cons.prems by (simp add: s'_def ka put_order)
  have s': "inv s'" "cap s' = cap s" by (simp_all add: s'_def put_inv put_cap Cons.prems(1))
  have "fst ` set kas \<inter> set (order s') = {}"
    using Cons.prems(2,3) set_tl_subset [of "order s"] by (auto simp: o ka)
  with Cons have IH: "order (puts s' kas) = drop (length (order s') + length kas - cap s) (order s' @ map fst kas)"
    using s' by (simp add: ka)
  have "length (order s) \<le> cap s" using inv_keys [OF Cons.prems(1)] by simp
  moreover have "puts s (ka # kas) = puts s' kas" by (simp add: ka s'_def)
  moreover have "drop (Suc n) (order s @ ys) = drop n (tl (order s) @ ys)" if "order s \<noteq> []" for n ys
    using that by (cases "order s") simp_all
  moreover have "order s \<noteq> []" if "\<not> length (order s) < cap s"
    using that inv_keys [OF s'(1)] s'(2) o by auto
  moreover have "Suc (cap s - Suc 0 + length kas) - cap s = length kas" if "order s \<noteq> []"
    using that \<open>length (order s) \<le> cap s\<close> by (cases "order s") auto
  ultimately show ?case
    using IH by (cases "length (order s) < cap s") (simp_all add: o ka Suc_diff_le del: drop_append)
qed

end

text \<open>A cancelled chain stays cancelled until as many other chains have been cancelled after it as
  the set holds, and not longer.\<close>

theorem cancel_remembered:
  assumes "set_ok c" "distinct (root # later)" "set (root # later) \<inter> set (bs_order c) = {}" "[] \<notin> set (root # later)"
  shows "cancelled_has (foldl cancelled_add (cancelled_add c root) later) root \<longleftrightarrow> length later < bs_max c"
proof -
  define kas where "kas = map (\<lambda>k. (k, ())) (root # later)"
  have run: "foldl cancelled_add (cancelled_add c root) later = cancelled.puts c kas"
    by (simp add: cancelled.puts_def kas_def foldl_map)
  have fst_kas: "map fst kas = root # later" by (simp add: kas_def comp_def)
  then have set_kas: "fst ` set kas = set (root # later)" by (metis list.set_map)
  have ok: "set_ok (cancelled.puts c kas)" and cap: "bs_max (cancelled.puts c kas) = bs_max c"
    using cancelled.puts_inv [OF assms(1), of kas] by simp_all
  have len: "length (bs_order c) \<le> bs_max c" "root \<notin> set (bs_order c)" "root \<notin> set later"
    using cancelled.inv_keys [OF assms(1)] assms(2,3) by auto
  have order: "bs_order (cancelled.puts c kas) =
      drop (length (bs_order c) + length kas - bs_max c) (bs_order c @ root # later)"
    using cancelled.puts_fresh [OF assms(1), of kas] assms(2-4) unfolding fst_kas set_kas
    by (fastforce simp: kas_def simp del: drop_append cancelled.puts_simps)
  have "root \<in> set (bs_order (cancelled.puts c kas)) \<longleftrightarrow> length (bs_order c) + length kas - bs_max c \<le> length (bs_order c)"
    unfolding order using len(2,3) by (auto simp: drop_Cons' dest: in_set_dropD)
  moreover have "length kas = Suc (length later)" by (simp add: kas_def)
  ultimately show ?thesis
    using cancelled.inv_keys [OF ok, of root] len(1) unfolding run by (auto split: if_splits)
qed

lemma newCancelledSet_ok: "0 < m \<Longrightarrow> set_ok (newCancelledSet m)"
  by (simp add: newCancelledSet_def set_ok_def fifo_ok_def)

theorem cancel_remembered_witness:
  "cancelled_has (foldl cancelled_add (cancelled_add (newCancelledSet 2) ''m1'') [''m2'']) ''m1''
   \<and> \<not> cancelled_has (foldl cancelled_add (cancelled_add (newCancelledSet 2) ''m1'') [''m2'', ''m3'']) ''m1''"
  using cancel_remembered [OF newCancelledSet_ok [of 2], of "''m1''" "[''m2'']"]
    cancel_remembered [OF newCancelledSet_ok [of 2], of "''m1''" "[''m2'', ''m3'']"]
  by (simp add: newCancelledSet_def)

end
