(* ===== verification/Speculation.thy ===== *)
theory Speculation
  imports Channel Ledger_Entry
begin

text \<open>
  \<^verbatim>\<open>kernel/internal/executor/speculation.go\<close> and \<^verbatim>\<open>budget.go\<close>: folding the partial outputs of a
  stream, guessing on them and settling the guess, and the two limits on a delivery, its deadline and
  the context budget. A number of a payload passes through \<^verbatim>\<open>float64\<close>: what an integer below 2 to the
  53 becomes is written out, \<open>other\<close> says what becomes of the text of any other number.
\<close>

section \<open>Decoding\<close>

text \<open>\<^verbatim>\<open>json.Unmarshal\<close> into a struct whose error is ignored: what does not fit is skipped, the rest set.\<close>

definition lenient :: "('r \<Rightarrow> string \<times> json \<Rightarrow> 'r option) \<Rightarrow> 'r \<Rightarrow> json \<Rightarrow> 'r" where
  "lenient f r v =
     (case v of
        JObj ms \<Rightarrow> fold (\<lambda>m r. case f r m of None \<Rightarrow> r | Some r' \<Rightarrow> r') ms r
      | _ \<Rightarrow> r)"

text \<open>\<^verbatim>\<open>json.Unmarshal\<close> into an \<^verbatim>\<open>any\<close>, kept as the value \<^verbatim>\<open>json.Marshal\<close> prints again: numbers in
  the form of their \<^verbatim>\<open>float64\<close>, objects with the last of equal keys and the keys in order.\<close>

definition float_text :: "(string \<Rightarrow> string option) \<Rightarrow> string \<Rightarrow> string option" where
  "float_text other t =
     (case parse_int64 t of
        Some i \<Rightarrow> if t = dec_int i \<and> \<bar>i\<bar> < 9007199254740992 then Some t else other t
      | None \<Rightarrow> other t)"

definition go_map :: "(string \<times> json) list \<Rightarrow> (string \<times> json) list" where
  "go_map ms = sort_key fst (fold (\<lambda>(k, v) m. al_put k v m) ms [])"

fun to_any :: "(string \<Rightarrow> string option) \<Rightarrow> json \<Rightarrow> json option"
  and to_any_list :: "(string \<Rightarrow> string option) \<Rightarrow> json list \<Rightarrow> json list option"
  and to_any_members :: "(string \<Rightarrow> string option) \<Rightarrow> (string \<times> json) list \<Rightarrow> (string \<times> json) list option" where
  "to_any other (JNum t) = map_option JNum (float_text other t)"
| "to_any other (JArr vs) = map_option JArr (to_any_list other vs)"
| "to_any other (JObj ms) = map_option (\<lambda>ms. JObj (go_map ms)) (to_any_members other ms)"
| "to_any other v = Some v"
| "to_any_list other [] = Some []"
| "to_any_list other (v # vs) =
     (case to_any other v of None \<Rightarrow> None | Some v \<Rightarrow> map_option ((#) v) (to_any_list other vs))"
| "to_any_members other [] = Some []"
| "to_any_members other ((k, v) # ms) =
     (case to_any other v of None \<Rightarrow> None | Some v \<Rightarrow> map_option ((#) (k, v)) (to_any_members other ms))"

definition Unmarshal_any :: "(string \<Rightarrow> string option) \<Rightarrow> bytes \<Rightarrow> json option" where
  "Unmarshal_any other raw = (case json_parse raw of None \<Rightarrow> None | Some v \<Rightarrow> to_any other v)"

section \<open>Payloads\<close>

definition schemaText :: string where "schemaText = ''std/text@1''"

record text_payload =
  tp_text :: string
  tp_final :: bool

datatype text_field = TText | TFinal

definition text_table :: "(string \<times> text_field) list" where
  "text_table = [(''text'', TText), (''final'', TFinal)]"

definition set_text :: "text_payload \<Rightarrow> string \<times> json \<Rightarrow> text_payload option" where
  "set_text p m =
     (case field_of text_table (fst m) of
        None \<Rightarrow> Some p
      | Some TText \<Rightarrow> map_option (\<lambda>s. p\<lparr>tp_text := s\<rparr>) (to_string (snd m) (tp_text p))
      | Some TFinal \<Rightarrow> map_option (\<lambda>b. p\<lparr>tp_final := b\<rparr>) (to_bool (snd m) (tp_final p)))"

definition zero_text :: text_payload where
  "zero_text = \<lparr>tp_text = [], tp_final = False\<rparr>"

definition Marshal_text :: "text_payload \<Rightarrow> bytes" where
  "Marshal_text p = json_print (JObj ((''text'', JStr (tp_text p))
     # (if tp_final p then [(''final'', JBool True)] else [])))"

definition accumulate :: "string \<Rightarrow> bytes \<Rightarrow> bytes \<Rightarrow> bytes" where
  "accumulate schema running incoming =
     (if schema \<noteq> schemaText then incoming
      else (let acc = (case json_parse running of None \<Rightarrow> zero_text | Some v \<Rightarrow> lenient set_text zero_text v) in
            case json_parse incoming of
              None \<Rightarrow> incoming
            | Some v \<Rightarrow>
                (case to_struct set_text zero_text v of
                   None \<Rightarrow> incoming
                 | Some p \<Rightarrow> Marshal_text \<lparr>tp_text = tp_text acc @ tp_text p, tp_final = tp_final p\<rparr>)))"

text \<open>\<^verbatim>\<open>probe\<close> has the one field \<^verbatim>\<open>final\<close>, a pointer.\<close>

definition set_probe :: "bool option \<Rightarrow> string \<times> json \<Rightarrow> bool option option" where
  "set_probe p m =
     (if field_of [(''final'', ())] (fst m) = None then Some p
      else (case snd m of JBool b \<Rightarrow> Some (Some b) | JNull \<Rightarrow> Some None | _ \<Rightarrow> None))"

definition isFinal :: "bytes \<Rightarrow> bool" where
  "isFinal payload =
     (if payload = [] then False
      else (case json_parse payload of
              None \<Rightarrow> False
            | Some v \<Rightarrow> (case to_struct set_probe None v of Some (Some b) \<Rightarrow> b | _ \<Rightarrow> False)))"

definition markFinal :: "(string \<Rightarrow> string option) \<Rightarrow> bytes \<Rightarrow> bytes" where
  "markFinal other raw =
     (case Unmarshal_any other raw of
        Some (JObj ms) \<Rightarrow> json_print (JObj (go_map (ms @ [(''final'', JBool True)])))
      | _ \<Rightarrow> raw)"

definition canonicalContent :: "(string \<Rightarrow> string option) \<Rightarrow> bytes \<Rightarrow> string" where
  "canonicalContent other raw =
     (case Unmarshal_any other raw of
        None \<Rightarrow> raw
      | Some (JObj ms) \<Rightarrow> json_print (JObj (al_del ''final'' ms))
      | Some v \<Rightarrow> json_print v)"

definition contentEqual :: "(string \<Rightarrow> string option) \<Rightarrow> bytes \<Rightarrow> bytes \<Rightarrow> bool" where
  "contentEqual other a b \<longleftrightarrow> canonicalContent other a = canonicalContent other b"

section \<open>The index of guesses\<close>

record spec_stats =
  ss_attempts :: nat
  ss_hits :: nat
  ss_misses :: nat
  ss_refused :: nat

type_synonym spec_key = "string \<times> string"

record spec_state =
  st_accumulated :: bytes
  st_speculated_on :: bytes
  st_deliveries :: "string list"

record spec_index =
  sx_state :: "(spec_key \<times> spec_state) list"
  sx_order :: "spec_key list"
  sx_max :: nat
  sx_stats :: spec_stats

definition maxSpecRoots :: nat where "maxSpecRoots = 1024"

definition newSpecIndex :: "nat \<Rightarrow> spec_index" where
  "newSpecIndex m = \<lparr>sx_state = [], sx_order = [], sx_max = m,
     sx_stats = \<lparr>ss_attempts = 0, ss_hits = 0, ss_misses = 0, ss_refused = 0\<rparr>\<rparr>"

definition zero_spec_state :: spec_state where
  "zero_spec_state = \<lparr>st_accumulated = [], st_speculated_on = [], st_deliveries = []\<rparr>"

text \<open>\<^verbatim>\<open>get\<close> returns a pointer to the state it finds or makes; an update through it reaches the map
  unless the new key was evicted at once.\<close>

definition spec_get :: "spec_index \<Rightarrow> spec_key \<Rightarrow> spec_index \<times> spec_state" where
  "spec_get x k =
     (case al_get (sx_state x) k of
        Some st \<Rightarrow> (x, st)
      | None \<Rightarrow>
          (let state = al_put k zero_spec_state (sx_state x); order = sx_order x @ [k] in
           (if length order > sx_max x
            then x\<lparr>sx_order := tl order, sx_state := al_del (hd order) state\<rparr>
            else x\<lparr>sx_order := order, sx_state := state\<rparr>, zero_spec_state)))"

definition spec_update :: "spec_key \<Rightarrow> spec_state \<Rightarrow> spec_index \<Rightarrow> spec_index" where
  "spec_update k st x =
     (if al_get (sx_state x) k = None then x else x\<lparr>sx_state := al_put k st (sx_state x)\<rparr>)"

definition spec_fold :: "spec_index \<Rightarrow> spec_key \<Rightarrow> string \<Rightarrow> bytes \<Rightarrow> spec_index \<times> bytes" where
  "spec_fold x k schema payload =
     (case spec_get x k of
        (x, st) \<Rightarrow>
          (let running = accumulate schema (st_accumulated st) payload
           in (spec_update k (st\<lparr>st_accumulated := running\<rparr>) x, running)))"

definition speculate :: "spec_index \<Rightarrow> spec_key \<Rightarrow> string \<Rightarrow> spec_index" where
  "speculate x k envelopeID =
     (case spec_get x k of
        (x, st) \<Rightarrow>
          (let x = spec_update k (st\<lparr>st_speculated_on := st_accumulated st,
                                     st_deliveries := st_deliveries st @ [envelopeID]\<rparr>) x
           in x\<lparr>sx_stats := (sx_stats x)\<lparr>ss_attempts := ss_attempts (sx_stats x) + 1\<rparr>\<rparr>))"

definition spec_forget :: "spec_key \<Rightarrow> spec_index \<Rightarrow> spec_index" where
  "spec_forget k x = x\<lparr>sx_state := al_del k (sx_state x), sx_order := remove1 k (sx_order x)\<rparr>"

definition spec_resolve ::
  "(string \<Rightarrow> string option) \<Rightarrow> spec_index \<Rightarrow> spec_key \<Rightarrow> bytes \<Rightarrow> spec_index \<times> bool \<times> string list" where
  "spec_resolve other x k final =
     (case al_get (sx_state x) k of
        None \<Rightarrow> (x, False, [])
      | Some st \<Rightarrow>
          if st_speculated_on st = [] then (x, False, [])
          else if contentEqual other (st_speculated_on st) final
          then (spec_forget k (x\<lparr>sx_stats := (sx_stats x)\<lparr>ss_hits := ss_hits (sx_stats x) + 1\<rparr>\<rparr>), True, [])
          else (spec_forget k (x\<lparr>sx_stats := (sx_stats x)\<lparr>ss_misses := ss_misses (sx_stats x) + 1\<rparr>\<rparr>),
                False, st_deliveries st))"

section \<open>Deadlines and the context budget\<close>

text \<open>\<open>now\<close> is the clock in nanoseconds; it is read only where a local deadline is set.\<close>

definition inheritDeadline :: "int \<Rightarrow> int \<Rightarrow> int \<Rightarrow> int" where
  "inheritDeadline now inherited localMS =
     (let local = (if localMS > 0 then (now + localMS * 1000000) div 1000000 else 0) in
      if inherited = 0 then local
      else if local = 0 then inherited
      else if local < inherited then local
      else inherited)"

definition deadlineExpired :: "int \<Rightarrow> int \<Rightarrow> bool" where
  "deadlineExpired now deadline \<longleftrightarrow> deadline > 0 \<and> now div 1000000 > deadline"

record context_ledger =
  cx_budget :: int
  cx_consumed :: int

definition newContextLedger :: "int \<Rightarrow> context_ledger" where
  "newContextLedger budget = \<lparr>cx_budget = budget, cx_consumed = 0\<rparr>"

definition bytesPerTokenEstimate :: int where "bytesPerTokenEstimate = 4"

definition charge :: "context_ledger \<Rightarrow> int \<Rightarrow> context_ledger \<times> bool" where
  "charge c payloadBytes =
     (if cx_budget c \<le> 0 then (c, False)
      else (let c = c\<lparr>cx_consumed := cx_consumed c + payloadBytes div bytesPerTokenEstimate\<rparr>
            in (c, cx_consumed c > cx_budget c)))"

end
