(* ===== verification/Graph.thy ===== *)
theory Graph
  imports Registry Speculation Policy
begin

text \<open>
  \<^verbatim>\<open>kernel/internal/executor/ir.go\<close>: the graph document (C2), its decoding and its validation. A
  node's constraints and the waves are decoded, as an ill-typed one is refused, but nothing reads them.
\<close>

definition IRMajor :: string where "IRMajor = ''1''"
definition ClientRef :: string where "ClientRef = ''client''"

record node =
  no_ref :: string
  no_resolve :: string
  no_use :: string

record edge =
  eg_from :: string
  eg_to :: string
  eg_gate :: string
  eg_qos :: string
  eg_speculative :: bool
  eg_deadline_ms :: int
  eg_priority :: int

record graph =
  gr_ir :: string
  gr_graph_id :: string
  gr_origin_kind :: string
  gr_nodes :: "node list"
  gr_edges :: "edge list"
  gr_context_budget :: int

section \<open>Decoding\<close>

datatype node_field = NRef | NResolve | NUse | NConstraints

definition node_table :: "(string \<times> node_field) list" where
  "node_table = [(''ref'', NRef), (''resolve'', NResolve), (''use'', NUse), (''constraints'', NConstraints)]"

definition any_map :: "(string \<Rightarrow> string option) \<Rightarrow> json \<Rightarrow> bool" where
  "any_map other v = (case v of JObj ms \<Rightarrow> to_any other v \<noteq> None | JNull \<Rightarrow> True | _ \<Rightarrow> False)"

definition set_node :: "(string \<Rightarrow> string option) \<Rightarrow> node \<Rightarrow> string \<times> json \<Rightarrow> node option" where
  "set_node other n m =
     (case field_of node_table (fst m) of
        None \<Rightarrow> Some n
      | Some NRef \<Rightarrow> map_option (\<lambda>s. n\<lparr>no_ref := s\<rparr>) (to_string (snd m) (no_ref n))
      | Some NResolve \<Rightarrow> map_option (\<lambda>s. n\<lparr>no_resolve := s\<rparr>) (to_string (snd m) (no_resolve n))
      | Some NUse \<Rightarrow> map_option (\<lambda>s. n\<lparr>no_use := s\<rparr>) (to_string (snd m) (no_use n))
      | Some NConstraints \<Rightarrow> if any_map other (snd m) then Some n else None)"

definition zero_node :: node where
  "zero_node = \<lparr>no_ref = [], no_resolve = [], no_use = []\<rparr>"

datatype edge_field = EFrom | ETo | EGate | EQoS | ESpeculative | EDeadline | EPriority

definition edge_table :: "(string \<times> edge_field) list" where
  "edge_table = [(''from'', EFrom), (''to'', ETo), (''gate'', EGate), (''qos'', EQoS),
     (''speculative'', ESpeculative), (''deadline_ms'', EDeadline), (''priority'', EPriority)]"

definition set_edge :: "edge \<Rightarrow> string \<times> json \<Rightarrow> edge option" where
  "set_edge e m =
     (case field_of edge_table (fst m) of
        None \<Rightarrow> Some e
      | Some EFrom \<Rightarrow> map_option (\<lambda>s. e\<lparr>eg_from := s\<rparr>) (to_string (snd m) (eg_from e))
      | Some ETo \<Rightarrow> map_option (\<lambda>s. e\<lparr>eg_to := s\<rparr>) (to_string (snd m) (eg_to e))
      | Some EGate \<Rightarrow> map_option (\<lambda>s. e\<lparr>eg_gate := s\<rparr>) (to_string (snd m) (eg_gate e))
      | Some EQoS \<Rightarrow> map_option (\<lambda>s. e\<lparr>eg_qos := s\<rparr>) (to_string (snd m) (eg_qos e))
      | Some ESpeculative \<Rightarrow> map_option (\<lambda>b. e\<lparr>eg_speculative := b\<rparr>) (to_bool (snd m) (eg_speculative e))
      | Some EDeadline \<Rightarrow> map_option (\<lambda>i. e\<lparr>eg_deadline_ms := i\<rparr>) (to_int64 (snd m) (eg_deadline_ms e))
      | Some EPriority \<Rightarrow> map_option (\<lambda>i. e\<lparr>eg_priority := i\<rparr>) (to_int64 (snd m) (eg_priority e)))"

definition zero_edge :: edge where
  "zero_edge = \<lparr>eg_from = [], eg_to = [], eg_gate = [], eg_qos = [], eg_speculative = False,
     eg_deadline_ms = 0, eg_priority = 0\<rparr>"

datatype origin_field = OKind | OSkill | OCause

definition origin_table :: "(string \<times> origin_field) list" where
  "origin_table = [(''kind'', OKind), (''skill'', OSkill), (''cause'', OCause)]"

definition set_origin :: "string \<Rightarrow> string \<times> json \<Rightarrow> string option" where
  "set_origin kind m =
     (case field_of origin_table (fst m) of
        None \<Rightarrow> Some kind
      | Some OKind \<Rightarrow> to_string (snd m) kind
      | Some _ \<Rightarrow> map_option (\<lambda>_. kind) (to_string (snd m) []))"

datatype graph_field = GIR | GGraphID | GOrigin | GNodes | GEdges | GWaves | GBudget

definition graph_table :: "(string \<times> graph_field) list" where
  "graph_table = [(''ir'', GIR), (''graph_id'', GGraphID), (''origin'', GOrigin), (''nodes'', GNodes),
     (''edges'', GEdges), (''waves'', GWaves), (''context_budget'', GBudget)]"

definition set_graph :: "(string \<Rightarrow> string option) \<Rightarrow> graph \<Rightarrow> string \<times> json \<Rightarrow> graph option" where
  "set_graph other g m =
     (case field_of graph_table (fst m) of
        None \<Rightarrow> Some g
      | Some GIR \<Rightarrow> map_option (\<lambda>s. g\<lparr>gr_ir := s\<rparr>) (to_string (snd m) (gr_ir g))
      | Some GGraphID \<Rightarrow> map_option (\<lambda>s. g\<lparr>gr_graph_id := s\<rparr>) (to_string (snd m) (gr_graph_id g))
      | Some GOrigin \<Rightarrow> map_option (\<lambda>s. g\<lparr>gr_origin_kind := s\<rparr>) (to_struct set_origin (gr_origin_kind g) (snd m))
      | Some GNodes \<Rightarrow> map_option (\<lambda>ns. g\<lparr>gr_nodes := ns\<rparr>) (to_slice (to_struct (set_node other) zero_node) (snd m))
      | Some GEdges \<Rightarrow> map_option (\<lambda>es. g\<lparr>gr_edges := es\<rparr>) (to_slice (to_struct set_edge zero_edge) (snd m))
      | Some GWaves \<Rightarrow> map_option (\<lambda>_. g) (to_slice (to_slice (\<lambda>v. to_string v [])) (snd m))
      | Some GBudget \<Rightarrow> map_option (\<lambda>i. g\<lparr>gr_context_budget := i\<rparr>) (to_int64 (snd m) (gr_context_budget g)))"

definition zero_graph :: graph where
  "zero_graph = \<lparr>gr_ir = [], gr_graph_id = [], gr_origin_kind = [], gr_nodes = [], gr_edges = [], gr_context_budget = 0\<rparr>"

section \<open>Endpoints\<close>

definition ref_char :: "char \<Rightarrow> bool" where
  "ref_char c \<longleftrightarrow> lower_digit c \<or> c = CHR ''_'' \<or> c = CHR ''-''"

definition port_char :: "char \<Rightarrow> bool" where
  "port_char c \<longleftrightarrow> lower_digit c \<or> c = CHR ''_''"

definition endpointRe :: "string \<Rightarrow> bool" where
  "endpointRe s \<longleftrightarrow> (case split_on (CHR ''.'') s of [r, p] \<Rightarrow> plus_of ref_char r \<and> plus_of port_char p | _ \<Rightarrow> False)"

text \<open>\<^verbatim>\<open>strings.SplitN(ep, ".", 2)\<close>; the second half exists where the endpoint has been validated.\<close>

definition splitEndpoint :: "string \<Rightarrow> string \<times> string" where
  "splitEndpoint ep = (takeWhile (\<lambda>c. c \<noteq> CHR ''.'') ep, drop 1 (dropWhile (\<lambda>c. c \<noteq> CHR ''.'') ep))"

section \<open>Validation\<close>

datatype graph_error =
    BadJson | BadIR | NoGraphID | BadOrigin | EmptyGraph | BadRef string | DuplicateRef string
  | NoResolveNorUse string | BadEndpoint string string | UnknownNode string | UnknownGate string
  | NegativeDeadline string string | SpeculativeGate string string | NegativeBudget

fun check_nodes :: "string list \<Rightarrow> node list \<Rightarrow> graph_error + string list" where
  "check_nodes refs [] = Inr refs"
| "check_nodes refs (n # ns) =
     (if no_ref n = [] \<or> no_ref n = ClientRef then Inl (BadRef (no_ref n))
      else if no_ref n \<in> set refs then Inl (DuplicateRef (no_ref n))
      else if no_resolve n = [] \<and> no_use n = [] then Inl (NoResolveNorUse (no_ref n))
      else check_nodes (no_ref n # refs) ns)"

definition check_edge :: "string list \<Rightarrow> edge \<Rightarrow> graph_error option" where
  "check_edge refs e =
     (if \<not> endpointRe (eg_from e) \<or> \<not> endpointRe (eg_to e) then Some (BadEndpoint (eg_from e) (eg_to e))
      else if fst (splitEndpoint (eg_from e)) \<notin> set refs then Some (UnknownNode (fst (splitEndpoint (eg_from e))))
      else if fst (splitEndpoint (eg_to e)) \<notin> set refs then Some (UnknownNode (fst (splitEndpoint (eg_to e))))
      else if eg_gate e \<noteq> [] \<and> eg_gate e \<noteq> GateHumanApproval \<and> eg_gate e \<noteq> GateNone then Some (UnknownGate (eg_gate e))
      else if eg_deadline_ms e < 0 then Some (NegativeDeadline (eg_from e) (eg_to e))
      else if eg_speculative e \<and> eg_gate e = GateHumanApproval then Some (SpeculativeGate (eg_from e) (eg_to e))
      else None)"

fun check_edges :: "string list \<Rightarrow> edge list \<Rightarrow> graph_error option" where
  "check_edges refs [] = None"
| "check_edges refs (e # es) = (case check_edge refs e of Some err \<Rightarrow> Some err | None \<Rightarrow> check_edges refs es)"

definition check_graph :: "graph \<Rightarrow> graph_error option" where
  "check_graph g =
     (if gr_ir g \<noteq> IRMajor then Some BadIR
      else if gr_graph_id g = [] then Some NoGraphID
      else if gr_origin_kind g \<noteq> ''declared'' \<and> gr_origin_kind g \<noteq> ''planner'' then Some BadOrigin
      else if gr_nodes g = [] \<or> gr_edges g = [] then Some EmptyGraph
      else (case check_nodes [ClientRef] (gr_nodes g) of
              Inl e \<Rightarrow> Some e
            | Inr refs \<Rightarrow>
                (case check_edges refs (gr_edges g) of
                   Some e \<Rightarrow> Some e
                 | None \<Rightarrow> if gr_context_budget g < 0 then Some NegativeBudget else None)))"

definition ParseGraph :: "(string \<Rightarrow> string option) \<Rightarrow> bytes \<Rightarrow> graph_error + graph" where
  "ParseGraph other raw =
     (case json_parse raw of
        None \<Rightarrow> Inl BadJson
      | Some v \<Rightarrow>
          (case to_struct (set_graph other) zero_graph v of
             None \<Rightarrow> Inl BadJson
           | Some g \<Rightarrow> (case check_graph g of Some e \<Rightarrow> Inl e | None \<Rightarrow> Inr g)))"

section \<open>What a valid graph has\<close>

lemma check_nodes_refs: "check_nodes refs ns = Inr out \<Longrightarrow> set out = set refs \<union> no_ref ` set ns
    \<and> distinct (map no_ref ns) \<and> set refs \<inter> no_ref ` set ns = {}"
  by (induction refs ns arbitrary: out rule: check_nodes.induct) (auto split: if_splits)

lemma check_edges_None: "check_edges refs es = None \<longleftrightarrow> (\<forall>e \<in> set es. check_edge refs e = None)"
  by (induction es) (auto split: option.split)

lemma check_graph_None:
  assumes "check_graph g = None"
  obtains refs where "set refs = insert ClientRef (no_ref ` set (gr_nodes g))" "distinct (map no_ref (gr_nodes g))"
    "ClientRef \<notin> no_ref ` set (gr_nodes g)" "\<forall>e \<in> set (gr_edges g). check_edge refs e = None"
proof -
  from assms obtain refs where "check_nodes [ClientRef] (gr_nodes g) = Inr refs" "check_edges refs (gr_edges g) = None"
    by (auto simp: check_graph_def split: if_splits sum.splits option.splits)
  with check_nodes_refs [OF this(1)] show ?thesis
    by (intro that) (auto simp: check_edges_None)
qed

end
