(* ===== verification/Approver.thy ===== *)
theory Approver
  imports Approval Store_Ledger Ledger
begin

text \<open>
  \<^verbatim>\<open>kernel/internal/approver/approver.go\<close> with the operators table of \<^verbatim>\<open>store.go\<close>: the roster of
  humans who may answer a gate. \<^verbatim>\<open>io k\<close> says whether the \<open>k\<close>-th database call of an operation fails.
\<close>

section \<open>The operators table\<close>

record operator_row =
  or_id :: string
  or_pubkey :: string
  or_name :: string
  or_added :: int
  or_revoked :: "int option"

text \<open>The primary key is the id: an upsert keeps the row's place and its \<^verbatim>\<open>added\<close>.\<close>

definition SaveOperator :: "bool \<Rightarrow> operator_row \<Rightarrow> operator_row list \<Rightarrow> operator_row list option" where
  "SaveOperator fault r rows =
     (if fault then None
      else if or_id r \<in> or_id ` set rows
      then Some (map (\<lambda>x. if or_id x = or_id r
                          then x\<lparr>or_pubkey := or_pubkey r, or_name := or_name r, or_revoked := None\<rparr> else x) rows)
      else Some (rows @ [r\<lparr>or_revoked := None\<rparr>]))"

definition RevokeOperator :: "bool \<Rightarrow> string \<Rightarrow> int \<Rightarrow> operator_row list \<Rightarrow> (operator_row list \<times> bool) option" where
  "RevokeOperator fault i ts rows =
     (if fault then None
      else Some (map (\<lambda>x. if or_id x = i \<and> or_revoked x = None then x\<lparr>or_revoked := Some ts\<rparr> else x) rows,
                 list_ex (\<lambda>x. or_id x = i \<and> or_revoked x = None) rows))"

definition Operators :: "bool \<Rightarrow> operator_row list \<Rightarrow> operator_row list option" where
  "Operators fault rows = (if fault then None else Some (sort_key or_id rows))"

section \<open>The roster\<close>

text \<open>The cache maps an id to its row; a row of the cache reads a missing revocation as 0.\<close>

record roster =
  ro_ops :: "(string \<times> operator_row) list"

definition revoked_at :: "operator_row \<Rightarrow> int" where
  "revoked_at o' = (case or_revoked o' of None \<Rightarrow> 0 | Some t \<Rightarrow> t)"

definition Reload :: "bool \<Rightarrow> operator_row list \<Rightarrow> roster option" where
  "Reload fault rows =
     map_option (\<lambda>rs. \<lparr>ro_ops = fold (\<lambda>o' m. al_put (or_id o') o' m) rs []\<rparr>) (Operators fault rows)"

datatype enroll_error = NoOperatorId | BadOperatorKey | KeyEnrolledAs string | EnrollNotSaved

definition Enroll ::
  "(nat \<Rightarrow> bool) \<Rightarrow> int \<Rightarrow> string \<Rightarrow> string \<Rightarrow> string \<Rightarrow> roster \<times> operator_row list
   \<Rightarrow> (roster \<times> operator_row list) \<times> enroll_error option" where
  "Enroll io now i pubkeyB64 name s =
     (let i = TrimSpace i; pubkeyB64 = TrimSpace pubkeyB64 in
      if i = [] then (s, Some NoOperatorId)
      else if (case b64_decode pubkeyB64 of None \<Rightarrow> True | Some raw \<Rightarrow> length raw \<noteq> PublicKeySize)
      then (s, Some BadOperatorKey)
      else (case find (\<lambda>(_, o'). or_pubkey o' = pubkeyB64 \<and> or_id o' \<noteq> i \<and> revoked_at o' = 0) (ro_ops (fst s)) of
              Some (_, o') \<Rightarrow> (s, Some (KeyEnrolledAs (or_id o')))
            | None \<Rightarrow>
                (case SaveOperator (io 0) \<lparr>or_id = i, or_pubkey = pubkeyB64, or_name = name,
                                          or_added = unix_milli now, or_revoked = None\<rparr> (snd s) of
                   None \<Rightarrow> (s, Some EnrollNotSaved)
                 | Some rows \<Rightarrow>
                     (case Reload (io 1) rows of
                        None \<Rightarrow> ((fst s, rows), Some EnrollNotSaved)
                      | Some r \<Rightarrow> ((r, rows), None)))))"

definition Revoke ::
  "(nat \<Rightarrow> bool) \<Rightarrow> int \<Rightarrow> string \<Rightarrow> roster \<times> operator_row list \<Rightarrow> (roster \<times> operator_row list) \<times> bool \<times> bool" where
  "Revoke io now i s =
     (case RevokeOperator (io 0) i (unix_milli now) (snd s) of
        None \<Rightarrow> (s, False, True)
      | Some (rows, False) \<Rightarrow> ((fst s, rows), False, False)
      | Some (rows, True) \<Rightarrow>
          (case Reload (io 1) rows of
             None \<Rightarrow> ((fst s, rows), True, True)
           | Some r \<Rightarrow> ((r, rows), True, False)))"

definition roster_Empty :: "roster \<Rightarrow> bool" where
  "roster_Empty r = list_all (\<lambda>(_, o'). revoked_at o' \<noteq> 0) (ro_ops r)"

datatype check_error =
    CheckNoApproval | OtherDelivery | NotVerified approval_error | NotEnrolled string
  | OperatorRevoked string int | OtherKey string

text \<open>\<^verbatim>\<open>Check\<close> verifies through the pointer it is given: the approval comes back with its context sorted.\<close>

definition Check ::
  "ed25519 \<Rightarrow> roster \<Rightarrow> approval option \<Rightarrow> string \<Rightarrow> string \<Rightarrow> string \<Rightarrow> approval option \<times> check_error option" where
  "Check ed r ma node session envelope =
     (case ma of
        None \<Rightarrow> (None, Some CheckNoApproval)
      | Some a \<Rightarrow>
          if \<not> Binds ma envelope then (ma, Some OtherDelivery)
          else (case approval_Verify ed ma node session of
                  (ma, Some e) \<Rightarrow> (ma, Some (NotVerified e))
                | (ma, None) \<Rightarrow>
                    (ma, case al_get (ro_ops r) (ap_operator a) of
                           None \<Rightarrow> Some (NotEnrolled (ap_operator a))
                         | Some o' \<Rightarrow>
                             if revoked_at o' \<noteq> 0 then Some (OperatorRevoked (ap_operator a) (revoked_at o'))
                             else if or_pubkey o' \<noteq> TrimSpace (ap_pubkey a) then Some (OtherKey (ap_operator a))
                             else None)))"

lemma Check_None:
  assumes "Check ed r ma node session envelope = (mb, None)"
  obtains a o' where "ma = Some a" "mb = Some (sort_context a)" "approval_Verify ed ma node session = (mb, None)"
    "ap_envelope a = envelope" "envelope \<noteq> []" "al_get (ro_ops r) (ap_operator a) = Some o'"
    "revoked_at o' = 0" "or_pubkey o' = TrimSpace (ap_pubkey a)"
proof -
  obtain a where a: "ma = Some a" using assms by (auto simp: Check_def split: option.splits)
  obtain mc e where v: "approval_Verify ed ma node session = (mc, e)" by fastforce
  have e: "e = None" and mb: "mb = mc" and b: "Binds ma envelope"
    using assms v by (auto simp: Check_def a split: option.splits if_splits)
  obtain o' where o': "al_get (ro_ops r) (ap_operator a) = Some o'"
    using assms v e by (auto simp: Check_def a split: option.splits if_splits)
  from v [unfolded e] obtain a' where "ma = Some a'" "mc = Some (sort_context a')"
    unfolding approval_Verify_None by blast
  then show ?thesis
    using assms v e b o' a by (intro that [of a o']) (auto simp: mb Check_def Binds_def split: if_splits)
qed

end
