(* ===== verification/Attest.thy ===== *)
theory Attest
  imports Speculation Ledger
begin

text \<open>
  \<^verbatim>\<open>kernel/internal/ledger/attest.go\<close>: the inference attestation (C5), what a skill asserts of how it
  produced an output. The record is content-addressed by its raw bytes.
\<close>

definition MaxAttestationBytes :: nat where "MaxAttestationBytes = 8192"

record energy_report =
  er_source :: string
  er_basis :: string

record attestation =
  an_engine :: string
  an_engine_version :: string
  an_model :: string
  an_model_revision :: string
  an_model_file :: string
  an_model_sha256 :: string
  an_quantization :: string
  an_params :: "json option"
  an_prompt_sha256 :: string
  an_output_sha256 :: string
  an_tee :: "json option"
  an_energy :: "energy_report option"

definition EnergySources :: "string list" where
  "EnergySources = [''nvml'', ''rapl'', ''powermetrics'', ''estimated'']"

section \<open>Decoding\<close>

datatype energy_field = EMillijoules | ESource | EBasis

definition energy_table :: "(string \<times> energy_field) list" where
  "energy_table = [(''millijoules'', EMillijoules), (''source'', ESource), (''basis'', EBasis)]"

definition to_float :: "(string \<Rightarrow> string option) \<Rightarrow> json \<Rightarrow> bool" where
  "to_float other v = (case v of JNum t \<Rightarrow> float_text other t \<noteq> None | JNull \<Rightarrow> True | _ \<Rightarrow> False)"

definition set_energy :: "(string \<Rightarrow> string option) \<Rightarrow> energy_report \<Rightarrow> string \<times> json \<Rightarrow> energy_report option" where
  "set_energy other r m =
     (case field_of energy_table (fst m) of
        None \<Rightarrow> Some r
      | Some EMillijoules \<Rightarrow> if to_float other (snd m) then Some r else None
      | Some ESource \<Rightarrow> map_option (\<lambda>s. r\<lparr>er_source := s\<rparr>) (to_string (snd m) (er_source r))
      | Some EBasis \<Rightarrow> map_option (\<lambda>s. r\<lparr>er_basis := s\<rparr>) (to_string (snd m) (er_basis r)))"

datatype attestation_field =
    AEngine | AEngineVersion | AModel | AModelRevision | AModelFile | AModelSHA256 | AQuantization
  | AParams | APromptSHA256 | AOutputSHA256 | ATEE | AEnergy

definition attestation_table :: "(string \<times> attestation_field) list" where
  "attestation_table =
     [(''engine'', AEngine), (''engine_version'', AEngineVersion), (''model'', AModel),
      (''model_revision'', AModelRevision), (''model_file'', AModelFile), (''model_sha256'', AModelSHA256),
      (''quantization'', AQuantization), (''params'', AParams), (''prompt_sha256'', APromptSHA256),
      (''output_sha256'', AOutputSHA256), (''tee'', ATEE), (''energy'', AEnergy)]"

definition zero_energy :: energy_report where
  "zero_energy = \<lparr>er_source = [], er_basis = []\<rparr>"

definition zero_attestation :: attestation where
  "zero_attestation = \<lparr>an_engine = [], an_engine_version = [], an_model = [], an_model_revision = [],
     an_model_file = [], an_model_sha256 = [], an_quantization = [], an_params = None, an_prompt_sha256 = [],
     an_output_sha256 = [], an_tee = None, an_energy = None\<rparr>"

definition set_attestation ::
  "(string \<Rightarrow> string option) \<Rightarrow> attestation \<Rightarrow> string \<times> json \<Rightarrow> attestation option" where
  "set_attestation other a m =
     (case field_of attestation_table (fst m) of
        None \<Rightarrow> Some a
      | Some AEngine \<Rightarrow> map_option (\<lambda>s. a\<lparr>an_engine := s\<rparr>) (to_string (snd m) (an_engine a))
      | Some AEngineVersion \<Rightarrow> map_option (\<lambda>s. a\<lparr>an_engine_version := s\<rparr>) (to_string (snd m) (an_engine_version a))
      | Some AModel \<Rightarrow> map_option (\<lambda>s. a\<lparr>an_model := s\<rparr>) (to_string (snd m) (an_model a))
      | Some AModelRevision \<Rightarrow> map_option (\<lambda>s. a\<lparr>an_model_revision := s\<rparr>) (to_string (snd m) (an_model_revision a))
      | Some AModelFile \<Rightarrow> map_option (\<lambda>s. a\<lparr>an_model_file := s\<rparr>) (to_string (snd m) (an_model_file a))
      | Some AModelSHA256 \<Rightarrow> map_option (\<lambda>s. a\<lparr>an_model_sha256 := s\<rparr>) (to_string (snd m) (an_model_sha256 a))
      | Some AQuantization \<Rightarrow> map_option (\<lambda>s. a\<lparr>an_quantization := s\<rparr>) (to_string (snd m) (an_quantization a))
      | Some AParams \<Rightarrow> Some (a\<lparr>an_params := Some (snd m)\<rparr>)
      | Some APromptSHA256 \<Rightarrow> map_option (\<lambda>s. a\<lparr>an_prompt_sha256 := s\<rparr>) (to_string (snd m) (an_prompt_sha256 a))
      | Some AOutputSHA256 \<Rightarrow> map_option (\<lambda>s. a\<lparr>an_output_sha256 := s\<rparr>) (to_string (snd m) (an_output_sha256 a))
      | Some ATEE \<Rightarrow> Some (a\<lparr>an_tee := Some (snd m)\<rparr>)
      | Some AEnergy \<Rightarrow> map_option (\<lambda>e. a\<lparr>an_energy := e\<rparr>)
          (to_pointer (set_energy other) zero_energy (snd m) (an_energy a)))"

section \<open>Operations\<close>

definition AttestationHash :: "bytes \<Rightarrow> string" where
  "AttestationHash raw = ''sha256:'' @ hex_encode (sha256 raw)"

datatype attestation_error =
    AttestationEmpty | AttestationTooLong | AttestationBadJson | NoEngine | NoModel | NoEnergySource | BadEnergySource

definition ParseAttestation ::
  "(string \<Rightarrow> string option) \<Rightarrow> bytes \<Rightarrow> attestation_error + (attestation \<times> string)" where
  "ParseAttestation other raw =
     (if raw = [] then Inl AttestationEmpty
      else if MaxAttestationBytes < length raw then Inl AttestationTooLong
      else (case json_parse raw of
              None \<Rightarrow> Inl AttestationBadJson
            | Some v \<Rightarrow>
                (case to_struct (set_attestation other) zero_attestation v of
                   None \<Rightarrow> Inl AttestationBadJson
                 | Some a \<Rightarrow>
                     if TrimSpace (an_engine a) = [] then Inl NoEngine
                     else if TrimSpace (an_model a) = [] then Inl NoModel
                     else (case an_energy a of
                             None \<Rightarrow> Inr (a, AttestationHash raw)
                           | Some e \<Rightarrow>
                               if er_source e = [] then Inl NoEnergySource
                               else if \<not> oneOf (er_source e) EnergySources then Inl BadEnergySource
                               else Inr (a, AttestationHash raw)))))"

definition RecordAttestation :: "bool \<Rightarrow> int \<Rightarrow> string \<Rightarrow> bytes \<Rightarrow> ledger_db \<Rightarrow> db_error + ledger_db" where
  "RecordAttestation fault now h raw db = SaveAttestation fault h raw (unix_milli now) db"

datatype load_error = AttestationUnread db_error | AttestationAltered | AttestationUnparsed attestation_error

definition LoadAttestation ::
  "(string \<Rightarrow> string option) \<Rightarrow> bool \<Rightarrow> string \<Rightarrow> ledger_db \<Rightarrow> load_error + attestation" where
  "LoadAttestation other fault h db =
     (case Attestation fault h db of
        Inl e \<Rightarrow> Inl (AttestationUnread e)
      | Inr raw \<Rightarrow>
          if AttestationHash raw \<noteq> h then Inl AttestationAltered
          else (case ParseAttestation other raw of
                  Inl e \<Rightarrow> Inl (AttestationUnparsed e)
                | Inr (a, _) \<Rightarrow> Inr a))"

end
