(* ===== verification/Session.thy ===== *)
theory Session
  imports Graph Causal Approver Attest
begin

text \<open>
  \<^verbatim>\<open>kernel/internal/executor/session.go\<close>: a live instance of a graph, from an envelope that comes in to
  what is held, sealed, logged and sent. The log and the wire carry \<^verbatim>\<open>json.Marshal\<close> of an envelope;
  the model keeps the envelope (every payload in it is JSON already, so marshalling does not fail).

  The world outside a session is a record of functions of a tick that counts the session's contacts
  with it: the ids drawn, the clock, and which calls (to the log, the store, a skill, the client)
  succeed. \<open>None\<close> is a session that does not return, by a panic or by never ending: a pinned node can
  send \<^verbatim>\<open>Route\<close> round a cycle, so \<open>Route\<close> counts down fuel.
\<close>

section \<open>The world\<close>

datatype failure =
    RateLimited string int reason | BudgetExhausted int int | SealRefused seal_error | SendFailed string string
  | GateRefused string string | GateDenied string string string

record world =
  wo_id :: "nat \<Rightarrow> string"
  wo_now :: "nat \<Rightarrow> int"
  wo_ok :: "nat \<Rightarrow> bool"
  wo_other :: "string \<Rightarrow> string option"
  wo_text :: "failure \<Rightarrow> string"
  wo_ed :: ed25519

section \<open>The state\<close>

record pin =
  pn_port :: string
  pn_schema :: string
  pn_payload :: bytes

datatype delivery = ToClient envelope string | ToSkill dest envelope string

record session =
  sn_id :: string
  sn_routes :: "(string \<times> dest list) list"
  sn_seq :: "(string \<times> nat) list"
  sn_dedup :: bounded_set
  sn_policy :: policy
  sn_ledger :: "ledger option"
  sn_db :: ledger_db
  sn_log :: "envelope list"
  sn_pins :: "(string \<times> pin) list"
  sn_undo_of :: string
  sn_pending :: "(string \<times> (envelope \<times> dest)) list"
  sn_approvers :: "roster option"
  sn_node :: string
  sn_approved :: "(string \<times> approval) list"
  sn_causal :: causal_index
  sn_in_flight :: in_flight
  sn_cancelled :: bounded_set
  sn_attests :: attest_index
  sn_spec :: spec_index
  sn_ctx :: context_ledger
  sn_sent :: "delivery list"
  sn_tick :: nat

definition routes_from :: "session \<Rightarrow> string \<Rightarrow> dest list" where
  "routes_from s key = (case al_get (sn_routes s) key of None \<Rightarrow> [] | Some ds \<Rightarrow> ds)"

text \<open>Drawing an id, reading the clock, appending to the event log, sending.\<close>

definition draw_id :: "world \<Rightarrow> session \<Rightarrow> session \<times> string" where
  "draw_id w s = (s\<lparr>sn_tick := sn_tick s + 1\<rparr>, wo_id w (sn_tick s))"

definition read_clock :: "world \<Rightarrow> session \<Rightarrow> session \<times> int" where
  "read_clock w s = (s\<lparr>sn_tick := sn_tick s + 1\<rparr>, wo_now w (sn_tick s))"

definition append_event :: "world \<Rightarrow> envelope \<Rightarrow> session \<Rightarrow> session" where
  "append_event w e s =
     s\<lparr>sn_tick := sn_tick s + 1, sn_log := (if wo_ok w (sn_tick s) then sn_log s @ [e] else sn_log s)\<rparr>"

definition send :: "world \<Rightarrow> delivery \<Rightarrow> session \<Rightarrow> session \<times> bool" where
  "send w x s = (s\<lparr>sn_tick := sn_tick s + 1, sn_sent := sn_sent s @ [x]\<rparr>, wo_ok w (sn_tick s))"

section \<open>What the kernel says itself\<close>

definition kernel_envelope :: "string \<Rightarrow> string \<Rightarrow> session \<Rightarrow> envelope" where
  "kernel_envelope i causeID s = zero_envelope\<lparr>ev_v := ProtocolMajor, ev_id := i, ev_cause_id := causeID, ev_session := sn_id s\<rparr>"

definition emitStatus :: "world \<Rightarrow> string \<Rightarrow> bytes \<Rightarrow> session \<Rightarrow> session" where
  "emitStatus w causeID payload s =
     (let (s, i) = draw_id w s;
          env = (kernel_envelope i causeID s)\<lparr>ev_node := ClientRef, ev_port := ''text_in'', ev_kind := KindStatus,
                  ev_schema := ''std/status@1'', ev_payload := payload\<rparr>
      in fst (send w (ToClient env QoSReliable) (append_event w env s)))"

definition emitError :: "world \<Rightarrow> string \<Rightarrow> failure \<Rightarrow> session \<Rightarrow> session" where
  "emitError w causeID msg s =
     (let payload = json_print (JObj [(''detail'', JStr (wo_text w msg)), (''state'', JStr ''error'')]);
          (s, i) = draw_id w s;
          env = (kernel_envelope i causeID s)\<lparr>ev_node := ClientRef, ev_port := ''text_in'', ev_kind := KindError,
                  ev_schema := ''std/status@1'', ev_payload := payload\<rparr>
      in fst (send w (ToClient env QoSReliable) (append_event w env s)))"

section \<open>Chains\<close>

definition rootOf :: "session \<Rightarrow> envelope \<Rightarrow> string" where
  "rootOf s env =
     (if ev_node env = ClientRef then ev_id env
      else (case causal_get (sn_causal s) (ev_cause_id env) of Some root \<Rightarrow> root | None \<Rightarrow> []))"

definition recordAttestation :: "world \<Rightarrow> string \<Rightarrow> envelope \<Rightarrow> session \<Rightarrow> session" where
  "recordAttestation w root env s =
     (if ev_attest env = [] \<or> root = [] then s
      else (case ParseAttestation (wo_other w) (ev_attest env) of
              Inl _ \<Rightarrow> s
            | Inr (_, h) \<Rightarrow>
                (case RecordAttestation (\<not> wo_ok w (sn_tick s)) (wo_now w (sn_tick s)) h (ev_attest env) (sn_db s) of
                   Inl _ \<Rightarrow> s\<lparr>sn_tick := sn_tick s + 1\<rparr>
                 | Inr db \<Rightarrow> s\<lparr>sn_tick := sn_tick s + 1, sn_db := db, sn_attests := attest_add (sn_attests s) root h\<rparr>)))"

section \<open>Sealing\<close>

definition OutcomeDelivered :: string where "OutcomeDelivered = ''delivered''"
definition OutcomeDenied :: string where "OutcomeDenied = ''denied''"

definition compensationOf :: "manifest \<Rightarrow> compensation option" where
  "compensationOf m =
     map_option (\<lambda>c. \<lparr>co_capability = mf_capability m, co_port = mc_port c, co_schema = mc_schema c\<rparr>) (mf_compensates m)"

definition actor_of :: "manifest \<Rightarrow> string" where
  "actor_of m = mf_id m @ ''@'' @ mf_version m"

definition takeApproval :: "string \<Rightarrow> session \<Rightarrow> session \<times> approval option" where
  "takeApproval heldID s =
     (if heldID = [] then (s, None)
      else (case al_get (sn_approved s) heldID of
              None \<Rightarrow> (s, None)
            | Some a \<Rightarrow> (s\<lparr>sn_approved := al_del heldID (sn_approved s)\<rparr>, Some a)))"

text \<open>One call of \<^verbatim>\<open>Ledger.Seal\<close>, which may contact the world five times.\<close>

definition seal :: "world \<Rightarrow> seal_request \<Rightarrow> ledger \<Rightarrow> session \<Rightarrow> (session \<times> (seal_error + string)) option" where
  "seal w req l s =
     (case Seal (wo_ed w) (\<lambda>k. \<not> wo_ok w (sn_tick s + k)) (\<lambda>k. wo_now w (sn_tick s + k)) req (l, sn_db s) of
        None \<Rightarrow> None
      | Some ((l, db), r) \<Rightarrow> Some (s\<lparr>sn_ledger := Some l, sn_db := db, sn_tick := sn_tick s + 5\<rparr>, r))"

definition seal_request_of :: "envelope \<Rightarrow> dest \<Rightarrow> live \<Rightarrow> session \<Rightarrow> seal_request" where
  "seal_request_of env d l s =
     \<lparr>sr_session = sn_id s, sr_envelope = ev_id env, sr_cause = ev_cause_id env,
      sr_actor = actor_of (lv_manifest l), sr_capability = mf_capability (lv_manifest l),
      sr_decision = (if de_gate d = GateHumanApproval then DecisionGate else DecisionAllow),
      sr_outcome = OutcomeDelivered, sr_policy = po_hash (sn_policy s), sr_payload = ev_payload env,
      sr_compensation = compensationOf (lv_manifest l), sr_waived = de_waived d,
      sr_compensates = sn_undo_of s, sr_inference = [], sr_approver = None\<rparr>"

definition sealEffect ::
  "world \<Rightarrow> envelope \<Rightarrow> dest \<Rightarrow> string \<Rightarrow> session \<Rightarrow> (session \<times> (seal_error + envelope)) option" where
  "sealEffect w out d root s =
     (case (sn_ledger s, de_skill d) of
        (Some l, Some sk) \<Rightarrow>
          if mf_type (lv_manifest sk) \<noteq> TypeMotor \<or> ev_kind out \<noteq> KindData then Some (s, Inr out)
          else (let req = (seal_request_of out d sk s)\<lparr>sr_inference := fst (attest_get (sn_attests s) root)\<rparr>;
                    (s, appr) = takeApproval (ev_cause_id out) s
                in case seal w (req\<lparr>sr_approver := appr\<rparr>) l s of
                     None \<Rightarrow> None
                   | Some (s, Inl e) \<Rightarrow> Some (s, Inl e)
                   | Some (s, Inr receipt) \<Rightarrow> Some (s, Inr (out\<lparr>ev_receipt := receipt\<rparr>)))
      | _ \<Rightarrow> Some (s, Inr out))"

definition sealDenial :: "world \<Rightarrow> envelope \<Rightarrow> dest \<Rightarrow> approval option \<Rightarrow> session \<Rightarrow> session option" where
  "sealDenial w env d appr s =
     (case (sn_ledger s, de_skill d) of
        (Some l, Some sk) \<Rightarrow>
          (let req = (seal_request_of env d sk s)\<lparr>sr_decision := DecisionGate, sr_outcome := OutcomeDenied,
                       sr_waived := False, sr_inference := fst (attest_get (sn_attests s) (rootOf s env)),
                       sr_approver := appr\<rparr>
           in map_option fst (seal w req l s))
      | _ \<Rightarrow> Some s)"


section \<open>Forwarding\<close>

text \<open>Only data into a skill counts against the context budget.\<close>

definition chargeContext :: "envelope \<Rightarrow> session \<Rightarrow> session \<times> failure option" where
  "chargeContext out s =
     (if ev_kind out \<noteq> KindData \<or> ev_node out = ClientRef then (s, None)
      else (case charge (sn_ctx s) (int (length (ev_payload out))) of
              (c, over) \<Rightarrow> (s\<lparr>sn_ctx := c\<rparr>, if over then Some (BudgetExhausted (cx_budget c) (cx_consumed c)) else None)))"

definition dropExpired :: "world \<Rightarrow> envelope \<Rightarrow> session \<Rightarrow> session \<times> bool" where
  "dropExpired w out s =
     (case read_clock w s of
        (s, now) \<Rightarrow>
          if \<not> deadlineExpired now (ev_deadline out) \<or> ev_kind out \<noteq> KindData then (s, False)
          else (let (s, later) = read_clock w s;
                    payload = json_print (JObj [(''deadline'', JNum (dec_int (ev_deadline out))), (''elided'', JBool True),
                                (''late_ms'', JNum (dec_int (later div 1000000 - ev_deadline out))),
                                (''reason'', JStr ''past deadline'')])
                in (append_event w (out\<lparr>ev_payload := payload\<rparr>) s, True)))"

definition loggable :: "envelope \<Rightarrow> string \<Rightarrow> envelope" where
  "loggable env qos =
     (if qos \<noteq> QoSRealtime \<or> ev_payload env = [] then env
      else env\<lparr>ev_payload := json_print (JObj [(''bytes'', JNum (dec_nat (length (ev_payload env)))),
             (''elided'', JBool True), (''sha256'', JStr (hex_encode (take 8 (sha256 (ev_payload env)))))])\<rparr>)"

definition hop_seq :: "session \<Rightarrow> string \<Rightarrow> nat" where
  "hop_seq s key = (case al_get (sn_seq s) key of None \<Rightarrow> 0 | Some n \<Rightarrow> n)"

definition dest_key :: "dest \<Rightarrow> string" where
  "dest_key d = de_ref d @ ''.'' @ de_port d"

text \<open>The envelope of one hop: the next sequence number, a new id, the source as its cause.\<close>

definition hop_envelope :: "world \<Rightarrow> envelope \<Rightarrow> dest \<Rightarrow> session \<Rightarrow> session \<times> envelope" where
  "hop_envelope w src d s =
     (let s = s\<lparr>sn_seq := al_put (dest_key d) ((hop_seq s (dest_key d) + 1) mod 2 ^ 64) (sn_seq s)\<rparr>;
          (s, i) = draw_id w s;
          (s, now) = read_clock w s
      in (s, (kernel_envelope i (ev_id src) s)\<lparr>ev_node := de_ref d, ev_port := de_port d,
               ev_seq := hop_seq s (dest_key d),
               ev_idem := ev_idem src @ '':'' @ de_ref d @ '':'' @ de_port d,
               ev_schema := ev_schema src, ev_kind := ev_kind src, ev_payload := ev_payload src,
               ev_priority := de_priority d, ev_speculative := de_speculative d,
               ev_deadline := inheritDeadline now (ev_deadline src) (de_deadline_ms d)\<rparr>))"

definition track :: "envelope \<Rightarrow> dest \<Rightarrow> string \<Rightarrow> string \<Rightarrow> session \<Rightarrow> session" where
  "track src d outID root s =
     (if root = [] then s
      else s\<lparr>sn_causal := causal_set (sn_causal s) outID root,
             sn_in_flight := in_flight_record (sn_in_flight s) root \<lparr>hp_to = d, hp_cause_id = ev_id src\<rparr>\<rparr>)"

text \<open>The last steps of \<^verbatim>\<open>forward\<close>: drop what is late, log, send on the declared lane.\<close>

definition deliver :: "world \<Rightarrow> envelope \<Rightarrow> envelope \<Rightarrow> dest \<Rightarrow> session \<Rightarrow> session" where
  "deliver w src out d s =
     (case dropExpired w out s of
        (s, True) \<Rightarrow> s
      | (s, False) \<Rightarrow>
          (let s = append_event w (loggable out (de_qos d)) s;
               qos = (if ev_kind out \<noteq> KindData then QoSReliable else de_qos d);
               (s, sent) = send w (if de_ref d = ClientRef then ToClient out qos else ToSkill d out qos) s
           in if sent then s else emitError w (ev_id src) (SendFailed (de_ref d) (de_port d)) s))"

definition dispatch :: "world \<Rightarrow> envelope \<Rightarrow> dest \<Rightarrow> session \<Rightarrow> session option" where
  "dispatch w src d s =
     (let (s, out) = hop_envelope w src d s in
      case chargeContext out s of
        (s, Some e) \<Rightarrow> Some (emitError w (ev_id src) e s)
      | (s, None) \<Rightarrow>
          (let root = rootOf s src; s = track src d (ev_id out) root s in
           case sealEffect w out d root s of
             None \<Rightarrow> None
           | Some (s, Inr out) \<Rightarrow> Some (deliver w src out d s)
           | Some (s, Inl e) \<Rightarrow>
               if SealFailureRefuses (sn_policy s) then Some (emitError w (ev_id src) (SealRefused e) s)
               else Some (deliver w src out d s)))"

definition pinned_note :: "dest \<Rightarrow> pin \<Rightarrow> bytes" where
  "pinned_note d p =
     json_print (JObj [(''detail'', JStr (''output supplied by the caller; '' @ de_ref d @ '' was not run'')),
       (''node'', JStr (de_ref d)), (''port'', JStr (pn_port p)), (''state'', JStr ''pinned'')])"

definition pinned_output :: "string \<Rightarrow> envelope \<Rightarrow> dest \<Rightarrow> pin \<Rightarrow> session \<Rightarrow> envelope" where
  "pinned_output i src d p s =
     (kernel_envelope i (ev_id src) s)\<lparr>ev_node := de_ref d, ev_port := pn_port p, ev_kind := KindData,
        ev_schema := pn_schema p, ev_payload := pn_payload p\<rparr>"

text \<open>\<open>route\<close> is \<^verbatim>\<open>Route\<close>, which a pinned output goes back through. \<open>None\<close> inside the option is a node
  that is not pinned.\<close>

definition answerFromPin ::
  "(envelope \<Rightarrow> session \<Rightarrow> session option) \<Rightarrow> world \<Rightarrow> envelope \<Rightarrow> dest \<Rightarrow> session \<Rightarrow> session option option" where
  "answerFromPin route w src d s =
     (case al_get (sn_pins s) (de_ref d) of
        None \<Rightarrow> None
      | Some p \<Rightarrow>
          if de_ref d = ClientRef then None
          else if ev_kind src \<noteq> KindData then Some (Some s)
          else (let (s, i) = draw_id w (emitStatus w (ev_id src) (pinned_note d p) s)
                in Some (route (pinned_output i src d p s) s)))"

definition check_rate :: "world \<Rightarrow> envelope \<Rightarrow> dest \<Rightarrow> session \<Rightarrow> session \<times> failure option" where
  "check_rate w src d s =
     (case de_skill d of
        None \<Rightarrow> (s, None)
      | Some sk \<Rightarrow>
          if ev_kind src \<noteq> KindData then (s, None)
          else (let (s, now) = read_clock w s; (p, e) = CheckRate now (mf_capability (lv_manifest sk)) (sn_policy s)
                in (s\<lparr>sn_policy := p\<rparr>, map_option (\<lambda>(c, n, r). RateLimited c n r) e)))"

definition forward ::
  "(envelope \<Rightarrow> session \<Rightarrow> session option) \<Rightarrow> world \<Rightarrow> envelope \<Rightarrow> dest \<Rightarrow> session \<Rightarrow> session option" where
  "forward route w src d s =
     (case check_rate w src d s of
        (s, Some e) \<Rightarrow> Some (emitError w (ev_id src) e s)
      | (s, None) \<Rightarrow>
          (case answerFromPin route w src d s of
             Some r \<Rightarrow> r
           | None \<Rightarrow> dispatch w src d s))"

section \<open>Approval gates\<close>

definition approvalContextRequired :: "session \<Rightarrow> string list" where
  "approvalContextRequired s = po_require_approval_context (sn_policy s)"

definition question :: "envelope \<Rightarrow> dest \<Rightarrow> string list \<Rightarrow> bytes" where
  "question env d labels =
     json_print (JObj ((if labels = [] then [] else [(''context_required'', JArr (map JStr labels))])
       @ [(''held'', JStr (ev_id env)), (''options'', JArr [JStr ''approve'', JStr ''deny'']),
          (''question'', JStr (''Approve delivery to '' @ de_ref d @ ''.'' @ de_port d @ ''?'')),
          (''to_port'', JStr (de_port d)), (''to_ref'', JStr (de_ref d))]))"

definition holdForApproval :: "world \<Rightarrow> envelope \<Rightarrow> dest \<Rightarrow> session \<Rightarrow> session" where
  "holdForApproval w env d s =
     (let (s, reqID) = draw_id w s;
          s = s\<lparr>sn_pending := al_put reqID (env, d) (sn_pending s)\<rparr>;
          req = (kernel_envelope reqID (ev_id env) s)\<lparr>ev_node := ClientRef, ev_port := ''confirm_in'',
                  ev_kind := KindConfirmRequest, ev_schema := ''std/confirmation@1'',
                  ev_payload := question env d (approvalContextRequired s)\<rparr>
      in fst (send w (ToClient req QoSReliable) (append_event w req s)))"

record answer =
  aw_approve :: bool
  aw_approval :: "approval option"

datatype answer_field = WApprove | WApproval

definition answer_table :: "(string \<times> answer_field) list" where
  "answer_table = [(''approve'', WApprove), (''approval'', WApproval)]"

definition lenient_slice :: "(json \<Rightarrow> 'a) \<Rightarrow> json \<Rightarrow> 'a list option" where
  "lenient_slice f v = (case v of JArr vs \<Rightarrow> Some (map f vs) | JNull \<Rightarrow> Some [] | _ \<Rightarrow> None)"

text \<open>As \<open>set_approval\<close>, with the entries of the context decoded as far as they go.\<close>

definition set_approval_lenient :: "approval \<Rightarrow> string \<times> json \<Rightarrow> approval option" where
  "set_approval_lenient a m =
     (if field_of approval_table (fst m) = Some FContext
      then map_option (\<lambda>cs. a\<lparr>ap_context := cs\<rparr>) (lenient_slice (lenient set_context zero_context) (snd m))
      else set_approval a m)"

definition set_answer :: "answer \<Rightarrow> string \<times> json \<Rightarrow> answer option" where
  "set_answer b m =
     (case field_of answer_table (fst m) of
        None \<Rightarrow> Some b
      | Some WApprove \<Rightarrow> map_option (\<lambda>x. b\<lparr>aw_approve := x\<rparr>) (to_bool (snd m) (aw_approve b))
      | Some WApproval \<Rightarrow>
          Some (b\<lparr>aw_approval := (if snd m = JNull then None
             else Some (lenient set_approval_lenient
                          (case aw_approval b of None \<Rightarrow> zero_approval | Some a \<Rightarrow> a) (snd m)))\<rparr>))"

definition read_answer :: "bytes \<Rightarrow> answer" where
  "read_answer payload =
     (let zero = \<lparr>aw_approve = False, aw_approval = None\<rparr> in
      case json_parse payload of None \<Rightarrow> zero | Some v \<Rightarrow> lenient set_answer zero v)"

datatype gate_error =
    SignatureRequired "string list" | NoRoster | CheckFailed check_error
  | ContextUnbound string "string list" | Disagrees bool string string

definition authorizeGate ::
  "world \<Rightarrow> envelope \<Rightarrow> bool \<Rightarrow> approval option \<Rightarrow> session \<Rightarrow> gate_error + (bool \<times> approval option)" where
  "authorizeGate w held approve ma s =
     (let labels = approvalContextRequired s in
      case ma of
        None \<Rightarrow> if SignedApprovalRequired (sn_policy s) then Inl (SignatureRequired labels) else Inr (approve, None)
      | Some _ \<Rightarrow>
          (case sn_approvers s of
             None \<Rightarrow> Inl NoRoster
           | Some r \<Rightarrow>
               (case Check (wo_ed w) r ma (sn_node s) (sn_id s) (ev_id held) of
                  (ma, Some e) \<Rightarrow> Inl (CheckFailed e)
                | (None, None) \<Rightarrow> Inl (CheckFailed CheckNoApproval)
                | (Some a, None) \<Rightarrow>
                    if labels \<noteq> [] \<and> Unbound (Some a) labels \<noteq> []
                    then Inl (ContextUnbound (ap_operator a) (Unbound (Some a) labels))
                    else (let signed = (ap_decision a = ApprovalApprove) in
                          if signed \<noteq> approve then Inl (Disagrees approve (ap_operator a) (ap_decision a))
                          else Inr (signed, Some a)))))"

definition resolveGate ::
  "(envelope \<Rightarrow> session \<Rightarrow> session option) \<Rightarrow> world \<Rightarrow> envelope \<Rightarrow> session \<Rightarrow> session option" where
  "resolveGate route w resp s =
     (case al_get (sn_pending s) (ev_cause_id resp) of
        None \<Rightarrow> Some s
      | Some (held, d) \<Rightarrow>
          (let s = s\<lparr>sn_pending := al_del (ev_cause_id resp) (sn_pending s)\<rparr>;
               body = read_answer (ev_payload resp);
               s = append_event w resp s
           in case authorizeGate w held (aw_approve body) (aw_approval body) s of
                Inl e \<Rightarrow>
                  map_option (emitError w (ev_id resp) (GateRefused (de_ref d) (de_port d))) (sealDenial w held d None s)
              | Inr (True, appr) \<Rightarrow>
                  forward route w held d
                    (case appr of None \<Rightarrow> s | Some a \<Rightarrow> s\<lparr>sn_approved := al_put (ev_id held) a (sn_approved s)\<rparr>)
              | Inr (False, appr) \<Rightarrow>
                  map_option (emitError w (ev_id resp)
                      (GateDenied (de_ref d) (de_port d) (case appr of None \<Rightarrow> ''user'' | Some a \<Rightarrow> ap_operator a)))
                    (sealDenial w held d appr s)))"

section \<open>Cancelling\<close>

fun ask_to_stop :: "world \<Rightarrow> hop list \<Rightarrow> session \<Rightarrow> session" where
  "ask_to_stop w [] s = s"
| "ask_to_stop w (h # hs) s =
     (let (s, i) = draw_id w s;
          e = (kernel_envelope i (hp_cause_id h) s)\<lparr>ev_node := de_ref (hp_to h), ev_port := de_port (hp_to h),
                ev_kind := KindCancel\<rparr>
      in ask_to_stop w hs (fst (send w (ToSkill (hp_to h) e QoSReliable) s)))"

definition handleCancel :: "world \<Rightarrow> envelope \<Rightarrow> session \<Rightarrow> session" where
  "handleCancel w env s =
     (let root = (case causal_get (sn_causal s) (ev_cause_id env) of Some r \<Rightarrow> r | None \<Rightarrow> ev_cause_id env) in
      if root = [] then s
      else (let s = s\<lparr>sn_cancelled := cancelled_add (sn_cancelled s) root\<rparr>;
                (f, hops) = in_flight_take (sn_in_flight s) root
            in ask_to_stop w hops (s\<lparr>sn_in_flight := f\<rparr>)))"

definition abandonSpeculation :: "world \<Rightarrow> dest \<Rightarrow> string \<Rightarrow> session \<Rightarrow> session" where
  "abandonSpeculation w d envelopeID s =
     (let s = s\<lparr>sn_cancelled := cancelled_add (sn_cancelled s) envelopeID\<rparr> in
      if de_skill d = None then s
      else (let payload = json_print (JObj [(''reason'', JStr (''speculation superseded: the producer's final output differs ''
                            @ ''from the partial this work was started on''))]);
                (s, i) = draw_id w s;
                e = (kernel_envelope i envelopeID s)\<lparr>ev_node := de_ref d, ev_port := de_port d,
                      ev_kind := KindCancel, ev_payload := payload\<rparr>
            in fst (send w (ToSkill d e QoSReliable) (append_event w e s))))"

section \<open>Routing\<close>

definition forwardSpeculatively ::
  "(envelope \<Rightarrow> session \<Rightarrow> session option) \<Rightarrow> world \<Rightarrow> envelope \<Rightarrow> dest \<Rightarrow> string \<Rightarrow> session \<Rightarrow> session option" where
  "forwardSpeculatively route w env d root s =
     (if ev_kind env \<noteq> KindData \<or> root = [] then forward route w env d s
      else (let key = (root, de_from d);
                (x, running) = spec_fold (sn_spec s) key (ev_schema env) (ev_payload env);
                s = s\<lparr>sn_spec := x\<rparr>
            in if \<not> isFinal (ev_payload env)
               then map_option (\<lambda>s. s\<lparr>sn_spec := speculate (sn_spec s) key (ev_id env)\<rparr>)
                      (forward route w (env\<lparr>ev_payload := markFinal (wo_other w) running\<rparr>) d s)
               else (case spec_resolve (wo_other w) (sn_spec s) key running of
                       (x, hit, stale) \<Rightarrow>
                         if hit then Some (s\<lparr>sn_spec := x\<rparr>)
                         else forward route w (env\<lparr>ev_payload := running\<rparr>) d
                                (fold (abandonSpeculation w d) stale (s\<lparr>sn_spec := x\<rparr>)))))"

definition route_to ::
  "(envelope \<Rightarrow> session \<Rightarrow> session option) \<Rightarrow> world \<Rightarrow> envelope \<Rightarrow> string \<Rightarrow> dest \<Rightarrow> session \<Rightarrow> session option" where
  "route_to route w env root d s =
     (if de_speculative d then forwardSpeculatively route w env d root s
      else if de_gate d = GateHumanApproval then Some (holdForApproval w env d s)
      else forward route w env d s)"

fun route_all ::
  "(envelope \<Rightarrow> session \<Rightarrow> session option) \<Rightarrow> world \<Rightarrow> envelope \<Rightarrow> string \<Rightarrow> dest list \<Rightarrow> session \<Rightarrow> session option" where
  "route_all route w env root [] s = Some s"
| "route_all route w env root (d # ds) s =
     (case route_to route w env root d s of None \<Rightarrow> None | Some s \<Rightarrow> route_all route w env root ds s)"

definition route_step ::
  "(envelope \<Rightarrow> session \<Rightarrow> session option) \<Rightarrow> world \<Rightarrow> envelope \<Rightarrow> session \<Rightarrow> session option" where
  "route_step route w env s =
     (let s = append_event w env s in
      if ev_kind env = KindCancel then Some (handleCancel w env s)
      else (case (if ev_kind env = KindData then Seen (sn_dedup s) (ev_idem env) else (sn_dedup s, False)) of
              (dd, duplicate) \<Rightarrow>
                (let s = s\<lparr>sn_dedup := dd\<rparr> in
                 if duplicate then Some s
                 else if ev_kind env = KindConfirmResponse then resolveGate route w env s
                 else (let root = rootOf s env in
                       if cancelled_has (sn_cancelled s) root then Some s
                       else route_all route w env root (routes_from s (ev_node env @ ''.'' @ ev_port env))
                              (recordAttestation w root env s)))))"

fun Route :: "nat \<Rightarrow> world \<Rightarrow> envelope \<Rightarrow> session \<Rightarrow> session option" where
  "Route 0 w env s = None"
| "Route (Suc n) w env s = route_step (Route n w) w env s"

end
