(* ===== verification/Session_Frame.thy ===== *)
theory Session_Frame
  imports Session
begin

text \<open>
  One traversal of routing for all its properties. \<open>routing\<close> is the contract of a relation between the
  states before and after that every elementary step of a session respects; inside it, the whole of
  \<open>Route\<close> is shown to respect it. \<open>dispatch\<close> and \<open>sealDenial\<close> are the steps the relation has to answer for.
\<close>

section \<open>Bookkeeping\<close>

text \<open>The fields that only bookkeeping touches are the ones not named here.\<close>

definition quiet :: "session \<Rightarrow> session \<Rightarrow> bool" where
  "quiet s s' \<longleftrightarrow> sn_id s' = sn_id s \<and> sn_routes s' = sn_routes s \<and> sn_seq s' = sn_seq s
     \<and> policy_doc.truncate (sn_policy s') = policy_doc.truncate (sn_policy s) \<and> po_hash (sn_policy s') = po_hash (sn_policy s)
     \<and> sn_ledger s' = sn_ledger s \<and> db_entries (sn_db s') = db_entries (sn_db s)
     \<and> db_checkpoints (sn_db s') = db_checkpoints (sn_db s)
     \<and> sn_log s' = sn_log s \<and> sn_pins s' = sn_pins s \<and> sn_undo_of s' = sn_undo_of s
     \<and> sn_approvers s' = sn_approvers s \<and> sn_node s' = sn_node s \<and> sn_sent s' = sn_sent s"

lemma quiet_refl [simp, inv_intros]: "quiet s s"
  by (simp add: quiet_def)

lemma quiet_trans: "quiet s t \<Longrightarrow> quiet t u \<Longrightarrow> quiet s u"
  by (simp add: quiet_def)

lemma quiet_updates [simp]:
  "quiet s (s\<lparr>sn_tick := t\<rparr>)" "quiet s (s\<lparr>sn_dedup := dd\<rparr>)" "quiet s (s\<lparr>sn_pending := p\<rparr>)"
  "quiet s (s\<lparr>sn_approved := a\<rparr>)" "quiet s (s\<lparr>sn_causal := c\<rparr>)" "quiet s (s\<lparr>sn_in_flight := f\<rparr>)"
  "quiet s (s\<lparr>sn_cancelled := b\<rparr>)" "quiet s (s\<lparr>sn_attests := h\<rparr>)" "quiet s (s\<lparr>sn_spec := x\<rparr>)"
  "quiet s (s\<lparr>sn_ctx := k\<rparr>)" "quiet s (s\<lparr>sn_causal := c, sn_in_flight := f\<rparr>)"
  by (simp_all add: quiet_def)

lemma quiet_draw [simp]: "quiet s (fst (draw_id w s))"
  by (simp add: draw_id_def)

lemma quiet_clock [simp]: "quiet s (fst (read_clock w s))"
  by (simp add: read_clock_def)

lemma CheckRate_doc:
  "policy_doc.truncate (fst (CheckRate now c p)) = policy_doc.truncate p \<and> po_hash (fst (CheckRate now c p)) = po_hash p"
  by (auto simp: CheckRate_def allowRate_def Let_def policy_doc.truncate_def split: prod.split option.split)

lemma quiet_check_rate [simp]: "quiet s (fst (check_rate w src d s))"
proof (cases "de_skill d = None \<or> ev_kind src \<noteq> KindData")
  case False
  then obtain sk where "de_skill d = Some sk" "ev_kind src = KindData" by auto
  then show ?thesis
    using CheckRate_doc [of "wo_now w (sn_tick s)" "mf_capability (lv_manifest sk)" "sn_policy s"]
    by (auto simp: check_rate_def read_clock_def Let_def quiet_def case_prod_beta)
qed (auto simp: check_rate_def split: option.split)

lemma quiet_chargeContext [simp]: "quiet s (fst (chargeContext out s))"
  by (simp add: chargeContext_def split: prod.split)

lemma quiet_track [simp]: "quiet s (track src d i root s)"
  by (simp add: track_def)

lemma quiet_takeApproval [simp]: "quiet s (fst (takeApproval i s))"
  by (simp add: takeApproval_def split: option.split)

lemma SaveAttestation_rows:
  "SaveAttestation fault h raw ts db = Inr db' \<Longrightarrow> db_entries db' = db_entries db \<and> db_checkpoints db' = db_checkpoints db"
  by (auto simp: SaveAttestation_def split: if_splits)

lemma quiet_recordAttestation [simp]: "quiet s (recordAttestation w root env s)"
  by (auto simp: recordAttestation_def RecordAttestation_def quiet_def dest: SaveAttestation_rows split: sum.split prod.split)

section \<open>The ways through routing\<close>

lemma forwardSpeculatively_ways:
  assumes "forwardSpeculatively route w env d root s = Some s'"
  obtains "forward route w env d s = Some s'"
  | x p u y where "forward route w (env\<lparr>ev_payload := p\<rparr>) d (s\<lparr>sn_spec := x\<rparr>) = Some u" "s' = u\<lparr>sn_spec := y\<rparr>"
  | x where "s' = s\<lparr>sn_spec := x\<rparr>"
  | x p stale where "forward route w (env\<lparr>ev_payload := p\<rparr>) d (fold (abandonSpeculation w d) stale (s\<lparr>sn_spec := x\<rparr>)) = Some s'"
proof (cases "ev_kind env \<noteq> KindData \<or> root = []")
  case True
  with assms that(1) show ?thesis by (simp add: forwardSpeculatively_def)
next
  case data: False
  obtain x running where x: "spec_fold (sn_spec s) (root, de_from d) (ev_schema env) (ev_payload env) = (x, running)" by fastforce
  obtain y hit stale where y: "spec_resolve (wo_other w) x (root, de_from d) running = (y, hit, stale)"
    by (cases "spec_resolve (wo_other w) x (root, de_from d) running")
  note eq = assms [unfolded forwardSpeculatively_def Let_def x prod.case, simplified data if_False]
  show ?thesis
  proof (cases "isFinal (ev_payload env)")
    case False
    with eq data show ?thesis by (auto intro: that(2))
  next
    case True
    with eq data y show ?thesis by (cases hit) (auto intro: that(3,4))
  qed
qed

lemma route_step_ways:
  assumes "route_step route w env s = Some s'"
  obtains "ev_kind env = KindCancel" "s' = handleCancel w env (append_event w env s)"
  | dd where "ev_kind env \<noteq> KindCancel" "s' = (append_event w env s)\<lparr>sn_dedup := dd\<rparr>"
  | dd where "ev_kind env = KindConfirmResponse" "resolveGate route w env ((append_event w env s)\<lparr>sn_dedup := dd\<rparr>) = Some s'"
  | dd root u where "ev_kind env \<noteq> KindCancel" "ev_kind env \<noteq> KindConfirmResponse"
      "root = rootOf ((append_event w env s)\<lparr>sn_dedup := dd\<rparr>) env"
      "u = recordAttestation w root env ((append_event w env s)\<lparr>sn_dedup := dd\<rparr>)"
      "route_all route w env root (routes_from s (ev_node env @ ''.'' @ ev_port env)) u = Some s'"
proof (cases "ev_kind env = KindCancel")
  case True
  with assms that(1) show ?thesis by (simp add: route_step_def Let_def)
next
  case False
  define t where "t = append_event w env s"
  have routes: "routes_from (t\<lparr>sn_dedup := dd\<rparr>) k = routes_from s k" for dd k
    by (simp add: t_def append_event_def routes_from_def)
  obtain dd dup where dd: "(if ev_kind env = KindData then Seen (sn_dedup t) (ev_idem env) else (sn_dedup t, False)) = (dd, dup)"
    by fastforce
  note eq = assms [unfolded route_step_def Let_def t_def [symmetric] dd prod.case routes, simplified False if_False]
  show ?thesis
    using eq False by (cases dup; cases "ev_kind env = KindConfirmResponse";
        cases "cancelled_has (sn_cancelled t) (rootOf (t\<lparr>sn_dedup := dd\<rparr>) env)")
      (auto intro: that(2,3) that(4) [OF _ _ refl refl] simp: t_def)
qed

section \<open>The contract\<close>

text \<open>\<open>P\<close> says which destinations the relation lets a dispatch go to; it holds of every edge that
  routing forwards along by itself.\<close>

locale routing =
  fixes w :: world
    and R :: "session \<Rightarrow> session \<Rightarrow> bool"
    and P :: "dest \<Rightarrow> bool"
  assumes R_refl: "R s s"
    and R_trans: "R s t \<Longrightarrow> R t u \<Longrightarrow> R s u"
    and R_quiet: "quiet s s' \<Longrightarrow> R s s'"
    and R_event: "R s (append_event w e s)"
    and R_client: "R s (fst (send w (ToClient e q) s))"
    and R_stop: "ev_kind e = KindCancel \<Longrightarrow> R s (fst (send w (ToSkill d e q) s))"
    and R_dispatch: "P d \<Longrightarrow> dispatch w src d s = Some s' \<Longrightarrow> R s s'"
    and R_denial: "sealDenial w held d a s = Some s' \<Longrightarrow> R s s'"
    and P_open: "de_speculative d \<or> de_gate d \<noteq> GateHumanApproval \<Longrightarrow> P d"
begin

lemma R_quiet_then: "quiet s s' \<Longrightarrow> R s' t \<Longrightarrow> R s t"
  using R_quiet R_trans by blast

lemma R_fst_quiet: "f s = (s', x) \<Longrightarrow> quiet s (fst (f s)) \<Longrightarrow> R s' t \<Longrightarrow> R s t"
  by (metis R_quiet_then fst_conv)

lemma R_event_client: "R s (fst (send w (ToClient e q) (append_event w e s)))"
  by (rule R_trans [OF R_event R_client])

lemma R_draw: "draw_id w s = (t, i) \<Longrightarrow> R t u \<Longrightarrow> R s u"
  using R_quiet_then [of s t u] quiet_draw [of s w] by simp

lemma emitStatus_R: "R s (emitStatus w i payload s)"
proof -
  obtain t j where t: "draw_id w s = (t, j)" by fastforce
  show ?thesis unfolding emitStatus_def Let_def t prod.case by (rule R_draw [OF t R_event_client])
qed

lemma emitError_R: "R s (emitError w i msg s)"
proof -
  obtain t j where t: "draw_id w s = (t, j)" by fastforce
  show ?thesis unfolding emitError_def Let_def t prod.case by (rule R_draw [OF t R_event_client])
qed

lemma hold_R: "R s (holdForApproval w env d s)"
proof -
  obtain t i where t: "draw_id w s = (t, i)" by fastforce
  have "R s t" using R_quiet [of s t] quiet_draw [of s w] t by simp
  moreover have "R t (t\<lparr>sn_pending := al_put i (env, d) (sn_pending t)\<rparr>)" by (rule R_quiet) simp
  ultimately show ?thesis
    unfolding holdForApproval_def Let_def t prod.case by (blast intro: R_trans R_event_client)
qed

lemma ask_to_stop_R: "R s (ask_to_stop w hs s)"
proof (induction hs arbitrary: s)
  case (Cons h hs)
  obtain t i where t: "draw_id w s = (t, i)" by fastforce
  have "R s t" using R_quiet [of s t] quiet_draw [of s w] t by simp
  then show ?case
    unfolding ask_to_stop.simps Let_def t prod.case
    by (rule R_trans [OF _ R_trans [OF R_stop Cons.IH]]) simp
qed (simp add: R_refl)

lemma handleCancel_R: "R s (handleCancel w env s)"
proof -
  have *: "R s (ask_to_stop w hs (s\<lparr>sn_cancelled := c, sn_in_flight := f\<rparr>))" for hs c f
    by (rule R_trans [OF R_quiet ask_to_stop_R]) (simp add: quiet_def)
  then show ?thesis
    by (auto simp: handleCancel_def Let_def R_refl split: prod.split)
qed

lemma abandon_R: "R s (abandonSpeculation w d i s)"
proof -
  define s1 where "s1 = s\<lparr>sn_cancelled := cancelled_add (sn_cancelled s) i\<rparr>"
  have 1: "R s s1" by (rule R_quiet) (simp add: s1_def)
  obtain t j where t: "draw_id w s1 = (t, j)" by fastforce
  have 2: "R s1 t" using R_quiet [of s1 t] quiet_draw [of s1 w] t by simp
  show ?thesis
    unfolding abandonSpeculation_def Let_def s1_def [symmetric] t prod.case
    by (auto intro!: 1 R_trans [OF R_trans [OF 1 2] R_trans [OF R_event R_stop]])
qed

lemma abandon_all_R: "R s (fold (abandonSpeculation w d) is s)"
  by (induction "is" arbitrary: s) (auto simp: R_refl intro: R_trans [OF abandon_R])

section \<open>Routing respects the relation\<close>

text \<open>The envelope a pinned node answers with is data, so what holds of routing data is enough.\<close>

definition within_R :: "(envelope \<Rightarrow> session \<Rightarrow> session option) \<Rightarrow> bool" where
  "within_R route \<longleftrightarrow> (\<forall>e t t'. ev_kind e = KindData \<longrightarrow> route e t = Some t' \<longrightarrow> R t t')"

lemma data_not_response: "ev_kind e = KindData \<Longrightarrow> ev_kind e \<noteq> KindConfirmResponse"
  by (simp add: kind_defs)

lemma within_RD: "within_R route \<Longrightarrow> ev_kind e = KindData \<Longrightarrow> route e t = Some t' \<Longrightarrow> R t t'"
  by (simp add: within_R_def)

lemma forward_R:
  assumes "within_R route" "P d" "forward route w src d s = Some s'"
  shows "R s s'"
proof -
  obtain t e where c: "check_rate w src d s = (t, e)" by fastforce
  have st: "R s t" using R_quiet [of s t] quiet_check_rate [of s w src d] c by simp
  show ?thesis
  proof (cases e)
    case (Some f)
    with assms(3) c show ?thesis by (auto simp: forward_def intro: R_trans [OF st emitError_R])
  next
    case None
    show ?thesis
    proof (cases "answerFromPin route w src d t")
      case n: None
      with assms(3) c None have disp: "dispatch w src d t = Some s'" by (simp add: forward_def)
      show ?thesis by (rule R_trans [OF st R_dispatch [OF assms(2) disp]])
    next
      case (Some r)
      with assms(3) c None have r: "r = Some s'" by (simp add: forward_def)
      from Some obtain p where p: "al_get (sn_pins t) (de_ref d) = Some p" "de_ref d \<noteq> ClientRef"
        by (auto simp: answerFromPin_def split: option.splits if_splits)
      show ?thesis
      proof (cases "ev_kind src = KindData")
        case False
        with Some r p st show ?thesis by (simp add: answerFromPin_def)
      next
        case True
        define u where "u = emitStatus w (ev_id src) (pinned_note d p) t"
        obtain v i where v: "draw_id w u = (v, i)" by fastforce
        have "R t u" by (simp add: u_def emitStatus_R)
        moreover have "R u v" using R_quiet [of u v] quiet_draw [of u w] v by simp
        ultimately have sv: "R s v" by (rule R_trans [OF R_trans [OF st]])
        have "route (pinned_output i src d p v) v = Some s'"
          using Some r p True v by (simp add: answerFromPin_def u_def [symmetric])
        moreover have "ev_kind (pinned_output i src d p v) = KindData" by (simp add: pinned_output_def)
        ultimately show ?thesis by (intro R_trans [OF sv within_RD [OF assms(1)]])
      qed
    qed
  qed
qed

lemma speculative_R:
  assumes "within_R route" "P d"
    "forwardSpeculatively route w env d root s = Some s'"
  shows "R s s'"
  using assms(3)
proof (cases rule: forwardSpeculatively_ways)
  case 1
  then show ?thesis by (rule forward_R [OF assms(1,2)])
next
  case (2 x p u y)
  have 1: "R s (s\<lparr>sn_spec := x\<rparr>)" by (rule R_quiet) simp
  have 3: "R u s'" unfolding 2(2) by (rule R_quiet) simp
  show ?thesis by (rule R_trans [OF R_trans [OF 1 forward_R [OF assms(1,2) 2(1)]] 3])
next
  case (3 x)
  show ?thesis unfolding 3 by (rule R_quiet) simp
next
  case (4 x p stale)
  have 1: "R s (s\<lparr>sn_spec := x\<rparr>)" by (rule R_quiet) simp
  show ?thesis by (rule R_trans [OF R_trans [OF 1 abandon_all_R] forward_R [OF assms(1,2) 4]])
qed

lemma route_to_R:
  assumes "within_R route" "route_to route w env root d s = Some s'"
  shows "R s s'"
proof (cases "de_speculative d \<or> de_gate d \<noteq> GateHumanApproval")
  case True
  then have "P d" by (rule P_open)
  with assms show ?thesis
    using True
    by (cases "de_speculative d") (auto simp: route_to_def intro: speculative_R [OF assms(1)] forward_R [OF assms(1)])
next
  case False
  with assms(2) show ?thesis by (auto simp: route_to_def hold_R)
qed

lemma route_all_R:
  assumes "within_R route"
  shows "route_all route w env root ds s = Some s' \<Longrightarrow> R s s'"
proof (induction ds arbitrary: s)
  case Nil
  then show ?case by (simp add: R_refl)
next
  case (Cons d ds)
  then obtain t where t: "route_to route w env root d s = Some t" "route_all route w env root ds t = Some s'"
    by (auto split: option.splits)
  from R_trans [OF route_to_R [OF assms t(1)] Cons.IH [OF t(2)]] show ?case by simp
qed

lemma route_step_R:
  assumes "within_R route"
    and "ev_kind env \<noteq> KindConfirmResponse \<or> (\<forall>dd. resolveGate route w env ((append_event w env s)\<lparr>sn_dedup := dd\<rparr>) = Some s'
           \<longrightarrow> R ((append_event w env s)\<lparr>sn_dedup := dd\<rparr>) s')"
    and "route_step route w env s = Some s'"
  shows "R s s'"
proof -
  have ev: "R s (append_event w env s)" by (rule R_event)
  have dd: "R s ((append_event w env s)\<lparr>sn_dedup := dd\<rparr>)" for dd
    by (rule R_trans [OF ev R_quiet]) simp
  from assms(3) show ?thesis
  proof (cases rule: route_step_ways)
    case 1
    show ?thesis unfolding 1(2) by (rule R_trans [OF ev handleCancel_R])
  next
    case (2 d)
    show ?thesis unfolding 2(2) by (rule dd)
  next
    case (3 d)
    with assms(2) have "R ((append_event w env s)\<lparr>sn_dedup := d\<rparr>) s'" by blast
    then show ?thesis by (rule R_trans [OF dd])
  next
    case (4 d root u)
    have "R ((append_event w env s)\<lparr>sn_dedup := d\<rparr>) u" unfolding 4(4) by (rule R_quiet) simp
    from R_trans [OF this route_all_R [OF assms(1) 4(5)]] show ?thesis by (rule R_trans [OF dd])
  qed
qed

lemma Route_R: "ev_kind env \<noteq> KindConfirmResponse \<Longrightarrow> Route n w env s = Some s' \<Longrightarrow> R s s'"
proof (induction n arbitrary: env s s')
  case (Suc n)
  have "within_R (Route n w)"
    unfolding within_R_def by (blast intro: Suc.IH dest: data_not_response)
  from route_step_R [OF this _ Suc.prems(2) [unfolded Route.simps]] Suc.prems(1) show ?case by blast
qed simp

lemma within_R_Route: "within_R (Route n w)"
  unfolding within_R_def by (blast intro: Route_R dest: data_not_response)

text \<open>Where the relation allows every dispatch, the answers to gates respect it too.\<close>

lemma resolveGate_R:
  assumes "within_R route" "\<And>d. P d"
    "resolveGate route w resp s = Some s'"
  shows "R s s'"
proof (cases "al_get (sn_pending s) (ev_cause_id resp)")
  case None
  with assms(3) show ?thesis by (simp add: resolveGate_def R_refl)
next
  case (Some hd)
  obtain held d where hd: "hd = (held, d)" by fastforce
  define t where "t = append_event w resp (s\<lparr>sn_pending := al_del (ev_cause_id resp) (sn_pending s)\<rparr>)"
  have st: "R s t" unfolding t_def by (rule R_quiet_then [OF _ R_event]) simp
  note eq = assms(3) [unfolded resolveGate_def Some hd option.case prod.case Let_def t_def [symmetric]]
  show ?thesis
  proof (cases "authorizeGate w held (aw_approve (read_answer (ev_payload resp))) (aw_approval (read_answer (ev_payload resp))) t")
    case (Inl e)
    with eq obtain u where "sealDenial w held d None t = Some u" "R u s'" by (auto intro: emitError_R)
    then show ?thesis by (intro R_trans [OF st R_trans [OF R_denial]])
  next
    case (Inr r)
    obtain ok a where r: "r = (ok, a)" by fastforce
    show ?thesis
    proof (cases ok)
      case False
      with eq Inr r obtain u where "sealDenial w held d a t = Some u" "R u s'" by (auto intro: emitError_R)
      then show ?thesis by (intro R_trans [OF st R_trans [OF R_denial]])
    next
      case True
      define u where "u = (case a of None \<Rightarrow> t | Some a \<Rightarrow> t\<lparr>sn_approved := al_put (ev_id held) a (sn_approved t)\<rparr>)"
      have "R t u" by (rule R_quiet) (simp add: u_def split: option.split)
      moreover have "forward route w held d u = Some s'" using eq Inr r True by (simp add: u_def)
      ultimately show ?thesis by (intro R_trans [OF st R_trans [OF _ forward_R [OF assms(1,2)]]])
    qed
  qed
qed

lemma Route_all_R:
  assumes "\<And>d. P d" "Route n w env s = Some s'"
  shows "R s s'"
proof (cases n)
  case (Suc m)
  from resolveGate_R [OF within_R_Route [of m] assms(1)] show ?thesis
    by (intro route_step_R [OF within_R_Route _ assms(2) [unfolded Suc Route.simps]]) blast
qed (use assms(2) in simp)

end

end
