(* ===== verification/Session_Sends.thy ===== *)
theory Session_Sends
  imports Session_Frame Ledger_Inv
begin

text \<open>
  What a session sends and what it seals: \<open>dispatch\<close> taken apart once, and the two relations that
  every step of routing respects, one for gates and one for evidence.
\<close>

section \<open>The elementary steps\<close>

lemma sent_simps [simp]:
  "sn_sent (append_event w e s) = sn_sent s"
  "sn_sent (fst (draw_id w s)) = sn_sent s"
  "sn_sent (fst (send w x s)) = sn_sent s @ [x]"
  "sn_sent (track src d i root s) = sn_sent s"
  by (simp_all add: append_event_def draw_id_def send_def track_def)

lemma draw_sent: "draw_id w s = (t, i) \<Longrightarrow> sn_sent t = sn_sent s"
  by (auto simp: draw_id_def)

lemma emitError_sent: "\<exists>e. sn_sent (emitError w i msg s) = sn_sent s @ [ToClient e QoSReliable]"
proof -
  obtain t j where t: "draw_id w s = (t, j)" by fastforce
  show ?thesis unfolding emitError_def Let_def t prod.case by (simp add: draw_sent [OF t])
qed

lemma emitError_same: "quiet s t \<Longrightarrow> sn_ledger (emitError w i msg t) = sn_ledger s \<and> sn_db (emitError w i msg t) = sn_db t
    \<and> sn_policy (emitError w i msg t) = sn_policy t"
  by (auto simp: emitError_def Let_def draw_id_def send_def append_event_def quiet_def)

lemma dropExpired_same:
  assumes "dropExpired w out s = (t, late)"
  shows "sn_sent t = sn_sent s \<and> sn_ledger t = sn_ledger s \<and> sn_db t = sn_db s \<and> sn_policy t = sn_policy s"
  using assms by (auto simp: dropExpired_def read_clock_def Let_def append_event_def split: if_splits)

definition hop_delivery :: "envelope \<Rightarrow> dest \<Rightarrow> delivery" where
  "hop_delivery out d =
     (let qos = (if ev_kind out \<noteq> KindData then QoSReliable else de_qos d)
      in if de_ref d = ClientRef then ToClient out qos else ToSkill d out qos)"

text \<open>\<open>deliver\<close> sends the envelope, or drops it where it is late; a failed send is told to the client.\<close>

lemma deliver_sent:
  "\<exists>ys. sn_sent (deliver w src out d s) = sn_sent s @ ys
     \<and> (ys = [] \<or> ys = [hop_delivery out d] \<or> (\<exists>e. ys = [hop_delivery out d, ToClient e QoSReliable]))
     \<and> sn_ledger (deliver w src out d s) = sn_ledger s \<and> sn_db (deliver w src out d s) = sn_db s
     \<and> sn_policy (deliver w src out d s) = sn_policy s"
proof -
  obtain t late where t: "dropExpired w out s = (t, late)" by fastforce
  note same = dropExpired_same [OF t]
  show ?thesis
  proof (cases late)
    case True
    with same t show ?thesis by (simp add: deliver_def)
  next
    case False
    define u where "u = append_event w (loggable out (de_qos d)) t"
    obtain v ok where v: "send w (hop_delivery out d) u = (v, ok)" by fastforce
    have sv: "sn_sent v = sn_sent s @ [hop_delivery out d]" "sn_ledger v = sn_ledger s" "sn_db v = sn_db s" "sn_policy v = sn_policy s"
      using v same by (auto simp: send_def u_def append_event_def)
    have eq: "deliver w src out d s = (if ok then v else emitError w (ev_id src) (SendFailed (de_ref d) (de_port d)) v)"
      using v False unfolding deliver_def t prod.case Let_def u_def [symmetric] hop_delivery_def by simp
    show ?thesis
    proof (cases ok)
      case True
      with eq sv show ?thesis by simp
    next
      case nok: False
      obtain e where "sn_sent (emitError w (ev_id src) (SendFailed (de_ref d) (de_port d)) v) = sn_sent v @ [ToClient e QoSReliable]"
        using emitError_sent by blast
      with nok eq sv emitError_same [OF quiet_refl, of w "ev_id src" "SendFailed (de_ref d) (de_port d)" v]
      show ?thesis by simp
    qed
  qed
qed

section \<open>Sealing an effect\<close>

definition is_effect :: "dest \<Rightarrow> envelope \<Rightarrow> bool" where
  "is_effect d e \<longleftrightarrow> ev_kind e = KindData \<and> (case de_skill d of None \<Rightarrow> False | Some sk \<Rightarrow> mf_type (lv_manifest sk) = TypeMotor)"

definition evidence :: "world \<Rightarrow> session \<Rightarrow> entry list \<Rightarrow> bool" where
  "evidence w s es \<longleftrightarrow> (\<exists>l. sn_ledger s = Some l \<and> ledger_inv (wo_ed w) (l, sn_db s) es)"

lemma ledger_inv_rows:
  "db_entries db' = db_entries db \<Longrightarrow> db_checkpoints db' = db_checkpoints db \<Longrightarrow> ledger_inv ed (l, db) es \<Longrightarrow> ledger_inv ed (l, db') es"
  by (simp add: ledger_inv_def db_inv_def)

lemma evidence_cong:
  "sn_ledger s' = sn_ledger s \<Longrightarrow> db_entries (sn_db s') = db_entries (sn_db s) \<Longrightarrow> db_checkpoints (sn_db s') = db_checkpoints (sn_db s)
   \<Longrightarrow> evidence w s es \<Longrightarrow> evidence w s' es"
  by (auto simp: evidence_def intro: ledger_inv_rows)

lemma evidence_quiet: "quiet s s' \<Longrightarrow> evidence w s es \<Longrightarrow> evidence w s' es"
  by (rule evidence_cong) (simp_all add: quiet_def)

text \<open>One call of the ledger, where the history it holds is \<open>es\<close>.\<close>

lemma seal_step:
  assumes "ledger_inv (wo_ed w) (l, sn_db s) es"
  shows "\<exists>t r. seal w req l s = Some (t, r) \<and> sn_sent t = sn_sent s \<and> sn_policy t = sn_policy s \<and>
    ((\<exists>err. r = Inl err \<and> evidence w t es) \<or>
     (\<exists>en. evidence w t (es @ [en]) \<and> from_request req en \<and> (r = Inr (Entry_Hash en) \<or> (\<exists>err. r = Inl err))))"
proof -
  obtain s' out where *: "Seal (wo_ed w) (\<lambda>k. \<not> wo_ok w (sn_tick s + k)) (\<lambda>k. wo_now w (sn_tick s + k)) req (l, sn_db s) = Some (s', out)"
    and **: "(s' = (l, sn_db s) \<and> (\<exists>err. out = Inl err)) \<or>
     (\<exists>e. ledger_inv (wo_ed w) s' (es @ [e]) \<and> from_request req e \<and> (out = Inr (Entry_Hash e) \<or> (\<exists>d. out = Inl (CheckpointFailed (Entry_Hash e) d))))"
    using Seal_step [OF assms refl] by blast
  obtain l' db' where s': "s' = (l', db')" by fastforce
  show ?thesis
    using ** assms unfolding seal_def * s' option.case prod.case by (auto simp: evidence_def)
qed

definition attested_by :: "entry \<Rightarrow> dest \<Rightarrow> envelope \<Rightarrow> bool" where
  "attested_by en d e \<longleftrightarrow>
     Entry_Hash en = ev_receipt e \<and> en_envelope en = ev_id e \<and> en_cause en = ev_cause_id e \<and> en_session en = ev_session e
     \<and> en_payload_sha256 en = hex_encode (sha256 (ev_payload e)) \<and> en_outcome en = OutcomeDelivered
     \<and> en_decision en = (if de_gate d = GateHumanApproval then DecisionGate else DecisionAllow) \<and> en_waived en = de_waived d
     \<and> (case de_skill d of None \<Rightarrow> False
        | Some sk \<Rightarrow> en_capability en = mf_capability (lv_manifest sk) \<and> en_actor en = actor_of (lv_manifest sk))"

lemma takeApproval_same: "takeApproval i s = (t, a) \<Longrightarrow> sn_sent t = sn_sent s \<and> sn_ledger t = sn_ledger s \<and> sn_db t = sn_db s
    \<and> sn_policy t = sn_policy s \<and> sn_tick t = sn_tick s"
  by (auto simp: takeApproval_def split: if_splits option.splits)

lemma sealEffect_step:
  assumes "evidence w s es" "ev_session out = sn_id s"
  shows "\<exists>t r. sealEffect w out d root s = Some (t, r) \<and> sn_sent t = sn_sent s \<and> sn_policy t = sn_policy s \<and>
    (\<exists>xs. evidence w t (es @ xs) \<and>
       (\<forall>out'. r = Inr out' \<longrightarrow> (if is_effect d out then (\<exists>h. out' = out\<lparr>ev_receipt := h\<rparr>) \<and> (\<exists>en \<in> set xs. attested_by en d out') else out' = out)))"
proof -
  obtain l where l: "sn_ledger s = Some l" "ledger_inv (wo_ed w) (l, sn_db s) es" using assms(1) by (auto simp: evidence_def)
  show ?thesis
  proof (cases "is_effect d out")
    case False
    then have "sealEffect w out d root s = Some (s, Inr out)"
      by (auto simp: sealEffect_def is_effect_def l split: option.splits)
    with False assms(1) show ?thesis by (intro exI [of _ s] exI [of _ "Inr out"]) (auto intro: exI [of _ "[]"])
  next
    case True
    then obtain sk where sk: "de_skill d = Some sk" "mf_type (lv_manifest sk) = TypeMotor" "ev_kind out = KindData"
      by (auto simp: is_effect_def split: option.splits)
    obtain t a where t: "takeApproval (ev_cause_id out) s = (t, a)" by fastforce
    note same = takeApproval_same [OF t]
    define req where "req = (seal_request_of out d sk s)\<lparr>sr_inference := fst (attest_get (sn_attests s) root), sr_approver := a\<rparr>"
    have "ledger_inv (wo_ed w) (l, sn_db t) es" using l(2) same by simp
    from seal_step [OF this, of req] obtain u r where u: "seal w req l t = Some (u, r)" "sn_sent u = sn_sent t" "sn_policy u = sn_policy t"
      and r: "(\<exists>err. r = Inl err \<and> evidence w u es) \<or>
        (\<exists>en. evidence w u (es @ [en]) \<and> from_request req en \<and> (r = Inr (Entry_Hash en) \<or> (\<exists>err. r = Inl err)))" by blast
    have eq: "sealEffect w out d root s = Some (u, map_sum id (\<lambda>h. out\<lparr>ev_receipt := h\<rparr>) r)"
      using u(1) sk by (cases r) (simp_all add: sealEffect_def l sk Let_def t req_def)
    have att: "attested_by en d (out\<lparr>ev_receipt := Entry_Hash en\<rparr>)" if "from_request req en" for en
      using that assms(2) sk(1) by (auto simp: attested_by_def from_request_def req_def seal_request_of_def)
    show ?thesis
    proof (cases r)
      case (Inl err)
      with r obtain xs where "evidence w u (es @ xs)" by (metis append_Nil2 sum.simps(4))
      with eq u same Inl show ?thesis by auto
    next
      case (Inr h)
      with r obtain en where "evidence w u (es @ [en])" "from_request req en" "h = Entry_Hash en" by auto
      with eq u same Inr True att show ?thesis by (auto intro!: exI [of _ "[en]"])
    qed
  qed
qed


section \<open>One hop\<close>

lemma hop_envelope_fields:
  assumes "hop_envelope w src d s = (t, out)"
  shows "sn_sent t = sn_sent s \<and> sn_ledger t = sn_ledger s \<and> sn_db t = sn_db s \<and> sn_policy t = sn_policy s \<and> sn_id t = sn_id s
    \<and> ev_session out = sn_id s \<and> ev_cause_id out = ev_id src \<and> ev_kind out = ev_kind src \<and> ev_payload out = ev_payload src
    \<and> ev_node out = de_ref d \<and> ev_port out = de_port d \<and> ev_receipt out = []"
  using assms by (auto simp: hop_envelope_def Let_def draw_id_def read_clock_def kernel_envelope_def zero_envelope_def)

lemma sealEffect_sends:
  assumes "sealEffect w out d root s = Some (t, r)"
  shows "sn_sent t = sn_sent s \<and> sn_policy t = sn_policy s \<and> (\<forall>out'. r = Inr out' \<longrightarrow> (\<exists>h. out' = out\<lparr>ev_receipt := h\<rparr>))"
proof -
  have same: "\<exists>h. out = out\<lparr>ev_receipt := h\<rparr>" by (rule exI [of _ "ev_receipt out"]) simp
  show ?thesis
  proof (cases "\<exists>l sk. sn_ledger s = Some l \<and> de_skill d = Some sk \<and> mf_type (lv_manifest sk) = TypeMotor \<and> ev_kind out = KindData")
    case False
    with assms same show ?thesis by (auto simp: sealEffect_def split: option.splits if_splits)
  next
    case True
    then obtain l sk where l: "sn_ledger s = Some l" "de_skill d = Some sk" "mf_type (lv_manifest sk) = TypeMotor" "ev_kind out = KindData" by blast
    obtain u a where u: "takeApproval (ev_cause_id out) s = (u, a)" by fastforce
    have seal_same: "seal w req l u = Some (t', r') \<Longrightarrow> sn_sent t' = sn_sent u \<and> sn_policy t' = sn_policy u" for req t' r'
      by (auto simp: seal_def split: option.splits)
    from assms takeApproval_same [OF u] show ?thesis
      by (auto simp: sealEffect_def l u Let_def dest!: seal_same split: option.splits sum.splits)
  qed
qed

text \<open>What a dispatch sends: the envelope of the hop, at most once, and otherwise words to the client.\<close>

definition hop_of :: "envelope \<Rightarrow> dest \<Rightarrow> envelope \<Rightarrow> bool" where
  "hop_of src d e \<longleftrightarrow> ev_cause_id e = ev_id src \<and> ev_kind e = ev_kind src \<and> ev_payload e = ev_payload src
     \<and> ev_node e = de_ref d \<and> ev_port e = de_port d"

definition sends_hop :: "envelope \<Rightarrow> dest \<Rightarrow> delivery \<Rightarrow> bool" where
  "sends_hop src d x \<longleftrightarrow> (case x of ToClient e q \<Rightarrow> True | ToSkill d' e q \<Rightarrow> d' = d \<and> hop_of src d e)"

lemma sends_hop_delivery: "hop_of src d e \<Longrightarrow> sends_hop src d (hop_delivery e d)"
  by (simp add: sends_hop_def hop_delivery_def Let_def)

lemma dispatch_sends:
  assumes "dispatch w src d s = Some s'"
  shows "(\<exists>ys. sn_sent s' = sn_sent s @ ys \<and> list_all (sends_hop src d) ys) \<and> sn_policy s' = sn_policy s"
proof -
  obtain t out where h: "hop_envelope w src d s = (t, out)" by fastforce
  note hf = hop_envelope_fields [OF h]
  obtain u over where c: "chargeContext out t = (u, over)" by fastforce
  have su: "sn_sent u = sn_sent s \<and> sn_policy u = sn_policy s" using hf c by (auto simp: chargeContext_def split: if_splits prod.splits)
  have err: "(\<exists>ys. sn_sent (emitError w i m v) = sn_sent v @ ys \<and> list_all (sends_hop src d) ys) \<and> sn_policy (emitError w i m v) = sn_policy v" for i m v
  proof -
    obtain e where "sn_sent (emitError w i m v) = sn_sent v @ [ToClient e QoSReliable]" using emitError_sent by blast
    then show ?thesis using emitError_same [OF quiet_refl, of w i m v] by (simp add: sends_hop_def)
  qed
  have del: "(\<exists>ys. sn_sent (deliver w src e d v) = sn_sent v @ ys \<and> list_all (sends_hop src d) ys) \<and> sn_policy (deliver w src e d v) = sn_policy v" if "hop_of src d e" for e v
  proof -
    obtain ys where ys: "sn_sent (deliver w src e d v) = sn_sent v @ ys" "sn_policy (deliver w src e d v) = sn_policy v"
      "ys = [] \<or> ys = [hop_delivery e d] \<or> (\<exists>e'. ys = [hop_delivery e d, ToClient e' QoSReliable])" using deliver_sent by blast
    from ys(3) sends_hop_delivery [OF that] have "list_all (sends_hop src d) ys" by (auto simp: sends_hop_def)
    with ys(1,2) show ?thesis by blast
  qed
  show ?thesis
  proof (cases over)
    case (Some e)
    with assms h c su err [of "ev_id src" e u] show ?thesis by (auto simp: dispatch_def Let_def)
  next
    case None
    define v where "v = track src d (ev_id out) (rootOf u src) u"
    obtain x r where x: "sealEffect w out d (rootOf u src) v = Some (x, r)"
      using assms h c None by (auto simp: dispatch_def Let_def v_def split: option.splits)
    note sx = sealEffect_sends [OF x]
    have sv: "sn_sent x = sn_sent s" "sn_policy x = sn_policy s" using sx su by (simp_all add: v_def track_def)
    have out: "hop_of src d out" using hf by (simp add: hop_of_def)
    have eq: "s' = (case r of Inr out \<Rightarrow> deliver w src out d x
        | Inl e \<Rightarrow> if SealFailureRefuses (sn_policy x) then emitError w (ev_id src) (SealRefused e) x else deliver w src out d x)"
      using assms h c None x by (auto simp: dispatch_def Let_def v_def split: sum.splits if_splits)
    show ?thesis
    proof (cases r)
      case (Inl e)
      with eq sv err [of "ev_id src" "SealRefused e" x] del [OF out, of x] show ?thesis by (auto split: if_splits)
    next
      case (Inr out')
      with sx out have "hop_of src d out'" by (auto simp: hop_of_def)
      with eq sv Inr del [of out' x] show ?thesis by simp
    qed
  qed
qed

section \<open>Gates\<close>

text \<open>The edges at which a session asks before it delivers. It tests for speculation first, so an edge that
  speculates is not among them even where the policy gates it.\<close>

definition gated :: "dest \<Rightarrow> bool" where
  "gated d \<longleftrightarrow> de_gate d = GateHumanApproval \<and> \<not> de_speculative d"

text \<open>Between two states nothing but a cancel has gone over a gated edge.\<close>

definition not_gated :: "delivery \<Rightarrow> bool" where
  "not_gated x \<longleftrightarrow> (case x of ToClient e q \<Rightarrow> True | ToSkill d e q \<Rightarrow> ev_kind e = KindCancel \<or> \<not> gated d)"

definition gates_hold :: "session \<Rightarrow> session \<Rightarrow> bool" where
  "gates_hold s s' \<longleftrightarrow> (\<exists>ys. sn_sent s' = sn_sent s @ ys \<and> list_all not_gated ys)"

lemma gates_hold_same: "sn_sent s' = sn_sent s \<Longrightarrow> gates_hold s s'"
  by (simp add: gates_hold_def)

lemma sealDenial_sent: "sealDenial w held d a s = Some s' \<Longrightarrow> sn_sent s' = sn_sent s"
  by (auto simp: sealDenial_def seal_def Let_def split: option.splits)

interpretation gates: routing w gates_hold "\<lambda>d. \<not> gated d" for w
proof (unfold_locales, goal_cases)
  case (2 s t u)
  then obtain ys zs where "sn_sent t = sn_sent s @ ys" "sn_sent u = sn_sent t @ zs" "list_all not_gated ys" "list_all not_gated zs"
    unfolding gates_hold_def by blast
  then show ?case unfolding gates_hold_def by (intro exI [of _ "ys @ zs"]) simp
next
  case (6 e s d q)
  then show ?case by (simp add: gates_hold_def not_gated_def)
next
  case (7 d src s s')
  obtain ys where ys: "sn_sent s' = sn_sent s @ ys" "list_all (sends_hop src d) ys" using dispatch_sends [OF 7(2)] by blast
  have "list_all not_gated ys"
    using ys(2) by (rule list.pred_mono_strong) (use 7(1) in \<open>auto simp: sends_hop_def not_gated_def split: delivery.splits\<close>)
  with ys(1) show ?case by (auto simp: gates_hold_def)
next
  case (8 held d a s s')
  then show ?case by (rule gates_hold_same [OF sealDenial_sent])
qed (auto simp: gates_hold_def gated_def quiet_def not_gated_def)

section \<open>Evidence\<close>

definition backed :: "bool \<Rightarrow> entry list \<Rightarrow> delivery \<Rightarrow> bool" where
  "backed refuse es x \<longleftrightarrow>
     (case x of ToClient e q \<Rightarrow> True
      | ToSkill d e q \<Rightarrow> is_effect d e \<longrightarrow> (\<exists>en \<in> set es. attested_by en d e) \<or> (\<not> refuse \<and> ev_receipt e = []))"

lemma backed_mono: "backed refuse es x \<Longrightarrow> set es \<subseteq> set es' \<Longrightarrow> backed refuse es' x"
  by (auto simp: backed_def split: delivery.splits)

text \<open>Between two states the history has grown, and every effect sent is in what it has grown by.\<close>

definition effects_backed :: "world \<Rightarrow> session \<Rightarrow> session \<Rightarrow> bool" where
  "effects_backed w s s' \<longleftrightarrow> SealFailureRefuses (sn_policy s') = SealFailureRefuses (sn_policy s)
     \<and> (\<forall>es. evidence w s es \<longrightarrow> (\<exists>xs ys. evidence w s' (es @ xs) \<and> sn_sent s' = sn_sent s @ ys
          \<and> list_all (backed (SealFailureRefuses (sn_policy s)) xs) ys))"

lemma effects_backed_same:
  assumes "sn_ledger s' = sn_ledger s" "db_entries (sn_db s') = db_entries (sn_db s)" "db_checkpoints (sn_db s') = db_checkpoints (sn_db s)"
    "SealFailureRefuses (sn_policy s') = SealFailureRefuses (sn_policy s)"
    "sn_sent s' = sn_sent s @ ys" "list_all (backed (SealFailureRefuses (sn_policy s)) []) ys"
  shows "effects_backed w s s'"
  unfolding effects_backed_def
proof (intro conjI allI impI assms(4))
  fix es assume "evidence w s es"
  then have "evidence w s' (es @ [])" using evidence_cong [OF assms(1-3)] by simp
  with assms(5,6) show "\<exists>xs ys. evidence w s' (es @ xs) \<and> sn_sent s' = sn_sent s @ ys
      \<and> list_all (backed (SealFailureRefuses (sn_policy s)) xs) ys" by blast
qed

lemma refuses_truncate: "policy_doc.truncate p' = policy_doc.truncate p \<Longrightarrow> SealFailureRefuses p' = SealFailureRefuses p"
  by (simp add: SealFailureRefuses_def policy_doc.truncate_def)

lemma effects_backed_trans: "effects_backed w s t \<Longrightarrow> effects_backed w t u \<Longrightarrow> effects_backed w s u"
proof -
  assume st: "effects_backed w s t" and tu: "effects_backed w t u"
  show ?thesis
    unfolding effects_backed_def
  proof (intro conjI allI impI)
    show "SealFailureRefuses (sn_policy u) = SealFailureRefuses (sn_policy s)"
      using st tu by (simp add: effects_backed_def)
    have refuse: "SealFailureRefuses (sn_policy t) = SealFailureRefuses (sn_policy s)" using st by (simp add: effects_backed_def)
    fix es assume "evidence w s es"
    with st obtain xs ys where 1: "evidence w t (es @ xs)" "sn_sent t = sn_sent s @ ys"
      "list_all (backed (SealFailureRefuses (sn_policy s)) xs) ys"
      unfolding effects_backed_def by blast
    with tu obtain xs' ys' where 2: "evidence w u ((es @ xs) @ xs')" "sn_sent u = sn_sent t @ ys'"
      "list_all (backed (SealFailureRefuses (sn_policy s)) xs') ys'"
      using refuse tu unfolding effects_backed_def by fastforce
    have "list_all (backed (SealFailureRefuses (sn_policy s)) (xs @ xs')) (ys @ ys')"
      using 1(3) 2(3) by (auto simp: list_all_iff intro: backed_mono)
    with 1 2 show "\<exists>xs ys. evidence w u (es @ xs) \<and> sn_sent u = sn_sent s @ ys \<and> list_all (backed (SealFailureRefuses (sn_policy s)) xs) ys"
      by (intro exI [of _ "xs @ xs'"] exI [of _ "ys @ ys'"]) simp
  qed
qed

lemma dispatch_backed:
  assumes "dispatch w src d s = Some s'"
  shows "effects_backed w s s'"
  unfolding effects_backed_def
proof (intro conjI allI impI)
  show "SealFailureRefuses (sn_policy s') = SealFailureRefuses (sn_policy s)" using dispatch_sends [OF assms] by simp
  fix es assume ev: "evidence w s es"
  obtain t out where h: "hop_envelope w src d s = (t, out)" by fastforce
  note hf = hop_envelope_fields [OF h]
  obtain u over where c: "chargeContext out t = (u, over)" by fastforce
  have su: "sn_sent u = sn_sent s" "sn_policy u = sn_policy s" "sn_ledger u = sn_ledger s" "sn_db u = sn_db s" "sn_id u = sn_id s"
    using hf c by (auto simp: chargeContext_def split: if_splits prod.splits)
  show "\<exists>xs ys. evidence w s' (es @ xs) \<and> sn_sent s' = sn_sent s @ ys \<and> list_all (backed (SealFailureRefuses (sn_policy s)) xs) ys"
  proof (cases over)
    case (Some f)
    then have s': "s' = emitError w (ev_id src) f u" using assms h c by (simp add: dispatch_def Let_def)
    obtain e where "sn_sent s' = sn_sent u @ [ToClient e QoSReliable]" unfolding s' using emitError_sent by blast
    moreover have "evidence w s' es"
      using emitError_same [OF quiet_refl, of w "ev_id src" f u] su by (intro evidence_cong [OF _ _ _ ev]) (simp_all add: s')
    ultimately show ?thesis using su by (intro exI [of _ "[]"] exI [of _ "[ToClient e QoSReliable]"]) (simp add: backed_def)
  next
    case None
    define v where "v = track src d (ev_id out) (rootOf u src) u"
    have sv: "sn_sent v = sn_sent s" "sn_policy v = sn_policy s" "sn_ledger v = sn_ledger s" "sn_db v = sn_db s" "sn_id v = sn_id s"
      using su by (simp_all add: v_def track_def)
    have "evidence w v es" using sv by (intro evidence_cong [OF _ _ _ ev]) simp_all
    moreover have "ev_session out = sn_id v" using hf sv by simp
    ultimately obtain x r xs where x: "sealEffect w out d (rootOf u src) v = Some (x, r)" "sn_sent x = sn_sent v" "sn_policy x = sn_policy v"
      "evidence w x (es @ xs)"
      and r: "\<forall>out'. r = Inr out' \<longrightarrow> (if is_effect d out then (\<exists>h. out' = out\<lparr>ev_receipt := h\<rparr>) \<and> (\<exists>en \<in> set xs. attested_by en d out') else out' = out)"
      using sealEffect_step [of w v es out d "rootOf u src"] by blast
    have sent_ok: "?thesis" if "s' = deliver w src e d x" "backed (SealFailureRefuses (sn_policy s)) xs (hop_delivery e d)" for e
    proof -
      have sd: "s' = deliver w src e d x" by (rule that(1))
      obtain ys where ys: "sn_sent s' = sn_sent x @ ys" "ys = [] \<or> ys = [hop_delivery e d] \<or> (\<exists>e'. ys = [hop_delivery e d, ToClient e' QoSReliable])"
        "sn_ledger s' = sn_ledger x" "sn_db s' = sn_db x" using deliver_sent [of w src e d x] unfolding sd [symmetric] by blast
      have "evidence w s' (es @ xs)" using ys by (intro evidence_cong [OF _ _ _ x(4)]) simp_all
      moreover have "list_all (backed (SealFailureRefuses (sn_policy s)) xs) ys" using ys(2) that(2) by (auto simp: backed_def)
      ultimately show ?thesis using ys(1) x(2) sv(1) by auto
    qed
    have to_skill: "backed refuse xs (hop_delivery e d)" if "is_effect d e \<Longrightarrow> (\<exists>en \<in> set xs. attested_by en d e) \<or> (\<not> refuse \<and> ev_receipt e = [])" for refuse e
      using that by (auto simp: backed_def hop_delivery_def Let_def)
    have eq: "s' = (case r of Inr out \<Rightarrow> deliver w src out d x
        | Inl e \<Rightarrow> if SealFailureRefuses (sn_policy x) then emitError w (ev_id src) (SealRefused e) x else deliver w src out d x)"
      using assms h c None x by (auto simp: dispatch_def Let_def v_def split: sum.splits if_splits)
    show ?thesis
    proof (cases r)
      case (Inr out')
      with r have "is_effect d out' \<Longrightarrow> \<exists>en \<in> set xs. attested_by en d out'"
        by (auto simp: is_effect_def split: if_splits)
      with sent_ok [of out'] to_skill [of out'] eq Inr show ?thesis by simp
    next
      case (Inl f)
      show ?thesis
      proof (cases "SealFailureRefuses (sn_policy s)")
        case False
        with sent_ok [of out] to_skill [of out "SealFailureRefuses (sn_policy s)"] eq Inl x(3) sv(2) hf show ?thesis by simp
      next
        case True
        then have s': "s' = emitError w (ev_id src) (SealRefused f) x" using eq Inl x(3) sv(2) by simp
        obtain e where "sn_sent s' = sn_sent x @ [ToClient e QoSReliable]" unfolding s' using emitError_sent by blast
        moreover have "evidence w s' (es @ xs)"
          using emitError_same [OF quiet_refl, of w "ev_id src" "SealRefused f" x] by (intro evidence_cong [OF _ _ _ x(4)]) (simp_all add: s')
        ultimately show ?thesis using x(2) sv(1) by (auto simp: backed_def)
      qed
    qed
  qed
qed

lemma sealDenial_backed:
  assumes "sealDenial w held d a s = Some s'"
  shows "effects_backed w s s'"
proof (cases "\<exists>l sk. sn_ledger s = Some l \<and> de_skill d = Some sk")
  case False
  with assms have "s' = s" by (auto simp: sealDenial_def split: option.splits)
  then show ?thesis by (intro effects_backed_same [where ys = "[]"]) simp_all
next
  case True
  then obtain l sk where l: "sn_ledger s = Some l" "de_skill d = Some sk" by blast
  obtain req r where seal: "seal w req l s = Some (s', r)"
    using assms by (auto simp: sealDenial_def l Let_def)
  have pol: "sn_policy s' = sn_policy s" "sn_sent s' = sn_sent s" using seal by (auto simp: seal_def split: option.splits)
  show ?thesis
    unfolding effects_backed_def
  proof (intro conjI allI impI)
    show "SealFailureRefuses (sn_policy s') = SealFailureRefuses (sn_policy s)" using pol by simp
    fix es assume "evidence w s es"
    then have "ledger_inv (wo_ed w) (l, sn_db s) es" using l by (simp add: evidence_def)
    from seal_step [OF this, of req] seal obtain xs where "evidence w s' (es @ xs)" by (metis append_Nil2 option.inject prod.inject)
    with pol show "\<exists>xs ys. evidence w s' (es @ xs) \<and> sn_sent s' = sn_sent s @ ys \<and> list_all (backed (SealFailureRefuses (sn_policy s)) xs) ys"
      by (intro exI [of _ xs] exI [of _ "[]"]) simp
  qed
qed

interpretation effects: routing w "effects_backed w" "\<lambda>_. True" for w
proof (unfold_locales, goal_cases)
  case (1 s)
  show ?case by (rule effects_backed_same [where ys = "[]"]) simp_all
next
  case (2 s t u)
  then show ?case by (rule effects_backed_trans)
next
  case (3 s s')
  then show ?case
    by (intro effects_backed_same [where ys = "[]"] refuses_truncate) (simp_all add: quiet_def)
next
  case (4 s e)
  show ?case by (rule effects_backed_same [where ys = "[]"]) (simp_all add: append_event_def)
next
  case (5 s e q)
  show ?case by (rule effects_backed_same [where ys = "[ToClient e q]"]) (simp_all add: send_def backed_def)
next
  case (6 e s d q)
  then show ?case
    by (intro effects_backed_same [where ys = "[ToSkill d e q]"]) (simp_all add: send_def backed_def is_effect_def kind_defs)
next
  case (7 d src s s')
  then show ?case by (intro dispatch_backed)
next
  case (8 held d a s s')
  then show ?case by (rule sealDenial_backed)
qed simp

end
