(* ===== verification/Session_Total.thy ===== *)
theory Session_Total
  imports Session_Sends
begin

text \<open>
  When \<open>Route\<close> returns. A session that can be sealed in never panics, and the fuel lasts where the
  pinned nodes have a rank that goes down along the edges between them.
\<close>

section \<open>What routing leaves alone\<close>

text \<open>There is no ledger, or there is one that holds its history.\<close>

definition sealable :: "world \<Rightarrow> session \<Rightarrow> bool" where
  "sealable w s \<longleftrightarrow> sn_ledger s = None \<or> (\<exists>es. evidence w s es)"

definition settled :: "world \<Rightarrow> session \<Rightarrow> session \<Rightarrow> bool" where
  "settled w s s' \<longleftrightarrow> (sealable w s \<longrightarrow> sealable w s') \<and> sn_pins s' = sn_pins s \<and> sn_routes s' = sn_routes s"

lemma sealable_cong:
  "sn_ledger s' = sn_ledger s \<Longrightarrow> db_entries (sn_db s') = db_entries (sn_db s) \<Longrightarrow> db_checkpoints (sn_db s') = db_checkpoints (sn_db s)
   \<Longrightarrow> sealable w s \<Longrightarrow> sealable w s'"
  by (auto simp: sealable_def intro: evidence_cong)

lemma settled_same:
  "sn_ledger s' = sn_ledger s \<Longrightarrow> db_entries (sn_db s') = db_entries (sn_db s) \<Longrightarrow> db_checkpoints (sn_db s') = db_checkpoints (sn_db s)
   \<Longrightarrow> sn_pins s' = sn_pins s \<Longrightarrow> sn_routes s' = sn_routes s \<Longrightarrow> settled w s s'"
  by (simp add: settled_def sealable_cong)

lemma settled_trans: "settled w s t \<Longrightarrow> settled w t u \<Longrightarrow> settled w s u"
  by (simp add: settled_def)

lemma settled_emitError: "settled w s (emitError w i m s)"
  by (rule settled_same) (simp_all add: emitError_def Let_def draw_id_def send_def append_event_def)

lemma settled_deliver: "settled w s (deliver w src out d s)"
proof -
  obtain t late where t: "dropExpired w out s = (t, late)" by fastforce
  have st: "settled w s t"
    using t by (intro settled_same) (auto simp: dropExpired_def read_clock_def Let_def append_event_def split: if_splits)
  obtain u ok where u: "send w (if de_ref d = ClientRef then ToClient out (if ev_kind out \<noteq> KindData then QoSReliable else de_qos d)
      else ToSkill d out (if ev_kind out \<noteq> KindData then QoSReliable else de_qos d)) (append_event w (loggable out (de_qos d)) t) = (u, ok)"
    by fastforce
  have tu: "settled w t u"
    using u by (intro settled_same) (auto simp: send_def append_event_def)
  show ?thesis
    using st settled_trans [OF st tu] settled_trans [OF settled_trans [OF st tu] settled_emitError]
    unfolding deliver_def t prod.case Let_def u by (cases late; cases ok) simp_all
qed

lemma seal_total:
  assumes "sealable w s" "sn_ledger s = Some l"
  shows "\<exists>t r. seal w req l s = Some (t, r) \<and> settled w s t"
proof -
  obtain es where es: "ledger_inv (wo_ed w) (l, sn_db s) es" using assms by (auto simp: sealable_def evidence_def)
  from seal_step [OF es, of req] obtain t r where t: "seal w req l s = Some (t, r)" "\<exists>es. evidence w t es" by blast
  have "sn_pins t = sn_pins s" "sn_routes t = sn_routes s" using t(1) by (auto simp: seal_def split: option.splits)
  with t show ?thesis by (auto simp: settled_def sealable_def)
qed

lemma sealEffect_total:
  assumes "sealable w s"
  shows "\<exists>t r. sealEffect w out d root s = Some (t, r) \<and> settled w s t"
proof (cases "\<exists>l sk. sn_ledger s = Some l \<and> de_skill d = Some sk \<and> mf_type (lv_manifest sk) = TypeMotor \<and> ev_kind out = KindData")
  case False
  then have "sealEffect w out d root s = Some (s, Inr out)"
    by (auto simp: sealEffect_def split: option.splits)
  then show ?thesis by (auto intro!: settled_same)
next
  case True
  then obtain l sk where l: "sn_ledger s = Some l" "de_skill d = Some sk" "mf_type (lv_manifest sk) = TypeMotor" "ev_kind out = KindData" by blast
  obtain u a where u: "takeApproval (ev_cause_id out) s = (u, a)" by fastforce
  have su: "settled w s u" "sn_ledger u = Some l"
    using u l(1) by (auto simp: takeApproval_def intro!: settled_same split: if_splits option.splits)
  then have "sealable w u" using assms by (simp add: settled_def)
  from seal_total [OF this su(2), of "(seal_request_of out d sk s)\<lparr>sr_inference := fst (attest_get (sn_attests s) root), sr_approver := a\<rparr>"]
  obtain t r where "seal w ((seal_request_of out d sk s)\<lparr>sr_inference := fst (attest_get (sn_attests s) root), sr_approver := a\<rparr>) l u = Some (t, r)"
    "settled w u t" by blast
  with settled_trans [OF su(1)] show ?thesis by (cases r) (auto simp: sealEffect_def l Let_def u)
qed

lemma dispatch_total:
  assumes "sealable w s"
  shows "\<exists>s'. dispatch w src d s = Some s' \<and> settled w s s'"
proof -
  obtain t out where h: "hop_envelope w src d s = (t, out)" by fastforce
  obtain u over where c: "chargeContext out t = (u, over)" by fastforce
  have su: "settled w s u"
    using h c by (intro settled_same)
      (auto simp: hop_envelope_def Let_def draw_id_def read_clock_def chargeContext_def split: if_splits prod.splits)
  show ?thesis
  proof (cases over)
    case (Some e)
    with h c settled_trans [OF su settled_emitError] show ?thesis by (simp add: dispatch_def Let_def)
  next
    case None
    define v where "v = track src d (ev_id out) (rootOf u src) u"
    have sv: "settled w s v" by (rule settled_trans [OF su settled_same]) (simp_all add: v_def track_def)
    then have "sealable w v" using assms by (simp add: settled_def)
    from sealEffect_total [OF this, of out d "rootOf u src"] obtain x r where
      x: "sealEffect w out d (rootOf u src) v = Some (x, r)" "settled w v x" by blast
    have sx: "settled w s x" by (rule settled_trans [OF sv x(2)])
    show ?thesis
      using settled_trans [OF sx settled_deliver] settled_trans [OF sx settled_emitError] h c None x(1)
      by (cases r) (simp_all add: dispatch_def Let_def v_def)
  qed
qed

lemma sealDenial_total:
  assumes "sealable w s"
  shows "\<exists>s'. sealDenial w held d a s = Some s' \<and> settled w s s'"
proof (cases "\<exists>l sk. sn_ledger s = Some l \<and> de_skill d = Some sk")
  case False
  then have "sealDenial w held d a s = Some s" by (auto simp: sealDenial_def split: option.splits)
  then show ?thesis by (auto intro!: settled_same)
next
  case True
  then obtain l sk where l: "sn_ledger s = Some l" "de_skill d = Some sk" by blast
  show ?thesis
    using seal_total [OF assms l(1), of "(seal_request_of held d sk s)\<lparr>sr_decision := DecisionGate, sr_outcome := OutcomeDenied,
       sr_waived := False, sr_inference := fst (attest_get (sn_attests s) (rootOf s held)), sr_approver := a\<rparr>"]
    by (auto simp: sealDenial_def l Let_def)
qed

interpretation settling: routing w "\<lambda>s s'. sealable w s \<longrightarrow> settled w s s'" "\<lambda>_. True" for w
proof (unfold_locales, goal_cases)
  case (1 s)
  show ?case by (intro impI settled_same) simp_all
next
  case (2 s t u)
  then show ?case by (simp add: settled_def)
next
  case (3 s s')
  then show ?case by (intro impI settled_same) (simp_all add: quiet_def)
next
  case (4 s e)
  show ?case by (intro impI settled_same) (simp_all add: append_event_def)
next
  case (5 s e q)
  show ?case by (intro impI settled_same) (simp_all add: send_def)
next
  case (6 e s d q)
  show ?case by (intro impI settled_same) (simp_all add: send_def)
next
  case (7 d src s s')
  then show ?case using dispatch_total [of w s src d] by auto
next
  case (8 held d a s s')
  then show ?case using sealDenial_total [of w s held d a] by auto
qed simp

section \<open>Returning\<close>

definition pinned :: "session \<Rightarrow> dest \<Rightarrow> bool" where
  "pinned s d \<longleftrightarrow> al_get (sn_pins s) (de_ref d) \<noteq> None \<and> de_ref d \<noteq> ClientRef"

lemma answer_not_pinned: "\<not> pinned s d \<Longrightarrow> answerFromPin route w src d s = None"
  by (auto simp: answerFromPin_def pinned_def split: option.split)

definition pins_descend :: "(string \<Rightarrow> nat) \<Rightarrow> session \<Rightarrow> bool" where
  "pins_descend rank s \<longleftrightarrow> (\<forall>ref p d. al_get (sn_pins s) ref = Some p \<longrightarrow> ref \<noteq> ClientRef
     \<longrightarrow> d \<in> set (routes_from s (ref @ ''.'' @ pn_port p)) \<longrightarrow> pinned s d \<longrightarrow> rank (de_ref d) < rank ref)"

text \<open>The session comes back from routing what a pinned node answers with.\<close>

definition pin_returns :: "(envelope \<Rightarrow> session \<Rightarrow> session option) \<Rightarrow> world \<Rightarrow> session \<Rightarrow> dest \<Rightarrow> bool" where
  "pin_returns route w s d \<longleftrightarrow> (\<forall>p t e. al_get (sn_pins s) (de_ref d) = Some p \<longrightarrow> settled w s t \<longrightarrow>
     ev_node e = de_ref d \<longrightarrow> ev_port e = pn_port p \<longrightarrow> ev_kind e = KindData \<longrightarrow> (\<exists>t'. route e t = Some t' \<and> settled w t t'))"

lemma pin_returns_mono:
  assumes "pin_returns route w s d" "settled w s t"
  shows "pin_returns route w t d"
  unfolding pin_returns_def
proof (intro allI impI)
  fix p u and e :: envelope
  assume "al_get (sn_pins t) (de_ref d) = Some p" "settled w t u" "ev_node e = de_ref d" "ev_port e = pn_port p" "ev_kind e = KindData"
  with assms settled_trans [OF assms(2), of u] show "\<exists>t'. route e u = Some t' \<and> settled w u t'"
    by (simp add: pin_returns_def settled_def)
qed

lemma pinned_settled: "settled w s t \<Longrightarrow> pinned t d = pinned s d"
  by (simp add: pinned_def settled_def)

lemma sealable_settled: "settled w s t \<Longrightarrow> sealable w s \<Longrightarrow> sealable w t"
  by (simp add: settled_def)

lemma forward_total:
  assumes "sealable w s" "pinned s d \<Longrightarrow> pin_returns route w s d"
  shows "\<exists>s'. forward route w src d s = Some s' \<and> settled w s s'"
proof -
  obtain t e where c: "check_rate w src d s = (t, e)" by fastforce
  have st: "settled w s t"
    using quiet_check_rate [of s w src d] c by (intro settled_same) (simp_all add: quiet_def)
  show ?thesis
  proof (cases e)
    case (Some f)
    with c settled_trans [OF st settled_emitError] show ?thesis by (simp add: forward_def)
  next
    case None
    have sealt: "sealable w t" using st assms(1) by (simp add: settled_def)
    show ?thesis
    proof (cases "pinned t d")
      case False
      from dispatch_total [OF sealt, of src d] settled_trans [OF st] show ?thesis
        by (auto simp: forward_def c None answer_not_pinned [OF False])
    next
      case True
      then obtain p where p: "al_get (sn_pins t) (de_ref d) = Some p" "de_ref d \<noteq> ClientRef" by (auto simp: pinned_def)
      show ?thesis
      proof (cases "ev_kind src = KindData")
        case False
        with p c None st show ?thesis by (simp add: forward_def answerFromPin_def)
      next
        case kind: True
        obtain v i where v: "draw_id w (emitStatus w (ev_id src) (pinned_note d p) t) = (v, i)" by fastforce
        have tv: "settled w t v"
          using v by (intro settled_same) (auto simp: emitStatus_def Let_def draw_id_def append_event_def send_def)
        have "pinned s d" using True st by (simp add: pinned_def settled_def)
        then have "pin_returns route w s d" by (rule assms(2))
        moreover have "al_get (sn_pins s) (de_ref d) = Some p" using p st by (simp add: settled_def)
        moreover have "settled w s v" by (rule settled_trans [OF st tv])
        moreover have "ev_node (pinned_output i src d p v) = de_ref d" "ev_port (pinned_output i src d p v) = pn_port p"
          "ev_kind (pinned_output i src d p v) = KindData" by (simp_all add: pinned_output_def)
        ultimately obtain t' where t': "route (pinned_output i src d p v) v = Some t'" "settled w v t'"
          unfolding pin_returns_def by blast
        have "settled w s t'" by (rule settled_trans [OF settled_trans [OF st tv] t'(2)])
        with t' p kind v show ?thesis by (simp add: forward_def c None answerFromPin_def)
      qed
    qed
  qed
qed


lemma speculative_total:
  assumes "sealable w s" "pinned s d \<Longrightarrow> pin_returns route w s d"
  shows "\<exists>s'. forwardSpeculatively route w env d root s = Some s' \<and> settled w s s'"
proof (cases "ev_kind env \<noteq> KindData \<or> root = []")
  case True
  with forward_total [OF assms] show ?thesis by (simp add: forwardSpeculatively_def)
next
  case data: False
  obtain x running where x: "spec_fold (sn_spec s) (root, de_from d) (ev_schema env) (ev_payload env) = (x, running)" by fastforce
  have onward: "\<exists>s'. forward route w src d t = Some s' \<and> settled w s s'" if "settled w s t" for t src
    using forward_total [OF sealable_settled [OF that assms(1)], of d route src] assms(2) pin_returns_mono [OF _ that]
      pinned_settled [OF that, of d] settled_trans [OF that] by blast
  have spec: "settled w t (t\<lparr>sn_spec := y\<rparr>)" for t y by (rule settled_same) simp_all
  show ?thesis
  proof (cases "isFinal (ev_payload env)")
    case False
    obtain u where u: "forward route w (env\<lparr>ev_payload := markFinal (wo_other w) running\<rparr>) d (s\<lparr>sn_spec := x\<rparr>) = Some u" "settled w s u"
      using onward [OF spec] by blast
    with False data settled_trans [OF u(2) spec] show ?thesis
      unfolding forwardSpeculatively_def x Let_def prod.case by simp
  next
    case True
    obtain y hit stale where y: "spec_resolve (wo_other w) x (root, de_from d) running = (y, hit, stale)"
      by (cases "spec_resolve (wo_other w) x (root, de_from d) running")
    have "sealable w (s\<lparr>sn_spec := y\<rparr>)" by (rule sealable_settled [OF spec assms(1)])
    then have ab: "settled w s (fold (abandonSpeculation w d) stale (s\<lparr>sn_spec := y\<rparr>))"
      using settling.abandon_all_R [of w "s\<lparr>sn_spec := y\<rparr>" d stale] settled_trans [OF spec [of s y]] by simp
    obtain u where "forward route w (env\<lparr>ev_payload := running\<rparr>) d (fold (abandonSpeculation w d) stale (s\<lparr>sn_spec := y\<rparr>)) = Some u" "settled w s u"
      using onward [OF ab] by blast
    with True data y spec [of s y] show ?thesis
      unfolding forwardSpeculatively_def x Let_def prod.case by (cases hit) simp_all
  qed
qed

lemma route_to_total:
  assumes "sealable w s" "pinned s d \<Longrightarrow> pin_returns route w s d"
  shows "\<exists>s'. route_to route w env root d s = Some s' \<and> settled w s s'"
  using speculative_total [OF assms, of env root] forward_total [OF assms, of env] settling.hold_R [of w s env d] assms(1)
  by (auto simp: route_to_def)

lemma route_all_total:
  assumes "sealable w s" "\<And>d. d \<in> set ds \<Longrightarrow> pinned s d \<Longrightarrow> pin_returns route w s d"
  shows "\<exists>s'. route_all route w env root ds s = Some s' \<and> settled w s s'"
  using assms
proof (induction ds arbitrary: s)
  case Nil
  then show ?case by (simp add: settled_same)
next
  case (Cons d ds)
  obtain t where t: "route_to route w env root d s = Some t" "settled w s t"
    using route_to_total [OF Cons.prems(1), of d route env root] Cons.prems(2) by auto
  have "pin_returns route w t d'" if "d' \<in> set ds" "pinned t d'" for d'
    using that Cons.prems(2) [of d'] pinned_settled [OF t(2), of d'] by (intro pin_returns_mono [OF _ t(2)]) simp
  from Cons.IH [OF sealable_settled [OF t(2) Cons.prems(1)] this] obtain u where
    "route_all route w env root ds t = Some u" "settled w t u" by blast
  with t settled_trans [OF t(2)] show ?case by auto
qed

lemma resolveGate_total:
  assumes "sealable w s" "\<And>d. pinned s d \<Longrightarrow> pin_returns route w s d"
  shows "\<exists>s'. resolveGate route w resp s = Some s' \<and> settled w s s'"
proof (cases "al_get (sn_pending s) (ev_cause_id resp)")
  case None
  then show ?thesis by (simp add: resolveGate_def settled_same)
next
  case (Some hd)
  obtain held d where hd: "hd = (held, d)" by fastforce
  define t where "t = append_event w resp (s\<lparr>sn_pending := al_del (ev_cause_id resp) (sn_pending s)\<rparr>)"
  have st: "settled w s t" unfolding t_def by (rule settled_same) (simp_all add: append_event_def)
  note sealt = sealable_settled [OF st assms(1)]
  have denied: "\<exists>s'. map_option (emitError w i m) (sealDenial w held d a t) = Some s' \<and> settled w s s'" for i m a
    using sealDenial_total [OF sealt, of held d a] settled_trans [OF st] settled_trans [OF _ settled_emitError] by fastforce
  show ?thesis
  proof (cases "authorizeGate w held (aw_approve (read_answer (ev_payload resp))) (aw_approval (read_answer (ev_payload resp))) t")
    case (Inl e)
    with denied show ?thesis
      unfolding resolveGate_def Some hd option.case prod.case Let_def t_def [symmetric] by simp
  next
    case (Inr r)
    obtain ok a where r: "r = (ok, a)" by fastforce
    define u where "u = (case a of None \<Rightarrow> t | Some a \<Rightarrow> t\<lparr>sn_approved := al_put (ev_id held) a (sn_approved t)\<rparr>)"
    have su: "settled w s u" by (rule settled_trans [OF st settled_same]) (simp_all add: u_def split: option.split)
    have "\<exists>s'. forward route w held d u = Some s' \<and> settled w u s'"
      by (rule forward_total [OF sealable_settled [OF su assms(1)]])
        (use assms(2) pinned_settled [OF su, of d] pin_returns_mono [OF _ su, of route d] in blast)
    with settled_trans [OF su] denied Inr r show ?thesis
      unfolding resolveGate_def Some hd option.case prod.case Let_def t_def [symmetric]
      by (cases ok) (auto simp: u_def [symmetric])
  qed
qed

lemma route_step_total:
  assumes "sealable w s" "\<And>d. d \<in> set (routes_from s (ev_node env @ ''.'' @ ev_port env)) \<Longrightarrow> pinned s d \<Longrightarrow> pin_returns route w s d"
    and "ev_kind env = KindConfirmResponse \<Longrightarrow> \<forall>d. pinned s d \<longrightarrow> pin_returns route w s d"
  shows "\<exists>s'. route_step route w env s = Some s' \<and> settled w s s'"
proof -
  define t where "t = append_event w env s"
  have st: "settled w s t" by (rule settled_same) (simp_all add: t_def append_event_def)
  obtain dd dup where dd: "(if ev_kind env = KindData then Seen (sn_dedup t) (ev_idem env) else (sn_dedup t, False)) = (dd, dup)"
    by fastforce
  define u where "u = t\<lparr>sn_dedup := dd\<rparr>"
  have su: "settled w s u" by (rule settled_trans [OF st settled_same]) (simp_all add: u_def)
  note sealu = sealable_settled [OF su assms(1)]
  have cancel: "settled w s (handleCancel w env t)"
    using settling.handleCancel_R [of w t env] sealable_settled [OF st assms(1)] settled_trans [OF st] by blast
  have gate: "\<exists>s'. resolveGate route w env u = Some s' \<and> settled w s s'" if "ev_kind env = KindConfirmResponse"
  proof -
    have "\<exists>s'. resolveGate route w env u = Some s' \<and> settled w u s'"
      by (rule resolveGate_total [OF sealu])
        (use assms(3) [OF that] pinned_settled [OF su] pin_returns_mono [OF _ su] in blast)
    with settled_trans [OF su] show ?thesis by blast
  qed
  define v where "v = recordAttestation w (rootOf u env) env u"
  have sv: "settled w s v"
    using quiet_recordAttestation [of u w "rootOf u env" env] by (intro settled_trans [OF su settled_same]) (simp_all add: quiet_def v_def)
  have routes: "routes_from u k = routes_from s k" for k using su by (simp add: settled_def routes_from_def)
  have "\<exists>s'. route_all route w env (rootOf u env) (routes_from u (ev_node env @ ''.'' @ ev_port env)) v = Some s' \<and> settled w v s'"
    unfolding routes
    by (rule route_all_total [OF sealable_settled [OF sv assms(1)]])
      (use assms(2) pinned_settled [OF sv] pin_returns_mono [OF _ sv] in blast)
  with settled_trans [OF sv] gate cancel su show ?thesis
    unfolding route_step_def Let_def t_def [symmetric] dd prod.case u_def [symmetric] v_def [symmetric] by auto
qed

text \<open>Fuel: one for the envelope itself and one for each rank a pinned node it can reach may have.\<close>

lemma Route_data_total:
  assumes "pins_descend rank s0" "settled w s0 s" "sealable w s0"
    "\<And>d. d \<in> set (routes_from s (ev_node env @ ''.'' @ ev_port env)) \<Longrightarrow> pinned s d \<Longrightarrow> rank (de_ref d) < n"
    "ev_kind env = KindData"
  shows "\<exists>s'. Route (Suc n) w env s = Some s' \<and> settled w s s'"
  using assms(2,4,5)
proof (induction n arbitrary: env s)
  case 0
  show ?case
    unfolding Route.simps
    by (rule route_step_total [OF sealable_settled [OF 0(1) assms(3)]]) (use 0(2,3) in \<open>fastforce simp: kind_defs\<close>)+
next
  case (Suc n)
  have "pin_returns (Route (Suc n) w) w s d" if d: "d \<in> set (routes_from s (ev_node env @ ''.'' @ ev_port env))" "pinned s d" for d
    unfolding pin_returns_def
  proof (intro allI impI)
    fix p t and e :: envelope
    assume p: "al_get (sn_pins s) (de_ref d) = Some p" and t: "settled w s t"
      and e: "ev_node e = de_ref d" "ev_port e = pn_port p" "ev_kind e = KindData"
    have 0: "settled w s0 t" by (rule settled_trans [OF Suc.prems(1) t])
    show "\<exists>t'. Route (Suc n) w e t = Some t' \<and> settled w t t'"
    proof (rule Suc.IH [OF 0 _ e(3)])
      fix d' assume d': "d' \<in> set (routes_from t (ev_node e @ ''.'' @ ev_port e))" "pinned t d'"
      have "rank (de_ref d') < rank (de_ref d)"
        using assms(1) [unfolded pins_descend_def, rule_format, of "de_ref d" p d'] d' e p d(2) 0 t
        by (simp add: settled_def pinned_def routes_from_def)
      with Suc.prems(2) [OF d] show "rank (de_ref d') < n" by simp
    qed
  qed
  then show ?case
    unfolding Route.simps(2) [of "Suc n"]
    by (intro route_step_total [OF sealable_settled [OF Suc.prems(1) assms(3)]]) (use Suc.prems(3) in \<open>simp_all add: kind_defs\<close>)
qed

lemma Route_total:
  assumes "pins_descend rank s" "sealable w s" "\<forall>ref p. al_get (sn_pins s) ref = Some p \<longrightarrow> rank ref < n"
  shows "\<exists>s'. Route (Suc n) w env s = Some s' \<and> settled w s s'"
proof -
  have "pin_returns (Route n w) w s d" if "pinned s d" for d
    unfolding pin_returns_def
  proof (intro allI impI)
    fix p t and e :: envelope
    assume p: "al_get (sn_pins s) (de_ref d) = Some p" and t: "settled w s t"
      and e: "ev_node e = de_ref d" "ev_port e = pn_port p" "ev_kind e = KindData"
    have "rank (de_ref d) < n" using assms(3) p by blast
    then obtain m where m: "n = Suc m" "rank (de_ref d) \<le> m" by (cases n) auto
    show "\<exists>t'. Route n w e t = Some t' \<and> settled w t t'"
      unfolding m(1)
    proof (rule Route_data_total [OF assms(1) t assms(2) _ e(3)])
      fix d' assume d': "d' \<in> set (routes_from t (ev_node e @ ''.'' @ ev_port e))" "pinned t d'"
      have "rank (de_ref d') < rank (de_ref d)"
        using assms(1) [unfolded pins_descend_def, rule_format, of "de_ref d" p d'] d' e p that t
        by (simp add: settled_def pinned_def routes_from_def)
      with m(2) show "rank (de_ref d') < m" by simp
    qed
  qed
  then show ?thesis
    unfolding Route.simps by (intro route_step_total [OF assms(2)]) simp_all
qed

end
