(* ===== verification/Session_Wiring.thy ===== *)
theory Session_Wiring
  imports Session
begin

text \<open>
  How a session comes to be: \<^verbatim>\<open>applyPolicy\<close>, \<^verbatim>\<open>validateUndo\<close>, \<^verbatim>\<open>NewSession\<close> and \<^verbatim>\<open>SetPins\<close> of
  \<^verbatim>\<open>session.go\<close>, \<^verbatim>\<open>resumeFromLog\<close> of \<^verbatim>\<open>resume.go\<close>. Maps
  the code ranges over are association lists; their order is the list's.
\<close>

definition ModePublished :: string where "ModePublished = ''published''"

datatype wiring_error =
    Unresolved string resolve_error | NoIngressPort string string | SchemaMismatch string string
  | SpeculativeMotor string string | UngatedMotor string string | PolicyDenied string string denied
  | UndoUnknown db_error | UndoCorrupt | UndoUndelivered | UndoIrreversible | UndoLookup db_error | UndoTwice
  | UndoEdges nat | UndoUnresolved string | UndoCapability | UndoPort | ResumeFailed

section \<open>Policy on an edge\<close>

definition applyPolicy :: "dest \<Rightarrow> policy \<Rightarrow> string \<Rightarrow> string \<Rightarrow> string \<Rightarrow> wiring_error + dest" where
  "applyPolicy d pol mode from' to' =
     (case de_skill d of
        None \<Rightarrow> Inr d
      | Some sk \<Rightarrow>
          (let motor = (mf_type (lv_manifest sk) = TypeMotor); published = (mode = ModePublished) in
           if de_speculative d \<and> motor then Inl (SpeculativeMotor from' to')
           else (let d = (if de_speculative d \<and> \<not> SpeculationAllowed pol then d\<lparr>de_speculative := False\<rparr> else d) in
             if published \<and> de_gate d = [] \<and> motor then Inl (UngatedMotor from' to')
             else (let graphGate = (if published \<and> de_gate d = GateNone then [] else de_gate d) in
               case Authorize pol (mf_capability (lv_manifest sk)) graphGate of
                 Inl e \<Rightarrow> Inl (PolicyDenied from' to' e)
               | Inr auth \<Rightarrow> Inr (d\<lparr>de_gate := au_gate auth, de_waived := au_waived auth\<rparr>)))))"

section \<open>Undo sessions\<close>

text \<open>The query reads two members of the JSON of each row with \<^verbatim>\<open>json_extract\<close>.\<close>

definition LedgerFindByCompensates :: "bool \<Rightarrow> string \<Rightarrow> ledger_db \<Rightarrow> db_error + bytes option" where
  "LedgerFindByCompensates fault h db =
     (if fault then Inl DbFault
      else Inr (map_option er_entry
             (find (\<lambda>r. case json_parse (er_entry r) of
                          Some (JObj ms) \<Rightarrow> al_get ms ''compensates'' = Some (JStr h) \<and> al_get ms ''outcome'' = Some (JStr ''delivered'')
                        | _ \<Rightarrow> False) (db_entries db))))"

definition validateUndo ::
  "(nat \<Rightarrow> bool) \<Rightarrow> ledger_db \<Rightarrow> string \<Rightarrow> graph \<Rightarrow> (string \<times> live) list \<Rightarrow> wiring_error option" where
  "validateUndo io db undoOf g resolved =
     (case LedgerEntryByHash (io 0) undoOf db of
        Inl e \<Rightarrow> Some (UndoUnknown e)
      | Inr raw \<Rightarrow>
          (case Unmarshal_Entry raw of
             None \<Rightarrow> Some UndoCorrupt
           | Some entry \<Rightarrow>
               if en_outcome entry \<noteq> OutcomeDelivered then Some UndoUndelivered
               else (case en_compensation entry of
                       None \<Rightarrow> Some UndoIrreversible
                     | Some c \<Rightarrow>
                         (case LedgerFindByCompensates (io 1) undoOf db of
                            Inl e \<Rightarrow> Some (UndoLookup e)
                          | Inr (Some _) \<Rightarrow> Some UndoTwice
                          | Inr None \<Rightarrow>
                              (case gr_edges g of
                                 [e] \<Rightarrow>
                                   (case splitEndpoint (eg_to e) of
                                      (toRef, toPort) \<Rightarrow>
                                        (case al_get resolved toRef of
                                           None \<Rightarrow> Some (UndoUnresolved toRef)
                                         | Some l \<Rightarrow>
                                             if mf_capability (lv_manifest l) \<noteq> co_capability c then Some UndoCapability
                                             else if toPort \<noteq> co_port c then Some UndoPort
                                             else None))
                               | es \<Rightarrow> Some (UndoEdges (length es)))))))"

section \<open>Resuming from the log\<close>

definition byDest :: "(string \<times> dest list) list \<Rightarrow> (string \<times> dest) list" where
  "byDest routes = fold (\<lambda>(_, ds) m. fold (\<lambda>d m. al_put (dest_key d) d m) ds m) routes []"

record replay =
  rp_session :: session
  rp_by_id :: "(string \<times> envelope) list"
  rp_asked :: "(string \<times> envelope) list"
  rp_max_seq :: "(string \<times> nat) list"

definition replay_hop :: "(string \<times> dest) list \<Rightarrow> string \<Rightarrow> envelope \<Rightarrow> replay \<Rightarrow> replay" where
  "replay_hop dests root env r =
     (let key = ev_node env @ ''.'' @ ev_port env in
      case al_get dests key of
        None \<Rightarrow> r
      | Some d \<Rightarrow>
          (let seen = (case al_get (rp_max_seq r) key of None \<Rightarrow> 0 | Some n \<Rightarrow> n);
               r = (if ev_seq env > seen then r\<lparr>rp_max_seq := al_put key (ev_seq env) (rp_max_seq r)\<rparr> else r);
               s = rp_session r
           in if ev_kind env = KindData \<and> root \<noteq> []
              then r\<lparr>rp_session := s\<lparr>sn_in_flight :=
                     in_flight_record (sn_in_flight s) root \<lparr>hp_to = d, hp_cause_id = ev_cause_id env\<rparr>\<rparr>\<rparr>
              else r))"

definition replay_kind :: "envelope \<Rightarrow> replay \<Rightarrow> replay" where
  "replay_kind env r =
     (let s = rp_session r in
      if ev_kind env = KindCancel
      then (let croot = (case causal_get (sn_causal s) (ev_cause_id env) of Some x \<Rightarrow> x | None \<Rightarrow> ev_cause_id env)
            in r\<lparr>rp_session := s\<lparr>sn_cancelled := cancelled_add (sn_cancelled s) croot\<rparr>\<rparr>)
      else if ev_kind env = KindConfirmRequest then r\<lparr>rp_asked := al_put (ev_id env) env (rp_asked r)\<rparr>
      else if ev_kind env = KindConfirmResponse then r\<lparr>rp_asked := al_del (ev_cause_id env) (rp_asked r)\<rparr>
      else if ev_kind env = KindData \<and> ev_idem env \<noteq> []
      then r\<lparr>rp_session := s\<lparr>sn_dedup := fst (Seen (sn_dedup s) (ev_idem env))\<rparr>\<rparr>
      else r)"

definition replay_event :: "(string \<times> dest) list \<Rightarrow> envelope \<Rightarrow> replay \<Rightarrow> replay" where
  "replay_event dests env r =
     (let r = r\<lparr>rp_by_id := al_put (ev_id env) env (rp_by_id r)\<rparr>;
          s = rp_session r;
          root = rootOf s env;
          s = (if root \<noteq> [] then s\<lparr>sn_causal := causal_set (sn_causal s) (ev_id env) root\<rparr> else s)
      in replay_kind env (replay_hop dests root env (r\<lparr>rp_session := s\<rparr>)))"

record held_for =
  hf_to_ref :: string
  hf_to_port :: string

datatype held_field = HToRef | HToPort

definition set_held_for :: "held_for \<Rightarrow> string \<times> json \<Rightarrow> held_for option" where
  "set_held_for h m =
     (case field_of [(''to_ref'', HToRef), (''to_port'', HToPort)] (fst m) of
        None \<Rightarrow> Some h
      | Some HToRef \<Rightarrow> map_option (\<lambda>s. h\<lparr>hf_to_ref := s\<rparr>) (to_string (snd m) (hf_to_ref h))
      | Some HToPort \<Rightarrow> map_option (\<lambda>s. h\<lparr>hf_to_port := s\<rparr>) (to_string (snd m) (hf_to_port h)))"

definition read_held_for :: "bytes \<Rightarrow> held_for" where
  "read_held_for payload =
     (let zero = \<lparr>hf_to_ref = [], hf_to_port = []\<rparr> in
      case json_parse payload of None \<Rightarrow> zero | Some v \<Rightarrow> lenient set_held_for zero v)"

definition replay_gate :: "(string \<times> envelope) list \<Rightarrow> string \<times> envelope \<Rightarrow> session \<Rightarrow> session" where
  "replay_gate byID asked s =
     (case al_get byID (ev_cause_id (snd asked)) of
        None \<Rightarrow> s
      | Some held \<Rightarrow>
          (let body = read_held_for (ev_payload (snd asked)) in
           case find (\<lambda>d. de_ref d = hf_to_ref body \<and> de_port d = hf_to_port body \<and> de_gate d = GateHumanApproval)
                  (routes_from s (ev_node held @ ''.'' @ ev_port held)) of
             None \<Rightarrow> s
           | Some d \<Rightarrow> s\<lparr>sn_pending := al_put (fst asked) (held, d) (sn_pending s)\<rparr>))"

text \<open>\<^verbatim>\<open>SessionEvents\<close> reads a limit of 0 as 1000 and returns the first of them.\<close>

definition SessionEvents :: "nat \<Rightarrow> envelope list \<Rightarrow> envelope list" where
  "SessionEvents limit events = take (if limit = 0 then 1000 else limit) events"

definition resumeFromLog :: "session \<Rightarrow> session" where
  "resumeFromLog s =
     (let raw = SessionEvents 0 (sn_log s) in
      if raw = [] then s
      else (let r = fold (replay_event (byDest (sn_routes s))) raw
                      \<lparr>rp_session = s, rp_by_id = [], rp_asked = [], rp_max_seq = []\<rparr>;
                s = rp_session r;
                s = s\<lparr>sn_seq := fold (\<lambda>(k, n) m. al_put k n m) (rp_max_seq r) (sn_seq s)\<rparr>
            in fold (replay_gate (rp_by_id r)) (rp_asked r) s))"

section \<open>Wiring\<close>

fun resolve_nodes ::
  "policy \<Rightarrow> node list \<Rightarrow> registry \<Rightarrow> (string \<times> live) list \<Rightarrow> registry \<times> (wiring_error + (string \<times> live) list)" where
  "resolve_nodes pol [] reg resolved = (reg, Inr resolved)"
| "resolve_nodes pol (n # ns) reg resolved =
     (case RouteFor pol (no_resolve n) of
        (prefer', avoid) \<Rightarrow>
          (case ResolvePreferred (no_use n) (no_resolve n) prefer' avoid reg of
             (reg, Inl e) \<Rightarrow> (reg, Inl (Unresolved (no_ref n) e))
           | (reg, Inr l) \<Rightarrow> resolve_nodes pol ns reg (al_put (no_ref n) l resolved)))"

definition wire_edge ::
  "policy \<Rightarrow> string \<Rightarrow> (string \<times> live) list \<Rightarrow> edge \<Rightarrow> wiring_error + dest" where
  "wire_edge pol mode resolved e =
     (let (fromRef, fromPort) = splitEndpoint (eg_from e);
          (toRef, toPort) = splitEndpoint (eg_to e);
          d = \<lparr>de_ref = toRef, de_port = toPort, de_gate = eg_gate e, de_skill = None, de_waived = False,
               de_schema = [], de_qos = (if eg_qos e = [] then QoSReliable else eg_qos e),
               de_speculative = eg_speculative e, de_deadline_ms = eg_deadline_ms e,
               de_priority = eg_priority e, de_from = eg_from e\<rparr>
      in if toRef = ClientRef then Inr d
         else (case al_get resolved toRef of
                 None \<Rightarrow> Inl (NoIngressPort (eg_from e) (eg_to e))
               | Some l \<Rightarrow>
                   (case IngressSchema (lv_manifest l) toPort of
                      None \<Rightarrow> Inl (NoIngressPort (eg_from e) (eg_to e))
                    | Some sch \<Rightarrow>
                        (let d = d\<lparr>de_skill := Some l, de_schema := sch\<rparr>;
                             fromSch = (if fromRef = ClientRef then None
                                        else case al_get resolved fromRef of None \<Rightarrow> None
                                             | Some fl \<Rightarrow> EgressSchema (lv_manifest fl) fromPort)
                         in if fromSch \<noteq> None \<and> fromSch \<noteq> Some sch then Inl (SchemaMismatch (eg_from e) (eg_to e))
                            else applyPolicy d pol mode (eg_from e) (eg_to e)))))"

fun wire_edges ::
  "policy \<Rightarrow> string \<Rightarrow> (string \<times> live) list \<Rightarrow> edge list \<Rightarrow> (string \<times> dest list) list
   \<Rightarrow> wiring_error + (string \<times> dest list) list" where
  "wire_edges pol mode resolved [] routes = Inr routes"
| "wire_edges pol mode resolved (e # es) routes =
     (case wire_edge pol mode resolved e of
        Inl err \<Rightarrow> Inl err
      | Inr d \<Rightarrow>
          wire_edges pol mode resolved es
            (al_put (eg_from e) ((case al_get routes (eg_from e) of None \<Rightarrow> [] | Some ds \<Rightarrow> ds) @ [d]) routes))"

text \<open>The graph has been validated, so the nodes of an edge are resolved. A fresh session over the log it finds under its id. \<open>readable\<close> says whether the log can be read.\<close>

definition fresh_session ::
  "string \<Rightarrow> graph \<Rightarrow> policy \<Rightarrow> ledger option \<Rightarrow> ledger_db \<Rightarrow> envelope list \<Rightarrow> string \<Rightarrow> (string \<times> dest list) list \<Rightarrow> session" where
  "fresh_session i g pol ldg db events undoOf routes =
     \<lparr>sn_id = i, sn_routes = routes, sn_seq = [], sn_dedup = NewDedup 4096, sn_policy = pol, sn_ledger = ldg,
      sn_db = db, sn_log = events, sn_pins = [], sn_undo_of = undoOf, sn_pending = [], sn_approvers = None,
      sn_node = (case ldg of None \<Rightarrow> [] | Some l \<Rightarrow> lg_node l), sn_approved = [],
      sn_causal = newCausalIndex maxCausalRoots, sn_in_flight = newInFlightIndex maxInFlightRoot,
      sn_cancelled = newCancelledSet maxCancelled, sn_attests = newAttestIndex maxAttestRoots maxAttestPerRoot,
      sn_spec = newSpecIndex maxSpecRoots, sn_ctx = newContextLedger (gr_context_budget g), sn_sent = [], sn_tick = 0\<rparr>"

definition NewSession ::
  "(nat \<Rightarrow> bool) \<Rightarrow> bool \<Rightarrow> string \<Rightarrow> graph \<Rightarrow> registry \<Rightarrow> ledger_db \<Rightarrow> envelope list \<Rightarrow> string \<Rightarrow> policy \<Rightarrow> ledger option
   \<Rightarrow> string \<Rightarrow> registry \<times> (wiring_error + session)" where
  "NewSession io readable i g reg db events mode pol ldg undoOf =
     (case resolve_nodes pol (gr_nodes g) reg [] of
        (reg, Inl e) \<Rightarrow> (reg, Inl e)
      | (reg, Inr resolved) \<Rightarrow>
          (reg, case (if undoOf = [] then None else validateUndo io db undoOf g resolved) of
                  Some e \<Rightarrow> Inl e
                | None \<Rightarrow>
                    (case wire_edges pol mode resolved (gr_edges g) [] of
                       Inl e \<Rightarrow> Inl e
                     | Inr routes \<Rightarrow>
                         if \<not> readable then Inl ResumeFailed
                         else Inr (resumeFromLog (fresh_session i g pol ldg db events undoOf routes)))))"

section \<open>Pins\<close>

datatype pin_error = PinPublished | PinClient | PinUnknown string | PinNoPort string string | PinSchema string string

text \<open>\<^verbatim>\<open>resolvedFor\<close> ranges over the routes; every edge into a node leads to the same skill.\<close>

definition resolvedFor :: "session \<Rightarrow> string \<Rightarrow> live option" where
  "resolvedFor s ref =
     (case find (\<lambda>d. de_ref d = ref \<and> de_skill d \<noteq> None) (concat (map snd (sn_routes s))) of
        None \<Rightarrow> None | Some d \<Rightarrow> de_skill d)"

fun check_pins :: "session \<Rightarrow> (string \<times> pin) list \<Rightarrow> (string \<times> pin) list \<Rightarrow> pin_error + (string \<times> pin) list" where
  "check_pins s [] out = Inr out"
| "check_pins s ((ref, p) # ps) out =
     (if ref = ClientRef then Inl PinClient
      else (case resolvedFor s ref of
              None \<Rightarrow> Inl (PinUnknown ref)
            | Some l \<Rightarrow>
                (case EgressSchema (lv_manifest l) (pn_port p) of
                   None \<Rightarrow> Inl (PinNoPort ref (pn_port p))
                 | Some sch \<Rightarrow>
                     if pn_schema p \<noteq> [] \<and> pn_schema p \<noteq> sch then Inl (PinSchema ref (pn_port p))
                     else check_pins s ps (al_put ref (p\<lparr>pn_schema := sch\<rparr>) out))))"

definition SetPins :: "(string \<times> pin) list \<Rightarrow> string \<Rightarrow> session \<Rightarrow> session \<times> pin_error option" where
  "SetPins pins mode s =
     (if pins = [] then (s, None)
      else if mode = ModePublished then (s, Some PinPublished)
      else (case check_pins s pins [] of
              Inl e \<Rightarrow> (s, Some e)
            | Inr out \<Rightarrow> (s\<lparr>sn_pins := out\<rparr>, None)))"

end
