(* ===== verification/Session_Properties.thy ===== *)
theory Session_Properties
  imports Session_Total Session_Wiring Ledger_Properties Registry_Properties
begin

text \<open>
  What a session promises: no effect without its receipt, no gated delivery without the answer that
  releases it, no word from a cancelled chain, and that routing returns.
\<close>

section \<open>A session for the witnesses\<close>

definition toy_world :: world where
  "toy_world = \<lparr>wo_id = (\<lambda>_. ''i''), wo_now = (\<lambda>_. 5000000), wo_ok = (\<lambda>_. True), wo_other = (\<lambda>_. None),
     wo_text = (\<lambda>_. []), wo_ed = toy_ed\<rparr>"

definition plain_policy :: policy where
  "plain_policy = \<lparr>po_version = 1, po_default = DecisionGate, po_allow_graph_waiver = Some False, po_speculation = [],
     po_require_signed_approval = False, po_require_approval_context = [], po_on_seal_failure = SealFailureRefuse,
     po_rules = [], po_routes = [], po_source = [], po_hash = ''p'', po_buckets = []\<rparr>"

definition toy_dest :: "string \<Rightarrow> dest" where
  "toy_dest gate = \<lparr>de_ref = ''pay'', de_port = ''in'', de_gate = gate, de_skill = Some (toy_live ''c1'' 3), de_waived = False,
     de_schema = ''std/text@1'', de_qos = QoSReliable, de_speculative = False, de_deadline_ms = 0, de_priority = 0,
     de_from = ''client.out''\<rparr>"

definition toy_graph :: graph where
  "toy_graph = \<lparr>gr_ir = ''1'', gr_graph_id = ''g'', gr_origin_kind = ''declared'',
     gr_nodes = [\<lparr>no_ref = ''pay'', no_resolve = ''motor.erp.pay'', no_use = []\<rparr>],
     gr_edges = [\<lparr>eg_from = ''client.out'', eg_to = ''pay.in'', eg_gate = [], eg_qos = [], eg_speculative = False,
                  eg_deadline_ms = 0, eg_priority = 0\<rparr>], gr_context_budget = 0\<rparr>"

definition toy_session :: "string \<Rightarrow> session" where
  "toy_session gate = fresh_session ''s1'' toy_graph plain_policy (Some (empty_ledger ''n1'' toy_keys 0)) empty_db [] []
     [(''client.out'', [toy_dest gate])]"

definition toy_message :: envelope where
  "toy_message = zero_envelope\<lparr>ev_v := ''1'', ev_id := ''m1'', ev_session := ''s1'', ev_node := ''client'', ev_port := ''out'',
     ev_idem := ''k1'', ev_schema := ''std/text@1'', ev_kind := KindData, ev_payload := ''{}''\<rparr>"

lemma toy_evidence: "evidence toy_world (toy_session gate) []"
  by (simp add: evidence_def toy_session_def fresh_session_def toy_world_def empty_ledger_inv)

lemma toy_descends: "pins_descend (\<lambda>_. 0) (toy_session gate)"
  by (simp add: pins_descend_def toy_session_def fresh_session_def)

lemma toy_returns: "\<exists>s'. Route 1 toy_world env (toy_session gate) = Some s'"
  using Route_total [OF toy_descends, of toy_world gate 0 env] toy_evidence
  by (auto simp: sealable_def toy_session_def fresh_session_def)

section \<open>Effects\<close>

text \<open>C2: Whatever comes into a session whose ledger holds the history \<open>es\<close>, the history only grows, and
  every data envelope handed to a motor skill on the way carries as its receipt the hash of an entry
  sealed for it before: for its id, its cause, its session, its payload, the skill's capability and the
  decision its edge was under. Only a policy that does not refuse on seal failure lets an effect go
  without a receipt.\<close>

theorem effects_are_sealed:
  assumes "evidence w s es" "Route n w env s = Some s'"
  shows "\<exists>xs ys. evidence w s' (es @ xs) \<and> sn_sent s' = sn_sent s @ ys
    \<and> list_all (backed (SealFailureRefuses (sn_policy s)) xs) ys"
proof -
  have "effects_backed w s s'" by (rule effects.Route_all_R [OF TrueI assms(2)])
  with assms(1) show ?thesis by (simp add: effects_backed_def)
qed

theorem effects_are_sealed_witness:
  "\<exists>s' xs ys. Route 1 toy_world toy_message (toy_session []) = Some s' \<and> evidence toy_world s' ([] @ xs)
    \<and> sn_sent s' = sn_sent (toy_session []) @ ys \<and> list_all (backed True xs) ys"
proof -
  obtain s' where s': "Route 1 toy_world toy_message (toy_session []) = Some s'" using toy_returns by blast
  have "SealFailureRefuses (sn_policy (toy_session []))"
    by (simp add: toy_session_def fresh_session_def plain_policy_def SealFailureRefuses_def)
  with effects_are_sealed [OF toy_evidence s'] s' show ?thesis by auto
qed

section \<open>Gates\<close>

definition gate_ok :: "envelope \<Rightarrow> dest \<Rightarrow> delivery \<Rightarrow> bool" where
  "gate_ok src d x \<longleftrightarrow> not_gated x \<or> sends_hop src d x"

lemma gates_append: "gates_hold s t \<Longrightarrow> gates_hold t u \<Longrightarrow> gates_hold s u"
  by (rule gates.R_trans)

lemma forward_gate_ok:
  assumes "forward (Route n w) w src d s = Some s'"
  shows "\<exists>ys. sn_sent s' = sn_sent s @ ys \<and> list_all (gate_ok src d) ys"
proof -
  obtain t e where c: "check_rate w src d s = (t, e)" by fastforce
  have st: "sn_sent t = sn_sent s" using quiet_check_rate [of s w src d] c by (simp add: quiet_def)
  show ?thesis
  proof (cases "\<exists>f. e = Some f \<or> answerFromPin (Route n w) w src d t \<noteq> None")
    case False
    then have "dispatch w src d t = Some s'" using assms c by (cases e) (auto simp: forward_def)
    from dispatch_sends [OF this] obtain ys where "sn_sent s' = sn_sent t @ ys" "list_all (sends_hop src d) ys" by blast
    with st show ?thesis by (auto simp: gate_ok_def list_all_iff)
  next
    case True
    have "gates_hold s s'"
    proof (cases e)
      case (Some f)
      with assms c have s': "s' = emitError w (ev_id src) f t" by (simp add: forward_def)
      have "gates_hold t s'" unfolding s' by (rule gates.emitError_R)
      with st show ?thesis by (simp add: gates_hold_def)
    next
      case None
      with True obtain r where r: "answerFromPin (Route n w) w src d t = Some r" by blast
      with assms c None have r': "r = Some s'" by (simp add: forward_def)
      from r obtain p where p: "al_get (sn_pins t) (de_ref d) = Some p" "de_ref d \<noteq> ClientRef"
        by (auto simp: answerFromPin_def split: option.splits if_splits)
      show ?thesis
      proof (cases "ev_kind src = KindData")
        case False
        with r r' p st show ?thesis by (simp add: answerFromPin_def gates_hold_same)
      next
        case True
        obtain v i where v: "draw_id w (emitStatus w (ev_id src) (pinned_note d p) t) = (v, i)" by fastforce
        have "Route n w (pinned_output i src d p v) v = Some s'"
          using r r' p True v by (simp add: answerFromPin_def)
        then have "gates_hold v s'" by (rule gates.Route_R [rotated]) (simp add: pinned_output_def kind_defs)
        moreover have "gates_hold (emitStatus w (ev_id src) (pinned_note d p) t) v" by (rule gates_hold_same [OF draw_sent [OF v]])
        ultimately have "gates_hold t s'" using gates.emitStatus_R gates_append by blast
        with st show ?thesis by (simp add: gates_hold_def)
      qed
    qed
    then show ?thesis by (auto simp: gates_hold_def gate_ok_def list_all_iff)
  qed
qed

lemma authorizeGate_cong:
  assumes "policy_doc.truncate (sn_policy t) = policy_doc.truncate (sn_policy s)" "sn_approvers t = sn_approvers s"
    "sn_node t = sn_node s" "sn_id t = sn_id s"
  shows "authorizeGate w held b a t = authorizeGate w held b a s"
proof -
  have "approvalContextRequired t = approvalContextRequired s" "SignedApprovalRequired (sn_policy t) = SignedApprovalRequired (sn_policy s)"
    using assms(1) by (simp_all add: approvalContextRequired_def SignedApprovalRequired_def policy_doc.truncate_def)
  with assms(2-4) show ?thesis by (simp only: authorizeGate_def)
qed

text \<open>What an answer that releases has shown, where the policy asks for a signature: an enrolled operator,
  not revoked, signed the approval of this very delivery on this node and session, over everything the
  policy wants shown.\<close>

definition signed_release :: "world \<Rightarrow> session \<Rightarrow> envelope \<Rightarrow> approval \<Rightarrow> bool" where
  "signed_release w s held a \<longleftrightarrow>
     approval_Verify (wo_ed w) (Some a) (sn_node s) (sn_id s) = (Some a, None)
     \<and> ap_envelope a = ev_id held \<and> ap_decision a = ApprovalApprove
     \<and> Unbound (Some a) (approvalContextRequired s) = []
     \<and> (\<exists>r o'. sn_approvers s = Some r \<and> al_get (ro_ops r) (ap_operator a) = Some o' \<and> revoked_at o' = 0
          \<and> or_pubkey o' = TrimSpace (ap_pubkey a))"

lemma authorizeGate_signed:
  assumes "authorizeGate w held b ma s = Inr (True, a)" "SignedApprovalRequired (sn_policy s)"
  shows "\<exists>appr. a = Some appr \<and> signed_release w s held appr"
proof -
  from assms obtain a0 where ma: "ma = Some a0" by (cases ma) (auto simp: authorizeGate_def Let_def)
  from assms(1) obtain r where r: "sn_approvers s = Some r"
    by (auto simp: authorizeGate_def ma Let_def split: option.splits)
  obtain mb e where ch: "Check (wo_ed w) r ma (sn_node s) (sn_id s) (ev_id held) = (mb, e)" by fastforce
  have "e = None" and mb: "\<exists>appr. mb = Some appr"
    using assms(1) ch by (auto simp: authorizeGate_def ma r Let_def split: option.splits)
  with ch have ch': "Check (wo_ed w) r ma (sn_node s) (sn_id s) (ev_id held) = (mb, None)" by simp
  from mb obtain appr where appr: "mb = Some appr" by blast
  have rest: "a = Some appr" "ap_decision appr = ApprovalApprove" "Unbound (Some appr) (approvalContextRequired s) = []"
    using assms(1) ch' appr
    by (auto simp: authorizeGate_def ma r Let_def Unbound_def split: option.splits if_splits)
  from Check_None [OF ch'] obtain a1 o' where c: "mb = Some (sort_context a1)" "approval_Verify (wo_ed w) ma (sn_node s) (sn_id s) = (mb, None)"
    "ap_envelope a1 = ev_id held" "al_get (ro_ops r) (ap_operator a1) = Some o'" "revoked_at o' = 0" "or_pubkey o' = TrimSpace (ap_pubkey a1)"
    by metis
  have "appr = sort_context a1" using appr c(1) by simp
  moreover have "approval_Verify (wo_ed w) mb (sn_node s) (sn_id s) = (mb, None)"
    using approval_Verify_sorted [of "wo_ed w" ma "sn_node s" "sn_id s" mb] c(2) by simp
  ultimately show ?thesis
    using c appr rest r by (simp add: signed_release_def sort_context_def)
qed

text \<open>C3: Nothing but a cancel goes over an edge with a human gate that does not speculate, unless an answer
  releases it: if a session hands an envelope to a skill over such an edge, what came in was the response to
  a pending request for just that delivery, the envelope handed over is the held one's next hop, and the
  answer was accepted; where the policy requires signed approval, an enrolled operator signed the approval of
  this delivery. An edge into a motor skill never speculates; an edge elsewhere that speculates and that the
  policy gates is not covered: the session delivers over it without asking.\<close>

theorem gated_delivery_was_approved:
  assumes "Route n w env s = Some s'" "sn_sent s' = sn_sent s @ ys" "ToSkill d e q \<in> set ys" "ev_kind e \<noteq> KindCancel" "gated d"
  shows "ev_kind env = KindConfirmResponse \<and>
    (\<exists>held a. al_get (sn_pending s) (ev_cause_id env) = Some (held, d) \<and> hop_of held d e
       \<and> authorizeGate w held (aw_approve (read_answer (ev_payload env))) (aw_approval (read_answer (ev_payload env))) s = Inr (True, a)
       \<and> (SignedApprovalRequired (sn_policy s) \<longrightarrow> (\<exists>appr. a = Some appr \<and> signed_release w s held appr)))"
proof -
  have bad: "\<not> gates_hold s s'"
    using assms(2-5) by (force simp: gates_hold_def list_all_iff not_gated_def)
  then have resp: "ev_kind env = KindConfirmResponse" using gates.Route_R [OF _ assms(1)] by blast
  obtain m where m: "n = Suc m" using assms(1) by (cases n) auto
  define ev where "ev = append_event w env s"
  have ev: "sn_sent (ev\<lparr>sn_dedup := dd\<rparr>) = sn_sent s" for dd by (simp add: ev_def append_event_def)
  from assms(1) [unfolded m Route.simps] show ?thesis
  proof (cases rule: route_step_ways)
    case 1
    with resp show ?thesis by (simp add: kind_defs)
  next
    case (2 dd)
    with bad ev show ?thesis by (simp add: gates_hold_same flip: ev_def)
  next
    case (4 dd root u)
    with resp show ?thesis by simp
  next
    case (3 dd)
    define s1 where "s1 = ev\<lparr>sn_dedup := dd\<rparr>"
    have rg: "resolveGate (Route m w) w env s1 = Some s'" using 3(2) by (simp add: s1_def ev_def)
    have s1: "sn_sent s1 = sn_sent s" "sn_pending s1 = sn_pending s" by (simp_all add: s1_def ev_def append_event_def)
    show ?thesis
    proof (cases "al_get (sn_pending s1) (ev_cause_id env)")
      case None
      with rg s1 bad show ?thesis by (simp add: resolveGate_def gates_hold_same)
    next
      case (Some hd)
      obtain held d0 where hd: "hd = (held, d0)" by fastforce
      define t where "t = append_event w env (s1\<lparr>sn_pending := al_del (ev_cause_id env) (sn_pending s1)\<rparr>)"
      have t: "sn_sent t = sn_sent s" using s1 by (simp add: t_def append_event_def)
      have cong: "authorizeGate w held b a t = authorizeGate w held b a s" for b a
        by (rule authorizeGate_cong) (simp_all add: t_def s1_def ev_def append_event_def)
      define ans where "ans = read_answer (ev_payload env)"
      note eq = rg [unfolded resolveGate_def Some hd option.case prod.case Let_def t_def [symmetric] ans_def [symmetric] cong]
      have denied: False if "map_option (emitError w i msg) (sealDenial w held d0 a t) = Some s'" for i msg a
      proof -
        from that obtain u where u: "sealDenial w held d0 a t = Some u" "s' = emitError w i msg u" by auto
        have "gates_hold u s'" unfolding u(2) by (rule gates.emitError_R)
        moreover have "sn_sent u = sn_sent s" using sealDenial_sent [OF u(1)] t by simp
        ultimately show False using bad by (simp add: gates_hold_def)
      qed
      show ?thesis
      proof (cases "authorizeGate w held (aw_approve ans) (aw_approval ans) s")
        case (Inl err)
        have "map_option (emitError w (ev_id env) (GateRefused (de_ref d0) (de_port d0))) (sealDenial w held d0 None t) = Some s'"
          using eq unfolding Inl sum.case .
        then show ?thesis using denied by blast
      next
        case (Inr r)
        obtain ok a where r: "r = (ok, a)" by fastforce
        show ?thesis
        proof (cases ok)
          case False
          have "\<exists>i. map_option (emitError w i (GateDenied (de_ref d0) (de_port d0) (case a of None \<Rightarrow> ''user'' | Some a \<Rightarrow> ap_operator a)))
              (sealDenial w held d0 a t) = Some s'"
            using eq False unfolding Inr r sum.case prod.case by (intro exI [of _ "ev_id env"]) simp
          then show ?thesis using denied by blast
        next
          case True
          define u where "u = (case a of None \<Rightarrow> t | Some a \<Rightarrow> t\<lparr>sn_approved := al_put (ev_id held) a (sn_approved t)\<rparr>)"
          have su: "sn_sent u = sn_sent s" using t by (simp add: u_def split: option.split)
          have "forward (Route m w) w held d0 u = Some s'" using eq Inr r True by (simp add: u_def)
          from forward_gate_ok [OF this] su assms(2) have "list_all (gate_ok held d0) ys" by auto
          with assms(3) have "gate_ok held d0 (ToSkill d e q)" by (simp add: list_all_iff)
          with assms(4,5) have "d = d0" "hop_of held d e" by (auto simp: gate_ok_def not_gated_def sends_hop_def)
          with resp Some hd s1 Inr r True authorizeGate_signed [of w held "aw_approve ans" "aw_approval ans" s a]
          show ?thesis by (auto simp: ans_def)
        qed
      qed
    qed
  qed
qed


section \<open>The first effect of a node\<close>

lemma first_seal:
  assumes "sn_ledger t = Some (empty_ledger node toy_keys 0)" "sn_db t = empty_db" "validateVocabulary req = None" "sr_approver req = None"
  shows "\<exists>u h. seal toy_world req (empty_ledger node toy_keys 0) t = Some (u, Inr h)"
proof -
  have c: "check_approver ed n req = (req, None)" for ed n by (simp add: check_approver_def assms(4))
  obtain tr where "ct_Append ct_empty (LeafHash (Marshal_Entry (make_entry (empty_ledger node toy_keys 0) 5000000 req))) = Some tr"
    using ct.repr_app [OF ct.repr_new] by blast
  then show ?thesis
    using assms(1,2)
    by (auto simp: seal_def Seal_def Let_def assms(3) c AppendLedgerEntry_def empty_db_def empty_ledger_def toy_world_def
        checkpointEveryN_def checkpointEveryT_def split: prod.splits option.splits)
qed

text \<open>A node that has sealed nothing yet, with a clock at 5 ms and every call succeeding.\<close>

definition new_node :: "session \<Rightarrow> bool" where
  "new_node t \<longleftrightarrow> sn_ledger t = Some (empty_ledger ''n1'' toy_keys 0) \<and> sn_db t = empty_db \<and> cx_budget (sn_ctx t) = 0
     \<and> sn_approved t = [] \<and> sn_policy t = plain_policy \<and> sn_undo_of t = []"

lemma new_node_dispatch:
  assumes "new_node t" "ev_kind src = KindData"
  shows "\<exists>s' en out. dispatch toy_world src (toy_dest gate) t = Some s' \<and> evidence toy_world s' [en]
    \<and> attested_by en (toy_dest gate) out \<and> hop_of src (toy_dest gate) out
    \<and> sn_sent s' = sn_sent t @ (if deadlineExpired 5000000 (ev_deadline src) then [] else [ToSkill (toy_dest gate) out QoSReliable])"
proof -
  let ?d = "toy_dest gate"
  obtain t1 out where h: "hop_envelope toy_world src ?d t = (t1, out)" by fastforce
  note hf = hop_envelope_fields [OF h]
  have more: "ev_deadline out = ev_deadline src" "sn_ctx t1 = sn_ctx t" "sn_approved t1 = sn_approved t" "sn_undo_of t1 = sn_undo_of t"
    using h by (auto simp: hop_envelope_def Let_def draw_id_def read_clock_def inheritDeadline_def toy_dest_def)
  have c: "chargeContext out t1 = (t1, None)"
    using assms(1) more by (auto simp: chargeContext_def charge_def new_node_def)
  define v where "v = track src ?d (ev_id out) (rootOf t1 src) t1"
  have v: "sn_ledger v = Some (empty_ledger ''n1'' toy_keys 0)" "sn_db v = empty_db" "sn_approved v = []" "sn_policy v = plain_policy"
      "sn_sent v = sn_sent t" "sn_undo_of v = []" "sn_id v = sn_id t"
    using assms(1) hf more by (simp_all add: v_def track_def new_node_def)
  define req where "req = (seal_request_of out ?d (toy_live ''c1'' 3) v)\<lparr>sr_inference := fst (attest_get (sn_attests v) (rootOf t1 src)), sr_approver := None\<rparr>"
  have "validateVocabulary req = None"
    using v by (simp add: validateVocabulary_def req_def seal_request_of_def toy_live_def toy_manifest_def actor_of_def plain_policy_def
        oneOf_def PolicyDecisions_def EffectOutcomes_def DecisionGate_def DecisionAllow_def OutcomeDelivered_def)
  from first_seal [OF v(1,2) this] obtain u hh where u: "seal toy_world req (empty_ledger ''n1'' toy_keys 0) v = Some (u, Inr hh)"
    by (auto simp: req_def)
  have "ledger_inv (wo_ed toy_world) (empty_ledger ''n1'' toy_keys 0, sn_db v) []"
    by (simp add: v toy_world_def empty_ledger_inv)
  from seal_step [OF this, of req] u obtain en where en: "evidence toy_world u ([] @ [en])" "from_request req en" "hh = Entry_Hash en"
    "sn_sent u = sn_sent v" by auto
  define out' where "out' = out\<lparr>ev_receipt := hh\<rparr>"
  have motor: "mf_type (lv_manifest (toy_live ''c1'' 3)) = TypeMotor" by (simp add: toy_live_def toy_manifest_def TypeMotor_def)
  have se: "sealEffect toy_world out ?d (rootOf t1 src) v = Some (u, Inr out')"
    using u v hf assms(2) motor by (simp add: sealEffect_def toy_dest_def takeApproval_def Let_def req_def [symmetric] out'_def)
      (simp add: req_def seal_request_of_def toy_dest_def)
  have disp: "dispatch toy_world src ?d t = Some (deliver toy_world src out' ?d u)"
    using se by (simp add: dispatch_def h c Let_def v_def)
  have sent: "sn_sent (deliver toy_world src out' ?d u) = sn_sent u
      @ (if deadlineExpired 5000000 (ev_deadline src) then [] else [ToSkill ?d out' QoSReliable])"
  proof (cases "deadlineExpired 5000000 (ev_deadline src)")
    case True
    then have "snd (dropExpired toy_world out' u)" "sn_sent (fst (dropExpired toy_world out' u)) = sn_sent u"
      using assms(2) hf more(1) by (simp_all add: dropExpired_def read_clock_def Let_def append_event_def toy_world_def out'_def)
    then obtain x where "dropExpired toy_world out' u = (x, True)" "sn_sent x = sn_sent u"
      by (cases "dropExpired toy_world out' u") auto
    with True show ?thesis by (simp add: deliver_def)
  next
    case False
    then have "dropExpired toy_world out' u = (u\<lparr>sn_tick := sn_tick u + 1\<rparr>, False)"
      using more(1) by (simp add: dropExpired_def read_clock_def Let_def toy_world_def out'_def)
    moreover have "ev_kind out' = KindData" using hf assms(2) by (simp add: out'_def)
    moreover have "de_ref ?d \<noteq> ClientRef" "de_qos ?d = QoSReliable" by (simp_all add: toy_dest_def ClientRef_def)
    ultimately show ?thesis using False
      by (simp add: deliver_def append_event_def send_def toy_world_def Let_def)
  qed
  have "evidence toy_world (deliver toy_world src out' ?d u) [en]"
  proof -
    have "sn_ledger (deliver toy_world src out' ?d u) = sn_ledger u" "sn_db (deliver toy_world src out' ?d u) = sn_db u"
      by (insert deliver_sent [of toy_world src out' ?d u], (elim exE conjE, assumption)+)
    moreover have "evidence toy_world u [en]" using en(1) by simp
    ultimately show ?thesis by (simp only: evidence_cong)
  qed
  moreover have "attested_by en ?d out'"
    using en(2,3) hf v(7) by (simp add: attested_by_def from_request_def req_def seal_request_of_def out'_def toy_dest_def)
  moreover have "hop_of src ?d out'" using hf by (simp add: hop_of_def out'_def)
  ultimately show ?thesis using disp sent en(4) v(5) by auto
qed

end
