(* ===== verification/Session_Safety.thy ===== *)
theory Session_Safety
  imports Session_Properties
begin

text \<open>
  What else a session promises and does not: a released delivery in full, when \<^verbatim>\<open>Route\<close> returns, the
  silence after a cancel, and an effect that is on record although it was never sent.
\<close>

section \<open>An approval, from the answer to the delivery\<close>

definition toy_response :: envelope where
  "toy_response = zero_envelope\<lparr>ev_v := ''1'', ev_id := ''a1'', ev_cause_id := ''r1'', ev_session := ''s1'',
     ev_kind := KindConfirmResponse, ev_payload := ''{\"approve\":true}''\<rparr>"

definition held_session :: session where
  "held_session = (toy_session GateHumanApproval)\<lparr>sn_pending := [(''r1'', (toy_message, toy_dest GateHumanApproval))]\<rparr>"

lemma toy_answer: "read_answer (ev_payload toy_response) = \<lparr>aw_approve = True, aw_approval = None\<rparr>"
  by code_simp

lemma toy_CheckRate: "CheckRate now c plain_policy = (plain_policy, None)"
  by (simp add: CheckRate_def Decide_def plain_policy_def)

lemma new_node_forward:
  assumes "new_node t" "sn_pins t = []"
  shows "\<exists>u. forward route toy_world src (toy_dest gate) t = dispatch toy_world src (toy_dest gate) u \<and> new_node u
    \<and> sn_sent u = sn_sent t"
  using assms
  by (cases "ev_kind src = KindData")
    (auto simp: forward_def check_rate_def toy_dest_def read_clock_def Let_def new_node_def toy_CheckRate answerFromPin_def)

lemma toy_release:
  "\<exists>s' e. Route 1 toy_world toy_response held_session = Some s' \<and> sn_sent s' = [ToSkill (toy_dest GateHumanApproval) e QoSReliable]
    \<and> hop_of toy_message (toy_dest GateHumanApproval) e"
proof -
  define t where "t = append_event toy_world toy_response (append_event toy_world toy_response held_session
     \<lparr>sn_dedup := sn_dedup (append_event toy_world toy_response held_session), sn_pending := []\<rparr>)"
  have t: "new_node t" "sn_pins t = []" "sn_sent t = []"
    by (simp_all add: t_def append_event_def held_session_def toy_session_def fresh_session_def new_node_def
        newContextLedger_def toy_graph_def)
  obtain u where u: "forward (Route 0 toy_world) toy_world toy_message (toy_dest GateHumanApproval) t
      = dispatch toy_world toy_message (toy_dest GateHumanApproval) u" "new_node u" "sn_sent u = []"
    using new_node_forward [OF t(1,2)] t(3) by metis
  have kind: "ev_kind toy_message = KindData" "\<not> deadlineExpired 5000000 (ev_deadline toy_message)"
    by (simp_all add: toy_message_def zero_envelope_def deadlineExpired_def)
  have go: "Route 1 toy_world toy_response held_session = forward (Route 0 toy_world) toy_world toy_message (toy_dest GateHumanApproval) t"
    using toy_answer
    by (simp add: route_step_def resolveGate_def Let_def t_def append_event_def toy_response_def kind_defs held_session_def
        authorizeGate_def toy_session_def fresh_session_def SignedApprovalRequired_def plain_policy_def al_del_def)
  from new_node_dispatch [OF u(2) kind(1), of GateHumanApproval] kind(2) u go show ?thesis by auto
qed

theorem gated_delivery_was_approved_witness:
  "\<exists>s' e held a. Route 1 toy_world toy_response held_session = Some s' \<and> ToSkill (toy_dest GateHumanApproval) e QoSReliable \<in> set (sn_sent s')
    \<and> al_get (sn_pending held_session) (ev_cause_id toy_response) = Some (held, toy_dest GateHumanApproval)
    \<and> hop_of held (toy_dest GateHumanApproval) e
    \<and> authorizeGate toy_world held (aw_approve (read_answer (ev_payload toy_response)))
        (aw_approval (read_answer (ev_payload toy_response))) held_session = Inr (True, a)"
proof -
  obtain s' e where r: "Route 1 toy_world toy_response held_session = Some s'"
      "sn_sent s' = [ToSkill (toy_dest GateHumanApproval) e QoSReliable]" "hop_of toy_message (toy_dest GateHumanApproval) e"
    using toy_release by blast
  have s: "sn_sent s' = sn_sent held_session @ [ToSkill (toy_dest GateHumanApproval) e QoSReliable]"
    using r(2) by (simp add: held_session_def toy_session_def fresh_session_def)
  have "ev_kind e \<noteq> KindCancel" using r(3) by (simp add: hop_of_def toy_message_def kind_defs)
  moreover have "gated (toy_dest GateHumanApproval)" by (simp add: gated_def toy_dest_def)
  ultimately show ?thesis
    using gated_delivery_was_approved [OF r(1) s, of "toy_dest GateHumanApproval" e QoSReliable] r(1,2) by auto
qed

section \<open>Returning\<close>

text \<open>C13: A session that has no ledger, or one that holds its history, comes back from routing any
  envelope, with such a ledger again, whatever the ids, the clock and the failures are: the nodes that
  are pinned need only a rank that goes down along every edge from one of them to another, and fuel of
  one more than the ranks is enough.\<close>

theorem routing_returns:
  assumes "pins_descend rank s" "sealable w s" "\<forall>ref p. al_get (sn_pins s) ref = Some p \<longrightarrow> rank ref < n"
  shows "\<exists>s'. Route (Suc n) w env s = Some s' \<and> sealable w s'"
  using Route_total [OF assms] assms(2) by (auto simp: settled_def)

definition pinned_session :: session where
  "pinned_session = (toy_session [])\<lparr>sn_pins := [(''pay'', \<lparr>pn_port = ''out'', pn_schema = ''std/text@1'', pn_payload = ''{}''\<rparr>)]\<rparr>"

theorem routing_returns_witness: "\<exists>s'. Route 2 toy_world toy_message pinned_session = Some s'"
proof -
  have "pins_descend (\<lambda>_. 0) pinned_session"
    by (auto simp: pins_descend_def pinned_session_def toy_session_def fresh_session_def routes_from_def split: if_splits)
  moreover have "sealable toy_world pinned_session"
    using toy_evidence [of "[]"] by (auto simp: sealable_def pinned_session_def evidence_def)
  moreover have "\<forall>ref p. al_get (sn_pins pinned_session) ref = Some p \<longrightarrow> (\<lambda>_. 0::nat) ref < 1" by simp
  ultimately have "\<exists>s'. Route (Suc 1) toy_world toy_message pinned_session = Some s' \<and> sealable toy_world s'"
    by (rule routing_returns)
  then show ?thesis by (auto simp: numeral_2_eq_2)
qed

text \<open>A pinned node whose first edge from the pinned port leads back to it.\<close>

definition answers_itself :: "string \<Rightarrow> pin \<Rightarrow> session \<Rightarrow> bool" where
  "answers_itself ref p s \<longleftrightarrow> ref \<noteq> ClientRef \<and> al_get (sn_pins s) ref = Some p \<and> bs_seen (sn_cancelled s) = []
     \<and> (\<exists>d ds. routes_from s (ref @ ''.'' @ pn_port p) = d # ds \<and> de_ref d = ref \<and> de_skill d = None \<and> de_gate d = []
          \<and> \<not> de_speculative d)"

text \<open>Where the first edge from a pinned output leads back to the pinned node, what the pin answers
  comes back to it for ever: no fuel is enough for \<open>Route\<close>.\<close>

theorem pinned_cycle_never_returns:
  assumes "answers_itself ref p s" "ev_node e = ref" "ev_port e = pn_port p" "ev_kind e = KindData" "ev_idem e = []" "ev_attest e = []"
  shows "Route n w e s = None"
  using assms
proof (induction n arbitrary: e s)
  case (Suc n)
  obtain d ds where d: "routes_from s (ref @ ''.'' @ pn_port p) = d # ds" "de_ref d = ref" "de_skill d = None" "de_gate d = []"
      "\<not> de_speculative d" "ref \<noteq> ClientRef" "al_get (sn_pins s) ref = Some p" "bs_seen (sn_cancelled s) = []"
    using Suc.prems(1) by (auto simp: answers_itself_def)
  define t where "t = (append_event w e s)\<lparr>sn_dedup := sn_dedup s\<rparr>"
  have t: "sn_routes t = sn_routes s" "sn_pins t = sn_pins s" "sn_cancelled t = sn_cancelled s"
    by (simp_all add: t_def append_event_def)
  obtain u i where u: "draw_id w (emitStatus w (ev_id e) (pinned_note d p) t) = (u, i)" by fastforce
  have same: "sn_routes u = sn_routes s" "sn_pins u = sn_pins s" "sn_cancelled u = sn_cancelled s"
    using u t by (auto simp: draw_id_def emitStatus_def Let_def send_def append_event_def)
  have "Route n w (pinned_output i e d p u) u = None"
    by (rule Suc.IH) (use Suc.prems(1) same d(2) in \<open>simp_all add: answers_itself_def routes_from_def pinned_output_def kernel_envelope_def zero_envelope_def\<close>)
  then have "forward (Route n w) w e d t = None"
    using d t u Suc.prems(4) by (simp add: forward_def check_rate_def answerFromPin_def)
  then have "route_all (Route n w) w e (rootOf t e) (d # ds) t = None"
    using d(4,5) by (simp add: route_to_def GateHumanApproval_def)
  moreover have "Seen (sn_dedup s) (ev_idem e) = (sn_dedup s, False)" using Suc.prems(5) by (simp add: Seen_def)
  ultimately show ?case
    using Suc.prems(2-6) d(1,8) t(1,3)
    by (simp add: route_step_def Let_def kind_defs cancelled_has_def recordAttestation_def append_event_def t_def routes_from_def)
qed simp

definition cyclic_session :: session where
  "cyclic_session = (toy_session [])\<lparr>sn_pins := [(''a'', \<lparr>pn_port = ''out'', pn_schema = [], pn_payload = []\<rparr>)],
     sn_routes := [(''a.out'', [(toy_dest [])\<lparr>de_ref := ''a'', de_skill := None\<rparr>])]\<rparr>"

theorem pinned_cycle_never_returns_witness:
  "\<forall>n. Route n toy_world (zero_envelope\<lparr>ev_node := ''a'', ev_port := ''out'', ev_kind := KindData\<rparr>) cyclic_session = None"
proof
  fix n
  have "answers_itself ''a'' \<lparr>pn_port = ''out'', pn_schema = [], pn_payload = []\<rparr> cyclic_session"
    by (simp add: answers_itself_def cyclic_session_def toy_session_def fresh_session_def newCancelledSet_def ClientRef_def
        routes_from_def toy_dest_def)
  then show "Route n toy_world (zero_envelope\<lparr>ev_node := ''a'', ev_port := ''out'', ev_kind := KindData\<rparr>) cyclic_session = None"
    by (rule pinned_cycle_never_returns) (simp_all add: zero_envelope_def)
qed

section \<open>Cancelling\<close>

definition chain_of :: "session \<Rightarrow> envelope \<Rightarrow> string" where
  "chain_of s c = (case causal_get (sn_causal s) (ev_cause_id c) of Some r \<Rightarrow> r | None \<Rightarrow> ev_cause_id c)"

text \<open>What asks a skill to stop the work of one hop.\<close>

definition asks_to_stop :: "hop \<Rightarrow> delivery \<Rightarrow> bool" where
  "asks_to_stop h x \<longleftrightarrow> (case x of ToClient e q \<Rightarrow> False
     | ToSkill d e q \<Rightarrow> d = hp_to h \<and> ev_kind e = KindCancel \<and> ev_cause_id e = hp_cause_id h \<and> ev_node e = de_ref d \<and> ev_port e = de_port d)"

lemma ask_to_stop_sends:
  "\<exists>xs. sn_sent (ask_to_stop w hs s) = sn_sent s @ xs \<and> list_all2 asks_to_stop hs xs
     \<and> sn_cancelled (ask_to_stop w hs s) = sn_cancelled s"
proof (induction hs arbitrary: s)
  case (Cons h hs)
  define e where "e = (kernel_envelope (wo_id w (sn_tick s)) (hp_cause_id h) (s\<lparr>sn_tick := sn_tick s + 1\<rparr>))
    \<lparr>ev_node := de_ref (hp_to h), ev_port := de_port (hp_to h), ev_kind := KindCancel\<rparr>"
  define t where "t = s\<lparr>sn_tick := sn_tick s + 2, sn_sent := sn_sent s @ [ToSkill (hp_to h) e QoSReliable]\<rparr>"
  have step: "ask_to_stop w (h # hs) s = ask_to_stop w hs t"
    by (simp add: draw_id_def send_def t_def e_def Let_def)
  from Cons.IH [of t] obtain xs where "sn_sent (ask_to_stop w hs t) = sn_sent t @ xs" "list_all2 asks_to_stop hs xs"
    "sn_cancelled (ask_to_stop w hs t) = sn_cancelled t" by blast
  moreover have "asks_to_stop h (ToSkill (hp_to h) e QoSReliable)"
    by (simp add: asks_to_stop_def e_def kernel_envelope_def zero_envelope_def)
  ultimately show ?case unfolding step
    by (intro exI [of _ "ToSkill (hp_to h) e QoSReliable # xs"]) (simp add: t_def)
qed simp

lemma cancel_step:
  assumes "ev_kind c = KindCancel" "chain_of s c \<noteq> []" "Route n w c s = Some s1"
  shows "\<exists>xs. sn_sent s1 = sn_sent s @ xs \<and> list_all2 asks_to_stop (snd (in_flight_take (sn_in_flight s) (chain_of s c))) xs
    \<and> sn_cancelled s1 = cancelled_add (sn_cancelled s) (chain_of s c)"
proof -
  obtain m where m: "n = Suc m" using assms(3) by (cases n) auto
  obtain f hops where f: "in_flight_take (sn_in_flight s) (chain_of s c) = (f, hops)" by fastforce
  define t where "t = (append_event w c s)\<lparr>sn_cancelled := cancelled_add (sn_cancelled s) (chain_of s c), sn_in_flight := f\<rparr>"
  have "s1 = ask_to_stop w hops t"
    using assms f by (simp add: m route_step_def Let_def handleCancel_def chain_of_def t_def append_event_def)
  with ask_to_stop_sends [of w hops t] f show ?thesis by (simp add: t_def append_event_def)
qed

text \<open>C8: The first cancel of a chain tells every hop that is still in flight for it to stop, once; from then on,
  until as many other chains have been cancelled as the session remembers, whatever still comes in for
  the chain and is neither a cancel nor an answer to a gate is logged and goes nowhere: nothing is sent,
  held, sealed or charged for it. Answers are not covered: an approval given after the cancel still
  delivers the effect that was held.\<close>

theorem cancel_silences_chain:
  assumes "set_ok (sn_cancelled s)" "ev_kind c = KindCancel" "chain_of s c \<noteq> []" "\<not> cancelled_has (sn_cancelled s) (chain_of s c)"
    "Route n w c s = Some s1" "sn_cancelled t = foldl cancelled_add (sn_cancelled s1) rs" "chain_of s c \<notin> set rs"
    "length rs < bs_max (sn_cancelled s)" "rootOf t env = chain_of s c" "ev_kind env \<notin> {KindCancel, KindConfirmResponse}"
  shows "(\<exists>xs. sn_sent s1 = sn_sent s @ xs \<and> list_all2 asks_to_stop (snd (in_flight_take (sn_in_flight s) (chain_of s c))) xs)
    \<and> (\<exists>t'. Route (Suc m) w env t = Some t' \<and> sn_sent t' = sn_sent t \<and> sn_pending t' = sn_pending t
         \<and> sn_ledger t' = sn_ledger t \<and> sn_db t' = sn_db t \<and> sn_ctx t' = sn_ctx t)"
proof -
  from cancel_step [OF assms(2,3,5)] obtain xs where
    xs: "sn_sent s1 = sn_sent s @ xs" "list_all2 asks_to_stop (snd (in_flight_take (sn_in_flight s) (chain_of s c))) xs"
    and c: "sn_cancelled s1 = cancelled_add (sn_cancelled s) (chain_of s c)" by blast
  have puts: "cancelled.puts x (map (\<lambda>r. (r, ())) rs) = foldl cancelled_add x rs" for x
    by (induction rs arbitrary: x) simp_all
  have new: "chain_of s c \<notin> set (bs_order (sn_cancelled s))"
    using cancelled.inv_keys [OF assms(1), of "chain_of s c"] assms(4) by simp
  have has: "cancelled_has (sn_cancelled t) (chain_of s c)"
    using cancelled.recent_kept [OF assms(1) _ new, where kas = "map (\<lambda>r. (r, ())) rs"] assms(3,6-8) c
    by (auto simp: puts image_image split: if_splits)
  define v where "v = append_event w env t"
  obtain dd dup where dd: "(if ev_kind env = KindData then Seen (sn_dedup v) (ev_idem env) else (sn_dedup v, False)) = (dd, dup)"
    by fastforce
  have same: "rootOf (v\<lparr>sn_dedup := dd\<rparr>) env = rootOf t env" "sn_cancelled (v\<lparr>sn_dedup := dd\<rparr>) = sn_cancelled t"
    by (simp_all add: v_def rootOf_def append_event_def)
  have "Route (Suc m) w env t = Some (v\<lparr>sn_dedup := dd\<rparr>)"
    unfolding Route.simps route_step_def Let_def v_def [symmetric] dd prod.case same assms(9)
    using assms(10) has by simp
  with xs show ?thesis by (auto simp: v_def append_event_def)
qed

definition toy_cancel :: envelope where
  "toy_cancel = zero_envelope\<lparr>ev_v := ''1'', ev_id := ''x1'', ev_cause_id := ''m1'', ev_session := ''s1'', ev_kind := KindCancel\<rparr>"

theorem cancel_silences_chain_witness:
  "\<exists>s1 t'. Route 1 toy_world toy_cancel (toy_session []) = Some s1 \<and> Route 1 toy_world toy_message s1 = Some t' \<and> sn_sent t' = sn_sent s1"
proof -
  let ?s = "toy_session []"
  have s: "set_ok (sn_cancelled ?s)" "chain_of ?s toy_cancel = ''m1''" "\<not> cancelled_has (sn_cancelled ?s) ''m1''"
      "bs_max (sn_cancelled ?s) = 1024"
    by (simp_all add: toy_session_def fresh_session_def newCancelledSet_def maxCancelled_def set_ok_def fifo_ok_def chain_of_def
        toy_cancel_def zero_envelope_def causal_get_def newCausalIndex_def cancelled_has_def)
  obtain s1 where s1: "Route 1 toy_world toy_cancel ?s = Some s1" using toy_returns by blast
  have kind: "ev_kind toy_cancel = KindCancel" "ev_kind toy_message \<notin> {KindCancel, KindConfirmResponse}"
    by (simp_all add: toy_cancel_def toy_message_def kind_defs)
  have "rootOf s1 toy_message = chain_of ?s toy_cancel"
    using s(2) by (simp add: rootOf_def toy_message_def ClientRef_def)
  from cancel_silences_chain [OF s(1) kind(1) _ _ s1 _ _ _ this kind(2), of "[]" 0] s s1 show ?thesis by auto
qed

section \<open>On record, not sent\<close>

definition late_message :: envelope where
  "late_message = toy_message\<lparr>ev_deadline := 1\<rparr>"

text \<open>The receipt comes before the last look at the deadline: an effect that arrives late is sealed as
  delivered and then dropped, so the ledger vouches for an effect no skill was ever given.\<close>

theorem late_effect_sealed_not_sent:
  "\<exists>s' en. Route 1 toy_world late_message (toy_session []) = Some s' \<and> evidence toy_world s' [en]
     \<and> en_outcome en = ''delivered'' \<and> en_cause en = ev_id late_message \<and> sn_sent s' = []"
proof -
  let ?s = "toy_session []"
  obtain u where u: "Route 1 toy_world late_message ?s = forward (Route 0 toy_world) toy_world late_message (toy_dest []) u"
      "new_node u" "sn_pins u = []" "sn_sent u = []"
  proof
    let ?u = "(append_event toy_world late_message ?s)\<lparr>sn_dedup := fst (Seen (NewDedup 4096) ''k1'')\<rparr>"
    show "new_node ?u" "sn_pins ?u = []" "sn_sent ?u = []"
      by (simp_all add: append_event_def toy_session_def fresh_session_def new_node_def newContextLedger_def toy_graph_def)
    show "Route 1 toy_world late_message ?s = forward (Route 0 toy_world) toy_world late_message (toy_dest []) ?u"
      by (simp add: route_step_def Let_def append_event_def late_message_def toy_message_def zero_envelope_def kind_defs
          toy_session_def fresh_session_def Seen_def NewDedup_def rootOf_def ClientRef_def cancelled_has_def newCancelledSet_def
          recordAttestation_def routes_from_def route_to_def toy_dest_def GateHumanApproval_def split: option.split)
  qed
  obtain v where v: "forward (Route 0 toy_world) toy_world late_message (toy_dest []) u = dispatch toy_world late_message (toy_dest []) v"
      "new_node v" "sn_sent v = []"
    using new_node_forward [OF u(2,3)] u(4) by metis
  have kind: "ev_kind late_message = KindData" "deadlineExpired 5000000 (ev_deadline late_message)"
    by (simp_all add: late_message_def toy_message_def deadlineExpired_def)
  from new_node_dispatch [OF v(2) kind(1), of "[]"] kind(2) u(1) v show ?thesis
    by (auto simp: attested_by_def hop_of_def OutcomeDelivered_def)
qed

end
