(* ===== verification/Wiring_Properties.thy ===== *)
theory Wiring_Properties
  imports Session_Properties
begin

text \<open>
  What holds of a session when \<^verbatim>\<open>NewSession\<close> returns it: its edges are the graph's, checked against the
  manifests and the policy, and its counters and windows are those its log tells of.
\<close>

section \<open>The edges of a session\<close>

text \<open>The destination an edge of the graph becomes.\<close>

definition wired :: "policy \<Rightarrow> string \<Rightarrow> (string \<times> live) list \<Rightarrow> edge \<Rightarrow> dest \<Rightarrow> bool" where
  "wired pol mode resolved e d \<longleftrightarrow>
     (de_ref d, de_port d) = splitEndpoint (eg_to e) \<and> de_from d = eg_from e \<and> de_deadline_ms d = eg_deadline_ms e
     \<and> de_priority d = eg_priority e \<and> de_qos d = (if eg_qos e = [] then QoSReliable else eg_qos e)
     \<and> (if de_ref d = ClientRef then de_skill d = None \<and> de_gate d = eg_gate e \<and> de_speculative d = eg_speculative e
        else (\<exists>l gate auth. al_get resolved (de_ref d) = Some l \<and> de_skill d = Some l
          \<and> IngressSchema (lv_manifest l) (de_port d) = Some (de_schema d)
          \<and> (\<forall>fl sch. fst (splitEndpoint (eg_from e)) \<noteq> ClientRef \<longrightarrow> al_get resolved (fst (splitEndpoint (eg_from e))) = Some fl
               \<longrightarrow> EgressSchema (lv_manifest fl) (snd (splitEndpoint (eg_from e))) = Some sch \<longrightarrow> sch = de_schema d)
          \<and> Authorize pol (mf_capability (lv_manifest l)) gate = Inr auth \<and> de_gate d = au_gate auth \<and> de_waived d = au_waived auth
          \<and> (gate = eg_gate e \<or> mode = ModePublished \<and> eg_gate e = GateNone \<and> gate = [])
          \<and> (mode = ModePublished \<longrightarrow> gate \<noteq> GateNone)
          \<and> (mf_type (lv_manifest l) = TypeMotor \<longrightarrow> \<not> de_speculative d)
          \<and> (de_speculative d \<longleftrightarrow> eg_speculative e \<and> SpeculationAllowed pol)))"

lemma applyPolicy_wired:
  assumes "applyPolicy d pol mode f t = Inr d'" "de_skill d = Some l"
  shows "\<exists>gate auth. Authorize pol (mf_capability (lv_manifest l)) gate = Inr auth
    \<and> d' = d\<lparr>de_speculative := de_speculative d \<and> SpeculationAllowed pol, de_gate := au_gate auth, de_waived := au_waived auth\<rparr>
    \<and> (gate = de_gate d \<or> mode = ModePublished \<and> de_gate d = GateNone \<and> gate = [])
    \<and> (mode = ModePublished \<longrightarrow> gate \<noteq> GateNone) \<and> (mf_type (lv_manifest l) = TypeMotor \<longrightarrow> \<not> de_speculative d')"
proof -
  have upd: "d\<lparr>de_speculative := b\<rparr> = d" if "de_speculative d = b" for b
    using that by (cases d) simp
  define d1 where "d1 = (if de_speculative d \<and> \<not> SpeculationAllowed pol then d\<lparr>de_speculative := False\<rparr> else d)"
  define gate where "gate = (if mode = ModePublished \<and> de_gate d = GateNone then [] else de_gate d)"
  have d1: "d1 = d\<lparr>de_speculative := de_speculative d \<and> SpeculationAllowed pol\<rparr>" "de_gate d1 = de_gate d"
    by (cases "de_speculative d"; cases "SpeculationAllowed pol"; simp add: d1_def upd)+
  obtain auth where auth: "Authorize pol (mf_capability (lv_manifest l)) gate = Inr auth"
      "d' = d1\<lparr>de_gate := au_gate auth, de_waived := au_waived auth\<rparr>"
    and spec: "\<not> (de_speculative d \<and> mf_type (lv_manifest l) = TypeMotor)"
    using assms unfolding applyPolicy_def Let_def assms(2) option.case d1_def [symmetric] d1(2) gate_def [symmetric]
    by (auto split: if_splits sum.splits)
  show ?thesis
    by (rule exI [of _ gate], rule exI [of _ auth]) (use auth spec in \<open>auto simp: d1 gate_def GateNone_def\<close>)
qed

lemma wire_edge_wired:
  assumes "wire_edge pol mode resolved e = Inr d"
  shows "wired pol mode resolved e d"
proof -
  obtain fr fp where f: "splitEndpoint (eg_from e) = (fr, fp)" by fastforce
  obtain tr tp where t: "splitEndpoint (eg_to e) = (tr, tp)" by fastforce
  show ?thesis
  proof (cases "tr = ClientRef")
    case True
    with assms show ?thesis by (auto simp: wire_edge_def Let_def f t wired_def)
  next
    case False
    define d0 where "d0 = \<lparr>de_ref = tr, de_port = tp, de_gate = eg_gate e, de_skill = None, de_waived = False,
      de_schema = [], de_qos = (if eg_qos e = [] then QoSReliable else eg_qos e), de_speculative = eg_speculative e,
      de_deadline_ms = eg_deadline_ms e, de_priority = eg_priority e, de_from = eg_from e\<rparr>"
    obtain l sch where l: "al_get resolved tr = Some l" "IngressSchema (lv_manifest l) tp = Some sch"
      and agree: "\<not> ((if fr = ClientRef then None else case al_get resolved fr of None \<Rightarrow> None | Some fl \<Rightarrow> EgressSchema (lv_manifest fl) fp) \<noteq> None
         \<and> (if fr = ClientRef then None else case al_get resolved fr of None \<Rightarrow> None | Some fl \<Rightarrow> EgressSchema (lv_manifest fl) fp) \<noteq> Some sch)"
      and ap: "applyPolicy (d0\<lparr>de_skill := Some l, de_schema := sch\<rparr>) pol mode (eg_from e) (eg_to e) = Inr d"
      using assms False unfolding wire_edge_def f t prod.case Let_def d0_def [symmetric]
      by (auto split: option.splits if_splits)
    from applyPolicy_wired [OF ap, of l] obtain gate auth where
      g: "Authorize pol (mf_capability (lv_manifest l)) gate = Inr auth"
        "d = d0\<lparr>de_skill := Some l, de_schema := sch, de_speculative := eg_speculative e \<and> SpeculationAllowed pol,
           de_gate := au_gate auth, de_waived := au_waived auth\<rparr>"
        "gate = eg_gate e \<or> mode = ModePublished \<and> eg_gate e = GateNone \<and> gate = []"
        "mode = ModePublished \<longrightarrow> gate \<noteq> GateNone" "mf_type (lv_manifest l) = TypeMotor \<longrightarrow> \<not> de_speculative d"
      by (auto simp: d0_def)
    have "\<forall>fl s'. fr \<noteq> ClientRef \<longrightarrow> al_get resolved fr = Some fl \<longrightarrow> EgressSchema (lv_manifest fl) fp = Some s' \<longrightarrow> s' = sch"
      using agree by auto
    with g l False show ?thesis
      unfolding wired_def t f fst_conv snd_conv
      by (simp add: d0_def) blast
  qed
qed

lemma wire_edges_wired:
  "wire_edges pol mode resolved es routes = Inr routes' \<Longrightarrow>
   (\<exists>ds. list_all2 (wired pol mode resolved) (filter (\<lambda>e. eg_from e = k) es) ds
     \<and> (case al_get routes' k of None \<Rightarrow> [] | Some ds \<Rightarrow> ds) = (case al_get routes k of None \<Rightarrow> [] | Some ds \<Rightarrow> ds) @ ds)"
proof (induction es arbitrary: routes)
  case (Cons e es)
  from Cons.prems obtain d where d: "wire_edge pol mode resolved e = Inr d"
    and r: "wire_edges pol mode resolved es
      (al_put (eg_from e) ((case al_get routes (eg_from e) of None \<Rightarrow> [] | Some ds \<Rightarrow> ds) @ [d]) routes) = Inr routes'"
    by (auto split: sum.splits)
  from Cons.IH [OF r] obtain ds where ds: "list_all2 (wired pol mode resolved) (filter (\<lambda>e. eg_from e = k) es) ds"
    "(case al_get routes' k of None \<Rightarrow> [] | Some ds \<Rightarrow> ds)
      = (case al_get (al_put (eg_from e) ((case al_get routes (eg_from e) of None \<Rightarrow> [] | Some ds \<Rightarrow> ds) @ [d]) routes) k of
           None \<Rightarrow> [] | Some ds \<Rightarrow> ds) @ ds" by blast
  show ?case
  proof (cases "eg_from e = k")
    case True
    with ds wire_edge_wired [OF d] show ?thesis by (intro exI [of _ "d # ds"]) simp
  next
    case False
    with ds show ?thesis by (intro exI [of _ ds]) simp
  qed
qed simp

lemma resolve_nodes_all:
  "resolve_nodes pol ns reg res = (reg', Inr out) \<Longrightarrow>
   (\<forall>n \<in> set ns. al_get out (no_ref n) \<noteq> None) \<and> (\<forall>k. al_get res k \<noteq> None \<longrightarrow> al_get out k \<noteq> None)"
proof (induction ns arbitrary: reg res)
  case (Cons n ns)
  then obtain l reg1 where l: "resolve_nodes pol ns reg1 (al_put (no_ref n) l res) = (reg', Inr out)"
    by (auto split: prod.splits sum.splits)
  from Cons.IH [OF this] show ?case by auto
qed simp

section \<open>Resuming leaves the wiring alone\<close>

lemma replay_routes: "sn_routes (rp_session (replay_event dests env r)) = sn_routes (rp_session r)"
  by (simp add: replay_event_def replay_hop_def replay_kind_def Let_def split: option.split)

lemma replay_all_routes: "sn_routes (rp_session (fold (replay_event dests) es r)) = sn_routes (rp_session r)"
  by (induction es arbitrary: r) (simp_all add: replay_routes)

lemma replay_gates_same:
  "sn_routes (fold (replay_gate byID) as s) = sn_routes s \<and> sn_seq (fold (replay_gate byID) as s) = sn_seq s
   \<and> sn_dedup (fold (replay_gate byID) as s) = sn_dedup s"
proof (induction as arbitrary: s)
  case (Cons a as)
  have "sn_routes (replay_gate byID a s) = sn_routes s \<and> sn_seq (replay_gate byID a s) = sn_seq s \<and> sn_dedup (replay_gate byID a s) = sn_dedup s"
    by (simp add: replay_gate_def Let_def split: option.split)
  with Cons.IH [of "replay_gate byID a s"] show ?case by simp
qed simp

lemma resume_routes: "sn_routes (resumeFromLog s) = sn_routes s"
  by (simp add: resumeFromLog_def Let_def replay_gates_same replay_all_routes)

text \<open>C7: In a session that \<^verbatim>\<open>NewSession\<close> returns, the destinations of a port are exactly the edges the
  graph has from that port, in the graph's order, each resolved and typed: an edge into a node carries
  the schema that the node's skill takes on that port, which is what the skill before it emits; the gate
  is the one the policy authorizes for the capability, and on a published node a graph's waiver of it is
  not heard; an edge into a motor skill is never speculative.\<close>

theorem session_is_well_wired:
  assumes "NewSession io readable i g reg db events mode pol ldg undoOf = (reg', Inr s)"
  shows "\<exists>resolved. (\<forall>n \<in> set (gr_nodes g). al_get resolved (no_ref n) \<noteq> None)
    \<and> (\<forall>k. list_all2 (wired pol mode resolved) (filter (\<lambda>e. eg_from e = k) (gr_edges g)) (routes_from s k))"
proof -
  from assms obtain resolved routes where r: "resolve_nodes pol (gr_nodes g) reg [] = (reg', Inr resolved)"
    and w: "wire_edges pol mode resolved (gr_edges g) [] = Inr routes"
    and s: "s = resumeFromLog (fresh_session i g pol ldg db events undoOf routes)"
    by (auto simp: NewSession_def split: prod.splits sum.splits option.splits if_splits)
  have "sn_routes s = routes" by (simp add: s resume_routes fresh_session_def)
  with wire_edges_wired [OF w] resolve_nodes_all [OF r] show ?thesis
    by (intro exI [of _ resolved]) (simp add: routes_from_def)
qed

lemma toy_policy_allows: "Decide plain_policy ''motor.erp.pay'' = (DecisionGate, DefaultEffect, None)"
  by (simp add: Decide_def plain_policy_def isEffect_def TypeMotor_def has_prefix_def)

definition one_skill :: registry where
  "one_skill = \<lparr>rg_by_conn = [(''c1'', toy_live ''c1'' 3)], rg_rr = []\<rparr>"

lemma one_live: "live_of (answering [] ''motor.erp.pay'') one_skill = [toy_live ''c1'' 3]"
  by code_simp

lemma toy_resolved: "snd (resolve_nodes plain_policy (gr_nodes toy_graph) one_skill []) = Inr [(''pay'', toy_live ''c1'' 3)]"
  by (simp add: toy_graph_def RouteFor_def plain_policy_def ResolvePreferred_def Resolve_live one_live pick_def Let_def)

lemma toy_wired: "\<exists>routes. wire_edges plain_policy ''dev'' [(''pay'', toy_live ''c1'' 3)] (gr_edges toy_graph) [] = Inr routes"
  by (simp add: toy_graph_def wire_edge_def splitEndpoint_def ClientRef_def toy_live_def toy_manifest_def IngressSchema_def Let_def
      applyPolicy_def ModePublished_def Authorize_def toy_policy_allows DecisionGate_def DecisionDeny_def GateHumanApproval_def GateNone_def)

lemma toy_new_session: "\<exists>reg s. NewSession (\<lambda>_. False) True ''s1'' toy_graph one_skill empty_db [] ''dev'' plain_policy None [] = (reg, Inr s)"
  using toy_resolved toy_wired
  by (cases "resolve_nodes plain_policy (gr_nodes toy_graph) one_skill []") (auto simp: NewSession_def)

theorem session_is_well_wired_witness:
  "\<exists>reg s resolved. NewSession (\<lambda>_. False) True ''s1'' toy_graph one_skill empty_db [] ''dev'' plain_policy None [] = (reg, Inr s)
    \<and> list_all2 (wired plain_policy ''dev'' resolved) (gr_edges toy_graph) (routes_from s ''client.out'')"
proof -
  obtain reg s where s: "NewSession (\<lambda>_. False) True ''s1'' toy_graph one_skill empty_db [] ''dev'' plain_policy None [] = (reg, Inr s)"
    using toy_new_session by blast
  obtain resolved where "\<forall>k. list_all2 (wired plain_policy ''dev'' resolved) (filter (\<lambda>e. eg_from e = k) (gr_edges toy_graph)) (routes_from s k)"
    using session_is_well_wired [OF s] by blast
  from this [rule_format, of "''client.out''"] s show ?thesis by (auto simp: toy_graph_def)
qed

section \<open>Counters\<close>

definition hop_port :: "envelope \<Rightarrow> string" where
  "hop_port e = ev_node e @ ''.'' @ ev_port e"

lemma replay_kind_seq: "rp_max_seq (replay_kind env r) = rp_max_seq r \<and> sn_seq (rp_session (replay_kind env r)) = sn_seq (rp_session r)"
  by (simp add: replay_kind_def Let_def)

definition highest :: "(string \<times> nat) list \<Rightarrow> string \<Rightarrow> nat" where
  "highest m k = (case al_get m k of None \<Rightarrow> 0 | Some n \<Rightarrow> n)"

lemma replay_event_seq:
  "highest (rp_max_seq (replay_event dests env r)) k =
     (if al_get dests k \<noteq> None \<and> hop_port env = k then max (highest (rp_max_seq r) k) (ev_seq env) else highest (rp_max_seq r) k)
   \<and> sn_seq (rp_session (replay_event dests env r)) = sn_seq (rp_session r)"
proof (cases "al_get dests (hop_port env)")
  case None
  then show ?thesis by (auto simp: replay_event_def replay_hop_def Let_def replay_kind_seq hop_port_def)
next
  case (Some d)
  have "highest (if ev_seq env > highest m (hop_port env) then al_put (hop_port env) (ev_seq env) m else m) k
      = (if hop_port env = k then max (highest m k) (ev_seq env) else highest m k)" for m
    by (auto simp: highest_def)
  with Some show ?thesis
    by (auto simp: replay_event_def replay_hop_def Let_def replay_kind_seq hop_port_def highest_def)
qed

lemma replay_all_seq:
  "highest (rp_max_seq (fold (replay_event dests) es r)) k =
     (if al_get dests k = None then highest (rp_max_seq r) k
      else foldl max (highest (rp_max_seq r) k) (map ev_seq (filter (\<lambda>e. hop_port e = k) es)))
   \<and> sn_seq (rp_session (fold (replay_event dests) es r)) = sn_seq (rp_session r)"
  by (induction es arbitrary: r) (simp_all add: replay_event_seq)

text \<open>Both what is read and what is put keep one entry for each key.\<close>

lemma put_all_get:
  "distinct (map fst kns) \<Longrightarrow> al_get (fold (\<lambda>(k, n) m. al_put k n m) kns m) k = (case al_get kns k of None \<Rightarrow> al_get m k | Some n \<Rightarrow> Some n)"
proof (induction kns arbitrary: m)
  case (Cons kn kns)
  obtain k' n where kn: "kn = (k', n)" by (cases kn)
  have "al_get kns k' = None" using Cons.prems by (simp add: kn al_get_None_iff image_iff)
  with Cons show ?case by (auto simp: kn split: option.split)
qed simp

lemma replay_event_distinct: "distinct (map fst (rp_max_seq r)) \<Longrightarrow> distinct (map fst (rp_max_seq (replay_event dests env r)))"
  by (auto simp: replay_event_def replay_hop_def Let_def replay_kind_seq keys_put image_iff split: option.split)

lemma replay_all_distinct: "distinct (map fst (rp_max_seq r)) \<Longrightarrow> distinct (map fst (rp_max_seq (fold (replay_event dests) es r)))"
  by (induction es arbitrary: r) (simp_all add: replay_event_distinct)

text \<open>Every destination of a session is found under its port.\<close>

lemma dests_keep: "al_get m k \<noteq> None \<Longrightarrow> al_get (fold (\<lambda>d m. al_put (dest_key d) d m) ds m) k \<noteq> None"
  by (induction ds arbitrary: m) auto

lemma dests_has: "d \<in> set ds \<Longrightarrow> al_get (fold (\<lambda>d m. al_put (dest_key d) d m) ds m) (dest_key d) \<noteq> None"
proof (induction ds arbitrary: m)
  case (Cons d' ds)
  show ?case
  proof (cases "d = d'")
    case True
    then show ?thesis using dests_keep [of "al_put (dest_key d) d m" "dest_key d" ds] by simp
  next
    case False
    with Cons show ?thesis by simp
  qed
qed simp

lemma all_dests_keep:
  "al_get m k \<noteq> None \<Longrightarrow> al_get (fold (\<lambda>(_, ds) m. fold (\<lambda>d m. al_put (dest_key d) d m) ds m) routes m) k \<noteq> None"
proof (induction routes arbitrary: m)
  case (Cons r rs)
  show ?case by (cases r) (simp add: Cons.IH dests_keep [OF Cons.prems])
qed simp

lemma byDest_all:
  "(key, ds) \<in> set routes \<Longrightarrow> d \<in> set ds
   \<Longrightarrow> al_get (fold (\<lambda>(_, ds) m. fold (\<lambda>d m. al_put (dest_key d) d m) ds m) routes m) (dest_key d) \<noteq> None"
proof (induction routes arbitrary: m)
  case (Cons r rs)
  show ?case
  proof (cases "r = (key, ds)")
    case True
    show ?thesis unfolding True by (simp add: all_dests_keep dests_has [OF Cons.prems(2)])
  next
    case False
    with Cons.prems(1) have "(key, ds) \<in> set rs" by simp
    from Cons.IH [OF this Cons.prems(2)] show ?thesis by (cases r) simp
  qed
qed simp

lemma byDest_has: "d \<in> set (case al_get routes key of None \<Rightarrow> [] | Some ds \<Rightarrow> ds) \<Longrightarrow> al_get (byDest routes) (dest_key d) \<noteq> None"
  unfolding byDest_def by (rule byDest_all [of key "case al_get routes key of None \<Rightarrow> [] | Some ds \<Rightarrow> ds"])
    (auto split: option.splits dest: al_get_SomeD)

lemma foldl_max_Max: "foldl max a ns = Max (insert a (set ns))" for a :: nat
proof (induction ns arbitrary: a)
  case (Cons n ns)
  have "insert (max a n) (set ns) = {max a n} \<union> set ns" "insert a (set (n # ns)) = {a, n} \<union> set ns" by auto
  then show ?case using Cons.IH [of "max a n"] by (cases "set ns = {}") (simp_all add: Max_Un max.assoc)
qed simp

lemma resumed_seq:
  assumes "sn_seq s = []"
  shows "hop_seq (resumeFromLog s) k =
    (if al_get (byDest (sn_routes s)) k = None then 0
     else Max (insert 0 (ev_seq ` {e \<in> set (take 1000 (sn_log s)). hop_port e = k})))"
proof (cases "SessionEvents 0 (sn_log s) = []")
  case True
  then show ?thesis using assms by (auto simp: resumeFromLog_def Let_def hop_seq_def SessionEvents_def)
next
  case False
  define r where "r = fold (replay_event (byDest (sn_routes s))) (SessionEvents 0 (sn_log s))
    \<lparr>rp_session = s, rp_by_id = [], rp_asked = [], rp_max_seq = []\<rparr>"
  have d: "distinct (map fst (rp_max_seq r))" unfolding r_def by (rule replay_all_distinct) simp
  have h: "highest (rp_max_seq r) k = (if al_get (byDest (sn_routes s)) k = None then 0
      else Max (insert 0 (ev_seq ` {e \<in> set (take 1000 (sn_log s)). hop_port e = k})))"
    and q: "sn_seq (rp_session r) = []"
    using replay_all_seq [of "byDest (sn_routes s)" "SessionEvents 0 (sn_log s)" _ k] assms
    by (simp_all add: r_def highest_def SessionEvents_def foldl_max_Max)
  have "hop_seq (resumeFromLog s) k = highest (rp_max_seq r) k"
    using False put_all_get [OF d, of "[]" k] q
    by (simp add: resumeFromLog_def Let_def r_def [symmetric] hop_seq_def replay_gates_same highest_def split: option.split)
  with h show ?thesis by simp
qed

text \<open>The sequence counter of every hop of a session that \<^verbatim>\<open>NewSession\<close> returns stands at the
  highest number that the first thousand events of the log under its id carry on that hop, so what it
  sends next is numbered above all of these; a session without a log starts at zero.\<close>

theorem resume_restores_counters:
  assumes "NewSession io readable i g reg db events mode pol ldg undoOf = (reg', Inr s)"
    "d \<in> set (routes_from s key)" "e \<in> set (take 1000 events)" "hop_port e = dest_key d"
  shows "ev_seq e \<le> hop_seq s (dest_key d)
    \<and> (hop_seq s (dest_key d) = 0 \<or> (\<exists>e' \<in> set (take 1000 events). hop_port e' = dest_key d \<and> ev_seq e' = hop_seq s (dest_key d)))"
proof -
  from assms(1) obtain routes where s: "s = resumeFromLog (fresh_session i g pol ldg db events undoOf routes)"
    by (auto simp: NewSession_def split: prod.splits sum.splits option.splits if_splits)
  let ?f = "fresh_session i g pol ldg db events undoOf routes"
  let ?N = "insert 0 (ev_seq ` {e \<in> set (take 1000 events). hop_port e = dest_key d})"
  have has: "al_get (byDest (sn_routes ?f)) (dest_key d) \<noteq> None"
    using assms(2) by (simp add: s resume_routes routes_from_def byDest_has)
  have f: "sn_seq ?f = []" "sn_log ?f = events" by (simp_all add: fresh_session_def)
  have "hop_seq s (dest_key d) = Max ?N"
    unfolding s resumed_seq [OF f(1)] f(2) using has by (rule if_not_P)
  moreover have "finite ?N" by simp
  moreover have "ev_seq e \<in> ?N" using assms(3,4) by auto
  moreover have "Max ?N \<in> ?N" by (rule Max_in) simp_all
  ultimately show ?thesis by (auto intro!: Max_ge)
qed

definition logged_event :: envelope where
  "logged_event = toy_message\<lparr>ev_node := ''pay'', ev_port := ''in'', ev_seq := 7\<rparr>"

lemma toy_resumed: "\<exists>reg s d. NewSession (\<lambda>_. False) True ''s1'' toy_graph one_skill empty_db [logged_event] ''dev'' plain_policy None [] = (reg, Inr s)
  \<and> d \<in> set (routes_from s ''client.out'') \<and> dest_key d = ''pay.in''"
proof -
  obtain routes where w: "wire_edges plain_policy ''dev'' [(''pay'', toy_live ''c1'' 3)] (gr_edges toy_graph) [] = Inr routes"
    using toy_wired by blast
  let ?s = "resumeFromLog (fresh_session ''s1'' toy_graph plain_policy None empty_db [logged_event] [] routes)"
  obtain reg where n: "NewSession (\<lambda>_. False) True ''s1'' toy_graph one_skill empty_db [logged_event] ''dev'' plain_policy None [] = (reg, Inr ?s)"
    using toy_resolved w by (cases "resolve_nodes plain_policy (gr_nodes toy_graph) one_skill []") (auto simp: NewSession_def)
  obtain d where "al_get routes ''client.out'' = Some [d]" "dest_key d = ''pay.in''"
    using wire_edges_wired [OF w, of "''client.out''"]
    by (auto simp: toy_graph_def list_all2_Cons1 wired_def splitEndpoint_def dest_key_def split: option.splits)
  with n show ?thesis by (force simp: routes_from_def resume_routes fresh_session_def)
qed

theorem resume_restores_counters_witness:
  "\<exists>reg s. NewSession (\<lambda>_. False) True ''s1'' toy_graph one_skill empty_db [logged_event] ''dev'' plain_policy None [] = (reg, Inr s)
    \<and> hop_seq s ''pay.in'' = 7"
proof -
  obtain reg s d where s: "NewSession (\<lambda>_. False) True ''s1'' toy_graph one_skill empty_db [logged_event] ''dev'' plain_policy None [] = (reg, Inr s)"
      "d \<in> set (routes_from s ''client.out'')" "dest_key d = ''pay.in''" using toy_resumed by blast
  have p: "hop_port logged_event = dest_key d" using s(3) by (simp add: hop_port_def logged_event_def)
  have seven: "ev_seq logged_event = 7" by (simp add: logged_event_def)
  have "7 \<le> hop_seq s (dest_key d) \<and> (hop_seq s (dest_key d) = 0 \<or> hop_seq s (dest_key d) = 7)"
    using resume_restores_counters [OF s(1,2) _ p] seven by auto
  with s show ?thesis by auto
qed

section \<open>The window of what has been seen\<close>

definition seen_key :: "envelope \<Rightarrow> bool" where
  "seen_key e \<longleftrightarrow> ev_kind e = KindData \<and> ev_idem e \<noteq> []"

lemma replay_event_dedup:
  "sn_dedup (rp_session (replay_event dests e r)) =
     (if seen_key e then cancelled_add (sn_dedup (rp_session r)) (ev_idem e) else sn_dedup (rp_session r))"
  by (simp add: replay_event_def replay_hop_def replay_kind_def Let_def seen_key_def Seen_eq kind_defs split: option.split)

lemma replay_all_dedup:
  "sn_dedup (rp_session (fold (replay_event dests) es r)) = foldl cancelled_add (sn_dedup (rp_session r)) (map ev_idem (filter seen_key es))"
  by (induction es arbitrary: r) (simp_all add: replay_event_dedup)

text \<open>A set that has room for them holds all keys that are added.\<close>

lemma add_all_room:
  "set_ok c \<Longrightarrow> length (bs_order c) + length ks \<le> bs_max c \<Longrightarrow> [] \<notin> set ks \<Longrightarrow>
     set_ok (foldl cancelled_add c ks) \<and> set (bs_order (foldl cancelled_add c ks)) = set (bs_order c) \<union> set ks"
proof (induction ks arbitrary: c)
  case (Cons k ks)
  have "bs_order (cancelled_add c k) = (if k \<in> set (bs_order c) then bs_order c else bs_order c @ [k])"
    using cancelled.put_order [OF Cons.prems(1), of k] Cons.prems(2,3) by auto
  moreover have "set_ok (cancelled_add c k)" "bs_max (cancelled_add c k) = bs_max c"
    using cancelled.put_inv [OF Cons.prems(1)] cancelled.put_cap by simp_all
  ultimately show ?case using Cons.IH [of "cancelled_add c k"] Cons.prems(2,3) by (auto split: if_splits)
qed simp

lemma resumed_seen:
  assumes "sn_dedup s = NewDedup 4096" "e \<in> set (take 1000 (sn_log s))" "seen_key e"
  shows "cancelled_has (sn_dedup (resumeFromLog s)) (ev_idem e)"
proof -
  let ?es = "SessionEvents 0 (sn_log s)"
  let ?ks = "map ev_idem (filter seen_key ?es)"
  have "length ?ks \<le> length ?es" by (simp add: length_filter_le)
  moreover have "length ?es \<le> 1000" by (simp add: SessionEvents_def)
  ultimately have few: "length ?ks \<le> 4096" by linarith
  have "set_ok (NewDedup 4096)" by (simp add: set_ok_def fifo_ok_def NewDedup_def)
  moreover have "length (bs_order (NewDedup 4096)) + length ?ks \<le> bs_max (NewDedup 4096)" "bs_order (NewDedup 4096) = []"
    using few by (simp_all add: NewDedup_def)
  moreover have "[] \<notin> set ?ks" by (auto simp: seen_key_def)
  ultimately have ok: "set_ok (foldl cancelled_add (NewDedup 4096) ?ks)" "set (bs_order (foldl cancelled_add (NewDedup 4096) ?ks)) = set ?ks"
    using add_all_room [of "NewDedup 4096" ?ks] by simp_all
  have "?es \<noteq> []" "ev_idem e \<in> set ?ks" using assms(2,3) by (auto simp: SessionEvents_def)
  then show ?thesis
    using cancelled.inv_keys [OF ok(1), of "ev_idem e"] ok(2) assms(1)
    by (simp add: resumeFromLog_def Let_def replay_gates_same replay_all_dedup split: if_splits)
qed

text \<open>A session that \<^verbatim>\<open>NewSession\<close> returns knows the idempotency keys of the data among the first
  thousand events of its log: a message that comes again after a restart is logged and goes nowhere, so
  nothing is sent or sealed for it twice.\<close>

theorem resumed_session_drops_repeats:
  assumes "NewSession io readable i g reg db events mode pol ldg undoOf = (reg', Inr s)"
    "e \<in> set (take 1000 events)" "ev_kind e = KindData" "ev_idem e \<noteq> []" "ev_kind m = KindData" "ev_idem m = ev_idem e"
  shows "\<exists>t. Route (Suc n) w m s = Some t \<and> sn_sent t = sn_sent s \<and> sn_pending t = sn_pending s \<and> sn_ledger t = sn_ledger s \<and> sn_db t = sn_db s"
proof -
  from assms(1) obtain routes where s: "s = resumeFromLog (fresh_session i g pol ldg db events undoOf routes)"
    by (auto simp: NewSession_def split: prod.splits sum.splits option.splits if_splits)
  have "cancelled_has (sn_dedup s) (ev_idem e)"
    unfolding s by (rule resumed_seen) (use assms(2-4) in \<open>simp_all add: fresh_session_def seen_key_def\<close>)
  then have "snd (Seen (sn_dedup (append_event w m s)) (ev_idem m))" by (simp add: Seen_eq append_event_def assms(6))
  then obtain dd where dd: "Seen (sn_dedup (append_event w m s)) (ev_idem m) = (dd, True)"
    by (cases "Seen (sn_dedup (append_event w m s)) (ev_idem m)") simp
  have "Route (Suc n) w m s = Some ((append_event w m s)\<lparr>sn_dedup := dd\<rparr>)"
    using assms(5) by (simp add: route_step_def Let_def dd kind_defs)
  then show ?thesis by (simp add: append_event_def)
qed

theorem resumed_session_drops_repeats_witness:
  "\<exists>reg s t. NewSession (\<lambda>_. False) True ''s1'' toy_graph one_skill empty_db [logged_event] ''dev'' plain_policy None [] = (reg, Inr s)
    \<and> Route 1 toy_world toy_message s = Some t \<and> sn_sent t = sn_sent s"
proof -
  obtain reg s where s: "NewSession (\<lambda>_. False) True ''s1'' toy_graph one_skill empty_db [logged_event] ''dev'' plain_policy None [] = (reg, Inr s)"
    using toy_resumed by blast
  have m: "ev_kind logged_event = KindData" "ev_idem logged_event \<noteq> []" "ev_kind toy_message = KindData" "ev_idem toy_message = ev_idem logged_event"
    by (simp_all add: logged_event_def toy_message_def)
  have "logged_event \<in> set (take 1000 [logged_event])" by simp
  from resumed_session_drops_repeats [OF s this m, of 0 toy_world] s show ?thesis by auto
qed

section \<open>What is not read back\<close>

definition with_log :: "envelope list \<Rightarrow> replay \<Rightarrow> replay" where
  "with_log l r = r\<lparr>rp_session := (rp_session r)\<lparr>sn_log := l\<rparr>\<rparr>"

definition take_in :: "envelope \<Rightarrow> replay \<Rightarrow> replay" where
  "take_in e r = r\<lparr>rp_by_id := al_put (ev_id e) e (rp_by_id r),
     rp_session := (if rootOf (rp_session r) e \<noteq> []
       then (rp_session r)\<lparr>sn_causal := causal_set (sn_causal (rp_session r)) (ev_id e) (rootOf (rp_session r) e)\<rparr> else rp_session r)\<rparr>"

lemma replay_event_take_in: "replay_event dests e r = replay_kind e (replay_hop dests (rootOf (rp_session r) e) e (take_in e r))"
  by (simp add: replay_event_def Let_def take_in_def)

lemma replay_event_log: "replay_event dests e (with_log l r) = with_log l (replay_event dests e r)"
proof -
  have root: "rootOf (rp_session (with_log l r)) e = rootOf (rp_session r) e" by (simp add: rootOf_def with_log_def)
  have "take_in e (with_log l r) = with_log l (take_in e r)" unfolding take_in_def root by (simp add: with_log_def)
  moreover have "replay_hop dests rt e (with_log l r') = with_log l (replay_hop dests rt e r')" for rt r'
    by (simp add: replay_hop_def with_log_def Let_def split: option.split)
  moreover have "replay_kind e (with_log l r') = with_log l (replay_kind e r')" for r'
    by (simp add: replay_kind_def with_log_def Let_def split: option.split)
  ultimately show ?thesis by (simp only: replay_event_take_in root)
qed

lemma replay_all_log: "fold (replay_event dests) es (with_log l r) = with_log l (fold (replay_event dests) es r)"
  by (induction es arbitrary: r) (simp_all add: replay_event_log)

lemma replay_gates_log: "fold (replay_gate byID) as (s\<lparr>sn_log := l\<rparr>) = (fold (replay_gate byID) as s)\<lparr>sn_log := l\<rparr>"
proof (induction as arbitrary: s)
  case (Cons a as)
  have "replay_gate byID a (s\<lparr>sn_log := l\<rparr>) = (replay_gate byID a s)\<lparr>sn_log := l\<rparr>"
    by (simp add: replay_gate_def Let_def routes_from_def split: option.split)
  with Cons.IH [of "replay_gate byID a s"] show ?case by simp
qed simp

text \<open>Whatever the log of a session holds beyond its first thousand events, resuming it does not
  notice: the session comes back as it was after these, with the counters, the cancelled chains, the open
  requests and the keys of then.\<close>

theorem resume_stops_at_thousand:
  assumes "length xs = 1000" "sn_log s = xs"
  shows "resumeFromLog (s\<lparr>sn_log := xs @ ys\<rparr>) = (resumeFromLog s)\<lparr>sn_log := xs @ ys\<rparr>"
proof -
  have ev: "SessionEvents 0 (xs @ ys) = xs" "SessionEvents 0 xs = xs" "xs \<noteq> []" using assms(1) by (auto simp: SessionEvents_def)
  define r where "r = fold (replay_event (byDest (sn_routes s))) xs \<lparr>rp_session = s, rp_by_id = [], rp_asked = [], rp_max_seq = []\<rparr>"
  define u where "u = (rp_session r)\<lparr>sn_seq := fold (\<lambda>(k, n) m. al_put k n m) (rp_max_seq r) (sn_seq (rp_session r))\<rparr>"
  have "\<lparr>rp_session = s\<lparr>sn_log := xs @ ys\<rparr>, rp_by_id = [], rp_asked = [], rp_max_seq = []\<rparr>
      = with_log (xs @ ys) \<lparr>rp_session = s, rp_by_id = [], rp_asked = [], rp_max_seq = []\<rparr>" by (simp add: with_log_def)
  moreover have swap: "(rp_session r)\<lparr>sn_seq := q, sn_log := l\<rparr> = (rp_session r)\<lparr>sn_log := l, sn_seq := q\<rparr>" for q l
    by (cases "rp_session r") simp
  ultimately have "resumeFromLog (s\<lparr>sn_log := xs @ ys\<rparr>) = fold (replay_gate (rp_by_id r)) (rp_asked r) (u\<lparr>sn_log := xs @ ys\<rparr>)"
    using ev by (simp add: resumeFromLog_def Let_def replay_all_log r_def [symmetric]) (simp add: with_log_def u_def swap)
  moreover have "resumeFromLog s = fold (replay_gate (rp_by_id r)) (rp_asked r) u"
    using ev assms(2) by (simp add: resumeFromLog_def Let_def r_def [symmetric] u_def)
  ultimately show ?thesis by (simp only: replay_gates_log)
qed

theorem resume_stops_at_thousand_witness:
  "resumeFromLog ((toy_session [])\<lparr>sn_log := replicate 1000 logged_event @ [toy_message]\<rparr>)
    = (resumeFromLog ((toy_session [])\<lparr>sn_log := replicate 1000 logged_event\<rparr>))\<lparr>sn_log := replicate 1000 logged_event @ [toy_message]\<rparr>"
  using resume_stops_at_thousand [of "replicate 1000 logged_event" "(toy_session [])\<lparr>sn_log := replicate 1000 logged_event\<rparr>" "[toy_message]"]
  by simp

end
