(* ===== verification/Lease.thy ===== *)
theory Lease
  imports Ledger
begin

text \<open>
  \<^verbatim>\<open>kernel/internal/lease/lease.go\<close>: the lease that says which process may write a data directory. The
  table has one row; \<open>io k\<close> says whether the \<open>k\<close>-th database call of an operation fails, a time is in
  nanoseconds and the table's are in milliseconds. A process is its \<^verbatim>\<open>Holder\<close>; the nodes sharing a
  directory are a step relation over the row, the holders and one clock.
\<close>

definition DefaultTTL :: int where "DefaultTTL = 10 * 1000000000"
definition renewDivisor :: int where "renewDivisor = 3"

record lease_row =
  ls_holder :: string
  ls_since :: int
  ls_heartbeat :: int
  ls_ttl_ms :: int

record holder =
  ho_id :: string
  ho_ttl :: int
  ho_since :: int
  ho_stopped :: bool
  ho_lost :: bool

datatype lease_error = LeaseNotPrepared | LeaseNotTaken | ErrHeld "lease_row option" | ErrHeldUnread

section \<open>The operations\<close>

definition Current :: "bool \<Rightarrow> lease_row option \<Rightarrow> lease_row option option" where
  "Current fault row = (if fault then None else Some row)"

text \<open>The one statement of \<^verbatim>\<open>Acquire\<close>: insert, or take over a row whose holder has gone stale by the
  grace it declared itself. The result is the row and whether it was changed.\<close>

definition take_row :: "string \<Rightarrow> int \<Rightarrow> int \<Rightarrow> lease_row option \<Rightarrow> lease_row option \<times> bool" where
  "take_row i nowMS ttl row =
     (let mine = \<lparr>ls_holder = i, ls_since = nowMS, ls_heartbeat = nowMS, ls_ttl_ms = ttl div 1000000\<rparr> in
      case row of
        None \<Rightarrow> (Some mine, True)
      | Some r \<Rightarrow> if nowMS - ls_heartbeat r \<ge> ls_ttl_ms r then (Some mine, True) else (Some r, False))"

definition Acquire ::
  "(nat \<Rightarrow> bool) \<Rightarrow> string \<Rightarrow> int \<Rightarrow> int \<Rightarrow> lease_row option \<Rightarrow> lease_row option \<times> (lease_error + holder)" where
  "Acquire io i now ttl row =
     (let ttl = (if ttl \<le> 0 then DefaultTTL else ttl) in
      if io 0 then (row, Inl LeaseNotPrepared)
      else if io 1 then (row, Inl LeaseNotTaken)
      else (case take_row i (unix_milli now) ttl row of
              (row, True) \<Rightarrow> (row, Inr \<lparr>ho_id = i, ho_ttl = ttl, ho_since = now, ho_stopped = False, ho_lost = False\<rparr>)
            | (row, False) \<Rightarrow>
                (row, Inl (case Current (io 2) row of None \<Rightarrow> ErrHeldUnread | Some r \<Rightarrow> ErrHeld r))))"

definition is_held :: "lease_error \<Rightarrow> bool" where
  "is_held e \<longleftrightarrow> (case e of ErrHeld _ \<Rightarrow> True | ErrHeldUnread \<Rightarrow> True | _ \<Rightarrow> False)"

text \<open>\<^verbatim>\<open>beat\<close> renews; the \<^verbatim>\<open>WHERE\<close> clause is the fence.\<close>

definition beat :: "bool \<Rightarrow> int \<Rightarrow> string \<Rightarrow> lease_row option \<Rightarrow> lease_row option \<times> bool option" where
  "beat fault now i row =
     (if fault then (row, None)
      else (case row of
              None \<Rightarrow> (None, Some False)
            | Some r \<Rightarrow> if ls_holder r = i then (Some (r\<lparr>ls_heartbeat := unix_milli now\<rparr>), Some True) else (Some r, Some False)))"

text \<open>One tick of the goroutine \<^verbatim>\<open>renew\<close>, which has returned once the lease is released or lost.\<close>

definition renew_tick :: "bool \<Rightarrow> int \<Rightarrow> holder \<times> lease_row option \<Rightarrow> holder \<times> lease_row option" where
  "renew_tick fault now s =
     (let (h, row) = s in
      if ho_stopped h \<or> ho_lost h then s
      else (case beat fault now (ho_id h) row of
              (row, None) \<Rightarrow> (h, row)
            | (row, Some True) \<Rightarrow> (h, row)
            | (row, Some False) \<Rightarrow> (h\<lparr>ho_lost := True\<rparr>, row)))"

definition Release :: "bool \<Rightarrow> holder \<times> lease_row option \<Rightarrow> (holder \<times> lease_row option) \<times> bool" where
  "Release fault s =
     (let (h, row) = s in
      if ho_stopped h then (s, True)
      else if fault then ((h\<lparr>ho_stopped := True\<rparr>, row), False)
      else ((h\<lparr>ho_stopped := True\<rparr>,
             (case row of None \<Rightarrow> None | Some r \<Rightarrow> if ls_holder r = ho_id h then None else Some r)), True))"

section \<open>Waiting for the lease\<close>

text \<open>\<^verbatim>\<open>AcquireWaiting\<close> tries again every 250 ms. What the other processes do to the row meanwhile, the
  clock and the failures are functions of the attempt; \<open>None\<close> is that the fuel did not last.\<close>

record attempt =
  am_io :: "nat \<Rightarrow> bool"
  am_id :: string
  am_now :: int
  am_elapsed :: int
  am_row :: "lease_row option \<Rightarrow> lease_row option"

datatype wait_error = WaitFailed lease_error | StillHeld lease_error

fun acquire_wait ::
  "nat \<Rightarrow> (nat \<Rightarrow> attempt) \<Rightarrow> nat \<Rightarrow> int \<Rightarrow> int \<Rightarrow> lease_row option \<Rightarrow> (lease_row option \<times> (wait_error + holder)) option" where
  "acquire_wait 0 a k ttl maxWait row = None"
| "acquire_wait (Suc n) a k ttl maxWait row =
     (let at = a k in
      case Acquire (am_io at) (am_id at) (am_now at) ttl (am_row at row) of
        (row, Inr h) \<Rightarrow> Some (row, Inr h)
      | (row, Inl e) \<Rightarrow>
          if \<not> is_held e then Some (row, Inl (WaitFailed e))
          else if am_elapsed at \<ge> maxWait then Some (row, Inl (StillHeld e))
          else acquire_wait n a (k + 1) ttl maxWait row)"

definition AcquireWaiting ::
  "nat \<Rightarrow> (nat \<Rightarrow> attempt) \<Rightarrow> int \<Rightarrow> int \<Rightarrow> lease_row option \<Rightarrow> (lease_row option \<times> (wait_error + holder)) option" where
  "AcquireWaiting fuel a ttl maxWait row =
     acquire_wait fuel a 0 (if ttl \<le> 0 then DefaultTTL else ttl) maxWait row"

section \<open>The processes on one directory\<close>

record nodes =
  nd_clock :: int
  nd_row :: "lease_row option"
  nd_holders :: "(string \<times> holder) list"

definition believes :: "nodes \<Rightarrow> string \<Rightarrow> bool" where
  "believes s i \<longleftrightarrow> (case al_get (nd_holders s) i of None \<Rightarrow> False | Some h \<Rightarrow> \<not> ho_stopped h \<and> \<not> ho_lost h)"

inductive lease_step :: "nodes \<Rightarrow> nodes \<Rightarrow> bool" where
  wait: "nd_clock s \<le> t \<Longrightarrow> lease_step s (s\<lparr>nd_clock := t\<rparr>)"
| acquired: "al_get (nd_holders s) i = None \<Longrightarrow> Acquire io i (nd_clock s) ttl (nd_row s) = (row, Inr h)
    \<Longrightarrow> lease_step s (s\<lparr>nd_row := row, nd_holders := al_put i h (nd_holders s)\<rparr>)"
| refused: "Acquire io i (nd_clock s) ttl (nd_row s) = (row, Inl e) \<Longrightarrow> lease_step s (s\<lparr>nd_row := row\<rparr>)"
| renewed: "al_get (nd_holders s) i = Some h \<Longrightarrow> renew_tick fault (nd_clock s) (h, nd_row s) = (h', row)
    \<Longrightarrow> lease_step s (s\<lparr>nd_row := row, nd_holders := al_put i h' (nd_holders s)\<rparr>)"
| released: "al_get (nd_holders s) i = Some h \<Longrightarrow> Release fault (h, nd_row s) = ((h', row), ok)
    \<Longrightarrow> lease_step s (s\<lparr>nd_row := row, nd_holders := al_put i h' (nd_holders s)\<rparr>)"

inductive_cases lease_stepE: "lease_step s s'"

definition empty_nodes :: "int \<Rightarrow> nodes" where
  "empty_nodes t = \<lparr>nd_clock = t, nd_row = None, nd_holders = []\<rparr>"

abbreviation lease_run :: "nodes \<Rightarrow> nodes \<Rightarrow> bool" where
  "lease_run \<equiv> lease_step\<^sup>*\<^sup>*"

end
