(* ===== verification/Lease_Properties.thy ===== *)
theory Lease_Properties
  imports Lease
begin

text \<open>
  What the lease gives: nobody displaces a process that has renewed within its grace, a displaced one
  never gets back in and learns it at its next renewal, and a replacement that waits does not wait for
  ever. Between the take-over and that renewal two processes believe they are the writer.
\<close>

section \<open>Invariants of a run\<close>

definition holders_ok :: "nodes \<Rightarrow> bool" where
  "holders_ok s \<longleftrightarrow> (\<forall>i h. al_get (nd_holders s) i = Some h \<longrightarrow> ho_id h = i)
     \<and> (\<forall>r. nd_row s = Some r \<longrightarrow> al_get (nd_holders s) (ls_holder r) \<noteq> None \<and> ls_heartbeat r \<le> unix_milli (nd_clock s))"

lemma Acquire_cases:
  assumes "Acquire io i now ttl row = (row', res)"
  shows "(\<exists>e. res = Inl e \<and> row' = row)
    \<or> (\<exists>h r. res = Inr h \<and> ho_id h = i \<and> \<not> ho_stopped h \<and> \<not> ho_lost h \<and> row' = Some r \<and> ls_holder r = i \<and> ls_heartbeat r = unix_milli now
         \<and> (case row of None \<Rightarrow> True | Some x \<Rightarrow> ls_ttl_ms x \<le> unix_milli now - ls_heartbeat x))"
proof -
  define T where "T = (if ttl \<le> 0 then DefaultTTL else ttl)"
  obtain row1 b where t: "take_row i (unix_milli now) T row = (row1, b)" by fastforce
  have row1: "if b then (\<exists>r. row1 = Some r \<and> ls_holder r = i \<and> ls_heartbeat r = unix_milli now \<and> (case row of None \<Rightarrow> True | Some x \<Rightarrow> ls_ttl_ms x \<le> unix_milli now - ls_heartbeat x))
      else row1 = row"
    using t by (auto simp: take_row_def Let_def split: option.splits if_splits)
  show ?thesis
    using assms row1 unfolding Acquire_def Let_def T_def [symmetric] t
    by (cases "io 0"; cases "io 1"; cases b) auto
qed

lemma renew_tick_cases:
  assumes "renew_tick fault now (h, row) = (h', row')"
  shows "ho_id h' = ho_id h \<and> ho_stopped h' = ho_stopped h \<and> (ho_lost h \<longrightarrow> ho_lost h')
    \<and> (row' = row \<or> (\<exists>r. row = Some r \<and> ls_holder r = ho_id h \<and> row' = Some (r\<lparr>ls_heartbeat := unix_milli now\<rparr>)))"
  using assms by (auto simp: renew_tick_def beat_def split: if_splits option.splits)

lemma Release_cases:
  assumes "Release fault (h, row) = ((h', row'), ok)"
  shows "ho_id h' = ho_id h \<and> ho_stopped h' \<and> (row' = row \<or> (\<exists>r. row = Some r \<and> ls_holder r = ho_id h \<and> row' = None))"
  using assms by (auto simp: Release_def split: if_splits option.splits)

lemma unix_milli_mono: "a \<le> b \<Longrightarrow> unix_milli a \<le> unix_milli b"
  by (simp add: unix_milli_def zdiv_mono1)

lemma step_holders_ok: "lease_step s s' \<Longrightarrow> holders_ok s \<Longrightarrow> holders_ok s'"
proof (induction rule: lease_step.induct)
  case (acquired s i io ttl row h)
  then show ?case using Acquire_cases [OF acquired(2)] by (auto simp: holders_ok_def)
next
  case (refused io i s ttl row e)
  then show ?case using Acquire_cases [OF refused(1)] by (auto simp: holders_ok_def)
next
  case (renewed s i h fault h' row)
  then show ?case using renew_tick_cases [OF renewed(2)] by (auto simp: holders_ok_def)
next
  case (released s i h fault h' row ok)
  then show ?case using Release_cases [OF released(2)] by (auto simp: holders_ok_def)
next
  case (wait s t)
  then show ?case using unix_milli_mono [OF wait(1)] by (auto simp: holders_ok_def)
qed

lemma run_holders_ok: "lease_run s s' \<Longrightarrow> holders_ok s \<Longrightarrow> holders_ok s'"
  by (induction rule: rtranclp_induct) (auto intro: step_holders_ok)

lemma empty_holders_ok: "holders_ok (empty_nodes t)"
  by (simp add: holders_ok_def empty_nodes_def)

lemma step_clock: "lease_step s s' \<Longrightarrow> nd_clock s \<le> nd_clock s'"
  by (induction rule: lease_step.induct) simp_all

text \<open>A process that has stopped, or learnt that it lost the lease, stays so.\<close>

definition running :: "nodes \<Rightarrow> string \<Rightarrow> bool" where
  "running s i \<longleftrightarrow> (\<exists>h. al_get (nd_holders s) i = Some h \<and> \<not> ho_stopped h)"

lemma step_known: "lease_step s s' \<Longrightarrow> al_get (nd_holders s) i \<noteq> None \<Longrightarrow> al_get (nd_holders s') i \<noteq> None"
  by (induction rule: lease_step.induct) auto

lemma step_stopped: "lease_step s s' \<Longrightarrow> running s' i \<Longrightarrow> al_get (nd_holders s) i \<noteq> None \<Longrightarrow> running s i"
  by (induction rule: lease_step.induct) (auto simp: running_def dest: renew_tick_cases Release_cases split: if_splits)

section \<open>Held until stale\<close>

lemma step_keeps:
  assumes "lease_step s s'" "holders_ok s" "nd_row s = Some r"
    "unix_milli (nd_clock s') - ls_heartbeat r < ls_ttl_ms r" "running s' (ls_holder r)" "ls_heartbeat r \<le> unix_milli (nd_clock s)"
  shows "\<exists>r'. nd_row s' = Some r' \<and> ls_holder r' = ls_holder r \<and> ls_ttl_ms r' = ls_ttl_ms r \<and> ls_heartbeat r \<le> ls_heartbeat r'
    \<and> ls_heartbeat r' \<le> unix_milli (nd_clock s')"
  using assms
proof (induction rule: lease_step.induct)
  case (wait s t)
  then show ?case using unix_milli_mono [OF wait(1)] by simp
next
  case (acquired s i io ttl row h)
  then show ?case using Acquire_cases [OF acquired(2)] by auto
next
  case (refused io i s ttl row e)
  then show ?case using Acquire_cases [OF refused(1)] by auto
next
  case (renewed s i h fault h' row)
  then show ?case using renew_tick_cases [OF renewed(2)] by auto
next
  case (released s i h fault h' row ok)
  then show ?case using Release_cases [OF released(2)] by (auto simp: holders_ok_def running_def)
qed

text \<open>C19: A process that holds the lease keeps it, whatever the other processes try and however its own
  renewals fail, for as long as the grace it declared has not run out since its last heartbeat and it
  has not released: at every point of the run until then the row still names it.\<close>

theorem lease_held_until_stale:
  assumes "lease_run (empty_nodes t0) s" "lease_run s s'" "nd_row s = Some r"
    "unix_milli (nd_clock s') - ls_heartbeat r < ls_ttl_ms r" "running s' (ls_holder r)"
  shows "\<exists>r'. nd_row s' = Some r' \<and> ls_holder r' = ls_holder r \<and> ls_heartbeat r \<le> ls_heartbeat r'"
proof -
  have ok: "holders_ok s" by (rule run_holders_ok [OF assms(1) empty_holders_ok])
  have "unix_milli (nd_clock s') - ls_heartbeat r < ls_ttl_ms r \<longrightarrow> running s' (ls_holder r) \<longrightarrow> holders_ok s' \<and>
     (\<exists>r'. nd_row s' = Some r' \<and> ls_holder r' = ls_holder r \<and> ls_ttl_ms r' = ls_ttl_ms r \<and> ls_heartbeat r \<le> ls_heartbeat r'
        \<and> ls_heartbeat r' \<le> unix_milli (nd_clock s'))"
    using assms(2)
  proof (induction rule: rtranclp_induct)
    case base
    with ok assms(3) show ?case by (simp add: holders_ok_def)
  next
    case (step u v)
    show ?case
    proof (intro impI)
      assume late: "unix_milli (nd_clock v) - ls_heartbeat r < ls_ttl_ms r" and run: "running v (ls_holder r)"
      have oku: "holders_ok u" by (rule run_holders_ok [OF step(1) ok])
      have "al_get (nd_holders s) (ls_holder r) \<noteq> None" using ok assms(3) by (simp add: holders_ok_def)
      with step(1) have "al_get (nd_holders u) (ls_holder r) \<noteq> None"
        by (induction rule: rtranclp_induct) (auto dest: step_known)
      then have "running u (ls_holder r)" by (rule step_stopped [OF step(2) run])
      moreover have "unix_milli (nd_clock u) - ls_heartbeat r < ls_ttl_ms r"
        using late unix_milli_mono [OF step_clock [OF step(2)]] by linarith
      ultimately obtain r' where r': "nd_row u = Some r'" "ls_holder r' = ls_holder r" "ls_ttl_ms r' = ls_ttl_ms r"
        "ls_heartbeat r \<le> ls_heartbeat r'" "ls_heartbeat r' \<le> unix_milli (nd_clock u)" using step.IH by blast
      have "unix_milli (nd_clock v) - ls_heartbeat r' < ls_ttl_ms r'" using late r'(3,4) by linarith
      from step_keeps [OF step(2) oku r'(1) this] run r' step_holders_ok [OF step(2) oku] show
        "holders_ok v \<and> (\<exists>r'. nd_row v = Some r' \<and> ls_holder r' = ls_holder r \<and> ls_ttl_ms r' = ls_ttl_ms r
           \<and> ls_heartbeat r \<le> ls_heartbeat r' \<and> ls_heartbeat r' \<le> unix_milli (nd_clock v))" by fastforce
    qed
  qed
  with assms(4,5) show ?thesis by blast
qed

section \<open>Two processes\<close>

definition one_node :: nodes where
  "one_node = \<lparr>nd_clock = 0, nd_row = Some \<lparr>ls_holder = ''a'', ls_since = 0, ls_heartbeat = 0, ls_ttl_ms = 10000\<rparr>,
     nd_holders = [(''a'', \<lparr>ho_id = ''a'', ho_ttl = DefaultTTL, ho_since = 0, ho_stopped = False, ho_lost = False\<rparr>)]\<rparr>"

definition two_nodes :: nodes where
  "two_nodes = \<lparr>nd_clock = DefaultTTL, nd_row = Some \<lparr>ls_holder = ''b'', ls_since = 10000, ls_heartbeat = 10000, ls_ttl_ms = 10000\<rparr>,
     nd_holders = [(''a'', \<lparr>ho_id = ''a'', ho_ttl = DefaultTTL, ho_since = 0, ho_stopped = False, ho_lost = False\<rparr>),
       (''b'', \<lparr>ho_id = ''b'', ho_ttl = DefaultTTL, ho_since = DefaultTTL, ho_stopped = False, ho_lost = False\<rparr>)]\<rparr>"

lemma one_node_reached: "lease_run (empty_nodes 0) one_node"
proof -
  have "lease_step (empty_nodes 0) one_node"
    using lease_step.acquired [of "empty_nodes 0" "''a''" "\<lambda>_. False" 0]
    by (simp add: empty_nodes_def one_node_def Acquire_def take_row_def DefaultTTL_def unix_milli_def)
  then show ?thesis by blast
qed

lemma two_nodes_reached: "lease_run one_node two_nodes"
proof -
  have "lease_step one_node (one_node\<lparr>nd_clock := DefaultTTL\<rparr>)"
    by (rule lease_step.wait) (simp add: one_node_def DefaultTTL_def)
  moreover have "lease_step (one_node\<lparr>nd_clock := DefaultTTL\<rparr>) two_nodes"
    using lease_step.acquired [of "one_node\<lparr>nd_clock := DefaultTTL\<rparr>" "''b''" "\<lambda>_. False" 0]
    by (simp add: one_node_def two_nodes_def Acquire_def take_row_def DefaultTTL_def unix_milli_def)
  ultimately show ?thesis by (blast intro: converse_rtranclp_into_rtranclp)
qed

theorem lease_held_until_stale_witness:
  "\<exists>r'. nd_row (one_node\<lparr>nd_clock := 9000000000\<rparr>) = Some r' \<and> ls_holder r' = ''a''"
proof -
  have "lease_step one_node (one_node\<lparr>nd_clock := 9000000000\<rparr>)"
    by (rule lease_step.wait) (simp add: one_node_def)
  then have "lease_run one_node (one_node\<lparr>nd_clock := 9000000000\<rparr>)" by blast
  from lease_held_until_stale [OF one_node_reached this] show ?thesis
    by (simp add: one_node_def unix_milli_def running_def)
qed

section \<open>Fenced\<close>

lemma step_displaced:
  assumes "lease_step s s'" "holders_ok s" "al_get (nd_holders s) i \<noteq> None" "\<forall>r. nd_row s = Some r \<longrightarrow> ls_holder r \<noteq> i"
  shows "\<forall>r. nd_row s' = Some r \<longrightarrow> ls_holder r \<noteq> i"
  using assms
proof (induction rule: lease_step.induct)
  case (acquired s j io ttl row h)
  then show ?case using Acquire_cases [OF acquired(2)] by auto
next
  case (refused io j s ttl row e)
  then show ?case using Acquire_cases [OF refused(1)] by auto
next
  case (renewed s j h fault h' row)
  then show ?case using renew_tick_cases [OF renewed(2)] by (cases "nd_row s") auto
next
  case (released s j h fault h' row ok)
  then show ?case using Release_cases [OF released(2)] by (cases "nd_row s") auto
qed simp

text \<open>C27: A process whose claim has gone, to another or altogether, never holds the lease again: no step
  of it touches the row any more, neither a renewal nor its release, and the first renewal that reaches
  the database tells it that it has lost.\<close>

theorem displaced_process_is_fenced:
  assumes "lease_run (empty_nodes t0) s" "al_get (nd_holders s) i = Some h" "\<forall>r. nd_row s = Some r \<longrightarrow> ls_holder r \<noteq> i"
    "lease_run s s'" "al_get (nd_holders s') i = Some h'"
  shows "(\<forall>r. nd_row s' = Some r \<longrightarrow> ls_holder r \<noteq> i)
    \<and> snd (renew_tick fault now (h', nd_row s')) = nd_row s' \<and> snd (fst (Release fault (h', nd_row s'))) = nd_row s'
    \<and> (\<not> fault \<longrightarrow> ho_stopped h' \<or> ho_lost (fst (renew_tick fault now (h', nd_row s'))))"
proof -
  have ok: "holders_ok s" by (rule run_holders_ok [OF assms(1) empty_holders_ok])
  have gone: "(\<forall>r. nd_row s' = Some r \<longrightarrow> ls_holder r \<noteq> i) \<and> al_get (nd_holders s') i \<noteq> None"
    using assms(4)
  proof (induction rule: rtranclp_induct)
    case base
    with assms(2,3) show ?case by simp
  next
    case (step u v)
    with step_displaced [OF step(2) run_holders_ok [OF step(1) ok]] step_known [OF step(2)] show ?case by blast
  qed
  have "ho_id h' = i" using run_holders_ok [OF assms(4) ok] assms(5) by (simp add: holders_ok_def)
  with gone show ?thesis
    by (auto simp: renew_tick_def beat_def Release_def split: option.splits)
qed

theorem displaced_process_is_fenced_witness:
  "ho_lost (fst (renew_tick False DefaultTTL (the (al_get (nd_holders two_nodes) ''a''), nd_row two_nodes)))"
proof -
  have run: "lease_run (empty_nodes 0) two_nodes" by (rule rtranclp_trans [OF one_node_reached two_nodes_reached])
  have a: "al_get (nd_holders two_nodes) ''a'' = Some (the (al_get (nd_holders two_nodes) ''a''))" by (simp add: two_nodes_def)
  have "\<forall>r. nd_row two_nodes = Some r \<longrightarrow> ls_holder r \<noteq> ''a''" by (simp add: two_nodes_def)
  from displaced_process_is_fenced [OF run a this rtranclp.rtrancl_refl a, of False DefaultTTL] show ?thesis
    by (simp add: two_nodes_def)
qed

text \<open>Until then it goes on: a run of two processes reaches a state in which the lease names one and
  both believe that they hold it, and nothing in the store asks for the lease before it writes.\<close>

theorem two_believers:
  "\<exists>s. lease_run (empty_nodes 0) s \<and> believes s ''a'' \<and> believes s ''b''"
  by (rule exI [of _ two_nodes])
    (auto simp: two_nodes_def believes_def rtranclp_trans [OF one_node_reached two_nodes_reached [unfolded two_nodes_def]])

section \<open>Waiting\<close>

lemma acquire_wait_returns:
  assumes "\<forall>j. int j * 250000000 \<le> am_elapsed (a j)" "maxWait \<le> int (k + n) * 250000000"
  shows "\<exists>r. acquire_wait (Suc n) a k ttl maxWait row = Some r"
  using assms(2)
proof (induction n arbitrary: k row)
  case 0
  then have "maxWait \<le> am_elapsed (a k)" using assms(1) by (auto intro: order_trans)
  then show ?case by (auto simp: Let_def split: prod.split sum.split)
next
  case (Suc n)
  have "\<exists>r. acquire_wait (Suc n) a (Suc k) ttl maxWait row' = Some r" for row'
    by (rule Suc.IH) (use Suc.prems in simp)
  then show ?case
    unfolding acquire_wait.simps(2) [of "Suc n"] by (auto simp: Let_def split: prod.split sum.split)
qed

text \<open>A process that waits for the lease comes back: with a poll every 250 ms of its own clock,
  one attempt more than the wait holds polls is enough, whatever the holder, the other processes and the
  database do.\<close>

theorem acquire_waiting_returns:
  assumes "\<forall>j. int j * 250000000 \<le> am_elapsed (a j)" "maxWait \<le> int n * 250000000"
  shows "\<exists>r. AcquireWaiting (Suc n) a ttl maxWait row = Some r"
  using acquire_wait_returns [of a maxWait 0 n] assms by (simp add: AcquireWaiting_def del: acquire_wait.simps)

theorem acquire_waiting_returns_witness:
  "\<exists>r. AcquireWaiting 5 (\<lambda>k. \<lparr>am_io = (\<lambda>_. False), am_id = ''b'', am_now = int k * 250000000, am_elapsed = int k * 250000000,
     am_row = (\<lambda>r. r)\<rparr>) DefaultTTL 1000000000 (nd_row one_node) = Some r"
proof -
  let ?a = "\<lambda>k. \<lparr>am_io = (\<lambda>_. False), am_id = ''b'', am_now = int k * 250000000, am_elapsed = int k * 250000000, am_row = (\<lambda>r. r)\<rparr>"
  have "\<exists>r. AcquireWaiting (Suc 4) ?a DefaultTTL 1000000000 (nd_row one_node) = Some r"
    by (rule acquire_waiting_returns) simp_all
  then show ?thesis by (simp add: numeral_eq_Suc)
qed

end
