(* ===== verification/Seglog_Codec.thy ===== *)
theory Seglog_Codec
  imports GoStd
begin

text \<open>
  The record format of \<^verbatim>\<open>kernel/internal/seglog/seglog.go\<close>: a length and a CRC-32C over a body of fixed
  fields and four strings, and the reader that steps from one record of a file to the next. The formats
  of \<^verbatim>\<open>encoding/binary\<close> and \<^verbatim>\<open>hash/crc32\<close> are written out.
\<close>

unbundle bit_operations_syntax

section \<open>Big-endian numbers\<close>

fun be_bytes :: "nat \<Rightarrow> nat \<Rightarrow> bytes" where
  "be_bytes 0 v = []"
| "be_bytes (Suc n) v = be_bytes n (v div 256) @ [char_of (v mod 256)]"

definition be_nat :: "bytes \<Rightarrow> nat" where
  "be_nat bs = foldl (\<lambda>a c. a * 256 + of_char c) 0 bs"

lemma length_be_bytes [simp]: "length (be_bytes n v) = n"
  by (induction n arbitrary: v) auto

lemma be_nat_append: "be_nat (bs @ [c]) = be_nat bs * 256 + of_char c"
  by (simp add: be_nat_def)

lemma be_nat_bytes: "be_nat (be_bytes n v) = v mod 256 ^ n"
proof (induction n arbitrary: v)
  case 0
  then show ?case by (simp add: be_nat_def)
next
  case (Suc n)
  then show ?case by (simp add: be_nat_append mod_mult2_eq [of v 256 "256 ^ n"] flip: mult.commute)
qed

lemma be_nat_small: "v < 256 ^ n \<Longrightarrow> be_nat (be_bytes n v) = v"
  by (simp add: be_nat_bytes)

section \<open>CRC-32C\<close>

definition crc_bit :: "32 word \<Rightarrow> 32 word" where
  "crc_bit c = (if bit c 0 then drop_bit 1 c XOR 0x82F63B78 else drop_bit 1 c)"

definition crc_byte :: "32 word \<Rightarrow> char \<Rightarrow> 32 word" where
  "crc_byte c b = (crc_bit ^^ 8) (c XOR of_char b)"

definition crc32c :: "bytes \<Rightarrow> nat" where
  "crc32c bs = unat (NOT (foldl crc_byte 0xFFFFFFFF bs))"

lemma crc32c_bound: "crc32c bs < 4294967296"
proof -
  have "unat w < 2 ^ LENGTH(32)" for w :: "32 word" by (rule unsigned_less)
  then show ?thesis by (simp add: crc32c_def)
qed

section \<open>Records\<close>

definition lenSize :: nat where "lenSize = 4"
definition crcSize :: nat where "crcSize = 4"
definition fixed_size :: nat where "fixed_size = 8 + 2 + 2 + 2 + 1"
definition maxRecord :: nat where "maxRecord = 16777216"

lemmas size_defs = lenSize_def crcSize_def fixed_size_def maxRecord_def

record log_entry =
  le_session :: string
  le_msg :: string
  le_cause :: string
  le_kind :: string
  le_ts :: int
  le_envelope :: bytes

datatype codec_error =
    FieldTooLong | RecordTooLong nat | ShorterThanHeader | LengthMismatch | ChecksumMismatch | RecordTooShort | FieldsExceed

definition uint64_of :: "int \<Rightarrow> nat" where
  "uint64_of t = nat (t mod 18446744073709551616)"

definition int64_of :: "nat \<Rightarrow> int" where
  "int64_of u = (if u < 9223372036854775808 then int u else int u - 18446744073709551616)"

definition entry_body :: "log_entry \<Rightarrow> bytes" where
  "entry_body e =
     be_bytes 8 (uint64_of (le_ts e)) @ be_bytes 2 (length (le_session e)) @ be_bytes 2 (length (le_msg e))
       @ be_bytes 2 (length (le_cause e)) @ be_bytes 1 (length (le_kind e))
       @ le_session e @ le_msg e @ le_cause e @ le_kind e @ le_envelope e"

definition frame :: "bytes \<Rightarrow> bytes" where
  "frame body = be_bytes 4 (length body) @ be_bytes 4 (crc32c body) @ body"

definition encode :: "log_entry \<Rightarrow> codec_error + bytes" where
  "encode e =
     (if length (le_session e) > 65535 \<or> length (le_msg e) > 65535 \<or> length (le_cause e) > 65535 \<or> length (le_kind e) > 255
      then Inl FieldTooLong
      else (let body = entry_body e in
            if length body > maxRecord then Inl (RecordTooLong (length body)) else Inr (frame body)))"

definition decode :: "bytes \<Rightarrow> codec_error + log_entry" where
  "decode body =
     (if length body < fixed_size then Inl RecordTooShort
      else (let ls = be_nat (take 2 (drop 8 body)); lm = be_nat (take 2 (drop 10 body));
                lc = be_nat (take 2 (drop 12 body)); lk = be_nat (take 1 (drop 14 body))
            in if length body < fixed_size + ls + lm + lc + lk then Inl FieldsExceed
               else (let s = drop fixed_size body; m = drop ls s; c = drop lm m; k = drop lc c in
                     Inr \<lparr>le_session = take ls s, le_msg = take lm m, le_cause = take lc c, le_kind = take lk k,
                          le_ts = int64_of (be_nat (take 8 body)), le_envelope = drop lk k\<rparr>)))"

definition decodeFramed :: "bytes \<Rightarrow> codec_error + log_entry" where
  "decodeFramed rec =
     (if length rec < lenSize + crcSize then Inl ShorterThanHeader
      else (let body = drop (lenSize + crcSize) rec in
            if be_nat (take lenSize rec) \<noteq> length body then Inl LengthMismatch
            else if crc32c body \<noteq> be_nat (take crcSize (drop lenSize rec)) then Inl ChecksumMismatch
            else decode body))"

section \<open>Stepping through a file\<close>

datatype bad = ShortHeader | BadLength nat | ShortBody | BadChecksum | Undecodable codec_error

datatype scanned = End | Bad bad | Found log_entry nat

text \<open>What stands at the front of the rest of a file; \<open>Found e n\<close> is a record of \<open>n\<close> bytes.\<close>

definition scan_one :: "bytes \<Rightarrow> scanned" where
  "scan_one bs =
     (if bs = [] then End
      else if length bs < lenSize + crcSize then Bad ShortHeader
      else (let n = be_nat (take lenSize bs); rest = drop (lenSize + crcSize) bs in
            if n < fixed_size \<or> n > maxRecord then Bad (BadLength n)
            else if length rest < n then Bad ShortBody
            else if crc32c (take n rest) \<noteq> be_nat (take crcSize (drop lenSize bs)) then Bad BadChecksum
            else (case decode (take n rest) of
                    Inl err \<Rightarrow> Bad (Undecodable err)
                  | Inr e \<Rightarrow> Found e (lenSize + crcSize + n))))"

lemma scan_one_size: "scan_one bs = Found e n \<Longrightarrow> 0 < n \<and> n \<le> length bs"
  by (auto simp: scan_one_def Let_def size_defs split: if_splits sum.splits)

text \<open>The records of a file with their offsets, the end of the last intact one, and what is wrong there.\<close>

function scan_from :: "nat \<Rightarrow> bytes \<Rightarrow> (log_entry \<times> nat \<times> nat) list \<times> nat \<times> bad option" where
  "scan_from off bs =
     (case scan_one bs of
        End \<Rightarrow> ([], off, None)
      | Bad b \<Rightarrow> ([], off, Some b)
      | Found e n \<Rightarrow> (case scan_from (off + n) (drop n bs) of (rs, stop, b) \<Rightarrow> ((e, off, n) # rs, stop, b)))"
  by pat_completeness auto
termination
  by (relation "measure (\<lambda>(off, bs). length bs)") (auto dest: scan_one_size)

declare scan_from.simps [simp del]

section \<open>Round trips\<close>

definition ts_ok :: "log_entry \<Rightarrow> bool" where
  "ts_ok e \<longleftrightarrow> -9223372036854775808 \<le> le_ts e \<and> le_ts e < 9223372036854775808"

lemma int64_round: "-9223372036854775808 \<le> t \<Longrightarrow> t < 9223372036854775808 \<Longrightarrow> int64_of (uint64_of t) = t"
proof (cases "0 \<le> t")
  case True
  moreover assume "t < 9223372036854775808"
  ultimately show ?thesis by (simp add: int64_of_def uint64_of_def)
next
  case False
  assume "-9223372036854775808 \<le> t"
  moreover have "t mod 18446744073709551616 = t + 18446744073709551616"
    using False \<open>-9223372036854775808 \<le> t\<close> mod_pos_pos_trivial [of "t + 18446744073709551616" 18446744073709551616] by simp
  ultimately show ?thesis using False by (simp add: int64_of_def uint64_of_def)
qed

lemma uint64_bound: "uint64_of t < 18446744073709551616"
  by (simp add: uint64_of_def nat_less_iff)

lemma entry_body_length:
  "length (entry_body e) = 15 + length (le_session e) + length (le_msg e) + length (le_cause e) + length (le_kind e) + length (le_envelope e)"
  by (simp add: entry_body_def)

definition fits :: "log_entry \<Rightarrow> bool" where
  "fits e \<longleftrightarrow> length (le_session e) \<le> 65535 \<and> length (le_msg e) \<le> 65535 \<and> length (le_cause e) \<le> 65535
     \<and> length (le_kind e) \<le> 255 \<and> length (entry_body e) \<le> maxRecord"

lemma encode_fits: "encode e = Inr r \<longleftrightarrow> fits e \<and> r = frame (entry_body e)"
  by (auto simp: encode_def fits_def Let_def)

lemma decode_body:
  assumes "fits e" "ts_ok e"
  shows "decode (entry_body e) = Inr e"
proof -
  have h: "be_nat (take 8 (entry_body e)) = uint64_of (le_ts e)" "be_nat (take 2 (drop 8 (entry_body e))) = length (le_session e)"
    "be_nat (take 2 (drop 10 (entry_body e))) = length (le_msg e)" "be_nat (take 2 (drop 12 (entry_body e))) = length (le_cause e)"
    "be_nat (take 1 (drop 14 (entry_body e))) = length (le_kind e)"
    "drop 15 (entry_body e) = le_session e @ le_msg e @ le_cause e @ le_kind e @ le_envelope e"
    using assms(1) uint64_bound [of "le_ts e"] by (simp_all add: entry_body_def fits_def be_nat_small del: be_bytes.simps)
  then show ?thesis
    using assms(2) entry_body_length [of e] int64_round [of "le_ts e"] by (simp add: decode_def Let_def fixed_size_def ts_ok_def)
qed

lemma frame_nonempty [simp]: "frame body \<noteq> []"
proof -
  have "length (frame body) \<noteq> 0" by (simp add: frame_def del: be_bytes.simps)
  then show ?thesis by auto
qed

lemma frame_parts:
  assumes "length body \<le> maxRecord"
  shows "be_nat (take lenSize (frame body @ zs)) = length body" "be_nat (take crcSize (drop lenSize (frame body @ zs))) = crc32c body"
    "drop (lenSize + crcSize) (frame body @ zs) = body @ zs" "length (frame body) = lenSize + crcSize + length body"
proof -
  have "length body < 256 ^ 4" "crc32c body < 256 ^ 4" using assms crc32c_bound [of body] by (simp_all add: maxRecord_def)
  then show "be_nat (take lenSize (frame body @ zs)) = length body" "be_nat (take crcSize (drop lenSize (frame body @ zs))) = crc32c body"
    "drop (lenSize + crcSize) (frame body @ zs) = body @ zs" "length (frame body) = lenSize + crcSize + length body"
    by (simp_all add: frame_def lenSize_def crcSize_def be_nat_small del: be_bytes.simps)
qed

lemma decode_frame:
  assumes "fits e" "ts_ok e"
  shows "decodeFramed (frame (entry_body e)) = Inr e"
proof -
  have "length (entry_body e) \<le> maxRecord" using assms(1) by (simp add: fits_def)
  from frame_parts(1-3) [OF this, where zs = "[]"] frame_parts(4) [OF this] decode_body [OF assms] show ?thesis by (simp add: decodeFramed_def Let_def)
qed

lemma scan_frame:
  assumes "fits e" "ts_ok e"
  shows "scan_one (frame (entry_body e) @ zs) = Found e (length (frame (entry_body e)))"
proof -
  have n: "length (entry_body e) \<le> maxRecord" using assms(1) by (simp add: fits_def)
  have "fixed_size \<le> length (entry_body e)" by (simp add: entry_body_length fixed_size_def)
  moreover have "frame (entry_body e) @ zs \<noteq> []" by simp
  ultimately show ?thesis
    using frame_parts(1-3) [OF n, where zs = zs] frame_parts(4) [OF n] decode_body [OF assms] n by (simp add: scan_one_def Let_def)
qed

text \<open>A record that is cut short is never read as one.\<close>

lemma scan_torn:
  assumes "fits e" "k < length (frame (entry_body e))"
  shows "scan_one (take k (frame (entry_body e))) = (if k = 0 then End else if k < lenSize + crcSize then Bad ShortHeader else Bad ShortBody)"
proof (cases "k < lenSize + crcSize")
  case True
  with True assms(2) show ?thesis by (auto simp: scan_one_def)
next
  case False
  let ?f = "frame (entry_body e)"
  have n: "length (entry_body e) \<le> maxRecord" using assms(1) by (simp add: fits_def)
  have "take lenSize (take k ?f) = take lenSize ?f" using False by simp
  then have "be_nat (take lenSize (take k ?f)) = length (entry_body e)" using frame_parts(1) [OF n, where zs = "[]"] by simp
  moreover have "length (drop (lenSize + crcSize) (take k ?f)) < length (entry_body e)"
    using assms(2) frame_parts(4) [OF n] False by simp
  moreover have "fixed_size \<le> length (entry_body e)" by (simp add: entry_body_length fixed_size_def)
  moreover have "\<not> length (take k ?f) < lenSize + crcSize" "take k ?f \<noteq> []" using False assms(2) by (auto simp: lenSize_def)
  ultimately show ?thesis using False n by (simp add: scan_one_def Let_def lenSize_def)
qed

end
