(* ===== verification/Seglog.thy ===== *)
theory Seglog
  imports Seglog_Codec
begin

text \<open>
  \<^verbatim>\<open>kernel/internal/seglog/seglog.go\<close>: the segmented, append-only log behind the causal event log, with
  its directory. A segment is known by its ordinal, \<open>sl_files\<close> is what the files hold. Reads of the
  directory do not fail in the model; a write may fail after any number of bytes, an \<^verbatim>\<open>fsync\<close> may fail
  after all of them, and \<open>io k\<close> says which of the other calls of an operation do. The goroutine of the
  writer is the sequence of the batches it flushes.
\<close>

section \<open>The state\<close>

definition DefaultSegmentBytes :: int where "DefaultSegmentBytes = 134217728"
definition DefaultMaxIndexed :: int where "DefaultMaxIndexed = 1048576"

record log_options =
  op_sync :: bool
  op_segment_bytes :: int
  op_max_bytes :: int
  op_max_indexed :: int

definition segmentBytes :: "log_options \<Rightarrow> int" where
  "segmentBytes o' = (if op_segment_bytes o' \<le> 0 then DefaultSegmentBytes else op_segment_bytes o')"

definition maxIndexed :: "log_options \<Rightarrow> int" where
  "maxIndexed o' = (if op_max_indexed o' = 0 then DefaultMaxIndexed else op_max_indexed o')"

record locator =
  lo_seg :: nat
  lo_off :: nat
  lo_size :: nat

record session_index =
  si_locs :: "locator list"
  si_evicted :: bool
  si_total :: nat
  si_errors :: nat
  si_segs :: "nat list"
  si_touched :: nat

definition new_session_index :: session_index where
  "new_session_index = \<lparr>si_locs = [], si_evicted = False, si_total = 0, si_errors = 0, si_segs = [], si_touched = 0\<rparr>"

datatype damage = DamagedSegment nat nat bad | RotationFailed | PruneFailed

record seglog =
  sl_opt :: log_options
  sl_segs :: "(nat \<times> nat) list"
  sl_idx :: "(string \<times> session_index) list"
  sl_indexed :: int
  sl_clock :: nat
  sl_damage :: "damage list"
  sl_bytes :: int
  sl_open :: bool
  sl_werr :: bool
  sl_closing :: bool
  sl_files :: "(nat \<times> bytes) list"

section \<open>The index\<close>

fun evict_loop :: "int \<Rightarrow> (string \<times> session_index) list \<Rightarrow> seglog \<Rightarrow> seglog" where
  "evict_loop target [] l = l"
| "evict_loop target ((i, si) # vs) l =
     (if sl_indexed l \<le> target then l
      else evict_loop target vs
             (l\<lparr>sl_idx := al_put i (si\<lparr>si_locs := [], si_evicted := True\<rparr>) (sl_idx l),
                sl_indexed := sl_indexed l - int (length (si_locs si))\<rparr>))"

definition evictIfOverBudget :: "seglog \<Rightarrow> seglog" where
  "evictIfOverBudget l =
     (let budget = maxIndexed (sl_opt l) in
      if budget < 0 \<or> sl_indexed l \<le> budget then l
      else evict_loop (budget * 4 div 5)
             (sort_key (\<lambda>(_, si). si_touched si) (filter (\<lambda>(_, si). \<not> si_evicted si \<and> si_locs si \<noteq> []) (sl_idx l))) l)"

definition note_record :: "log_entry \<Rightarrow> locator \<Rightarrow> seglog \<Rightarrow> seglog" where
  "note_record e loc l =
     (let si = (case al_get (sl_idx l) (le_session e) of None \<Rightarrow> new_session_index | Some si \<Rightarrow> si);
          clock = sl_clock l + 1;
          si = si\<lparr>si_touched := clock, si_segs := List.insert (lo_seg loc) (si_segs si), si_total := si_total si + 1,
                  si_errors := (if le_kind e = ''error'' then si_errors si + 1 else si_errors si)\<rparr>
      in if si_evicted si then l\<lparr>sl_clock := clock, sl_idx := al_put (le_session e) si (sl_idx l)\<rparr>
         else evictIfOverBudget
                (l\<lparr>sl_clock := clock, sl_idx := al_put (le_session e) (si\<lparr>si_locs := si_locs si @ [loc]\<rparr>) (sl_idx l),
                   sl_indexed := sl_indexed l + 1\<rparr>))"

text \<open>What a session keeps when the segment \<open>ord\<close> is deleted, and how many locators go.\<close>

definition forget_one :: "nat \<Rightarrow> session_index \<Rightarrow> session_index option \<times> int" where
  "forget_one ord si =
     (if ord \<notin> set (si_segs si) then (Some si, 0)
      else (let segs = removeAll ord (si_segs si); kept = filter (\<lambda>x. lo_seg x \<noteq> ord) (si_locs si) in
            if segs = [] then (None, int (length (si_locs si)))
            else if si_evicted si then (Some (si\<lparr>si_segs := segs, si_total := 0, si_errors := 0\<rparr>), 0)
            else (Some (si\<lparr>si_segs := segs, si_locs := kept, si_total := length kept,
                           si_errors := min (si_errors si) (length kept)\<rparr>),
                  int (length (si_locs si)) - int (length kept))))"

definition forget :: "nat \<Rightarrow> seglog \<Rightarrow> seglog" where
  "forget ord l =
     l\<lparr>sl_idx := List.map_filter (\<lambda>(i, si). map_option (Pair i) (fst (forget_one ord si))) (sl_idx l),
       sl_indexed := sl_indexed l - sum_list (map (\<lambda>(_, si). snd (forget_one ord si)) (sl_idx l))\<rparr>"

section \<open>Writing\<close>

fun prune_segs :: "(nat \<Rightarrow> bool) \<Rightarrow> nat \<Rightarrow> (nat \<times> nat) list \<Rightarrow> seglog \<Rightarrow> seglog" where
  "prune_segs io k ((ord, n) # s # ss) l =
     (if op_max_bytes (sl_opt l) < sl_bytes l
      then (if io k then l\<lparr>sl_segs := (ord, n) # s # ss, sl_damage := sl_damage l @ [PruneFailed]\<rparr>
            else prune_segs io (k + 1) (s # ss)
                   (forget ord (l\<lparr>sl_bytes := sl_bytes l - int n, sl_files := al_del ord (sl_files l)\<rparr>)))
      else l\<lparr>sl_segs := (ord, n) # s # ss\<rparr>)"
| "prune_segs io k ss l = l\<lparr>sl_segs := ss\<rparr>"

definition prune :: "(nat \<Rightarrow> bool) \<Rightarrow> seglog \<Rightarrow> seglog" where
  "prune io l = (if op_max_bytes (sl_opt l) \<le> 0 then l else prune_segs io 0 (sl_segs l) l)"

definition rotate_log :: "(nat \<Rightarrow> bool) \<Rightarrow> seglog \<Rightarrow> seglog \<times> bool" where
  "rotate_log io l =
     (if io 0 then (l, False)
      else if io 1 then (l\<lparr>sl_open := False\<rparr>, False)
      else if io 2 then (if io 3 then l\<lparr>sl_open := False\<rparr> else l\<lparr>sl_open := True, sl_werr := False\<rparr>, False)
      else (let ord = fst (last (sl_segs l)) + 1 in
            (prune (\<lambda>k. io (4 + k))
               (l\<lparr>sl_segs := sl_segs l @ [(ord, 0)], sl_files := al_put ord [] (sl_files l), sl_open := True, sl_werr := False\<rparr>),
             True)))"

datatype write_outcome = Written | WriteFailed nat | SyncFailed

text \<open>Where the records of a batch come to lie.\<close>

fun place :: "nat \<Rightarrow> nat \<Rightarrow> (bytes \<times> log_entry) list \<Rightarrow> (log_entry \<times> locator) list" where
  "place ord off [] = []"
| "place ord off ((r, e) # rs) = (e, \<lparr>lo_seg = ord, lo_off = off, lo_size = length r\<rparr>) # place ord (off + length r) rs"

definition extend_file :: "nat \<Rightarrow> bytes \<Rightarrow> seglog \<Rightarrow> seglog" where
  "extend_file ord bs l =
     l\<lparr>sl_files := al_put ord ((case al_get (sl_files l) ord of None \<Rightarrow> [] | Some f \<Rightarrow> f) @ bs) (sl_files l)\<rparr>"

text \<open>A \<^verbatim>\<open>bufio.Writer\<close> that has failed once fails every write after it.\<close>

definition outcome :: "write_outcome \<Rightarrow> seglog \<Rightarrow> write_outcome" where
  "outcome wr l =
     (if \<not> sl_open l \<or> sl_werr l then WriteFailed 0
      else if wr = SyncFailed \<and> \<not> op_sync (sl_opt l) then Written else wr)"

definition flush :: "write_outcome \<Rightarrow> (nat \<Rightarrow> bool) \<Rightarrow> (bytes \<times> log_entry) list \<Rightarrow> seglog \<Rightarrow> seglog \<times> bool" where
  "flush wr io batch l =
     (if batch = [] then (l, True)
      else (let (ord, start) = last (sl_segs l);
                raw = concat (map fst batch)
            in case outcome wr l of
                 WriteFailed k \<Rightarrow> ((extend_file ord (take k raw) l)\<lparr>sl_werr := True\<rparr>, False)
               | SyncFailed \<Rightarrow> (extend_file ord raw l, False)
               | Written \<Rightarrow>
                   (let l = (extend_file ord raw l)\<lparr>sl_segs := butlast (sl_segs l) @ [(ord, start + length raw)],
                              sl_bytes := sl_bytes l + int (length raw)\<rparr>;
                        l = fold (\<lambda>(e, loc). note_record e loc) (place ord start batch) l
                    in (if segmentBytes (sl_opt l) \<le> int (start + length raw)
                        then (case rotate_log io l of
                                (l, True) \<Rightarrow> l
                              | (l, False) \<Rightarrow> l\<lparr>sl_damage := sl_damage l @ [RotationFailed]\<rparr>)
                        else l, True))))"

datatype append_error = NotEncoded codec_error | LogClosed | NotWritten

text \<open>The appends that one batch holds, with what each caller is told.\<close>

definition encoded :: "log_entry list \<Rightarrow> (bytes \<times> log_entry) list" where
  "encoded es = List.map_filter (\<lambda>e. case encode e of Inl _ \<Rightarrow> None | Inr r \<Rightarrow> Some (r, e)) es"

definition append_batch ::
  "write_outcome \<Rightarrow> (nat \<Rightarrow> bool) \<Rightarrow> log_entry list \<Rightarrow> seglog \<Rightarrow> seglog \<times> append_error option list" where
  "append_batch wr io es l =
     (if sl_closing l then (l, map (\<lambda>e. case encode e of Inl err \<Rightarrow> Some (NotEncoded err) | Inr _ \<Rightarrow> Some LogClosed) es)
      else (case flush wr io (encoded es) l of
              (l, ok) \<Rightarrow>
                (l, map (\<lambda>e. case encode e of Inl err \<Rightarrow> Some (NotEncoded err) | Inr _ \<Rightarrow> if ok then None else Some NotWritten) es)))"

definition Close :: "seglog \<Rightarrow> seglog" where
  "Close l = l\<lparr>sl_closing := True, sl_open := False\<rparr>"

section \<open>Reading\<close>

datatype read_error = MissingSegment nat | ShortRead | BadRecord codec_error

text \<open>Adjacent records are read in one call, up to four megabytes of them.\<close>

fun take_run :: "locator \<Rightarrow> nat \<Rightarrow> locator list \<Rightarrow> locator list \<times> locator list" where
  "take_run prev span [] = ([], [])"
| "take_run prev span (x # xs) =
     (if lo_off prev + lo_size prev = lo_off x \<and> span + lo_size x \<le> 4194304
      then (case take_run x (span + lo_size x) xs of (run, rest) \<Rightarrow> (x # run, rest))
      else ([], x # xs))"

lemma take_run_split: "take_run prev span xs = (run, rest) \<Longrightarrow> xs = run @ rest"
  by (induction prev span xs arbitrary: run rest rule: take_run.induct) (auto split: if_splits prod.splits)

fun decode_run :: "locator list \<Rightarrow> bytes \<Rightarrow> log_entry list \<times> read_error option" where
  "decode_run [] buf = ([], None)"
| "decode_run (x # xs) buf =
     (case decodeFramed (take (lo_size x) buf) of
        Inl err \<Rightarrow> ([], Some (BadRecord err))
      | Inr e \<Rightarrow> (case decode_run xs (drop (lo_size x) buf) of (es, err) \<Rightarrow> (e # es, err)))"

function readRuns :: "bytes \<Rightarrow> locator list \<Rightarrow> log_entry list \<times> read_error option" where
  "readRuns file [] = ([], None)"
| "readRuns file (x # xs) =
     (case take_run x (lo_size x) xs of
        (run, rest) \<Rightarrow>
          (let span = sum_list (map lo_size (x # run)); buf = take span (drop (lo_off x) file) in
           if length buf < span then ([], Some ShortRead)
           else (case decode_run (x # run) buf of
                   (es, Some err) \<Rightarrow> (es, Some err)
                 | (es, None) \<Rightarrow> (case readRuns file rest of (es', err) \<Rightarrow> (es @ es', err)))))"
  by pat_completeness auto
termination
  by (relation "measure (\<lambda>(f, xs). length xs)") (auto dest!: take_run_split [OF sym])

function readLocators :: "(nat \<times> bytes) list \<Rightarrow> locator list \<Rightarrow> log_entry list \<times> read_error option" where
  "readLocators files [] = ([], None)"
| "readLocators files (x # xs) =
     (case al_get files (lo_seg x) of
        None \<Rightarrow> ([], Some (MissingSegment (lo_seg x)))
      | Some file \<Rightarrow>
          (case readRuns file (x # takeWhile (\<lambda>y. lo_seg y = lo_seg x) xs) of
             (es, Some err) \<Rightarrow> (es, Some err)
           | (es, None) \<Rightarrow>
               (case readLocators files (dropWhile (\<lambda>y. lo_seg y = lo_seg x) xs) of (es', err) \<Rightarrow> (es @ es', err))))"
  by pat_completeness auto
termination
  by (relation "measure (\<lambda>(f, xs). length xs)") (auto simp: le_imp_less_Suc length_dropWhile_le)

function scan_segment :: "string \<Rightarrow> nat \<Rightarrow> bytes \<Rightarrow> log_entry list \<Rightarrow> log_entry list" where
  "scan_segment s limit bs out =
     (if 0 < limit \<and> limit \<le> length out then out
      else (case scan_one bs of
              Found e n \<Rightarrow> scan_segment s limit (drop n bs) (if le_session e = s then out @ [e] else out)
            | _ \<Rightarrow> out))"
  by pat_completeness auto
termination
  by (relation "measure (\<lambda>(s, limit, bs, out). length bs)") (auto dest: scan_one_size)

declare scan_segment.simps [simp del]

fun scanFor :: "string \<Rightarrow> nat \<Rightarrow> bytes option list \<Rightarrow> log_entry list \<Rightarrow> log_entry list" where
  "scanFor s limit [] out = out"
| "scanFor s limit (None # fs) out = scanFor s limit fs out"
| "scanFor s limit (Some file # fs) out =
     (let out = scan_segment s limit file out in
      if 0 < limit \<and> limit \<le> length out then take limit out else scanFor s limit fs out)"

definition pathsFor :: "nat list \<Rightarrow> seglog \<Rightarrow> nat list" where
  "pathsFor ords l = filter (\<lambda>ord. ord \<in> fst ` set (sl_segs l)) (sort ords)"

definition log_Session :: "string \<Rightarrow> nat \<Rightarrow> seglog \<Rightarrow> log_entry list \<times> read_error option" where
  "log_Session s limit l =
     (case al_get (sl_idx l) s of
        None \<Rightarrow> ([], None)
      | Some si \<Rightarrow>
          if si_evicted si
          then (scanFor s limit (map (al_get (sl_files l)) (pathsFor (si_segs si) l)) [], None)
          else readLocators (sl_files l)
                 (if 0 < limit \<and> limit < length (si_locs si) then take limit (si_locs si) else si_locs si))"

definition Counts :: "string \<Rightarrow> seglog \<Rightarrow> nat \<times> nat" where
  "Counts s l = (case al_get (sl_idx l) s of None \<Rightarrow> (0, 0) | Some si \<Rightarrow> (si_total si, si_errors si))"

record log_stats =
  st_segments :: nat
  st_bytes :: int
  st_sessions :: nat
  st_indexed :: int
  st_evicted :: nat
  st_damage :: "damage list"

definition Stats :: "seglog \<Rightarrow> log_stats" where
  "Stats l = \<lparr>st_segments = length (sl_segs l), st_bytes = sl_bytes l, st_sessions = length (sl_idx l), st_indexed = sl_indexed l,
     st_evicted = length (filter (\<lambda>(_, si). si_evicted si) (sl_idx l)), st_damage = sl_damage l\<rparr>"

section \<open>Opening\<close>

text \<open>A directory: the numbered segments, and the single file of the first versions.\<close>

record log_dir =
  dr_files :: "(nat \<times> bytes) list"
  dr_legacy :: "bytes option"

definition migrateLegacy :: "log_dir \<Rightarrow> log_dir" where
  "migrateLegacy d =
     (case dr_legacy d of
        None \<Rightarrow> d
      | Some f \<Rightarrow> if dr_files d \<noteq> [] then d else \<lparr>dr_files = [(0, f)], dr_legacy = None\<rparr>)"

definition scan_file :: "nat \<Rightarrow> bool \<Rightarrow> seglog \<Rightarrow> seglog" where
  "scan_file ord is_last l =
     (let file = (case al_get (sl_files l) ord of None \<Rightarrow> [] | Some f \<Rightarrow> f);
          (rs, stop, b) = scan_from 0 file;
          l = fold (\<lambda>(e, off, n). note_record e \<lparr>lo_seg = ord, lo_off = off, lo_size = n\<rparr>) rs l;
          l = l\<lparr>sl_segs := sl_segs l @ [(ord, stop)], sl_bytes := sl_bytes l + int stop\<rparr>
      in if is_last then l\<lparr>sl_files := al_put ord (take stop file) (sl_files l)\<rparr>
         else (case b of
                 None \<Rightarrow> l\<lparr>sl_files := al_put ord file (sl_files l)\<rparr>
               | Some b \<Rightarrow> l\<lparr>sl_files := al_put ord file (sl_files l), sl_damage := sl_damage l @ [DamagedSegment ord stop b]\<rparr>))"

fun scan_files :: "nat list \<Rightarrow> seglog \<Rightarrow> seglog" where
  "scan_files [] l = l"
| "scan_files (ord # ords) l = scan_files ords (scan_file ord (ords = []) l)"

definition segmentOrdinals :: "log_dir \<Rightarrow> nat list" where
  "segmentOrdinals d = sort (map fst (dr_files d))"

definition OpenWith :: "log_options \<Rightarrow> log_dir \<Rightarrow> seglog" where
  "OpenWith opt d =
     (let d = migrateLegacy d;
          ords = segmentOrdinals d;
          l = scan_files (if ords = [] then [0] else ords)
                \<lparr>sl_opt = opt, sl_segs = [], sl_idx = [], sl_indexed = 0, sl_clock = 0, sl_damage = [], sl_bytes = 0,
                 sl_open = False, sl_werr = False, sl_closing = False, sl_files = dr_files d\<rparr>
      in l\<lparr>sl_open := True\<rparr>)"

end
