(* ===== verification/Seglog_Inv.thy ===== *)
theory Seglog_Inv
  imports Seglog
begin

text \<open>
  The log against what it promises: a list of entries. A history \<open>H\<close> gives the entries of each segment;
  \<open>log_inv\<close> says that the files hold their records and that the index knows where those of each session
  are, or, where it has dropped them, in which segments.
\<close>

abbreviation rec_of :: "log_entry \<Rightarrow> bytes" where
  "rec_of e \<equiv> frame (entry_body e)"

definition good :: "log_entry \<Rightarrow> bool" where
  "good e \<longleftrightarrow> fits e \<and> ts_ok e"

definition recs :: "log_entry list \<Rightarrow> (bytes \<times> log_entry) list" where
  "recs es = map (\<lambda>e. (rec_of e, e)) es"

definition raw :: "log_entry list \<Rightarrow> bytes" where
  "raw es = concat (map rec_of es)"

type_synonym history = "(nat \<times> log_entry list) list"

definition all_of :: "history \<Rightarrow> log_entry list" where
  "all_of H = concat (map snd H)"

definition spots :: "history \<Rightarrow> (log_entry \<times> locator) list" where
  "spots H = concat (map (\<lambda>(ord, es). place ord 0 (recs es)) H)"

definition of_session :: "string \<Rightarrow> (log_entry \<times> locator) list \<Rightarrow> (log_entry \<times> locator) list" where
  "of_session s N = filter (\<lambda>(e, x). le_session e = s) N"

lemma raw_simps [simp]: "raw [] = []" "raw (e # es) = rec_of e @ raw es" "raw (es @ es') = raw es @ raw es'"
  by (simp_all add: raw_def)

lemma recs_simps [simp]: "recs [] = []" "recs (e # es) = (rec_of e, e) # recs es" "recs (es @ es') = recs es @ recs es'"
  by (simp_all add: recs_def)

lemma concat_recs: "concat (map fst (recs es)) = raw es"
  by (induction es) auto

lemma encode_good: "good e \<Longrightarrow> encode e = Inr (rec_of e)"
  by (simp add: encode_fits good_def)

lemma encoded_good: "\<forall>e \<in> set es. good e \<Longrightarrow> encoded es = recs es"
  by (induction es) (simp_all add: encoded_def List.map_filter_simps encode_good)

section \<open>Places\<close>

lemma place_append: "place ord off (recs (es @ es')) = place ord off (recs es) @ place ord (off + length (raw es)) (recs es')"
  by (induction es arbitrary: off) (auto simp: add.assoc)

lemma fst_place: "map fst (place ord off (recs es)) = es"
  by (induction es arbitrary: off) auto

lemma place_seg: "(e, x) \<in> set (place ord off rs) \<Longrightarrow> lo_seg x = ord"
  by (induction ord off rs rule: place.induct) auto

lemma fst_spots: "map fst (spots H) = all_of H"
  by (induction H) (auto simp: spots_def all_of_def fst_place)

lemma spots_append: "spots (H @ H') = spots H @ spots H'"
  by (simp add: spots_def)

text \<open>A locator is right when its file holds the record there.\<close>

definition slot :: "bytes \<Rightarrow> log_entry \<Rightarrow> locator \<Rightarrow> bool" where
  "slot file e x \<longleftrightarrow> good e \<and> lo_size x = length (rec_of e) \<and> take (lo_size x) (drop (lo_off x) file) = rec_of e"

lemma slot_length: "slot file e x \<Longrightarrow> lo_off x + lo_size x \<le> length file"
proof -
  assume "slot file e x"
  then have "length (take (lo_size x) (drop (lo_off x) file)) = lo_size x" unfolding slot_def by (elim conjE) (simp only:)
  moreover have "0 < lo_size x" using \<open>slot file e x\<close> by (simp add: slot_def)
  ultimately show ?thesis by (simp add: min_def split: if_splits)
qed

lemma place_slot:
  "\<forall>e \<in> set es. good e \<Longrightarrow> length pre = off \<Longrightarrow> (e, x) \<in> set (place ord off (recs es)) \<Longrightarrow> slot (pre @ raw es @ post) e x"
proof (induction es arbitrary: off pre)
  case (Cons a es)
  show ?case
  proof (cases "(e, x) \<in> set (place ord (off + length (rec_of a)) (recs es))")
    case True
    from Cons.IH [of "pre @ rec_of a", OF _ _ True] Cons.prems show ?thesis by simp
  next
    case False
    with Cons.prems show ?thesis by (auto simp: slot_def)
  qed
qed simp

section \<open>Reading by locators\<close>

text \<open>Records one after the other.\<close>

fun adjacent :: "locator \<Rightarrow> locator list \<Rightarrow> bool" where
  "adjacent x [] \<longleftrightarrow> True"
| "adjacent x (y # ys) \<longleftrightarrow> lo_off x + lo_size x = lo_off y \<and> adjacent y ys"

lemma take_run_adjacent: "take_run x span xs = (run, rest) \<Longrightarrow> adjacent x run"
  by (induction x span xs arbitrary: run rest rule: take_run.induct) (auto split: if_splits prod.splits)

lemma run_end:
  "adjacent x xs \<Longrightarrow> \<forall>y \<in> set (x # xs). lo_off y + lo_size y \<le> n \<Longrightarrow> lo_off x + sum_list (map lo_size (x # xs)) \<le> n"
  by (induction xs arbitrary: x) force+

lemma decode_run_slots:
  "\<forall>(e, x) \<in> set P. slot file e x \<Longrightarrow> map snd P = x # xs \<Longrightarrow> adjacent x xs \<Longrightarrow> sum_list (map lo_size (x # xs)) \<le> m
   \<Longrightarrow> decode_run (x # xs) (take m (drop (lo_off x) file)) = (map fst P, None)"
proof (induction P arbitrary: x xs m)
  case (Cons p P)
  obtain e where p: "p = (e, x)" using Cons.prems(2) by (cases p) auto
  have s: "slot file e x" using Cons.prems(1) p by simp
  then have t: "take (lo_size x) (drop (lo_off x) file) = rec_of e" and g: "fits e" "ts_ok e"
    unfolding slot_def good_def by blast+
  then have "decodeFramed (take (lo_size x) (take m (drop (lo_off x) file))) = Inr e"
    using Cons.prems(4) decode_frame [OF g] by (simp add: min_absorb1)
  moreover have "decode_run xs (drop (lo_size x) (take m (drop (lo_off x) file))) = (map fst P, None)"
  proof (cases xs)
    case Nil
    with Cons.prems(2) show ?thesis by simp
  next
    case (Cons y ys)
    have "drop (lo_size x) (take m (drop (lo_off x) file)) = take (m - lo_size x) (drop (lo_off y) file)"
      using Cons.prems(3) by (simp add: Cons drop_take add.commute)
    moreover have "decode_run (y # ys) (take (m - lo_size x) (drop (lo_off y) file)) = (map fst P, None)"
      by (rule Cons.IH) (use Cons.prems Cons p in auto)
    ultimately show ?thesis by (simp add: Cons)
  qed
  ultimately show ?case by (simp add: p)
qed simp

lemma readRuns_slots: "\<forall>(e, x) \<in> set P. slot file e x \<Longrightarrow> readRuns file (map snd P) = (map fst P, None)"
proof (induction "length P" arbitrary: P rule: less_induct)
  case less
  show ?case
  proof (cases P)
    case (Cons p P')
    obtain e x where p: "p = (e, x)" by (cases p)
    obtain run rest where r: "take_run x (lo_size x) (map snd P') = (run, rest)" by fastforce
    obtain Pr Pt where split: "P' = Pr @ Pt" "run = map snd Pr" "rest = map snd Pt"
      using take_run_split [OF r] by (auto simp: map_eq_append_conv)
    have slots: "\<forall>(e, x) \<in> set ((e, x) # Pr). slot file e x" "\<forall>(e, x) \<in> set Pt. slot file e x"
      using less.prems by (auto simp: Cons p split)
    have adj: "adjacent x run" by (rule take_run_adjacent [OF r])
    have "\<forall>y \<in> set (x # run). lo_off y + lo_size y \<le> length file"
      using slots(1) slot_length by (fastforce simp: split(2))
    from run_end [OF adj this] have len: "\<not> length (take (sum_list (map lo_size (x # run))) (drop (lo_off x) file)) < sum_list (map lo_size (x # run))"
      by simp
    have dec: "decode_run (x # run) (take (sum_list (map lo_size (x # run))) (drop (lo_off x) file)) = (map fst ((e, x) # Pr), None)"
      by (rule decode_run_slots [OF slots(1)]) (use adj split(2) in simp_all)
    have "readRuns file (map snd Pt) = (map fst Pt, None)" by (rule less.hyps) (use slots(2) Cons split in simp_all)
    then show ?thesis
      using r len dec split by (simp add: Cons p Let_def del: decode_run.simps)
  qed simp
qed

definition placed :: "(nat \<times> bytes) list \<Rightarrow> log_entry \<Rightarrow> locator \<Rightarrow> bool" where
  "placed files e x \<longleftrightarrow> (\<exists>file. al_get files (lo_seg x) = Some file \<and> slot file e x)"

lemma readLocators_placed: "\<forall>(e, x) \<in> set P. placed files e x \<Longrightarrow> readLocators files (map snd P) = (map fst P, None)"
proof (induction "length P" arbitrary: P rule: less_induct)
  case less
  show ?case
  proof (cases P)
    case (Cons p P')
    obtain e x where p: "p = (e, x)" by (cases p)
    let ?same = "\<lambda>p. lo_seg (snd p) = lo_seg x"
    obtain f where f: "al_get files (lo_seg x) = Some f" "slot f e x"
      using less.prems by (auto simp: Cons p placed_def)
    have tw: "takeWhile (\<lambda>y. lo_seg y = lo_seg x) (map snd P') = map snd (takeWhile ?same P')"
      "dropWhile (\<lambda>y. lo_seg y = lo_seg x) (map snd P') = map snd (dropWhile ?same P')"
      by (simp_all add: takeWhile_map dropWhile_map comp_def)
    have "slot f e' y" if "(e', y) \<in> set (takeWhile ?same P')" for e' y
      using set_takeWhileD [OF that] less.prems f(1) by (auto simp: Cons placed_def)
    with f(2) have "readRuns f (map snd ((e, x) # takeWhile ?same P')) = (map fst ((e, x) # takeWhile ?same P'), None)"
      by (intro readRuns_slots) auto
    moreover have "readLocators files (map snd (dropWhile ?same P')) = (map fst (dropWhile ?same P'), None)"
      by (rule less.hyps) (use less.prems in \<open>auto simp: Cons length_dropWhile_le le_imp_less_Suc dest: set_dropWhileD\<close>)
    moreover have "map fst (takeWhile ?same P') @ map fst (dropWhile ?same P') = map fst P'"
      by (metis map_append takeWhile_dropWhile_id)
    ultimately show ?thesis by (simp add: Cons p f(1) tw del: readRuns.simps)
  qed simp
qed

section \<open>Reading by scanning\<close>

definition limited :: "nat \<Rightarrow> 'a list \<Rightarrow> 'a list" where
  "limited n xs = (if 0 < n then take n xs else xs)"

lemma scan_segment_raw:
  "\<forall>e \<in> set es. good e \<Longrightarrow> (0 < n \<Longrightarrow> length out \<le> n) \<Longrightarrow>
   scan_segment s n (raw es) out = limited n (out @ filter (\<lambda>e. le_session e = s) es)"
proof (induction es arbitrary: out)
  case Nil
  then show ?case by (simp add: scan_segment.simps limited_def scan_one_def)
next
  case (Cons e es)
  show ?case
  proof (cases "0 < n \<and> n \<le> length out")
    case True
    with Cons.prems(2) show ?thesis by (subst scan_segment.simps) (auto simp: limited_def)
  next
    case False
    have "scan_one (rec_of e @ raw es) = Found e (length (rec_of e))"
      by (rule scan_frame) (use Cons.prems(1) in \<open>simp_all add: good_def\<close>)
    then have "scan_segment s n (raw (e # es)) out = scan_segment s n (raw es) (if le_session e = s then out @ [e] else out)"
      using False by (subst scan_segment.simps) auto
    also have "\<dots> = limited n ((if le_session e = s then out @ [e] else out) @ filter (\<lambda>e. le_session e = s) es)"
      by (rule Cons.IH) (use Cons.prems False in auto)
    finally show ?thesis by simp
  qed
qed

lemma limited_limited: "limited n (limited n xs @ ys) = limited n (xs @ ys)"
  by (auto simp: limited_def min_def)

lemma scanFor_raw:
  "\<forall>es \<in> set ess. \<forall>e \<in> set es. good e \<Longrightarrow> (0 < n \<Longrightarrow> length out \<le> n) \<Longrightarrow>
   scanFor s n (map (\<lambda>es. Some (raw es)) ess) out = limited n (out @ filter (\<lambda>e. le_session e = s) (concat ess))"
proof (induction ess arbitrary: out)
  case Nil
  then show ?case by (simp add: limited_def)
next
  case (Cons es ess)
  define out' where "out' = scan_segment s n (raw es) out"
  have out': "out' = limited n (out @ filter (\<lambda>e. le_session e = s) es)"
    unfolding out'_def by (rule scan_segment_raw) (use Cons.prems in auto)
  show ?case
  proof (cases "0 < n \<and> n \<le> length out'")
    case True
    then have "take n out' = limited n ((out @ filter (\<lambda>e. le_session e = s) es) @ filter (\<lambda>e. le_session e = s) (concat ess))"
      by (auto simp: out' limited_def min_def split: if_splits)
    with True show ?thesis by (simp add: out'_def [symmetric])
  next
    case False
    have "scanFor s n (map (\<lambda>es. Some (raw es)) ess) out' = limited n (out' @ filter (\<lambda>e. le_session e = s) (concat ess))"
      by (rule Cons.IH) (use Cons.prems False in auto)
    with False show ?thesis
      unfolding list.map scanFor.simps Let_def out'_def [symmetric] by (simp only: if_False) (simp add: out' limited_limited)
  qed
qed

end
