(* ===== verification/Seglog_Refine.thy ===== *)
theory Seglog_Refine
  imports Seglog_Inv
begin

text \<open>The operations keep the invariant, and a read gives what the history holds.\<close>

section \<open>The index\<close>

definition idx_ok :: "bool \<Rightarrow> (log_entry \<times> locator) list \<Rightarrow> string \<Rightarrow> session_index \<Rightarrow> bool" where
  "idx_ok c N s si \<longleftrightarrow> (c \<longrightarrow> si_total si = length (of_session s N)
     \<and> si_errors si = length (filter (\<lambda>(e, x). le_kind e = ''error'') (of_session s N)))
     \<and> distinct (si_segs si) \<and> set (si_segs si) = (lo_seg \<circ> snd) ` set (of_session s N)
     \<and> (\<not> si_evicted si \<longrightarrow> si_locs si = map snd (of_session s N))"

definition idx_inv :: "bool \<Rightarrow> (log_entry \<times> locator) list \<Rightarrow> (string \<times> session_index) list \<Rightarrow> bool" where
  "idx_inv c N idx \<longleftrightarrow> distinct (map fst idx) \<and> (\<forall>(s, si) \<in> set idx. idx_ok c N s si)
     \<and> (\<forall>s. of_session s N \<noteq> [] \<longrightarrow> s \<in> fst ` set idx)"

lemma set_al_put_eq: "distinct (map fst xs) \<Longrightarrow> set (al_put k v xs) = insert (k, v) {p \<in> set xs. fst p \<noteq> k}"
  by (induction k v xs rule: al_put.induct) (auto simp: image_iff)

lemma distinct_al_put: "distinct (map fst xs) \<Longrightarrow> distinct (map fst (al_put k v xs))"
  by (auto simp: keys_put image_iff)

lemma idx_inv_put:
  "idx_inv c N idx \<Longrightarrow> idx_ok c N s si \<Longrightarrow> idx_inv c N (al_put s si idx)"
  by (auto simp: idx_inv_def set_al_put_eq distinct_al_put)

lemma idx_ok_evicted: "idx_ok c N s si \<Longrightarrow> idx_ok c N s (si\<lparr>si_locs := [], si_evicted := True\<rparr>)"
  by (simp add: idx_ok_def)

text \<open>What the index does leaves everything else of the log alone.\<close>

definition same_log :: "seglog \<Rightarrow> seglog \<Rightarrow> bool" where
  "same_log l l' \<longleftrightarrow> sl_opt l' = sl_opt l \<and> sl_segs l' = sl_segs l \<and> sl_files l' = sl_files l \<and> sl_bytes l' = sl_bytes l
     \<and> sl_open l' = sl_open l \<and> sl_werr l' = sl_werr l \<and> sl_closing l' = sl_closing l \<and> sl_damage l' = sl_damage l"

lemma same_log_trans: "same_log l l' \<Longrightarrow> same_log l' l'' \<Longrightarrow> same_log l l''"
  by (simp add: same_log_def)

lemma evict_loop_inv:
  "idx_inv c N (sl_idx l) \<Longrightarrow> \<forall>(s, si) \<in> set vs. idx_ok c N s si \<Longrightarrow>
   idx_inv c N (sl_idx (evict_loop target vs l)) \<and> same_log l (evict_loop target vs l)"
proof (induction target vs l rule: evict_loop.induct)
  case (2 target i si vs l)
  show ?case
  proof (cases "sl_indexed l \<le> target")
    case True
    with 2 show ?thesis by (simp add: same_log_def)
  next
    case False
    let ?l = "l\<lparr>sl_idx := al_put i (si\<lparr>si_locs := [], si_evicted := True\<rparr>) (sl_idx l),
                sl_indexed := sl_indexed l - int (length (si_locs si))\<rparr>"
    have "idx_inv c N (sl_idx ?l)" using 2(2,3) by (simp add: idx_inv_put idx_ok_evicted)
    from 2(1) [OF False this] 2(3) False same_log_trans [of l ?l] show ?thesis by (simp add: same_log_def)
  qed
qed (simp add: same_log_def)

lemma evictIfOverBudget_inv:
  assumes "idx_inv c N (sl_idx l)"
  shows "idx_inv c N (sl_idx (evictIfOverBudget l)) \<and> same_log l (evictIfOverBudget l)"
proof -
  have "\<forall>(s, si) \<in> set (sort_key (\<lambda>(_, si). si_touched si) (filter (\<lambda>(_, si). \<not> si_evicted si \<and> si_locs si \<noteq> []) (sl_idx l))). idx_ok c N s si"
    using assms by (auto simp: idx_inv_def)
  from evict_loop_inv [OF assms this] assms show ?thesis by (simp add: evictIfOverBudget_def Let_def same_log_def)
qed

lemma of_session_snoc: "of_session s (N @ [(e, x)]) = of_session s N @ (if le_session e = s then [(e, x)] else [])"
  by (simp add: of_session_def)

lemma note_record_inv:
  assumes "idx_inv c N (sl_idx l)"
  shows "idx_inv c (N @ [(e, x)]) (sl_idx (note_record e x l)) \<and> same_log l (note_record e x l)"
proof -
  let ?s = "le_session e"
  define si0 where "si0 = (case al_get (sl_idx l) ?s of None \<Rightarrow> new_session_index | Some si \<Rightarrow> si)"
  define si where "si = si0\<lparr>si_touched := sl_clock l + 1, si_segs := List.insert (lo_seg x) (si_segs si0), si_total := si_total si0 + 1,
      si_errors := (if le_kind e = ''error'' then si_errors si0 + 1 else si_errors si0)\<rparr>"
  have ok0: "idx_ok c N ?s si0"
  proof (cases "al_get (sl_idx l) ?s")
    case None
    then have "of_session ?s N = []" using assms by (auto simp: idx_inv_def al_get_None_iff)
    with None show ?thesis by (simp add: si0_def idx_ok_def new_session_index_def)
  next
    case (Some y)
    then show ?thesis using assms al_get_SomeD [OF Some] by (auto simp: si0_def idx_inv_def)
  qed
  then have ok: "idx_ok c (N @ [(e, x)]) ?s (if si_evicted si then si else si\<lparr>si_locs := si_locs si @ [x]\<rparr>)"
    by (auto simp: idx_ok_def si_def of_session_snoc)
  have rest: "idx_ok c (N @ [(e, x)]) s si'" if "(s, si') \<in> set (sl_idx l)" "s \<noteq> ?s" for s si'
  proof -
    have "idx_ok c N s si'" using assms that(1) by (auto simp: idx_inv_def)
    moreover have "of_session s (N @ [(e, x)]) = of_session s N" using that(2) by (simp add: of_session_snoc)
    ultimately show ?thesis by (simp add: idx_ok_def)
  qed
  have put: "idx_inv c (N @ [(e, x)]) (al_put ?s (if si_evicted si then si else si\<lparr>si_locs := si_locs si @ [x]\<rparr>) (sl_idx l))"
    (is "idx_inv _ _ (al_put _ ?v _)")
  proof -
    have d: "distinct (map fst (sl_idx l))" and cov: "\<forall>s. of_session s N \<noteq> [] \<longrightarrow> s \<in> fst ` set (sl_idx l)"
      using assms by (simp_all add: idx_inv_def)
    have "s \<in> fst ` set (al_put ?s ?v (sl_idx l))" if "of_session s (N @ [(e, x)]) \<noteq> []" for s
      using that cov by (cases "s = ?s") (force simp: set_al_put_eq [OF d] of_session_snoc)+
    moreover have "\<forall>(s, si') \<in> set (al_put ?s ?v (sl_idx l)). idx_ok c (N @ [(e, x)]) s si'"
      using ok rest by (auto simp: set_al_put_eq [OF d])
    ultimately show ?thesis using d by (simp add: idx_inv_def distinct_al_put)
  qed
  show ?thesis
  proof (cases "si_evicted si")
    case True
    with put show ?thesis
      unfolding note_record_def Let_def si0_def [symmetric] si_def [symmetric] by (simp add: same_log_def)
  next
    case False
    let ?l = "l\<lparr>sl_clock := sl_clock l + 1, sl_idx := al_put ?s (si\<lparr>si_locs := si_locs si @ [x]\<rparr>) (sl_idx l), sl_indexed := sl_indexed l + 1\<rparr>"
    from put False have "idx_inv c (N @ [(e, x)]) (sl_idx ?l)" by simp
    from evictIfOverBudget_inv [OF this] False same_log_trans [of l ?l] show ?thesis
      unfolding note_record_def Let_def si0_def [symmetric] si_def [symmetric] by (simp add: same_log_def)
  qed
qed

lemma note_all_inv:
  "idx_inv c N (sl_idx l) \<Longrightarrow> idx_inv c (N @ P) (sl_idx (fold (\<lambda>(e, x). note_record e x) P l)) \<and> same_log l (fold (\<lambda>(e, x). note_record e x) P l)"
proof (induction P arbitrary: N l)
  case Nil
  then show ?case by (simp add: same_log_def)
next
  case (Cons p P)
  obtain e x where p: "p = (e, x)" by (cases p)
  from note_record_inv [OF Cons.prems, of e x] have step: "idx_inv c (N @ [(e, x)]) (sl_idx (note_record e x l))" "same_log l (note_record e x l)" by simp_all
  from Cons.IH [OF step(1)] same_log_trans [OF step(2)] show ?case by (simp add: p)
qed

section \<open>The invariant\<close>

definition sizes :: "history \<Rightarrow> (nat \<times> nat) list" where
  "sizes H = map (\<lambda>(ord, es). (ord, length (raw es))) H"

definition files_hold :: "(nat \<times> bytes) list \<Rightarrow> history \<Rightarrow> bool" where
  "files_hold files H \<longleftrightarrow> sorted_wrt (<) (map fst H)
     \<and> (\<forall>(ord, es) \<in> set H. al_get files ord = Some (raw es) \<and> (\<forall>e \<in> set es. good e))"

definition log_inv :: "bool \<Rightarrow> seglog \<Rightarrow> history \<Rightarrow> bool" where
  "log_inv c l H \<longleftrightarrow> H \<noteq> [] \<and> sl_segs l = sizes H \<and> files_hold (sl_files l) H \<and> idx_inv c (spots H) (sl_idx l)"

lemma sizes_append: "sizes (H @ H') = sizes H @ sizes H'"
  by (simp add: sizes_def)

lemma files_hold_append:
  "files_hold files (H @ [(ord, es)]) \<longleftrightarrow> files_hold files H \<and> (\<forall>o' \<in> fst ` set H. o' < ord)
     \<and> al_get files ord = Some (raw es) \<and> (\<forall>e \<in> set es. good e)"
  by (auto simp: files_hold_def sorted_wrt_append)

lemma files_hold_cons:
  "files_hold files ((ord, es) # H) \<longleftrightarrow> files_hold files H \<and> (\<forall>o' \<in> fst ` set H. ord < o')
     \<and> al_get files ord = Some (raw es) \<and> (\<forall>e \<in> set es. good e)"
  by (auto simp: files_hold_def)

lemma files_hold_put: "files_hold files H \<Longrightarrow> ord \<notin> fst ` set H \<Longrightarrow> files_hold (al_put ord f files) H"
  by (force simp: files_hold_def)

lemma files_hold_del: "files_hold files H \<Longrightarrow> ord \<notin> fst ` set H \<Longrightarrow> files_hold (al_del ord files) H"
  by (force simp: files_hold_def)

lemma spots_snoc: "spots (H @ [(ord, es)]) = spots H @ place ord 0 (recs es)"
  by (simp add: spots_def)

lemma spots_Cons: "spots ((ord, es) # H) = place ord 0 (recs es) @ spots H"
  by (simp add: spots_def)

lemma idx_ok_weak: "idx_ok c N s si \<Longrightarrow> idx_ok False N s si"
  by (simp add: idx_ok_def)

lemma idx_inv_weak: "idx_inv c N idx \<Longrightarrow> idx_inv False N idx"
  unfolding idx_inv_def using idx_ok_weak by blast

lemma log_inv_weak: "log_inv c l H \<Longrightarrow> log_inv False l H"
  by (auto simp: log_inv_def dest: idx_inv_weak)

lemma log_inv_and: "log_inv c l H \<Longrightarrow> log_inv (c \<and> d) l H"
  by (cases d) (auto dest: log_inv_weak)

section \<open>Reading\<close>

lemma spots_placed:
  assumes "files_hold files H" "(e, x) \<in> set (spots H)"
  shows "placed files e x"
proof -
  from assms(2) obtain ord es where es: "(ord, es) \<in> set H" "(e, x) \<in> set (place ord 0 (recs es))"
    by (auto simp: spots_def)
  with assms(1) have f: "al_get files ord = Some (raw es)" "\<forall>e \<in> set es. good e" by (auto simp: files_hold_def)
  have "slot ([] @ raw es @ []) e x" by (rule place_slot [OF f(2) _ es(2)]) simp
  with f(1) place_seg [OF es(2)] show ?thesis by (simp add: placed_def)
qed

lemma of_session_all: "map fst (of_session s (spots H)) = filter (\<lambda>e. le_session e = s) (all_of H)"
proof -
  have "map fst (filter (\<lambda>(e, x). P e) ps) = filter P (map fst ps)" for P and ps :: "(log_entry \<times> locator) list"
    by (induction ps) auto
  then show ?thesis by (simp add: of_session_def fst_spots)
qed

lemma set_place_fst: "e \<in> set es \<longleftrightarrow> (\<exists>x. (e, x) \<in> set (place ord 0 (recs es)))"
proof -
  have "e \<in> set es \<longleftrightarrow> e \<in> fst ` set (place ord 0 (recs es))" by (metis fst_place list.set_map)
  then show ?thesis by force
qed

lemma segs_of_session:
  "(lo_seg \<circ> snd) ` set (of_session s (spots H)) = fst ` set (filter (\<lambda>(ord, es). \<exists>e \<in> set es. le_session e = s) H)" (is "?L = ?R")
proof (intro set_eqI iffI)
  fix g assume "g \<in> ?L"
  then obtain e x where "(e, x) \<in> set (spots H)" "le_session e = s" "lo_seg x = g" by (auto simp: of_session_def)
  then obtain ord es where "(ord, es) \<in> set H" "(e, x) \<in> set (place ord 0 (recs es))" by (auto simp: spots_def)
  moreover from this(2) have "lo_seg x = ord" "e \<in> set es" using place_seg set_place_fst by blast+
  ultimately show "g \<in> ?R" using \<open>le_session e = s\<close> \<open>lo_seg x = g\<close> by force
next
  fix g assume "g \<in> ?R"
  then obtain es e where g: "(g, es) \<in> set H" "e \<in> set es" "le_session e = s" by auto
  obtain x where x: "(e, x) \<in> set (place g 0 (recs es))" using g(2) set_place_fst by blast
  then have "lo_seg x = g" by (rule place_seg)
  moreover have "(e, x) \<in> set (of_session s (spots H))" using g x by (auto simp: of_session_def spots_def)
  ultimately show "g \<in> ?L" by force
qed

lemma filter_concat_some:
  "filter (\<lambda>e. le_session e = s) (concat (map snd (filter (\<lambda>(ord, es). \<exists>e \<in> set es. le_session e = s) H)))
   = filter (\<lambda>e. le_session e = s) (all_of H)"
  by (induction H) (auto simp: all_of_def filter_empty_conv)

text \<open>A read gives the first entries of the session, whether its locators are in memory or not.\<close>

lemma Session_reads:
  assumes "log_inv c l H"
  shows "log_Session s n l = (limited n (filter (\<lambda>e. le_session e = s) (all_of H)), None)"
proof -
  have files: "files_hold (sl_files l) H" and idx: "idx_inv c (spots H) (sl_idx l)" and segs: "sl_segs l = sizes H"
    using assms by (simp_all add: log_inv_def)
  show ?thesis
  proof (cases "al_get (sl_idx l) s")
    case None
    then have "of_session s (spots H) = []" using idx by (auto simp: idx_inv_def al_get_None_iff)
    then have "filter (\<lambda>e. le_session e = s) (all_of H) = []" using of_session_all [of s H] by simp
    with None show ?thesis by (simp add: log_Session_def limited_def)
  next
    case (Some si)
    have ok: "idx_ok c (spots H) s si" using idx al_get_SomeD [OF Some] by (auto simp: idx_inv_def)
    show ?thesis
    proof (cases "si_evicted si")
      case False
      then have locs: "si_locs si = map snd (of_session s (spots H))" using ok by (simp add: idx_ok_def)
      have pl: "\<forall>(e, x) \<in> set (limited n (of_session s (spots H))). placed (sl_files l) e x"
        using spots_placed [OF files] by (auto simp: of_session_def limited_def dest: in_set_takeD)
      have "(if 0 < n \<and> n < length (si_locs si) then take n (si_locs si) else si_locs si) = map snd (limited n (of_session s (spots H)))"
        by (auto simp: locs limited_def take_map)
      then have "log_Session s n l = (map fst (limited n (of_session s (spots H))), None)"
        using readLocators_placed [OF pl] Some False by (simp add: log_Session_def)
      also have "map fst (limited n (of_session s (spots H))) = limited n (map fst (of_session s (spots H)))"
        by (simp add: limited_def take_map)
      finally show ?thesis by (simp add: of_session_all)
    next
      case True
      define F where "F = filter (\<lambda>(ord, es). \<exists>e \<in> set es. le_session e = s) H"
      have sub: "set F \<subseteq> set H" by (auto simp: F_def)
      have "sorted_wrt (<) (map fst H)" using files by (simp add: files_hold_def)
      then have "sorted_wrt (<) (map fst F)" unfolding F_def by (induction H) auto
      then have sd: "sorted (map fst F)" "distinct (map fst F)" by (simp_all add: strict_sorted_iff)
      have "set (sort (si_segs si)) = set (map fst F)" using ok segs_of_session [of s H] by (simp add: idx_ok_def F_def)
      moreover have "distinct (sort (si_segs si))" using ok by (simp add: idx_ok_def)
      ultimately have "sort (si_segs si) = map fst F" using sd by (intro sorted_distinct_set_unique) simp_all
      moreover have "\<forall>ord \<in> set (map fst F). ord \<in> fst ` set (sl_segs l)"
        using sub by (force simp: segs sizes_def)
      ultimately have paths: "pathsFor (si_segs si) l = map fst F" by (simp add: pathsFor_def)
      have fs: "map (al_get (sl_files l)) (map fst F) = map (\<lambda>es. Some (raw es)) (map snd F)"
        using files sub by (force simp: files_hold_def)
      have "scanFor s n (map (\<lambda>es. Some (raw es)) (map snd F)) [] = limited n ([] @ filter (\<lambda>e. le_session e = s) (concat (map snd F)))"
        by (rule scanFor_raw) (use files sub in \<open>force simp: files_hold_def\<close>)+
      then have "scanFor s n (map (al_get (sl_files l)) (pathsFor (si_segs si) l)) [] = limited n (filter (\<lambda>e. le_session e = s) (concat (map snd F)))"
        unfolding paths fs by simp
      then have "scanFor s n (map (al_get (sl_files l)) (pathsFor (si_segs si) l)) [] = limited n (filter (\<lambda>e. le_session e = s) (all_of H))"
        unfolding F_def filter_concat_some .
      then show ?thesis
        using Some True unfolding log_Session_def by simp
    qed
  qed
qed

lemma Counts_reads:
  assumes "log_inv True l H"
  shows "Counts s l = (length (filter (\<lambda>e. le_session e = s) (all_of H)),
    length (filter (\<lambda>e. le_session e = s \<and> le_kind e = ''error'') (all_of H)))"
proof -
  have len: "length (filter (\<lambda>(e, x). P e) ps) = length (filter P (map fst ps))" for P and ps :: "(log_entry \<times> locator) list"
    by (induction ps) auto
  have errs: "length (filter (\<lambda>(e, x). le_kind e = ''error'') (of_session s (spots H)))
      = length (filter (\<lambda>e. le_session e = s \<and> le_kind e = ''error'') (all_of H))"
    unfolding len of_session_all by (simp add: conj_commute)
  have tot: "length (of_session s (spots H)) = length (filter (\<lambda>e. le_session e = s) (all_of H))"
    using arg_cong [OF of_session_all, of length s H] by simp
  have idx: "idx_inv True (spots H) (sl_idx l)" using assms by (simp add: log_inv_def)
  show ?thesis
  proof (cases "al_get (sl_idx l) s")
    case None
    then have "of_session s (spots H) = []" using idx by (auto simp: idx_inv_def al_get_None_iff)
    with tot errs None show ?thesis by (simp add: Counts_def)
  next
    case (Some si)
    have "idx_ok True (spots H) s si" using idx al_get_SomeD [OF Some] by (auto simp: idx_inv_def)
    with tot errs Some show ?thesis by (simp add: Counts_def idx_ok_def)
  qed
qed

end
