(* ===== verification/Seglog_Run.thy ===== *)
theory Seglog_Run
  imports Seglog_Refine
begin

text \<open>
  A batch, a rotation and a prune keep the invariant, whichever of the calls of the rotation and the
  prune fail, and so does opening a directory.
\<close>

section \<open>Pruning\<close>

lemma spots_seg: "(e, x) \<in> set (spots H) \<Longrightarrow> lo_seg x \<in> fst ` set H"
  by (force simp: spots_def dest: place_seg)

lemma of_session_append: "of_session s (N @ N') = of_session s N @ of_session s N'"
  by (simp add: of_session_def)

text \<open>What is left of the index of a session when the first segment goes.\<close>

lemma forget_one_ok:
  assumes "idx_ok c (place ord 0 (recs es) @ spots H) s si" "\<forall>o' \<in> fst ` set H. ord < o'"
  shows "case fst (forget_one ord si) of None \<Rightarrow> of_session s (spots H) = [] | Some si' \<Rightarrow> idx_ok False (spots H) s si'"
proof -
  let ?P = "of_session s (place ord 0 (recs es))" and ?R = "of_session s (spots H)"
  have P: "\<forall>(e, x) \<in> set ?P. lo_seg x = ord" by (auto simp: of_session_def dest: place_seg)
  have R: "\<forall>(e, x) \<in> set ?R. lo_seg x \<noteq> ord" using assms(2) spots_seg by (fastforce simp: of_session_def)
  have segs: "distinct (si_segs si)" "set (si_segs si) = (lo_seg \<circ> snd) ` set ?P \<union> (lo_seg \<circ> snd) ` set ?R"
    and locs: "\<not> si_evicted si \<Longrightarrow> si_locs si = map snd ?P @ map snd ?R"
    using assms(1) by (simp_all add: idx_ok_def of_session_append image_Un)
  have imP: "(lo_seg \<circ> snd) ` set ?P \<subseteq> {ord}" and imR: "ord \<notin> (lo_seg \<circ> snd) ` set ?R" using P R by force+
  show ?thesis
  proof (cases "ord \<in> set (si_segs si)")
    case False
    then have "?P = []" using segs(2) imP by (cases ?P) auto
    with False segs locs show ?thesis by (simp add: forget_one_def idx_ok_def)
  next
    case True
    have kept: "set (removeAll ord (si_segs si)) = (lo_seg \<circ> snd) ` set ?R" using segs(2) imP imR by auto
    have d: "distinct (removeAll ord (si_segs si))" using segs(1) by (simp add: distinct_removeAll)
    have "filter (\<lambda>x. lo_seg x \<noteq> ord) (map snd ?P) = []" using P by (auto simp: filter_empty_conv)
    moreover have "filter (\<lambda>x. lo_seg x \<noteq> ord) (map snd ?R) = map snd ?R" using R by (auto simp: filter_id_conv)
    ultimately have "\<not> si_evicted si \<Longrightarrow> filter (\<lambda>x. lo_seg x \<noteq> ord) (si_locs si) = map snd ?R" using locs by simp
    moreover have "removeAll ord (si_segs si) = [] \<Longrightarrow> ?R = []" using kept by auto
    ultimately show ?thesis using True kept d by (auto simp: forget_one_def Let_def idx_ok_def)
  qed
qed

lemma map_filter_pairs:
  "List.map_filter (\<lambda>(i, v). map_option (Pair i) (f v)) xs = map (\<lambda>(i, v). (i, the (f v))) (filter (\<lambda>(i, v). f v \<noteq> None) xs)"
  by (induction xs) (auto simp: List.map_filter_simps split: option.splits)

lemma forget_inv:
  assumes "idx_inv c (spots ((ord, es) # H)) (sl_idx l)" "\<forall>o' \<in> fst ` set H. ord < o'"
  shows "idx_inv False (spots H) (sl_idx (forget ord l))"
proof -
  let ?idx = "sl_idx l" and ?f = "\<lambda>si. fst (forget_one ord si)"
  have d: "distinct (map fst ?idx)" and ok: "\<And>s si. (s, si) \<in> set ?idx \<Longrightarrow> idx_ok c (place ord 0 (recs es) @ spots H) s si"
    and cov: "\<And>s. of_session s (spots H) \<noteq> [] \<Longrightarrow> s \<in> fst ` set ?idx"
    using assms(1) by (auto simp: idx_inv_def spots_Cons of_session_append)
  have new: "sl_idx (forget ord l) = map (\<lambda>(i, v). (i, the (?f v))) (filter (\<lambda>(i, v). ?f v \<noteq> None) ?idx)"
    by (simp add: forget_def map_filter_pairs)
  have "map fst (sl_idx (forget ord l)) = map fst (filter (\<lambda>(i, v). ?f v \<noteq> None) ?idx)"
    unfolding new by (simp add: case_prod_beta)
  then have "distinct (map fst (sl_idx (forget ord l)))" using d by (metis distinct_map_filter)
  moreover have "idx_ok False (spots H) s si'" if "(s, si') \<in> set (sl_idx (forget ord l))" for s si'
    using that forget_one_ok [OF ok assms(2)] by (fastforce simp: new)
  moreover have "s \<in> fst ` set (sl_idx (forget ord l))" if ne: "of_session s (spots H) \<noteq> []" for s
  proof -
    obtain si where si: "(s, si) \<in> set ?idx" using cov [OF ne] by auto
    with forget_one_ok [OF ok [OF si] assms(2)] ne obtain si' where "?f si = Some si'" by (cases "?f si") auto
    with si show ?thesis by (force simp: new image_iff)
  qed
  ultimately show ?thesis by (auto simp: idx_inv_def)
qed

lemma prune_segs_inv:
  "H \<noteq> [] \<Longrightarrow> files_hold (sl_files l) H \<Longrightarrow> idx_inv False (spots H) (sl_idx l) \<Longrightarrow>
   \<exists>j H'. log_inv False (prune_segs io k (sizes H) l) H' \<and> all_of H' = drop j (all_of H) \<and> sl_opt (prune_segs io k (sizes H) l) = sl_opt l
     \<and> sl_closing (prune_segs io k (sizes H) l) = sl_closing l"
proof (induction H arbitrary: l k)
  case (Cons p H)
  obtain ord es where p: "p = (ord, es)" by (cases p)
  show ?case
  proof (cases H)
    case Nil
    with Cons.prems show ?thesis by (intro exI [of _ 0] exI [of _ "[p]"]) (simp add: p sizes_def log_inv_def)
  next
    case (Cons q H')
    let ?l = "forget ord (l\<lparr>sl_bytes := sl_bytes l - int (length (raw es)), sl_files := al_del ord (sl_files l)\<rparr>)"
    have sz: "sizes (p # H) = (ord, length (raw es)) # (fst q, length (raw (snd q))) # sizes H'"
      by (simp add: p Cons sizes_def case_prod_beta)
    have sz': "sizes H = (fst q, length (raw (snd q))) # sizes H'" by (simp add: Cons sizes_def case_prod_beta)
    have hold: "files_hold (sl_files l) H" "\<forall>o' \<in> fst ` set H. ord < o'"
      using Cons.prems(2) by (simp_all add: p files_hold_cons)
    have stop: "\<exists>j H'. log_inv False (l\<lparr>sl_segs := sizes (p # H), sl_damage := dm\<rparr>) H' \<and> all_of H' = drop j (all_of (p # H))" for dm
      using Cons.prems by (intro exI [of _ 0] exI [of _ "p # H"]) (simp add: log_inv_def)
    have stop': "\<exists>j H'. log_inv False (l\<lparr>sl_segs := sizes (p # H)\<rparr>) H' \<and> all_of H' = drop j (all_of (p # H))"
      using Cons.prems by (intro exI [of _ 0] exI [of _ "p # H"]) (simp add: log_inv_def)
    have go: "\<exists>j H'. log_inv False (prune_segs io (k + 1) (sizes H) ?l) H' \<and> all_of H' = drop j (all_of (p # H))
      \<and> sl_opt (prune_segs io (k + 1) (sizes H) ?l) = sl_opt l \<and> sl_closing (prune_segs io (k + 1) (sizes H) ?l) = sl_closing l"
    proof -
      have f: "files_hold (sl_files ?l) H" using hold by (simp add: forget_def) (force intro: files_hold_del)
      have i: "idx_inv False (spots H) (sl_idx ?l)"
        by (rule forget_inv [where c = False and es = es]) (use Cons.prems(3) hold(2) p in simp_all)
      have "H \<noteq> []" using Cons by simp
      from Cons.IH [OF this f i, of "k + 1"] obtain j H'' where
        "log_inv False (prune_segs io (k + 1) (sizes H) ?l) H''" "all_of H'' = drop j (all_of H)"
        "sl_opt (prune_segs io (k + 1) (sizes H) ?l) = sl_opt ?l" "sl_closing (prune_segs io (k + 1) (sizes H) ?l) = sl_closing ?l" by blast
      moreover have "drop j (all_of H) = drop (length es + j) (all_of (p # H))" by (simp add: all_of_def p)
      ultimately show ?thesis by (intro exI [of _ "length es + j"] exI [of _ H'']) (simp add: forget_def)
    qed
    show ?thesis
      using stop stop' go unfolding sz sz' by auto
  qed
qed simp

lemma prune_inv:
  assumes "log_inv c l H"
  shows "\<exists>j H'. log_inv (c \<and> op_max_bytes (sl_opt l) \<le> 0) (prune io l) H' \<and> all_of H' = drop j (all_of H)
    \<and> (op_max_bytes (sl_opt l) \<le> 0 \<longrightarrow> j = 0) \<and> sl_opt (prune io l) = sl_opt l \<and> sl_closing (prune io l) = sl_closing l"
proof (cases "op_max_bytes (sl_opt l) \<le> 0")
  case True
  with assms show ?thesis by (intro exI [of _ 0] exI [of _ H]) (simp add: prune_def)
next
  case False
  have "H \<noteq> []" "files_hold (sl_files l) H" "idx_inv False (spots H) (sl_idx l)" "sl_segs l = sizes H"
    using log_inv_weak [OF assms] by (simp_all add: log_inv_def)
  with prune_segs_inv [of H l io 0] False show ?thesis by (simp add: prune_def)
qed

section \<open>Rotating\<close>

lemma rotate_inv:
  assumes "log_inv c l H" "rotate_log io l = (l', ok)"
  shows "\<exists>j H'. log_inv (c \<and> op_max_bytes (sl_opt l) \<le> 0) l' H' \<and> all_of H' = drop j (all_of H)
    \<and> (op_max_bytes (sl_opt l) \<le> 0 \<longrightarrow> j = 0) \<and> sl_opt l' = sl_opt l \<and> sl_closing l' = sl_closing l"
proof -
  obtain H0 ord es where H: "H = H0 @ [(ord, es)]"
    using assms(1) by (metis log_inv_def append_butlast_last_id prod.collapse)
  have weak: "log_inv (c \<and> op_max_bytes (sl_opt l) \<le> 0) l H" by (rule log_inv_and [OF assms(1)])
  show ?thesis
  proof (cases "io 0 \<or> io 1 \<or> io 2")
    case True
    with assms(2) weak show ?thesis
      by (intro exI [of _ 0] exI [of _ H]) (auto simp: rotate_log_def log_inv_def split: if_splits)
  next
    case False
    define l3 where "l3 = l\<lparr>sl_segs := sl_segs l @ [(ord + 1, 0)], sl_files := al_put (ord + 1) [] (sl_files l), sl_open := True, sl_werr := False\<rparr>"
    have last: "fst (last (sl_segs l)) = ord" using assms(1) by (simp add: log_inv_def H sizes_append) (simp add: sizes_def)
    have l': "l' = prune (\<lambda>k. io (4 + k)) l3"
      using assms(2) False by (simp add: rotate_log_def last Let_def l3_def)
    have files: "files_hold (sl_files l) H" using assms(1) by (simp add: log_inv_def)
    then have new: "ord + 1 \<notin> fst ` set H" "\<forall>o' \<in> fst ` set H. o' < ord + 1" by (force simp: H files_hold_append)+
    have "files_hold (al_put (ord + 1) [] (sl_files l)) H" by (rule files_hold_put [OF files new(1)])
    then have "log_inv c l3 (H @ [(ord + 1, [])])"
      using assms(1) new(2) unfolding log_inv_def l3_def files_hold_append sizes_append spots_snoc by (simp add: sizes_def)
    from prune_inv [OF this] obtain j H' where p: "log_inv (c \<and> op_max_bytes (sl_opt l3) \<le> 0) l' H'"
      "all_of H' = drop j (all_of (H @ [(ord + 1, [])]))" "op_max_bytes (sl_opt l3) \<le> 0 \<longrightarrow> j = 0" "sl_opt l' = sl_opt l3"
      "sl_closing l' = sl_closing l3" unfolding l' by blast
    have "all_of (H @ [(ord + 1, [])]) = all_of H" by (simp add: all_of_def)
    with p show ?thesis by (intro exI [of _ j] exI [of _ H']) (simp add: l3_def)
  qed
qed

section \<open>Batches\<close>

lemma flush_inv:
  assumes "log_inv c l H" "\<forall>e \<in> set es. good e" "wr = Written \<or> wr = WriteFailed 0" "flush wr io (recs es) l = (l', ok)"
  shows "\<exists>j H'. log_inv (c \<and> op_max_bytes (sl_opt l) \<le> 0) l' H' \<and> all_of H' = drop j (all_of H @ (if ok then es else []))
    \<and> (op_max_bytes (sl_opt l) \<le> 0 \<longrightarrow> j = 0) \<and> sl_opt l' = sl_opt l \<and> sl_closing l' = sl_closing l"
proof (cases "es = []")
  case True
  have "log_inv (c \<and> op_max_bytes (sl_opt l) \<le> 0) l H" by (rule log_inv_and [OF assms(1)])
  with True assms(4) show ?thesis by (intro exI [of _ 0] exI [of _ H]) (simp add: flush_def)
next
  case False
  obtain H0 ord es0 where H: "H = H0 @ [(ord, es0)]"
    using assms(1) by (metis log_inv_def append_butlast_last_id prod.collapse)
  have files: "files_hold (sl_files l) H0" "\<forall>o' \<in> fst ` set H0. o' < ord" "al_get (sl_files l) ord = Some (raw es0)" "\<forall>e \<in> set es0. good e"
    and segs: "sl_segs l = sizes H0 @ [(ord, length (raw es0))]" and idx: "idx_inv c (spots H) (sl_idx l)"
    using assms(1) unfolding log_inv_def H files_hold_append by (simp_all add: sizes_append) (simp_all add: sizes_def)
  have notin: "ord \<notin> fst ` set H0" using files(2) by blast
  have ne: "recs es \<noteq> []" using False by (simp add: recs_def)
  have weak: "log_inv (c \<and> op_max_bytes (sl_opt l) \<le> 0) l H" by (rule log_inv_and [OF assms(1)])
  show ?thesis
  proof (cases "wr = WriteFailed 0 \<or> \<not> sl_open l \<or> sl_werr l")
    case True
    then have eff: "outcome wr l = WriteFailed 0" by (auto simp: outcome_def)
    have "flush wr io (recs es) l = ((extend_file ord [] l)\<lparr>sl_werr := True\<rparr>, False)"
      by (simp add: flush_def segs eff ne)
    then have "l' = (extend_file ord [] l)\<lparr>sl_werr := True\<rparr>" "ok = False" using assms(4) by simp_all
    moreover have "files_hold (sl_files (extend_file ord [] l)) H"
      using files notin by (simp add: extend_file_def H files_hold_append files_hold_put)
    ultimately show ?thesis
      using weak by (intro exI [of _ 0] exI [of _ H]) (simp add: log_inv_def extend_file_def)
  next
    case st: False
    define H1 where "H1 = H0 @ [(ord, es0 @ es)]"
    define l1 where "l1 = (extend_file ord (raw es) l)\<lparr>sl_segs := butlast (sl_segs l) @ [(ord, length (raw es0) + length (raw es))],
        sl_bytes := sl_bytes l + int (length (raw es))\<rparr>"
    define l2 where "l2 = fold (\<lambda>(e, x). note_record e x) (place ord (length (raw es0)) (recs es)) l1"
    have "spots H1 = spots H @ place ord (length (raw es0)) (recs es)"
      unfolding H H1_def spots_snoc place_append by simp
    moreover have "idx_inv c (spots H) (sl_idx l1)" using idx by (simp add: l1_def extend_file_def)
    ultimately have l2: "idx_inv c (spots H1) (sl_idx l2)" "same_log l1 l2" using note_all_inv by (simp_all add: l2_def)
    have "files_hold (sl_files l1) H1"
      using files notin assms(2) by (auto simp: l1_def extend_file_def H1_def files_hold_append intro: files_hold_put)
    then have inv2: "log_inv c l2 H1"
      using l2 by (simp add: log_inv_def same_log_def H1_def l1_def segs sizes_append extend_file_def) (simp add: sizes_def)
    have all1: "all_of H1 = all_of H @ es" by (simp add: H H1_def all_of_def)
    have same2: "sl_opt l2 = sl_opt l" "sl_closing l2 = sl_closing l" using l2(2) by (simp_all add: same_log_def l1_def extend_file_def)
    have fl: "flush wr io (recs es) l =
        (if segmentBytes (sl_opt l2) \<le> int (length (raw es0) + length (raw es))
         then (case rotate_log io l2 of (l, True) \<Rightarrow> l | (l, False) \<Rightarrow> l\<lparr>sl_damage := sl_damage l @ [RotationFailed]\<rparr>) else l2, True)"
      using assms(3) st ne
      by (auto simp add: flush_def outcome_def segs Let_def concat_recs l2_def l1_def [symmetric, unfolded segs butlast_snoc])
    have weak2: "log_inv (c \<and> op_max_bytes (sl_opt l) \<le> 0) l2 H1" by (rule log_inv_and [OF inv2])
    show ?thesis
    proof (cases "segmentBytes (sl_opt l2) \<le> int (length (raw es0) + length (raw es))")
      case False
      then have "l' = l2" "ok" using fl assms(4) by simp_all
      with weak2 all1 same2 show ?thesis by (intro exI [of _ 0] exI [of _ H1]) simp
    next
      case True
      obtain l3 b where r: "rotate_log io l2 = (l3, b)" by fastforce
      from rotate_inv [OF inv2 r] obtain j H' where j: "log_inv (c \<and> op_max_bytes (sl_opt l) \<le> 0) l3 H'" "all_of H' = drop j (all_of H @ es)"
        "op_max_bytes (sl_opt l) \<le> 0 \<longrightarrow> j = 0" "sl_opt l3 = sl_opt l" "sl_closing l3 = sl_closing l"
        unfolding all1 same2 by blast
      have "ok" "l' = l3 \<or> l' = l3\<lparr>sl_damage := sl_damage l3 @ [RotationFailed]\<rparr>"
        using fl True r assms(4) by (auto split: bool.splits)
      with j show ?thesis by (intro exI [of _ j] exI [of _ H']) (auto simp: log_inv_def)
    qed
  qed
qed

text \<open>The entries of a batch whose append returned without an error.\<close>

definition acked :: "log_entry list \<Rightarrow> append_error option list \<Rightarrow> log_entry list" where
  "acked es rs = map fst (filter (\<lambda>(e, r). r = None) (zip es rs))"

lemma fits_encode: "fits e \<Longrightarrow> encode e = Inr (rec_of e)"
  by (simp add: encode_fits)

lemma not_fits_encode: "\<not> fits e \<Longrightarrow> \<exists>err. encode e = Inl err"
  by (cases "encode e") (auto simp: encode_fits)

lemma encoded_filter: "\<forall>e \<in> set es. ts_ok e \<Longrightarrow> encoded es = recs (filter fits es) \<and> (\<forall>e \<in> set (filter fits es). good e)"
proof (induction es)
  case (Cons e es)
  have "encoded (e # es) = (if fits e then (rec_of e, e) # encoded es else encoded es)"
    using not_fits_encode [of e] fits_encode [of e] by (cases "fits e") (auto simp: encoded_def List.map_filter_simps)
  with Cons show ?case by (auto simp: good_def)
qed (simp add: encoded_def List.map_filter_simps)

lemma acked_map: "acked es (map f es) = filter (\<lambda>e. f e = None) es"
  by (induction es) (auto simp: acked_def)

lemma append_batch_inv:
  assumes "log_inv c l H" "\<forall>e \<in> set es. ts_ok e" "wr = Written \<or> wr = WriteFailed 0" "append_batch wr io es l = (l', rs)"
  shows "\<exists>j H'. log_inv (c \<and> op_max_bytes (sl_opt l) \<le> 0) l' H' \<and> all_of H' = drop j (all_of H @ acked es rs)
    \<and> (op_max_bytes (sl_opt l) \<le> 0 \<longrightarrow> j = 0) \<and> sl_opt l' = sl_opt l"
proof (cases "sl_closing l")
  case True
  then have "l' = l" "acked es rs = []" using assms(4) by (auto simp: append_batch_def acked_map split: sum.splits)
  with log_inv_and [OF assms(1)] show ?thesis by (intro exI [of _ 0] exI [of _ H]) simp
next
  case False
  obtain l1 ok where fl: "flush wr io (recs (filter fits es)) l = (l1, ok)" by fastforce
  have enc: "encoded es = recs (filter fits es)" "\<forall>e \<in> set (filter fits es). good e" using encoded_filter [OF assms(2)] by blast+
  have l': "l' = l1" and rs: "rs = map (\<lambda>e. case encode e of Inl err \<Rightarrow> Some (NotEncoded err) | Inr _ \<Rightarrow> if ok then None else Some NotWritten) es"
    using assms(4) False fl enc(1) by (simp_all add: append_batch_def)
  have "(case encode e of Inl err \<Rightarrow> Some (NotEncoded err) | Inr _ \<Rightarrow> if ok then None else Some NotWritten) = None \<longleftrightarrow> ok \<and> fits e" for e
    using not_fits_encode [of e] fits_encode [of e] by (cases "fits e") auto
  then have ack: "acked es rs = (if ok then filter fits es else [])"
    unfolding rs acked_map by (simp add: filter_False)
  show ?thesis using flush_inv [OF assms(1) enc(2) assms(3) fl] unfolding l' ack by blast
qed

section \<open>Opening\<close>

lemma scan_from_raw:
  assumes "\<forall>e \<in> set es. good e" "scan_one torn = End \<or> (\<exists>b. scan_one torn = Bad b)"
  shows "\<exists>b. scan_from off (raw es @ torn) = (map (\<lambda>(e, x). (e, lo_off x, lo_size x)) (place ord off (recs es)), off + length (raw es), b)
    \<and> (scan_one torn = End \<longrightarrow> b = None)"
  using assms(1)
proof (induction es arbitrary: off)
  case Nil
  with assms(2) show ?case by (subst scan_from.simps) auto
next
  case (Cons e es)
  have "scan_one (rec_of e @ raw es @ torn) = Found e (length (rec_of e))"
    by (rule scan_frame) (use Cons.prems in \<open>simp_all add: good_def\<close>)
  moreover obtain b where "scan_from (off + length (rec_of e)) (raw es @ torn) =
      (map (\<lambda>(e, x). (e, lo_off x, lo_size x)) (place ord (off + length (rec_of e)) (recs es)), off + length (rec_of e) + length (raw es), b)"
    "scan_one torn = End \<longrightarrow> b = None" using Cons.IH [of "off + length (rec_of e)"] Cons.prems by auto
  ultimately show ?case by (subst scan_from.simps) (simp add: add.assoc)
qed

lemma scan_End: "scan_one [] = End"
  by (simp add: scan_one_def)

lemma fold_place:
  assumes "\<forall>(e, x) \<in> set P. lo_seg x = ord"
  shows "fold (\<lambda>(e, off, n). note_record e \<lparr>lo_seg = ord, lo_off = off, lo_size = n\<rparr>) (map (\<lambda>(e, x). (e, lo_off x, lo_size x)) P) l
    = fold (\<lambda>(e, x). note_record e x) P l"
  using assms
proof (induction P arbitrary: l)
  case (Cons p P)
  obtain e x where p: "p = (e, x)" by (cases p)
  have "\<lparr>lo_seg = ord, lo_off = lo_off x, lo_size = lo_size x\<rparr> = x" using Cons.prems p by (cases x) auto
  then have "fold (\<lambda>(e, off, n). note_record e \<lparr>lo_seg = ord, lo_off = off, lo_size = n\<rparr>) (map (\<lambda>(e, x). (e, lo_off x, lo_size x)) (p # P)) l
      = fold (\<lambda>(e, off, n). note_record e \<lparr>lo_seg = ord, lo_off = off, lo_size = n\<rparr>) (map (\<lambda>(e, x). (e, lo_off x, lo_size x)) P) (note_record e x l)"
    by (simp add: p)
  also have "\<dots> = fold (\<lambda>(e, x). note_record e x) P (note_record e x l)" by (rule Cons.IH) (use Cons.prems in auto)
  finally show ?case by (simp add: p)
qed simp

definition content :: "(nat \<times> bytes) list \<Rightarrow> nat \<Rightarrow> bytes" where
  "content files ord = (case al_get files ord of None \<Rightarrow> [] | Some f \<Rightarrow> f)"

text \<open>The log while the files are scanned: what is known of those before, what the files hold after.\<close>

definition scanned_inv :: "seglog \<Rightarrow> history \<Rightarrow> bool" where
  "scanned_inv l H \<longleftrightarrow> sl_segs l = sizes H \<and> files_hold (sl_files l) H \<and> idx_inv True (spots H) (sl_idx l) \<and> sl_damage l = []
     \<and> \<not> sl_werr l \<and> \<not> sl_closing l"

lemma scan_file_inv:
  assumes "scanned_inv l H" "\<forall>e \<in> set es. good e" "\<forall>o' \<in> fst ` set H. o' < ord" "content (sl_files l) ord = raw es @ torn"
    "if final then scan_one torn = End \<or> (\<exists>b. scan_one torn = Bad b) else torn = []"
  shows "scanned_inv (scan_file ord final l) (H @ [(ord, es)]) \<and> sl_opt (scan_file ord final l) = sl_opt l
    \<and> (\<forall>o'. ord < o' \<longrightarrow> content (sl_files (scan_file ord final l)) o' = content (sl_files l) o')"
proof -
  let ?P = "place ord 0 (recs es)"
  have torn: "scan_one torn = End \<or> (\<exists>b. scan_one torn = Bad b)" using assms(5) by (auto simp: scan_End split: if_splits)
  obtain b where sc: "scan_from 0 (raw es @ torn) = (map (\<lambda>(e, x). (e, lo_off x, lo_size x)) ?P, length (raw es), b)"
    and b: "scan_one torn = End \<longrightarrow> b = None" using scan_from_raw [OF assms(2) torn, of 0 ord] by auto
  have fp: "fold (\<lambda>(e, off, n). note_record e \<lparr>lo_seg = ord, lo_off = off, lo_size = n\<rparr>) (map (\<lambda>(e, x). (e, lo_off x, lo_size x)) ?P) l
      = fold (\<lambda>(e, x). note_record e x) ?P l" by (rule fold_place) (auto dest: place_seg)
  define l1 where "l1 = fold (\<lambda>(e, x). note_record e x) ?P l"
  have l1: "idx_inv True (spots (H @ [(ord, es)])) (sl_idx l1)" "same_log l l1"
    using note_all_inv [of True "spots H" l ?P] assms(1) by (simp_all add: l1_def scanned_inv_def spots_snoc)
  have final: "scan_file ord final l = l1\<lparr>sl_segs := sl_segs l1 @ [(ord, length (raw es))], sl_bytes := sl_bytes l1 + int (length (raw es)),
      sl_files := al_put ord (raw es) (sl_files l1)\<rparr>"
  proof (cases final)
    case True
    then show ?thesis using assms(4) by (simp add: scan_file_def content_def [symmetric] sc fp l1_def [symmetric] same_log_def [symmetric])
  next
    case False
    then have "torn = []" "b = None" using assms(5) b by (simp_all add: scan_End)
    with False show ?thesis using assms(4) sc by (simp add: scan_file_def Let_def content_def [symmetric] fp l1_def [symmetric])
  qed
  have notin: "ord \<notin> fst ` set H" using assms(3) by blast
  have "files_hold (al_put ord (raw es) (sl_files l)) (H @ [(ord, es)])"
    using assms(1,2,3) notin by (simp add: files_hold_append scanned_inv_def files_hold_put)
  moreover have "content (al_put ord (raw es) (sl_files l)) o' = content (sl_files l) o'" if "ord < o'" for o'
    using that by (simp add: content_def)
  ultimately show ?thesis
    using assms(1) l1 unfolding final by (simp add: scanned_inv_def same_log_def sizes_append) (simp add: sizes_def)
qed

lemma scan_files_inv:
  assumes "scanned_inv l H" "sorted_wrt (<) (map fst (H @ R @ [(ord, es)]))" "\<forall>(o', es') \<in> set (R @ [(ord, es)]). \<forall>e \<in> set es'. good e"
    "\<forall>(o', es') \<in> set R. content (sl_files l) o' = raw es'" "content (sl_files l) ord = raw es @ torn"
    "scan_one torn = End \<or> (\<exists>b. scan_one torn = Bad b)"
  shows "scanned_inv (scan_files (map fst (R @ [(ord, es)])) l) (H @ R @ [(ord, es)]) \<and> sl_opt (scan_files (map fst (R @ [(ord, es)])) l) = sl_opt l"
  using assms
proof (induction R arbitrary: H l)
  case Nil
  from scan_file_inv [of l H es ord torn True] Nil show ?case by (auto simp: sorted_wrt_append)
next
  case (Cons p R)
  obtain o1 es1 where p: "p = (o1, es1)" by (cases p)
  have later: "\<forall>o' \<in> fst ` set (R @ [(ord, es)]). o1 < o'" and before: "\<forall>o' \<in> fst ` set H. o' < o1"
    using Cons.prems(2) by (auto simp: sorted_wrt_append p)
  have ne: "(map fst (R @ [(ord, es)]) = []) = False" by simp
  have st: "scanned_inv (scan_file o1 False l) (H @ [p])" "sl_opt (scan_file o1 False l) = sl_opt l"
      "\<forall>o'. o1 < o' \<longrightarrow> content (sl_files (scan_file o1 False l)) o' = content (sl_files l) o'"
    using scan_file_inv [of l H es1 o1 "[]" False] Cons.prems before by (simp_all add: p)
  have "scanned_inv (scan_files (map fst (R @ [(ord, es)])) (scan_file o1 False l)) ((H @ [p]) @ R @ [(ord, es)])
      \<and> sl_opt (scan_files (map fst (R @ [(ord, es)])) (scan_file o1 False l)) = sl_opt (scan_file o1 False l)"
  proof (rule Cons.IH [OF st(1)])
    show "\<forall>(o', es') \<in> set R. content (sl_files (scan_file o1 False l)) o' = raw es'"
      using Cons.prems(4) st(3) later by force
    show "content (sl_files (scan_file o1 False l)) ord = raw es @ torn" using Cons.prems(5) st(3) later by force
  qed (use Cons.prems in auto)
  then show ?case using st(2) by (simp add: p)
qed

text \<open>A directory holds a history: numbered segments with its records, the last one followed by what a
  crash left, or nothing.\<close>

definition dir_holds :: "log_dir \<Rightarrow> history \<Rightarrow> bytes \<Rightarrow> bool" where
  "dir_holds d H torn \<longleftrightarrow> (\<exists>H0 ord es. H = H0 @ [(ord, es)] \<and> distinct (map fst (dr_files d)) \<and> set (map fst (dr_files d)) = fst ` set H
     \<and> sorted_wrt (<) (map fst H) \<and> (\<forall>(o', es') \<in> set H. \<forall>e \<in> set es'. good e)
     \<and> (\<forall>(o', es') \<in> set H0. al_get (dr_files d) o' = Some (raw es')) \<and> al_get (dr_files d) ord = Some (raw es @ torn))"

lemma OpenWith_inv:
  assumes "dir_holds d H torn" "scan_one torn = End \<or> (\<exists>b. scan_one torn = Bad b)"
  shows "log_inv True (OpenWith opt d) H \<and> sl_opt (OpenWith opt d) = opt \<and> sl_open (OpenWith opt d) \<and> \<not> sl_werr (OpenWith opt d)
    \<and> \<not> sl_closing (OpenWith opt d) \<and> sl_damage (OpenWith opt d) = []"
proof -
  from assms(1) obtain H0 ord es where H: "H = H0 @ [(ord, es)]" and d: "distinct (map fst (dr_files d))" "set (map fst (dr_files d)) = fst ` set H"
    and sw: "sorted_wrt (<) (map fst H)" and gd: "\<forall>(o', es') \<in> set H. \<forall>e \<in> set es'. good e"
    and f0: "\<forall>(o', es') \<in> set H0. al_get (dr_files d) o' = Some (raw es')" and f1: "al_get (dr_files d) ord = Some (raw es @ torn)"
    unfolding dir_holds_def by blast
  have files: "dr_files d \<noteq> []" using d(2) H by force
  then have m: "migrateLegacy d = d" by (simp add: migrateLegacy_def split: option.splits)
  have "segmentOrdinals d = map fst H"
    unfolding segmentOrdinals_def by (rule sorted_distinct_set_unique) (use d sw in \<open>simp_all add: strict_sorted_iff\<close>)
  moreover have "map fst H \<noteq> []" by (simp add: H)
  moreover define l0 where "l0 = \<lparr>sl_opt = opt, sl_segs = [], sl_idx = [], sl_indexed = 0, sl_clock = 0, sl_damage = [], sl_bytes = 0,
      sl_open = False, sl_werr = False, sl_closing = False, sl_files = dr_files d\<rparr>"
  ultimately have o': "OpenWith opt d = (scan_files (map fst H) l0)\<lparr>sl_open := True\<rparr>"
    by (simp add: OpenWith_def m)
  have "scanned_inv (scan_files (map fst (H0 @ [(ord, es)])) l0) ([] @ H0 @ [(ord, es)]) \<and> sl_opt (scan_files (map fst (H0 @ [(ord, es)])) l0) = sl_opt l0"
  proof (rule scan_files_inv)
    show "scanned_inv l0 []"
      by (simp add: scanned_inv_def l0_def sizes_def files_hold_def idx_inv_def spots_def of_session_def)
    show "\<forall>(o', es') \<in> set H0. content (sl_files l0) o' = raw es'" using f0 by (auto simp: l0_def content_def)
    show "content (sl_files l0) ord = raw es @ torn" using f1 by (simp add: l0_def content_def)
  qed (use sw gd H assms(2) in simp_all)
  then show ?thesis unfolding o' H by (simp add: log_inv_def scanned_inv_def l0_def)
qed

end
