(* ===== verification/Seglog_Properties.thy ===== *)
theory Seglog_Properties
  imports Seglog_Run "HOL-Library.Multiset"
begin

text \<open>
  What the segmented log promises the event log: what was acknowledged is read back, after a crash too;
  the index stays within its budget; and what a failing disk does to it.
\<close>

section \<open>Runs\<close>

definition never :: "nat \<Rightarrow> bool" where "never k \<longleftrightarrow> False"

fun append_batches ::
  "(write_outcome \<times> (nat \<Rightarrow> bool) \<times> log_entry list) list \<Rightarrow> seglog \<Rightarrow> seglog \<times> log_entry list" where
  "append_batches [] l = (l, [])"
| "append_batches ((wr, io, es) # bs) l =
     (case append_batch wr io es l of
        (l, rs) \<Rightarrow> (case append_batches bs l of (l, acks) \<Rightarrow> (l, acked es rs @ acks)))"

text \<open>A batch that is written, or whose write fails before it puts a byte down. One that fails half way, or
  at its \<^verbatim>\<open>fsync\<close>, leaves bytes in the file that nobody was promised.\<close>

definition batch_ok :: "write_outcome \<times> (nat \<Rightarrow> bool) \<times> log_entry list \<Rightarrow> bool" where
  "batch_ok b \<longleftrightarrow> (case b of (wr, io, es) \<Rightarrow> (wr = Written \<or> wr = WriteFailed 0) \<and> (\<forall>e \<in> set es. ts_ok e))"

lemma drop_suffix: "\<exists>k'. drop j (drop k xs @ ys) = drop k' (xs @ ys) \<and> (j = 0 \<and> k = 0 \<longrightarrow> k' = 0)"
proof (cases "k \<le> length xs")
  case True
  then have "drop j (drop k xs @ ys) = drop (j + k) (xs @ ys)" by (simp add: drop_append add.commute)
  then show ?thesis by (intro exI [of _ "j + k"]) simp
next
  case False
  then have "drop j (drop k xs @ ys) = drop (length xs + j) (xs @ ys)" by simp
  with False show ?thesis by (intro exI [of _ "length xs + j"]) simp
qed

lemma append_batches_inv:
  assumes "log_inv c l H" "\<forall>b \<in> set bs. batch_ok b" "append_batches bs l = (l', es)"
  shows "\<exists>j H'. log_inv (c \<and> op_max_bytes (sl_opt l) \<le> 0) l' H' \<and> all_of H' = drop j (all_of H @ es)
    \<and> (op_max_bytes (sl_opt l) \<le> 0 \<longrightarrow> j = 0) \<and> sl_opt l' = sl_opt l"
  using assms
proof (induction bs arbitrary: c l H es)
  case Nil
  then show ?case using log_inv_and [OF Nil(1)] by (intro exI [of _ 0] exI [of _ H]) simp
next
  case (Cons b bs)
  obtain wr io xs where b: "b = (wr, io, xs)" by (cases b)
  obtain l1 rs where ab: "append_batch wr io xs l = (l1, rs)" by fastforce
  obtain acks where bs: "append_batches bs l1 = (l', acks)" and es: "es = acked xs rs @ acks"
    using Cons.prems(3) by (auto simp: b ab split: prod.splits)
  from append_batch_inv [OF Cons.prems(1) _ _ ab] Cons.prems(2) obtain j1 H1 where
    one: "log_inv (c \<and> op_max_bytes (sl_opt l) \<le> 0) l1 H1" "all_of H1 = drop j1 (all_of H @ acked xs rs)"
      "op_max_bytes (sl_opt l) \<le> 0 \<longrightarrow> j1 = 0" "sl_opt l1 = sl_opt l" by (auto simp: b batch_ok_def)
  from Cons.IH [OF one(1) _ bs] Cons.prems(2) obtain j2 H2 where
    two: "log_inv ((c \<and> op_max_bytes (sl_opt l) \<le> 0) \<and> op_max_bytes (sl_opt l1) \<le> 0) l' H2" "all_of H2 = drop j2 (all_of H1 @ acks)"
      "op_max_bytes (sl_opt l1) \<le> 0 \<longrightarrow> j2 = 0" "sl_opt l' = sl_opt l1" by auto
  obtain k where k: "all_of H2 = drop k (all_of H @ es)" "j2 = 0 \<and> j1 = 0 \<longrightarrow> k = 0"
    using drop_suffix [of j2 j1 "all_of H @ acked xs rs" acks] two(2) one(2) by (auto simp: es)
  show ?case
    using two k one(3,4) by (intro exI [of _ k] exI [of _ H2]) simp
qed

text \<open>C9: Whatever batches are appended to a log opened on an undamaged directory of at least one segment, whichever of the writes fail before they put a byte
  down, and whichever rotations and deletions of old segments fail on the way, a session reads back exactly
  the entries whose append was acknowledged, in their order and after those the directory held, whether the
  index still knows where they are or had to drop it. Without a size limit nothing is missing and the counts
  agree; with one, what is missing is a prefix of the log, the same for every session. A write that fails
  half way and a failed \<^verbatim>\<open>fsync\<close> are not covered: they leave bytes behind.\<close>

theorem seglog_reads_back:
  assumes "dir_holds d H []" "\<forall>b \<in> set bs. batch_ok b" "append_batches bs (OpenWith opt d) = (l, es)"
  shows "\<exists>j. (op_max_bytes opt \<le> 0 \<longrightarrow> j = 0)
    \<and> (\<forall>s n. log_Session s n l = (limited n (filter (\<lambda>e. le_session e = s) (drop j (all_of H @ es))), None))
    \<and> (op_max_bytes opt \<le> 0 \<longrightarrow> (\<forall>s. fst (Counts s l) = length (filter (\<lambda>e. le_session e = s) (all_of H @ es))))"
proof -
  have o': "log_inv True (OpenWith opt d) H" "sl_opt (OpenWith opt d) = opt" using OpenWith_inv [OF assms(1)] scan_End by blast+
  from append_batches_inv [OF o'(1) assms(2,3)] obtain j H' where
    j: "log_inv (op_max_bytes opt \<le> 0) l H'" "all_of H' = drop j (all_of H @ es)" "op_max_bytes opt \<le> 0 \<longrightarrow> j = 0" by (auto simp: o'(2))
  have "fst (Counts s l) = length (filter (\<lambda>e. le_session e = s) (all_of H @ es))" if "op_max_bytes opt \<le> 0" for s
    using Counts_reads [of l H' s] j that by simp
  with Session_reads [OF j(1)] j(2,3) show ?thesis by (intro exI [of _ j]) simp
qed

definition entry_a :: log_entry where
  "entry_a = \<lparr>le_session = ''s'', le_msg = ''m1'', le_cause = '''', le_kind = ''data'', le_ts = 1, le_envelope = ''x''\<rparr>"

definition entry_b :: log_entry where
  "entry_b = \<lparr>le_session = ''s'', le_msg = ''m2'', le_cause = ''m1'', le_kind = ''data'', le_ts = 2, le_envelope = ''''\<rparr>"

lemma entries_good: "good entry_a" "good entry_b"
  by (simp_all add: good_def fits_def ts_ok_def entry_a_def entry_b_def entry_body_length maxRecord_def)

definition one_segment :: log_dir where
  "one_segment = \<lparr>dr_files = [(0, [])], dr_legacy = None\<rparr>"

lemma one_segment_holds: "dir_holds one_segment [(0, [])] []"
  unfolding dir_holds_def by (intro exI [of _ "[]"] exI [of _ 0]) (simp add: one_segment_def)

definition sync_options :: log_options where
  "sync_options = \<lparr>op_sync = True, op_segment_bytes = 0, op_max_bytes = 0, op_max_indexed = 0\<rparr>"

theorem seglog_reads_back_witness:
  "\<exists>l. append_batches [(Written, never, [entry_a]), (WriteFailed 0, never, [entry_b])] (OpenWith sync_options one_segment) = (l, [entry_a])
     \<and> log_Session ''s'' 0 l = ([entry_a], None)"
proof -
  let ?bs = "[(Written, never, [entry_a]), (WriteFailed 0, never, [entry_b])]"
  obtain l es where run: "append_batches ?bs (OpenWith sync_options one_segment) = (l, es)" by fastforce
  have o': "sl_open (OpenWith sync_options one_segment) \<and> \<not> sl_werr (OpenWith sync_options one_segment) \<and> \<not> sl_closing (OpenWith sync_options one_segment)"
    using OpenWith_inv [OF one_segment_holds] scan_End by blast
  have "\<forall>b \<in> set ?bs. batch_ok b" using entries_good by (simp add: batch_ok_def good_def)
  from seglog_reads_back [OF one_segment_holds this run] have rd: "log_Session ''s'' 0 l = (filter (\<lambda>e. le_session e = ''s'') es, None)"
    by (simp add: sync_options_def limited_def all_of_def)
  have enc: "encode entry_a = Inr (rec_of entry_a)" "encode entry_b = Inr (rec_of entry_b)"
    using entries_good by (simp_all add: good_def fits_encode)
  have "es = [entry_a]"
    using run o'
    by (auto simp: append_batch_def flush_def outcome_def enc encoded_def List.map_filter_simps acked_def Let_def split: prod.splits if_splits)
  with run rd show ?thesis by (auto simp: entry_a_def)
qed

section \<open>Crashes\<close>

text \<open>What a crash leaves of a batch: whole records and the beginning of one.\<close>

lemma torn_raw:
  assumes "\<forall>e \<in> set es. good e"
  shows "\<exists>i torn. take k (raw es) = raw (take i es) @ torn \<and> (scan_one torn = End \<or> (\<exists>b. scan_one torn = Bad b))
    \<and> i \<le> length es \<and> (\<forall>m \<le> length es. length (raw (take m es)) \<le> k \<longrightarrow> m \<le> i)"
  using assms
proof (induction es arbitrary: k)
  case Nil
  then show ?case by (simp add: scan_End)
next
  case (Cons e es)
  show ?case
  proof (cases "k < length (rec_of e)")
    case True
    have g: "fits e" using Cons.prems by (simp add: good_def)
    have "scan_one (take k (rec_of e)) = End \<or> (\<exists>b. scan_one (take k (rec_of e)) = Bad b)"
      using scan_torn [OF g True] by auto
    moreover have "m = 0" if "length (raw (take m (e # es))) \<le> k" for m
      using that True by (cases m) auto
    ultimately show ?thesis using True by (intro exI [of _ 0] exI [of _ "take k (rec_of e)"]) auto
  next
    case False
    from Cons.IH [of "k - length (rec_of e)"] Cons.prems obtain i torn where
      i: "take (k - length (rec_of e)) (raw es) = raw (take i es) @ torn" "scan_one torn = End \<or> (\<exists>b. scan_one torn = Bad b)" "i \<le> length es"
      "\<And>m. m \<le> length es \<Longrightarrow> length (raw (take m es)) \<le> k - length (rec_of e) \<Longrightarrow> m \<le> i" by auto
    have "m \<le> Suc i" if "m \<le> length (e # es)" "length (raw (take m (e # es))) \<le> k" for m
      using that i(4) [of "m - 1"] by (cases m) auto
    with i False show ?thesis by (intro exI [of _ "Suc i"] exI [of _ torn]) auto
  qed
qed

text \<open>C10: A crash in the middle of writing a batch, at any byte, costs nothing but the records that were
  not complete on the disk: opening the directory again gives every entry that was there before and
  those of the batch whose last byte was written, in order, to every session, and reports no damage.\<close>

theorem crash_recovers:
  assumes "dir_holds d H (take k (raw es))" "\<forall>e \<in> set es. good e"
  shows "\<exists>i \<le> length es. (\<forall>m \<le> length es. length (raw (take m es)) \<le> k \<longrightarrow> m \<le> i) \<and> sl_damage (OpenWith opt d) = []
    \<and> (\<forall>s n. log_Session s n (OpenWith opt d) = (limited n (filter (\<lambda>e. le_session e = s) (all_of H @ take i es)), None))"
proof -
  from torn_raw [OF assms(2), of k] obtain i torn where
    i: "take k (raw es) = raw (take i es) @ torn" "scan_one torn = End \<or> (\<exists>b. scan_one torn = Bad b)"
    "i \<le> length es" "\<forall>m \<le> length es. length (raw (take m es)) \<le> k \<longrightarrow> m \<le> i" by blast
  from assms(1) obtain H0 ord xs where H: "H = H0 @ [(ord, xs)]" and d: "distinct (map fst (dr_files d))" "set (map fst (dr_files d)) = fst ` set H"
    and sw: "sorted_wrt (<) (map fst H)" and gd: "\<forall>(o', es') \<in> set H. \<forall>e \<in> set es'. good e"
    and f0: "\<forall>(o', es') \<in> set H0. al_get (dr_files d) o' = Some (raw es')" and f1: "al_get (dr_files d) ord = Some (raw xs @ take k (raw es))"
    unfolding dir_holds_def by blast
  let ?H = "H0 @ [(ord, xs @ take i es)]"
  have "dir_holds d ?H torn"
    unfolding dir_holds_def
    by (intro exI [of _ H0] exI [of _ ord] exI [of _ "xs @ take i es"])
      (use d sw gd f0 f1 i(1) assms(2) in \<open>auto simp: H dest: in_set_takeD\<close>)
  from OpenWith_inv [OF this i(2), of opt] have "log_inv True (OpenWith opt d) ?H" "sl_damage (OpenWith opt d) = []" by simp_all
  moreover from this(1) have "log_Session s n (OpenWith opt d) = (limited n (filter (\<lambda>e. le_session e = s) (all_of ?H)), None)" for s n
    by (rule Session_reads)
  moreover have "all_of ?H = all_of H @ take i es" by (simp add: H all_of_def)
  ultimately show ?thesis using i(3,4) by (intro exI [of _ i]) simp
qed

theorem crash_recovers_witness:
  "log_Session ''s'' 0 (OpenWith sync_options \<lparr>dr_files = [(0, take 9 (raw [entry_a]))], dr_legacy = None\<rparr>) = ([], None)"
proof -
  let ?d = "\<lparr>dr_files = [(0, take 9 (raw [entry_a]))], dr_legacy = None\<rparr>"
  have "dir_holds ?d [(0, [])] (take 9 (raw [entry_a]))"
    unfolding dir_holds_def by (intro exI [of _ "[]"] exI [of _ 0]) simp
  moreover have "\<forall>e \<in> set [entry_a]. good e" using entries_good by simp
  ultimately obtain i where i: "i \<le> 1" "log_Session ''s'' 0 (OpenWith sync_options ?d) = (filter (\<lambda>e. le_session e = ''s'') (take i [entry_a]), None)"
    using crash_recovers [of ?d "[(0, [])]" 9 "[entry_a]" sync_options] by (auto simp: limited_def all_of_def)
  have torn: "scan_one (take 9 (rec_of entry_a)) = Bad ShortBody"
  proof -
    have l: "9 < length (rec_of entry_a)" by (simp add: frame_def entry_body_def entry_a_def del: be_bytes.simps)
    have "fits entry_a" using entries_good by (simp add: good_def)
    from scan_torn [OF this l] show ?thesis by (simp add: lenSize_def crcSize_def)
  qed
  have "scan_from 0 (take 9 (rec_of entry_a)) = ([], 0, Some ShortBody)" by (subst scan_from.simps) (simp add: torn)
  then have "sl_idx (OpenWith sync_options ?d) = []"
    by (simp add: OpenWith_def migrateLegacy_def segmentOrdinals_def scan_file_def Let_def)
  then have "log_Session ''s'' 0 (OpenWith sync_options ?d) = ([], None)" by (simp add: log_Session_def)
  with i show ?thesis by simp
qed

section \<open>Failing writes\<close>

lemma flush_failed: "outcome wr l = WriteFailed k \<Longrightarrow> batch \<noteq> [] \<Longrightarrow> sl_werr (fst (flush wr io batch l)) \<and> \<not> snd (flush wr io batch l)"
  by (cases "last (sl_segs l)") (simp add: flush_def)

lemma encoded_Nil: "encoded es = [] \<Longrightarrow> e \<in> set es \<Longrightarrow> \<exists>err. encode e = Inl err"
  by (induction es) (auto simp: encoded_def List.map_filter_simps split: sum.splits)

lemma append_sticky:
  assumes "sl_werr l"
  shows "acked es (snd (append_batch wr io es l)) = [] \<and> sl_werr (fst (append_batch wr io es l))"
proof (cases "encoded es = []")
  case True
  with assms encoded_Nil [OF True] show ?thesis
    by (fastforce simp: append_batch_def flush_def acked_map filter_empty_conv)
next
  case False
  have "outcome wr l = WriteFailed 0" using assms by (simp add: outcome_def)
  from flush_failed [OF this False, of io] assms show ?thesis
    by (cases "flush wr io (encoded es) l") (auto simp: append_batch_def acked_map filter_empty_conv split: sum.splits)
qed

lemma append_batches_sticky: "sl_werr l \<Longrightarrow> append_batches bs l = (l', es) \<Longrightarrow> es = []"
proof (induction bs arbitrary: l es)
  case (Cons b bs)
  obtain wr io xs where b: "b = (wr, io, xs)" by (cases b)
  obtain l1 rs where ab: "append_batch wr io xs l = (l1, rs)" by fastforce
  obtain acks where bs: "append_batches bs l1 = (l', acks)" "es = acked xs rs @ acks"
    using Cons.prems(2) by (auto simp: b ab split: prod.splits)
  with append_sticky [OF Cons.prems(1), of xs wr io] ab Cons.IH [OF _ bs(1)] show ?case by simp
qed simp

text \<open>One failed write ends the log: a batch of which any part did not reach the file leaves a writer
  that refuses every append that follows, although the code rolls its offset back for the next write,
  until the directory is opened again.\<close>

theorem failed_write_refuses_forever:
  assumes "\<not> sl_closing l" "encode e = Inr r" "append_batch (WriteFailed k) io [e] l = (l1, rs)" "append_batches bs l1 = (l2, es)"
  shows "rs = [Some NotWritten] \<and> es = []"
proof -
  have enc: "encoded [e] = [(r, e)]" using assms(2) by (simp add: encoded_def List.map_filter_simps)
  obtain k' where "outcome (WriteFailed k) l = WriteFailed k'" by (cases "sl_open l \<and> \<not> sl_werr l") (auto simp: outcome_def)
  from flush_failed [OF this, of "[(r, e)]" io] have "sl_werr l1 \<and> rs = [Some NotWritten]"
    using assms(1-3) enc by (cases "flush (WriteFailed k) io [(r, e)] l") (auto simp: append_batch_def)
  with append_batches_sticky [OF _ assms(4)] show ?thesis by blast
qed

theorem failed_write_refuses_forever_witness:
  "snd (append_batches [(Written, never, [entry_b])]
     (fst (append_batch (WriteFailed 3) never [entry_a] (OpenWith sync_options one_segment)))) = []"
proof -
  let ?l = "OpenWith sync_options one_segment"
  have "\<not> sl_closing ?l" using OpenWith_inv [OF one_segment_holds] scan_End by blast
  moreover have "encode entry_a = Inr (rec_of entry_a)" using entries_good by (simp add: good_def fits_encode)
  moreover obtain l1 rs where a: "append_batch (WriteFailed 3) never [entry_a] ?l = (l1, rs)" by fastforce
  moreover obtain l2 es where b: "append_batches [(Written, never, [entry_b])] l1 = (l2, es)" by fastforce
  ultimately have "es = []" using failed_write_refuses_forever by blast
  with a b show ?thesis by simp
qed

lemma open_one: "OpenWith sync_options one_segment =
    \<lparr>sl_opt = sync_options, sl_segs = [(0, 0)], sl_idx = [], sl_indexed = 0, sl_clock = 0, sl_damage = [], sl_bytes = 0,
     sl_open = True, sl_werr = False, sl_closing = False, sl_files = [(0, [])]\<rparr>"
  by (simp add: OpenWith_def one_segment_def migrateLegacy_def segmentOrdinals_def scan_file_def scan_from.simps [of 0 "[]"] scan_End)

lemma record_length: "good e \<Longrightarrow> length (rec_of e) \<le> 16777224"
  using frame_parts(4) [of "entry_body e"] by (simp add: good_def fits_def maxRecord_def lenSize_def crcSize_def)

text \<open>C28: In a log that syncs, opened on one empty segment, the first append fails at its \<^verbatim>\<open>fsync\<close>: it
  is reported as not written, its bytes stay in the file, and the offset is rolled back. Then the next entry,
  if its record has the same length, is acknowledged, and a read of its session by the index gives the entry
  that was refused in its place.\<close>

theorem failed_sync_misattributes:
  assumes "good e1" "good e2" "length (rec_of e1) = length (rec_of e2)"
    "append_batch SyncFailed never [e1] (OpenWith sync_options one_segment) = (l1, rs1)" "append_batch Written never [e2] l1 = (l2, rs2)"
  shows "rs1 = [Some NotWritten] \<and> rs2 = [None] \<and> log_Session (le_session e2) 0 l2 = ([e1], None)"
proof -
  let ?x = "\<lparr>lo_seg = 0, lo_off = 0, lo_size = length (rec_of e2)\<rparr>"
  let ?file = "rec_of e1 @ rec_of e2"
  have enc: "encode e1 = Inr (rec_of e1)" "encode e2 = Inr (rec_of e2)" "encoded [e1] = recs [e1]" "encoded [e2] = recs [e2]"
    using assms(1,2) by (simp_all add: encode_good encoded_good)
  define l0 where "l0 = OpenWith sync_options one_segment"
  have l0: "sl_opt l0 = sync_options" "sl_segs l0 = [(0, 0)]" "sl_idx l0 = []" "sl_open l0" "\<not> sl_werr l0" "\<not> sl_closing l0"
    "sl_files l0 = [(0, [])]" "sl_indexed l0 = 0" by (simp_all add: l0_def open_one)
  have sync: "op_sync sync_options" by (simp add: sync_options_def)
  have one: "l1 = extend_file 0 (rec_of e1) l0" "rs1 = [Some NotWritten]"
    using assms(4) [folded l0_def] enc l0 sync by (auto simp: append_batch_def flush_def outcome_def)
  define l where "l = (extend_file 0 (rec_of e2) l1)\<lparr>sl_segs := [(0, length (rec_of e2))], sl_bytes := sl_bytes l1 + int (length (rec_of e2))\<rparr>"
  have l: "sl_opt l = sync_options" "sl_idx l = []" "sl_files l = [(0, ?file)]" "sl_indexed l = 0"
    by (simp_all add: l_def one extend_file_def l0)
  have l1: "sl_opt l1 = sync_options" "sl_segs l1 = [(0, 0)]" "sl_open l1" "\<not> sl_werr l1" "\<not> sl_closing l1"
    by (simp_all add: one extend_file_def l0)
  have noted: "sl_files (note_record e2 ?x l) = [(0, ?file)]"
    "\<exists>si. sl_idx (note_record e2 ?x l) = [(le_session e2, si)] \<and> \<not> si_evicted si \<and> si_locs si = [?x]" "sl_opt (note_record e2 ?x l) = sync_options"
    by (simp_all add: note_record_def Let_def l new_session_index_def evictIfOverBudget_def maxIndexed_def sync_options_def DefaultMaxIndexed_def)
  have "segmentBytes sync_options > int (length (rec_of e2))"
    using record_length [OF assms(2)] by (simp add: segmentBytes_def sync_options_def DefaultSegmentBytes_def)
  then have two: "l2 = note_record e2 ?x l" "rs2 = [None]"
    using assms(5) enc l1 noted(3) by (auto simp: append_batch_def flush_def outcome_def l_def [symmetric])
  have "decodeFramed (rec_of e1) = Inr e1" using assms(1) by (simp add: good_def decode_frame)
  then have "log_Session (le_session e2) 0 l2 = ([e1], None)"
    using noted assms(3) by (auto simp: two log_Session_def Let_def)
  with one two show ?thesis by simp
qed

definition entry_c :: log_entry where
  "entry_c = entry_a\<lparr>le_msg := ''m3''\<rparr>"

theorem failed_sync_misattributes_witness:
  "log_Session ''s'' 0 (fst (append_batch Written never [entry_c]
     (fst (append_batch SyncFailed never [entry_a] (OpenWith sync_options one_segment))))) = ([entry_a], None)"
proof -
  have g: "good entry_c" by (simp add: good_def fits_def ts_ok_def entry_a_def entry_c_def entry_body_length maxRecord_def)
  have len: "length (rec_of entry_a) = length (rec_of entry_c)"
    by (simp add: frame_def entry_body_def entry_a_def entry_c_def del: be_bytes.simps)
  obtain l1 rs1 where a: "append_batch SyncFailed never [entry_a] (OpenWith sync_options one_segment) = (l1, rs1)" by fastforce
  obtain l2 rs2 where b: "append_batch Written never [entry_c] l1 = (l2, rs2)" by fastforce
  from failed_sync_misattributes [OF entries_good(1) g len a b] a b show ?thesis by (simp add: entry_a_def entry_c_def)
qed

section \<open>The budget of the index\<close>

definition held :: "(string \<times> session_index) list \<Rightarrow> int" where
  "held idx = (\<Sum>(i, si) \<leftarrow> idx. int (length (si_locs si)))"

definition counted :: "seglog \<Rightarrow> bool" where
  "counted l \<longleftrightarrow> distinct (map fst (sl_idx l)) \<and> sl_indexed l = held (sl_idx l)
     \<and> (\<forall>(i, si) \<in> set (sl_idx l). si_evicted si \<longrightarrow> si_locs si = [])"

definition in_budget :: "seglog \<Rightarrow> bool" where
  "in_budget l \<longleftrightarrow> counted l \<and> (0 \<le> maxIndexed (sl_opt l) \<longrightarrow> sl_indexed l \<le> maxIndexed (sl_opt l))"

lemma held_nonneg: "0 \<le> held idx"
  unfolding held_def by (rule sum_list_nonneg) auto

lemma held_put:
  "distinct (map fst idx) \<Longrightarrow>
   held (al_put i si idx) = held idx + int (length (si_locs si)) - (case al_get idx i of None \<Rightarrow> 0 | Some old \<Rightarrow> int (length (si_locs old)))"
proof (induction i si idx rule: al_put.induct)
  case (2 k v k' v' xs)
  then show ?case by (auto simp: held_def al_get_None_iff)
qed (simp add: held_def)

lemma counted_put:
  assumes "counted l" "si_evicted si \<longrightarrow> si_locs si = []"
    "n = sl_indexed l + int (length (si_locs si)) - (case al_get (sl_idx l) i of None \<Rightarrow> 0 | Some old \<Rightarrow> int (length (si_locs old)))"
  shows "counted (l\<lparr>sl_idx := al_put i si (sl_idx l), sl_indexed := n\<rparr>)"
  using assms by (auto simp: counted_def held_put distinct_al_put set_al_put_eq)

lemma evict_loop_counted:
  "counted l \<Longrightarrow> \<forall>(i, si) \<in> set vs. al_get (sl_idx l) i = Some si \<Longrightarrow> distinct (map fst vs) \<Longrightarrow>
   counted (evict_loop target vs l) \<and> sl_opt (evict_loop target vs l) = sl_opt l
   \<and> sl_indexed (evict_loop target vs l) \<le> max target (sl_indexed l - held vs)"
proof (induction target vs l rule: evict_loop.induct)
  case (2 target i si vs l)
  show ?case
  proof (cases "sl_indexed l \<le> target")
    case True
    with 2 show ?thesis by simp
  next
    case False
    let ?l = "l\<lparr>sl_idx := al_put i (si\<lparr>si_locs := [], si_evicted := True\<rparr>) (sl_idx l), sl_indexed := sl_indexed l - int (length (si_locs si))\<rparr>"
    have "counted ?l" by (rule counted_put) (use 2 in simp_all)
    moreover have "\<forall>(j, sj) \<in> set vs. al_get (sl_idx ?l) j = Some sj" using 2(3,4) by force
    ultimately show ?thesis using 2(1) [OF False] 2(4) False by (simp add: held_def algebra_simps)
  qed
qed (simp add: held_def)

lemma al_get_in: "distinct (map fst xs) \<Longrightarrow> (k, v) \<in> set xs \<Longrightarrow> al_get xs k = Some v"
  by (simp add: al_get_eq_map_of)

lemma held_filter: "\<forall>p \<in> set xs. \<not> P p \<longrightarrow> si_locs (snd p) = [] \<Longrightarrow> held (filter P xs) = held xs"
  by (induction xs) (auto simp: held_def)

lemma held_sort: "held (sort_key f xs) = held xs"
proof -
  have "sum_mset (mset (map g (sort_key f xs))) = sum_mset (mset (map g xs))" for g :: "string \<times> session_index \<Rightarrow> int" by simp
  then show ?thesis unfolding held_def sum_mset_sum_list .
qed

lemma evictIfOverBudget_budget:
  assumes "counted l"
  shows "in_budget (evictIfOverBudget l) \<and> sl_opt (evictIfOverBudget l) = sl_opt l"
proof -
  let ?b = "maxIndexed (sl_opt l)"
  define vs where "vs = sort_key (\<lambda>(_, si). si_touched si) (filter (\<lambda>(_, si). \<not> si_evicted si \<and> si_locs si \<noteq> []) (sl_idx l))"
  have d: "distinct (map fst (sl_idx l))" and ev: "\<forall>(i, si) \<in> set (sl_idx l). si_evicted si \<longrightarrow> si_locs si = []"
    using assms by (simp_all add: counted_def)
  have "held vs = held (sl_idx l)"
    unfolding vs_def held_sort by (rule held_filter) (use ev in auto)
  moreover have "\<forall>(i, si) \<in> set vs. al_get (sl_idx l) i = Some si" using al_get_in [OF d] by (auto simp: vs_def)
  moreover have "distinct (map fst vs)"
  proof -
    have "distinct (map fst (filter (\<lambda>(_, si). \<not> si_evicted si \<and> si_locs si \<noteq> []) (sl_idx l)))" using d by (rule distinct_map_filter)
    then show ?thesis by (simp add: vs_def distinct_map)
  qed
  ultimately have ev': "counted (evict_loop t vs l) \<and> sl_opt (evict_loop t vs l) = sl_opt l \<and> sl_indexed (evict_loop t vs l) \<le> max t 0" for t
    using evict_loop_counted [OF assms, of vs t] assms by (simp add: counted_def)
  show ?thesis
  proof (cases "?b < 0 \<or> sl_indexed l \<le> ?b")
    case True
    with assms show ?thesis by (auto simp: evictIfOverBudget_def in_budget_def Let_def)
  next
    case False
    then have "evictIfOverBudget l = evict_loop (?b * 4 div 5) vs l" by (simp add: evictIfOverBudget_def Let_def vs_def)
    moreover have "max (?b * 4 div 5) 0 \<le> ?b" using False by linarith
    ultimately show ?thesis using ev' [of "?b * 4 div 5"] by (auto simp: in_budget_def)
  qed
qed

lemma note_record_budget:
  assumes "in_budget l"
  shows "in_budget (note_record e x l) \<and> sl_opt (note_record e x l) = sl_opt l"
proof -
  let ?s = "le_session e"
  define si0 where "si0 = (case al_get (sl_idx l) ?s of None \<Rightarrow> new_session_index | Some si \<Rightarrow> si)"
  define si where "si = si0\<lparr>si_touched := sl_clock l + 1, si_segs := List.insert (lo_seg x) (si_segs si0), si_total := si_total si0 + 1,
      si_errors := (if le_kind e = ''error'' then si_errors si0 + 1 else si_errors si0)\<rparr>"
  have c: "counted l" using assms by (simp add: in_budget_def)
  have old: "int (length (si_locs si)) = (case al_get (sl_idx l) ?s of None \<Rightarrow> 0 | Some old \<Rightarrow> int (length (si_locs old)))"
    by (simp add: si_def si0_def new_session_index_def split: option.splits)
  have ev: "si_evicted si \<longrightarrow> si_locs si = []"
    using c al_get_SomeD [of "sl_idx l" ?s] by (auto simp: si_def si0_def new_session_index_def counted_def split: option.splits)
  show ?thesis
  proof (cases "si_evicted si")
    case True
    have "counted (l\<lparr>sl_idx := al_put ?s si (sl_idx l), sl_indexed := sl_indexed l\<rparr>)"
      by (rule counted_put [OF c ev]) (simp add: old)
    then have "counted (l\<lparr>sl_clock := sl_clock l + 1, sl_idx := al_put ?s si (sl_idx l)\<rparr>)" by (simp add: counted_def)
    with True assms show ?thesis
      unfolding note_record_def Let_def si0_def [symmetric] si_def [symmetric] in_budget_def by simp
  next
    case False
    let ?si = "si\<lparr>si_locs := si_locs si @ [x]\<rparr>"
    have "counted (l\<lparr>sl_idx := al_put ?s ?si (sl_idx l), sl_indexed := sl_indexed l + 1\<rparr>)"
      by (rule counted_put [OF c]) (use False old in simp_all)
    then have "counted (l\<lparr>sl_clock := sl_clock l + 1, sl_idx := al_put ?s ?si (sl_idx l), sl_indexed := sl_indexed l + 1\<rparr>)"
      by (simp add: counted_def)
    from evictIfOverBudget_budget [OF this] False show ?thesis
      unfolding note_record_def Let_def si0_def [symmetric] si_def [symmetric] by simp
  qed
qed

lemma notes_budget:
  "in_budget l \<Longrightarrow> in_budget (fold (\<lambda>(e, x). note_record e x) P l) \<and> sl_opt (fold (\<lambda>(e, x). note_record e x) P l) = sl_opt l"
proof (induction P arbitrary: l)
  case (Cons p P)
  obtain e x where p: "p = (e, x)" by (cases p)
  from note_record_budget [OF Cons.prems, of e x] have "in_budget (note_record e x l)" "sl_opt (note_record e x l) = sl_opt l" by simp_all
  with Cons.IH [OF this(1)] show ?case by (simp add: p)
qed simp

text \<open>What the budget does not speak of.\<close>

lemma in_budget_upd [simp]:
  "in_budget (l\<lparr>sl_files := fs\<rparr>) = in_budget l" "in_budget (l\<lparr>sl_segs := ss\<rparr>) = in_budget l" "in_budget (l\<lparr>sl_bytes := n\<rparr>) = in_budget l"
  "in_budget (l\<lparr>sl_open := b\<rparr>) = in_budget l" "in_budget (l\<lparr>sl_werr := b\<rparr>) = in_budget l" "in_budget (l\<lparr>sl_damage := ds\<rparr>) = in_budget l"
  by (simp_all add: in_budget_def counted_def)

lemma extend_file_budget [simp]: "in_budget (extend_file ord bs l) = in_budget l" "sl_opt (extend_file ord bs l) = sl_opt l"
  by (simp_all add: extend_file_def)

lemma forget_one_counts:
  "si_evicted si \<longrightarrow> si_locs si = [] \<Longrightarrow> snd (forget_one ord si) = int (length (si_locs si)) - (case fst (forget_one ord si) of None \<Rightarrow> 0 | Some si' \<Rightarrow> int (length (si_locs si')))
   \<and> 0 \<le> snd (forget_one ord si)"
  by (auto simp: forget_one_def Let_def)

lemma forget_one_evicted:
  "si_evicted si \<longrightarrow> si_locs si = [] \<Longrightarrow> fst (forget_one ord si) = Some si' \<Longrightarrow> si_evicted si' \<longrightarrow> si_locs si' = []"
  by (auto simp: forget_one_def Let_def split: if_splits)

lemma forget_held:
  "\<forall>(i, si) \<in> set idx. si_evicted si \<longrightarrow> si_locs si = [] \<Longrightarrow>
   held (List.map_filter (\<lambda>(i, si). map_option (Pair i) (fst (forget_one ord si))) idx)
     = held idx - sum_list (map (\<lambda>(_, si). snd (forget_one ord si)) idx)
   \<and> 0 \<le> sum_list (map (\<lambda>(_, si). snd (forget_one ord si)) idx)"
proof (induction idx)
  case (Cons p idx)
  obtain i si where p: "p = (i, si)" by (cases p)
  have "snd (forget_one ord si) = int (length (si_locs si)) - (case fst (forget_one ord si) of None \<Rightarrow> 0 | Some si' \<Rightarrow> int (length (si_locs si')))
      \<and> 0 \<le> snd (forget_one ord si)" by (rule forget_one_counts) (use Cons.prems p in simp)
  with Cons show ?case by (auto simp: p held_def List.map_filter_simps split: option.splits)
qed (simp add: held_def List.map_filter_simps)

lemma forget_budget:
  assumes "in_budget l"
  shows "in_budget (forget ord l) \<and> sl_opt (forget ord l) = sl_opt l"
proof -
  have d: "distinct (map fst (sl_idx l))" and ev: "\<forall>(i, si) \<in> set (sl_idx l). si_evicted si \<longrightarrow> si_locs si = []"
    and n: "sl_indexed l = held (sl_idx l)" and b: "0 \<le> maxIndexed (sl_opt l) \<longrightarrow> sl_indexed l \<le> maxIndexed (sl_opt l)"
    using assms unfolding in_budget_def counted_def by blast+
  have new: "sl_idx (forget ord l) = map (\<lambda>(i, v). (i, the (fst (forget_one ord v)))) (filter (\<lambda>(i, v). fst (forget_one ord v) \<noteq> None) (sl_idx l))"
    by (simp add: forget_def map_filter_pairs)
  have "map fst (sl_idx (forget ord l)) = map fst (filter (\<lambda>(i, v). fst (forget_one ord v) \<noteq> None) (sl_idx l))"
    unfolding new by (simp add: case_prod_beta)
  then have "distinct (map fst (sl_idx (forget ord l)))" using d by (metis distinct_map_filter)
  moreover have "\<forall>(i, si) \<in> set (sl_idx (forget ord l)). si_evicted si \<longrightarrow> si_locs si = []"
    using ev forget_one_evicted by (fastforce simp: new)
  moreover have "sl_indexed (forget ord l) = held (sl_idx (forget ord l))" "sl_indexed (forget ord l) \<le> sl_indexed l" "sl_opt (forget ord l) = sl_opt l"
    using forget_held [OF ev, of ord] n by (simp_all add: forget_def)
  ultimately show ?thesis using b by (auto simp: in_budget_def counted_def)
qed

lemma prune_segs_budget:
  "in_budget l \<Longrightarrow> in_budget (prune_segs io k ss l) \<and> sl_opt (prune_segs io k ss l) = sl_opt l"
proof (induction io k ss l rule: prune_segs.induct)
  case (1 io k ord n s ss l)
  let ?l = "l\<lparr>sl_bytes := sl_bytes l - int n, sl_files := al_del ord (sl_files l)\<rparr>"
  have "in_budget ?l" using 1(2) by simp
  from forget_budget [OF this, of ord] 1 show ?case by auto
qed simp_all

lemma prune_budget: "in_budget l \<Longrightarrow> in_budget (prune io l) \<and> sl_opt (prune io l) = sl_opt l"
  by (simp add: prune_def prune_segs_budget)

lemma rotate_budget: "in_budget l \<Longrightarrow> rotate_log io l = (l', ok) \<Longrightarrow> in_budget l' \<and> sl_opt l' = sl_opt l"
  using prune_budget by (force simp: rotate_log_def Let_def split: if_splits)

lemma flush_budget: "in_budget l \<Longrightarrow> in_budget (fst (flush wr io batch l)) \<and> sl_opt (fst (flush wr io batch l)) = sl_opt l"
proof (cases "batch = []")
  case False
  assume b: "in_budget l"
  obtain ord start where last: "last (sl_segs l) = (ord, start)" by fastforce
  define raw where "raw = concat (map fst batch)"
  define l1 where "l1 = (extend_file ord raw l)\<lparr>sl_segs := butlast (sl_segs l) @ [(ord, start + length raw)], sl_bytes := sl_bytes l + int (length raw)\<rparr>"
  define l2 where "l2 = fold (\<lambda>(e, x). note_record e x) (place ord start batch) l1"
  have "in_budget l1" "sl_opt l1 = sl_opt l" using b by (simp_all add: l1_def)
  with notes_budget [of l1] have l2: "in_budget l2" "sl_opt l2 = sl_opt l" by (simp_all add: l2_def)
  obtain l3 ok where r: "rotate_log io l2 = (l3, ok)" by fastforce
  from rotate_budget [OF l2(1) r] have l3: "in_budget l3" "sl_opt l3 = sl_opt l" using l2(2) by simp_all
  have f: "flush wr io batch l = (case outcome wr l of
      WriteFailed k \<Rightarrow> ((extend_file ord (take k raw) l)\<lparr>sl_werr := True\<rparr>, False)
    | SyncFailed \<Rightarrow> (extend_file ord raw l, False)
    | Written \<Rightarrow> (if segmentBytes (sl_opt l2) \<le> int (start + length raw)
        then (case (l3, ok) of (l, True) \<Rightarrow> l | (l, False) \<Rightarrow> l\<lparr>sl_damage := sl_damage l @ [RotationFailed]\<rparr>) else l2, True))"
    using False unfolding flush_def last Let_def prod.case raw_def [symmetric] l1_def [symmetric] l2_def [symmetric] r by simp
  show ?thesis unfolding f using b l2 l3 by (simp split: write_outcome.split bool.split)
qed (simp add: flush_def)

lemma scan_file_budget: "in_budget l \<Longrightarrow> in_budget (scan_file ord final l) \<and> sl_opt (scan_file ord final l) = sl_opt l"
proof -
  assume b: "in_budget l"
  obtain rs stop bad where sc: "scan_from 0 (case al_get (sl_files l) ord of None \<Rightarrow> [] | Some f \<Rightarrow> f) = (rs, stop, bad)" by (metis prod_cases3)
  define l1 where "l1 = fold (\<lambda>(e, off, n). note_record e \<lparr>lo_seg = ord, lo_off = off, lo_size = n\<rparr>) rs l"
  have "fold (\<lambda>(e, off, n). note_record e \<lparr>lo_seg = ord, lo_off = off, lo_size = n\<rparr>) rs m
      = fold (\<lambda>(e, x). note_record e x) (map (\<lambda>(e, off, n). (e, \<lparr>lo_seg = ord, lo_off = off, lo_size = n\<rparr>)) rs) m" for m
    by (induction rs arbitrary: m) auto
  with notes_budget [OF b] have "in_budget l1" "sl_opt l1 = sl_opt l" by (simp_all add: l1_def)
  then show ?thesis by (simp add: scan_file_def sc Let_def l1_def [symmetric] split: option.split)
qed

lemma scan_files_budget: "in_budget l \<Longrightarrow> in_budget (scan_files ords l) \<and> sl_opt (scan_files ords l) = sl_opt l"
proof (induction ords arbitrary: l)
  case (Cons ord ords)
  from scan_file_budget [OF Cons.prems, of ord "ords = []"] have "in_budget (scan_file ord (ords = []) l)" "sl_opt (scan_file ord (ords = []) l) = sl_opt l" by simp_all
  with Cons.IH [OF this(1)] show ?case by simp
qed simp

lemma OpenWith_budget: "in_budget (OpenWith opt d) \<and> sl_opt (OpenWith opt d) = opt"
proof -
  let ?l0 = "\<lparr>sl_opt = opt, sl_segs = [], sl_idx = [], sl_indexed = 0, sl_clock = 0, sl_damage = [], sl_bytes = 0,
      sl_open = False, sl_werr = False, sl_closing = False, sl_files = dr_files (migrateLegacy d)\<rparr>"
  have "in_budget ?l0" by (simp add: in_budget_def counted_def held_def)
  from scan_files_budget [OF this] show ?thesis
    by (simp add: OpenWith_def Let_def)
qed

lemma append_batches_budget: "in_budget l \<Longrightarrow> append_batches bs l = (l', es) \<Longrightarrow> in_budget l' \<and> sl_opt l' = sl_opt l"
proof (induction bs arbitrary: l es)
  case (Cons b bs)
  obtain wr io xs where b: "b = (wr, io, xs)" by (cases b)
  obtain l1 rs where ab: "append_batch wr io xs l = (l1, rs)" by fastforce
  obtain acks where bs: "append_batches bs l1 = (l', acks)" using Cons.prems(2) by (auto simp: b ab split: prod.splits)
  have "in_budget l1 \<and> sl_opt l1 = sl_opt l"
    using flush_budget [OF Cons.prems(1), of wr io "encoded xs"] Cons.prems(1) ab
    by (cases "flush wr io (encoded xs) l") (auto simp: append_batch_def split: if_splits)
  with Cons.IH [OF _ bs] show ?case by simp
qed simp

text \<open>The index in memory never holds more locators than its budget allows, whatever the directory
  held when it was opened, whatever is appended and whatever fails: \<^verbatim>\<open>indexed\<close> is the number of locators
  that are held, and a budget that is not negative bounds it.\<close>

theorem index_stays_in_budget:
  assumes "append_batches bs (OpenWith opt d) = (l, es)"
  shows "sl_indexed l = (\<Sum>(i, si) \<leftarrow> sl_idx l. int (length (si_locs si))) \<and> (0 \<le> maxIndexed opt \<longrightarrow> sl_indexed l \<le> maxIndexed opt)"
proof -
  have "in_budget l" "sl_opt l = opt" using append_batches_budget [OF _ assms] OpenWith_budget [of opt d] by simp_all
  then show ?thesis unfolding in_budget_def counted_def held_def by blast
qed

theorem index_stays_in_budget_witness:
  "sl_indexed (fst (append_batches [(Written, never, [entry_a, entry_b])]
     (OpenWith (sync_options\<lparr>op_max_indexed := 1\<rparr>) one_segment))) \<le> 1"
proof -
  obtain l es where r: "append_batches [(Written, never, [entry_a, entry_b])] (OpenWith (sync_options\<lparr>op_max_indexed := 1\<rparr>) one_segment) = (l, es)"
    by fastforce
  from index_stays_in_budget [OF r] r show ?thesis by (simp add: maxIndexed_def)
qed

end
