(* ===== verification/Tee.thy ===== *)
theory Tee
  imports Attest
begin

text \<open>
  \<^verbatim>\<open>kernel/internal/ledger/tee.go\<close>: the hardware evidence an attestation may carry, and the hash that is
  to bind it to the record. The raw text of a member, a \<^verbatim>\<open>json.RawMessage\<close>, is what the parser reads for
  its value. Trust anchors are the formats that have a root; no chain is verified in this build.
\<close>

section \<open>The members of an object with their texts\<close>

type_synonym raw_member = "string \<times> bytes \<times> json"

fun raw_obj :: "nat \<Rightarrow> string \<Rightarrow> (raw_member list \<times> string) option" where
  "raw_obj 0 s = None"
| "raw_obj (Suc n) s =
     (case skip_ws s of
        [] \<Rightarrow> None
      | q # r \<Rightarrow>
          if q \<noteq> dq then None
          else (case jp_str (length r) r of
                  None \<Rightarrow> None
                | Some (k, r) \<Rightarrow>
                    (case skip_ws r of
                       [] \<Rightarrow> None
                     | c # r \<Rightarrow>
                         if c \<noteq> CHR '':'' then None
                         else (let t = skip_ws r in
                               case jp_val n r of
                                 None \<Rightarrow> None
                               | Some (v, r) \<Rightarrow>
                                   (let m = (k, take (length t - length r) t, v) in
                                    case skip_ws r of
                                      [] \<Rightarrow> None
                                    | c # r \<Rightarrow>
                                        if c = CHR ''}'' then Some ([m], r)
                                        else if c = CHR '','' then map_option (\<lambda>(ms, r). (m # ms, r)) (raw_obj n r)
                                        else None)))))"

text \<open>\<open>None\<close> is a text that is no JSON, or JSON that is neither an object nor \<open>null\<close>.\<close>

definition raw_members :: "bytes \<Rightarrow> raw_member list option" where
  "raw_members s =
     (case json_parse s of
        Some JNull \<Rightarrow> Some []
      | Some (JObj []) \<Rightarrow> Some []
      | Some (JObj _) \<Rightarrow>
          (case skip_ws s of [] \<Rightarrow> None | _ # r \<Rightarrow> map_option fst (raw_obj (2 * length s + 2) r))
      | _ \<Rightarrow> None)"

section \<open>The binding hash\<close>

definition raw_map :: "raw_member list \<Rightarrow> (string \<times> bytes) list" where
  "raw_map ms = fold (\<lambda>(k, t, v) m. al_put k t m) ms []"

definition canonical_members :: "(string \<times> bytes) list \<Rightarrow> bytes" where
  "canonical_members m =
     CHR ''{'' # commas (map (\<lambda>(k, t). json_string k @ CHR '':'' # t) (sort_key fst m)) @ ''}''"

definition BindingHash :: "bytes \<Rightarrow> string option" where
  "BindingHash raw =
     (case raw_members raw of
        None \<Rightarrow> None
      | Some ms \<Rightarrow> Some (hex_encode (sha256 (canonical_members (al_del ''tee'' (raw_map ms))))))"

section \<open>The evidence\<close>

datatype evidence_level = EvidenceNone | EvidenceBound | EvidenceVerified

definition FormatNvidiaEAT :: string where "FormatNvidiaEAT = ''nvidia-eat/1''"
definition FormatSEVSNP :: string where "FormatSEVSNP = ''amd-sev-snp/1''"
definition FormatTDX :: string where "FormatTDX = ''intel-tdx/1''"

definition EvidenceFormats :: "string list" where
  "EvidenceFormats = [FormatNvidiaEAT, FormatSEVSNP, FormatTDX]"

definition MaxEvidenceBytes :: nat where "MaxEvidenceBytes = 65536"

text \<open>In nanoseconds; an \<^verbatim>\<open>int64\<close> wraps.\<close>

definition EvidenceMaxAge :: int where "EvidenceMaxAge = 10 * 60 * 1000000000"

definition wrap_int :: "int \<Rightarrow> int" where
  "wrap_int i = (i + 2 ^ 63) mod 2 ^ 64 - 2 ^ 63"

definition abs64 :: "int \<Rightarrow> int" where
  "abs64 n = (if n < 0 then wrap_int (- n) else n)"

record evidence =
  ev_format :: string
  ev_nonce :: string
  ev_quote :: string
  ev_taken :: int
  ev_verifier :: string

definition zero_evidence :: evidence where
  "zero_evidence = \<lparr>ev_format = [], ev_nonce = [], ev_quote = [], ev_taken = 0, ev_verifier = []\<rparr>"

datatype evidence_field = VFormat | VNonce | VQuote | VTaken | VVerifier

definition evidence_table :: "(string \<times> evidence_field) list" where
  "evidence_table = [(''format'', VFormat), (''nonce'', VNonce), (''quote'', VQuote), (''ts'', VTaken), (''verifier'', VVerifier)]"

definition set_evidence :: "evidence \<Rightarrow> string \<times> json \<Rightarrow> evidence option" where
  "set_evidence e m =
     (case field_of evidence_table (fst m) of
        None \<Rightarrow> Some e
      | Some VFormat \<Rightarrow> map_option (\<lambda>s. e\<lparr>ev_format := s\<rparr>) (to_string (snd m) (ev_format e))
      | Some VNonce \<Rightarrow> map_option (\<lambda>s. e\<lparr>ev_nonce := s\<rparr>) (to_string (snd m) (ev_nonce e))
      | Some VQuote \<Rightarrow> map_option (\<lambda>s. e\<lparr>ev_quote := s\<rparr>) (to_string (snd m) (ev_quote e))
      | Some VTaken \<Rightarrow> map_option (\<lambda>i. e\<lparr>ev_taken := i\<rparr>) (to_int64 (snd m) (ev_taken e))
      | Some VVerifier \<Rightarrow> map_option (\<lambda>s. e\<lparr>ev_verifier := s\<rparr>) (to_string (snd m) (ev_verifier e)))"

datatype quote_error = NoNonce | NonceNotHex | QuoteNotBase64 | NoQuote | NoTimestamp | NotJWT nat | QuoteTooShort nat

definition checkQuoteShape :: "evidence \<Rightarrow> quote_error option" where
  "checkQuoteShape ev =
     (if TrimSpace (ev_nonce ev) = [] then Some NoNonce
      else if hex_decode (ev_nonce ev) = None then Some NonceNotHex
      else (case b64_decode (TrimSpace (ev_quote ev)) of
              None \<Rightarrow> Some QuoteNotBase64
            | Some quote \<Rightarrow>
                if quote = [] then Some NoQuote
                else if ev_taken ev = 0 then Some NoTimestamp
                else if ev_format ev = FormatNvidiaEAT
                then (let n = length (filter (\<lambda>c. c = CHR ''.'') quote) in if n \<noteq> 2 then Some (NotJWT n) else None)
                else if ev_format ev = FormatSEVSNP
                then (if length quote < 1184 then Some (QuoteTooShort (length quote)) else None)
                else if ev_format ev = FormatTDX
                then (if length quote < 632 then Some (QuoteTooShort (length quote)) else None)
                else None))"

datatype evidence_detail =
    NotValidJson | EvidenceTooLong nat | NotRecognised | UnknownFormat | BadQuote quote_error | NotAnObject
  | NotBinding | Stale | NoAnchor | ChainNotVerified

record evidence_report =
  vr_level :: evidence_level
  vr_format :: string
  vr_bound :: bool
  vr_detail :: "evidence_detail option"

definition no_evidence :: "evidence_detail option \<Rightarrow> evidence_report" where
  "no_evidence d = \<lparr>vr_level = EvidenceNone, vr_format = [], vr_bound = False, vr_detail = d\<rparr>"

text \<open>\<^verbatim>\<open>strings.EqualFold\<close> of a text with a lower-case hexadecimal one. Of the characters outside ASCII
  none folds to a hexadecimal digit.\<close>

definition equal_fold_hex :: "string \<Rightarrow> string \<Rightarrow> bool" where
  "equal_fold_hex s want \<longleftrightarrow> map (\<lambda>c. if in_range 65 90 c then char_of (of_char c + 32 :: nat) else c) s = want"

text \<open>The probe: the last members named \<^verbatim>\<open>tee\<close> and \<^verbatim>\<open>ts\<close>, whatever their case.\<close>

datatype probe_field = PTee | PTs

definition probe_table :: "(string \<times> probe_field) list" where
  "probe_table = [(''tee'', PTee), (''ts'', PTs)]"

fun probe_members :: "raw_member list \<Rightarrow> (bytes \<times> json) option \<times> int \<Rightarrow> ((bytes \<times> json) option \<times> int) option" where
  "probe_members [] p = Some p"
| "probe_members ((k, t, v) # ms) (tee, ts) =
     (case field_of probe_table k of
        None \<Rightarrow> probe_members ms (tee, ts)
      | Some PTee \<Rightarrow> probe_members ms (Some (t, v), ts)
      | Some PTs \<Rightarrow> (case to_int64 v ts of None \<Rightarrow> None | Some i \<Rightarrow> probe_members ms (tee, i)))"

text \<open>What is wrong with the evidence \<open>ev\<close> of a record that hashes to \<open>want\<close> and gives the time \<open>ts\<close>.\<close>

definition check_binding :: "string option \<Rightarrow> int \<Rightarrow> evidence \<Rightarrow> evidence_detail option" where
  "check_binding want ts ev =
     (if \<not> oneOf (ev_format ev) EvidenceFormats then Some UnknownFormat
      else (case checkQuoteShape ev of
              Some e \<Rightarrow> Some (BadQuote e)
            | None \<Rightarrow>
                (case want of
                   None \<Rightarrow> Some NotAnObject
                 | Some want \<Rightarrow>
                     if \<not> equal_fold_hex (TrimSpace (ev_nonce ev)) want then Some NotBinding
                     else if ts \<noteq> 0 \<and> ev_taken ev \<noteq> 0 \<and> wrap_int (abs64 (wrap_int (ts - ev_taken ev)) * 1000000) > EvidenceMaxAge then Some Stale
                     else None)))"

definition CheckEvidence :: "string list \<Rightarrow> bytes \<Rightarrow> evidence_report" where
  "CheckEvidence anchors raw =
     (case raw_members raw of
        None \<Rightarrow> no_evidence (Some NotValidJson)
      | Some ms \<Rightarrow>
     (case probe_members ms (None, 0) of
        None \<Rightarrow> no_evidence (Some NotValidJson)
      | Some (None, _) \<Rightarrow> no_evidence None
      | Some (Some (text, v), ts) \<Rightarrow>
          if MaxEvidenceBytes < length text then no_evidence (Some (EvidenceTooLong (length text)))
          else (case to_struct set_evidence zero_evidence v of
                  None \<Rightarrow> no_evidence (Some NotRecognised)
                | Some ev \<Rightarrow>
                    (case check_binding (BindingHash raw) ts ev of
                       Some d \<Rightarrow> (no_evidence (Some d))\<lparr>vr_format := ev_format ev\<rparr>
                     | None \<Rightarrow>
                         \<lparr>vr_level = EvidenceBound, vr_format = ev_format ev, vr_bound = True,
                          vr_detail = Some (if ev_format ev \<in> set anchors then ChainNotVerified else NoAnchor)\<rparr>))))"

end
