(* ===== verification/Tee_Properties.thy ===== *)
theory Tee_Properties
  imports Tee
begin

text \<open>What the binding of hardware evidence to a declaration is worth.\<close>

section \<open>Reading the members of a printed object\<close>

definition raw_of :: "string \<times> json \<Rightarrow> raw_member" where
  "raw_of kv = (fst kv, json_print (snd kv), snd kv)"

lemma raw_obj_print:
  "\<forall>kv \<in> set kvs. ascii (fst kv) \<and> reads (snd kv) \<and> json_ok (snd kv) \<Longrightarrow> kvs \<noteq> [] \<Longrightarrow>
   2 * length (commas (map member kvs)) + 1 \<le> n \<Longrightarrow>
   raw_obj n (commas (map member kvs) @ CHR ''}'' # r) = Some (map raw_of kvs, r)"
proof (induction kvs arbitrary: n)
  case (Cons kv kvs)
  from Cons.prems obtain m where n: "n = Suc m" by (cases n) auto
  obtain k v where kv: "kv = (k, v)" by (cases kv)
  with Cons.prems have k: "ascii k" "reads v" "json_ok v" by simp_all
  show ?case
  proof (cases "kvs = []")
    case True
    with Cons.prems n kv show ?thesis
      using jp_str_string [OF k(1), of "CHR '':'' # json_print v @ CHR ''}'' # r"] skip_ws_print [OF k(3)]
      by (simp add: json_string_def readsD raw_of_def Let_def)
  next
    case False
    with Cons.prems n kv have l: "2 * length (json_print v) \<le> m"
      "2 * length (commas (map member kvs)) + 1 \<le> m" by (simp_all add: commas_Cons)
    with Cons n False kv show ?thesis
      using jp_str_string [OF k(1), of "CHR '':'' # json_print v @ CHR '','' # commas (map member kvs) @ CHR ''}'' # r"]
        skip_ws_print [OF k(3)]
      by (simp add: commas_Cons json_string_def readsD raw_of_def Let_def)
  qed
qed simp

lemma raw_members_print:
  assumes "json_ok (JObj kvs)"
  shows "raw_members (json_print (JObj kvs)) = Some (map raw_of kvs)"
proof (cases kvs)
  case Nil
  with json_roundtrip [OF assms] show ?thesis by (simp add: raw_members_def del: json_print.simps)
next
  case (Cons kv ws)
  have "\<forall>kv \<in> set kvs. ascii (fst kv) \<and> reads (snd kv) \<and> json_ok (snd kv)" using assms json_reads by auto
  then have "raw_obj (2 * length (json_print (JObj kvs)) + 2) (commas (map member kvs) @ CHR ''}'' # []) = Some (map raw_of kvs, [])"
    using Cons by (intro raw_obj_print) simp_all
  then have "raw_obj (2 * length (json_print (JObj kvs)) + 2) (commas (map member kvs) @ ''}'') = Some (map raw_of kvs, [])" .
  moreover have "skip_ws (json_print (JObj kvs)) = CHR ''{'' # commas (map member kvs) @ ''}''" by simp
  moreover have "json_parse (json_print (JObj kvs)) = Some (JObj (kv # ws))" using json_roundtrip [OF assms] Cons by simp
  ultimately show ?thesis by (simp add: raw_members_def Cons del: json_print.simps)
qed

lemma raw_map_distinct: "distinct (map fst kvs) \<Longrightarrow> raw_map (map raw_of kvs) = map (\<lambda>(k, v). (k, json_print v)) kvs"
proof -
  have "fold (\<lambda>(k, t, v) m. al_put k t m) (map raw_of kvs) m = m @ map (\<lambda>(k, v). (k, json_print v)) kvs"
    if "distinct (map fst m @ map fst kvs)" for m
    using that
  proof (induction kvs arbitrary: m)
    case (Cons kv kvs)
    have "al_put (fst kv) (json_print (snd kv)) m = m @ [(fst kv, json_print (snd kv))]"
      using Cons.prems by (induction m) (auto split: prod.splits)
    with Cons show ?case by (simp add: raw_of_def case_prod_beta)
  qed simp
  from this [of "[]"] show "distinct (map fst kvs) \<Longrightarrow> ?thesis" by (simp add: raw_map_def)
qed

section \<open>Forged evidence\<close>

definition tee_block :: "string \<Rightarrow> string \<Rightarrow> bytes \<Rightarrow> int \<Rightarrow> json" where
  "tee_block fmt nonce quote ts =
     JObj [(''format'', JStr fmt), (''nonce'', JStr nonce), (''quote'', JStr (b64_encode quote)), (''ts'', JNum (dec_int ts))]"

text \<open>The shape a format asks of its quotes.\<close>

definition quote_shape :: "string \<Rightarrow> bytes \<Rightarrow> bool" where
  "quote_shape fmt q \<longleftrightarrow> fmt = FormatNvidiaEAT \<and> length (filter (\<lambda>c. c = CHR ''.'') q) = 2
     \<or> fmt = FormatSEVSNP \<and> 1184 \<le> length q \<or> fmt = FormatTDX \<and> 632 \<le> length q"

lemma visible_ascii: "visible s \<Longrightarrow> ascii s"
  by (auto simp: visible_def ascii_def in_range_def list_all_iff)

lemma hex_visible: "visible (hex_encode s)"
  using hex_encode_set [of s] by (fastforce simp: visible_def list_all_iff)

lemma evidence_fields:
  "field_of evidence_table ''format'' = Some VFormat" "field_of evidence_table ''nonce'' = Some VNonce"
  "field_of evidence_table ''quote'' = Some VQuote" "field_of evidence_table ''ts'' = Some VTaken"
  by code_simp+

lemma probe_tee: "field_of probe_table ''tee'' = Some PTee"
  by code_simp

lemma equal_fold_hex_self: "equal_fold_hex (hex_encode s) (hex_encode s)"
proof -
  have "(if in_range 65 90 c then char_of (of_char c + 32 :: nat) else c) = c" if "c \<in> set (hex_encode s)" for c
    using that hex_encode_set [of s] by (auto simp: in_range_def)
  then have "map (\<lambda>c. if in_range 65 90 c then char_of (of_char c + 32 :: nat) else c) (hex_encode s) = hex_encode s"
    by (rule map_idI)
  then show ?thesis by (simp add: equal_fold_hex_def)
qed

lemma shape_ok:
  assumes "quote_shape fmt q" "q \<noteq> []" "t \<noteq> 0"
  shows "checkQuoteShape \<lparr>ev_format = fmt, ev_nonce = hex_encode (sha256 m), ev_quote = b64_encode q, ev_taken = t, ev_verifier = []\<rparr> = None"
proof -
  have "hex_encode (sha256 m) \<noteq> []" by (metis hex_roundtrip hex_decode.simps(1) length_sha256 list.size(3) option.inject zero_neq_numeral)
  then have "checkQuoteShape \<lparr>ev_format = fmt, ev_nonce = hex_encode (sha256 m), ev_quote = b64_encode q, ev_taken = t, ev_verifier = []\<rparr> =
      (if fmt = FormatNvidiaEAT then (let n = length (filter (\<lambda>c. c = CHR ''.'') q) in if n \<noteq> 2 then Some (NotJWT n) else None)
       else if fmt = FormatSEVSNP then (if length q < 1184 then Some (QuoteTooShort (length q)) else None)
       else if fmt = FormatTDX then (if length q < 632 then Some (QuoteTooShort (length q)) else None) else None)"
    using assms(2,3) by (simp add: checkQuoteShape_def hex_visible)
  moreover have "FormatSEVSNP \<noteq> FormatNvidiaEAT" "FormatTDX \<noteq> FormatNvidiaEAT" "FormatTDX \<noteq> FormatSEVSNP"
    by (simp_all add: FormatNvidiaEAT_def FormatSEVSNP_def FormatTDX_def)
  ultimately show ?thesis using assms(1) unfolding quote_shape_def by (elim disjE conjE) simp_all
qed

lemma read_tee_block:
  assumes "Ledger_Entry.int64_ok t"
  shows "to_struct set_evidence zero_evidence (tee_block fmt n q t)
    = Some \<lparr>ev_format = fmt, ev_nonce = n, ev_quote = b64_encode q, ev_taken = t, ev_verifier = []\<rparr>"
  using assms by (simp add: tee_block_def to_struct_def set_evidence_def evidence_fields to_string_def to_int64_def zero_evidence_def)

lemma probe_others: "\<forall>k \<in> fst ` set kvs. field_of probe_table k = None \<Longrightarrow> probe_members (map raw_of kvs @ ms) p = probe_members ms p"
  by (induction kvs; cases p) (auto simp: raw_of_def)

text \<open>Hardware evidence that is reported as bound to a declaration says nothing about any hardware: for
  every declaration and every string of bytes of the size or shape of a quote, whoever writes the
  declaration can attach those bytes and the hash of the declaration, and the check reports the evidence
  as bound. The nonce it compares is a field of the document, and nothing is read out of the quote.\<close>

theorem any_quote_binds:
  assumes "json_ok (JObj kvs)" "distinct (map fst kvs)" "\<forall>k \<in> fst ` set kvs. field_of probe_table k = None"
    "quote_shape fmt q" "q \<noteq> []" "ascii fmt" "t \<noteq> 0" "Ledger_Entry.int64_ok t" "BindingHash (json_print (JObj kvs)) = Some want"
    "length (json_print (tee_block fmt want q t)) \<le> MaxEvidenceBytes"
  shows "vr_level (CheckEvidence anchors (json_print (JObj (kvs @ [(''tee'', tee_block fmt want q t)])))) = EvidenceBound"
proof -
  let ?tee = "tee_block fmt want q t"
  let ?kvs = "kvs @ [(''tee'', ?tee)]"
  define raw where "raw = json_print (JObj ?kvs)"
  have notee: "''tee'' \<notin> fst ` set kvs" using assms(3) probe_tee by force
  have ms: "raw_members (json_print (JObj kvs)) = Some (map raw_of kvs)" by (rule raw_members_print [OF assms(1)])
  have want: "want = hex_encode (sha256 (canonical_members (map (\<lambda>(k, v). (k, json_print v)) kvs)))"
  proof -
    have "al_del ''tee'' (map (\<lambda>(k, v). (k, json_print v)) kvs) = map (\<lambda>(k, v). (k, json_print v)) kvs"
      using notee by (force simp: al_del_def filter_id_conv)
    then show ?thesis using assms(9) ms raw_map_distinct [OF assms(2)] by (simp add: BindingHash_def del: json_print.simps)
  qed
  have "json_ok ?tee" using assms(6) by (auto simp: tee_block_def want visible_ascii hex_visible in_range_def)
  then have ok: "json_ok (JObj ?kvs)" using assms(1) by (auto simp: in_range_def)
  have ms': "raw_members raw = Some (map raw_of ?kvs)" unfolding raw_def by (rule raw_members_print [OF ok])
  have "raw_map (map raw_of ?kvs) = map (\<lambda>(k, v). (k, json_print v)) ?kvs"
    by (rule raw_map_distinct) (use assms(2) notee in auto)
  moreover have "al_del ''tee'' (map (\<lambda>(k, v). (k, json_print v)) ?kvs) = map (\<lambda>(k, v). (k, json_print v)) kvs"
    using notee by (force simp: al_del_def filter_id_conv)
  ultimately have bh: "BindingHash raw = Some want" using ms' want by (simp add: BindingHash_def del: json_print.simps map_append)
  have pr: "probe_members (map raw_of ?kvs) (None, 0) = Some (Some (json_print ?tee, ?tee), 0)"
    using probe_others [OF assms(3), of "map raw_of [(''tee'', ?tee)]" "(None, 0)"] by (simp add: raw_of_def probe_tee del: json_print.simps)
  let ?ev = "\<lparr>ev_format = fmt, ev_nonce = want, ev_quote = b64_encode q, ev_taken = t, ev_verifier = []\<rparr>"
  have "check_binding (Some want) 0 ?ev = None"
  proof -
    have "oneOf fmt EvidenceFormats" using assms(4) by (auto simp: quote_shape_def oneOf_def EvidenceFormats_def)
    moreover have "checkQuoteShape ?ev = None" unfolding want by (rule shape_ok [OF assms(4,5,7)])
    moreover have "equal_fold_hex (TrimSpace want) want" unfolding want using equal_fold_hex_self by (simp add: hex_visible)
    ultimately show ?thesis by (simp add: check_binding_def)
  qed
  then have "vr_level (CheckEvidence anchors raw) = EvidenceBound"
    using ms' pr bh assms(10) read_tee_block [OF assms(8), of fmt want q]
    by (simp add: CheckEvidence_def del: json_print.simps map_append)
  then show ?thesis by (simp only: raw_def)
qed

definition toy_declaration :: "(string \<times> json) list" where
  "toy_declaration = [(''engine'', JStr ''e''), (''model'', JStr ''m'')]"

lemma length_json_char: "length (json_char c) \<le> 6"
  by (simp add: json_char_def Let_def)

lemma length_json_string: "ascii s \<Longrightarrow> length (json_string s) \<le> 6 * length s + 2"
proof -
  have "ascii s \<Longrightarrow> length (json_body s) \<le> 6 * length s"
  proof (induction s)
    case (Cons c s)
    then show ?case using length_json_char [of c] by (simp add: json_body_ascii)
  qed (simp add: json_body.simps)
  then show "ascii s \<Longrightarrow> ?thesis" by (simp add: json_string_def)
qed

theorem any_quote_binds_witness:
  "\<exists>want. vr_level (CheckEvidence [] (json_print (JObj (toy_declaration @ [(''tee'', tee_block FormatNvidiaEAT want ''..'' 1)])))) = EvidenceBound"
proof -
  have ok: "json_ok (JObj toy_declaration)" by (simp add: toy_declaration_def in_range_def)
  obtain m where w: "BindingHash (json_print (JObj toy_declaration)) = Some (hex_encode (sha256 m))"
    using raw_members_print [OF ok] by (simp add: BindingHash_def del: json_print.simps)
  have f: "length (json_string FormatNvidiaEAT) \<le> 74" "length (json_string (hex_encode (sha256 m))) \<le> 386"
    using length_json_string [of FormatNvidiaEAT] length_json_string [of "hex_encode (sha256 m)"]
    by (simp_all add: FormatNvidiaEAT_def in_range_def visible_ascii hex_visible)
  have q: "length (json_string (b64_encode ''..'')) \<le> 26"
    using length_json_string [OF visible_ascii [OF b64_visible [of "''..''"]]] by simp
  have n: "length (json_string ''format'') \<le> 38" "length (json_string ''nonce'') \<le> 32" "length (json_string ''quote'') \<le> 32" "length (json_string ''ts'') \<le> 14"
    using length_json_string [of "''format''"] length_json_string [of "''nonce''"] length_json_string [of "''quote''"] length_json_string [of "''ts''"]
    by (simp_all add: in_range_def)
  have len: "length (json_print (tee_block FormatNvidiaEAT (hex_encode (sha256 m)) ''..'' 1)) \<le> MaxEvidenceBytes"
    using f n q by (simp add: tee_block_def MaxEvidenceBytes_def dec_int_def dec_nat.simps)
  have "vr_level (CheckEvidence [] (json_print (JObj (toy_declaration @ [(''tee'', tee_block FormatNvidiaEAT (hex_encode (sha256 m)) ''..'' 1)])))) = EvidenceBound"
  proof (rule any_quote_binds [OF ok _ _ _ _ _ _ _ w len])
    show "\<forall>k \<in> fst ` set toy_declaration. field_of probe_table k = None" by (simp add: toy_declaration_def) code_simp
    show "quote_shape FormatNvidiaEAT ''..''" by (simp add: quote_shape_def)
  qed (simp_all add: toy_declaration_def FormatNvidiaEAT_def in_range_def Ledger_Entry.int64_ok_def)
  then show ?thesis ..
qed

end
