(* ===== verification/Receipt.thy ===== *)
theory Receipt
  imports Tee Witness
begin

text \<open>
  \<^verbatim>\<open>kernel/internal/ledger/receipt.go\<close>: the portable evidence about one sealed effect, how it is put
  together from the tables and how it is checked from the document alone. An \<^verbatim>\<open>int\<close> has 64 bits.
\<close>

definition ReceiptVersion :: string where "ReceiptVersion = ''aura-receipt/1''"

record receipt_checkpoint =
  rk_seq :: nat
  rk_head_hash :: string
  rk_merkle_root :: string
  rk_node :: string
  rk_pubkey :: string
  rk_signature :: string
  rk_ts :: int

record receipt_witness =
  rw_witness_key :: string
  rw_signature :: string
  rw_url :: string
  rw_ts :: int

record receipt =
  rc_version :: string
  rc_entry_b64 :: string
  rc_entry_hash :: string
  rc_leaf_index :: int
  rc_tree_size :: int
  rc_merkle_root :: string
  rc_inclusion :: "string list"
  rc_checkpoint :: receipt_checkpoint
  rc_witnesses :: "receipt_witness list"
  rc_attestations :: "(string \<times> string) list"

definition receipt_Entry :: "receipt \<Rightarrow> bytes option" where
  "receipt_Entry r = b64_decode (rc_entry_b64 r)"

definition receipt_Attestation :: "receipt \<Rightarrow> string \<Rightarrow> bytes option" where
  "receipt_Attestation r h = (case al_get (rc_attestations r) h of None \<Rightarrow> None | Some enc \<Rightarrow> b64_decode enc)"

section \<open>Building\<close>

datatype receipt_error =
    EntryUnread db_error | StoredNotJson | ReceiptCheckpoints db_error | NotCovered nat | ReceiptEntries db_error
  | CoversMore nat nat | ReceiptProof proof_error | ReceiptWitnesses db_error

definition anchors_entry :: "nat \<Rightarrow> checkpoint_row \<Rightarrow> bool" where
  "anchors_entry sq c \<longleftrightarrow> sq \<le> cp_seq c \<and> cp_merkle_root c \<noteq> []"

text \<open>The records an entry cites, as far as the table has them; call \<open>k\<close> and those after it read them.\<close>

fun cited_records :: "(nat \<Rightarrow> bool) \<Rightarrow> nat \<Rightarrow> ledger_db \<Rightarrow> string list \<Rightarrow> (string \<times> string) list \<Rightarrow> (string \<times> string) list" where
  "cited_records io k db [] m = m"
| "cited_records io k db (h # hs) m =
     cited_records io (k + 1) db hs
       (case Attestation (io k) h db of Inl _ \<Rightarrow> m | Inr record \<Rightarrow> al_put h (b64_encode record) m)"

definition same_head :: "checkpoint_row \<Rightarrow> witness_row \<Rightarrow> bool" where
  "same_head c w \<longleftrightarrow> wr_seq w = cp_seq c \<and> wr_merkle_root w = cp_merkle_root c"

definition BuildReceipt :: "(nat \<Rightarrow> bool) \<Rightarrow> ledger_db \<Rightarrow> string \<Rightarrow> receipt_error + receipt" where
  "BuildReceipt io db entryHash =
     (case LedgerEntryByHash (io 0) entryHash db of
        Inl e \<Rightarrow> Inl (EntryUnread e)
      | Inr raw \<Rightarrow>
     (case Unmarshal_Entry raw of
        None \<Rightarrow> Inl StoredNotJson
      | Some entry \<Rightarrow>
     (case LedgerCheckpoints (io 1) db of
        Inl e \<Rightarrow> Inl (ReceiptCheckpoints e)
      | Inr checkpoints \<Rightarrow>
     (case find (anchors_entry (en_seq entry)) checkpoints of
        None \<Rightarrow> Inl (NotCovered (en_seq entry))
      | Some anchor \<Rightarrow>
     (case LedgerEntries (io 2) 1 0 db of
        Inl e \<Rightarrow> Inl (ReceiptEntries e)
      | Inr entries \<Rightarrow>
          if length entries < cp_seq anchor then Inl (CoversMore (cp_seq anchor) (length entries))
          else
            (let lvs = map LeafHash (take (cp_seq anchor) entries);
                 index = uint_to_int ((en_seq entry + (2 ^ 64 - 1)) mod 2 ^ 64)
             in case InclusionProof lvs index of
                  Inl e \<Rightarrow> Inl (ReceiptProof e)
                | Inr proof' \<Rightarrow>
                    (case LedgerWitnesses (io 3) db of
                       Inl e \<Rightarrow> Inl (ReceiptWitnesses e)
                     | Inr witnesses \<Rightarrow>
                         Inr \<lparr>rc_version = ReceiptVersion, rc_entry_b64 = b64_encode raw, rc_entry_hash = entryHash,
                              rc_leaf_index = index, rc_tree_size = uint_to_int (cp_seq anchor),
                              rc_merkle_root = cp_merkle_root anchor, rc_inclusion = map hash_String proof',
                              rc_checkpoint = \<lparr>rk_seq = cp_seq anchor, rk_head_hash = cp_head_hash anchor,
                                rk_merkle_root = cp_merkle_root anchor, rk_node = en_node entry,
                                rk_pubkey = cp_pubkey anchor, rk_signature = cp_signature anchor, rk_ts = cp_ts anchor\<rparr>,
                              rc_witnesses = map (\<lambda>w. \<lparr>rw_witness_key = wr_witness_key w, rw_signature = wr_signature w,
                                rw_url = wr_url w, rw_ts = wr_ts w\<rparr>) (filter (same_head anchor) witnesses),
                              rc_attestations = cited_records io 4 db (en_inference entry) []\<rparr>)))))))"

section \<open>Checking\<close>

datatype receipt_problem =
    UnknownVersion string | NotBase64 | EntryNotJson | EntryAltered | RootUnreadable hash_error | PathUnreadable nat hash_error
  | NotIncluded | WrongPosition | OtherHead | OtherSize | CheckpointUnsigned sig_error
  | CitationMissing string | CitationAltered string | WitnessUnsigned string

record receipt_report =
  rr_entry_hash_matches :: bool
  rr_inclusion_valid :: bool
  rr_checkpoint_valid :: bool
  rr_attestations_cited :: nat
  rr_attestations_resolved :: nat
  rr_witnesses :: nat
  rr_witnesses_valid :: nat
  rr_problems :: "receipt_problem list"

definition ReceiptReport_Sound :: "receipt_report \<Rightarrow> bool" where
  "ReceiptReport_Sound r \<longleftrightarrow> rr_entry_hash_matches r \<and> rr_inclusion_valid r \<and> rr_checkpoint_valid r"

definition empty_report :: receipt_report where
  "empty_report = \<lparr>rr_entry_hash_matches = False, rr_inclusion_valid = False, rr_checkpoint_valid = False,
     rr_attestations_cited = 0, rr_attestations_resolved = 0, rr_witnesses = 0, rr_witnesses_valid = 0, rr_problems = []\<rparr>"

definition problem :: "receipt_problem \<Rightarrow> receipt_report \<Rightarrow> receipt_report" where
  "problem p r = r\<lparr>rr_problems := rr_problems r @ [p]\<rparr>"

fun parse_path :: "nat \<Rightarrow> string list \<Rightarrow> (nat \<times> hash_error) + hash list" where
  "parse_path i [] = Inr []"
| "parse_path i (s # ss) =
     (case ParseHash s of
        Inl e \<Rightarrow> Inl (i, e)
      | Inr h \<Rightarrow> (case parse_path (i + 1) ss of Inl e \<Rightarrow> Inl e | Inr hs \<Rightarrow> Inr (h # hs)))"

definition check_position :: "entry \<Rightarrow> bytes \<Rightarrow> receipt \<Rightarrow> hash list \<Rightarrow> hash \<Rightarrow> receipt_report \<Rightarrow> receipt_report" where
  "check_position e raw r path root rep =
     (let rep = (if VerifyInclusion (LeafHash raw) (rc_leaf_index r) (rc_tree_size r) path root
                 then rep\<lparr>rr_inclusion_valid := True\<rparr> else problem NotIncluded rep)
      in if uint_to_int (en_seq e) \<noteq> wrap_int (rc_leaf_index r + 1) then problem WrongPosition rep else rep)"

definition check_head :: "ed25519 \<Rightarrow> receipt \<Rightarrow> receipt_report \<Rightarrow> receipt_report" where
  "check_head ed r rep =
     (let c = rc_checkpoint r in
      if rk_merkle_root c \<noteq> rc_merkle_root r then problem OtherHead rep
      else if uint_to_int (rk_seq c) \<noteq> rc_tree_size r then problem OtherSize rep
      else (case signing_Verify ed (rk_pubkey c) (rk_signature c)
                   (checkpointPayload (rk_seq c) (rk_head_hash c) (rk_merkle_root c)) of
              Some e \<Rightarrow> problem (CheckpointUnsigned e) rep
            | None \<Rightarrow> rep\<lparr>rr_checkpoint_valid := True\<rparr>))"

definition check_citation :: "receipt \<Rightarrow> string \<Rightarrow> receipt_report \<Rightarrow> receipt_report" where
  "check_citation r h rep =
     (case receipt_Attestation r h of
        None \<Rightarrow> problem (CitationMissing h) rep
      | Some record \<Rightarrow>
          if AttestationHash record \<noteq> h then problem (CitationAltered h) rep
          else rep\<lparr>rr_attestations_resolved := rr_attestations_resolved rep + 1\<rparr>)"

definition check_witness :: "ed25519 \<Rightarrow> receipt_checkpoint \<Rightarrow> receipt_witness \<Rightarrow> receipt_report \<Rightarrow> receipt_report" where
  "check_witness ed c w rep =
     (case signing_Verify ed (rw_witness_key w) (rw_signature w) (witnessPayload (rk_node c) (rk_seq c) (rk_merkle_root c)) of
        Some e \<Rightarrow> problem (WitnessUnsigned (rw_witness_key w)) rep
      | None \<Rightarrow> rep\<lparr>rr_witnesses_valid := rr_witnesses_valid rep + 1\<rparr>)"

definition VerifyReceipt :: "ed25519 \<Rightarrow> receipt \<Rightarrow> receipt_report" where
  "VerifyReceipt ed r =
     (let rep = (if rc_version r \<noteq> ReceiptVersion then problem (UnknownVersion (rc_version r)) empty_report else empty_report) in
      case receipt_Entry r of
        None \<Rightarrow> problem NotBase64 rep
      | Some raw \<Rightarrow>
     (case Unmarshal_Entry raw of
        None \<Rightarrow> problem EntryNotJson rep
      | Some e \<Rightarrow>
          (let rep = (if Entry_Hash e = rc_entry_hash r then rep\<lparr>rr_entry_hash_matches := True\<rparr> else problem EntryAltered rep)
           in case ParseHash (rc_merkle_root r) of
                Inl err \<Rightarrow> problem (RootUnreadable err) rep
              | Inr root \<Rightarrow>
                  (case parse_path 0 (rc_inclusion r) of
                     Inl (i, err) \<Rightarrow> problem (PathUnreadable i err) rep
                   | Inr path \<Rightarrow>
                       (let rep = check_position e raw r path root rep;
                            rep = check_head ed r rep;
                            rep = fold (check_citation r) (en_inference e) (rep\<lparr>rr_attestations_cited := length (en_inference e)\<rparr>)
                        in fold (check_witness ed (rc_checkpoint r)) (rc_witnesses r)
                             (rep\<lparr>rr_witnesses := length (rc_witnesses r)\<rparr>))))))"

end
