(* ===== verification/Store_Events.thy ===== *)
theory Store_Events
  imports Seglog Store_Ledger
begin

text \<open>
  The sessions of \<^verbatim>\<open>kernel/internal/store/store.go\<close>: the table of sessions and the event log behind it,
  which is a \<^verbatim>\<open>seglog\<close>. The table of events of older data directories is only read. A statement that
  fails has no effect; \<open>now\<close> is the clock in milliseconds.
\<close>

record session_row =
  sr_id :: string
  sr_graph :: string
  sr_started :: int
  sr_ended :: "int option"

record event_row =
  vt_session :: string
  vt_envelope :: bytes
  vt_ts :: int
  vt_is_error :: bool

record event_store =
  es_log :: seglog
  es_sessions :: "session_row list"
  es_legacy :: "event_row list"

section \<open>Events\<close>

definition event_entry :: "int \<Rightarrow> string \<Rightarrow> string \<Rightarrow> string \<Rightarrow> string \<Rightarrow> bytes \<Rightarrow> log_entry" where
  "event_entry now session msgID causeID kind envelope =
     \<lparr>le_session = session, le_msg = msgID, le_cause = causeID, le_kind = kind, le_ts = now, le_envelope = envelope\<rparr>"

definition AppendEvent ::
  "write_outcome \<Rightarrow> (nat \<Rightarrow> bool) \<Rightarrow> int \<Rightarrow> string \<Rightarrow> string \<Rightarrow> string \<Rightarrow> string \<Rightarrow> bytes \<Rightarrow> event_store
   \<Rightarrow> event_store \<times> append_error option" where
  "AppendEvent wr io now session msgID causeID kind envelope st =
     (case append_batch wr io [event_entry now session msgID causeID kind envelope] (es_log st) of
        (l, rs) \<Rightarrow> (st\<lparr>es_log := l\<rparr>, hd rs))"

datatype events_error = LogUnread read_error | TableUnread

definition legacySessionEvents :: "bool \<Rightarrow> string \<Rightarrow> nat \<Rightarrow> event_row list \<Rightarrow> events_error + (bytes \<times> int) list" where
  "legacySessionEvents fault session limit rows =
     (if fault then Inl TableUnread
      else Inr (map (\<lambda>r. (vt_envelope r, vt_ts r)) (take limit (filter (\<lambda>r. vt_session r = session) rows))))"

definition store_SessionEvents :: "bool \<Rightarrow> string \<Rightarrow> int \<Rightarrow> event_store \<Rightarrow> events_error + (bytes \<times> int) list" where
  "store_SessionEvents fault session limit st =
     (let limit = (if limit \<le> 0 then 1000 else nat limit) in
      case log_Session session limit (es_log st) of
        (_, Some e) \<Rightarrow> Inl (LogUnread e)
      | ([], None) \<Rightarrow> legacySessionEvents fault session limit (es_legacy st)
      | (entries, None) \<Rightarrow> Inr (map (\<lambda>e. (le_envelope e, le_ts e)) entries))"

section \<open>Sessions\<close>

definition StartSession :: "bool \<Rightarrow> int \<Rightarrow> string \<Rightarrow> string \<Rightarrow> event_store \<Rightarrow> db_error + event_store" where
  "StartSession fault now i graph st =
     (if fault then Inl DbFault
      else Inr (st\<lparr>es_sessions :=
        (if list_ex (\<lambda>r. sr_id r = i) (es_sessions st)
         then map (\<lambda>r. if sr_id r = i then r\<lparr>sr_ended := None\<rparr> else r) (es_sessions st)
         else es_sessions st @ [\<lparr>sr_id = i, sr_graph = graph, sr_started = now, sr_ended = None\<rparr>])\<rparr>))"

definition EndSession :: "bool \<Rightarrow> int \<Rightarrow> string \<Rightarrow> event_store \<Rightarrow> db_error + event_store" where
  "EndSession fault now i st =
     (if fault then Inl DbFault
      else Inr (st\<lparr>es_sessions := map (\<lambda>r. if sr_id r = i then r\<lparr>sr_ended := Some now\<rparr> else r) (es_sessions st)\<rparr>))"

record session_meta =
  sm_id :: string
  sm_graph :: string
  sm_started :: int
  sm_ended :: int
  sm_events :: nat
  sm_errors :: nat

definition legacyCounts :: "bool \<Rightarrow> string \<Rightarrow> event_row list \<Rightarrow> nat \<times> nat" where
  "legacyCounts fault session rows =
     (if fault then (0, 0)
      else (length (filter (\<lambda>r. vt_session r = session) rows),
            length (filter (\<lambda>r. vt_session r = session \<and> vt_is_error r) rows)))"

definition session_meta_of :: "bool \<Rightarrow> event_store \<Rightarrow> session_row \<Rightarrow> session_meta" where
  "session_meta_of fault st r =
     (let (n, e) = Counts (sr_id r) (es_log st);
          (n, e) = (if n = 0 then legacyCounts fault (sr_id r) (es_legacy st) else (n, e))
      in \<lparr>sm_id = sr_id r, sm_graph = sr_graph r, sm_started = sr_started r,
          sm_ended = (case sr_ended r of None \<Rightarrow> 0 | Some t \<Rightarrow> t), sm_events = n, sm_errors = e\<rparr>)"

text \<open>Newest first; the rows of one time in the order the table gives them.\<close>

definition ListSessions :: "bool \<Rightarrow> bool \<Rightarrow> int \<Rightarrow> event_store \<Rightarrow> db_error + session_meta list" where
  "ListSessions fault fault2 limit st =
     (if fault then Inl DbFault
      else Inr (map (session_meta_of fault2 st)
                  (take (if limit \<le> 0 then 20 else nat limit) (sort_key (\<lambda>r. - sr_started r) (es_sessions st)))))"

definition GetSession :: "bool \<Rightarrow> bool \<Rightarrow> string \<Rightarrow> event_store \<Rightarrow> db_error + session_meta" where
  "GetSession fault fault2 i st =
     (case ListSessions fault fault2 1000 st of
        Inl e \<Rightarrow> Inl e
      | Inr ms \<Rightarrow> (case find (\<lambda>m. sm_id m = i) ms of None \<Rightarrow> Inl NotFound | Some m \<Rightarrow> Inr m))"

end
