(* ===== verification/Bundle.thy ===== *)
theory Bundle
  imports Receipt Store_Events
begin

text \<open>
  \<^verbatim>\<open>kernel/internal/ledger/bundle.go\<close>: the case file of one session, how it is put together and how it is
  checked from the document alone. A Go map is an association list. The sum of the reported energies, a
  floating-point number, is left out; \<open>other\<close> is the text of such a number (see \<open>Attest\<close>).
\<close>

definition BundleVersion :: string where "BundleVersion = ''aura-audit-bundle/1''"
definition MaxTrajectorySteps :: nat where "MaxTrajectorySteps = 5000"

record bundle_step =
  bs_seq :: nat
  bs_ts :: int
  bs_envelope :: string

record bundle_summary =
  bm_steps :: nat
  bm_effects :: nat
  bm_delivered :: nat
  bm_denied :: nat
  bm_models :: "string list"
  bm_capabilities :: "string list"
  bm_policies :: "string list"
  bm_energy_sources :: "string list"
  bm_started :: int
  bm_ended :: int
  bm_generated :: int

record audit_bundle =
  bd_version :: string
  bd_session :: string
  bd_graph :: string
  bd_node :: string
  bd_trajectory :: "bundle_step list"
  bd_truncated :: bool
  bd_trajectory_hash :: string
  bd_effects :: "receipt list"
  bd_attestations :: "(string \<times> string) list"
  bd_summary :: bundle_summary

definition short :: "string \<Rightarrow> nat \<Rightarrow> string" where
  "short s n = (if length s \<le> n then s else take n s)"

definition sortedLabels :: "string list \<Rightarrow> string list" where
  "sortedLabels m = sort (filter (\<lambda>k. k \<noteq> []) m)"

section \<open>Building\<close>

definition trajectory_hash :: "bytes list \<Rightarrow> string" where
  "trajectory_hash envs = ''sha256:'' @ hex_encode (sha256 (concat envs))"

definition make_steps :: "(bytes \<times> int) list \<Rightarrow> bundle_step list" where
  "make_steps raw = map (\<lambda>(i, (env, ts)). \<lparr>bs_seq = i + 1, bs_ts = ts, bs_envelope = b64_encode env\<rparr>) (enumerate 0 raw)"

definition model_label :: "attestation \<Rightarrow> string" where
  "model_label a =
     an_model a @ (if an_quantization a = [] then [] else '' ('' @ an_quantization a @ '')'')
       @ (if an_model_revision a = [] then [] else '' @'' @ short (an_model_revision a) 12)"

text \<open>What the loop over the sealed effects collects. The sets are lists without repetitions.\<close>

record bundle_work =
  bw_node :: string
  bw_effects :: "receipt list"
  bw_attestations :: "(string \<times> string) list"
  bw_models :: "string list"
  bw_capabilities :: "string list"
  bw_policies :: "string list"
  bw_sources :: "string list"
  bw_count :: nat
  bw_delivered :: nat
  bw_denied :: nat

definition collect_record :: "(string \<Rightarrow> string option) \<Rightarrow> string \<Rightarrow> bytes \<Rightarrow> bundle_work \<Rightarrow> bundle_work" where
  "collect_record other h record w =
     (let w = w\<lparr>bw_attestations := al_put h (b64_encode record) (bw_attestations w)\<rparr> in
      case json_parse record of
        None \<Rightarrow> w
      | Some v \<Rightarrow>
          (case to_struct (set_attestation other) zero_attestation v of
             None \<Rightarrow> w
           | Some a \<Rightarrow>
               (let w = w\<lparr>bw_models := List.insert (model_label a) (bw_models w)\<rparr> in
                case an_energy a of None \<Rightarrow> w | Some e \<Rightarrow> w\<lparr>bw_sources := List.insert (er_source e) (bw_sources w)\<rparr>)))"

definition collect_citation ::
  "(string \<Rightarrow> string option) \<Rightarrow> (string \<Rightarrow> bool) \<Rightarrow> ledger_db \<Rightarrow> string \<Rightarrow> bundle_work \<Rightarrow> bundle_work" where
  "collect_citation other fault db h w =
     (case Attestation (fault h) h db of Inl _ \<Rightarrow> w | Inr record \<Rightarrow> collect_record other h record w)"

definition collect_effect ::
  "(string \<Rightarrow> string option) \<Rightarrow> (nat \<Rightarrow> bool) \<Rightarrow> (string \<Rightarrow> bool) \<Rightarrow> ledger_db \<Rightarrow> bytes \<Rightarrow> bundle_work \<Rightarrow> bundle_work" where
  "collect_effect other io fault db raw w =
     (case Unmarshal_Entry raw of
        None \<Rightarrow> w
      | Some e \<Rightarrow>
          (let w = w\<lparr>bw_node := en_node e, bw_capabilities := List.insert (en_capability e) (bw_capabilities w),
                     bw_policies := List.insert (en_policy e) (bw_policies w), bw_count := bw_count w + 1\<rparr>;
               w = (if en_outcome e = ''denied'' then w\<lparr>bw_denied := bw_denied w + 1\<rparr> else w\<lparr>bw_delivered := bw_delivered w + 1\<rparr>);
               w = (case BuildReceipt io db (Entry_Hash e) of Inl _ \<Rightarrow> w | Inr r \<Rightarrow> w\<lparr>bw_effects := bw_effects w @ [r]\<rparr>)
           in fold (collect_citation other fault db) (en_inference e) w))"

definition empty_work :: bundle_work where
  "empty_work = \<lparr>bw_node = [], bw_effects = [], bw_attestations = [], bw_models = [], bw_capabilities = [], bw_policies = [],
     bw_sources = [], bw_count = 0, bw_delivered = 0, bw_denied = 0\<rparr>"

datatype bundle_error = TrajectoryUnread events_error | NoEvents | EffectsUnread db_error

text \<open>\<open>io i\<close> are the failures of the calls that build the receipt of the \<open>i\<close>-th effect.\<close>

definition BuildBundle ::
  "(string \<Rightarrow> string option) \<Rightarrow> bool \<Rightarrow> bool \<Rightarrow> (nat \<Rightarrow> nat \<Rightarrow> bool) \<Rightarrow> (nat \<Rightarrow> string \<Rightarrow> bool) \<Rightarrow> int \<Rightarrow> event_store \<Rightarrow> ledger_db
   \<Rightarrow> string \<Rightarrow> bundle_error + audit_bundle" where
  "BuildBundle other fault1 fault2 io cio now st db session =
     (case store_SessionEvents fault1 session (int (MaxTrajectorySteps + 1)) st of
        Inl e \<Rightarrow> Inl (TrajectoryUnread e)
      | Inr [] \<Rightarrow> Inl NoEvents
      | Inr all_raw \<Rightarrow>
          (let raw = take MaxTrajectorySteps all_raw in
           case LedgerEntriesBySession fault2 session db of
             Inl e \<Rightarrow> Inl (EffectsUnread e)
           | Inr entries \<Rightarrow>
               (let w = fold (\<lambda>(i, e). collect_effect other (io i) (cio i) db e) (enumerate 0 entries) empty_work in
                Inr \<lparr>bd_version = BundleVersion, bd_session = session, bd_graph = [], bd_node = bw_node w,
                     bd_trajectory = make_steps raw, bd_truncated = (MaxTrajectorySteps < length all_raw),
                     bd_trajectory_hash = trajectory_hash (map fst raw), bd_effects = bw_effects w,
                     bd_attestations = bw_attestations w,
                     bd_summary = \<lparr>bm_steps = length raw, bm_effects = bw_count w, bm_delivered = bw_delivered w, bm_denied = bw_denied w,
                       bm_models = sortedLabels (bw_models w), bm_capabilities = sortedLabels (bw_capabilities w),
                       bm_policies = sortedLabels (bw_policies w), bm_energy_sources = sortedLabels (bw_sources w),
                       bm_started = snd (hd raw), bm_ended = snd (last raw), bm_generated = unix_milli now\<rparr>\<rparr>)))"

section \<open>Checking\<close>

datatype bundle_problem =
    BundleVersionUnknown string | StepNotBase64 nat | StepNotEnvelope nat | TrajectoryAltered
  | EffectUnsound string "receipt_problem list" | BundleAttestationNotBase64 string | BundleAttestationAltered string

record bundle_report =
  br_trajectory_intact :: bool
  br_steps :: nat
  br_effects :: nat
  br_effects_sound :: nat
  br_attestations :: nat
  br_attestations_sound :: nat
  br_truncated :: bool
  br_problems :: "bundle_problem list"

definition BundleReport_Sound :: "bundle_report \<Rightarrow> bool" where
  "BundleReport_Sound r \<longleftrightarrow> br_trajectory_intact r \<and> br_effects_sound r = br_effects r
     \<and> br_attestations_sound r = br_attestations r"

fun check_steps :: "nat \<Rightarrow> bundle_step list \<Rightarrow> bundle_problem + bytes" where
  "check_steps i [] = Inr []"
| "check_steps i (s # ss) =
     (case b64_decode (bs_envelope s) of
        None \<Rightarrow> Inl (StepNotBase64 (i + 1))
      | Some env \<Rightarrow>
          if json_parse env = None then Inl (StepNotEnvelope (i + 1))
          else (case check_steps (i + 1) ss of Inl p \<Rightarrow> Inl p | Inr rest \<Rightarrow> Inr (env @ rest)))"

definition check_effect :: "ed25519 \<Rightarrow> receipt \<Rightarrow> bundle_report \<Rightarrow> bundle_report" where
  "check_effect ed rc r =
     (let sub = VerifyReceipt ed rc in
      if ReceiptReport_Sound sub then r\<lparr>br_effects_sound := br_effects_sound r + 1\<rparr>
      else r\<lparr>br_problems := br_problems r @ [EffectUnsound (rc_entry_hash rc) (rr_problems sub)]\<rparr>)"

definition check_record :: "string \<times> string \<Rightarrow> bundle_report \<Rightarrow> bundle_report" where
  "check_record a r =
     (case b64_decode (snd a) of
        None \<Rightarrow> r\<lparr>br_problems := br_problems r @ [BundleAttestationNotBase64 (fst a)]\<rparr>
      | Some record \<Rightarrow>
          if AttestationHash record \<noteq> fst a then r\<lparr>br_problems := br_problems r @ [BundleAttestationAltered (fst a)]\<rparr>
          else r\<lparr>br_attestations_sound := br_attestations_sound r + 1\<rparr>)"

definition VerifyBundle :: "ed25519 \<Rightarrow> audit_bundle \<Rightarrow> bundle_report" where
  "VerifyBundle ed b =
     (let r = \<lparr>br_trajectory_intact = False, br_steps = length (bd_trajectory b), br_effects = 0, br_effects_sound = 0,
               br_attestations = 0, br_attestations_sound = 0, br_truncated = bd_truncated b,
               br_problems = (if bd_version b \<noteq> BundleVersion then [BundleVersionUnknown (bd_version b)] else [])\<rparr>
      in case check_steps 0 (bd_trajectory b) of
           Inl p \<Rightarrow> r\<lparr>br_problems := br_problems r @ [p]\<rparr>
         | Inr envs \<Rightarrow>
             (let r = (if ''sha256:'' @ hex_encode (sha256 envs) = bd_trajectory_hash b then r\<lparr>br_trajectory_intact := True\<rparr>
                       else r\<lparr>br_problems := br_problems r @ [TrajectoryAltered]\<rparr>);
                  r = fold (check_effect ed) (bd_effects b) (r\<lparr>br_effects := length (bd_effects b)\<rparr>)
              in fold check_record (bd_attestations b) (r\<lparr>br_attestations := length (bd_attestations b)\<rparr>)))"

end
