(* ===== verification/Receipt_Properties.thy ===== *)
theory Receipt_Properties
  imports Receipt Evidence_Properties Witness_Properties
begin

text \<open>What a receipt proves, and that the receipts a ledger issues prove it.\<close>

section \<open>The verdict\<close>

definition flags :: "receipt_report \<Rightarrow> bool \<times> bool \<times> bool" where
  "flags r = (rr_entry_hash_matches r, rr_inclusion_valid r, rr_checkpoint_valid r)"

lemma flags_problem [simp]: "flags (problem p r) = flags r"
  by (simp add: flags_def problem_def)

lemma flags_empty [simp]: "flags empty_report = (False, False, False)"
  by (simp add: flags_def empty_report_def)

lemma flags_upd [simp]:
  "flags (r\<lparr>rr_entry_hash_matches := b\<rparr>) = (b, snd (flags r))" "flags (r\<lparr>rr_inclusion_valid := b\<rparr>) = (fst (flags r), b, snd (snd (flags r)))"
  "flags (r\<lparr>rr_checkpoint_valid := b\<rparr>) = (fst (flags r), fst (snd (flags r)), b)"
  "flags (r\<lparr>rr_attestations_cited := n\<rparr>) = flags r" "flags (r\<lparr>rr_attestations_resolved := n\<rparr>) = flags r"
  "flags (r\<lparr>rr_witnesses := n\<rparr>) = flags r" "flags (r\<lparr>rr_witnesses_valid := n\<rparr>) = flags r"
  by (simp_all add: flags_def)

lemma flags_citations [simp]: "flags (fold (check_citation r) hs rep) = flags rep"
  by (induction hs arbitrary: rep) (simp_all add: check_citation_def split: option.split)

lemma flags_witnesses [simp]: "flags (fold (check_witness ed c) ws rep) = flags rep"
  by (induction ws arbitrary: rep) (simp_all add: check_witness_def split: option.split)

lemma flags_position:
  "flags (check_position e raw r path root rep) =
     (fst (flags rep), VerifyInclusion (LeafHash raw) (rc_leaf_index r) (rc_tree_size r) path root \<or> fst (snd (flags rep)), snd (snd (flags rep)))"
  by (simp add: check_position_def Let_def)

definition head_signed :: "ed25519 \<Rightarrow> receipt \<Rightarrow> bool" where
  "head_signed ed r \<longleftrightarrow> (let c = rc_checkpoint r in rk_merkle_root c = rc_merkle_root r \<and> uint_to_int (rk_seq c) = rc_tree_size r
     \<and> signing_Verify ed (rk_pubkey c) (rk_signature c) (checkpointPayload (rk_seq c) (rk_head_hash c) (rk_merkle_root c)) = None)"

lemma flags_head: "flags (check_head ed r rep) = (fst (flags rep), fst (snd (flags rep)), head_signed ed r \<or> snd (snd (flags rep)))"
  by (auto simp: check_head_def head_signed_def Let_def split: option.split)

lemma Sound_flags: "ReceiptReport_Sound r \<longleftrightarrow> flags r = (True, True, True)"
  by (simp add: ReceiptReport_Sound_def flags_def)

lemma Sound_iff:
  "ReceiptReport_Sound (VerifyReceipt ed r) \<longleftrightarrow>
     (\<exists>raw e root path. receipt_Entry r = Some raw \<and> Unmarshal_Entry raw = Some e \<and> Entry_Hash e = rc_entry_hash r
        \<and> ParseHash (rc_merkle_root r) = Inr root \<and> parse_path 0 (rc_inclusion r) = Inr path
        \<and> VerifyInclusion (LeafHash raw) (rc_leaf_index r) (rc_tree_size r) path root \<and> head_signed ed r)"
  unfolding Sound_flags VerifyReceipt_def Let_def
  by (auto simp: flags_position flags_head split: option.split sum.split)

section \<open>What a sound receipt shows\<close>


lemma parse_path_String: "wf_hashes hs \<Longrightarrow> parse_path i (map hash_String hs) = Inr hs"
  by (induction hs arbitrary: i) simp_all



section \<open>Receipts a ledger issues\<close>

lemma wf_inclusionPath: "wf_hashes hs \<Longrightarrow> wf_hashes (inclusionPath hs i)"
proof (induction hs i rule: inclusionPath.induct)
  case (1 hs i)
  show ?case
  proof (cases "length hs \<le> 1")
    case False
    with 1 show ?thesis by (subst inclusionPath.simps) (simp add: Let_def)
  qed (simp add: inclusionPath.simps)
qed

lemma find_SomeD: "find P xs = Some a \<Longrightarrow> a \<in> set xs \<and> P a"
  by (induction xs) (auto split: if_splits)

lemma find_distinct: "distinct (map f xs) \<Longrightarrow> i < length xs \<Longrightarrow> find (\<lambda>r. f r = f (xs ! i)) xs = Some (xs ! i)"
proof (induction xs arbitrary: i)
  case (Cons x xs)
  show ?case
  proof (cases i)
    case (Suc j)
    then have "f x \<noteq> f (xs ! j)" using Cons.prems by (metis distinct.simps(2) length_Cons length_map list.simps(9) not_less_eq nth_map nth_mem)
    with Cons Suc show ?thesis by simp
  qed simp
qed simp

lemma by_hash:
  assumes "db_inv ed node db es" "i < length es"
  shows "LedgerEntryByHash False (Entry_Hash (es ! i)) db = Inr (Marshal_Entry (es ! i))"
proof -
  have st: "list_all2 stored es (db_entries db)" "distinct (map Entry_Hash es)" using assms(1) by (simp_all add: db_inv_def)
  have len: "length (db_entries db) = length es" using st(1) by (auto dest: list_all2_lengthD)
  have row: "stored (es ! i) (db_entries db ! i)" using st(1) assms(2) by (rule list_all2_nthD)
  have d: "distinct (map er_hash (db_entries db))" using st(2) stored_hashes [OF st(1)] by simp
  have h: "er_hash (db_entries db ! i) = Entry_Hash (es ! i)" using row by (simp add: stored_def)
  from find_distinct [OF d, of i] row assms(2) show ?thesis by (simp add: LedgerEntryByHash_def stored_def len h)
qed

lemma BuildReceipt_anchored:
  assumes "db_inv ed node db es" "list_all entry_ok es" "int (length es) < 2 ^ 63" "i < length es"
    "c \<in> set (db_checkpoints db)" "i < cp_seq c"
  shows "\<exists>r. BuildReceipt (\<lambda>_. False) db (Entry_Hash (es ! i)) = Inr r \<and> ReceiptReport_Sound (VerifyReceipt ed r)
    \<and> receipt_Entry r = Some (Marshal_Entry (es ! i)) \<and> rc_leaf_index r = int i"
proof -
  have st: "list_all2 stored es (db_entries db)" "chained 0 [] es" "distinct (map Entry_Hash es)"
    and cps: "list_all (checkpoint_ok ed es) (db_checkpoints db)" using assms(1) by (simp_all add: db_inv_def)
  have seq: "en_seq (es ! i) = Suc i" using chained_nth [OF st(2) assms(4)] by simp
  have ok: "entry_ok (es ! i)" using assms(2,4) by (simp add: list_all_length)
  have byhash: "LedgerEntryByHash False (Entry_Hash (es ! i)) db = Inr (Marshal_Entry (es ! i))"
    by (rule by_hash [OF assms(1,4)])
  have um: "Unmarshal_Entry (Marshal_Entry (es ! i)) = Some (es ! i)" by (rule Entry_roundtrip [OF ok])
  have "c \<in> set (sort_key cp_seq (db_checkpoints db))" using assms(5) by simp
  moreover have "anchors_entry (Suc i) c"
    using cps assms(5,6) by (auto simp: anchors_entry_def list_all_iff checkpoint_ok_def)
  ultimately obtain a where a: "find (anchors_entry (Suc i)) (sort_key cp_seq (db_checkpoints db)) = Some a"
    by (metis find_None_iff not_None_eq)
  then have a_in: "a \<in> set (db_checkpoints db)" "anchors_entry (Suc i) a" using find_SomeD [OF a] by simp_all
  have aok: "checkpoint_ok ed es a" using cps a_in(1) by (simp add: list_all_iff)
  let ?n = "cp_seq a"
  have n: "0 < ?n" "?n \<le> length es" "i < ?n" using aok a_in(2) by (simp_all add: checkpoint_ok_def anchors_entry_def)
  let ?raws = "map Marshal_Entry es"
  have es: "LedgerEntries False 1 0 db = Inr ?raws" by (rule db_inv_entries [OF assms(1)])
  have lv: "map LeafHash (take ?n ?raws) = leaves (take ?n es)" by (simp add: leaves_def take_map)
  have idx: "uint_to_int ((Suc i + (2 ^ 64 - 1)) mod 2 ^ 64) = int i"
  proof -
    have "Suc i + (2 ^ 64 - 1) = i + 2 ^ 64" by simp
    moreover have "int i < 2 ^ 63" using assms(3,4) by linarith
    moreover from this have "i < 2 ^ 64" by simp
    ultimately show ?thesis by (simp add: uint_to_int_def)
  qed
  have sz: "uint_to_int ?n = int ?n" using n assms(3) by (simp add: uint_to_int_def)
  obtain p where p: "InclusionProof (leaves (take ?n es)) (int i) = Inr p" using n by (simp add: InclusionProof_def)
  have "wf_hashes (leaves (take ?n es))" by (simp add: leaves_def list_all_iff)
  then have wf: "wf_hashes p" using p wf_inclusionPath by (auto simp: InclusionProof_def split: if_splits)
  obtain ws where ws: "LedgerWitnesses False db = Inr ws" by (simp add: LedgerWitnesses_def)
  define r where "r = \<lparr>rc_version = ReceiptVersion, rc_entry_b64 = b64_encode (Marshal_Entry (es ! i)), rc_entry_hash = Entry_Hash (es ! i),
      rc_leaf_index = int i, rc_tree_size = int ?n, rc_merkle_root = cp_merkle_root a, rc_inclusion = map hash_String p,
      rc_checkpoint = \<lparr>rk_seq = ?n, rk_head_hash = cp_head_hash a, rk_merkle_root = cp_merkle_root a, rk_node = en_node (es ! i),
        rk_pubkey = cp_pubkey a, rk_signature = cp_signature a, rk_ts = cp_ts a\<rparr>,
      rc_witnesses = map (\<lambda>w. \<lparr>rw_witness_key = wr_witness_key w, rw_signature = wr_signature w,
        rw_url = wr_url w, rw_ts = wr_ts w\<rparr>) (filter (same_head a) ws),
      rc_attestations = cited_records (\<lambda>_. False) 4 db (en_inference (es ! i)) []\<rparr>"
  have built: "BuildReceipt (\<lambda>_. False) db (Entry_Hash (es ! i)) = Inr r"
    using n unfolding BuildReceipt_def byhash sum.case um option.case LedgerCheckpoints_def if_False seq a es Let_def lv idx p ws sz r_def by simp
  have ent: "receipt_Entry r = Some (Marshal_Entry (es ! i))" by (simp add: receipt_Entry_def r_def)
  have root: "cp_merkle_root a = hash_String (MerkleRoot (leaves (take ?n es)))" using aok by (simp add: checkpoint_ok_def)
  have "ParseHash (rc_merkle_root r) = Inr (MerkleRoot (leaves (take ?n es)))"
    unfolding r_def receipt.simps root by (rule ParseHash_String [OF wf_MerkleRoot]) (simp add: leaves_def list_all_iff)
  moreover have "parse_path 0 (rc_inclusion r) = Inr p" by (simp add: r_def parse_path_String [OF wf])
  moreover have "VerifyInclusion (LeafHash (Marshal_Entry (es ! i))) (rc_leaf_index r) (rc_tree_size r) p (MerkleRoot (leaves (take ?n es)))"
    using VerifyInclusion_complete [OF _ _ p] n by (simp add: r_def) (simp add: leaves_def)
  moreover have "head_signed ed r"
  proof -
    have "signing_Verify ed (cp_pubkey a) (cp_signature a) (checkpointPayload ?n (cp_head_hash a) (cp_merkle_root a)) = None"
      using aok unfolding checkpoint_ok_def by blast
    with sz show ?thesis by (simp add: head_signed_def r_def Let_def)
  qed
  ultimately have "ReceiptReport_Sound (VerifyReceipt ed r)"
    unfolding Sound_iff using ent um by (auto simp: r_def)
  with built ent show ?thesis by (auto simp: r_def)
qed

text \<open>A receipt that could be built verifies, whatever failed on the way.\<close>

lemma BuildReceipt_faultless:
  "BuildReceipt io db h = Inr r \<Longrightarrow> \<exists>m. BuildReceipt (\<lambda>_. False) db h = Inr (r\<lparr>rc_attestations := m\<rparr>)"
  by (auto simp: BuildReceipt_def LedgerEntryByHash_def LedgerCheckpoints_def LedgerEntries_def LedgerWitnesses_def Let_def
      split: if_splits option.splits sum.splits)

lemma Sound_attestations: "ReceiptReport_Sound (VerifyReceipt ed (r\<lparr>rc_attestations := m\<rparr>)) = ReceiptReport_Sound (VerifyReceipt ed r)"
  unfolding Sound_iff by (simp add: receipt_Entry_def head_signed_def)

lemma BuildReceipt_sound:
  assumes "db_inv ed node db es" "list_all entry_ok es" "int (length es) < 2 ^ 63" "e \<in> set es" "BuildReceipt io db (Entry_Hash e) = Inr r"
  shows "ReceiptReport_Sound (VerifyReceipt ed r)"
proof -
  obtain i where i: "i < length es" "es ! i = e" using assms(4) by (auto simp: in_set_conv_nth)
  obtain m where m: "BuildReceipt (\<lambda>_. False) db (Entry_Hash (es ! i)) = Inr (r\<lparr>rc_attestations := m\<rparr>)"
    using BuildReceipt_faultless [OF assms(5)] i(2) by blast
  have "\<exists>c \<in> set (db_checkpoints db). i < cp_seq c"
  proof (rule ccontr)
    assume no: "\<not> ?thesis"
    have "en_seq (es ! i) = Suc i" using chained_nth [of 0 "[]" es i] assms(1) i(1) by (simp add: db_inv_def)
    then have "find (anchors_entry (en_seq (es ! i))) (sort_key cp_seq (db_checkpoints db)) = None"
      using no by (auto simp: find_None_iff anchors_entry_def)
    moreover have "Unmarshal_Entry (Marshal_Entry (es ! i)) = Some (es ! i)"
      using assms(2) i(1) by (intro Entry_roundtrip) (simp add: list_all_length)
    moreover have "LedgerEntryByHash False (Entry_Hash (es ! i)) db = Inr (Marshal_Entry (es ! i))"
      by (rule by_hash [OF assms(1) i(1)])
    ultimately show False using m by (simp add: BuildReceipt_def LedgerCheckpoints_def)
  qed
  then obtain c where c: "c \<in> set (db_checkpoints db)" "i < cp_seq c" by blast
  from BuildReceipt_anchored [OF assms(1-3) i(1) c] m show ?thesis by (auto simp: Sound_attestations)
qed

text \<open>Every effect a signed checkpoint of the ledger covers can be proved on its own: the receipt built
  from the tables verifies, carries exactly the bytes that were sealed, and places them where the ledger
  has them.\<close>

theorem issued_receipt_verifies:
  assumes "db_inv ed node db es" "list_all entry_ok es" "int (length es) < 2 ^ 63" "i < length es"
    "c \<in> set (db_checkpoints db)" "i < cp_seq c"
  shows "\<exists>r. BuildReceipt (\<lambda>_. False) db (Entry_Hash (es ! i)) = Inr r \<and> ReceiptReport_Sound (VerifyReceipt ed r)
    \<and> receipt_Entry r = Some (Marshal_Entry (es ! i)) \<and> rc_leaf_index r = int i"
  by (rule BuildReceipt_anchored [OF assms])


theorem issued_receipt_verifies_witness:
  "\<exists>r. BuildReceipt (\<lambda>_. False) toy_db (Entry_Hash ([toy_sealed] ! 0)) = Inr r \<and> ReceiptReport_Sound (VerifyReceipt toy_ed r)
    \<and> receipt_Entry r = Some (Marshal_Entry ([toy_sealed] ! 0)) \<and> rc_leaf_index r = int 0"
  by (rule issued_receipt_verifies [OF toy_db_inv toy_sealed_ok, where c = "hd (db_checkpoints toy_db)"]) (simp_all add: toy_db_def)


end
