(* ===== verification/Bundle_Properties.thy ===== *)
theory Bundle_Properties
  imports Bundle Receipt_Properties
begin

text \<open>The case files a node writes verify; and what their trajectory hash does not bind.\<close>

section \<open>The steps\<close>

lemma check_steps_made:
  "\<forall>(env, ts) \<in> set raw. json_parse env \<noteq> None \<Longrightarrow>
   check_steps i (map (\<lambda>(j, (env, ts)). \<lparr>bs_seq = j + 1, bs_ts = ts, bs_envelope = b64_encode env\<rparr>) (enumerate k raw)) = Inr (concat (map fst raw))"
proof (induction raw arbitrary: i k)
  case (Cons x raw)
  obtain env ts where x: "x = (env, ts)" by (cases x)
  from Cons x show ?case by auto
qed simp

lemma check_steps_make: "\<forall>(env, ts) \<in> set raw. json_parse env \<noteq> None \<Longrightarrow> check_steps 0 (make_steps raw) = Inr (concat (map fst raw))"
  unfolding make_steps_def by (rule check_steps_made)

section \<open>The effects and the records\<close>

definition record_ok :: "string \<times> string \<Rightarrow> bool" where
  "record_ok a \<longleftrightarrow> (\<exists>record. snd a = b64_encode record \<and> AttestationHash record = fst a)"

lemma effects_checked:
  "\<forall>rc \<in> set rcs. ReceiptReport_Sound (VerifyReceipt ed rc) \<Longrightarrow>
   fold (check_effect ed) rcs r = r\<lparr>br_effects_sound := br_effects_sound r + length rcs\<rparr>"
  by (induction rcs arbitrary: r) (simp_all add: check_effect_def Let_def)

lemma records_checked:
  "\<forall>a \<in> set xs. record_ok a \<Longrightarrow> fold check_record xs r = r\<lparr>br_attestations_sound := br_attestations_sound r + length xs\<rparr>"
  by (induction xs arbitrary: r) (auto simp: check_record_def record_ok_def)

definition work_ok :: "ed25519 \<Rightarrow> bundle_work \<Rightarrow> bool" where
  "work_ok ed w \<longleftrightarrow> (\<forall>rc \<in> set (bw_effects w). ReceiptReport_Sound (VerifyReceipt ed rc)) \<and> (\<forall>a \<in> set (bw_attestations w). record_ok a)"

definition content_addressed :: "ledger_db \<Rightarrow> bool" where
  "content_addressed db \<longleftrightarrow> (\<forall>(h, raw, ts) \<in> set (db_attestations db). AttestationHash raw = h)"

lemma al_put_set: "set (al_put k v xs) \<subseteq> insert (k, v) (set xs)"
  by (induction k v xs rule: al_put.induct) auto

lemma collect_citation_ok:
  assumes "content_addressed db" "work_ok ed w"
  shows "work_ok ed (collect_citation other fault db h w)"
proof (cases "Attestation (fault h) h db")
  case (Inr raw)
  then obtain ts where "(h, raw, ts) \<in> set (db_attestations db)"
    by (auto simp: Attestation_def dest: al_get_SomeD split: if_splits option.splits)
  then have "record_ok (h, b64_encode raw)" using assms(1) by (auto simp: content_addressed_def record_ok_def)
  then have "\<forall>a \<in> set (al_put h (b64_encode raw) (bw_attestations w)). record_ok a"
    using assms(2) al_put_set [of h "b64_encode raw" "bw_attestations w"] by (auto simp: work_ok_def)
  with Inr assms(2) show ?thesis
    by (simp add: collect_citation_def collect_record_def work_ok_def Let_def split: option.split)
qed (use assms in \<open>simp add: collect_citation_def\<close>)

lemma collect_citations_ok:
  "content_addressed db \<Longrightarrow> work_ok ed w \<Longrightarrow> work_ok ed (fold (collect_citation other fault db) hs w)"
  by (induction hs arbitrary: w) (simp_all add: collect_citation_ok)

lemma collect_effect_ok:
  assumes "db_inv ed node db es" "list_all entry_ok es" "int (length es) < 2 ^ 63" "content_addressed db" "e \<in> set es" "work_ok ed w"
  shows "work_ok ed (collect_effect other io fault db (Marshal_Entry e) w)"
proof -
  have um: "Unmarshal_Entry (Marshal_Entry e) = Some e" using assms(2,5) by (intro Entry_roundtrip) (simp add: list_all_iff)
  have "ReceiptReport_Sound (VerifyReceipt ed r)" if "BuildReceipt io db (Entry_Hash e) = Inr r" for r
    by (rule BuildReceipt_sound [OF assms(1-3,5) that])
  then show ?thesis
    unfolding collect_effect_def um Let_def option.case
    by (intro collect_citations_ok [OF assms(4)]) (use assms(6) in \<open>auto simp: work_ok_def split: sum.split\<close>)
qed

lemma collect_all_ok:
  assumes "db_inv ed node db es" "list_all entry_ok es" "int (length es) < 2 ^ 63" "content_addressed db"
  shows "set raws \<subseteq> Marshal_Entry ` set es \<Longrightarrow> work_ok ed w \<Longrightarrow>
    work_ok ed (fold (\<lambda>(i, e). collect_effect other (io i) (cio i) db e) (enumerate k raws) w)"
proof (induction raws arbitrary: k w)
  case (Cons raw raws)
  then obtain e where e: "e \<in> set es" "raw = Marshal_Entry e" by auto
  from collect_effect_ok [OF assms e(1) Cons.prems(2)] Cons.IH Cons.prems(1) show ?case by (simp add: e(2))
qed simp

section \<open>Case files\<close>

text \<open>C30: The case file a node writes for a session of its ledger verifies, without a problem: the trajectory
  hashes to what it claims, every receipt in it is sound, and every record matches its content address;
  its steps are the first events of the session in the log, byte for byte.\<close>

theorem built_bundle_verifies:
  assumes "db_inv ed node db es" "list_all entry_ok es" "int (length es) < 2 ^ 63" "content_addressed db"
    "store_SessionEvents False session (int (MaxTrajectorySteps + 1)) st = Inr raw" "\<forall>(env, ts) \<in> set raw. json_parse env \<noteq> None"
    "BuildBundle other False False io cio now st db session = Inr b"
  shows "BundleReport_Sound (VerifyBundle ed b) \<and> br_problems (VerifyBundle ed b) = []
    \<and> map (b64_decode \<circ> bs_envelope) (bd_trajectory b) = map (Some \<circ> fst) (take MaxTrajectorySteps raw)"
proof -
  let ?raw = "take MaxTrajectorySteps raw"
  obtain entries where ents: "LedgerEntriesBySession False session db = Inr entries" by (simp add: LedgerEntriesBySession_def)
  have sub: "set entries \<subseteq> Marshal_Entry ` set es"
    using ents db_inv_by_seq [OF assms(1)] arg_cong [OF db_inv_raws [OF assms(1)], of set]
    by (auto simp: LedgerEntriesBySession_def) (metis image_eqI image_iff)
  define w where "w = fold (\<lambda>(i, e). collect_effect other (io i) (cio i) db e) (enumerate 0 entries) empty_work"
  have w: "work_ok ed w"
    unfolding w_def by (rule collect_all_ok [OF assms(1-4) sub]) (simp add: work_ok_def empty_work_def)
  obtain x xs where ne: "raw = x # xs" using assms(5,7) by (cases raw) (simp_all add: BuildBundle_def)
  have b: "bd_version b = BundleVersion" "bd_trajectory b = make_steps ?raw" "bd_trajectory_hash b = trajectory_hash (map fst ?raw)"
    "bd_effects b = bw_effects w" "bd_attestations b = bw_attestations w"
    using assms(7) unfolding BuildBundle_def assms(5) ents ne by (auto simp: Let_def w_def)
  have "\<forall>(env, ts) \<in> set ?raw. json_parse env \<noteq> None" using assms(6) by (blast dest: in_set_takeD)
  then have steps: "check_steps 0 (bd_trajectory b) = Inr (concat (map fst ?raw))" unfolding b by (rule check_steps_make)
  have v: "VerifyBundle ed b = \<lparr>br_trajectory_intact = True, br_steps = length (bd_trajectory b), br_effects = length (bw_effects w),
      br_effects_sound = length (bw_effects w), br_attestations = length (bw_attestations w),
      br_attestations_sound = length (bw_attestations w), br_truncated = bd_truncated b, br_problems = []\<rparr>"
    using w by (simp add: VerifyBundle_def steps [unfolded b(2)] b trajectory_hash_def Let_def work_ok_def effects_checked records_checked)
  have "map (b64_decode \<circ> bs_envelope) (make_steps rs) = map (Some \<circ> fst) rs" for rs
  proof -
    have "map (b64_decode \<circ> bs_envelope) (map (\<lambda>(j, (env, ts)). \<lparr>bs_seq = j + 1, bs_ts = ts, bs_envelope = b64_encode env\<rparr>) (enumerate k rs))
        = map (Some \<circ> fst) rs" for k
      by (induction rs arbitrary: k) auto
    then show ?thesis unfolding make_steps_def .
  qed
  then show ?thesis by (simp add: v BundleReport_Sound_def b)
qed

definition toy_events :: event_store where
  "toy_events = \<lparr>es_log = \<lparr>sl_opt = \<lparr>op_sync = True, op_segment_bytes = 0, op_max_bytes = 0, op_max_indexed = 0\<rparr>, sl_segs = [(0, 0)],
       sl_idx = [], sl_indexed = 0, sl_clock = 0, sl_damage = [], sl_bytes = 0, sl_open = True, sl_werr = False, sl_closing = False,
       sl_files = [(0, [])]\<rparr>,
     es_sessions = [], es_legacy = [\<lparr>vt_session = en_session toy_sealed, vt_envelope = ''{}'', vt_ts = 5, vt_is_error = False\<rparr>]\<rparr>"

theorem built_bundle_verifies_witness:
  "\<exists>b. BuildBundle Some False False (\<lambda>_ _. False) (\<lambda>_ _. False) 7 toy_events toy_db (en_session toy_sealed) = Inr b
     \<and> BundleReport_Sound (VerifyBundle toy_ed b)"
proof -
  let ?s = "en_session toy_sealed"
  have ev: "store_SessionEvents False ?s (int (MaxTrajectorySteps + 1)) toy_events = Inr [(''{}'', 5)]"
    by (simp add: store_SessionEvents_def toy_events_def log_Session_def legacySessionEvents_def MaxTrajectorySteps_def)
  moreover obtain b where b: "BuildBundle Some False False (\<lambda>_ _. False) (\<lambda>_ _. False) 7 toy_events toy_db ?s = Inr b"
    unfolding BuildBundle_def ev by (simp add: LedgerEntriesBySession_def Let_def)
  moreover have "content_addressed toy_db" by (simp add: content_addressed_def toy_db_def empty_db_def)
  moreover have "\<forall>(env, ts) \<in> set [(''{}'', 5 :: int)]. json_parse env \<noteq> None"
  proof -
    have "\<not> Option.is_none (json_parse ''{}'')" by code_simp
    then show ?thesis by (simp add: Option.is_none_def)
  qed
  ultimately show ?thesis using built_bundle_verifies [OF toy_db_inv toy_sealed_ok, of ?s toy_events "[(''{}'', 5)]"] by fastforce
qed

lemma check_effect_steps: "check_effect ed x (r\<lparr>br_steps := n\<rparr>) = (check_effect ed x r)\<lparr>br_steps := n\<rparr>"
  by (cases r) (simp add: check_effect_def Let_def)

lemma check_record_steps: "check_record x (r\<lparr>br_steps := n\<rparr>) = (check_record x r)\<lparr>br_steps := n\<rparr>"
  by (cases r) (simp add: check_record_def split: option.split)

lemma effects_steps: "fold (check_effect ed) xs (r\<lparr>br_steps := n\<rparr>) = (fold (check_effect ed) xs r)\<lparr>br_steps := n\<rparr>"
  by (induction xs arbitrary: r) (simp_all add: check_effect_steps)

lemma records_steps: "fold check_record xs (r\<lparr>br_steps := n\<rparr>) = (fold check_record xs r)\<lparr>br_steps := n\<rparr>"
  by (induction xs arbitrary: r) (simp_all add: check_record_steps)

definition judge_bundle :: "ed25519 \<Rightarrow> audit_bundle \<Rightarrow> bytes \<Rightarrow> bundle_report \<Rightarrow> bundle_report" where
  "judge_bundle ed b envs r =
     fold check_record (bd_attestations b) ((fold (check_effect ed) (bd_effects b)
      ((if ''sha256:'' @ hex_encode (sha256 envs) = bd_trajectory_hash b then r\<lparr>br_trajectory_intact := True\<rparr>
        else r\<lparr>br_problems := br_problems r @ [TrajectoryAltered]\<rparr>)\<lparr>br_effects := length (bd_effects b)\<rparr>))\<lparr>br_attestations := length (bd_attestations b)\<rparr>)"

lemma steps_outward:
  "r\<lparr>br_steps := n, br_trajectory_intact := x\<rparr> = r\<lparr>br_trajectory_intact := x, br_steps := n\<rparr>"
  "r\<lparr>br_steps := n, br_problems := ps\<rparr> = r\<lparr>br_problems := ps, br_steps := n\<rparr>"
  "r\<lparr>br_steps := n, br_effects := m\<rparr> = r\<lparr>br_effects := m, br_steps := n\<rparr>"
  "r\<lparr>br_steps := n, br_attestations := m\<rparr> = r\<lparr>br_attestations := m, br_steps := n\<rparr>"
  by (cases r, simp)+

lemma judge_steps: "judge_bundle ed b envs (r\<lparr>br_steps := n\<rparr>) = (judge_bundle ed b envs r)\<lparr>br_steps := n\<rparr>"
  by (simp add: judge_bundle_def steps_outward effects_steps records_steps)

text \<open>The hash of the trajectory binds neither where a step ends nor when it happened nor its number:
  two trajectories whose bytes are the same one after the other get the same verdict, problem for
  problem, so steps can be split, merged and dated anew in a case file that still verifies.\<close>

theorem trajectory_steps_unbound:
  assumes "check_steps 0 ss = Inr envs" "check_steps 0 ss' = Inr envs"
  shows "VerifyBundle ed (b\<lparr>bd_trajectory := ss'\<rparr>) = (VerifyBundle ed (b\<lparr>bd_trajectory := ss\<rparr>))\<lparr>br_steps := length ss'\<rparr>"
proof -
  let ?r = "\<lparr>br_trajectory_intact = False, br_steps = length ss, br_effects = 0, br_effects_sound = 0,
      br_attestations = 0, br_attestations_sound = 0, br_truncated = bd_truncated b,
      br_problems = (if bd_version b \<noteq> BundleVersion then [BundleVersionUnknown (bd_version b)] else [])\<rparr>"
  have "VerifyBundle ed (b\<lparr>bd_trajectory := ss\<rparr>) = judge_bundle ed b envs ?r"
    "VerifyBundle ed (b\<lparr>bd_trajectory := ss'\<rparr>) = judge_bundle ed b envs (?r\<lparr>br_steps := length ss'\<rparr>)"
    using assms unfolding VerifyBundle_def judge_bundle_def Let_def by simp_all
  then show ?thesis by (simp only: judge_steps)
qed

theorem trajectory_steps_unbound_witness:
  "VerifyBundle ed (b\<lparr>bd_trajectory := [\<lparr>bs_seq = 7, bs_ts = 99, bs_envelope = b64_encode ''1''\<rparr>, \<lparr>bs_seq = 3, bs_ts = 0, bs_envelope = b64_encode ''2''\<rparr>]\<rparr>)
   = (VerifyBundle ed (b\<lparr>bd_trajectory := [\<lparr>bs_seq = 1, bs_ts = 5, bs_envelope = b64_encode ''12''\<rparr>]\<rparr>))\<lparr>br_steps := 2\<rparr>"
proof -
  have "\<not> Option.is_none (json_parse ''1'')" "\<not> Option.is_none (json_parse ''2'')" "\<not> Option.is_none (json_parse ''12'')"
    by code_simp+
  then have j: "json_parse ''1'' \<noteq> None" "json_parse ''2'' \<noteq> None" "json_parse ''12'' \<noteq> None" by (simp_all add: Option.is_none_def)
  have "check_steps 0 [\<lparr>bs_seq = 1, bs_ts = 5, bs_envelope = b64_encode ''12''\<rparr>] = Inr ''12''"
    "check_steps 0 [\<lparr>bs_seq = 7, bs_ts = 99, bs_envelope = b64_encode ''1''\<rparr>, \<lparr>bs_seq = 3, bs_ts = 0, bs_envelope = b64_encode ''2''\<rparr>] = Inr ''12''"
    using j by (simp_all del: b64_encode.simps)
  from trajectory_steps_unbound [OF this] show ?thesis by simp
qed

end
