(* ===== verification/Audit_Report.thy ===== *)
theory Audit_Report
  imports Receipt Verify
begin

text \<open>
  \<^verbatim>\<open>kernel/internal/ledger/audit.go\<close>: the report on what acted in a period, how it is put together from the
  tables and how it is checked from the document alone. Times are nanoseconds; the Go maps are association
  lists, and \<open>iter\<close> is the order in which the map of the policies is walked before its unstable sort.
  \<open>other\<close> is the text of a JSON number that is no integer (see \<open>Attest\<close>).
\<close>

definition AuditVersion :: string where "AuditVersion = ''aura-audit-report/1''"
definition MaxAuditReceipts :: nat where "MaxAuditReceipts = 1000"

record audit_summary =
  as_effects :: int
  as_delivered :: int
  as_denied :: int
  as_gated :: int
  as_allowed :: int
  as_signed :: int
  as_unsigned_gated :: int
  as_bound_approvals :: int
  as_waived :: int
  as_reversed :: int
  as_with_inference :: int
  as_sessions :: int
  as_actors :: int

record audit_inference =
  ai_cited :: int
  ai_self_declared :: int
  ai_bound :: int
  ai_verified :: int
  ai_unreadable :: int
  ai_models :: "string list"

record audit_policy =
  pl_hash :: string
  pl_effects :: int
  pl_first :: int
  pl_last :: int

record audit_capability =
  ac_capability :: string
  ac_effects :: int
  ac_gated :: int
  ac_denied :: int
  ac_waived :: int

record audit_approver =
  aa_operator :: string
  aa_approved :: int
  aa_denied :: int

record audit_integrity =
  ag_entries :: int
  ag_chain_intact :: bool
  ag_checkpoints :: int
  ag_checkpoints_valid :: int
  ag_witnesses :: int
  ag_witnesses_valid :: int
  ag_approvals_invalid :: int
  ag_sound :: bool
  ag_detail :: "(nat \<times> approval_error) option"

record audit_report =
  au_version :: string
  au_node :: string
  au_pubkey :: string
  au_generated :: int
  au_from :: int
  au_until :: int
  au_summary :: audit_summary
  au_policies :: "audit_policy list"
  au_capabilities :: "audit_capability list"
  au_inference :: audit_inference
  au_approvers :: "audit_approver list"
  au_gated :: "receipt list"
  au_truncated :: int
  au_omitted :: "(string \<times> receipt_error) list"
  au_integrity :: audit_integrity

section \<open>Counting one effect\<close>

record audit_work =
  aw_summary :: audit_summary
  aw_policies :: "(string \<times> audit_policy) list"
  aw_caps :: "(string \<times> audit_capability) list"
  aw_approvers :: "(string \<times> audit_approver) list"
  aw_sessions :: "string list"
  aw_actors :: "string list"
  aw_cited :: "string list"
  aw_gated :: "string list"

definition in_period :: "int \<Rightarrow> int \<Rightarrow> entry \<Rightarrow> bool" where
  "in_period lo hi e \<longleftrightarrow> \<not> (en_ts e < lo \<or> hi \<le> en_ts e)"

definition count_outcome :: "entry \<Rightarrow> audit_summary \<Rightarrow> audit_summary" where
  "count_outcome e s =
     (if en_outcome e = ''delivered'' then s\<lparr>as_delivered := as_delivered s + 1\<rparr>
      else if en_outcome e = ''denied'' then s\<lparr>as_denied := as_denied s + 1\<rparr> else s)"

definition count_decision :: "entry \<Rightarrow> audit_summary \<Rightarrow> audit_summary" where
  "count_decision e s =
     (if en_decision e = ''gate''
      then (let s = s\<lparr>as_gated := as_gated s + 1\<rparr> in
            case en_approver e of
              None \<Rightarrow> s\<lparr>as_unsigned_gated := as_unsigned_gated s + 1\<rparr>
            | Some a \<Rightarrow>
                (let s = s\<lparr>as_signed := as_signed s + 1\<rparr> in
                 if ap_context a \<noteq> [] then s\<lparr>as_bound_approvals := as_bound_approvals s + 1\<rparr> else s))
      else s\<lparr>as_allowed := as_allowed s + 1\<rparr>)"

definition count_marks :: "entry \<Rightarrow> audit_summary \<Rightarrow> audit_summary" where
  "count_marks e s =
     (let s = (if en_waived e then s\<lparr>as_waived := as_waived s + 1\<rparr> else s);
          s = (if en_compensates e \<noteq> [] then s\<lparr>as_reversed := as_reversed s + 1\<rparr> else s)
      in if en_inference e \<noteq> [] then s\<lparr>as_with_inference := as_with_inference s + 1\<rparr> else s)"

definition count_summary :: "entry \<Rightarrow> audit_summary \<Rightarrow> audit_summary" where
  "count_summary e s = count_marks e (count_decision e (count_outcome e (s\<lparr>as_effects := as_effects s + 1\<rparr>)))"

definition count_policy :: "entry \<Rightarrow> (string \<times> audit_policy) list \<Rightarrow> (string \<times> audit_policy) list" where
  "count_policy e m =
     (let p = (case al_get m (en_policy e) of
                 None \<Rightarrow> \<lparr>pl_hash = en_policy e, pl_effects = 0, pl_first = en_ts e, pl_last = en_ts e\<rparr> | Some p \<Rightarrow> p);
          p = p\<lparr>pl_effects := pl_effects p + 1\<rparr>;
          p = (if en_ts e < pl_first p then p\<lparr>pl_first := en_ts e\<rparr> else p);
          p = (if pl_last p < en_ts e then p\<lparr>pl_last := en_ts e\<rparr> else p)
      in al_put (en_policy e) p m)"

definition count_capability :: "entry \<Rightarrow> (string \<times> audit_capability) list \<Rightarrow> (string \<times> audit_capability) list" where
  "count_capability e m =
     (let c = (case al_get m (en_capability e) of
                 None \<Rightarrow> \<lparr>ac_capability = en_capability e, ac_effects = 0, ac_gated = 0, ac_denied = 0, ac_waived = 0\<rparr> | Some c \<Rightarrow> c);
          c = c\<lparr>ac_effects := ac_effects c + 1\<rparr>;
          c = (if en_decision e = ''gate'' then c\<lparr>ac_gated := ac_gated c + 1\<rparr> else c);
          c = (if en_outcome e = ''denied'' then c\<lparr>ac_denied := ac_denied c + 1\<rparr> else c);
          c = (if en_waived e then c\<lparr>ac_waived := ac_waived c + 1\<rparr> else c)
      in al_put (en_capability e) c m)"

definition count_approver :: "entry \<Rightarrow> (string \<times> audit_approver) list \<Rightarrow> (string \<times> audit_approver) list" where
  "count_approver e m =
     (case en_approver e of
        None \<Rightarrow> m
      | Some ap \<Rightarrow>
          (let a = (case al_get m (ap_operator ap) of
                      None \<Rightarrow> \<lparr>aa_operator = ap_operator ap, aa_approved = 0, aa_denied = 0\<rparr> | Some a \<Rightarrow> a);
               a = (if ap_decision ap = ''approve'' then a\<lparr>aa_approved := aa_approved a + 1\<rparr>
                    else a\<lparr>aa_denied := aa_denied a + 1\<rparr>)
           in al_put (ap_operator ap) a m))"

definition audit_entry :: "int \<Rightarrow> int \<Rightarrow> bytes \<Rightarrow> audit_work \<Rightarrow> audit_work" where
  "audit_entry lo hi raw w =
     (case Unmarshal_Entry raw of
        None \<Rightarrow> w
      | Some e \<Rightarrow>
          if \<not> in_period lo hi e then w
          else \<lparr>aw_summary = count_summary e (aw_summary w), aw_policies = count_policy e (aw_policies w),
                aw_caps = count_capability e (aw_caps w), aw_approvers = count_approver e (aw_approvers w),
                aw_sessions = List.insert (en_session e) (aw_sessions w), aw_actors = List.insert (en_actor e) (aw_actors w),
                aw_cited = fold List.insert (en_inference e) (aw_cited w),
                aw_gated = aw_gated w @ (if en_decision e = ''gate'' then [Entry_Hash e] else [])\<rparr>)"

definition zero_summary :: audit_summary where
  "zero_summary = \<lparr>as_effects = 0, as_delivered = 0, as_denied = 0, as_gated = 0, as_allowed = 0, as_signed = 0,
     as_unsigned_gated = 0, as_bound_approvals = 0, as_waived = 0, as_reversed = 0, as_with_inference = 0,
     as_sessions = 0, as_actors = 0\<rparr>"

definition empty_audit :: audit_work where
  "empty_audit = \<lparr>aw_summary = zero_summary, aw_policies = [], aw_caps = [], aw_approvers = [], aw_sessions = [],
     aw_actors = [], aw_cited = [], aw_gated = []\<rparr>"

definition audit_count :: "int \<Rightarrow> int \<Rightarrow> bytes list \<Rightarrow> audit_work" where
  "audit_count lo hi raws = fold (audit_entry lo hi) raws empty_audit"

section \<open>The evidence\<close>

text \<open>\<open>io i\<close> are the failures of the calls that build the \<open>i\<close>-th receipt.\<close>

fun audit_receipts ::
  "(nat \<Rightarrow> nat \<Rightarrow> bool) \<Rightarrow> nat \<Rightarrow> ledger_db \<Rightarrow> string list \<Rightarrow> receipt list \<times> (string \<times> receipt_error) list" where
  "audit_receipts io i db [] = ([], [])"
| "audit_receipts io i db (h # hs) =
     (let (rs, os) = audit_receipts io (i + 1) db hs in
      case BuildReceipt (io i) db h of Inl e \<Rightarrow> (rs, (h, e) # os) | Inr r \<Rightarrow> (r # rs, os))"

definition zero_inference :: audit_inference where
  "zero_inference = \<lparr>ai_cited = 0, ai_self_declared = 0, ai_bound = 0, ai_verified = 0, ai_unreadable = 0, ai_models = []\<rparr>"

definition audit_citation ::
  "(string \<Rightarrow> string option) \<Rightarrow> string list \<Rightarrow> (string \<Rightarrow> bool) \<Rightarrow> ledger_db \<Rightarrow> string \<Rightarrow> audit_inference \<Rightarrow> audit_inference" where
  "audit_citation other anchors fault db h a =
     (case Attestation (fault h) h db of
        Inl _ \<Rightarrow> a\<lparr>ai_unreadable := ai_unreadable a + 1\<rparr>
      | Inr raw \<Rightarrow>
          if AttestationHash raw \<noteq> h then a\<lparr>ai_unreadable := ai_unreadable a + 1\<rparr>
          else
            (let a = a\<lparr>ai_cited := ai_cited a + 1\<rparr>;
                 a = (case ParseAttestation other raw of
                        Inl _ \<Rightarrow> a
                      | Inr (t, _) \<Rightarrow> if an_model t \<noteq> [] then a\<lparr>ai_models := List.insert (an_model t) (ai_models a)\<rparr> else a)
             in case vr_level (CheckEvidence anchors raw) of
                  EvidenceVerified \<Rightarrow> a\<lparr>ai_verified := ai_verified a + 1\<rparr>
                | EvidenceBound \<Rightarrow> a\<lparr>ai_bound := ai_bound a + 1\<rparr>
                | EvidenceNone \<Rightarrow> a\<lparr>ai_self_declared := ai_self_declared a + 1\<rparr>))"

definition audit_inference_of ::
  "(string \<Rightarrow> string option) \<Rightarrow> string list \<Rightarrow> (string \<Rightarrow> bool) \<Rightarrow> ledger_db \<Rightarrow> string list \<Rightarrow> audit_inference" where
  "audit_inference_of other anchors fault db cited =
     (let a = fold (audit_citation other anchors fault db) (sort cited) zero_inference in a\<lparr>ai_models := sort (ai_models a)\<rparr>)"

definition integrity_of :: "report \<Rightarrow> audit_integrity" where
  "integrity_of vr =
     \<lparr>ag_entries = int (rp_total vr), ag_chain_intact = rp_chain_intact vr, ag_checkpoints = int (rp_checkpoints vr),
      ag_checkpoints_valid = int (rp_checkpoints_valid vr), ag_witnesses = int (rp_witnesses vr),
      ag_witnesses_valid = int (rp_witnesses_valid vr), ag_approvals_invalid = int (rp_approvals_invalid vr),
      ag_sound = Report_Sound vr, ag_detail = rp_approval_failure vr\<rparr>"

section \<open>Building\<close>

datatype audit_error = PeriodEmpty | AuditUnread db_error | AuditUnverified verify_error

definition audit_document ::
  "(audit_policy list \<Rightarrow> audit_policy list) \<Rightarrow> int \<Rightarrow> string \<Rightarrow> string \<Rightarrow> int \<Rightarrow> int \<Rightarrow> audit_work
   \<Rightarrow> receipt list \<times> (string \<times> receipt_error) list \<Rightarrow> audit_inference \<Rightarrow> report \<Rightarrow> audit_report" where
  "audit_document iter now node pub lo hi w ev cl vr =
     \<lparr>au_version = AuditVersion, au_node = node, au_pubkey = pub, au_generated = unix_milli now, au_from = lo, au_until = hi,
      au_summary = (aw_summary w)\<lparr>as_sessions := int (length (aw_sessions w)), as_actors := int (length (aw_actors w))\<rparr>,
      au_policies = sort_key pl_first (iter (map snd (aw_policies w))),
      au_capabilities = sort_key (\<lambda>c. - ac_effects c) (sort_key ac_capability (map snd (aw_caps w))),
      au_inference = cl, au_approvers = sort_key aa_operator (map snd (aw_approvers w)),
      au_gated = fst ev, au_truncated = int (length (aw_gated w) - MaxAuditReceipts), au_omitted = snd ev,
      au_integrity = integrity_of vr\<rparr>"

text \<open>\<open>None\<close> is a panic of the verification. The report that comes with an error is left out.\<close>

definition BuildAuditWith ::
  "ed25519 \<Rightarrow> (string \<Rightarrow> string option) \<Rightarrow> (audit_policy list \<Rightarrow> audit_policy list) \<Rightarrow> bool \<Rightarrow> (nat \<Rightarrow> nat \<Rightarrow> bool)
   \<Rightarrow> (string \<Rightarrow> bool) \<Rightarrow> (nat \<Rightarrow> bool) \<Rightarrow> int \<Rightarrow> ledger_db \<Rightarrow> string \<Rightarrow> string \<Rightarrow> int \<Rightarrow> int \<Rightarrow> string list
   \<Rightarrow> (audit_error + audit_report) option" where
  "BuildAuditWith ed other iter fault rio cio vio now db node pub from_ns until_ns anchors =
     (if until_ns \<le> from_ns then Some (Inl PeriodEmpty)
      else (case LedgerEntries fault 1 0 db of
        Inl e \<Rightarrow> Some (Inl (AuditUnread e))
      | Inr raws \<Rightarrow>
          (let lo = unix_milli from_ns; hi = unix_milli until_ns;
               w = audit_count lo hi raws;
               ev = audit_receipts rio 0 db (take MaxAuditReceipts (aw_gated w));
               cl = audit_inference_of other anchors cio db (aw_cited w)
           in case Verify ed vio db pub of
                None \<Rightarrow> None
              | Some (Inl e) \<Rightarrow> Some (Inl (AuditUnverified e))
              | Some (Inr vr) \<Rightarrow> Some (Inr (audit_document iter now node pub lo hi w ev cl vr)))))"

section \<open>Checking\<close>

datatype high_finding =
    OtherNode string | ReceiptUnsound string | ReceiptCount int int nat nat | GateCount | OutcomeCount | CitationsUnreadable int

datatype audit_note =
    UnsignedGates int | UnboundApprovals int | WaivedGates int | AllSelfDeclared int | BoundUnverified int | NoCountersignature
  | ReceiptsOmitted nat | ReceiptsTruncated int

datatype audit_finding = High high_finding | Note audit_note

datatype audit_failure =
    AuditVersionUnknown string | NoNodeKey | PeriodEnds | LedgerUnsound "(nat \<times> approval_error) option"

record audit_verdict =
  vd_sound :: bool
  vd_checked :: nat
  vd_valid :: nat
  vd_findings :: "audit_finding list"
  vd_failure :: "audit_failure option"

definition refused_audit :: "audit_failure \<Rightarrow> audit_verdict" where
  "refused_audit f = \<lparr>vd_sound = False, vd_checked = 0, vd_valid = 0, vd_findings = [], vd_failure = Some f\<rparr>"

definition check_gated :: "ed25519 \<Rightarrow> string \<Rightarrow> receipt \<Rightarrow> high_finding option" where
  "check_gated ed pub rc =
     (if rk_pubkey (rc_checkpoint rc) \<noteq> pub then Some (OtherNode (rc_entry_hash rc))
      else if ReceiptReport_Sound (VerifyReceipt ed rc) then None else Some (ReceiptUnsound (rc_entry_hash rc)))"

definition flag :: "bool \<Rightarrow> 'a \<Rightarrow> 'a list" where
  "flag b x = (if b then [x] else [])"

text \<open>An \<^verbatim>\<open>int\<close> of the document has 64 bits, and sums of them wrap.\<close>

definition check_counts :: "audit_report \<Rightarrow> high_finding list" where
  "check_counts rep =
     (let s = au_summary rep in
      flag (wrap_int (wrap_int (as_gated s - au_truncated rep) - int (length (au_omitted rep))) \<noteq> int (length (au_gated rep)))
        (ReceiptCount (as_gated s) (au_truncated rep) (length (au_omitted rep)) (length (au_gated rep)))
      @ flag (wrap_int (as_gated s + as_allowed s) \<noteq> as_effects s) GateCount
      @ flag (wrap_int (as_delivered s + as_denied s) \<noteq> as_effects s) OutcomeCount)"

definition other_findings :: "audit_report \<Rightarrow> audit_finding list" where
  "other_findings rep =
     (let s = au_summary rep; a = au_inference rep; unbound = wrap_int (as_signed s - as_bound_approvals s) in
      flag (as_unsigned_gated s > 0) (Note (UnsignedGates (as_unsigned_gated s)))
      @ flag (unbound > 0) (Note (UnboundApprovals unbound))
      @ flag (as_waived s > 0) (Note (WaivedGates (as_waived s)))
      @ flag (ai_unreadable a > 0) (High (CitationsUnreadable (ai_unreadable a)))
      @ flag (ai_cited a > 0 \<and> wrap_int (ai_bound a + ai_verified a) = 0) (Note (AllSelfDeclared (ai_cited a)))
      @ flag (ai_bound a > 0 \<and> ai_verified a = 0) (Note (BoundUnverified (ai_bound a)))
      @ flag (ag_witnesses (au_integrity rep) = 0) (Note NoCountersignature)
      @ flag (au_omitted rep \<noteq> []) (Note (ReceiptsOmitted (length (au_omitted rep))))
      @ flag (au_truncated rep > 0) (Note (ReceiptsTruncated (au_truncated rep))))"

definition is_high :: "audit_finding \<Rightarrow> bool" where
  "is_high f = (case f of High _ \<Rightarrow> True | Note _ \<Rightarrow> False)"

definition VerifyAudit :: "ed25519 \<Rightarrow> audit_report \<Rightarrow> audit_verdict" where
  "VerifyAudit ed rep =
     (if au_version rep \<noteq> AuditVersion then refused_audit (AuditVersionUnknown (au_version rep))
      else if au_pubkey rep = [] then refused_audit NoNodeKey
      else if au_until rep \<le> au_from rep then refused_audit PeriodEnds
      else
        (let res = map (check_gated ed (au_pubkey rep)) (au_gated rep);
             valid = length (filter (\<lambda>p. p = None) res);
             fs = map High (List.map_filter (\<lambda>p. p) res) @ map High (check_counts rep) @ other_findings rep;
             high = length (filter is_high fs)
         in \<lparr>vd_sound = (high = 0 \<and> ag_sound (au_integrity rep) \<and> valid = length res),
             vd_checked = length res, vd_valid = valid, vd_findings = fs,
             vd_failure = (if \<not> ag_sound (au_integrity rep) then Some (LedgerUnsound (ag_detail (au_integrity rep))) else None)\<rparr>))"

end
