(* ===== verification/Audit_Properties.thy ===== *)
theory Audit_Properties
  imports Audit_Report Receipt_Properties
begin

text \<open>
  What the audit report over a period says: its counts, when it verifies, and two ways in which its
  verification misjudges.
\<close>

section \<open>The counts\<close>

definition summary_counts :: "audit_summary \<Rightarrow> int list" where
  "summary_counts s = [as_effects s, as_delivered s, as_denied s, as_gated s, as_allowed s, as_signed s, as_unsigned_gated s,
     as_bound_approvals s, as_waived s, as_reversed s, as_with_inference s]"

abbreviation gated :: "entry \<Rightarrow> bool" where "gated e \<equiv> en_decision e = ''gate''"

definition one_if :: "bool \<Rightarrow> int" where "one_if b = (if b then 1 else 0)"

definition effect_counts :: "entry \<Rightarrow> int list" where
  "effect_counts e =
     [1, one_if (en_outcome e = ''delivered''), one_if (en_outcome e = ''denied''), one_if (gated e), one_if (\<not> gated e),
      one_if (gated e \<and> en_approver e \<noteq> None), one_if (gated e \<and> en_approver e = None),
      one_if (gated e \<and> (case en_approver e of None \<Rightarrow> False | Some a \<Rightarrow> ap_context a \<noteq> [])), one_if (en_waived e),
      one_if (en_compensates e \<noteq> []), one_if (en_inference e \<noteq> [])]"

lemma outcome_fields [simp]:
  "as_effects (count_outcome e s) = as_effects s"
  "as_delivered (count_outcome e s) = as_delivered s + one_if (en_outcome e = ''delivered'')"
  "as_denied (count_outcome e s) = as_denied s + one_if (en_outcome e = ''denied'')"
  "as_gated (count_outcome e s) = as_gated s" "as_allowed (count_outcome e s) = as_allowed s"
  "as_signed (count_outcome e s) = as_signed s" "as_unsigned_gated (count_outcome e s) = as_unsigned_gated s"
  "as_bound_approvals (count_outcome e s) = as_bound_approvals s" "as_waived (count_outcome e s) = as_waived s"
  "as_reversed (count_outcome e s) = as_reversed s" "as_with_inference (count_outcome e s) = as_with_inference s"
  by (simp_all add: count_outcome_def one_if_def)

lemma decision_fields [simp]:
  "as_effects (count_decision e s) = as_effects s" "as_delivered (count_decision e s) = as_delivered s"
  "as_denied (count_decision e s) = as_denied s" "as_gated (count_decision e s) = as_gated s + one_if (gated e)"
  "as_allowed (count_decision e s) = as_allowed s + one_if (\<not> gated e)"
  "as_signed (count_decision e s) = as_signed s + one_if (gated e \<and> en_approver e \<noteq> None)"
  "as_unsigned_gated (count_decision e s) = as_unsigned_gated s + one_if (gated e \<and> en_approver e = None)"
  "as_bound_approvals (count_decision e s) = as_bound_approvals s
     + one_if (gated e \<and> (case en_approver e of None \<Rightarrow> False | Some a \<Rightarrow> ap_context a \<noteq> []))"
  "as_waived (count_decision e s) = as_waived s" "as_reversed (count_decision e s) = as_reversed s"
  "as_with_inference (count_decision e s) = as_with_inference s"
  by (simp_all add: count_decision_def one_if_def Let_def split: option.split)

lemma marks_fields [simp]:
  "as_effects (count_marks e s) = as_effects s" "as_delivered (count_marks e s) = as_delivered s"
  "as_denied (count_marks e s) = as_denied s" "as_gated (count_marks e s) = as_gated s" "as_allowed (count_marks e s) = as_allowed s"
  "as_signed (count_marks e s) = as_signed s" "as_unsigned_gated (count_marks e s) = as_unsigned_gated s"
  "as_bound_approvals (count_marks e s) = as_bound_approvals s"
  "as_waived (count_marks e s) = as_waived s + one_if (en_waived e)"
  "as_reversed (count_marks e s) = as_reversed s + one_if (en_compensates e \<noteq> [])"
  "as_with_inference (count_marks e s) = as_with_inference s + one_if (en_inference e \<noteq> [])"
  by (simp_all add: count_marks_def one_if_def Let_def)

lemma count_fields [simp]:
  "as_effects (count_summary e s) = as_effects s + 1"
  "as_delivered (count_summary e s) = as_delivered s + one_if (en_outcome e = ''delivered'')"
  "as_denied (count_summary e s) = as_denied s + one_if (en_outcome e = ''denied'')"
  "as_gated (count_summary e s) = as_gated s + one_if (gated e)"
  "as_allowed (count_summary e s) = as_allowed s + one_if (\<not> gated e)"
  "as_signed (count_summary e s) = as_signed s + one_if (gated e \<and> en_approver e \<noteq> None)"
  "as_unsigned_gated (count_summary e s) = as_unsigned_gated s + one_if (gated e \<and> en_approver e = None)"
  "as_bound_approvals (count_summary e s) = as_bound_approvals s
     + one_if (gated e \<and> (case en_approver e of None \<Rightarrow> False | Some a \<Rightarrow> ap_context a \<noteq> []))"
  "as_waived (count_summary e s) = as_waived s + one_if (en_waived e)"
  "as_reversed (count_summary e s) = as_reversed s + one_if (en_compensates e \<noteq> [])"
  "as_with_inference (count_summary e s) = as_with_inference s + one_if (en_inference e \<noteq> [])"
  by (simp_all add: count_summary_def)

lemma counts_step: "summary_counts (count_summary e s) = map2 (+) (summary_counts s) (effect_counts e)"
  by (simp add: summary_counts_def effect_counts_def)

definition effect_of :: "int \<Rightarrow> int \<Rightarrow> bytes \<Rightarrow> int list" where
  "effect_of lo hi raw = (case Unmarshal_Entry raw of
      None \<Rightarrow> replicate 11 0 | Some e \<Rightarrow> if in_period lo hi e then effect_counts e else replicate 11 0)"

lemma counts_entry: "summary_counts (aw_summary (audit_entry lo hi raw w)) = map2 (+) (summary_counts (aw_summary w)) (effect_of lo hi raw)"
proof -
  have "map2 (+) (summary_counts s) (replicate 11 0) = summary_counts s" for s
    by (simp add: summary_counts_def numeral_eq_Suc)
  then show ?thesis by (simp add: audit_entry_def effect_of_def counts_step split: option.split)
qed

lemma effects_tile:
  "lo \<le> mid \<Longrightarrow> mid \<le> hi \<Longrightarrow> effect_of lo hi raw = map2 (+) (effect_of lo mid raw) (effect_of mid hi raw)"
  by (auto simp: effect_of_def effect_counts_def in_period_def numeral_eq_Suc split: option.split)

lemma lists_add:
  "length (a :: int list) = 11 \<Longrightarrow> length b = 11 \<Longrightarrow> length c = 11 \<Longrightarrow> length d = 11 \<Longrightarrow>
    map2 (+) (map2 (+) a b) (map2 (+) c d) = map2 (+) (map2 (+) a c) (map2 (+) b d)"
  by (rule nth_equalityI) (simp_all add: algebra_simps)

lemma length_counts [simp]: "length (summary_counts s) = 11" "length (effect_of lo hi raw) = 11"
  by (simp_all add: summary_counts_def effect_of_def effect_counts_def split: option.split)

lemma counts_tile:
  assumes "lo \<le> mid" "mid \<le> hi"
  shows "summary_counts (aw_summary w) = map2 (+) (summary_counts (aw_summary w1)) (summary_counts (aw_summary w2)) \<Longrightarrow>
    summary_counts (aw_summary (fold (audit_entry lo hi) raws w))
      = map2 (+) (summary_counts (aw_summary (fold (audit_entry lo mid) raws w1))) (summary_counts (aw_summary (fold (audit_entry mid hi) raws w2)))"
proof (induction raws arbitrary: w w1 w2)
  case (Cons raw raws)
  show ?case unfolding fold_simps comp_apply
    by (rule Cons.IH) (simp only: counts_entry Cons.prems effects_tile [OF assms] lists_add length_counts)
qed simp

lemma BuildAudit_summary:
  assumes "BuildAuditWith ed other iter fault rio cio vio now db node pub a b anchors = Some (Inr rep)"
  obtains raws where "LedgerEntries fault 1 0 db = Inr raws"
    "summary_counts (au_summary rep) = summary_counts (aw_summary (audit_count (unix_milli a) (unix_milli b) raws))" "a < b"
proof (cases "LedgerEntries fault 1 0 db")
  case (Inr raws)
  have "a < b" using assms by (auto simp: BuildAuditWith_def split: if_splits)
  moreover have "summary_counts (au_summary rep) = summary_counts (aw_summary (audit_count (unix_milli a) (unix_milli b) raws))"
    using assms \<open>a < b\<close> unfolding BuildAuditWith_def Inr
    by (auto simp: summary_counts_def audit_document_def Let_def split: option.splits sum.splits)
  ultimately show ?thesis using Inr that by blast
qed (use assms in \<open>auto simp: BuildAuditWith_def split: if_splits\<close>)

lemma period_ms_mono: "a \<le> b \<Longrightarrow> unix_milli a \<le> unix_milli b"
  by (simp add: unix_milli_def zdiv_mono1)

text \<open>Consecutive reports tile: an effect on the boundary of two periods is counted in exactly one of
  them, so each count of the report over both periods is the sum of the two reports' counts.\<close>

theorem audit_periods_tile:
  assumes "BuildAuditWith ed other iter False rio cio vio now db node pub a c anchors = Some (Inr rep)"
    "BuildAuditWith ed other iter False rio1 cio1 vio1 now1 db node pub a b anchors = Some (Inr rep1)"
    "BuildAuditWith ed other iter False rio2 cio2 vio2 now2 db node pub b c anchors = Some (Inr rep2)"
  shows "summary_counts (au_summary rep) = map2 (+) (summary_counts (au_summary rep1)) (summary_counts (au_summary rep2))"
proof -
  obtain raws where raws: "LedgerEntries False 1 0 db = Inr raws"
    and r: "summary_counts (au_summary rep) = summary_counts (aw_summary (audit_count (unix_milli a) (unix_milli c) raws))"
    using BuildAudit_summary [OF assms(1)] by metis
  have r1: "summary_counts (au_summary rep1) = summary_counts (aw_summary (audit_count (unix_milli a) (unix_milli b) raws))" "a < b"
    using BuildAudit_summary [OF assms(2)] raws by (metis Inr_inject)+
  have r2: "summary_counts (au_summary rep2) = summary_counts (aw_summary (audit_count (unix_milli b) (unix_milli c) raws))" "b < c"
    using BuildAudit_summary [OF assms(3)] raws by (metis Inr_inject)+
  have "summary_counts (aw_summary empty_audit) = map2 (+) (summary_counts (aw_summary empty_audit)) (summary_counts (aw_summary empty_audit))"
    by (simp add: empty_audit_def zero_summary_def summary_counts_def)
  from counts_tile [OF period_ms_mono period_ms_mono this] r1(2) r2(2)
  show ?thesis by (simp add: r r1(1) r2(1) audit_count_def)
qed

section \<open>The report of an honest ledger\<close>

text \<open>A ledger of one gated effect, for the examples, with or without a rotation of the key after it.\<close>

definition toy_gated :: entry where
  "toy_gated = toy_sealed\<lparr>en_decision := ''gate'', en_inference := []\<rparr>"

definition gated_db :: "succession_row list \<Rightarrow> ledger_db" where
  "gated_db rows = empty_db\<lparr>db_successions := rows, db_entries := [\<lparr>er_seq = 1, er_hash = Entry_Hash toy_gated,
     er_session = en_session toy_gated, er_entry = Marshal_Entry toy_gated, er_ts = 0\<rparr>],
     db_checkpoints := [\<lparr>cp_seq = 1, cp_head_hash = Entry_Hash toy_gated, cp_pubkey = PublicB64 toy_keys,
       cp_signature = keypair_Sign toy_ed toy_keys (checkpointPayload 1 (Entry_Hash toy_gated)
         (hash_String (MerkleRoot (leaves [toy_gated])))),
       cp_ts = 0, cp_merkle_root = hash_String (MerkleRoot (leaves [toy_gated]))\<rparr>]\<rparr>"

lemma gated_db_inv: "db_inv toy_ed ''n1'' (gated_db rows) [toy_gated]"
  by (simp add: db_inv_def gated_db_def empty_db_def stored_def toy_gated_def toy_sealed_def toy_entry_def zero_entry_def
      authorized_def well_worded_def PolicyDecisions_def EffectOutcomes_def checkpoint_ok_def)

lemma toy_gated_ok: "list_all entry_ok [toy_gated]"
  using toy_entry_ok by (simp add: entry_ok_def toy_gated_def toy_sealed_def in_range_def)

lemma gated_timeline:
  "BuildKeyTimeline toy_ed (sort_key su_seq (db_successions (gated_db []))) (PublicB64 toy_keys)
   = Inr \<lparr>kt_segments = [\<lparr>ks_up_to = maxSeq, ks_pubkey = PublicB64 toy_keys\<rparr>], kt_rotations = 0\<rparr>"
  by (simp add: BuildKeyTimeline_def toy_key_nonempty gated_db_def empty_db_def)

lemma rotated_timeline:
  "BuildKeyTimeline toy_ed (sort_key su_seq (db_successions (gated_db [toy_rotation]))) (PublicB64 toy_keys2)
   = Inr \<lparr>kt_segments = map segment_of [toy_rotation] @ [\<lparr>ks_up_to = maxSeq, ks_pubkey = PublicB64 toy_keys2\<rparr>], kt_rotations = 1\<rparr>"
  using BuildKeyTimeline_complete [OF toy_honest, of "[toy_rotation]"] by (simp add: toy_key_nonempty gated_db_def)

lemma gated_countersigned: "countersigned_ok toy_ed ''n1'' (gated_db rows)"
  by (simp add: countersigned_ok_def gated_db_def empty_db_def)

definition counted :: "entry \<Rightarrow> audit_work \<Rightarrow> audit_work" where
  "counted e w =
     \<lparr>aw_summary = count_summary e (aw_summary w), aw_policies = count_policy e (aw_policies w),
      aw_caps = count_capability e (aw_caps w), aw_approvers = count_approver e (aw_approvers w),
      aw_sessions = List.insert (en_session e) (aw_sessions w), aw_actors = List.insert (en_actor e) (aw_actors w),
      aw_cited = fold List.insert (en_inference e) (aw_cited w),
      aw_gated = aw_gated w @ (if en_decision e = ''gate'' then [Entry_Hash e] else [])\<rparr>"

lemma audit_fold:
  "list_all entry_ok es \<Longrightarrow> fold (audit_entry lo hi) (map Marshal_Entry es) w = fold counted (filter (in_period lo hi) es) w"
  by (induction es arbitrary: w) (simp_all add: audit_entry_def Entry_roundtrip counted_def)

lemma counted_summary: "aw_summary (fold counted es w) = fold count_summary es (aw_summary w)"
  by (induction es arbitrary: w) (simp_all add: counted_def)

lemma counted_gated: "aw_gated (fold counted es w) = aw_gated w @ map Entry_Hash (filter gated es)"
  by (induction es arbitrary: w) (simp_all add: counted_def)

lemma set_fold_insert: "set (fold List.insert xs ys) = set xs \<union> set ys"
  by (induction xs arbitrary: ys) auto

lemma counted_cited: "set (aw_cited (fold counted es w)) = set (aw_cited w) \<union> (\<Union>e \<in> set es. set (en_inference e))"
  by (induction es arbitrary: w) (auto simp: counted_def set_fold_insert)

lemma effects_fold: "as_effects (fold count_summary es s) = as_effects s + int (length es)"
  by (induction es arbitrary: s) simp_all

lemma gated_fold: "as_gated (fold count_summary es s) = as_gated s + int (length (filter gated es))"
  by (induction es arbitrary: s) (simp_all add: one_if_def)

lemma allowed_fold: "as_gated (fold count_summary es s) + as_allowed (fold count_summary es s) = as_gated s + as_allowed s + int (length es)"
  by (induction es arbitrary: s) (simp_all add: one_if_def)

lemma outcomes_fold:
  "\<forall>e \<in> set es. en_outcome e \<in> set EffectOutcomes \<Longrightarrow>
    as_delivered (fold count_summary es s) + as_denied (fold count_summary es s) = as_delivered s + as_denied s + int (length es)"
  by (induction es arbitrary: s) (auto simp: one_if_def EffectOutcomes_def)

lemma receipts_length: "audit_receipts io i db hs = (rs, os) \<Longrightarrow> length rs + length os = length hs"
  by (induction hs arbitrary: i rs os) (auto simp: Let_def split: prod.splits sum.splits)

lemma receipts_from: "audit_receipts io i db hs = (rs, os) \<Longrightarrow> r \<in> set rs \<Longrightarrow> \<exists>h \<in> set hs. \<exists>j. BuildReceipt (io j) db h = Inr r"
proof (induction hs arbitrary: i rs os)
  case (Cons h hs)
  obtain rs' os' where rest: "audit_receipts io (i + 1) db hs = (rs', os')" by fastforce
  show ?case using Cons.IH [OF rest] Cons.prems rest by (cases "BuildReceipt (io i) db h") auto
qed simp

lemma receipts_of:
  "audit_receipts (\<lambda>_ _. False) i db hs = (rs, os) \<Longrightarrow> h \<in> set hs \<Longrightarrow> BuildReceipt (\<lambda>_. False) db h = Inr r \<Longrightarrow> r \<in> set rs"
proof (induction hs arbitrary: i rs os)
  case (Cons h' hs)
  obtain rs' os' where rest: "audit_receipts (\<lambda>_ _. False) (i + 1) db hs = (rs', os')" by fastforce
  show ?case using Cons.IH [OF rest] Cons.prems rest by (cases "BuildReceipt (\<lambda>_. False) db h'") auto
qed simp

lemma BuildReceipt_anchor:
  assumes "BuildReceipt io db h = Inr r"
  shows "\<exists>c raw e. c \<in> set (db_checkpoints db) \<and> rk_pubkey (rc_checkpoint r) = cp_pubkey c \<and> en_seq e \<le> cp_seq c
    \<and> LedgerEntryByHash (io 0) h db = Inr raw \<and> Unmarshal_Entry raw = Some e"
proof -
  obtain raw where raw: "LedgerEntryByHash (io 0) h db = Inr raw" using assms by (cases "LedgerEntryByHash (io 0) h db") (simp_all add: BuildReceipt_def)
  obtain e where e: "Unmarshal_Entry raw = Some e" using assms raw by (cases "Unmarshal_Entry raw") (simp_all add: BuildReceipt_def)
  obtain c where c: "find (anchors_entry (en_seq e)) (sort_key cp_seq (db_checkpoints db)) = Some c"
    using assms raw e by (auto simp: BuildReceipt_def LedgerCheckpoints_def split: if_splits option.splits)
  have "rk_pubkey (rc_checkpoint r) = cp_pubkey c"
    using assms raw e c by (auto simp: BuildReceipt_def LedgerCheckpoints_def Let_def split: if_splits sum.splits)
  moreover have "c \<in> set (db_checkpoints db)" "en_seq e \<le> cp_seq c"
    using find_SomeD [OF c] by (simp_all add: anchors_entry_def)
  ultimately show ?thesis using raw e by blast
qed

lemma BuildReceipt_names: "BuildReceipt io db h = Inr r \<Longrightarrow> rc_entry_hash r = h"
  by (auto simp: BuildReceipt_def LedgerCheckpoints_def LedgerEntries_def LedgerWitnesses_def Let_def
      split: if_splits option.splits sum.splits)

definition readable :: "ledger_db \<Rightarrow> string \<Rightarrow> bool" where
  "readable db h \<longleftrightarrow> (\<exists>raw. Attestation False h db = Inr raw \<and> AttestationHash raw = h)"

lemma citations_readable:
  "\<forall>h \<in> set hs. readable db h \<Longrightarrow> ai_unreadable (fold (audit_citation other anchors (\<lambda>_. False) db) hs a) = ai_unreadable a"
proof (induction hs arbitrary: a)
  case (Cons h hs)
  obtain raw where "Attestation False h db = Inr raw" "AttestationHash raw = h" using Cons.prems by (auto simp: readable_def)
  then have "ai_unreadable (audit_citation other anchors (\<lambda>_. False) db h a) = ai_unreadable a"
    by (auto simp: audit_citation_def Let_def split: sum.split evidence_level.split)
  with Cons show ?case by simp
qed simp

text \<open>What an honest ledger's report holds, whatever its receipts are signed with.\<close>

lemma audit_built:
  assumes "db_inv ed node db es" "list_all entry_ok es"
    "BuildKeyTimeline ed (sort_key su_seq (db_successions db)) pub = Inr t"
    "\<forall>c \<in> set (db_checkpoints db). KeyAt t (cp_seq c) = cp_pubkey c" "countersigned_ok ed node db" "a < b"
  defines "sel \<equiv> filter (in_period (unix_milli a) (unix_milli b)) es"
  obtains rep where "BuildAuditWith ed other iter False rio (\<lambda>_. False) (\<lambda>_. False) now db node pub a b anchors = Some (Inr rep)"
    "au_version rep = AuditVersion" "au_pubkey rep = pub" "au_from rep = unix_milli a" "au_until rep = unix_milli b"
    "ag_sound (au_integrity rep)" "summary_counts (au_summary rep) = summary_counts (fold count_summary sel zero_summary)"
    "(au_gated rep, au_omitted rep) = audit_receipts rio 0 db (take MaxAuditReceipts (map Entry_Hash (filter gated sel)))"
    "au_truncated rep = int (length (filter gated sel) - MaxAuditReceipts)"
    "au_inference rep = audit_inference_of other anchors (\<lambda>_. False) db (aw_cited (fold counted sel empty_audit))"
proof -
  obtain vr where vr: "Verify ed (\<lambda>_. False) db pub = Some (Inr vr)" "Report_Sound vr"
    using Verify_honest [OF assms(1-5)] by blast
  have raws: "LedgerEntries False 1 0 db = Inr (map Marshal_Entry es)" by (rule db_inv_entries [OF assms(1)])
  have w: "audit_count (unix_milli a) (unix_milli b) (map Marshal_Entry es) = fold counted sel empty_audit"
    unfolding audit_count_def sel_def by (rule audit_fold [OF assms(2)])
  have g: "aw_gated (fold counted sel empty_audit) = map Entry_Hash (filter gated sel)"
    by (simp add: counted_gated empty_audit_def)
  let ?ev = "audit_receipts rio 0 db (take MaxAuditReceipts (map Entry_Hash (filter gated sel)))"
  let ?inf = "audit_inference_of other anchors (\<lambda>_. False) db (aw_cited (fold counted sel empty_audit))"
  let ?rep = "audit_document iter now node pub (unix_milli a) (unix_milli b) (fold counted sel empty_audit) ?ev ?inf vr"
  have "BuildAuditWith ed other iter False rio (\<lambda>_. False) (\<lambda>_. False) now db node pub a b anchors = Some (Inr ?rep)"
    unfolding BuildAuditWith_def raws sum.case Let_def w g vr option.case using assms(6) by simp
  then show ?thesis
    by (rule that) (use vr(2) in \<open>simp_all add: audit_document_def summary_counts_def counted_summary counted_gated integrity_of_def empty_audit_def\<close>)
qed

lemma wrap_int_small: "- (2 ^ 63) \<le> i \<Longrightarrow> i < 2 ^ 63 \<Longrightarrow> wrap_int i = i"
  by (simp add: wrap_int_def)

lemma counts_pass:
  assumes "as_gated s = int g" "as_gated s + as_allowed s = as_effects s" "as_delivered s + as_denied s = as_effects s"
    "au_truncated rep = int (g - MaxAuditReceipts)" "length (au_gated rep) + length (au_omitted rep) = min g MaxAuditReceipts"
    "0 \<le> as_effects s" "as_effects s < 2 ^ 63" "au_summary rep = s" "int g \<le> as_effects s"
  shows "check_counts rep = []"
proof -
  have "int (length (au_gated rep)) = int (min g MaxAuditReceipts) - int (length (au_omitted rep))" using assms(5) by simp
  moreover have "int g - int (g - MaxAuditReceipts) = int (min g MaxAuditReceipts)" by simp
  moreover have "int (length (au_omitted rep)) \<le> int (min g MaxAuditReceipts)" using assms(5) by (metis le_add2 of_nat_mono)
  ultimately show ?thesis
    using assms by (simp add: check_counts_def flag_def Let_def wrap_int_small)
qed

lemma no_high: "filter is_high (map High fs) = map High fs" "\<not> is_high (Note n)"
  by (induction fs) (simp_all add: is_high_def)

lemma other_findings_high: "ai_unreadable (au_inference rep) = 0 \<Longrightarrow> filter is_high (other_findings rep) = []"
  by (simp add: other_findings_def flag_def Let_def is_high_def)

lemma filter_map_filter: "\<forall>x \<in> set xs. f x = None \<Longrightarrow> List.map_filter (\<lambda>p. p) (map f xs) = []"
  by (induction xs) (simp_all add: List.map_filter_simps)

lemma VerifyAudit_sound_iff:
  assumes "au_version rep = AuditVersion" "au_pubkey rep \<noteq> []" "au_from rep < au_until rep"
  shows "vd_sound (VerifyAudit ed rep) \<longleftrightarrow>
    (\<forall>rc \<in> set (au_gated rep). check_gated ed (au_pubkey rep) rc = None) \<and> check_counts rep = []
    \<and> filter is_high (other_findings rep) = [] \<and> ag_sound (au_integrity rep)"
proof -
  let ?res = "map (check_gated ed (au_pubkey rep)) (au_gated rep)"
  have v: "vd_sound (VerifyAudit ed rep) \<longleftrightarrow> filter is_high (map High (List.map_filter (\<lambda>p. p) ?res) @ map High (check_counts rep) @ other_findings rep) = []
      \<and> ag_sound (au_integrity rep) \<and> length (filter (\<lambda>p. p = None) ?res) = length ?res"
    using assms by (auto simp: VerifyAudit_def Let_def)
  have "length (filter (\<lambda>p. p = None) ?res) = length ?res \<longleftrightarrow> (\<forall>rc \<in> set (au_gated rep). check_gated ed (au_pubkey rep) rc = None)"
    by (simp only: filter_length_all set_map ball_simps)
  with v show ?thesis
    using filter_map_filter [of "au_gated rep" "check_gated ed (au_pubkey rep)"] by (auto simp: no_high)
qed

text \<open>C31: The report an honest ledger builds over a period is found sound by the verification of the document
  alone: the counts add up, every receipt in it verifies under the node's key, whatever receipts could
  not be built; and it counts exactly the effects of the period. Honest means: it kept its invariant, its
  entries read back, what they cite can be read, the countersignatures it stores are over heads it
  checkpointed, and all its checkpoints are under the one key, so it has not rotated; no read fails but
  those for the receipts; and the period is not empty when cut to milliseconds. A report of a ledger that has rotated is refused.\<close>

theorem honest_audit_verifies:
  assumes "db_inv ed node db es" "list_all entry_ok es" "int (length es) < 2 ^ 63"
    "BuildKeyTimeline ed (sort_key su_seq (db_successions db)) pub = Inr t"
    "\<forall>c \<in> set (db_checkpoints db). KeyAt t (cp_seq c) = cp_pubkey c \<and> cp_pubkey c = pub" "countersigned_ok ed node db"
    "\<forall>e \<in> set es. \<forall>h \<in> set (en_inference e). readable db h" "unix_milli a < unix_milli b"
  shows "\<exists>rep. BuildAuditWith ed other iter False rio (\<lambda>_. False) (\<lambda>_. False) now db node pub a b anchors = Some (Inr rep)
    \<and> vd_sound (VerifyAudit ed rep) \<and> vd_valid (VerifyAudit ed rep) = length (au_gated rep)
    \<and> as_effects (au_summary rep) = int (length (filter (in_period (unix_milli a) (unix_milli b)) es))"
proof -
  define sel where "sel = filter (in_period (unix_milli a) (unix_milli b)) es"
  have ab: "a < b" using assms(8) period_ms_mono [of b a] by fastforce
  have keys: "\<forall>c \<in> set (db_checkpoints db). KeyAt t (cp_seq c) = cp_pubkey c" using assms(5) by blast
  obtain rep where rep: "BuildAuditWith ed other iter False rio (\<lambda>_. False) (\<lambda>_. False) now db node pub a b anchors = Some (Inr rep)"
    "au_version rep = AuditVersion" "au_pubkey rep = pub" "au_from rep = unix_milli a" "au_until rep = unix_milli b"
    "ag_sound (au_integrity rep)" "summary_counts (au_summary rep) = summary_counts (fold count_summary sel zero_summary)"
    "(au_gated rep, au_omitted rep) = audit_receipts rio 0 db (take MaxAuditReceipts (map Entry_Hash (filter gated sel)))"
    "au_truncated rep = int (length (filter gated sel) - MaxAuditReceipts)"
    "au_inference rep = audit_inference_of other anchors (\<lambda>_. False) db (aw_cited (fold counted sel empty_audit))"
    unfolding sel_def by (rule audit_built [OF assms(1,2,4) keys assms(6) ab])
  let ?s = "fold count_summary sel zero_summary"
  have s: "as_effects (au_summary rep) = as_effects ?s" "as_gated (au_summary rep) = as_gated ?s" "as_allowed (au_summary rep) = as_allowed ?s"
    "as_delivered (au_summary rep) = as_delivered ?s" "as_denied (au_summary rep) = as_denied ?s"
    using rep(7) by (simp_all add: summary_counts_def)
  have words: "\<forall>e \<in> set sel. en_outcome e \<in> set EffectOutcomes"
    using assms(1) by (auto simp: sel_def db_inv_def list_all_iff well_worded_def)
  have n: "length sel \<le> length es" "length (filter gated sel) \<le> length sel"
    unfolding sel_def by (rule length_filter_le)+
  have z: "as_effects zero_summary = 0" "as_gated zero_summary = 0" "as_allowed zero_summary = 0" "as_delivered zero_summary = 0" "as_denied zero_summary = 0"
    by (simp_all add: zero_summary_def)
  have counts: "check_counts rep = []"
  proof (rule counts_pass [where g = "length (filter gated sel)" and s = "au_summary rep"])
    show "length (au_gated rep) + length (au_omitted rep) = min (length (filter gated sel)) MaxAuditReceipts"
      using receipts_length [OF rep(8) [symmetric]] by simp
    show "as_gated (au_summary rep) + as_allowed (au_summary rep) = as_effects (au_summary rep)"
      using allowed_fold [of sel zero_summary] by (simp add: s z effects_fold)
    show "as_delivered (au_summary rep) + as_denied (au_summary rep) = as_effects (au_summary rep)"
      using outcomes_fold [OF words, of zero_summary] by (simp add: s z effects_fold)
  qed (use n assms(3) rep(9) in \<open>simp_all add: s z effects_fold gated_fold\<close>)
  have receipts: "check_gated ed pub rc = None" if rc: "rc \<in> set (au_gated rep)" for rc
  proof -
    obtain h j where h: "h \<in> set (map Entry_Hash (filter gated sel))" "BuildReceipt (rio j) db h = Inr rc"
      using receipts_from [OF rep(8) [symmetric] rc] by (auto dest: in_set_takeD)
    then obtain e where e: "e \<in> set es" "h = Entry_Hash e" by (auto simp: sel_def)
    have "rk_pubkey (rc_checkpoint rc) = pub" using BuildReceipt_anchor [OF h(2)] assms(5) by auto
    moreover have "ReceiptReport_Sound (VerifyReceipt ed rc)" by (rule BuildReceipt_sound [OF assms(1-3) e(1)]) (use h(2) e(2) in simp)
    ultimately show ?thesis by (simp add: check_gated_def)
  qed
  have "set (aw_cited (fold counted sel empty_audit)) = (\<Union>e \<in> set sel. set (en_inference e))"
    by (simp add: counted_cited empty_audit_def)
  then have "\<forall>h \<in> set (sort (aw_cited (fold counted sel empty_audit))). readable db h" using assms(7) by (auto simp: sel_def)
  then have "ai_unreadable (au_inference rep) = 0"
    by (simp add: rep(10) audit_inference_of_def Let_def citations_readable zero_inference_def del: set_sort)
  then have high: "filter is_high (other_findings rep) = []" by (rule other_findings_high)
  have "pub \<noteq> []" using assms(4) by (auto simp: BuildKeyTimeline_def)
  then have "vd_sound (VerifyAudit ed rep)"
    using VerifyAudit_sound_iff [of rep ed] rep(2-6) assms(8) counts receipts high by simp
  moreover have "vd_valid (VerifyAudit ed rep) = length (au_gated rep)"
  proof -
    have "length (filter (\<lambda>p. p = None) (map (check_gated ed pub) (au_gated rep))) = length (map (check_gated ed pub) (au_gated rep))"
      using receipts by (simp only: filter_length_all set_map ball_simps) simp
    then show ?thesis using rep(2-5) assms(8) \<open>pub \<noteq> []\<close> by (simp add: VerifyAudit_def Let_def)
  qed
  moreover have "as_effects (au_summary rep) = int (length sel)" by (simp add: s z effects_fold)
  ultimately show ?thesis using rep(1) by (auto simp: sel_def)
qed

theorem honest_audit_verifies_witness:
  "\<exists>rep. BuildAuditWith toy_ed Some (\<lambda>m. m) False (\<lambda>_ _. False) (\<lambda>_. False) (\<lambda>_. False) 9 (gated_db []) ''n1'' (PublicB64 toy_keys)
       0 1000000000 [] = Some (Inr rep) \<and> vd_sound (VerifyAudit toy_ed rep)
     \<and> as_effects (au_summary rep) = int (length (filter (in_period 0 1000) [toy_gated]))"
proof -
  have k: "\<forall>c \<in> set (db_checkpoints (gated_db [])). KeyAt \<lparr>kt_segments = [\<lparr>ks_up_to = maxSeq, ks_pubkey = PublicB64 toy_keys\<rparr>],
      kt_rotations = 0\<rparr> (cp_seq c) = cp_pubkey c \<and> cp_pubkey c = PublicB64 toy_keys"
    by (simp add: gated_db_def KeyAt_def maxSeq_def)
  have r: "\<forall>e \<in> set [toy_gated]. \<forall>h \<in> set (en_inference e). readable (gated_db []) h" by (simp add: toy_gated_def)
  have m: "unix_milli 0 = 0" "unix_milli 1000000000 = 1000" by (simp_all add: unix_milli_def)
  have l: "int (length [toy_gated]) < 2 ^ 63" "unix_milli 0 < unix_milli 1000000000" by (simp_all add: m)
  show ?thesis
    using honest_audit_verifies [OF gated_db_inv toy_gated_ok l(1) gated_timeline k gated_countersigned r l(2),
      of Some "\<lambda>m. m" "\<lambda>_ _. False" 9 "[]"]
    unfolding m by blast
qed

section \<open>Where the verification misjudges\<close>

text \<open>After the node's key was rotated, the report of an honest ledger over a period with a gated effect
  that only checkpoints of an old key cover is found unsound, as sealed by a different node, although
  the report itself says that the ledger verified.\<close>

theorem rotated_audit_is_refused:
  assumes "db_inv ed node db es" "list_all entry_ok es" "int (length es) < 2 ^ 63"
    "BuildKeyTimeline ed (sort_key su_seq (db_successions db)) pub = Inr t"
    "\<forall>c \<in> set (db_checkpoints db). KeyAt t (cp_seq c) = cp_pubkey c" "countersigned_ok ed node db"
    "a < b" "i < length es" "gated (es ! i)" "in_period (unix_milli a) (unix_milli b) (es ! i)" "length es \<le> MaxAuditReceipts"
    "c \<in> set (db_checkpoints db)" "i < cp_seq c" "\<forall>c \<in> set (db_checkpoints db). i < cp_seq c \<longrightarrow> cp_pubkey c \<noteq> pub"
  shows "\<exists>rep. BuildAuditWith ed other iter False (\<lambda>_ _. False) (\<lambda>_. False) (\<lambda>_. False) now db node pub a b anchors = Some (Inr rep)
    \<and> ag_sound (au_integrity rep) \<and> \<not> vd_sound (VerifyAudit ed rep)
    \<and> High (OtherNode (Entry_Hash (es ! i))) \<in> set (vd_findings (VerifyAudit ed rep))"
proof -
  define sel where "sel = filter (in_period (unix_milli a) (unix_milli b)) es"
  have ab: "unix_milli a < unix_milli b" using assms(10) by (simp add: in_period_def)
  obtain rep where rep: "BuildAuditWith ed other iter False (\<lambda>_ _. False) (\<lambda>_. False) (\<lambda>_. False) now db node pub a b anchors = Some (Inr rep)"
    "au_version rep = AuditVersion" "au_pubkey rep = pub" "au_from rep = unix_milli a" "au_until rep = unix_milli b"
    "ag_sound (au_integrity rep)" "summary_counts (au_summary rep) = summary_counts (fold count_summary sel zero_summary)"
    "(au_gated rep, au_omitted rep) = audit_receipts (\<lambda>_ _. False) 0 db (take MaxAuditReceipts (map Entry_Hash (filter gated sel)))"
    unfolding sel_def by (rule audit_built [OF assms(1,2,4-7)])
  obtain r where r: "BuildReceipt (\<lambda>_. False) db (Entry_Hash (es ! i)) = Inr r"
    using BuildReceipt_anchored [OF assms(1-3,8,12,13)] by blast
  obtain c' raw e where c': "c' \<in> set (db_checkpoints db)" "rk_pubkey (rc_checkpoint r) = cp_pubkey c'" "en_seq e \<le> cp_seq c'"
    "LedgerEntryByHash False (Entry_Hash (es ! i)) db = Inr raw" "Unmarshal_Entry raw = Some e"
    using BuildReceipt_anchor [OF r] by blast
  have "raw = Marshal_Entry (es ! i)" using by_hash [OF assms(1,8)] c'(4) by simp
  moreover have "entry_ok (es ! i)" using assms(2,8) by (simp add: list_all_length)
  ultimately have "e = es ! i" using c'(5) Entry_roundtrip by simp
  then have "en_seq e = Suc i" using chained_nth [of 0 "[]" es i] assms(1,8) by (simp add: db_inv_def)
  then have other: "rk_pubkey (rc_checkpoint r) \<noteq> pub" using c'(1-3) assms(14) by auto
  have "length (filter gated sel) \<le> MaxAuditReceipts"
    using assms(11) length_filter_le [of gated sel] by (auto simp: sel_def intro: order_trans [OF length_filter_le] order_trans)
  moreover have "Entry_Hash (es ! i) \<in> set (map Entry_Hash (filter gated sel))" using assms(8-10) by (auto simp: sel_def)
  ultimately have "r \<in> set (au_gated rep)" by (intro receipts_of [OF rep(8) [symmetric] _ r]) simp
  moreover have "rc_entry_hash r = Entry_Hash (es ! i)" by (rule BuildReceipt_names [OF r])
  then have flagged: "check_gated ed pub r = Some (OtherNode (Entry_Hash (es ! i)))" using other by (simp add: check_gated_def)
  moreover have "pub \<noteq> []" using assms(4) by (auto simp: BuildKeyTimeline_def)
  ultimately have "\<not> vd_sound (VerifyAudit ed rep)" "High (OtherNode (Entry_Hash (es ! i))) \<in> set (vd_findings (VerifyAudit ed rep))"
    using VerifyAudit_sound_iff [of rep ed] rep(2-5) ab
    by (auto simp: VerifyAudit_def Let_def List.map_filter_def image_iff intro!: bexI [of _ r])
  with rep(1,6) show ?thesis by blast
qed

lemma rotated_keys:
  "\<forall>c \<in> set (db_checkpoints (gated_db [toy_rotation])). KeyAt \<lparr>kt_segments = map segment_of [toy_rotation]
     @ [\<lparr>ks_up_to = maxSeq, ks_pubkey = PublicB64 toy_keys2\<rparr>], kt_rotations = 1\<rparr> (cp_seq c) = cp_pubkey c"
  by (simp add: gated_db_def KeyAt_def segment_of_def toy_rotation_def Let_def)

theorem rotated_audit_is_refused_witness:
  "\<exists>rep. BuildAuditWith toy_ed Some (\<lambda>m. m) False (\<lambda>_ _. False) (\<lambda>_. False) (\<lambda>_. False) 9 (gated_db [toy_rotation]) ''n1''
       (PublicB64 toy_keys2) 0 1000000000 [] = Some (Inr rep)
     \<and> ag_sound (au_integrity rep) \<and> \<not> vd_sound (VerifyAudit toy_ed rep)
     \<and> High (OtherNode (Entry_Hash ([toy_gated] ! 0))) \<in> set (vd_findings (VerifyAudit toy_ed rep))"
proof -
  have "in_period (unix_milli 0) (unix_milli 1000000000) ([toy_gated] ! 0)"
    by (simp add: in_period_def unix_milli_def toy_gated_def toy_sealed_def toy_entry_def)
  then show ?thesis
    using rotated_audit_is_refused [OF gated_db_inv toy_gated_ok _ rotated_timeline rotated_keys gated_countersigned, of 0 1000000000 0
      "hd (db_checkpoints (gated_db [toy_rotation]))"]
    by (simp add: gated_db_def toy_gated_def MaxAuditReceipts_def)
qed

text \<open>The receipts of a report are not compared with one another, with the period or with the effects it
  counts: in a report that verifies the receipts may be replaced by as many copies of any one of them.\<close>

theorem copied_receipts_verify:
  assumes "vd_sound (VerifyAudit ed rep)" "rc \<in> set (au_gated rep)"
  shows "VerifyAudit ed (rep\<lparr>au_gated := replicate (length (au_gated rep)) rc\<rparr>) = VerifyAudit ed rep"
proof -
  have ok: "au_version rep = AuditVersion" "au_pubkey rep \<noteq> []" "au_from rep < au_until rep"
    using assms(1) by (auto simp: VerifyAudit_def refused_audit_def split: if_splits)
  then have all: "\<forall>rc \<in> set (au_gated rep). check_gated ed (au_pubkey rep) rc = None"
    using assms(1) VerifyAudit_sound_iff by blast
  let ?rep = "rep\<lparr>au_gated := replicate (length (au_gated rep)) rc\<rparr>"
  have same: "map (check_gated ed (au_pubkey rep)) (au_gated ?rep) = map (check_gated ed (au_pubkey rep)) (au_gated rep)"
    using all assms(2) by (intro nth_equalityI) simp_all
  have "check_counts ?rep = check_counts rep" "other_findings ?rep = other_findings rep"
    by (simp_all add: check_counts_def other_findings_def Let_def)
  with ok same show ?thesis by (simp add: VerifyAudit_def Let_def)
qed

theorem copied_receipts_verify_witness:
  "\<exists>(rep :: audit_report) rc. vd_sound (VerifyAudit toy_ed rep) \<and> rc \<in> set (au_gated rep)
     \<and> VerifyAudit toy_ed (rep\<lparr>au_gated := replicate (length (au_gated rep)) rc\<rparr>) = VerifyAudit toy_ed rep"
proof -
  obtain rc where rc: "BuildReceipt (\<lambda>_. False) (gated_db []) (Entry_Hash ([toy_gated] ! 0)) = Inr rc" "ReceiptReport_Sound (VerifyReceipt toy_ed rc)"
    using BuildReceipt_anchored [OF gated_db_inv toy_gated_ok, of 0 "hd (db_checkpoints (gated_db []))" "[]"] by (auto simp: gated_db_def)
  have k: "rk_pubkey (rc_checkpoint rc) = PublicB64 toy_keys" using BuildReceipt_anchor [OF rc(1)] by (auto simp: gated_db_def)
  let ?s = "zero_summary\<lparr>as_effects := 2, as_gated := 2, as_delivered := 2\<rparr>"
  let ?rep = "\<lparr>au_version = AuditVersion, au_node = [], au_pubkey = PublicB64 toy_keys, au_generated = 0, au_from = 0, au_until = 1,
      au_summary = ?s, au_policies = [], au_capabilities = [], au_inference = zero_inference, au_approvers = [], au_gated = [rc, rc],
      au_truncated = 0, au_omitted = [], au_integrity = integrity_of (zero_report\<lparr>rp_chain_intact := True\<rparr>)\<rparr>"
  have "vd_sound (VerifyAudit toy_ed ?rep)"
    using rc(2) k by (simp add: VerifyAudit_sound_iff toy_key_nonempty check_gated_def check_counts_def other_findings_def flag_def
        zero_summary_def zero_inference_def wrap_int_def integrity_of_def zero_report_def Report_Sound_def is_high_def)
  from copied_receipts_verify [OF this, of rc] this show ?thesis by (intro exI [of _ ?rep] exI [of _ rc]) simp
qed

theorem audit_periods_tile_witness:
  "\<exists>(rep :: audit_report) (rep1 :: audit_report) (rep2 :: audit_report). BuildAuditWith toy_ed Some (\<lambda>m. m) False (\<lambda>_ _. False) (\<lambda>_. False) (\<lambda>_. False) 9 (gated_db []) ''n1''
       (PublicB64 toy_keys) 0 1000000000 [] = Some (Inr rep)
     \<and> summary_counts (au_summary rep) = map2 (+) (summary_counts (au_summary rep1)) (summary_counts (au_summary rep2))"
proof -
  have k: "\<forall>c \<in> set (db_checkpoints (gated_db [])). KeyAt \<lparr>kt_segments = [\<lparr>ks_up_to = maxSeq, ks_pubkey = PublicB64 toy_keys\<rparr>],
      kt_rotations = 0\<rparr> (cp_seq c) = cp_pubkey c"
    by (simp add: gated_db_def KeyAt_def maxSeq_def)
  have b: "\<exists>rep. BuildAuditWith toy_ed Some (\<lambda>m. m) False (\<lambda>_ _. False) (\<lambda>_. False) (\<lambda>_. False) 9 (gated_db []) ''n1''
      (PublicB64 toy_keys) a b [] = Some (Inr rep)" if "a < b" for a b
    using audit_built [OF gated_db_inv toy_gated_ok gated_timeline k gated_countersigned that] by metis
  obtain rep where r: "BuildAuditWith toy_ed Some (\<lambda>m. m) False (\<lambda>_ _. False) (\<lambda>_. False) (\<lambda>_. False) 9 (gated_db []) ''n1''
      (PublicB64 toy_keys) 0 1000000000 [] = Some (Inr rep)" using b [of 0 1000000000] by auto
  obtain rep1 where r1: "BuildAuditWith toy_ed Some (\<lambda>m. m) False (\<lambda>_ _. False) (\<lambda>_. False) (\<lambda>_. False) 9 (gated_db []) ''n1''
      (PublicB64 toy_keys) 0 5000000 [] = Some (Inr rep1)" using b [of 0 5000000] by auto
  obtain rep2 where r2: "BuildAuditWith toy_ed Some (\<lambda>m. m) False (\<lambda>_ _. False) (\<lambda>_. False) (\<lambda>_. False) 9 (gated_db []) ''n1''
      (PublicB64 toy_keys) 5000000 1000000000 [] = Some (Inr rep2)" using b [of 5000000 1000000000] by auto
  show ?thesis by (intro exI conjI) (rule r, rule audit_periods_tile [OF r r1 r2])
qed

end
