(* ===== verification/Diff.thy ===== *)
theory Diff
  imports Ledger_Entry
begin

text \<open>
  \<^verbatim>\<open>kernel/internal/ledger/diff.go\<close> and \<^verbatim>\<open>regress.go\<close>: what a replay sealed against what the original run
  sealed, and what the replays of a batch of sessions come to.
\<close>

section \<open>One replay\<close>

record divergence =
  dv_index :: nat
  dv_field :: string
  dv_old :: string
  dv_new :: string

record diff_report =
  df_old_count :: nat
  df_new_count :: nat
  df_compared :: nat
  df_divergences :: "divergence list"
  df_notes :: "divergence list"

definition Reproducible :: "diff_report \<Rightarrow> bool" where
  "Reproducible r \<longleftrightarrow> df_divergences r = []"

definition compensationShape :: "compensation option \<Rightarrow> string" where
  "compensationShape c = (case c of None \<Rightarrow> [] | Some c \<Rightarrow> co_capability c @ '' -> '' @ co_port c)"

definition differ :: "nat \<Rightarrow> string \<Rightarrow> string \<Rightarrow> string \<Rightarrow> divergence list" where
  "differ i f a b = (if a \<noteq> b then [\<lparr>dv_index = i, dv_field = f, dv_old = a, dv_new = b\<rparr>] else [])"

definition entry_divergences :: "nat \<Rightarrow> entry \<Rightarrow> entry \<Rightarrow> divergence list" where
  "entry_divergences i a w =
     differ i ''capability'' (en_capability a) (en_capability w)
     @ differ i ''decision'' (en_decision a) (en_decision w)
     @ differ i ''outcome'' (en_outcome a) (en_outcome w)"

definition entry_notes :: "nat \<Rightarrow> entry \<Rightarrow> entry \<Rightarrow> divergence list" where
  "entry_notes i a w =
     differ i ''actor'' (en_actor a) (en_actor w)
     @ differ i ''policy'' (en_policy a) (en_policy w)
     @ differ i ''payload_sha256'' (en_payload_sha256 a) (en_payload_sha256 w)
     @ differ i ''compensation'' (compensationShape (en_compensation a)) (compensationShape (en_compensation w))"

fun diff_from :: "nat \<Rightarrow> entry list \<Rightarrow> entry list \<Rightarrow> divergence list \<times> divergence list" where
  "diff_from i (a # as) (w # ws) =
     (let (ds, ns) = diff_from (i + 1) as ws in (entry_divergences i a w @ ds, entry_notes i a w @ ns))"
| "diff_from i _ _ = ([], [])"

definition Diff :: "entry list \<Rightarrow> entry list \<Rightarrow> diff_report" where
  "Diff old new =
     (let (ds, ns) = diff_from 0 old new in
      \<lparr>df_old_count = length old, df_new_count = length new, df_compared = min (length old) (length new),
       df_divergences = differ 0 ''count'' (dec_nat (length old)) (dec_nat (length new)) @ ds, df_notes = ns\<rparr>)"

section \<open>A batch of replays\<close>

record session_result =
  sr_session :: string
  sr_replay :: string
  sr_error :: string
  sr_diff :: diff_report
  sr_old_models :: "string list"
  sr_new_models :: "string list"

definition Regressed :: "session_result \<Rightarrow> bool" where
  "Regressed s \<longleftrightarrow> sr_error s = [] \<and> \<not> Reproducible (sr_diff s)"

record capability_delta =
  cd_capability :: string
  cd_sessions :: nat
  cd_fields :: "(string \<times> nat) list"

record regression_report =
  rg_sessions :: nat
  rg_reproducible :: nat
  rg_regressed :: nat
  rg_failed :: nat
  rg_before :: nat
  rg_after :: nat
  rg_by_capability :: "capability_delta list"
  rg_results :: "session_result list"
  rg_models_before :: "string list"
  rg_models_after :: "string list"

definition Divergent :: "regression_report \<Rightarrow> session_result list" where
  "Divergent r = filter Regressed (rg_results r)"

definition Clean :: "regression_report \<Rightarrow> bool" where
  "Clean r \<longleftrightarrow> rg_regressed r = 0"

definition capabilityAt :: "diff_report \<Rightarrow> nat \<Rightarrow> string" where
  "capabilityAt d i =
     (case find (\<lambda>x. dv_index x = i \<and> dv_field x = ''capability'') (df_divergences d) of
        Some x \<Rightarrow> dv_old x
      | None \<Rightarrow> ''(effect '' @ dec_nat (i + 1) @ '')'')"

definition charged_to :: "diff_report \<Rightarrow> divergence \<Rightarrow> string" where
  "charged_to r d =
     (if dv_field d \<noteq> ''count'' \<and> dv_old d \<noteq> []
      then (if dv_field d \<noteq> ''capability'' then capabilityAt r (dv_index d) else dv_old d)
      else ''(effect count)'')"

definition charge_delta ::
  "diff_report \<Rightarrow> divergence \<Rightarrow> (string \<times> capability_delta) list \<times> string list \<Rightarrow> (string \<times> capability_delta) list \<times> string list" where
  "charge_delta r d s =
     (let c = charged_to r d;
          cd = (case al_get (fst s) c of None \<Rightarrow> \<lparr>cd_capability = c, cd_sessions = 0, cd_fields = []\<rparr> | Some cd \<Rightarrow> cd);
          n = (case al_get (cd_fields cd) (dv_field d) of None \<Rightarrow> 0 | Some n \<Rightarrow> n);
          cd = cd\<lparr>cd_fields := al_put (dv_field d) (n + 1) (cd_fields cd)\<rparr>;
          cd = (if c \<in> set (snd s) then cd else cd\<lparr>cd_sessions := cd_sessions cd + 1\<rparr>)
      in (al_put c cd (fst s), List.insert c (snd s)))"

definition charge_session ::
  "session_result \<Rightarrow> (string \<times> capability_delta) list \<Rightarrow> (string \<times> capability_delta) list" where
  "charge_session s m =
     (if sr_error s \<noteq> [] \<or> Reproducible (sr_diff s) then m
      else fst (fold (charge_delta (sr_diff s)) (df_divergences (sr_diff s)) (m, [])))"

definition Regress :: "session_result list \<Rightarrow> regression_report" where
  "Regress results =
     \<lparr>rg_sessions = length results,
      rg_reproducible = length (filter (\<lambda>s. sr_error s = [] \<and> Reproducible (sr_diff s)) results),
      rg_regressed = length (filter Regressed results),
      rg_failed = length (filter (\<lambda>s. sr_error s \<noteq> []) results),
      rg_before = sum_list (map (\<lambda>s. df_old_count (sr_diff s)) results),
      rg_after = sum_list (map (\<lambda>s. df_new_count (sr_diff s)) results),
      rg_by_capability = sort_key (\<lambda>c. - int (cd_sessions c)) (sort_key cd_capability (map snd (fold charge_session results []))),
      rg_results = results,
      rg_models_before = sort (remdups (concat (map sr_old_models results))),
      rg_models_after = sort (remdups (concat (map sr_new_models results)))\<rparr>"

definition ModelsOf :: "entry list \<Rightarrow> string list" where
  "ModelsOf es = sort (remdups (concat (map en_inference es)))"

end
