(* ===== verification/Diff_Properties.thy ===== *)
theory Diff_Properties
  imports Diff
begin

text \<open>What the comparison of two runs and the report over a batch of them say.\<close>

section \<open>One replay\<close>

definition decided :: "entry \<Rightarrow> string \<times> string \<times> string" where
  "decided e = (en_capability e, en_decision e, en_outcome e)"

lemma differ_Nil [simp]: "differ i f a b = [] \<longleftrightarrow> a = b"
  by (simp add: differ_def)

lemma divergences_Nil: "entry_divergences i a w = [] \<longleftrightarrow> decided a = decided w"
  by (simp add: entry_divergences_def decided_def)

lemma diff_from_Nil:
  "length as = length ws \<Longrightarrow> fst (diff_from i as ws) = [] \<longleftrightarrow> map decided as = map decided ws"
  by (induction i as ws rule: diff_from.induct) (auto simp: divergences_Nil split: prod.splits)

lemma Diff_fields:
  "df_divergences (Diff old new) = differ 0 ''count'' (dec_nat (length old)) (dec_nat (length new)) @ fst (diff_from 0 old new)"
  by (simp add: Diff_def split: prod.split)

text \<open>C32: A replay counts as reproducing a run exactly when the two sealed the same number of effects and,
  one after the other, the same capability with the same decision and the same outcome.\<close>

theorem reproducible_iff_same_decisions: "Reproducible (Diff old new) \<longleftrightarrow> map decided old = map decided new"
proof (cases "length old = length new")
  case True
  then show ?thesis by (simp add: Reproducible_def Diff_fields diff_from_Nil)
next
  case False
  then have "map decided old \<noteq> map decided new" by (metis length_map)
  with False show ?thesis by (simp add: Reproducible_def Diff_fields)
qed

section \<open>A batch of replays\<close>

definition charged :: "(string \<times> capability_delta) list \<Rightarrow> nat" where
  "charged m = sum_list (map (\<lambda>(_, cd). sum_list (map snd (cd_fields cd))) m)"

definition delta_of :: "string \<Rightarrow> (string \<times> capability_delta) list \<Rightarrow> capability_delta" where
  "delta_of c m = (case al_get m c of None \<Rightarrow> \<lparr>cd_capability = c, cd_sessions = 0, cd_fields = []\<rparr> | Some cd \<Rightarrow> cd)"

lemma sum_put:
  "sum_list (map (\<lambda>(_, v). f v) (al_put k v m)) + (case al_get m k of None \<Rightarrow> 0 | Some v' \<Rightarrow> f v')
    = sum_list (map (\<lambda>(_, v). f v) m) + (f v :: nat)"
  by (induction k v m rule: al_put.induct) (auto split: option.splits)

lemma sum_bump:
  "sum_list (map snd (al_put k (Suc (case al_get m k of None \<Rightarrow> 0 | Some n \<Rightarrow> n)) m)) = Suc (sum_list (map snd m))"
  by (induction m) (auto split: option.splits)

lemma charge_total: "charged (fst (charge_delta r d (m, seen))) = Suc (charged m)"
proof -
  let ?c = "charged_to r d"
  let ?cd = "delta_of ?c m"
  obtain cd where cd: "fst (charge_delta r d (m, seen)) = al_put ?c cd m"
    and f: "cd_fields cd = al_put (dv_field d) (Suc (case al_get (cd_fields ?cd) (dv_field d) of None \<Rightarrow> 0 | Some n \<Rightarrow> n)) (cd_fields ?cd)"
    by (auto simp: charge_delta_def delta_of_def Let_def)
  have "charged (al_put ?c cd m) + (case al_get m ?c of None \<Rightarrow> 0 | Some x \<Rightarrow> sum_list (map snd (cd_fields x)))
      = charged m + sum_list (map snd (cd_fields cd))"
    unfolding charged_def by (rule sum_put)
  also have "sum_list (map snd (cd_fields cd)) = Suc (sum_list (map snd (cd_fields ?cd)))"
    unfolding f by (rule sum_bump)
  finally show ?thesis unfolding cd by (simp add: delta_of_def split: option.splits)
qed

lemma charge_all: "charged (fst (fold (charge_delta r) ds s)) = charged (fst s) + length ds"
proof (induction ds arbitrary: s)
  case (Cons d ds)
  then show ?case using charge_total [of r d "fst s" "snd s"] by simp
qed simp

lemma charge_session_total:
  "charged (charge_session s m) = charged m + (if Regressed s then length (df_divergences (sr_diff s)) else 0)"
  by (auto simp: charge_session_def Regressed_def charge_all)

lemma charge_sessions: "charged (fold charge_session rs m) = charged m + sum_list (map (\<lambda>s. length (df_divergences (sr_diff s))) (filter Regressed rs))"
  by (induction rs arbitrary: m) (simp_all add: charge_session_total)

lemma charged_values: "charged m = sum_list (map (\<lambda>cd. sum_list (map snd (cd_fields cd))) (map snd m))"
  by (induction m) (auto simp: charged_def)

lemma sum_list_sort_key: "sum_list (map f (sort_key g xs)) = (sum_list (map f xs) :: nat)"
proof (induction xs)
  case (Cons x xs)
  have "sum_list (map f (insort_key g x ys)) = f x + sum_list (map f ys)" for ys by (induction ys) simp_all
  with Cons show ?case by simp
qed simp

text \<open>In the report over a batch of replays every session is counted once, as reproduced, as regressed or
  as failed, and every divergence of a regressed session is charged to exactly one line.\<close>

theorem regress_accounts_for_all:
  "rg_sessions (Regress rs) = rg_reproducible (Regress rs) + rg_regressed (Regress rs) + rg_failed (Regress rs)
   \<and> sum_list (map (\<lambda>cd. sum_list (map snd (cd_fields cd))) (rg_by_capability (Regress rs)))
     = sum_list (map (\<lambda>s. length (df_divergences (sr_diff s))) (Divergent (Regress rs)))
   \<and> (Clean (Regress rs) \<longleftrightarrow> Divergent (Regress rs) = [])"
proof -
  have "length rs = length (filter (\<lambda>s. sr_error s = [] \<and> Reproducible (sr_diff s)) rs) + length (filter Regressed rs)
      + length (filter (\<lambda>s. sr_error s \<noteq> []) rs)"
    by (induction rs) (auto simp: Regressed_def)
  moreover have "charged (fold charge_session rs []) = sum_list (map (\<lambda>s. length (df_divergences (sr_diff s))) (filter Regressed rs))"
    by (simp only: charge_sessions) (simp add: charged_def)
  ultimately show ?thesis
    by (simp add: Regress_def Clean_def Divergent_def sum_list_sort_key charged_values)
qed

end
