(* ===== verification/Store_Tables.thy ===== *)
theory Store_Tables
  imports Ledger
begin

text \<open>
  The remaining tables of \<^verbatim>\<open>kernel/internal/store/store.go\<close>: graphs and their revisions, skills and their
  configuration, projections, inbound routes, the deliveries seen, and scoped tokens. \<open>now\<close> is the clock in
  milliseconds. A statement that fails has no effect; \<open>io k\<close> says whether the \<open>k\<close>-th one of a call does.
\<close>

record graph_row =
  gw_id :: string
  gw_ir :: bytes
  gw_created :: int

record revision_row =
  rv_graph :: string
  rv_n :: nat
  rv_ir :: bytes
  rv_digest :: string
  rv_created :: int

record skill_row =
  kw_id :: string
  kw_version :: string
  kw_manifest :: bytes
  kw_first_seen :: int
  kw_last_seen :: int

record config_row =
  cw_skill :: string
  cw_values :: bytes
  cw_updated :: int

record seen_row =
  sw_route :: string
  sw_digest :: string
  sw_ts :: int

record token_row =
  tk_id :: string
  tk_hash :: string
  tk_scope :: string
  tk_capability :: string
  tk_label :: string
  tk_created :: int
  tk_revoked :: "int option"

record tables =
  tb_graphs :: "graph_row list"
  tb_revisions :: "revision_row list"
  tb_skills :: "skill_row list"
  tb_configs :: "config_row list"
  tb_projections :: "(string \<times> bytes) list"
  tb_ingress :: "(string \<times> bytes) list"
  tb_seen :: "seen_row list"
  tb_tokens :: "token_row list"

definition empty_tables :: tables where
  "empty_tables = \<lparr>tb_graphs = [], tb_revisions = [], tb_skills = [], tb_configs = [], tb_projections = [],
     tb_ingress = [], tb_seen = [], tb_tokens = []\<rparr>"

section \<open>Graphs\<close>

definition ir_digest :: "bytes \<Rightarrow> string" where
  "ir_digest ir = hex_encode (sha256 ir)"

definition revisions_of :: "string \<Rightarrow> tables \<Rightarrow> revision_row list" where
  "revisions_of g t = sort_key (\<lambda>r. - int (rv_n r)) (filter (\<lambda>r. rv_graph r = g) (tb_revisions t))"

text \<open>One transaction: its writes are kept together or not at all.\<close>

definition SaveGraph :: "(nat \<Rightarrow> bool) \<Rightarrow> int \<Rightarrow> string \<Rightarrow> bytes \<Rightarrow> tables \<Rightarrow> db_error + tables" where
  "SaveGraph io now g ir t =
     (if io 0 \<or> io 1 then Inl DbFault
      else
        (let (lastDigest, lastN) = (case revisions_of g t of [] \<Rightarrow> ([], 0) | r # _ \<Rightarrow> (rv_digest r, rv_n r));
             fresh = (lastDigest \<noteq> ir_digest ir)
         in if fresh \<and> io 2 then Inl DbFault
            else if fresh \<and> list_ex (\<lambda>r. rv_graph r = g \<and> rv_n r = lastN + 1) (tb_revisions t) then Inl DbConstraint
            else if io 3 \<or> io 4 then Inl DbFault
            else Inr (t\<lparr>tb_revisions := (if fresh then tb_revisions t @
                          [\<lparr>rv_graph = g, rv_n = lastN + 1, rv_ir = ir, rv_digest = ir_digest ir, rv_created = now\<rparr>] else tb_revisions t),
                        tb_graphs := (if list_ex (\<lambda>r. gw_id r = g) (tb_graphs t)
                          then map (\<lambda>r. if gw_id r = g then r\<lparr>gw_ir := ir\<rparr> else r) (tb_graphs t)
                          else tb_graphs t @ [\<lparr>gw_id = g, gw_ir = ir, gw_created = now\<rparr>])\<rparr>)))"

text \<open>\<open>LENGTH\<close> of a text value in SQLite: its characters, up to the first NUL.\<close>

fun skip_continuation :: "bytes \<Rightarrow> bytes" where
  "skip_continuation [] = []"
| "skip_continuation (b # cs) = (if cn b div 64 = 2 then skip_continuation cs else b # cs)"

lemma skip_continuation_le: "length (skip_continuation cs) \<le> length cs"
  by (induction cs) auto

function sqlite_length :: "bytes \<Rightarrow> nat" where
  "sqlite_length [] = 0"
| "sqlite_length (b # cs) = (if b = CHR 0x00 then 0 else 1 + sqlite_length (if 0xC0 \<le> cn b then skip_continuation cs else cs))"
  by pat_completeness auto
termination by (relation "measure length") (auto simp: less_Suc_eq_le skip_continuation_le)

definition GraphRevisions :: "bool \<Rightarrow> string \<Rightarrow> tables \<Rightarrow> db_error + (nat \<times> string \<times> int \<times> nat) list" where
  "GraphRevisions fault g t =
     (if fault then Inl DbFault
      else Inr (map (\<lambda>r. (rv_n r, rv_digest r, rv_created r, sqlite_length (rv_ir r))) (revisions_of g t)))"

definition GraphRevision :: "bool \<Rightarrow> string \<Rightarrow> nat \<Rightarrow> tables \<Rightarrow> db_error + bytes" where
  "GraphRevision fault g n t =
     (if fault then Inl DbFault
      else (case find (\<lambda>r. rv_graph r = g \<and> rv_n r = n) (tb_revisions t) of None \<Rightarrow> Inl NotFound | Some r \<Rightarrow> Inr (rv_ir r)))"

definition LoadGraph :: "bool \<Rightarrow> string \<Rightarrow> tables \<Rightarrow> db_error + bytes" where
  "LoadGraph fault g t =
     (if fault then Inl DbFault
      else (case find (\<lambda>r. gw_id r = g) (tb_graphs t) of None \<Rightarrow> Inl NotFound | Some r \<Rightarrow> Inr (gw_ir r)))"

definition ListGraphs :: "bool \<Rightarrow> tables \<Rightarrow> db_error + string list" where
  "ListGraphs fault t = (if fault then Inl DbFault else Inr (map gw_id (sort_key gw_created (tb_graphs t))))"

section \<open>Skills\<close>

text \<open>\<open>manifest\<close> is the marshalled manifest.\<close>

definition UpsertSkill :: "bool \<Rightarrow> int \<Rightarrow> string \<Rightarrow> string \<Rightarrow> bytes \<Rightarrow> tables \<Rightarrow> db_error + tables" where
  "UpsertSkill fault now i version manifest t =
     (if fault then Inl DbFault
      else Inr (t\<lparr>tb_skills :=
        (if list_ex (\<lambda>r. kw_id r = i \<and> kw_version r = version) (tb_skills t)
         then map (\<lambda>r. if kw_id r = i \<and> kw_version r = version then r\<lparr>kw_manifest := manifest, kw_last_seen := now\<rparr> else r) (tb_skills t)
         else tb_skills t @ [\<lparr>kw_id = i, kw_version = version, kw_manifest = manifest, kw_first_seen = now, kw_last_seen = now\<rparr>])\<rparr>))"

definition LoadSkillManifest :: "bool \<Rightarrow> string \<Rightarrow> tables \<Rightarrow> db_error + bytes" where
  "LoadSkillManifest fault i t =
     (if fault then Inl DbFault
      else (case sort_key (\<lambda>r. - kw_last_seen r) (filter (\<lambda>r. kw_id r = i) (tb_skills t)) of
              [] \<Rightarrow> Inl NotFound | r # _ \<Rightarrow> Inr (kw_manifest r)))"

text \<open>The values are members of a Go map that was read from JSON, so they marshal.\<close>

definition SaveSkillConfig :: "bool \<Rightarrow> int \<Rightarrow> string \<Rightarrow> (string \<times> json) list \<Rightarrow> tables \<Rightarrow> db_error + tables" where
  "SaveSkillConfig fault now i vals t =
     (if fault then Inl DbFault
      else (let row = \<lparr>cw_skill = i, cw_values = json_print (JObj (sort_key fst vals)), cw_updated = now\<rparr> in
            Inr (t\<lparr>tb_configs := (if list_ex (\<lambda>r. cw_skill r = i) (tb_configs t)
                                   then map (\<lambda>r. if cw_skill r = i then row else r) (tb_configs t)
                                   else tb_configs t @ [row])\<rparr>)))"

datatype config_error = ConfigUnread | ConfigCorrupt

definition LoadSkillConfig :: "bool \<Rightarrow> string \<Rightarrow> tables \<Rightarrow> config_error + (string \<times> json) list" where
  "LoadSkillConfig fault i t =
     (if fault then Inl ConfigUnread
      else (case find (\<lambda>r. cw_skill r = i) (tb_configs t) of
              None \<Rightarrow> Inr []
            | Some r \<Rightarrow> (case json_parse (cw_values r) of
                           Some (JObj ms) \<Rightarrow> Inr (fold (\<lambda>(k, v) m. al_put k v m) ms [])
                         | Some JNull \<Rightarrow> Inr []
                         | _ \<Rightarrow> Inl ConfigCorrupt)))"

section \<open>Named documents\<close>

definition SaveProjection :: "bool \<Rightarrow> string \<Rightarrow> bytes \<Rightarrow> tables \<Rightarrow> db_error + tables" where
  "SaveProjection fault name config t =
     (if fault then Inl DbFault else Inr (t\<lparr>tb_projections := al_put name config (tb_projections t)\<rparr>))"

definition LoadProjections :: "bool \<Rightarrow> tables \<Rightarrow> db_error + (string \<times> bytes) list" where
  "LoadProjections fault t = (if fault then Inl DbFault else Inr (tb_projections t))"

definition SaveIngress :: "bool \<Rightarrow> string \<Rightarrow> bytes \<Rightarrow> tables \<Rightarrow> db_error + tables" where
  "SaveIngress fault name config t =
     (if fault then Inl DbFault else Inr (t\<lparr>tb_ingress := al_put name config (tb_ingress t)\<rparr>))"

definition LoadIngress :: "bool \<Rightarrow> tables \<Rightarrow> db_error + (string \<times> bytes) list" where
  "LoadIngress fault t = (if fault then Inl DbFault else Inr (tb_ingress t))"

definition DeleteIngress :: "bool \<Rightarrow> string \<Rightarrow> tables \<Rightarrow> db_error + tables" where
  "DeleteIngress fault name t =
     (if fault then Inl DbFault else Inr (t\<lparr>tb_ingress := al_del name (tb_ingress t)\<rparr>))"

section \<open>Deliveries seen\<close>

text \<open>The clock is read twice, in nanoseconds; the two statements are not one transaction.\<close>

definition SeenIngressDelivery ::
  "(nat \<Rightarrow> bool) \<Rightarrow> int \<Rightarrow> int \<Rightarrow> string \<Rightarrow> string \<Rightarrow> int \<Rightarrow> tables \<Rightarrow> tables \<times> (db_error + bool)" where
  "SeenIngressDelivery io now1 now2 route digest window t =
     (if io 0 then (t, Inl DbFault)
      else
        (let cutoff = unix_milli (now1 - window);
             t = t\<lparr>tb_seen := filter (\<lambda>r. \<not> sw_ts r \<le> cutoff) (tb_seen t)\<rparr>
         in if io 1 then (t, Inl DbFault)
            else if list_ex (\<lambda>r. sw_route r = route \<and> sw_digest r = digest) (tb_seen t) then (t, Inr True)
            else (t\<lparr>tb_seen := tb_seen t @ [\<lparr>sw_route = route, sw_digest = digest, sw_ts = unix_milli now2\<rparr>]\<rparr>, Inr False)))"

section \<open>Scoped tokens\<close>

definition SaveToken :: "bool \<Rightarrow> token_row \<Rightarrow> string \<Rightarrow> tables \<Rightarrow> db_error + tables" where
  "SaveToken fault row h t =
     (if fault then Inl DbFault
      else if list_ex (\<lambda>r. tk_id r = tk_id row \<or> tk_hash r = h) (tb_tokens t) then Inl DbConstraint
      else Inr (t\<lparr>tb_tokens := tb_tokens t @ [row\<lparr>tk_hash := h, tk_revoked := None\<rparr>]\<rparr>))"

definition TokenByHash :: "bool \<Rightarrow> string \<Rightarrow> tables \<Rightarrow> db_error + token_row option" where
  "TokenByHash fault h t = (if fault then Inl DbFault else Inr (find (\<lambda>r. tk_hash r = h) (tb_tokens t)))"

definition Tokens :: "bool \<Rightarrow> tables \<Rightarrow> db_error + token_row list" where
  "Tokens fault t = (if fault then Inl DbFault else Inr (sort_key (\<lambda>r. - tk_created r) (tb_tokens t)))"

definition RevokeToken :: "bool \<Rightarrow> string \<Rightarrow> int \<Rightarrow> tables \<Rightarrow> db_error + (tables \<times> bool)" where
  "RevokeToken fault i ts t =
     (if fault then Inl DbFault
      else Inr (t\<lparr>tb_tokens := map (\<lambda>r. if tk_id r = i \<and> tk_revoked r = None then r\<lparr>tk_revoked := Some ts\<rparr> else r) (tb_tokens t)\<rparr>,
                list_ex (\<lambda>r. tk_id r = i \<and> tk_revoked r = None) (tb_tokens t)))"

section \<open>Secrets\<close>

definition SecretNames :: "bool \<Rightarrow> ledger_db \<Rightarrow> db_error + string list" where
  "SecretNames fault db = (if fault then Inl DbFault else Inr (sort (map se_name (db_secrets db))))"

definition DeleteSecret :: "bool \<Rightarrow> string \<Rightarrow> ledger_db \<Rightarrow> db_error + (ledger_db \<times> bool)" where
  "DeleteSecret fault name db =
     (if fault then Inl DbFault
      else Inr (db\<lparr>db_secrets := filter (\<lambda>r. se_name r \<noteq> name) (db_secrets db)\<rparr>, list_ex (\<lambda>r. se_name r = name) (db_secrets db)))"

end
