(* ===== verification/Tables_Properties.thy ===== *)
theory Tables_Properties
  imports Store_Tables "HOL-Library.Multiset"
begin

text \<open>
  The history of a graph: revisions are numbered from one without a gap, the newest is the graph in force, and
  what was registered once stays readable under its number.
\<close>

definition revisions_by_age :: "string \<Rightarrow> tables \<Rightarrow> revision_row list" where
  "revisions_by_age g t = filter (\<lambda>r. rv_graph r = g) (tb_revisions t)"

definition current_ir :: "string \<Rightarrow> tables \<Rightarrow> bytes option" where
  "current_ir g t = map_option gw_ir (find (\<lambda>r. gw_id r = g) (tb_graphs t))"

definition history_ok :: "tables \<Rightarrow> bool" where
  "history_ok t \<longleftrightarrow>
     (\<forall>g. map rv_n (revisions_by_age g t) = [1..<Suc (length (revisions_by_age g t))]
        \<and> (current_ir g t = None \<longleftrightarrow> revisions_by_age g t = [])
        \<and> (\<forall>ir. current_ir g t = Some ir \<longrightarrow> rv_digest (last (revisions_by_age g t)) = ir_digest ir))
     \<and> (\<forall>r \<in> set (tb_revisions t). rv_digest r = ir_digest (rv_ir r))"

text \<open>A run of registrations, those that fail and those that do not.\<close>

definition save_or_keep :: "(nat \<Rightarrow> bool) \<times> int \<times> string \<times> bytes \<Rightarrow> tables \<Rightarrow> tables" where
  "save_or_keep c t = (case c of (io, now, g, ir) \<Rightarrow> (case SaveGraph io now g ir t of Inl _ \<Rightarrow> t | Inr t' \<Rightarrow> t'))"

definition registrations :: "((nat \<Rightarrow> bool) \<times> int \<times> string \<times> bytes) list \<Rightarrow> tables" where
  "registrations cs = fold save_or_keep cs empty_tables"

lemma history_ok_empty: "history_ok empty_tables"
  by (simp add: history_ok_def empty_tables_def revisions_by_age_def current_ir_def)

lemma sorted_down: "sorted (rev (map (\<lambda>n. - int n) [a..<b]))"
  by (induction b) (auto simp: sorted_append)

lemma sort_upt_down:
  assumes "map rv_n rs = [a..<b]"
  shows "sort_key (\<lambda>r. - int (rv_n r)) rs = rev rs"
proof (rule sort_key_inj_key_eq)
  have "distinct (map rv_n rs)" using assms by simp
  then show "inj_on (\<lambda>r. - int (rv_n r)) (set rs)" by (auto simp: distinct_map inj_on_def)
  have "map (\<lambda>r. - int (rv_n r)) rs = map (\<lambda>n. - int n) [a..<b]"
    using assms by (metis (no_types, lifting) map_map comp_apply map_cong)
  then show "sorted (map (\<lambda>r. - int (rv_n r)) (rev rs))"
    by (simp add: rev_map [symmetric] sorted_down)
qed simp

lemma revisions_newest_first:
  "map rv_n (revisions_by_age g t) = [a..<b] \<Longrightarrow> revisions_of g t = rev (revisions_by_age g t)"
  unfolding revisions_of_def revisions_by_age_def by (rule sort_upt_down)

definition newest :: "string \<Rightarrow> tables \<Rightarrow> string \<times> nat" where
  "newest g t = (case revisions_of g t of [] \<Rightarrow> ([], 0) | r # _ \<Rightarrow> (rv_digest r, rv_n r))"

definition new_revision :: "int \<Rightarrow> string \<Rightarrow> bytes \<Rightarrow> tables \<Rightarrow> revision_row list" where
  "new_revision now g ir t =
     (if fst (newest g t) = ir_digest ir then []
      else [\<lparr>rv_graph = g, rv_n = snd (newest g t) + 1, rv_ir = ir, rv_digest = ir_digest ir, rv_created = now\<rparr>])"

lemma SaveGraph_Inr:
  assumes "SaveGraph io now g ir t = Inr t'"
  shows "tb_revisions t' = tb_revisions t @ new_revision now g ir t"
    and "current_ir h t' = (if h = g then Some ir else current_ir h t)"
proof -
  let ?gs = "if list_ex (\<lambda>r. gw_id r = g) (tb_graphs t)
    then map (\<lambda>r. if gw_id r = g then r\<lparr>gw_ir := ir\<rparr> else r) (tb_graphs t)
    else tb_graphs t @ [\<lparr>gw_id = g, gw_ir = ir, gw_created = now\<rparr>]"
  have t': "t' = t\<lparr>tb_revisions := tb_revisions t @ new_revision now g ir t, tb_graphs := ?gs\<rparr>"
    using assms unfolding SaveGraph_def new_revision_def newest_def Let_def
    by (auto split: if_splits list.splits)
  then show "tb_revisions t' = tb_revisions t @ new_revision now g ir t" by simp
  have upd: "map_option gw_ir (find (\<lambda>r. gw_id r = h) (map (\<lambda>r. if gw_id r = g then r\<lparr>gw_ir := ir\<rparr> else r) rs))
      = (if h = g then map_option (\<lambda>_. ir) (find (\<lambda>r. gw_id r = g) rs) else map_option gw_ir (find (\<lambda>r. gw_id r = h) rs))" for rs
    by (induction rs) auto
  have new: "map_option gw_ir (find (\<lambda>r. gw_id r = h) (rs @ [\<lparr>gw_id = g, gw_ir = ir, gw_created = now\<rparr>]))
      = (if h = g \<and> find (\<lambda>r. gw_id r = g) rs = None then Some ir else map_option gw_ir (find (\<lambda>r. gw_id r = h) rs))" for rs
    by (induction rs) auto
  have some: "list_ex (\<lambda>r. gw_id r = g) rs \<longleftrightarrow> find (\<lambda>r. gw_id r = g) rs \<noteq> None" for rs
    by (induction rs) auto
  have gs: "tb_graphs t' = ?gs" using t' by simp
  show "current_ir h t' = (if h = g then Some ir else current_ir h t)"
    unfolding current_ir_def gs by (cases "find (\<lambda>r. gw_id r = g) (tb_graphs t)") (simp_all add: upd new some)
qed

lemma ir_digest_nonempty [simp]: "ir_digest ir \<noteq> []" "[] \<noteq> ir_digest ir"
  by (metis ir_digest_def length_hex_encode length_sha256 list.size(3) mult_is_0 numeral_eq_iff zero_neq_numeral)+

lemma newest_of_history:
  assumes "history_ok t"
  shows "newest g t = (if revisions_by_age g t = [] then ([], 0)
     else (rv_digest (last (revisions_by_age g t)), length (revisions_by_age g t)))"
proof -
  have n: "map rv_n (revisions_by_age g t) = [1..<Suc (length (revisions_by_age g t))]"
    using assms by (auto simp: history_ok_def)
  have o: "revisions_of g t = rev (revisions_by_age g t)" by (rule revisions_newest_first [OF n])
  show ?thesis
  proof (cases "revisions_by_age g t" rule: rev_cases)
    case (snoc rs r)
    have "rv_n r = length (revisions_by_age g t)"
      using n snoc by (simp add: map_eq_append_conv)
    then show ?thesis using o snoc by (auto simp: newest_def split: list.splits)
  qed (simp add: newest_def o)
qed

lemma SaveGraph_history:
  assumes ok: "history_ok t" and save: "SaveGraph io now g ir t = Inr t'"
  shows "history_ok t'"
proof -
  have rev: "tb_revisions t' = tb_revisions t @ new_revision now g ir t"
    and cur: "\<And>h. current_ir h t' = (if h = g then Some ir else current_ir h t)"
    using SaveGraph_Inr [OF save] by auto
  have age: "revisions_by_age h t' = revisions_by_age h t @ (if h = g then new_revision now g ir t else [])" for h
    using rev by (auto simp: revisions_by_age_def new_revision_def)
  note new = newest_of_history [OF ok, of g]
  have "map rv_n (revisions_by_age h t') = [1..<Suc (length (revisions_by_age h t'))]"
    and "current_ir h t' = None \<longleftrightarrow> revisions_by_age h t' = []"
    and "\<forall>x. current_ir h t' = Some x \<longrightarrow> rv_digest (last (revisions_by_age h t')) = ir_digest x" for h
  proof -
    have h: "map rv_n (revisions_by_age h t) = [1..<Suc (length (revisions_by_age h t))]"
      "current_ir h t = None \<longleftrightarrow> revisions_by_age h t = []"
      "\<forall>x. current_ir h t = Some x \<longrightarrow> rv_digest (last (revisions_by_age h t)) = ir_digest x"
      using ok by (auto simp: history_ok_def)
    show "map rv_n (revisions_by_age h t') = [1..<Suc (length (revisions_by_age h t'))]"
      using h(1) new by (auto simp: age new_revision_def)
    show "current_ir h t' = None \<longleftrightarrow> revisions_by_age h t' = []"
      using h(2) new by (auto simp: age cur new_revision_def)
    show "\<forall>x. current_ir h t' = Some x \<longrightarrow> rv_digest (last (revisions_by_age h t')) = ir_digest x"
      using h(3) new by (auto simp: age cur new_revision_def)
  qed
  moreover have "\<forall>r \<in> set (tb_revisions t'). rv_digest r = ir_digest (rv_ir r)"
    using ok by (auto simp: rev new_revision_def history_ok_def)
  ultimately show ?thesis by (simp add: history_ok_def)
qed

lemma registrations_history: "history_ok (registrations cs)"
proof -
  have "history_ok (fold save_or_keep cs t)" if "history_ok t" for t
    using that
  proof (induction cs arbitrary: t)
    case (Cons c cs)
    have "history_ok (save_or_keep c t)"
      using Cons.prems SaveGraph_history by (auto simp: save_or_keep_def split: prod.splits sum.splits)
    then show ?case using Cons.IH by simp
  qed simp
  then show ?thesis using history_ok_empty by (simp add: registrations_def)
qed

lemma SaveGraph_never_clashes:
  assumes "history_ok t"
  shows "SaveGraph io now g ir t \<noteq> Inl DbConstraint"
proof -
  have "\<not> list_ex (\<lambda>r. rv_graph r = g \<and> rv_n r = snd (newest g t) + 1) (tb_revisions t)"
  proof
    assume "list_ex (\<lambda>r. rv_graph r = g \<and> rv_n r = snd (newest g t) + 1) (tb_revisions t)"
    then obtain r where "r \<in> set (revisions_by_age g t)" "rv_n r = snd (newest g t) + 1"
      by (auto simp: list_ex_iff revisions_by_age_def)
    then have "snd (newest g t) + 1 \<in> set (map rv_n (revisions_by_age g t))" by (metis image_eqI set_map)
    moreover have "map rv_n (revisions_by_age g t) = [1..<Suc (length (revisions_by_age g t))]"
      using assms by (auto simp: history_ok_def)
    ultimately show False using newest_of_history [OF assms, of g] by (auto split: if_splits)
  qed
  then show ?thesis
    by (auto simp: SaveGraph_def newest_def Let_def split: list.splits)
qed

lemma find_append_old: "find P xs = Some x \<Longrightarrow> find P (xs @ ys) = Some x"
  by (induction xs) (auto split: if_splits)

lemma registering:
  assumes save: "SaveGraph io now g ir (registrations cs) = r"
  shows "r \<noteq> Inl DbConstraint"
    and "r = Inr t' \<Longrightarrow> LoadGraph False g t' = Inr ir"
    and "r = Inr t' \<Longrightarrow> \<exists>rows n ir'. GraphRevisions False g t' = Inr rows \<and> map fst rows = rev [1..<Suc n]
          \<and> n \<noteq> 0 \<and> fst (snd (hd rows)) = ir_digest ir
          \<and> GraphRevision False g n t' = Inr ir' \<and> (ir' = ir \<or> collision [ir, ir'])"
    and "r = Inr t' \<Longrightarrow> GraphRevision False h m (registrations cs) = Inr x \<Longrightarrow> GraphRevision False h m t' = Inr x"
proof -
  have ok: "history_ok (registrations cs)" by (rule registrations_history)
  show "r \<noteq> Inl DbConstraint" using SaveGraph_never_clashes [OF ok] save by auto
  assume r: "r = Inr t'"
  note S = SaveGraph_Inr [OF save [unfolded r]] and ok' = SaveGraph_history [OF ok save [unfolded r]]
  have cur: "current_ir g t' = Some ir" using S(2) by simp
  then show "LoadGraph False g t' = Inr ir" by (auto simp: LoadGraph_def current_ir_def)
  show "GraphRevision False h m t' = Inr x" if "GraphRevision False h m (registrations cs) = Inr x"
    using that S(1) find_append_old by (fastforce simp: GraphRevision_def split: option.splits)
  define rs where "rs = revisions_by_age g t'"
  have n: "map rv_n rs = [1..<Suc (length rs)]" using ok' by (auto simp: history_ok_def rs_def)
  have ne: "rs \<noteq> []" and dig: "rv_digest (last rs) = ir_digest ir"
    using ok' [unfolded history_ok_def, THEN conjunct1, THEN spec, of g] cur by (auto simp: rs_def)
  have rows: "GraphRevisions False g t' = Inr (map (\<lambda>r. (rv_n r, rv_digest r, rv_created r, sqlite_length (rv_ir r))) (rev rs))"
    using revisions_newest_first [OF n [unfolded rs_def]] by (simp add: GraphRevisions_def rs_def)
  have last: "rv_n (last rs) = length rs"
    using n ne by (metis One_nat_def Suc_le_eq diff_Suc_1 last_map last_upt length_greater_0_conv less_Suc_eq_le list.map_disc_iff)
  have "last rs \<in> set (tb_revisions t')" "rv_graph (last rs) = g"
    using last_in_set [OF ne] by (auto simp: rs_def revisions_by_age_def)
  then obtain q where q: "find (\<lambda>r. rv_graph r = g \<and> rv_n r = length rs) (tb_revisions t') = Some q"
    using last by (cases "find (\<lambda>r. rv_graph r = g \<and> rv_n r = length rs) (tb_revisions t')") (auto simp: find_None_iff)
  then have "q \<in> set rs" "rv_n q = length rs" by (auto simp: find_Some_iff rs_def revisions_by_age_def)
  moreover have "inj_on rv_n (set rs)" using n by (metis distinct_map distinct_upt)
  ultimately have "q = last rs" using last last_in_set [OF ne] by (metis inj_onD)
  moreover have "rv_digest q = ir_digest (rv_ir q)"
    using ok' q by (auto simp: history_ok_def find_Some_iff)
  ultimately have "rv_ir q = ir \<or> collision [ir, rv_ir q]"
    using dig by (auto simp: ir_digest_def collision_def list_ex_iff)
  moreover have "map fst (map (\<lambda>r. (rv_n r, rv_digest r, rv_created r, sqlite_length (rv_ir r))) (rev rs)) = rev [1..<Suc (length rs)]"
    using n by (simp add: comp_def rev_map [symmetric])
  moreover have "fst (snd (hd (map (\<lambda>r. (rv_n r, rv_digest r, rv_created r, sqlite_length (rv_ir r))) (rev rs)))) = ir_digest ir"
    using ne dig by (simp add: hd_map hd_rev)
  ultimately show "\<exists>rows n ir'. GraphRevisions False g t' = Inr rows \<and> map fst rows = rev [1..<Suc n]
          \<and> n \<noteq> 0 \<and> fst (snd (hd rows)) = ir_digest ir
          \<and> GraphRevision False g n t' = Inr ir' \<and> (ir' = ir \<or> collision [ir, ir'])"
    using rows q ne by (intro exI [of _ "map (\<lambda>r. (rv_n r, rv_digest r, rv_created r, sqlite_length (rv_ir r))) (rev rs)"]
      exI [of _ "length rs"] exI [of _ "rv_ir q"]) (auto simp: GraphRevision_def)
qed

text \<open>A registration on a store in which only registrations wrote fails only when the database does. After one that
  succeeds the graph in force is the one registered, the newest revision has its digest and is the one in force
  (or two documents collide under SHA-256), and every revision that could be read still reads the same.\<close>

theorem graph_history_kept:
  assumes "SaveGraph io now g ir (registrations cs) = r"
  shows "r \<noteq> Inl DbConstraint \<and>
    (\<forall>t'. r = Inr t' \<longrightarrow>
       LoadGraph False g t' = Inr ir
     \<and> (\<exists>rows n ir'. GraphRevisions False g t' = Inr rows \<and> map fst rows = rev [1..<Suc n]
          \<and> n \<noteq> 0 \<and> fst (snd (hd rows)) = ir_digest ir
          \<and> GraphRevision False g n t' = Inr ir' \<and> (ir' = ir \<or> collision [ir, ir']))
     \<and> (\<forall>h m x. GraphRevision False h m (registrations cs) = Inr x \<longrightarrow> GraphRevision False h m t' = Inr x))"
  using registering [OF assms] by blast

lemma first_registration:
  "SaveGraph (\<lambda>_. False) now g ir (registrations []) = Inr
     (empty_tables\<lparr>tb_revisions := [\<lparr>rv_graph = g, rv_n = 1, rv_ir = ir, rv_digest = ir_digest ir, rv_created = now\<rparr>],
                   tb_graphs := [\<lparr>gw_id = g, gw_ir = ir, gw_created = now\<rparr>]\<rparr>)"
  by (simp add: SaveGraph_def registrations_def empty_tables_def revisions_of_def)

theorem graph_history_kept_witness:
  "\<exists>t'. SaveGraph (\<lambda>_. False) 7 ''g'' ''{}'' (registrations []) = Inr t' \<and> LoadGraph False ''g'' t' = Inr ''{}''"
  using graph_history_kept [OF first_registration [of 7 "''g''" "''{}''"]] first_registration [of 7 "''g''" "''{}''"] by blast

end
