(* ===== verification/Gateway_Auth.thy ===== *)
theory Gateway_Auth
  imports Store_Tables Registry
begin

text \<open>
  \<^verbatim>\<open>kernel/internal/gateway/auth.go\<close> and \<^verbatim>\<open>scope.go\<close>: who a caller is, which paths need no credential, and
  what a scoped credential reaches; with the routes \<^verbatim>\<open>gateway.go\<close> registers. Of a request the model keeps
  what these files read: method, path, headers and the \<open>token\<close> parameter.
\<close>

record http_request =
  rq_method :: string
  rq_path :: string
  rq_header :: "string \<Rightarrow> string"
  rq_token :: string

section \<open>Scopes\<close>

definition ScopeOperator :: string where "ScopeOperator = ''operator''"
definition ScopeSkill :: string where "ScopeSkill = ''skill''"

definition scope_Valid :: "string \<Rightarrow> bool" where
  "scope_Valid s \<longleftrightarrow> s = ScopeOperator \<or> s = ScopeSkill"

record principal =
  pr_scope :: string
  pr_token_id :: string
  pr_capability :: string
  pr_label :: string

definition nobody :: principal where
  "nobody = \<lparr>pr_scope = [], pr_token_id = [], pr_capability = [], pr_label = []\<rparr>"

definition the_operator :: principal where
  "the_operator = nobody\<lparr>pr_scope := ScopeOperator\<rparr>"

definition IsOperator :: "principal \<Rightarrow> bool" where
  "IsOperator p \<longleftrightarrow> pr_scope p = ScopeOperator"

definition MayRegister :: "principal \<Rightarrow> string \<Rightarrow> bool" where
  "MayRegister p capability \<longleftrightarrow>
     IsOperator p \<or> (pr_scope p = ScopeSkill \<and> pr_capability p \<noteq> [] \<and> pr_capability p = capability)"

record skill_route =
  sr_method :: string
  sr_path :: string
  sr_prefix :: bool

definition skillRoutes :: "skill_route list" where
  "skillRoutes =
     [\<lparr>sr_method = ''GET'', sr_path = ''/ws/skill'', sr_prefix = False\<rparr>,
      \<lparr>sr_method = ''POST'', sr_path = ''/v1/secrets/resolve'', sr_prefix = False\<rparr>,
      \<lparr>sr_method = ''GET'', sr_path = ''/healthz'', sr_prefix = False\<rparr>,
      \<lparr>sr_method = ''GET'', sr_path = ''/v1/skills/config/'', sr_prefix = True\<rparr>]"

fun allowed_by :: "skill_route list \<Rightarrow> string \<Rightarrow> string \<Rightarrow> bool" where
  "allowed_by [] m path = False"
| "allowed_by (r # rs) m path =
     (if sr_method r \<noteq> [] \<and> sr_method r \<noteq> m then allowed_by rs m path
      else if sr_prefix r then (has_prefix path (sr_path r) \<or> allowed_by rs m path)
      else (path = sr_path r \<or> allowed_by rs m path))"

definition Allows :: "principal \<Rightarrow> string \<Rightarrow> string \<Rightarrow> bool" where
  "Allows p m path =
     (if IsOperator p then True else if pr_scope p \<noteq> ScopeSkill then False else allowed_by skillRoutes m path)"

definition HashToken :: "string \<Rightarrow> string" where
  "HashToken token = ''sha256:'' @ hex_encode (sha256 (TrimSpace token))"

section \<open>Routes\<close>

definition gateway_routes :: "bool \<Rightarrow> (string \<times> string) list" where
  "gateway_routes mcp =
     [(''GET'', ''/''), (''GET'', ''/.well-known/agent.json''), (''GET'', ''/openenv/spec''), (''POST'', ''/openenv/reset''),
      (''POST'', ''/openenv/step''), (''GET'', ''/openenv/state''), (''GET'', ''/openenv/bundle'')]
     @ (if mcp then [(''POST'', ''/mcp''), (''GET'', ''/mcp'')] else [])
     @ [(''GET'', ''/healthz''), (''GET'', ''/readyz''), (''GET'', ''/metrics''), (''GET'', ''/v1/approvals''),
      (''POST'', ''/v1/approvals/{id}''), (''GET'', ''/v1/operators''), (''POST'', ''/v1/operators''),
      (''DELETE'', ''/v1/operators/{id}''), (''GET'', ''/v1/secrets''), (''PUT'', ''/v1/secrets''),
      (''DELETE'', ''/v1/secrets/{name}''), (''POST'', ''/v1/secrets/resolve''), (''GET'', ''/v1/skills''),
      (''GET'', ''/v1/skills/config''), (''PUT'', ''/v1/skills/config''), (''GET'', ''/v1/graphs''),
      (''GET'', ''/v1/graphs/{id}''), (''GET'', ''/v1/graphs/{id}/revisions''), (''GET'', ''/v1/graphs/{id}/revisions/{n}''),
      (''POST'', ''/v1/graphs''), (''GET'', ''/v1/sessions''), (''GET'', ''/v1/sessions/{id}''),
      (''GET'', ''/v1/sessions/{id}/events''), (''GET'', ''/v1/sessions/{id}/ledger''), (''GET'', ''/v1/sessions/{id}/bundle''),
      (''POST'', ''/v1/projections''), (''GET'', ''/v1/projections''), (''POST'', ''/v1/projections/{name}/promote''),
      (''POST'', ''/v1/ingress''), (''GET'', ''/v1/ingress''), (''DELETE'', ''/v1/ingress/{name}''), (''GET'', ''/v1/schemas''),
      (''GET'', ''/v1/grammars/{ref...}''), (''GET'', ''/v1/schemas/{ref...}''), (''GET'', ''/v1/ledger''),
      (''GET'', ''/v1/ledger/verify''), (''GET'', ''/v1/ledger/entries/{hash}''), (''GET'', ''/v1/ledger/head''),
      (''GET'', ''/v1/ledger/statement''), (''POST'', ''/v1/ledger/witness''), (''GET'', ''/v1/ledger/witness/last-seen''),
      (''POST'', ''/v1/ledger/witness/record''), (''GET'', ''/v1/witness/head''), (''GET'', ''/v1/witness/log''),
      (''GET'', ''/v1/witness/consistency''), (''GET'', ''/v1/witness/proof/{seq}''), (''GET'', ''/v1/witness/seen''),
      (''POST'', ''/v1/witness/seen''), (''GET'', ''/v1/ledger/receipt/{hash}''), (''GET'', ''/v1/ledger/attestations/{hash}''),
      (''POST'', ''/v1/skills/wasm''), (''POST'', ''/hooks/{name}''), (''GET'', ''/ws/skill''), (''GET'', ''/v1/stream'')]"

definition api_routes :: "bool \<Rightarrow> string list" where
  "api_routes mcp = map snd (gateway_routes mcp)"

fun contains :: "string \<Rightarrow> string \<Rightarrow> bool" where
  "contains [] p = (p = [])"
| "contains (c # s) p = (has_prefix (c # s) p \<or> contains s p)"

definition isUIAsset :: "string \<Rightarrow> string list \<Rightarrow> bool" where
  "isUIAsset p apiRoutes =
     (if p = ''/'' then True
      else if has_prefix p ''/v1/'' \<or> has_prefix p ''/ws/'' \<or> p = ''/mcp'' \<or> p = ''/.well-known/agent.json''
              \<or> has_prefix p ''/openenv/'' \<or> has_prefix p ''/hooks/'' then False
      else if p \<in> set apiRoutes then False
      else (let name = (if has_prefix p ''/'' then drop 1 p else p) in name \<noteq> [] \<and> \<not> contains name ''..''))"

definition publicWitnessLogPath :: "string \<Rightarrow> bool" where
  "publicWitnessLogPath p \<longleftrightarrow>
     p \<in> {''/v1/witness/head'', ''/v1/witness/log'', ''/v1/witness/consistency''} \<or> has_prefix p ''/v1/witness/proof/''"

definition openPath :: "string \<Rightarrow> bool \<Rightarrow> string list \<Rightarrow> bool" where
  "openPath p openWitness apiRoutes \<longleftrightarrow>
     p = ''/healthz'' \<or> p = ''/readyz'' \<or> has_prefix p ''/hooks/'' \<or> isUIAsset p apiRoutes
     \<or> (openWitness \<and> p = ''/v1/ledger/witness'') \<or> (openWitness \<and> p = ''/v1/ledger/witness/last-seen'')
     \<or> (openWitness \<and> publicWitnessLogPath p)"

section \<open>Authentication\<close>

record auth =
  au_token :: string
  au_tokens :: bool
  au_open_witness :: bool
  au_api_routes :: "string list"

definition isWebSocketPath :: "string \<Rightarrow> bool" where
  "isWebSocketPath p \<longleftrightarrow> p = ''/ws/skill'' \<or> p = ''/v1/stream''"

text \<open>No letter of the prefix folds to anything but its other ASCII case.\<close>

definition ascii_lower :: "char \<Rightarrow> char" where
  "ascii_lower c = (if 65 \<le> cn c \<and> cn c \<le> 90 then char_of (cn c + 32) else c)"

definition presentedToken :: "http_request \<Rightarrow> string option" where
  "presentedToken r =
     (let h = rq_header r ''Authorization'' in
      if h \<noteq> [] then
        (if 7 < length h \<and> map ascii_lower (take 7 h) = ''bearer '' then Some (drop 7 h) else None)
      else if isWebSocketPath (rq_path r) \<and> rq_token r \<noteq> [] then Some (rq_token r)
      else None)"

text \<open>\<open>au_tokens\<close>: a resolver is configured; it is the store.\<close>

definition auth_resolve :: "bool \<Rightarrow> tables \<Rightarrow> auth \<Rightarrow> http_request \<Rightarrow> principal option" where
  "auth_resolve fault db a r =
     (case presentedToken r of
        None \<Rightarrow> None
      | Some token \<Rightarrow>
          if token = au_token a then Some the_operator
          else if \<not> au_tokens a then None
          else (case TokenByHash fault (HashToken token) db of
                  Inr (Some row) \<Rightarrow>
                    if (case tk_revoked row of None \<Rightarrow> 0 | Some v \<Rightarrow> v) \<noteq> 0 then None
                    else if \<not> scope_Valid (tk_scope row) then None
                    else Some \<lparr>pr_scope = tk_scope row, pr_token_id = tk_id row,
                                pr_capability = tk_capability row, pr_label = tk_label row\<rparr>
                | _ \<Rightarrow> None))"

datatype auth_outcome = Served principal | Unauthorized | Forbidden

definition Authenticate :: "bool \<Rightarrow> tables \<Rightarrow> auth \<Rightarrow> http_request \<Rightarrow> auth_outcome" where
  "Authenticate fault db a r =
     (if au_token a = [] then Served the_operator
      else if openPath (rq_path r) (au_open_witness a) (au_api_routes a) then
        Served (case auth_resolve fault db a r of None \<Rightarrow> nobody | Some p \<Rightarrow> p)
      else (case auth_resolve fault db a r of
              None \<Rightarrow> Unauthorized
            | Some p \<Rightarrow> if \<not> Allows p (rq_method r) (rq_path r) then Forbidden else Served p))"

definition authenticateWire :: "bool \<Rightarrow> tables \<Rightarrow> auth option \<Rightarrow> http_request \<Rightarrow> principal \<times> bool" where
  "authenticateWire fault db a r =
     (case a of
        None \<Rightarrow> (the_operator, True)
      | Some a \<Rightarrow>
          if au_token a = [] then (the_operator, True)
          else (case auth_resolve fault db a r of
                  None \<Rightarrow> (nobody, False)
                | Some p \<Rightarrow> (p, Allows p ''GET'' ''/ws/skill'')))"

end
