(* ===== verification/Gateway_Properties.thy ===== *)
theory Gateway_Properties
  imports Gateway_Auth
begin

text \<open>
  What a caller reaches: without a credential, with a skill's, with a revoked one. Routes are the patterns the
  gateway registers; a wildcard stands for one segment of a path, or with three dots for what is left of it.
\<close>

fun segments_match :: "string list \<Rightarrow> string list \<Rightarrow> bool" where
  "segments_match [] ss = (ss = [])"
| "segments_match [p] ss =
     (if p = [] then ss \<noteq> []
      else if has_suffix p ''...}'' then ss \<noteq> []
      else if has_prefix p ''{'' then (\<exists>s. ss = [s] \<and> s \<noteq> [])
      else ss = [p])"
| "segments_match (p # ps) ss =
     (case ss of [] \<Rightarrow> False
      | s # r \<Rightarrow> (if has_prefix p ''{'' then s \<noteq> [] else s = p) \<and> segments_match ps r)"

definition pattern_matches :: "string \<Rightarrow> string \<Rightarrow> bool" where
  "pattern_matches pat path \<longleftrightarrow> segments_match (split_on CHR ''/'' pat) (split_on CHR ''/'' path)"

definition always_public :: "string list" where
  "always_public = [''/healthz'', ''/readyz'', ''/hooks/{name}'']"

definition witness_public :: "string list" where
  "witness_public = [''/v1/ledger/witness'', ''/v1/ledger/witness/last-seen'', ''/v1/witness/head'', ''/v1/witness/log'',
     ''/v1/witness/consistency'', ''/v1/witness/proof/{seq}'']"

definition route_public :: "bool \<Rightarrow> string \<Rightarrow> bool" where
  "route_public ow pat \<longleftrightarrow> pat \<in> set always_public \<or> (ow \<and> pat \<in> set witness_public)"

fun join_with :: "char \<Rightarrow> string list \<Rightarrow> string" where
  "join_with d [] = []"
| "join_with d [s] = s"
| "join_with d (s # t # ws) = s @ d # join_with d (t # ws)"

lemma split_on_ne [simp]: "split_on d s \<noteq> []"
  by (induction s) (auto split: list.splits)

lemma join_split: "join_with d (split_on d s) = s"
proof (induction s)
  case (Cons c s)
  obtain w ws where w: "split_on d s = w # ws" by (cases "split_on d s") auto
  then show ?case using Cons by (cases ws) auto
qed simp

lemma split_parts: "w \<in> set (split_on d s) \<Longrightarrow> d \<notin> set w"
  by (induction s arbitrary: w) (auto split: list.splits if_splits)

lemma matching_path:
  assumes "pattern_matches pat path"
  obtains ss where "path = join_with CHR ''/'' ss" "segments_match (split_on CHR ''/'' pat) ss"
    "\<forall>s \<in> set ss. CHR ''/'' \<notin> set s"
  using assms join_split split_parts by (metis pattern_matches_def)

section \<open>The table of routes\<close>

definition opener :: "string \<Rightarrow> string" where
  "opener pat = takeWhile (\<lambda>c. c \<noteq> CHR ''{'') pat"

definition wild :: "string \<Rightarrow> bool" where
  "wild pat \<longleftrightarrow> CHR ''{'' \<in> set pat"

definition pattern_wf :: "string \<Rightarrow> bool" where
  "pattern_wf pat \<longleftrightarrow> last (split_on CHR ''/'' pat) \<noteq> []
     \<and> list_all (\<lambda>p. (wild p \<or> has_suffix p ''...}'') \<longrightarrow> has_prefix p ''{'') (split_on CHR ''/'' pat)"

definition literal :: "string \<Rightarrow> bool" where
  "literal pat \<longleftrightarrow> list_all (\<lambda>p. \<not> wild p \<and> \<not> has_suffix p ''...}'') (split_on CHR ''/'' pat)"

lemma not_wild: "\<not> wild p \<Longrightarrow> \<not> has_prefix p ''{''" "\<not> wild p \<Longrightarrow> opener p = p"
  by (auto simp: wild_def has_prefix_iff opener_def takeWhile_eq_all_conv)

lemma literal_segments:
  "segments_match ps ss \<Longrightarrow> list_all (\<lambda>p. \<not> wild p \<and> \<not> has_suffix p ''...}'') ps \<Longrightarrow> last ps \<noteq> [] \<Longrightarrow> ss = ps"
proof (induction ps ss rule: segments_match.induct)
  case (3 p p' ps ss)
  then show ?case by (cases ss) (auto simp: not_wild split: if_splits)
qed (auto simp: not_wild split: if_splits)

lemma wild_segments:
  "segments_match ps ss \<Longrightarrow> list_all (\<lambda>p. (wild p \<or> has_suffix p ''...}'') \<longrightarrow> has_prefix p ''{'') ps \<Longrightarrow>
   has_prefix (join_with CHR ''/'' ss) (opener (join_with CHR ''/'' ps))"
proof (induction ps ss rule: segments_match.induct)
  case (2 p ss)
  then show ?case
  proof (cases "has_prefix p ''{''")
    case True
    then show ?thesis by (auto simp: opener_def has_prefix_iff)
  next
    case False
    then have p: "\<not> wild p" "\<not> has_suffix p ''...}''" using 2 by auto
    show ?thesis
    proof (cases "p = []")
      case True
      then show ?thesis by (simp add: opener_def has_prefix_iff)
    next
      case ne: False
      then have "ss = [p]" using 2 p False by (simp split: if_splits)
      then show ?thesis using p by (simp add: not_wild has_prefix_iff)
    qed
  qed
next
  case (3 p p' ps ss)
  show ?case
  proof (cases "has_prefix p ''{''")
    case True
    then show ?thesis by (auto simp: opener_def has_prefix_iff)
  next
    case False
    then obtain r where ss: "ss = p # r" "segments_match (p' # ps) r"
      using "3.prems" by (auto split: list.splits)
    then obtain t r' where r: "r = t # r'" by (cases r; cases ps) (auto split: if_splits)
    have "has_prefix (join_with CHR ''/'' r) (opener (join_with CHR ''/'' (p' # ps)))"
      using 3 ss False by auto
    moreover have "CHR ''{'' \<notin> set p" using "3.prems" False by (auto simp: wild_def)
    then have "opener (p @ CHR ''/'' # x) = p @ CHR ''/'' # opener x" for x
      by (auto simp: opener_def takeWhile_append)
    ultimately show ?thesis using ss r by (auto simp: has_prefix_iff)
  qed
qed (simp add: opener_def has_prefix_iff)

lemma literal_pattern:
  assumes "pattern_matches pat path" "pattern_wf pat" "literal pat"
  shows "path = pat"
proof -
  have "split_on CHR ''/'' path = split_on CHR ''/'' pat"
    using assms literal_segments unfolding pattern_matches_def pattern_wf_def literal_def by blast
  then show ?thesis by (metis join_split)
qed

lemma wild_pattern:
  assumes "pattern_matches pat path" "pattern_wf pat"
  shows "has_prefix path (opener pat)"
  using wild_segments [of "split_on CHR ''/'' pat" "split_on CHR ''/'' path"] assms
  by (simp add: join_split pattern_matches_def pattern_wf_def)

text \<open>What is checked of each pattern: literal ones are looked up, wildcards are told apart by their opening.\<close>

definition apart :: "string \<Rightarrow> string \<Rightarrow> bool" where
  "apart o1 o2 \<longleftrightarrow> \<not> has_prefix o1 o2 \<and> \<not> has_prefix o2 o1"

lemma apart_prefix: "apart p q \<Longrightarrow> has_prefix path p \<Longrightarrow> \<not> has_prefix path q"
  by (auto simp: apart_def has_prefix_iff append_eq_append_conv2)

definition closed_opening :: "string \<Rightarrow> bool" where
  "closed_opening p \<longleftrightarrow> has_prefix p ''/v1/''
     \<and> list_all (apart p) [''/healthz'', ''/readyz'', ''/hooks/'', ''/v1/ledger/witness'', ''/v1/witness/head'',
          ''/v1/witness/log'', ''/v1/witness/consistency'', ''/v1/witness/proof/'']"

definition skill_reaches :: "string \<Rightarrow> string \<Rightarrow> bool" where
  "skill_reaches m pat \<longleftrightarrow> (m, pat) \<in> {(''GET'', ''/ws/skill''), (''POST'', ''/v1/secrets/resolve''), (''GET'', ''/healthz'')}"

definition no_skill_opening :: "string \<Rightarrow> string \<Rightarrow> bool" where
  "no_skill_opening m p \<longleftrightarrow>
     list_all (\<lambda>r. (sr_method r \<noteq> [] \<and> sr_method r \<noteq> m) \<or> apart p (sr_path r)) skillRoutes"

definition route_checked :: "bool \<Rightarrow> string \<times> string \<Rightarrow> bool" where
  "route_checked mcp r \<longleftrightarrow> (case r of (m, pat) \<Rightarrow>
     pat = ''/'' \<or> (pattern_wf pat
       \<and> (literal pat \<longrightarrow> list_all (\<lambda>ow. openPath pat ow (api_routes mcp) = route_public ow pat) [True, False]
             \<and> allowed_by skillRoutes m pat = skill_reaches m pat)
       \<and> (\<not> literal pat \<longrightarrow> no_skill_opening m (opener pat) \<and> \<not> skill_reaches m pat
             \<and> (pat \<in> {''/hooks/{name}'', ''/v1/witness/proof/{seq}''}
                \<or> (closed_opening (opener pat) \<and> \<not> route_public True pat)))))"

lemma routes_checked: "list_all (\<lambda>mcp. list_all (route_checked mcp) (gateway_routes mcp)) [True, False]"
  by code_simp

lemma route_checked:
  assumes "(m, pat) \<in> set (gateway_routes mcp)"
  shows "route_checked mcp (m, pat)"
  using assms routes_checked by (cases mcp) (auto simp: list_all_iff)

lemma v1_no_asset: "has_prefix path ''/v1/'' \<Longrightarrow> \<not> isUIAsset path routes"
  by (auto simp: isUIAsset_def has_prefix_iff)

lemma closed_opening_closed:
  assumes "closed_opening p" "has_prefix path p"
  shows "\<not> openPath path ow routes"
proof -
  have v1: "has_prefix path ''/v1/''" using assms by (auto simp: closed_opening_def has_prefix_iff)
  have no: "\<not> has_prefix path q" if "apart p q" for q using that assms(2) by (rule apart_prefix)
  have q: "\<not> has_prefix path q" if "q \<in> set [''/healthz'', ''/readyz'', ''/hooks/'', ''/v1/ledger/witness'', ''/v1/witness/head'',
          ''/v1/witness/log'', ''/v1/witness/consistency'', ''/v1/witness/proof/'']" for q
    using assms(1) that no by (auto simp: closed_opening_def)
  have self: "has_prefix (x @ y) x" for x y :: string by (auto simp: has_prefix_iff)
  have "path \<noteq> ''/healthz''" "path \<noteq> ''/readyz''" "path \<noteq> ''/v1/ledger/witness''" "path \<noteq> ''/v1/witness/head''"
    "path \<noteq> ''/v1/witness/log''" "path \<noteq> ''/v1/witness/consistency''" "path \<noteq> ''/v1/ledger/witness'' @ ''/last-seen''"
    using q self self [of _ "[]", simplified] by (metis list.set_intros)+
  moreover have "\<not> isUIAsset path routes" using v1 by (rule v1_no_asset)
  ultimately show ?thesis using q by (auto simp: openPath_def publicWitnessLogPath_def)
qed

lemma open_route:
  assumes "(m, pat) \<in> set (gateway_routes mcp)" "pat \<noteq> ''/''" "pattern_matches pat path"
  shows "openPath path ow (api_routes mcp) = route_public ow pat"
proof -
  note R = route_checked [OF assms(1), unfolded route_checked_def prod.case]
  have wf: "pattern_wf pat" using R assms(2) by blast
  show ?thesis
  proof (cases "literal pat")
    case True
    then have "path = pat" using literal_pattern assms(3) wf by blast
    then show ?thesis using R assms(2) True by (cases ow) auto
  next
    case False
    have pre: "has_prefix path (opener pat)" using wild_pattern assms(3) wf by blast
    have "pat \<in> {''/hooks/{name}'', ''/v1/witness/proof/{seq}''} \<or> (closed_opening (opener pat) \<and> \<not> route_public True pat)"
      using R assms(2) False by blast
    then consider "pat = ''/hooks/{name}''" | "pat = ''/v1/witness/proof/{seq}''" | "closed_opening (opener pat)" "\<not> route_public True pat"
      by blast
    then show ?thesis
    proof cases
      case 1
      then have "has_prefix path ''/hooks/''" using pre by (simp add: opener_def)
      then show ?thesis using 1 by (simp add: openPath_def route_public_def always_public_def)
    next
      case 2
      then have p: "has_prefix path ''/v1/witness/proof/''" using pre by (simp add: opener_def)
      then have "has_prefix path ''/v1/''" by (auto simp: has_prefix_iff)
      then have "\<not> isUIAsset path (api_routes mcp)" by (rule v1_no_asset)
      moreover have "path \<noteq> ''/healthz''" "path \<noteq> ''/readyz''" "\<not> has_prefix path ''/hooks/''"
        "path \<noteq> ''/v1/ledger/witness''" "path \<noteq> ''/v1/ledger/witness/last-seen''"
        using p apart_prefix [of "''/v1/witness/proof/''" "''/hooks/''" path] by (auto simp: has_prefix_def apart_def)
      ultimately show ?thesis using 2 p
        by (simp add: openPath_def route_public_def always_public_def witness_public_def publicWitnessLogPath_def)
    next
      case 3
      have "\<not> route_public ow pat" using 3(2) by (auto simp: route_public_def)
      then show ?thesis using closed_opening_closed [OF 3(1) pre] by simp
    qed
  qed
qed

lemma skill_route:
  assumes "(m, pat) \<in> set (gateway_routes mcp)" "pat \<noteq> ''/''" "pattern_matches pat path"
  shows "allowed_by skillRoutes m path = skill_reaches m pat"
proof -
  note R = route_checked [OF assms(1), unfolded route_checked_def prod.case]
  have wf: "pattern_wf pat" using R assms(2) by blast
  show ?thesis
  proof (cases "literal pat")
    case True
    then show ?thesis using R assms(2) literal_pattern [OF assms(3) wf] by blast
  next
    case False
    have pre: "has_prefix path (opener pat)" using wild_pattern assms(3) wf by blast
    have no: "no_skill_opening m (opener pat)" "\<not> skill_reaches m pat" using R assms(2) False by blast+
    have "\<not> allowed_by rs m path" if "list_all (\<lambda>r. (sr_method r \<noteq> [] \<and> sr_method r \<noteq> m) \<or> apart (opener pat) (sr_path r)) rs" for rs
      using that
    proof (induction rs)
      case (Cons r rs)
      have "\<not> has_prefix path (sr_path r)" if "apart (opener pat) (sr_path r)" using apart_prefix that pre by blast
      then show ?case using Cons by (auto simp: has_prefix_iff)
    qed simp
    then show ?thesis using no by (simp add: no_skill_opening_def)
  qed
qed

text \<open>C33: On a node that has a token, and on every route the gateway registers but the pages of the UI at
  \<^verbatim>\<open>GET /\<close>, whatever the wildcards of the route stand for, a caller without a valid credential
  is served exactly where the route is public (liveness, readiness, the inbound hooks, and the witness's own
  pages when it was opened to strangers), and then as nobody; the operator is served everywhere; a skill's
  credential is served on the public routes, its socket and the exchange of a receipt for secrets, and refused
  on all others, the route of its own configuration among them.\<close>

theorem credential_reaches:
  assumes "(rq_method r, pat) \<in> set (gateway_routes mcp)" "pat \<noteq> ''/''" "pattern_matches pat (rq_path r)"
    and "au_token a \<noteq> []" "au_api_routes a = api_routes mcp"
  shows "Authenticate fault db a r =
    (case auth_resolve fault db a r of
       None \<Rightarrow> if route_public (au_open_witness a) pat then Served nobody else Unauthorized
     | Some p \<Rightarrow>
         if route_public (au_open_witness a) pat \<or> pr_scope p = ScopeOperator
            \<or> (pr_scope p = ScopeSkill \<and> skill_reaches (rq_method r) pat)
         then Served p else Forbidden)"
  using open_route [OF assms(1-3)] skill_route [OF assms(1-3)] assms(4,5)
  by (auto simp: Authenticate_def Allows_def IsOperator_def ScopeOperator_def ScopeSkill_def split: option.splits)

definition toy_request :: http_request where
  "toy_request = \<lparr>rq_method = ''GET'', rq_path = ''/v1/graphs/erp/revisions/3'', rq_header = (\<lambda>_. []), rq_token = ''t''\<rparr>"

definition toy_auth :: auth where
  "toy_auth = \<lparr>au_token = ''secret'', au_tokens = True, au_open_witness = True, au_api_routes = api_routes True\<rparr>"

lemma toy_route:
  "(rq_method toy_request, ''/v1/graphs/{id}/revisions/{n}'') \<in> set (gateway_routes True)"
  "pattern_matches ''/v1/graphs/{id}/revisions/{n}'' (rq_path toy_request)"
  by (simp_all add: toy_request_def gateway_routes_def pattern_matches_def has_prefix_def has_suffix_def)

theorem credential_reaches_witness:
  "Authenticate False empty_tables toy_auth toy_request = Unauthorized"
  using credential_reaches [OF toy_route(1) _ toy_route(2), of toy_auth False empty_tables]
  by (simp add: toy_auth_def auth_resolve_def presentedToken_def isWebSocketPath_def toy_request_def
      route_public_def always_public_def witness_public_def)

section \<open>Tokens\<close>

text \<open>What happens to the table of tokens: issues and revocations, at times that are not the epoch, that may fail.\<close>

datatype token_op = Issue bool token_row string | Revoke bool string int

fun token_step :: "token_op \<Rightarrow> tables \<Rightarrow> tables" where
  "token_step (Issue fault row h) t = (case SaveToken fault row h t of Inl _ \<Rightarrow> t | Inr t' \<Rightarrow> t')"
| "token_step (Revoke fault i ts) t = (case RevokeToken fault i ts t of Inl _ \<Rightarrow> t | Inr (t', _) \<Rightarrow> t')"

definition timely :: "token_op \<Rightarrow> bool" where
  "timely op = (case op of Issue _ _ _ \<Rightarrow> True | Revoke _ _ ts \<Rightarrow> ts \<noteq> 0)"

definition tokens_ok :: "tables \<Rightarrow> bool" where
  "tokens_ok t \<longleftrightarrow> distinct (map tk_id (tb_tokens t)) \<and> (\<forall>r \<in> set (tb_tokens t). tk_revoked r \<noteq> Some 0)"

definition revoked :: "string \<Rightarrow> tables \<Rightarrow> bool" where
  "revoked i t \<longleftrightarrow> (\<exists>r \<in> set (tb_tokens t). tk_id r = i \<and> tk_revoked r \<noteq> None)"

lemma mark_ids: "map tk_id (map (\<lambda>r. if P r then r\<lparr>tk_revoked := x\<rparr> else r) rs) = map tk_id rs"
  by (induction rs) auto

lemma token_step_ok: "tokens_ok t \<Longrightarrow> timely op \<Longrightarrow> tokens_ok (token_step op t)"
  by (cases op) (auto simp: tokens_ok_def SaveToken_def RevokeToken_def list_ex_iff timely_def mark_ids simp del: map_map)

lemma token_step_revoked: "revoked i t \<Longrightarrow> revoked i (token_step op t)"
  by (cases op) (auto simp: revoked_def SaveToken_def RevokeToken_def intro!: bexI)

lemma token_ops_keep:
  "tokens_ok t \<Longrightarrow> revoked i t \<Longrightarrow> list_all timely ops \<Longrightarrow> tokens_ok (fold token_step ops t) \<and> revoked i (fold token_step ops t)"
  by (induction ops arbitrary: t) (auto simp: token_step_ok token_step_revoked)

lemma revoked_not_resolved:
  assumes "tokens_ok t" "revoked i t" "i \<noteq> []" "auth_resolve fault t a r = Some p"
  shows "pr_token_id p \<noteq> i"
proof
  assume i: "pr_token_id p = i"
  then obtain tok row where row: "find (\<lambda>r. tk_hash r = HashToken tok) (tb_tokens t) = Some row" "tk_id row = i"
      "(case tk_revoked row of None \<Rightarrow> 0 | Some v \<Rightarrow> v) = 0"
    using assms(3,4) by (auto simp: auth_resolve_def TokenByHash_def the_operator_def nobody_def
      split: option.splits if_splits sum.splits)
  then have m: "row \<in> set (tb_tokens t)" by (auto simp: find_Some_iff)
  obtain q where "q \<in> set (tb_tokens t)" "tk_id q = i" "tk_revoked q \<noteq> None"
    using assms(2) by (auto simp: revoked_def)
  then have "q = row" using m row(2) assms(1) by (auto simp: tokens_ok_def distinct_map dest: inj_onD)
  then show False using row(3) \<open>tk_revoked q \<noteq> None\<close> m assms(1) by (auto simp: tokens_ok_def split: option.splits)
qed

lemma revoke_revokes:
  assumes "row \<in> set (tb_tokens t)" "tk_id row = i"
  shows "revoked i (token_step (Revoke False i ts) t)"
proof -
  let ?f = "\<lambda>r. if tk_id r = i \<and> tk_revoked r = None then r\<lparr>tk_revoked := Some ts\<rparr> else r"
  have "?f row \<in> set (map ?f (tb_tokens t))" using assms(1) by simp
  then have "\<exists>r \<in> set (map ?f (tb_tokens t)). tk_id r = i \<and> tk_revoked r \<noteq> None"
    by (rule rev_bexI) (use assms(2) in auto)
  moreover have "tb_tokens (token_step (Revoke False i ts) t) = map ?f (tb_tokens t)" by (simp add: RevokeToken_def)
  ultimately show ?thesis unfolding revoked_def by simp
qed

text \<open>C34: Once an issued token is revoked no request is ever again made in its name, whatever is issued or revoked
  afterwards; and a request made in the name of any token has the scope and the capability it was issued with,
  so what it may register is that capability alone unless it was issued as an operator's.\<close>

theorem revoked_token_is_dead:
  assumes "t = fold token_step before empty_tables" "row \<in> set (tb_tokens t)" "tk_id row \<noteq> []"
    and "t' = fold token_step after (token_step (Revoke False (tk_id row) ts) t)"
    and "list_all timely before" "list_all timely after" "ts \<noteq> 0"
    and "auth_resolve fault t' a r = Some p"
  shows "pr_token_id p \<noteq> tk_id row
    \<and> (\<not> IsOperator p \<longrightarrow> (\<exists>q \<in> set (tb_tokens t'). tk_id q = pr_token_id p \<and> tk_revoked q = None
          \<and> (\<forall>c. MayRegister p c \<longleftrightarrow> c \<noteq> [] \<and> c = tk_capability q)))"
proof -
  have e: "tokens_ok empty_tables" by (simp add: tokens_ok_def empty_tables_def)
  have ok: "tokens_ok (fold token_step ops u)" if "tokens_ok u" "list_all timely ops" for ops u
    using that by (induction ops arbitrary: u) (auto simp: token_step_ok)
  let ?u = "token_step (Revoke False (tk_id row) ts) t"
  have "tokens_ok t" using ok [OF e assms(5)] assms(1) by simp
  then have "tokens_ok ?u" by (rule token_step_ok) (simp add: timely_def assms(7))
  moreover have "revoked (tk_id row) ?u" by (rule revoke_revokes [OF assms(2) refl])
  ultimately have t': "tokens_ok t'" "revoked (tk_id row) t'" using token_ops_keep assms(4,6) by blast+
  have "pr_token_id p \<noteq> tk_id row" by (rule revoked_not_resolved [OF t' assms(3,8)])
  moreover have "\<exists>q \<in> set (tb_tokens t'). tk_id q = pr_token_id p \<and> tk_revoked q = None
          \<and> (\<forall>c. MayRegister p c \<longleftrightarrow> c \<noteq> [] \<and> c = tk_capability q)" if no: "\<not> IsOperator p"
  proof -
    obtain tok q where q: "find (\<lambda>r. tk_hash r = HashToken tok) (tb_tokens t') = Some q"
        "(case tk_revoked q of None \<Rightarrow> 0 | Some v \<Rightarrow> v) = 0" "scope_Valid (tk_scope q)"
        "p = \<lparr>pr_scope = tk_scope q, pr_token_id = tk_id q, pr_capability = tk_capability q, pr_label = tk_label q\<rparr>"
      using assms(8) no by (auto simp: auth_resolve_def TokenByHash_def the_operator_def nobody_def IsOperator_def
        split: option.splits if_splits sum.splits)
    have m: "q \<in> set (tb_tokens t')" using q(1) by (auto simp: find_Some_iff)
    moreover have "tk_revoked q = None" using q(2) m t'(1) by (auto simp: tokens_ok_def split: option.splits)
    ultimately show ?thesis using q(3,4) no by (auto simp: MayRegister_def IsOperator_def scope_Valid_def)
  qed
  ultimately show ?thesis by blast
qed

definition toy_token :: "string \<Rightarrow> token_row" where
  "toy_token i = \<lparr>tk_id = i, tk_hash = [], tk_scope = ScopeSkill, tk_capability = ''motor.erp.post'', tk_label = [],
     tk_created = 1, tk_revoked = None\<rparr>"

definition toy_issues :: "token_op list" where
  "toy_issues = [Issue False (toy_token ''a'') ''old'', Issue False (toy_token ''b'') (HashToken ''t'')]"

definition toy_socket :: http_request where
  "toy_socket = \<lparr>rq_method = ''GET'', rq_path = ''/ws/skill'', rq_header = (\<lambda>_. []), rq_token = ''t''\<rparr>"

lemma toy_tokens:
  "tb_tokens (fold token_step toy_issues empty_tables)
     = [toy_token ''a''\<lparr>tk_hash := ''old''\<rparr>, toy_token ''b''\<lparr>tk_hash := HashToken ''t''\<rparr>]"
  by (simp add: toy_issues_def SaveToken_def empty_tables_def toy_token_def HashToken_def)

lemma toy_skill_resolved:
  "auth_resolve False (token_step (Revoke False ''a'' 5) (fold token_step toy_issues empty_tables)) toy_auth toy_socket
     = Some \<lparr>pr_scope = ScopeSkill, pr_token_id = ''b'', pr_capability = ''motor.erp.post'', pr_label = []\<rparr>"
proof -
  have "HashToken ''t'' \<noteq> ''old''" by (simp add: HashToken_def)
  then show ?thesis
    by (simp add: auth_resolve_def presentedToken_def toy_socket_def isWebSocketPath_def toy_auth_def TokenByHash_def
        RevokeToken_def toy_tokens) (simp add: toy_token_def scope_Valid_def)
qed

theorem revoked_token_is_dead_witness:
  "\<exists>p. auth_resolve False (token_step (Revoke False ''a'' 5) (fold token_step toy_issues empty_tables)) toy_auth toy_socket = Some p
     \<and> pr_token_id p \<noteq> ''a'' \<and> \<not> MayRegister p ''motor.erp.pay''"
proof -
  let ?p = "\<lparr>pr_scope = ScopeSkill, pr_token_id = ''b'', pr_capability = ''motor.erp.post'', pr_label = []\<rparr>"
  have "pr_token_id ?p \<noteq> tk_id (toy_token ''a''\<lparr>tk_hash := ''old''\<rparr>)"
    using revoked_token_is_dead [OF refl, of "toy_token ''a''\<lparr>tk_hash := ''old''\<rparr>" toy_issues _ "[]" 5 False toy_auth toy_socket ?p]
      toy_skill_resolved by (simp add: toy_tokens toy_token_def timely_def toy_issues_def)
  then show ?thesis using toy_skill_resolved by (auto simp: MayRegister_def IsOperator_def ScopeSkill_def ScopeOperator_def toy_token_def)
qed

end
