(* ===== verification/Broker.thy ===== *)
theory Broker
  imports Session Gateway_Auth
begin

text \<open>
  \<^verbatim>\<open>kernel/internal/broker/broker.go\<close>: the node's secrets, sealed under a key derived from its signing key, and
  released against the receipt of an effect; with the routes of \<^verbatim>\<open>gateway/operators.go\<close> over them. AES-GCM is
  a parameter, like Ed25519: \<open>ae_seal key nonce plain ad\<close> and \<open>ae_open key nonce body ad\<close>.
\<close>

record aead =
  ae_seal :: "bytes \<Rightarrow> bytes \<Rightarrow> bytes \<Rightarrow> bytes \<Rightarrow> bytes"
  ae_open :: "bytes \<Rightarrow> bytes \<Rightarrow> bytes \<Rightarrow> bytes \<Rightarrow> bytes option"

definition NonceSize :: nat where "NonceSize = 12"

definition aead_correct :: "aead \<Rightarrow> bool" where
  "aead_correct ae \<longleftrightarrow> (\<forall>k n p ad. ae_open ae k n (ae_seal ae k n p ad) ad = Some p)"

text \<open>In nanoseconds.\<close>

definition ReceiptTTL :: int where "ReceiptTTL = 90 * 1000000000"
definition maxUses :: nat where "maxUses = 3"

section \<open>References\<close>

definition name_char :: "char \<Rightarrow> bool" where
  "name_char c \<longleftrightarrow> (CHR ''A'' \<le> c \<and> c \<le> CHR ''Z'') \<or> (CHR ''a'' \<le> c \<and> c \<le> CHR ''z'') \<or> (CHR ''0'' \<le> c \<and> c \<le> CHR ''9'')
     \<or> c = CHR ''_'' \<or> c = CHR ''.'' \<or> c = CHR ''-''"

text \<open>A match at the beginning of a text: the name in it and what follows.\<close>

definition match_ref :: "string \<Rightarrow> (string \<times> string) option" where
  "match_ref s =
     (if has_prefix s ''${secret:'' then
        (let r = drop 9 s; name = takeWhile name_char r; r = dropWhile name_char r in
         if name \<noteq> [] \<and> has_prefix r ''}'' then Some (name, drop 1 r) else None)
      else None)"

lemma match_ref_shorter: "match_ref (c # s) = Some (n, r) \<Longrightarrow> length r < Suc (length s)"
proof -
  assume m: "match_ref (c # s) = Some (n, r)"
  have "length (dropWhile name_char (drop 9 (c # s))) \<le> length s"
    using length_dropWhile_le [of name_char "drop 9 (c # s)"] by simp
  then show ?thesis using m by (auto simp: match_ref_def Let_def split: if_splits)
qed

text \<open>The matches of a text and what stands between them.\<close>

function ref_parts :: "string \<Rightarrow> (char + string) list" where
  "ref_parts [] = []"
| "ref_parts (c # s) =
     (case match_ref (c # s) of
        Some (n, r) \<Rightarrow> Inr n # ref_parts r
      | None \<Rightarrow> Inl c # ref_parts s)"
  by pat_completeness auto
termination by (relation "measure length") (auto simp: match_ref_shorter)

definition secret_names :: "string \<Rightarrow> string list" where
  "secret_names v = concat (map (\<lambda>p. case p of Inl _ \<Rightarrow> [] | Inr n \<Rightarrow> [n]) (ref_parts v))"

definition substitute :: "(string \<times> string) list \<Rightarrow> string \<Rightarrow> string" where
  "substitute values v =
     concat (map (\<lambda>p. case p of Inl c \<Rightarrow> [c] | Inr n \<Rightarrow> (case al_get values n of None \<Rightarrow> [] | Some x \<Rightarrow> x)) (ref_parts v))"

definition SecretRef_MatchString :: "string \<Rightarrow> bool" where
  "SecretRef_MatchString v \<longleftrightarrow> secret_names v \<noteq> []"

definition NeedsSecret :: "(string \<times> string) list \<Rightarrow> bool" where
  "NeedsSecret xs \<longleftrightarrow> list_ex (\<lambda>(_, v). SecretRef_MatchString v) xs"

section \<open>The box\<close>

record broker =
  bk_key :: bytes
  bk_used :: "(string \<times> nat) list"

definition deriveBox :: "keypair \<Rightarrow> bytes" where
  "deriveBox k = sha256 (''aura-secret-box-v1:'' @ kp_private k)"

definition broker_Open :: "keypair option \<Rightarrow> broker option" where
  "broker_Open keys = map_option (\<lambda>k. \<lparr>bk_key = deriveBox k, bk_used = []\<rparr>) keys"

text \<open>\<open>nonce\<close>: what the random source gives, \<open>None\<close> when it fails.\<close>

definition seal_text :: "aead \<Rightarrow> bytes \<Rightarrow> bytes \<Rightarrow> bytes \<Rightarrow> string \<Rightarrow> string" where
  "seal_text ae key nonce plain name = b64_encode (nonce @ ae_seal ae key nonce plain name)"

definition open_text :: "aead \<Rightarrow> bytes \<Rightarrow> string \<Rightarrow> string \<Rightarrow> bytes option" where
  "open_text ae key ciphertext name =
     (case b64_decode ciphertext of
        None \<Rightarrow> None
      | Some raw \<Rightarrow>
          if length raw < NonceSize then None
          else ae_open ae key (take NonceSize raw) (drop NonceSize raw) name)"

datatype broker_error =
    NoName | BadName | NoNonce | Unsaved db_error | Unread db_error | Unset string | Undecrypted string
  | NoReceipt | NoNames | NoEffect | Unreadable | NotDelivered | Waived | WrongCapability | Expired | Spent
  | NoIncoming | Unrotated succession_error

definition broker_Set ::
  "aead \<Rightarrow> bool \<Rightarrow> bytes option \<Rightarrow> int \<Rightarrow> string \<Rightarrow> bytes \<Rightarrow> broker \<Rightarrow> ledger_db \<Rightarrow> broker_error + ledger_db" where
  "broker_Set ae fault nonce now name v b db =
     (let name = TrimSpace name in
      if name = [] then Inl NoName
      else if \<not> SecretRef_MatchString (''${secret:'' @ name @ ''}'') then Inl BadName
      else (case nonce of
              None \<Rightarrow> Inl NoNonce
            | Some nonce \<Rightarrow>
                (case SaveSecret fault name (seal_text ae (bk_key b) nonce v name) (unix_milli now) db of
                   Inl e \<Rightarrow> Inl (Unsaved e) | Inr db \<Rightarrow> Inr db)))"

definition Has :: "bool \<Rightarrow> string \<Rightarrow> ledger_db \<Rightarrow> bool" where
  "Has fault name db \<longleftrightarrow> (case Secret fault name db of Inr (Some _) \<Rightarrow> True | _ \<Rightarrow> False)"

definition decrypt :: "aead \<Rightarrow> bool \<Rightarrow> string \<Rightarrow> broker \<Rightarrow> ledger_db \<Rightarrow> broker_error + bytes" where
  "decrypt ae fault name b db =
     (case Secret fault name db of
        Inl e \<Rightarrow> Inl (Unread e)
      | Inr None \<Rightarrow> Inl (Unset name)
      | Inr (Some ct) \<Rightarrow> (case open_text ae (bk_key b) ct name of None \<Rightarrow> Inl (Undecrypted name) | Some p \<Rightarrow> Inr p))"

section \<open>Rotation\<close>

text \<open>\<open>nonces name\<close>: the nonce drawn for that secret.\<close>

definition rekey_secret :: "aead \<Rightarrow> bytes \<Rightarrow> bytes \<Rightarrow> (string \<Rightarrow> bytes option) \<Rightarrow> string \<Rightarrow> string \<Rightarrow> string option" where
  "rekey_secret ae current upcoming nonces name ciphertext =
     (case open_text ae current ciphertext name of
        None \<Rightarrow> None
      | Some plain \<Rightarrow>
          (case nonces name of None \<Rightarrow> None | Some nonce \<Rightarrow> Some (seal_text ae upcoming nonce plain name)))"

definition Rekey ::
  "aead \<Rightarrow> (nat \<Rightarrow> bool) \<Rightarrow> (string \<Rightarrow> bytes option) \<Rightarrow> succession_row \<Rightarrow> keypair option \<Rightarrow> broker \<Rightarrow> ledger_db
   \<Rightarrow> broker \<times> ledger_db \<times> (broker_error + nat)" where
  "Rekey ae io nonces rec incoming b db =
     (case incoming of
        None \<Rightarrow> (b, db, Inl NoIncoming)
      | Some k \<Rightarrow>
          (case CommitSuccession io rec (rekey_secret ae (bk_key b) (deriveBox k) nonces) db of
             (db, Inl e) \<Rightarrow> (b, db, Inl (Unrotated e))
           | (db, Inr n) \<Rightarrow> (b\<lparr>bk_key := deriveBox k\<rparr>, db, Inr n)))"

section \<open>Redeeming a receipt\<close>

record grant =
  gt_values :: "(string \<times> bytes) list"
  gt_capability :: string
  gt_seq :: nat

text \<open>Whether the entry a receipt names may buy anything; \<open>now\<close> in nanoseconds.\<close>

definition check_receipt :: "int \<Rightarrow> string \<Rightarrow> entry \<Rightarrow> broker_error option" where
  "check_receipt now capability e =
     (if en_outcome e \<noteq> OutcomeDelivered then Some NotDelivered
      else if en_waived e then Some Waived
      else if capability \<noteq> [] \<and> en_capability e \<noteq> capability then Some WrongCapability
      else if now - en_ts e * 1000000 > ReceiptTTL then Some Expired
      else None)"

definition uses :: "string \<Rightarrow> broker \<Rightarrow> nat" where
  "uses receipt b = (case al_get (bk_used b) receipt of None \<Rightarrow> 0 | Some n \<Rightarrow> n)"

definition sweepLocked :: "broker \<Rightarrow> broker" where
  "sweepLocked b = b\<lparr>bk_used := []\<rparr>"

definition spend :: "string \<Rightarrow> broker \<Rightarrow> broker option" where
  "spend receipt b =
     (let n = uses receipt b in
      if maxUses \<le> n then None
      else (let b = b\<lparr>bk_used := al_put receipt (n + 1) (bk_used b)\<rparr> in
            Some (if 4096 < length (bk_used b) then sweepLocked b else b)))"

fun decrypt_all ::
  "aead \<Rightarrow> (nat \<Rightarrow> bool) \<Rightarrow> nat \<Rightarrow> string list \<Rightarrow> broker \<Rightarrow> ledger_db \<Rightarrow> (string \<times> bytes) list \<Rightarrow> broker_error + (string \<times> bytes) list" where
  "decrypt_all ae io k [] b db values = Inr values"
| "decrypt_all ae io k (n # ns) b db values =
     (case decrypt ae (io k) n b db of
        Inl e \<Rightarrow> Inl e
      | Inr v \<Rightarrow> decrypt_all ae io (k + 1) ns b db (al_put n v values))"

definition broker_Resolve ::
  "aead \<Rightarrow> (nat \<Rightarrow> bool) \<Rightarrow> int \<Rightarrow> string \<Rightarrow> string \<Rightarrow> string list \<Rightarrow> ledger_db \<Rightarrow> broker \<Rightarrow> broker \<times> (broker_error + grant)" where
  "broker_Resolve ae io now receipt capability names db b =
     (if receipt = [] then (b, Inl NoReceipt)
      else if names = [] then (b, Inl NoNames)
      else (case LedgerEntryByHash (io 0) receipt db of
              Inl _ \<Rightarrow> (b, Inl NoEffect)
            | Inr raw \<Rightarrow>
                if raw = [] then (b, Inl NoEffect)
                else (case Unmarshal_Entry raw of
                        None \<Rightarrow> (b, Inl Unreadable)
                      | Some e \<Rightarrow>
                          (case check_receipt now capability e of
                             Some err \<Rightarrow> (b, Inl err)
                           | None \<Rightarrow>
                               (case spend receipt b of
                                  None \<Rightarrow> (b, Inl Spent)
                                | Some b \<Rightarrow>
                                    (case decrypt_all ae io 1 names b db [] of
                                       Inl err \<Rightarrow> (b, Inl err)
                                     | Inr values \<Rightarrow>
                                         (b, Inr \<lparr>gt_values = values, gt_capability = en_capability e, gt_seq = en_seq e\<rparr>)))))))"

text \<open>The strings of a map, in the order the range over it takes.\<close>

definition ResolveIn ::
  "aead \<Rightarrow> (nat \<Rightarrow> bool) \<Rightarrow> int \<Rightarrow> string \<Rightarrow> string \<Rightarrow> (string \<times> string) list \<Rightarrow> ledger_db \<Rightarrow> broker
   \<Rightarrow> broker \<times> (broker_error + (string \<times> string) list)" where
  "ResolveIn ae io now receipt capability xs db b =
     (let names = rev (remdups (rev (concat (map (\<lambda>(_, v). secret_names v) xs)))) in
      if names = [] then (b, Inr xs)
      else (case broker_Resolve ae io now receipt capability names db b of
              (b, Inl e) \<Rightarrow> (b, Inl e)
            | (b, Inr g) \<Rightarrow> (b, Inr (map (\<lambda>(k, v). (k, substitute (gt_values g) v)) xs))))"

section \<open>The route\<close>

text \<open>The decoded body, \<open>None\<close> when it was not decoded. The answer is the status and what was granted.\<close>

record resolve_body =
  rb_receipt :: string
  rb_capability :: string
  rb_names :: "string list"

definition resolveSecret ::
  "aead \<Rightarrow> (nat \<Rightarrow> bool) \<Rightarrow> int \<Rightarrow> resolve_body option \<Rightarrow> ledger_db \<Rightarrow> broker option \<Rightarrow> broker option \<times> (nat \<times> grant option)" where
  "resolveSecret ae io now body db bo =
     (case bo of
        None \<Rightarrow> (None, 404, None)
      | Some b \<Rightarrow>
          (case body of
             None \<Rightarrow> (Some b, 400, None)
           | Some body \<Rightarrow>
               (case broker_Resolve ae io now (TrimSpace (rb_receipt body)) (rb_capability body) (rb_names body) db b of
                  (b, Inl _) \<Rightarrow> (Some b, 403, None)
                | (b, Inr g) \<Rightarrow> (Some b, 200, Some g))))"

end
