(* ===== verification/Broker_Properties.thy ===== *)
theory Broker_Properties
  imports Broker Evidence_Properties
begin

text \<open>
  What a receipt buys and when, how often it can be spent, and that rotating the key keeps every secret.
\<close>

section \<open>Spending\<close>

lemma find_stored:
  assumes "list_all2 stored es rows" "find (\<lambda>r. er_hash r = h) rows = Some r"
  shows "\<exists>e \<in> set es. h = Entry_Hash e \<and> er_entry r = Marshal_Entry e"
  using assms
proof (induction es rows rule: list_all2_induct)
  case (Cons e es q rows)
  show ?case
  proof (cases "er_hash q = h")
    case True
    then show ?thesis using Cons by (auto simp: stored_def)
  next
    case False
    then show ?thesis using Cons by auto
  qed
qed simp

lemma decrypt_all_names:
  "decrypt_all ae io k ns b db vals = Inr out \<Longrightarrow>
   (\<forall>n. n \<notin> set ns \<longrightarrow> al_get out n = al_get vals n)
   \<and> (\<forall>n \<in> set ns. \<exists>v k. al_get out n = Some v \<and> decrypt ae (io k) n b db = Inr v)"
proof (induction ns arbitrary: k vals)
  case (Cons n ns)
  from Cons.prems obtain v where v: "decrypt ae (io k) n b db = Inr v"
    and rest: "decrypt_all ae io (k + 1) ns b db (al_put n v vals) = Inr out"
    by (auto split: sum.splits)
  show ?case using Cons.IH [OF rest] v
    by (cases "n \<in> set ns") auto
qed simp

lemma decrypt_Inr:
  "decrypt ae fault n b db = Inr v \<longleftrightarrow>
   \<not> fault \<and> (\<exists>ct. Secret False n db = Inr (Some ct) \<and> open_text ae (bk_key b) ct n = Some v)"
  by (auto simp: decrypt_def Secret_def split: sum.splits option.splits)

lemma spend_Some:
  "spend receipt b = Some b' \<Longrightarrow> bk_key b' = bk_key b \<and> uses receipt b < maxUses"
  by (auto simp: spend_def Let_def sweepLocked_def split: if_splits)

text \<open>C35: A secret is released only against the receipt of an effect in this ledger's history that was delivered and not
  waived, that acted under the capability the request names where it names one, that was sealed at most ninety
  seconds ago, and that was redeemed less than three times since the counters, which are kept in memory, were last
  cleared; what is released under each name is what is sealed under that name.\<close>

theorem secret_needs_fresh_effect:
  assumes "db_inv ed node db es" "list_all entry_ok es"
    and "broker_Resolve ae io now receipt capability names db b = (b', Inr g)"
  shows "\<exists>e \<in> set es. receipt = Entry_Hash e \<and> en_outcome e = OutcomeDelivered \<and> \<not> en_waived e
      \<and> (capability = [] \<or> en_capability e = capability) \<and> now \<le> en_ts e * 1000000 + ReceiptTTL
      \<and> gt_capability g = en_capability e \<and> gt_seq g = en_seq e
      \<and> uses receipt b < maxUses
      \<and> (\<forall>n \<in> set names. \<exists>v ct. al_get (gt_values g) n = Some v
           \<and> Secret False n db = Inr (Some ct) \<and> open_text ae (bk_key b) ct n = Some v)"
proof -
  obtain raw e b1 vals where R: "LedgerEntryByHash (io 0) receipt db = Inr raw" "Unmarshal_Entry raw = Some e"
      "check_receipt now capability e = None" "spend receipt b = Some b1"
      "decrypt_all ae io 1 names b1 db [] = Inr vals"
      "g = \<lparr>gt_values = vals, gt_capability = en_capability e, gt_seq = en_seq e\<rparr>"
    using assms(3) by (auto simp: broker_Resolve_def split: if_splits sum.splits option.splits)
  obtain r where r: "find (\<lambda>r. er_hash r = receipt) (db_entries db) = Some r" "raw = er_entry r"
    using R(1) by (auto simp: LedgerEntryByHash_def split: if_splits option.splits)
  have "list_all2 stored es (db_entries db)" using assms(1) by (simp add: db_inv_def)
  then obtain e' where e': "e' \<in> set es" "receipt = Entry_Hash e'" "er_entry r = Marshal_Entry e'"
    using find_stored r(1) by blast
  have "Unmarshal_Entry (Marshal_Entry e') = Some e'"
    using Entry_roundtrip e'(1) assms(2) by (auto simp: list_all_iff)
  then have "e' = e" using R(2) r(2) e'(3) by simp
  then show ?thesis
    using e' R decrypt_all_names [OF R(5)] spend_Some [OF R(4)]
    by (intro bexI [of _ e]) (auto simp: check_receipt_def decrypt_Inr split: if_splits)
qed

section \<open>Rotation\<close>

lemma open_seal:
  assumes "aead_correct ae" "length nonce = NonceSize"
  shows "open_text ae key (seal_text ae key nonce plain name) name = Some plain"
  using assms by (simp add: open_text_def seal_text_def aead_correct_def)

lemma find_name:
  "distinct (map se_name rows) \<Longrightarrow> r \<in> set rows \<Longrightarrow> find (\<lambda>q. se_name q = se_name r) rows = Some r"
  by (induction rows) (auto simp: image_iff)

text \<open>A rotation is all or nothing: either the key in force and the database are what they were, or every secret was
  readable under the old key and reads the same under the new one.\<close>

theorem rotation_keeps_secrets:
  assumes ae: "aead_correct ae" and nonces: "\<forall>n x. nonces n = Some x \<longrightarrow> length x = NonceSize"
    and dist: "distinct (map se_name (db_secrets db))"
    and rekey: "Rekey ae io nonces rec incoming b db = (b', db', r)"
  shows "case r of
      Inl _ \<Rightarrow> b' = b \<and> db' = db
    | Inr n \<Rightarrow> n = length (db_secrets db)
        \<and> (\<forall>s \<in> set (db_secrets db). \<exists>v. decrypt ae False (se_name s) b db = Inr v)
        \<and> (\<forall>name v. decrypt ae False name b' db' = Inr v \<longleftrightarrow> decrypt ae False name b db = Inr v)"
proof (cases r)
  case (Inl e)
  then show ?thesis using rekey
    by (auto simp: Rekey_def CommitSuccession_def split: option.splits if_splits sum.splits)
next
  case (Inr n)
  then obtain k table where k: "incoming = Some k" "b' = b\<lparr>bk_key := deriveBox k\<rparr>" "n = length (db_secrets db)"
      and table: "reseal_all io (rekey_secret ae (bk_key b) (deriveBox k) nonces) (su_ts rec) 4
         (sort_key se_name (db_secrets db)) (db_secrets db) = Inr table"
      and db': "db_secrets db' = table"
    using rekey by (auto simp: Rekey_def CommitSuccession_def split: option.splits if_splits sum.splits)
  let ?ss = "sort_key se_name (db_secrets db)"
  have "distinct (map se_name ?ss)"
    using dist by (simp add: distinct_map)
  from reseal_all_contents [OF table this]
  have C: "\<forall>q \<in> set table. \<exists>s \<in> set (db_secrets db). se_name s = se_name q
      \<and> rekey_secret ae (bk_key b) (deriveBox k) nonces (se_name s) (se_ciphertext s) = Some (se_ciphertext q)"
    by (metis image_eqI image_set reseal_all_names [OF table] set_sort)
  have names: "map se_name table = map se_name (db_secrets db)" by (rule reseal_all_names [OF table])
  have dist': "distinct (map se_name table)" using dist names by simp
  have both: "\<exists>v. decrypt ae False (se_name q) b' db' = Inr v \<and> decrypt ae False (se_name q) b db = Inr v"
    if q: "q \<in> set table" for q
  proof -
    obtain s where s: "s \<in> set (db_secrets db)" "se_name s = se_name q"
        "rekey_secret ae (bk_key b) (deriveBox k) nonces (se_name s) (se_ciphertext s) = Some (se_ciphertext q)"
      using C q by blast
    then obtain v nonce where v: "open_text ae (bk_key b) (se_ciphertext s) (se_name s) = Some v" "nonces (se_name s) = Some nonce"
        "se_ciphertext q = seal_text ae (deriveBox k) nonce v (se_name s)"
      by (auto simp: rekey_secret_def split: option.splits)
    have "open_text ae (deriveBox k) (se_ciphertext q) (se_name q) = Some v"
      using v(2,3) s(2) nonces open_seal [OF ae] by metis
    then have "decrypt ae False (se_name q) b' db' = Inr v"
      using find_name [OF dist' q] k(2) db' by (simp add: decrypt_Inr Secret_def)
    moreover have "decrypt ae False (se_name q) b db = Inr v"
      using find_name [OF dist s(1)] v(1) s(2) by (simp add: decrypt_Inr Secret_def)
    ultimately show ?thesis by blast
  qed
  have set_names: "se_name ` set table = se_name ` set (db_secrets db)" using names by (metis image_set)
  have "decrypt ae False name b' db' = Inr v \<longleftrightarrow> decrypt ae False name b db = Inr v" for name v
  proof (cases "name \<in> se_name ` set table")
    case True
    then obtain q where "q \<in> set table" "name = se_name q" by blast
    then show ?thesis using both [of q] by auto
  next
    case False
    then have "find (\<lambda>q. se_name q = name) table = None" "find (\<lambda>q. se_name q = name) (db_secrets db) = None"
      using set_names by (auto simp: find_None_iff image_iff)
    then show ?thesis using db' by (simp add: decrypt_Inr Secret_def)
  qed
  moreover have "\<exists>v. decrypt ae False (se_name s) b db = Inr v" if "s \<in> set (db_secrets db)" for s
  proof -
    have "se_name s \<in> se_name ` set table" using that set_names by blast
    then obtain q where "q \<in> set table" "se_name q = se_name s" by (metis imageE)
    then show ?thesis using both [of q] by auto
  qed
  ultimately show ?thesis using Inr k(3) by auto
qed

section \<open>How often\<close>

type_synonym redemption = "(nat \<Rightarrow> bool) \<times> int \<times> string \<times> string \<times> string list \<times> ledger_db"

definition presented :: "redemption \<Rightarrow> string" where
  "presented c = (case c of (io, now, receipt, capability, names, db) \<Rightarrow> receipt)"

text \<open>Calls one after the other, each on the database of its time: which receipt was presented, and was it granted.\<close>

fun redeem :: "aead \<Rightarrow> redemption list \<Rightarrow> broker \<Rightarrow> (string \<times> bool) list" where
  "redeem ae [] b = []"
| "redeem ae (c # cs) b =
     (case c of (io, now, receipt, capability, names, db) \<Rightarrow>
       (case broker_Resolve ae io now receipt capability names db b of
          (b', r) \<Rightarrow> (receipt, case r of Inl _ \<Rightarrow> False | Inr _ \<Rightarrow> True) # redeem ae cs b'))"

definition counters_in :: "string set \<Rightarrow> broker \<Rightarrow> bool" where
  "counters_in R b \<longleftrightarrow> distinct (map fst (bk_used b)) \<and> fst ` set (bk_used b) \<subseteq> R"

lemma spend_counts:
  assumes "spend receipt b = Some b'" "counters_in R b" "receipt \<in> R" "finite R" "card R \<le> 4096"
  shows "counters_in R b' \<and> uses h b' = (if h = receipt then uses h b + 1 else uses h b) \<and> uses receipt b < maxUses"
proof -
  let ?used = "al_put receipt (uses receipt b + 1) (bk_used b)"
  have c: "distinct (map fst ?used)" "fst ` set ?used \<subseteq> R"
    using assms(2,3) keys_put [of receipt "uses receipt b + 1" "bk_used b"]
    by (auto simp: counters_in_def set_map [symmetric] simp del: set_map)
  have "length ?used = card (fst ` set ?used)" using c(1) by (metis distinct_card length_map set_map)
  also have "\<dots> \<le> 4096" using card_mono [OF assms(4) c(2)] assms(5) by linarith
  finally have "\<not> 4096 < length ?used" by simp
  then have b': "b' = b\<lparr>bk_used := ?used\<rparr>" "uses receipt b < maxUses"
    using assms(1) by (simp_all add: spend_def Let_def split: if_splits)
  moreover have "uses h (b\<lparr>bk_used := ?used\<rparr>) = (if h = receipt then uses h b + 1 else uses h b)"
    by (simp add: uses_def)
  ultimately show ?thesis using c by (simp add: counters_in_def)
qed

lemma Resolve_counts:
  assumes "broker_Resolve ae io now receipt capability names db b = (b', r)" "counters_in R b" "receipt \<in> R" "finite R" "card R \<le> 4096"
  shows "counters_in R b' \<and> uses h b \<le> uses h b' \<and> (uses h b \<le> maxUses \<longrightarrow> uses h b' \<le> maxUses) \<and> (\<forall>g. r = Inr g \<longrightarrow> uses receipt b' = uses receipt b + 1 \<and> uses receipt b < maxUses)"
proof (cases "b' = b \<and> (\<forall>g. r \<noteq> Inr g)")
  case False
  then have "spend receipt b = Some b'"
    using assms(1) by (auto simp: broker_Resolve_def split: if_splits sum.splits option.splits)
  from spend_counts [OF this assms(2-5)] show ?thesis by (auto simp: Suc_le_eq)
qed (use assms(2) in auto)

lemma redeem_bound:
  "counters_in R b \<Longrightarrow> finite R \<Longrightarrow> card R \<le> 4096 \<Longrightarrow> presented ` set cs \<subseteq> R \<Longrightarrow>
   uses h b \<le> maxUses \<Longrightarrow> length (filter ((=) (h, True)) (redeem ae cs b)) + uses h b \<le> maxUses"
proof (induction cs arbitrary: b)
  case (Cons c cs)
  obtain io now receipt capability names db where c: "c = (io, now, receipt, capability, names, db)" by (cases c)
  obtain b' r where r: "broker_Resolve ae io now receipt capability names db b = (b', r)" by fastforce
  have R: "receipt \<in> R" using Cons.prems(4) by (simp add: c presented_def)
  note C = Resolve_counts [OF r Cons.prems(1) R Cons.prems(2,3)]
  have "uses h b' \<le> maxUses"
    using C [of h] Cons.prems(5) by simp
  then have IH: "length (filter ((=) (h, True)) (redeem ae cs b')) + uses h b' \<le> maxUses"
    using Cons C by (simp add: presented_def)
  then show ?case using C [of h] by (auto simp: c r split: sum.splits)
qed simp

text \<open>As long as at most 4096 receipts are presented to a broker, in whatever order and on whatever databases, none
  is redeemed more than three times.\<close>

theorem receipt_redeemed_thrice:
  assumes "card (presented ` set cs) \<le> 4096" "bk_used b = []"
  shows "length (filter ((=) (h, True)) (redeem ae cs b)) \<le> maxUses"
  using redeem_bound [of "presented ` set cs" b cs h ae] assms by (simp add: counters_in_def uses_def)

section \<open>Witnesses\<close>

definition toy_aead :: aead where
  "toy_aead = \<lparr>ae_seal = (\<lambda>k n p ad. p), ae_open = (\<lambda>k n body ad. Some body)\<rparr>"

definition toy_nonce :: bytes where "toy_nonce = replicate 12 (CHR ''n'')"

definition toy_broker :: broker where
  "toy_broker = \<lparr>bk_key = [], bk_used = []\<rparr>"

definition secrets_db :: ledger_db where
  "secrets_db = toy_db\<lparr>db_secrets := [\<lparr>se_name = ''erp'', se_ciphertext = seal_text toy_aead [] toy_nonce ''pw'' ''erp'', se_updated = 0\<rparr>]\<rparr>"

lemma toy_aead_correct: "aead_correct toy_aead"
  by (simp add: aead_correct_def toy_aead_def)

lemma toy_open: "open_text toy_aead key (seal_text toy_aead [] toy_nonce ''pw'' ''erp'') ''erp'' = Some ''pw''"
  by (simp add: open_text_def seal_text_def toy_aead_def toy_nonce_def NonceSize_def)

lemma toy_grant:
  "broker_Resolve toy_aead (\<lambda>_. False) 5000000 (Entry_Hash toy_sealed) ''motor.door'' [''erp''] secrets_db toy_broker
     = (toy_broker\<lparr>bk_used := [(Entry_Hash toy_sealed, 1)]\<rparr>,
        Inr \<lparr>gt_values = [(''erp'', ''pw'')], gt_capability = ''motor.door'', gt_seq = 1\<rparr>)"
proof -
  have raw: "LedgerEntryByHash False (Entry_Hash toy_sealed) secrets_db = Inr (Marshal_Entry toy_sealed)"
    by (simp add: LedgerEntryByHash_def secrets_db_def toy_db_def)
  have parse: "Unmarshal_Entry (Marshal_Entry toy_sealed) = Some toy_sealed"
    using Entry_roundtrip toy_sealed_ok by simp
  then have ne: "Marshal_Entry toy_sealed \<noteq> []" by (auto simp: Unmarshal_Entry_def json_parse_def)
  have chk: "check_receipt 5000000 ''motor.door'' toy_sealed = None"
    by (simp add: check_receipt_def toy_sealed_def toy_entry_def zero_entry_def OutcomeDelivered_def ReceiptTTL_def)
  have sp: "spend (Entry_Hash toy_sealed) toy_broker = Some (toy_broker\<lparr>bk_used := [(Entry_Hash toy_sealed, 1)]\<rparr>)"
    by (simp add: spend_def uses_def toy_broker_def maxUses_def)
  have dec: "decrypt toy_aead False ''erp'' b secrets_db = Inr ''pw''" for b
    by (simp add: decrypt_def Secret_def secrets_db_def toy_open)
  have fields: "en_capability toy_sealed = ''motor.door''" "en_seq toy_sealed = 1"
    by (simp_all add: toy_sealed_def toy_entry_def zero_entry_def)
  show ?thesis
    by (simp add: broker_Resolve_def raw parse ne chk sp dec fields)
qed

lemma db_inv_secrets: "db_inv ed node (db\<lparr>db_secrets := x\<rparr>) es = db_inv ed node db es"
  by (simp add: db_inv_def)

theorem secret_needs_fresh_effect_witness:
  "\<exists>b' g. broker_Resolve toy_aead (\<lambda>_. False) 5000000 (Entry_Hash toy_sealed) ''motor.door'' [''erp''] secrets_db toy_broker = (b', Inr g)
     \<and> gt_capability g = ''motor.door'' \<and> (\<exists>e \<in> set [toy_sealed]. Entry_Hash toy_sealed = Entry_Hash e \<and> \<not> en_waived e)"
proof -
  have "db_inv toy_ed ''n1'' secrets_db [toy_sealed]"
    unfolding secrets_db_def db_inv_secrets by (rule toy_db_inv)
  from secret_needs_fresh_effect [OF this toy_sealed_ok toy_grant]
  have "\<exists>e \<in> set [toy_sealed]. Entry_Hash toy_sealed = Entry_Hash e \<and> \<not> en_waived e" by blast
  then show ?thesis using toy_grant by (metis grant.select_convs(2))
qed

definition toy_handover :: succession_row where
  "toy_handover = \<lparr>su_seq = 1, su_from_pubkey = ''a'', su_to_pubkey = ''b'', su_from_sig = [], su_to_sig = [], su_reason = [], su_ts = 9\<rparr>"

theorem rotation_keeps_secrets_witness:
  "\<exists>b' db'. Rekey toy_aead (\<lambda>_. False) (\<lambda>_. Some toy_nonce) toy_handover (Some toy_keys) toy_broker secrets_db = (b', db', Inr 1)
     \<and> decrypt toy_aead False ''erp'' b' db' = Inr ''pw''"
proof -
  have rs: "rekey_secret toy_aead [] (deriveBox toy_keys) (\<lambda>_. Some toy_nonce) ''erp'' (seal_text toy_aead [] toy_nonce ''pw'' ''erp'')
      = Some (seal_text toy_aead (deriveBox toy_keys) toy_nonce ''pw'' ''erp'')"
    by (simp add: rekey_secret_def toy_open)
  have su: "db_successions secrets_db = []" by (simp add: secrets_db_def toy_db_def empty_db_def)
  have se: "db_secrets secrets_db = [\<lparr>se_name = ''erp'', se_ciphertext = seal_text toy_aead [] toy_nonce ''pw'' ''erp'', se_updated = 0\<rparr>]"
    by (simp add: secrets_db_def)
  obtain b' db' where r: "Rekey toy_aead (\<lambda>_. False) (\<lambda>_. Some toy_nonce) toy_handover (Some toy_keys) toy_broker secrets_db = (b', db', Inr 1)"
    by (simp add: Rekey_def CommitSuccession_def su se rs toy_broker_def)
  have "decrypt toy_aead False ''erp'' toy_broker secrets_db = Inr ''pw''"
    by (simp add: decrypt_def Secret_def secrets_db_def toy_open)
  then show ?thesis
    using rotation_keeps_secrets [OF toy_aead_correct _ _ r] r by (auto simp: toy_nonce_def NonceSize_def secrets_db_def)
qed

theorem receipt_redeemed_thrice_witness:
  "length (filter ((=) (''h'', True)) (redeem toy_aead (replicate 5 (\<lambda>_. False, 0, ''h'', [], [''erp''], secrets_db)) toy_broker)) \<le> 3"
  using receipt_redeemed_thrice [of "replicate 5 (\<lambda>_. False, 0, ''h'', [], [''erp''], secrets_db)" toy_broker "''h''" toy_aead]
  by (simp add: toy_broker_def maxUses_def)

end
