(* ===== verification/Manager.thy ===== *)
theory Manager
  imports Session_Wiring Store_Events Store_Tables
begin

text \<open>
  \<^verbatim>\<open>kernel/internal/executor/manager.go\<close>: the live sessions of a node. A session is an object that the manager
  finds by id and that a connection may hold on to; \<open>nd_objects\<close> is where they are and \<open>nd_live\<close> the manager's map.
  What the sessions share with each other (ledger, database, policy, roster, event log) belongs to the node: it is
  put into a session before it routes and taken out of it afterwards. A routing is one step.
\<close>

record node_state =
  nd_objects :: "session list"
  nd_live :: "(string \<times> nat) list"
  nd_registry :: registry
  nd_mode :: string
  nd_policy :: policy
  nd_ledger :: "ledger option"
  nd_db :: ledger_db
  nd_approvers :: "roster option"
  nd_logs :: "(string \<times> envelope list) list"
  nd_events :: event_store
  nd_tables :: tables
  nd_max_sessions :: int

definition NewManager :: "registry \<Rightarrow> ledger_db \<Rightarrow> event_store \<Rightarrow> tables \<Rightarrow> string \<Rightarrow> (policy_doc \<Rightarrow> bytes) \<Rightarrow> policy option \<Rightarrow> ledger option \<Rightarrow> node_state" where
  "NewManager reg db events t mode yaml_marshal pol ldg =
     \<lparr>nd_objects = [], nd_live = [], nd_registry = reg, nd_mode = mode,
      nd_policy = (case pol of None \<Rightarrow> DefaultPolicy yaml_marshal | Some p \<Rightarrow> p), nd_ledger = ldg, nd_db = db,
      nd_approvers = None, nd_logs = [], nd_events = events, nd_tables = t, nd_max_sessions = 0\<rparr>"

definition SetApprovers :: "roster option \<Rightarrow> node_state \<Rightarrow> node_state" where
  "SetApprovers r nd = nd\<lparr>nd_approvers := r\<rparr>"

definition SetMaxSessions :: "int \<Rightarrow> node_state \<Rightarrow> node_state" where
  "SetMaxSessions n nd = nd\<lparr>nd_max_sessions := n\<rparr>"

definition LiveSessions :: "node_state \<Rightarrow> nat" where
  "LiveSessions nd = length (nd_live nd)"

definition log_of :: "string \<Rightarrow> node_state \<Rightarrow> envelope list" where
  "log_of i nd = (case al_get (nd_logs nd) i of None \<Rightarrow> [] | Some es \<Rightarrow> es)"

datatype start_error = NoGraph db_error | BadGraph graph_error | AtLimit nat | NotWired wiring_error | NotRecorded db_error

text \<open>
  \<open>fault\<close> is the failure of the read of the graph and of the record of the start, \<open>io\<close> those of an undo's reads.
  The result is the node and where the new session is.
\<close>

definition manager_Start ::
  "(string \<Rightarrow> string option) \<Rightarrow> (nat \<Rightarrow> bool) \<Rightarrow> (nat \<Rightarrow> bool) \<Rightarrow> bool \<Rightarrow> int \<Rightarrow> string \<Rightarrow> string \<Rightarrow> string \<Rightarrow> node_state
   \<Rightarrow> node_state \<times> (start_error + nat)" where
  "manager_Start other fault io readable now sessionID graphID undoOf nd =
     (case LoadGraph (fault 0) graphID (nd_tables nd) of
        Inl e \<Rightarrow> (nd, Inl (NoGraph e))
      | Inr irRaw \<Rightarrow>
          (case ParseGraph other irRaw of
             Inl e \<Rightarrow> (nd, Inl (BadGraph e))
           | Inr g \<Rightarrow>
               if 0 < nd_max_sessions nd \<and> nd_max_sessions nd \<le> int (LiveSessions nd) then (nd, Inl (AtLimit (LiveSessions nd)))
               else (case NewSession io readable sessionID g (nd_registry nd) (nd_db nd) (log_of sessionID nd) (nd_mode nd)
                            (nd_policy nd) (nd_ledger nd) undoOf of
                       (reg, Inl e) \<Rightarrow> (nd\<lparr>nd_registry := reg\<rparr>, Inl (NotWired e))
                     | (reg, Inr s) \<Rightarrow>
                         (case StartSession (fault 1) now sessionID graphID (nd_events nd) of
                            Inl e \<Rightarrow> (nd\<lparr>nd_registry := reg\<rparr>, Inl (NotRecorded e))
                          | Inr ev \<Rightarrow>
                              (nd\<lparr>nd_registry := reg, nd_events := ev,
                                  nd_objects := nd_objects nd @ [s\<lparr>sn_approvers := nd_approvers nd\<rparr>],
                                  nd_live := al_put sessionID (length (nd_objects nd)) (nd_live nd)\<rparr>,
                               Inr (length (nd_objects nd)))))))"

definition manager_Get :: "string \<Rightarrow> node_state \<Rightarrow> nat option" where
  "manager_Get i nd = al_get (nd_live nd) i"

text \<open>An error of \<^verbatim>\<open>EndSession\<close> is dropped.\<close>

definition manager_End :: "bool \<Rightarrow> int \<Rightarrow> string \<Rightarrow> node_state \<Rightarrow> node_state" where
  "manager_End fault now i nd =
     nd\<lparr>nd_live := al_del i (nd_live nd),
        nd_events := (case EndSession fault now i (nd_events nd) of Inl _ \<Rightarrow> nd_events nd | Inr ev \<Rightarrow> ev)\<rparr>"

section \<open>Routing\<close>

definition mount :: "node_state \<Rightarrow> session \<Rightarrow> session" where
  "mount nd s = s\<lparr>sn_policy := nd_policy nd, sn_ledger := nd_ledger nd, sn_db := nd_db nd, sn_approvers := nd_approvers nd,
     sn_log := log_of (sn_id s) nd\<rparr>"

definition unmount :: "nat \<Rightarrow> session \<Rightarrow> node_state \<Rightarrow> node_state" where
  "unmount k s nd = nd\<lparr>nd_objects := (nd_objects nd)[k := s], nd_policy := sn_policy s, nd_ledger := sn_ledger s,
     nd_db := sn_db s, nd_approvers := sn_approvers s, nd_logs := al_put (sn_id s) (sn_log s) (nd_logs nd)\<rparr>"

text \<open>
  \<^verbatim>\<open>sess.Route\<close> on an object of the node. Where it does not return (\<open>None\<close>) a panic is recovered by the manager and
  reported; how far the session got is not modelled.
\<close>

definition route_object :: "nat \<Rightarrow> world \<Rightarrow> nat \<Rightarrow> envelope \<Rightarrow> node_state \<Rightarrow> node_state option" where
  "route_object fuel w k env nd =
     (if k < length (nd_objects nd) then
        map_option (\<lambda>s. unmount k s nd) (Route fuel w env (mount nd (nd_objects nd ! k)))
      else None)"

datatype dispatch_error = UnknownSession string

definition manager_Dispatch :: "nat \<Rightarrow> world \<Rightarrow> envelope \<Rightarrow> node_state \<Rightarrow> (node_state \<times> dispatch_error option) option" where
  "manager_Dispatch fuel w env nd =
     (case al_get (nd_live nd) (ev_session env) of
        None \<Rightarrow> Some (nd, Some (UnknownSession (ev_session env)))
      | Some k \<Rightarrow> map_option (\<lambda>nd. (nd, None)) (route_object fuel w k env nd))"

end
