(* ===== verification/Manager_Properties.thy ===== *)
theory Manager_Properties
  imports Manager Session_Properties Wiring_Properties
begin

text \<open>
  A node with many sessions over one ledger: whatever is started, routed and ended, in whatever order, the history
  of the node only grows and every effect any session sends is in it.
\<close>

definition sent_all :: "node_state \<Rightarrow> delivery list list" where
  "sent_all nd = map sn_sent (nd_objects nd)"

definition node_evidence :: "ed25519 \<Rightarrow> node_state \<Rightarrow> entry list \<Rightarrow> bool" where
  "node_evidence ed nd es \<longleftrightarrow> (\<exists>l. nd_ledger nd = Some l \<and> ledger_inv ed (l, nd_db nd) es)"

text \<open>
  One thing that happens on a node: a session starts or is refused, a session ends, an envelope of a skill is
  dispatched, a client's is routed on the session it holds, the roster, the registry, the graphs and the tokens change.
\<close>

inductive node_step :: "ed25519 \<Rightarrow> node_state \<Rightarrow> node_state \<Rightarrow> bool" for ed where
  start: "manager_Start other fault io readable now i g u nd = (nd', r) \<Longrightarrow> node_step ed nd nd'"
| stop: "node_step ed nd (manager_End fault now i nd)"
| dispatch: "wo_ed w = ed \<Longrightarrow> manager_Dispatch fuel w env nd = Some (nd', e) \<Longrightarrow> node_step ed nd nd'"
| client: "wo_ed w = ed \<Longrightarrow> route_object fuel w k env nd = Some nd' \<Longrightarrow> node_step ed nd nd'"
| enrol: "node_step ed nd (SetApprovers r nd)"
| register: "node_step ed nd (nd\<lparr>nd_registry := reg, nd_tables := t\<rparr>)"

text \<open>What every step keeps, for a history the node holds.\<close>

definition node_grows :: "ed25519 \<Rightarrow> node_state \<Rightarrow> node_state \<Rightarrow> bool" where
  "node_grows ed nd nd' \<longleftrightarrow>
     SealFailureRefuses (nd_policy nd') = SealFailureRefuses (nd_policy nd)
     \<and> (\<forall>es. node_evidence ed nd es \<longrightarrow> (\<exists>xs. node_evidence ed nd' (es @ xs)
          \<and> length (nd_objects nd) \<le> length (nd_objects nd')
          \<and> (\<forall>k < length (nd_objects nd'). \<exists>ys.
               sn_sent (nd_objects nd' ! k) = (if k < length (nd_objects nd) then sn_sent (nd_objects nd ! k) else []) @ ys
             \<and> list_all (backed (SealFailureRefuses (nd_policy nd)) xs) ys)))"

lemma node_grows_refl: "node_grows ed nd nd"
  unfolding node_grows_def
proof (intro conjI allI impI refl)
  fix es assume "node_evidence ed nd es"
  then have "node_evidence ed nd (es @ [])" by simp
  moreover have "\<exists>ys. sn_sent (nd_objects nd ! k) = (if k < length (nd_objects nd) then sn_sent (nd_objects nd ! k) else []) @ ys
      \<and> list_all (backed (SealFailureRefuses (nd_policy nd)) []) ys" if "k < length (nd_objects nd)" for k
    using that by (intro exI [of _ "[]"]) simp
  ultimately show "\<exists>xs. node_evidence ed nd (es @ xs) \<and> length (nd_objects nd) \<le> length (nd_objects nd)
      \<and> (\<forall>k < length (nd_objects nd). \<exists>ys. sn_sent (nd_objects nd ! k) = (if k < length (nd_objects nd) then sn_sent (nd_objects nd ! k) else []) @ ys
           \<and> list_all (backed (SealFailureRefuses (nd_policy nd)) xs) ys)" by blast
qed

lemma backed_appendL: "list_all (backed r xs) ys \<Longrightarrow> list_all (backed r (xs @ zs)) ys"
  by (erule list.pred_mono_strong) (auto intro: backed_mono)

lemma backed_appendR: "list_all (backed r zs) ys \<Longrightarrow> list_all (backed r (xs @ zs)) ys"
  by (erule list.pred_mono_strong) (auto intro: backed_mono)

lemma node_grows_trans:
  assumes "node_grows ed a b" "node_grows ed b c"
  shows "node_grows ed a c"
  unfolding node_grows_def
proof (intro conjI allI impI)
  show "SealFailureRefuses (nd_policy c) = SealFailureRefuses (nd_policy a)" using assms by (simp add: node_grows_def)
  fix es assume es: "node_evidence ed a es"
  let ?r = "SealFailureRefuses (nd_policy a)"
  have r: "SealFailureRefuses (nd_policy b) = ?r" using assms(1) by (simp add: node_grows_def)
  obtain xs where xs: "node_evidence ed b (es @ xs)" "length (nd_objects a) \<le> length (nd_objects b)"
    "\<forall>k < length (nd_objects b). \<exists>ys. sn_sent (nd_objects b ! k) = (if k < length (nd_objects a) then sn_sent (nd_objects a ! k) else []) @ ys
       \<and> list_all (backed ?r xs) ys"
    using assms(1) es unfolding node_grows_def by blast
  obtain zs where zs: "node_evidence ed c ((es @ xs) @ zs)" "length (nd_objects b) \<le> length (nd_objects c)"
    "\<forall>k < length (nd_objects c). \<exists>ys. sn_sent (nd_objects c ! k) = (if k < length (nd_objects b) then sn_sent (nd_objects b ! k) else []) @ ys
       \<and> list_all (backed ?r zs) ys"
    using assms(2) xs(1) unfolding node_grows_def r by blast
  have "\<exists>ys. sn_sent (nd_objects c ! k) = (if k < length (nd_objects a) then sn_sent (nd_objects a ! k) else []) @ ys
       \<and> list_all (backed ?r (xs @ zs)) ys" if k: "k < length (nd_objects c)" for k
  proof -
    obtain ys where ys: "sn_sent (nd_objects c ! k) = (if k < length (nd_objects b) then sn_sent (nd_objects b ! k) else []) @ ys"
      "list_all (backed ?r zs) ys" using zs(3) k by blast
    show ?thesis
    proof (cases "k < length (nd_objects b)")
      case True
      then obtain vs where vs: "sn_sent (nd_objects b ! k) = (if k < length (nd_objects a) then sn_sent (nd_objects a ! k) else []) @ vs"
        "list_all (backed ?r xs) vs" using xs(3) by blast
      then show ?thesis using ys True
        by (intro exI [of _ "vs @ ys"]) (simp add: backed_appendL backed_appendR)
    next
      case False
      then show ?thesis using ys xs(2) by (intro exI [of _ ys]) (simp add: backed_appendR)
    qed
  qed
  then show "\<exists>xs. node_evidence ed c (es @ xs) \<and> length (nd_objects a) \<le> length (nd_objects c)
      \<and> (\<forall>k < length (nd_objects c). \<exists>ys. sn_sent (nd_objects c ! k) = (if k < length (nd_objects a) then sn_sent (nd_objects a ! k) else []) @ ys
           \<and> list_all (backed ?r xs) ys)"
    using zs(1,2) xs(2) by (intro exI [of _ "xs @ zs"]) simp
qed

text \<open>A step that leaves ledger, policy and what was sent alone.\<close>

lemma node_grows_same:
  assumes "nd_ledger nd' = nd_ledger nd" "nd_db nd' = nd_db nd" "nd_policy nd' = nd_policy nd"
    "nd_objects nd' = nd_objects nd @ new" "list_all (\<lambda>s. sn_sent s = []) new"
  shows "node_grows ed nd nd'"
  unfolding node_grows_def
proof (intro conjI allI impI)
  show "SealFailureRefuses (nd_policy nd') = SealFailureRefuses (nd_policy nd)" using assms(3) by simp
  fix es assume "node_evidence ed nd es"
  then have "node_evidence ed nd' (es @ [])" using assms(1,2) by (simp add: node_evidence_def)
  moreover have "sn_sent (nd_objects nd' ! k) = (if k < length (nd_objects nd) then sn_sent (nd_objects nd ! k) else []) @ []"
    if "k < length (nd_objects nd')" for k
    using that assms(4,5) by (auto simp: nth_append list_all_length)
  ultimately show "\<exists>xs. node_evidence ed nd' (es @ xs) \<and> length (nd_objects nd) \<le> length (nd_objects nd')
      \<and> (\<forall>k < length (nd_objects nd'). \<exists>ys. sn_sent (nd_objects nd' ! k) = (if k < length (nd_objects nd) then sn_sent (nd_objects nd ! k) else []) @ ys
           \<and> list_all (backed (SealFailureRefuses (nd_policy nd)) xs) ys)"
    using assms(4) by (intro exI [of _ "[]"] conjI allI impI) (auto intro: exI [of _ "[]"])
qed

lemma route_object_grows:
  assumes ed: "wo_ed w = ed" and r: "route_object fuel w k env nd = Some nd'"
  shows "node_grows ed nd nd'"
proof -
  obtain s' where k: "k < length (nd_objects nd)" and s': "Route fuel w env (mount nd (nd_objects nd ! k)) = Some s'"
    and nd': "nd' = unmount k s' nd"
    using r by (auto simp: route_object_def split: if_splits)
  let ?s = "mount nd (nd_objects nd ! k)"
  have B: "effects_backed w ?s s'" by (rule effects.Route_all_R [OF TrueI s'])
  have pol: "SealFailureRefuses (sn_policy s') = SealFailureRefuses (nd_policy nd)"
    using B by (simp add: effects_backed_def mount_def)
  show ?thesis
    unfolding node_grows_def
  proof (intro conjI allI impI)
    show "SealFailureRefuses (nd_policy nd') = SealFailureRefuses (nd_policy nd)" using pol nd' by (simp add: unmount_def)
    fix es assume "node_evidence ed nd es"
    then have "evidence w ?s es" using ed by (auto simp: node_evidence_def evidence_def mount_def)
    then obtain xs ys where xy: "evidence w s' (es @ xs)" "sn_sent s' = sn_sent ?s @ ys"
        "list_all (backed (SealFailureRefuses (nd_policy nd)) xs) ys"
      using B by (auto simp: effects_backed_def mount_def)
    have "node_evidence ed nd' (es @ xs)"
      using xy(1) ed nd' by (auto simp: node_evidence_def evidence_def unmount_def)
    moreover have "\<exists>zs. sn_sent (nd_objects nd' ! j) = (if j < length (nd_objects nd) then sn_sent (nd_objects nd ! j) else []) @ zs
        \<and> list_all (backed (SealFailureRefuses (nd_policy nd)) xs) zs" if "j < length (nd_objects nd')" for j
      using that xy(2,3) nd' k by (cases "j = k") (auto simp: unmount_def mount_def intro: exI [of _ "[]"])
    ultimately show "\<exists>xs. node_evidence ed nd' (es @ xs) \<and> length (nd_objects nd) \<le> length (nd_objects nd')
      \<and> (\<forall>k < length (nd_objects nd'). \<exists>ys. sn_sent (nd_objects nd' ! k) = (if k < length (nd_objects nd) then sn_sent (nd_objects nd ! k) else []) @ ys
           \<and> list_all (backed (SealFailureRefuses (nd_policy nd)) xs) ys)"
      using nd' by (intro exI [of _ xs]) (simp add: unmount_def)
  qed
qed

lemma replay_event_sent: "sn_sent (rp_session (replay_event dests env r)) = sn_sent (rp_session r)"
  by (auto simp: replay_event_def replay_kind_def replay_hop_def Let_def split: option.splits)

lemma replay_gate_sent: "sn_sent (replay_gate byID asked s) = sn_sent s"
  by (auto simp: replay_gate_def Let_def split: option.splits)

lemma resume_sent: "sn_sent (resumeFromLog s) = sn_sent s"
proof -
  have e: "sn_sent (rp_session (fold (replay_event dests) es r)) = sn_sent (rp_session r)" for dests es r
    by (induction es arbitrary: r) (auto simp: replay_event_sent)
  have g: "sn_sent (fold (replay_gate byID) gs s) = sn_sent s" for byID gs s
    by (induction gs arbitrary: s) (auto simp: replay_gate_sent)
  show ?thesis by (simp add: resumeFromLog_def Let_def e g)
qed

lemma NewSession_sent: "NewSession io readable i g reg db events mode pol ldg undoOf = (reg', Inr s) \<Longrightarrow> sn_sent s = []"
  by (auto simp: NewSession_def resume_sent fresh_session_def split: prod.splits sum.splits option.splits if_splits)

lemma Start_grows:
  assumes "manager_Start other fault io readable now i g u nd = (nd', r)"
  shows "node_grows ed nd nd'"
proof -
  consider (untouched) "nd' = nd" | (refused) reg where "nd' = nd\<lparr>nd_registry := reg\<rparr>"
    | (started) reg s ev where "nd' = nd\<lparr>nd_registry := reg, nd_events := ev, nd_objects := nd_objects nd @ [s\<lparr>sn_approvers := nd_approvers nd\<rparr>],
         nd_live := al_put i (length (nd_objects nd)) (nd_live nd)\<rparr>" "sn_sent s = []"
    using assms NewSession_sent
    by (auto simp: manager_Start_def split: sum.splits if_splits prod.splits)
  then show ?thesis
  proof cases
    case untouched
    then show ?thesis by (simp add: node_grows_refl)
  next
    case refused
    then show ?thesis by (intro node_grows_same [where new = "[]"]) simp_all
  next
    case started
    then show ?thesis by (intro node_grows_same [where new = "[s\<lparr>sn_approvers := nd_approvers nd\<rparr>]"]) simp_all
  qed
qed

lemma node_step_grows: "node_step ed nd nd' \<Longrightarrow> node_grows ed nd nd'"
proof (induction rule: node_step.induct)
  case (start other fault io readable now i g u nd nd' r)
  then show ?case by (rule Start_grows)
next
  case (dispatch w fuel env nd nd' e)
  show ?case
  proof (cases "al_get (nd_live nd) (ev_session env)")
    case None
    then show ?thesis using dispatch(2) by (simp add: manager_Dispatch_def node_grows_refl)
  next
    case (Some k)
    then have "route_object fuel w k env nd = Some nd'" using dispatch(2) by (auto simp: manager_Dispatch_def)
    then show ?thesis using dispatch(1) by (rule route_object_grows [rotated])
  qed
next
  case (client w fuel k env nd nd')
  then show ?case by (rule route_object_grows)
qed (intro node_grows_same [where new = "[]"]; simp add: manager_End_def SetApprovers_def)+

text \<open>C1: Whatever happens on a node, in whatever order, the history its ledger holds only grows, and every data envelope
  that any of its sessions hands to a motor skill on the way carries as its receipt the hash of an entry sealed for
  it in what the history grew by (unless the policy lets effects go unsealed).\<close>

theorem node_effects_are_sealed:
  assumes "(node_step ed)\<^sup>*\<^sup>* nd nd'" "node_evidence ed nd es"
  shows "\<exists>xs. node_evidence ed nd' (es @ xs) \<and> length (nd_objects nd) \<le> length (nd_objects nd')
      \<and> (\<forall>k < length (nd_objects nd'). \<exists>ys.
           sn_sent (nd_objects nd' ! k) = (if k < length (nd_objects nd) then sn_sent (nd_objects nd ! k) else []) @ ys
         \<and> list_all (backed (SealFailureRefuses (nd_policy nd)) xs) ys)"
proof -
  have "node_grows ed nd nd'" using assms(1)
    by (induction rule: rtranclp_induct) (auto intro: node_grows_refl node_grows_trans node_step_grows)
  then show ?thesis using assms(2) by (simp add: node_grows_def)
qed

definition quiet_store :: event_store where
  "quiet_store = \<lparr>es_log = \<lparr>sl_opt = \<lparr>op_sync = True, op_segment_bytes = 0, op_max_bytes = 0, op_max_indexed = 0\<rparr>, sl_segs = [(0, 0)],
       sl_idx = [], sl_indexed = 0, sl_clock = 0, sl_damage = [], sl_bytes = 0, sl_open = True, sl_werr = False, sl_closing = False,
       sl_files = []\<rparr>, es_sessions = [], es_legacy = []\<rparr>"

definition toy_node :: node_state where
  "toy_node = \<lparr>nd_objects = [toy_session []], nd_live = [(''s1'', 0)], nd_registry = registry_New, nd_mode = [],
     nd_policy = plain_policy, nd_ledger = Some (empty_ledger ''n1'' toy_keys 0), nd_db = empty_db, nd_approvers = None,
     nd_logs = [], nd_events = quiet_store, nd_tables = empty_tables, nd_max_sessions = 0\<rparr>"

lemma toy_mount: "mount toy_node (toy_session []) = toy_session []"
  by (simp add: mount_def toy_node_def toy_session_def fresh_session_def log_of_def)

lemma toy_node_evidence: "node_evidence toy_ed toy_node []"
  by (simp add: node_evidence_def toy_node_def empty_ledger_inv)

theorem node_effects_are_sealed_witness:
  "\<exists>nd' e xs. manager_Dispatch 1 toy_world toy_message toy_node = Some (nd', e) \<and> node_evidence toy_ed nd' ([] @ xs)
     \<and> (\<exists>ys. sn_sent (nd_objects nd' ! 0) = ys \<and> list_all (backed True xs) ys)"
proof -
  obtain s' where s': "Route 1 toy_world toy_message (toy_session []) = Some s'" using toy_returns by blast
  have d: "manager_Dispatch 1 toy_world toy_message toy_node = Some (unmount 0 s' toy_node, None)"
    using s' toy_mount by (simp add: manager_Dispatch_def route_object_def toy_node_def toy_message_def)
  have step: "node_step toy_ed toy_node (unmount 0 s' toy_node)"
    by (rule node_step.dispatch [OF _ d]) (simp add: toy_world_def)
  have steps: "(node_step toy_ed)\<^sup>*\<^sup>* toy_node (unmount 0 s' toy_node)"
    by (rule r_into_rtranclp [where r = "node_step toy_ed", OF step])
  have r: "SealFailureRefuses (nd_policy toy_node)"
    by (simp add: toy_node_def plain_policy_def SealFailureRefuses_def)
  have n: "length (nd_objects (unmount 0 s' toy_node)) = 1" "sn_sent (nd_objects toy_node ! 0) = []"
    by (simp_all add: unmount_def toy_node_def toy_session_def fresh_session_def)
  obtain xs where "node_evidence toy_ed (unmount 0 s' toy_node) ([] @ xs)"
    "\<forall>k < 1. \<exists>ys. sn_sent (nd_objects (unmount 0 s' toy_node) ! k) = (if k < length (nd_objects toy_node) then sn_sent (nd_objects toy_node ! k) else []) @ ys
         \<and> list_all (backed True xs) ys"
    using node_effects_are_sealed [OF steps toy_node_evidence] r n(1) by auto
  then show ?thesis using d n(2) by (auto split: if_splits)
qed

end
