(* ===== verification/Ingress.thy ===== *)
theory Ingress
  imports Manager Gateway_Auth
begin

unbundle bit_operations_syntax

text \<open>
  \<^verbatim>\<open>kernel/internal/gateway/ingress.go\<close> and \<^verbatim>\<open>reaper.go\<close>: inbound routes, how a delivery is verified and
  recognised, the limit on its rate, the session it opens and when that ends. Times are in nanoseconds. The
  environment of the process is a function; \<open>[]\<close> is a variable that is not set.
\<close>

section \<open>HMAC and lower case\<close>

definition hmac_pad :: "nat \<Rightarrow> bytes \<Rightarrow> bytes" where
  "hmac_pad x key =
     (let k = (if 64 < length key then sha256 key else key)
      in map (\<lambda>c. char_of (cn c XOR x)) (k @ replicate (64 - length k) (CHR 0x00)))"

definition hmac_sha256 :: "bytes \<Rightarrow> bytes \<Rightarrow> bytes" where
  "hmac_sha256 key m = sha256 (hmac_pad 92 key @ sha256 (hmac_pad 54 key @ m))"

text \<open>
  \<^verbatim>\<open>strings.ToLower\<close> as far as an ASCII text or expression can tell: besides the capitals, the Kelvin sign and the
  dotted I are the only characters whose lower case is ASCII.
\<close>

fun ToLower :: "string \<Rightarrow> string" where
  "ToLower [] = []"
| "ToLower (c # s) =
     (if has_prefix (c # s) [CHR 0xE2, CHR 0x84, CHR 0xAA] then CHR ''k'' # ToLower (drop 2 s)
      else if has_prefix (c # s) [CHR 0xC4, CHR 0xB0] then CHR ''i'' # ToLower (drop 1 s)
      else ascii_lower c # ToLower s)"

section \<open>Routes\<close>

definition maxIngressBody :: nat where "maxIngressBody = 4 * 2 ^ 20"
definition ingressSessionTTL :: int where "ingressSessionTTL = 120 * 1000000000"
definition defaultReplayWindow :: int where "defaultReplayWindow = 300 * 1000000000"
definition defaultRouteRate :: int where "defaultRouteRate = 600"

definition ingressNameRe :: "string \<Rightarrow> bool" where
  "ingressNameRe s \<longleftrightarrow> s \<noteq> [] \<and> length s \<le> 63 \<and> lower_digit (hd s) \<and> list_all (\<lambda>c. lower_digit c \<or> c = CHR ''-'') (tl s)"

record ingress_route =
  ir_name :: string
  ir_graph :: string
  ir_port :: string
  ir_schema :: string
  ir_secret_env :: string
  ir_signature_header :: string
  ir_signature_prefix :: string
  ir_signature_encoding :: string
  ir_timestamp_header :: string
  ir_tolerance_seconds :: int
  ir_rate_per_minute :: int
  ir_unsigned :: bool

definition zero_route :: ingress_route where
  "zero_route = \<lparr>ir_name = [], ir_graph = [], ir_port = [], ir_schema = [], ir_secret_env = [], ir_signature_header = [],
     ir_signature_prefix = [], ir_signature_encoding = [], ir_timestamp_header = [], ir_tolerance_seconds = 0,
     ir_rate_per_minute = 0, ir_unsigned = False\<rparr>"

datatype route_field =
    RName | RGraph | RPort | RSchema | RSecretEnv | RSignatureHeader | RSignaturePrefix | RSignatureEncoding
  | RTimestampHeader | RTolerance | RRate | RUnsigned

definition route_table :: "(string \<times> route_field) list" where
  "route_table = [(''name'', RName), (''graph'', RGraph), (''port'', RPort), (''schema'', RSchema), (''secret_env'', RSecretEnv),
     (''signature_header'', RSignatureHeader), (''signature_prefix'', RSignaturePrefix), (''signature_encoding'', RSignatureEncoding),
     (''timestamp_header'', RTimestampHeader), (''tolerance_seconds'', RTolerance), (''rate_per_minute'', RRate), (''unsigned'', RUnsigned)]"

definition set_route :: "ingress_route \<Rightarrow> string \<times> json \<Rightarrow> ingress_route option" where
  "set_route r m =
     (case field_of route_table (fst m) of
        None \<Rightarrow> Some r
      | Some RName \<Rightarrow> map_option (\<lambda>s. r\<lparr>ir_name := s\<rparr>) (to_string (snd m) (ir_name r))
      | Some RGraph \<Rightarrow> map_option (\<lambda>s. r\<lparr>ir_graph := s\<rparr>) (to_string (snd m) (ir_graph r))
      | Some RPort \<Rightarrow> map_option (\<lambda>s. r\<lparr>ir_port := s\<rparr>) (to_string (snd m) (ir_port r))
      | Some RSchema \<Rightarrow> map_option (\<lambda>s. r\<lparr>ir_schema := s\<rparr>) (to_string (snd m) (ir_schema r))
      | Some RSecretEnv \<Rightarrow> map_option (\<lambda>s. r\<lparr>ir_secret_env := s\<rparr>) (to_string (snd m) (ir_secret_env r))
      | Some RSignatureHeader \<Rightarrow> map_option (\<lambda>s. r\<lparr>ir_signature_header := s\<rparr>) (to_string (snd m) (ir_signature_header r))
      | Some RSignaturePrefix \<Rightarrow> map_option (\<lambda>s. r\<lparr>ir_signature_prefix := s\<rparr>) (to_string (snd m) (ir_signature_prefix r))
      | Some RSignatureEncoding \<Rightarrow> map_option (\<lambda>s. r\<lparr>ir_signature_encoding := s\<rparr>) (to_string (snd m) (ir_signature_encoding r))
      | Some RTimestampHeader \<Rightarrow> map_option (\<lambda>s. r\<lparr>ir_timestamp_header := s\<rparr>) (to_string (snd m) (ir_timestamp_header r))
      | Some RTolerance \<Rightarrow> map_option (\<lambda>i. r\<lparr>ir_tolerance_seconds := i\<rparr>) (to_int64 (snd m) (ir_tolerance_seconds r))
      | Some RRate \<Rightarrow> map_option (\<lambda>i. r\<lparr>ir_rate_per_minute := i\<rparr>) (to_int64 (snd m) (ir_rate_per_minute r))
      | Some RUnsigned \<Rightarrow> map_option (\<lambda>b. r\<lparr>ir_unsigned := b\<rparr>) (to_bool (snd m) (ir_unsigned r)))"

definition Unmarshal_Route :: "bytes \<Rightarrow> ingress_route option" where
  "Unmarshal_Route raw = (case json_parse raw of None \<Rightarrow> None | Some v \<Rightarrow> to_struct set_route zero_route v)"

definition omit_int :: "string \<Rightarrow> int \<Rightarrow> (string \<times> json) list" where
  "omit_int k i = (if i = 0 then [] else [(k, JNum (dec_int i))])"

definition Marshal_Route :: "ingress_route \<Rightarrow> bytes" where
  "Marshal_Route r = json_print (JObj ([(''name'', JStr (ir_name r)), (''graph'', JStr (ir_graph r))]
     @ omit_empty ''port'' (ir_port r) @ omit_empty ''schema'' (ir_schema r) @ omit_empty ''secret_env'' (ir_secret_env r)
     @ omit_empty ''signature_header'' (ir_signature_header r) @ omit_empty ''signature_prefix'' (ir_signature_prefix r)
     @ omit_empty ''signature_encoding'' (ir_signature_encoding r) @ omit_empty ''timestamp_header'' (ir_timestamp_header r)
     @ omit_int ''tolerance_seconds'' (ir_tolerance_seconds r) @ omit_int ''rate_per_minute'' (ir_rate_per_minute r)
     @ (if ir_unsigned r then [(''unsigned'', JBool True)] else [])))"

definition wrap64 :: "int \<Rightarrow> int" where
  "wrap64 i = sint (word_of_int i :: 64 word)"

lemma wrap64_id: "- (2 ^ 63) \<le> i \<Longrightarrow> i < 2 ^ 63 \<Longrightarrow> wrap64 i = i"
  by (simp add: wrap64_def signed_of_int signed_take_bit_int_eq_self)

definition tolerance :: "ingress_route \<Rightarrow> int" where
  "tolerance r = (if 0 < ir_tolerance_seconds r then wrap64 (ir_tolerance_seconds r * 1000000000) else defaultReplayWindow)"

definition rateLimit :: "ingress_route \<Rightarrow> int" where
  "rateLimit r = (if 0 < ir_rate_per_minute r then ir_rate_per_minute r else defaultRouteRate)"

datatype route_error = BadRouteName | NoRouteGraph | BadEncoding | NoSecretEnv | EmptySecret

definition or_else :: "string \<Rightarrow> string \<Rightarrow> string" where
  "or_else s d = (if s = [] then d else s)"

definition with_defaults :: "ingress_route \<Rightarrow> ingress_route" where
  "with_defaults r =
     r\<lparr>ir_port := or_else (ir_port r) ''text_out'', ir_schema := or_else (ir_schema r) ''std/text@1'',
       ir_signature_header := or_else (ir_signature_header r) ''X-Signature-256'',
       ir_signature_encoding := or_else (ir_signature_encoding r) ''hex''\<rparr>"

definition normalize :: "(string \<Rightarrow> string) \<Rightarrow> ingress_route \<Rightarrow> route_error + ingress_route" where
  "normalize env r =
     (let r = r\<lparr>ir_name := ToLower (TrimSpace (ir_name r))\<rparr> in
      if \<not> ingressNameRe (ir_name r) then Inl BadRouteName
      else if TrimSpace (ir_graph r) = [] then Inl NoRouteGraph
      else (let r = with_defaults r in
            if ir_signature_encoding r \<noteq> ''hex'' \<and> ir_signature_encoding r \<noteq> ''base64'' then Inl BadEncoding
            else if ir_unsigned r then Inr r
            else if ir_secret_env r = [] then Inl NoSecretEnv
            else if env (ir_secret_env r) = [] then Inl EmptySecret
            else Inr r))"

section \<open>Verifying a delivery\<close>

definition trim_prefix :: "string \<Rightarrow> string \<Rightarrow> string" where
  "trim_prefix s p = (if has_prefix s p then drop (length p) s else s)"

definition ParseInt10 :: "string \<Rightarrow> int option" where
  "ParseInt10 t = (if has_prefix t ''+'' then (if has_prefix t ''+-'' then None else parse_int64 (drop 1 t)) else parse_int64 t)"

text \<open>
  \<^verbatim>\<open>time.Since(time.Unix(s, 0))\<close>: the seconds are counted from the year 1 and wrap, the difference saturates.
\<close>

definition since_unix :: "int \<Rightarrow> int \<Rightarrow> int" where
  "since_unix now seconds =
     (let base = 62135596800; d = now + base * 1000000000 - wrap64 (seconds + base) * 1000000000
      in if d < - (2 ^ 63) then - (2 ^ 63) else if 2 ^ 63 - 1 < d then 2 ^ 63 - 1 else d)"

datatype delivery_error = NoSecret | NoSignature | NoTimestamp | NotATimestamp | Stale | BadSignature

definition checkFreshness :: "int \<Rightarrow> ingress_route \<Rightarrow> string \<Rightarrow> delivery_error option" where
  "checkFreshness now r ts =
     (case ParseInt10 ts of
        None \<Rightarrow> Some NotATimestamp
      | Some seconds \<Rightarrow>
          (let drift = since_unix now seconds;
               drift = (if drift < 0 then wrap64 (- drift) else drift)
           in if drift > tolerance r then Some Stale else None))"

definition signed_bytes :: "ingress_route \<Rightarrow> string \<Rightarrow> bytes \<Rightarrow> bytes" where
  "signed_bytes r ts body = (if ir_timestamp_header r \<noteq> [] then ts @ ''.'' @ body else body)"

definition expected_signature :: "ingress_route \<Rightarrow> bytes \<Rightarrow> bytes \<Rightarrow> string" where
  "expected_signature r secret m =
     (let sum = hmac_sha256 secret m in if ir_signature_encoding r = ''base64'' then b64_encode sum else hex_encode sum)"

definition verify_signed ::
  "int \<Rightarrow> bytes \<Rightarrow> ingress_route \<Rightarrow> string \<Rightarrow> string \<Rightarrow> bytes \<Rightarrow> delivery_error + string" where
  "verify_signed now secret r got ts body =
     (case (if ir_timestamp_header r = [] then None else if ts = [] then Some NoTimestamp else checkFreshness now r ts) of
        Some e \<Rightarrow> Inl e
      | None \<Rightarrow>
          if ToLower got \<noteq> ToLower (expected_signature r secret (signed_bytes r ts body)) then Inl BadSignature else Inr got)"

definition verify_delivery ::
  "(string \<Rightarrow> string) \<Rightarrow> int \<Rightarrow> ingress_route \<Rightarrow> string \<Rightarrow> string \<Rightarrow> bytes \<Rightarrow> delivery_error + string" where
  "verify_delivery env now r sigHeader tsHeader body =
     (if ir_unsigned r then Inr (hex_encode (sha256 body))
      else if env (ir_secret_env r) = [] then Inl NoSecret
      else (let got = TrimSpace (trim_prefix (TrimSpace sigHeader) (ir_signature_prefix r)) in
            if got = [] then Inl NoSignature
            else verify_signed now (env (ir_secret_env r)) r got (TrimSpace tsHeader) body))"

definition deliveryDigest :: "string \<Rightarrow> string" where
  "deliveryDigest signature = hex_encode (sha256 signature)"

definition hookPayload :: "bytes \<Rightarrow> string \<Rightarrow> bytes" where
  "hookPayload body contentType =
     (if contains (ToLower contentType) ''json'' \<and> json_parse body \<noteq> None then body
      else json_print (JObj [(''final'', JBool True), (''text'', JStr body)]))"

section \<open>The gateway's state\<close>

record gateway_state =
  gt_node :: node_state
  gt_routes :: "(string \<times> ingress_route) list"
  gt_loaded :: bool
  gt_rate :: "(string \<times> (int \<times> int)) list"
  gt_pending :: "(string \<times> int) list"

definition invalidateRoutes :: "gateway_state \<Rightarrow> gateway_state" where
  "invalidateRoutes g = g\<lparr>gt_loaded := False, gt_routes := []\<rparr>"

definition decode_routes :: "(string \<times> bytes) list \<Rightarrow> (string \<times> ingress_route) list" where
  "decode_routes rows =
     concat (map (\<lambda>(k, raw). case Unmarshal_Route raw of None \<Rightarrow> [] | Some r \<Rightarrow> [(k, r)]) rows)"

definition loadRoute :: "bool \<Rightarrow> string \<Rightarrow> gateway_state \<Rightarrow> gateway_state \<times> ingress_route option" where
  "loadRoute fault name g =
     (if gt_loaded g then (g, al_get (gt_routes g) name)
      else (case LoadIngress fault (nd_tables (gt_node g)) of
              Inl _ \<Rightarrow> (g, None)
            | Inr rows \<Rightarrow> (g\<lparr>gt_routes := decode_routes rows, gt_loaded := True\<rparr>, al_get (decode_routes rows) name)))"

definition on_tables :: "(tables \<Rightarrow> tables) \<Rightarrow> gateway_state \<Rightarrow> gateway_state" where
  "on_tables f g = g\<lparr>gt_node := (gt_node g)\<lparr>nd_tables := f (nd_tables (gt_node g))\<rparr>\<rparr>"

text \<open>\<open>body\<close>: the decoded route, \<open>None\<close> when it was not decoded. The answer is the status.\<close>

definition declareIngress ::
  "(string \<Rightarrow> string) \<Rightarrow> (nat \<Rightarrow> bool) \<Rightarrow> ingress_route option \<Rightarrow> gateway_state \<Rightarrow> gateway_state \<times> nat" where
  "declareIngress env io body g =
     (case body of
        None \<Rightarrow> (g, 400)
      | Some r \<Rightarrow>
          (case normalize env r of
             Inl _ \<Rightarrow> (g, 422)
           | Inr r \<Rightarrow>
               (case LoadGraph (io 0) (ir_graph r) (nd_tables (gt_node g)) of
                  Inl _ \<Rightarrow> (g, 422)
                | Inr _ \<Rightarrow>
                    (case SaveIngress (io 1) (ir_name r) (Marshal_Route r) (nd_tables (gt_node g)) of
                       Inl _ \<Rightarrow> (g, 500)
                     | Inr t \<Rightarrow> (invalidateRoutes (on_tables (\<lambda>_. t) g), 201)))))"

definition listIngress :: "bool \<Rightarrow> gateway_state \<Rightarrow> nat \<times> ingress_route list" where
  "listIngress fault g =
     (case LoadIngress fault (nd_tables (gt_node g)) of
        Inl _ \<Rightarrow> (500, [])
      | Inr rows \<Rightarrow> (200, sort_key ir_name (map snd (decode_routes rows))))"

definition deleteIngress :: "(nat \<Rightarrow> bool) \<Rightarrow> string \<Rightarrow> gateway_state \<Rightarrow> gateway_state \<times> nat" where
  "deleteIngress io name g =
     (case loadRoute (io 0) name g of
        (g, None) \<Rightarrow> (g, 404)
      | (g, Some _) \<Rightarrow>
          (case DeleteIngress (io 1) name (nd_tables (gt_node g)) of
             Inl _ \<Rightarrow> (g, 500)
           | Inr t \<Rightarrow> (invalidateRoutes (on_tables (\<lambda>_. t) g), 200)))"

section \<open>Rates and the reaper\<close>

definition hookRate :: "int \<Rightarrow> string \<Rightarrow> int \<Rightarrow> gateway_state \<Rightarrow> gateway_state \<times> bool" where
  "hookRate now route perMinute g =
     (if perMinute \<le> 0 then (g, True)
      else
        (let windows = gt_rate g;
             windows = (if al_get windows route = None \<and> 4096 < length windows then [] else windows);
             (start, count) = (case al_get windows route of None \<Rightarrow> (now, 0) | Some w \<Rightarrow> w);
             (start, count) = (if now - start \<ge> 60 * 1000000000 then (now, 0) else (start, count))
         in if perMinute \<le> count then (g\<lparr>gt_rate := al_put route (start, count) windows\<rparr>, False)
            else (g\<lparr>gt_rate := al_put route (start, count + 1) windows\<rparr>, True)))"

definition reapSession :: "int \<Rightarrow> string \<Rightarrow> gateway_state \<Rightarrow> gateway_state" where
  "reapSession now i g = g\<lparr>gt_pending := gt_pending g @ [(i, now + ingressSessionTTL)]\<rparr>"

text \<open>The due heads of the queue, each ended in turn; the clock is read again after each, so \<open>now\<close> is indexed by it.\<close>

fun reap_due :: "(nat \<Rightarrow> bool) \<Rightarrow> (nat \<Rightarrow> int) \<Rightarrow> nat \<Rightarrow> (string \<times> int) list \<Rightarrow> gateway_state \<Rightarrow> gateway_state" where
  "reap_due fault now k [] g = g\<lparr>gt_pending := []\<rparr>"
| "reap_due fault now k ((i, due) # rest) g =
     (if due \<le> now k then
        reap_due fault now (k + 1) rest (g\<lparr>gt_node := manager_End (fault k) (unix_milli (now k)) i (gt_node g)\<rparr>)
      else g\<lparr>gt_pending := (i, due) # rest\<rparr>)"

definition reaper_run :: "(nat \<Rightarrow> bool) \<Rightarrow> (nat \<Rightarrow> int) \<Rightarrow> gateway_state \<Rightarrow> gateway_state" where
  "reaper_run fault now g = reap_due fault now 0 (gt_pending g) g"

section \<open>A delivery\<close>

text \<open>
  What a delivery contacts: the environment, the failures of the calls and the clock by their place in the handler,
  the ids drawn, how its session's start and routing go. \<open>ho_body\<close> is \<open>None\<close> when the body could not be read.
\<close>

record hook_call =
  ho_name :: string
  ho_header :: "string \<Rightarrow> string"
  ho_body :: "bytes option"
  ho_env :: "string \<Rightarrow> string"
  ho_fault :: "nat \<Rightarrow> bool"
  ho_now :: "nat \<Rightarrow> int"
  ho_session :: string
  ho_id :: string
  ho_world :: world
  ho_fuel :: nat

definition hook_envelope :: "hook_call \<Rightarrow> ingress_route \<Rightarrow> string \<Rightarrow> bytes \<Rightarrow> envelope" where
  "hook_envelope c r digest body =
     zero_envelope\<lparr>ev_v := ProtocolMajor, ev_id := ho_id c, ev_session := ho_session c, ev_node := ClientRef, ev_port := ir_port r,
       ev_seq := 1, ev_idem := ''hook:'' @ ho_name c @ '':'' @ digest, ev_schema := ir_schema r, ev_kind := KindData,
       ev_payload := hookPayload body (ho_header c ''Content-Type'')\<rparr>"

text \<open>From the replay check on; \<open>None\<close> when routing does not return.\<close>

definition run_hook :: "hook_call \<Rightarrow> ingress_route \<Rightarrow> string \<Rightarrow> bytes \<Rightarrow> gateway_state \<Rightarrow> (gateway_state \<times> nat) option" where
  "run_hook c r digest body g =
     (case manager_Start (wo_other (ho_world c)) (\<lambda>k. ho_fault c (k + 3)) (\<lambda>k. ho_fault c (k + 5)) (\<not> ho_fault c 7)
             (unix_milli (ho_now c 4)) (ho_session c) (ir_graph r) [] (gt_node g) of
        (nd, Inl _) \<Rightarrow> Some (g\<lparr>gt_node := nd\<rparr>, 503)
      | (nd, Inr k) \<Rightarrow>
          (case route_object (ho_fuel c) (ho_world c) k (hook_envelope c r digest body) nd of
             None \<Rightarrow> None
           | Some nd \<Rightarrow> Some (reapSession (ho_now c 5) (ho_session c) (g\<lparr>gt_node := nd\<rparr>), 202)))"

definition check_replay :: "hook_call \<Rightarrow> ingress_route \<Rightarrow> string \<Rightarrow> bytes \<Rightarrow> gateway_state \<Rightarrow> (gateway_state \<times> nat) option" where
  "check_replay c r signature body g =
     (case SeenIngressDelivery (\<lambda>k. ho_fault c (k + 1)) (ho_now c 2) (ho_now c 3) (ho_name c) (deliveryDigest signature)
             (tolerance r) (nd_tables (gt_node g)) of
        (t, Inl _) \<Rightarrow> Some (on_tables (\<lambda>_. t) g, 500)
      | (t, Inr True) \<Rightarrow> Some (on_tables (\<lambda>_. t) g, 200)
      | (t, Inr False) \<Rightarrow> run_hook c r (deliveryDigest signature) body (on_tables (\<lambda>_. t) g))"

definition receiveHook :: "hook_call \<Rightarrow> gateway_state \<Rightarrow> (gateway_state \<times> nat) option" where
  "receiveHook c g =
     (case loadRoute (ho_fault c 0) (ho_name c) g of
        (g, None) \<Rightarrow> Some (g, 404)
      | (g, Some r) \<Rightarrow>
          (case hookRate (ho_now c 0) (ho_name c) (rateLimit r) g of
             (g, False) \<Rightarrow> Some (g, 429)
           | (g, True) \<Rightarrow>
               (case ho_body c of
                  None \<Rightarrow> Some (g, 400)
                | Some raw \<Rightarrow>
                    (let body = take maxIngressBody raw in
                     case verify_delivery (ho_env c) (ho_now c 1) r (ho_header c (ir_signature_header r))
                            (ho_header c (ir_timestamp_header r)) body of
                       Inl _ \<Rightarrow> Some (g, 401)
                     | Inr signature \<Rightarrow> check_replay c r signature body g))))"

end
