(* ===== verification/Ingress_Properties.thy ===== *)
theory Ingress_Properties
  imports Ingress Wiring_Properties
begin

text \<open>
  Inbound deliveries: what is acted on was signed and is fresh, is acted on once, and sessions the ingress opens end.
\<close>

section \<open>What a delivery leaves alone\<close>

lemma Start_tables: "manager_Start other fault io readable now i gr u nd = (nd', r) \<Longrightarrow> nd_tables nd' = nd_tables nd"
  by (auto simp: manager_Start_def split: sum.splits if_splits prod.splits)

lemma route_object_tables: "route_object fuel w k env nd = Some nd' \<Longrightarrow> nd_tables nd' = nd_tables nd"
  by (auto simp: route_object_def unmount_def split: if_splits)

lemma run_hook_keeps:
  assumes "run_hook c r digest body g = Some (g', n)"
  shows "nd_tables (gt_node g') = nd_tables (gt_node g) \<and> gt_routes g' = gt_routes g \<and> gt_loaded g' = gt_loaded g \<and> n \<in> {202, 503}"
  using assms Start_tables route_object_tables
  by (fastforce simp: run_hook_def reapSession_def split: prod.splits sum.splits option.splits)

definition seen_in :: "string \<Rightarrow> string \<Rightarrow> int \<Rightarrow> gateway_state \<Rightarrow> bool" where
  "seen_in route digest t g \<longleftrightarrow>
     (\<exists>row \<in> set (tb_seen (nd_tables (gt_node g))). sw_route row = route \<and> sw_digest row = digest \<and> t \<le> sw_ts row)"

lemma hookRate_keeps: "hookRate now i m g = (g', ok) \<Longrightarrow> gt_node g' = gt_node g \<and> gt_routes g' = gt_routes g \<and> gt_loaded g' = gt_loaded g"
  by (auto simp: hookRate_def Let_def split: if_splits option.splits prod.splits)

lemma Seen_keeps:
  assumes "SeenIngressDelivery io n1 n2 i d win t = (t', r)" "row \<in> set (tb_seen t)" "unix_milli (n1 - win) < sw_ts row"
  shows "row \<in> set (tb_seen t')"
  using assms by (auto simp: SeenIngressDelivery_def Let_def split: if_splits)

lemma Seen_new:
  assumes "SeenIngressDelivery io n1 n2 i d win t = (t', Inr False)"
  shows "\<exists>row \<in> set (tb_seen t'). sw_route row = i \<and> sw_digest row = d \<and> unix_milli n2 \<le> sw_ts row"
  using assms by (auto simp: SeenIngressDelivery_def Let_def split: if_splits)

lemma Seen_again:
  assumes "SeenIngressDelivery io n1 n2 i d win t = (t', r)" "row \<in> set (tb_seen t)" "sw_route row = i" "sw_digest row = d"
    "unix_milli (n1 - win) < sw_ts row"
  shows "r \<noteq> Inr False"
  using assms by (auto simp: SeenIngressDelivery_def Let_def list_ex_iff split: if_splits)

section \<open>The parts of an accepted delivery\<close>

definition presented_signature :: "hook_call \<Rightarrow> ingress_route \<Rightarrow> bytes \<Rightarrow> delivery_error + string" where
  "presented_signature c r body =
     verify_delivery (ho_env c) (ho_now c 1) r (ho_header c (ir_signature_header r)) (ho_header c (ir_timestamp_header r)) body"

text \<open>An answer after the replay check let the delivery through.\<close>

definition let_through :: "(gateway_state \<times> nat) option \<Rightarrow> bool" where
  "let_through x \<longleftrightarrow> (case x of None \<Rightarrow> True | Some (_, n) \<Rightarrow> n \<in> {202, 503})"

lemma taken_up:
  assumes "let_through (receiveHook c g)"
  obtains r raw sig g1 g2 where "loadRoute (ho_fault c 0) (ho_name c) g = (g1, Some r)"
    "hookRate (ho_now c 0) (ho_name c) (rateLimit r) g1 = (g2, True)" "ho_body c = Some raw"
    "presented_signature c r (take maxIngressBody raw) = Inr sig"
    "receiveHook c g = check_replay c r sig (take maxIngressBody raw) g2"
  using assms by (auto simp: let_through_def receiveHook_def presented_signature_def Let_def split: prod.splits option.splits bool.splits sum.splits)

lemma loadRoute_loaded: "loadRoute fault i g = (g1, Some r) \<Longrightarrow> gt_loaded g1 \<and> al_get (gt_routes g1) i = Some r \<and> gt_node g1 = gt_node g"
  by (auto simp: loadRoute_def split: if_splits sum.splits)

lemma loadRoute_again: "gt_loaded g \<Longrightarrow> loadRoute fault i g = (g, al_get (gt_routes g) i)"
  by (simp add: loadRoute_def)

lemma check_replay_new:
  assumes "let_through (check_replay c r sig body g)"
  obtains t where "SeenIngressDelivery (\<lambda>k. ho_fault c (k + 1)) (ho_now c 2) (ho_now c 3) (ho_name c) (deliveryDigest sig) (tolerance r)
      (nd_tables (gt_node g)) = (t, Inr False)"
    "check_replay c r sig body g = run_hook c r (deliveryDigest sig) body (on_tables (\<lambda>_. t) g)"
  using assms by (auto simp: let_through_def check_replay_def split: prod.splits sum.splits bool.splits)

lemma on_tables_simps [simp]:
  "nd_tables (gt_node (on_tables f g)) = f (nd_tables (gt_node g))" "gt_routes (on_tables f g) = gt_routes g"
  "gt_loaded (on_tables f g) = gt_loaded g" "nd_objects (gt_node (on_tables f g)) = nd_objects (gt_node g)"
  by (simp_all add: on_tables_def)

lemma taken_up_seen:
  assumes "receiveHook c g = Some (g', n)" "n \<in> {202, 503}"
  shows "\<exists>r raw sig. al_get (gt_routes g') (ho_name c) = Some r \<and> gt_loaded g' \<and> ho_body c = Some raw
     \<and> presented_signature c r (take maxIngressBody raw) = Inr sig
     \<and> seen_in (ho_name c) (deliveryDigest sig) (unix_milli (ho_now c 3)) g'"
proof -
  have through: "let_through (receiveHook c g)" using assms by (simp add: let_through_def)
  obtain r raw sig g1 g2 where P: "loadRoute (ho_fault c 0) (ho_name c) g = (g1, Some r)"
      "hookRate (ho_now c 0) (ho_name c) (rateLimit r) g1 = (g2, True)" "ho_body c = Some raw"
      "presented_signature c r (take maxIngressBody raw) = Inr sig"
      "receiveHook c g = check_replay c r sig (take maxIngressBody raw) g2"
    using taken_up [OF through] .
  obtain t where t: "SeenIngressDelivery (\<lambda>k. ho_fault c (k + 1)) (ho_now c 2) (ho_now c 3) (ho_name c) (deliveryDigest sig) (tolerance r)
      (nd_tables (gt_node g2)) = (t, Inr False)"
    "receiveHook c g = run_hook c r (deliveryDigest sig) (take maxIngressBody raw) (on_tables (\<lambda>_. t) g2)"
    using check_replay_new through P(5) by metis
  have run: "run_hook c r (deliveryDigest sig) (take maxIngressBody raw) (on_tables (\<lambda>_. t) g2) = Some (g', n)"
    using t(2) assms(1) by simp
  have "gt_routes g' = gt_routes g1" "gt_loaded g' = gt_loaded g1" "nd_tables (gt_node g') = t"
    using run_hook_keeps [OF run] hookRate_keeps [OF P(2)] by simp_all
  then show ?thesis
    using loadRoute_loaded [OF P(1)] P(3,4) Seen_new [OF t(1)] by (auto simp: seen_in_def)
qed

section \<open>Remembering\<close>

text \<open>A delivery whose own window still covers what was seen at time \<open>t\<close> (in milliseconds).\<close>

definition still_remembers :: "(string \<times> ingress_route) list \<Rightarrow> int \<Rightarrow> hook_call \<Rightarrow> bool" where
  "still_remembers routes t c \<longleftrightarrow> (\<forall>r. al_get routes (ho_name c) = Some r \<longrightarrow> unix_milli (ho_now c 2 - tolerance r) < t)"

lemma receiveHook_keeps:
  assumes "receiveHook c g = Some (g', n)" "gt_loaded g" "still_remembers (gt_routes g) t c" "seen_in i d t g"
  shows "gt_loaded g' \<and> gt_routes g' = gt_routes g \<and> seen_in i d t g'"
proof (cases "al_get (gt_routes g) (ho_name c)")
  case None
  then show ?thesis using assms by (simp add: receiveHook_def loadRoute_again)
next
  case (Some r)
  obtain g1 ok where h: "hookRate (ho_now c 0) (ho_name c) (rateLimit r) g = (g1, ok)" by fastforce
  note H = hookRate_keeps [OF h]
  have seen: "seen_in i d t (on_tables (\<lambda>_. t') g1)"
    if "SeenIngressDelivery io (ho_now c 2) n2 j d' (tolerance r) (nd_tables (gt_node g1)) = (t', out)" for io n2 j d' t' out
    using that assms(3,4) Some H Seen_keeps [OF that] by (fastforce simp: seen_in_def still_remembers_def)
  have run: "gt_loaded g' \<and> gt_routes g' = gt_routes g \<and> seen_in i d t g'"
    if "run_hook c r dg body (on_tables (\<lambda>_. t') g1) = Some (g', n)" "seen_in i d t (on_tables (\<lambda>_. t') g1)" for dg body t'
    using run_hook_keeps [OF that(1)] that(2) H assms(2) by (simp add: seen_in_def)
  have chk: "gt_loaded g' \<and> gt_routes g' = gt_routes g \<and> seen_in i d t g'"
    if "check_replay c r sig body g1 = Some (g', n)" for sig body
    using that seen run H assms(2) by (auto simp: check_replay_def split: prod.splits sum.splits bool.splits)
  have "gt_loaded g1 \<and> gt_routes g1 = gt_routes g \<and> seen_in i d t g1" using H assms(2,4) by (simp add: seen_in_def)
  then show ?thesis
    using assms(1) Some h chk
    by (auto simp: receiveHook_def loadRoute_again [OF assms(2)] Let_def split: bool.splits option.splits sum.splits)
qed

fun hook_run :: "hook_call list \<Rightarrow> gateway_state \<Rightarrow> gateway_state option" where
  "hook_run [] g = Some g"
| "hook_run (c # cs) g = (case receiveHook c g of None \<Rightarrow> None | Some (g', _) \<Rightarrow> hook_run cs g')"

lemma hook_run_keeps:
  "hook_run cs g = Some g' \<Longrightarrow> gt_loaded g \<Longrightarrow> list_all (still_remembers (gt_routes g) t) cs \<Longrightarrow> seen_in i d t g \<Longrightarrow>
   gt_loaded g' \<and> gt_routes g' = gt_routes g \<and> seen_in i d t g'"
proof (induction cs arbitrary: g)
  case (Cons c cs)
  then obtain g1 n where g1: "receiveHook c g = Some (g1, n)" "hook_run cs g1 = Some g'" by (auto split: option.splits)
  have k: "gt_loaded g1 \<and> gt_routes g1 = gt_routes g \<and> seen_in i d t g1"
    by (rule receiveHook_keeps [OF g1(1)]) (use Cons.prems in simp_all)
  then show ?case using Cons.IH [OF g1(2)] Cons.prems by simp
qed simp

section \<open>Once\<close>

lemma verify_Inr:
  "verify_delivery env now r sh th body = Inr sig \<Longrightarrow>
   sig = (if ir_unsigned r then hex_encode (sha256 body) else TrimSpace (trim_prefix (TrimSpace sh) (ir_signature_prefix r)))"
  by (auto simp: verify_delivery_def verify_signed_def Let_def split: if_splits option.splits)

lemma check_replay_refused:
  "check_replay c r sig body g = Some (g', n) \<Longrightarrow> n \<notin> {202, 503} \<Longrightarrow> \<exists>t. gt_node g' = (gt_node g)\<lparr>nd_tables := t\<rparr>"
  using run_hook_keeps by (fastforce simp: check_replay_def on_tables_def split: prod.splits sum.splits bool.splits)

lemma loadRoute_node: "loadRoute fault i g = (g1, x) \<Longrightarrow> gt_node g1 = gt_node g"
  by (auto simp: loadRoute_def split: if_splits sum.splits)

lemma receiveHook_refused:
  assumes "receiveHook c g = Some (g', n)" "n \<notin> {202, 503}"
  shows "\<exists>t. gt_node g' = (gt_node g)\<lparr>nd_tables := t\<rparr>"
proof -
  have id: "\<exists>t. nd = nd\<lparr>nd_tables := t\<rparr>" for nd :: node_state by (rule exI [of _ "nd_tables nd"]) simp
  obtain g1 x where l: "loadRoute (ho_fault c 0) (ho_name c) g = (g1, x)" by fastforce
  note L = loadRoute_node [OF l]
  show ?thesis
  proof (cases x)
    case None
    then have "gt_node g' = gt_node g" using assms(1) l L by (auto simp: receiveHook_def)
    then show ?thesis using id [of "gt_node g"] by metis
  next
    case (Some r)
    obtain g2 ok where h: "hookRate (ho_now c 0) (ho_name c) (rateLimit r) g1 = (g2, ok)" by fastforce
    have node: "gt_node g2 = gt_node g" using hookRate_keeps [OF h] L by simp
    have "gt_node g' = gt_node g \<or> (\<exists>sig body. check_replay c r sig body g2 = Some (g', n))"
      using assms(1) l Some h node
      by (auto simp: receiveHook_def Let_def split: bool.splits option.splits sum.splits)
    then show ?thesis using id [of "gt_node g"] check_replay_refused [OF _ assms(2)] node by metis
  qed
qed

text \<open>C37: A delivery that was acted on, or that was taken up and then could not get a session, is not acted on again: the
  very same headers and body presented to the same route, with any other deliveries in between, are answered without a
  session, and nothing of the node but its tables changes, as long as every delivery since, to whatever route, comes
  within its own route's window of the time the first was seen. (One to a route with a shorter window that comes
  later makes the node forget; and a signature with a letter in another case is not the same header.)\<close>

theorem delivery_runs_once:
  assumes first: "receiveHook c g = Some (g1, n)" "n \<in> {202, 503}"
    and between: "hook_run cs g1 = Some g2"
    and same: "ho_name c' = ho_name c" "ho_header c' = ho_header c" "ho_body c' = ho_body c"
    and window: "list_all (still_remembers (gt_routes g1) (unix_milli (ho_now c 3))) (cs @ [c'])"
  shows "\<exists>g3 m t. receiveHook c' g2 = Some (g3, m) \<and> m \<notin> {202, 503} \<and> gt_node g3 = (gt_node g2)\<lparr>nd_tables := t\<rparr>"
proof -
  let ?t = "unix_milli (ho_now c 3)"
  obtain r raw sig where F: "al_get (gt_routes g1) (ho_name c) = Some r" "gt_loaded g1" "ho_body c = Some raw"
      "presented_signature c r (take maxIngressBody raw) = Inr sig" "seen_in (ho_name c) (deliveryDigest sig) ?t g1"
    using taken_up_seen [OF first] by blast
  have w: "list_all (still_remembers (gt_routes g1) ?t) cs" "still_remembers (gt_routes g1) ?t c'" using window by simp_all
  have K: "gt_loaded g2" "gt_routes g2 = gt_routes g1" "seen_in (ho_name c) (deliveryDigest sig) ?t g2"
    using hook_run_keeps [OF between F(2) w(1) F(5)] by simp_all
  have "\<not> let_through (receiveHook c' g2)"
  proof
    assume m: "let_through (receiveHook c' g2)"
    obtain r' raw' sig' h1 h2 where P: "loadRoute (ho_fault c' 0) (ho_name c') g2 = (h1, Some r')"
        "hookRate (ho_now c' 0) (ho_name c') (rateLimit r') h1 = (h2, True)" "ho_body c' = Some raw'"
        "presented_signature c' r' (take maxIngressBody raw') = Inr sig'"
        "receiveHook c' g2 = check_replay c' r' sig' (take maxIngressBody raw') h2"
      using taken_up [OF m] .
    have r': "r' = r" "h1 = g2" using P(1) K(1,2) F(1) same(1) by (simp_all add: loadRoute_again)
    have "raw' = raw" using P(3) F(3) same(3) by simp
    then have sig: "sig' = sig"
      using verify_Inr [OF P(4) [unfolded presented_signature_def]] verify_Inr [OF F(4) [unfolded presented_signature_def]] r' same(2)
      by simp
    obtain t where t: "SeenIngressDelivery (\<lambda>k. ho_fault c' (k + 1)) (ho_now c' 2) (ho_now c' 3) (ho_name c') (deliveryDigest sig') (tolerance r')
        (nd_tables (gt_node h2)) = (t, Inr False)"
      using check_replay_new m P(5) by metis
    have "seen_in (ho_name c) (deliveryDigest sig) ?t h2" using K(3) hookRate_keeps [OF P(2)] r'(2) by (simp add: seen_in_def)
    then obtain row where row: "row \<in> set (tb_seen (nd_tables (gt_node h2)))" "sw_route row = ho_name c'" "sw_digest row = deliveryDigest sig'" "?t \<le> sw_ts row"
      using same(1) sig by (auto simp: seen_in_def)
    have "unix_milli (ho_now c' 2 - tolerance r') < sw_ts row"
      using w(2) F(1) r' same(1) row(4) by (force simp: still_remembers_def)
    from Seen_again [OF t row(1-3) this] show False by simp
  qed
  then obtain g3 m where "receiveHook c' g2 = Some (g3, m)" "m \<notin> {202, 503}"
    by (auto simp: let_through_def split: option.splits)
  then show ?thesis using receiveHook_refused by blast
qed

section \<open>Signed\<close>




section \<open>A delivery for the witnesses\<close>

definition toy_doc :: json where
  "toy_doc = JObj [(''ir'', JStr ''1''), (''graph_id'', JStr ''g''), (''origin'', JObj [(''kind'', JStr ''declared'')]),
     (''nodes'', JArr [JObj [(''ref'', JStr ''pay''), (''resolve'', JStr ''motor.erp.pay'')]]),
     (''edges'', JArr [JObj [(''from'', JStr ''client.out''), (''to'', JStr ''pay.in'')]])]"

definition toy_ir :: bytes where "toy_ir = json_print toy_doc"

lemma toy_ir_parses: "ParseGraph (\<lambda>_. None) toy_ir = Inr toy_graph"
proof -
  have "json_parse toy_ir = Some toy_doc"
    unfolding toy_ir_def by (rule json_roundtrip) (simp add: toy_doc_def in_range_def)
  moreover have "to_struct (set_graph (\<lambda>_. None)) zero_graph toy_doc = Some toy_graph" by code_simp
  moreover have "check_graph toy_graph = None" by code_simp
  ultimately show ?thesis by (simp add: ParseGraph_def)
qed

definition hook_tables :: tables where
  "hook_tables = empty_tables\<lparr>tb_graphs := [\<lparr>gw_id = ''g'', gw_ir = toy_ir, gw_created = 0\<rparr>]\<rparr>"

definition hook_node :: node_state where
  "hook_node = \<lparr>nd_objects = [], nd_live = [], nd_registry = one_skill, nd_mode = ''dev'', nd_policy = plain_policy,
     nd_ledger = None, nd_db = empty_db, nd_approvers = None, nd_logs = [],
     nd_events = \<lparr>es_log = \<lparr>sl_opt = \<lparr>op_sync = True, op_segment_bytes = 0, op_max_bytes = 0, op_max_indexed = 0\<rparr>, sl_segs = [(0, 0)],
       sl_idx = [], sl_indexed = 0, sl_clock = 0, sl_damage = [], sl_bytes = 0, sl_open = True, sl_werr = False, sl_closing = False,
       sl_files = []\<rparr>, es_sessions = [], es_legacy = []\<rparr>,
     nd_tables = hook_tables, nd_max_sessions = 10\<rparr>"

definition hook_route :: ingress_route where
  "hook_route = zero_route\<lparr>ir_name := ''erp'', ir_graph := ''g'', ir_port := ''out'', ir_schema := ''std/text@1'', ir_secret_env := ''KEY'',
     ir_signature_header := ''X-Sig'', ir_signature_encoding := ''base64''\<rparr>"

definition hook_gateway :: gateway_state where
  "hook_gateway = \<lparr>gt_node = hook_node, gt_routes = [(''erp'', hook_route)], gt_loaded = True, gt_rate = [], gt_pending = []\<rparr>"

definition toy_delivery :: hook_call where
  "toy_delivery = \<lparr>ho_name = ''erp'', ho_header = (\<lambda>h. if h = ''X-Sig'' then b64_encode (hmac_sha256 ''k'' ''{}'') else []),
     ho_body = Some ''{}'', ho_env = (\<lambda>v. if v = ''KEY'' then ''k'' else []), ho_fault = (\<lambda>_. False), ho_now = (\<lambda>_. 5000000),
     ho_session = ''s1'', ho_id = ''m1'', ho_world = toy_world, ho_fuel = 1\<rparr>"

lemma toy_signature: "presented_signature toy_delivery hook_route ''{}'' = Inr (b64_encode (hmac_sha256 ''k'' ''{}''))"
proof -
  have "length (hmac_sha256 ''k'' ''{}'') = 32" unfolding hmac_sha256_def by (rule length_sha256)
  then have ne: "b64_encode (hmac_sha256 ''k'' ''{}'') \<noteq> []"
    by (cases "hmac_sha256 ''k'' ''{}''" rule: b64_encode.cases) auto
  then show ?thesis
    by (simp add: presented_signature_def verify_delivery_def verify_signed_def toy_delivery_def hook_route_def zero_route_def
        trim_prefix_def has_prefix_def signed_bytes_def expected_signature_def Let_def)
qed

lemma NewSession_no_log:
  "NewSession io readable i g reg db [] mode pol ldg u = (reg', Inr s) \<Longrightarrow> \<exists>routes. s = fresh_session i g pol ldg db [] u routes"
  by (auto simp: NewSession_def resumeFromLog_def SessionEvents_def fresh_session_def Let_def split: prod.splits sum.splits option.splits if_splits)

lemma toy_start:
  "\<exists>nd routes. manager_Start (\<lambda>_. None) (\<lambda>_. False) (\<lambda>_. False) True 5 ''s1'' ''g'' [] (hook_node\<lparr>nd_tables := hook_tables\<lparr>tb_seen := seen\<rparr>\<rparr>) = (nd, Inr 0)
     \<and> nd_objects nd = [fresh_session ''s1'' toy_graph plain_policy None empty_db [] [] routes]
     \<and> nd_policy nd = plain_policy \<and> nd_ledger nd = None \<and> nd_db nd = empty_db \<and> nd_approvers nd = None \<and> nd_logs nd = []"
proof -
  obtain reg s where s: "NewSession (\<lambda>_. False) True ''s1'' toy_graph one_skill empty_db [] ''dev'' plain_policy None [] = (reg, Inr s)"
    using toy_new_session by blast
  obtain routes where r: "s = fresh_session ''s1'' toy_graph plain_policy None empty_db [] [] routes"
    using NewSession_no_log [OF s] by blast
  have "s\<lparr>sn_approvers := None\<rparr> = s" using r by (simp add: fresh_session_def)
  then show ?thesis
    using s r by (simp add: manager_Start_def LoadGraph_def hook_node_def hook_tables_def empty_tables_def toy_ir_parses
        LiveSessions_def log_of_def StartSession_def) blast
qed

lemma toy_routed:
  "\<exists>s'. Route 1 toy_world env (fresh_session ''s1'' toy_graph plain_policy None empty_db [] [] routes) = Some s'"
  using Route_total [of "\<lambda>_. 0" "fresh_session ''s1'' toy_graph plain_policy None empty_db [] [] routes" toy_world 0 env]
  by (auto simp: sealable_def pins_descend_def fresh_session_def)

lemma toy_accepted: "\<exists>g'. receiveHook toy_delivery hook_gateway = Some (g', 202)"
proof -
  let ?sig = "b64_encode (hmac_sha256 ''k'' ''{}'')"
  let ?seen = "[\<lparr>sw_route = ''erp'', sw_digest = deliveryDigest ?sig, sw_ts = 5\<rparr>]"
  obtain g2 where h: "hookRate 5000000 ''erp'' (rateLimit hook_route) hook_gateway = (g2, True)"
    by (simp add: hookRate_def rateLimit_def hook_route_def zero_route_def defaultRouteRate_def hook_gateway_def)
  have node: "gt_node g2 = hook_node" using hookRate_keeps [OF h] by (simp add: hook_gateway_def)
  have seen: "SeenIngressDelivery (\<lambda>k. False) 5000000 5000000 ''erp'' (deliveryDigest ?sig) (tolerance hook_route) hook_tables
      = (hook_tables\<lparr>tb_seen := ?seen\<rparr>, Inr False)"
    by (simp add: SeenIngressDelivery_def hook_tables_def empty_tables_def unix_milli_def)
  obtain nd routes where st: "manager_Start (\<lambda>_. None) (\<lambda>_. False) (\<lambda>_. False) True 5 ''s1'' ''g'' [] (hook_node\<lparr>nd_tables := hook_tables\<lparr>tb_seen := ?seen\<rparr>\<rparr>) = (nd, Inr 0)"
     "nd_objects nd = [fresh_session ''s1'' toy_graph plain_policy None empty_db [] [] routes]"
     "nd_policy nd = plain_policy" "nd_ledger nd = None" "nd_db nd = empty_db" "nd_approvers nd = None" "nd_logs nd = []"
    using toy_start by blast
  let ?s = "fresh_session ''s1'' toy_graph plain_policy None empty_db [] [] routes"
  have mount: "mount nd ?s = ?s" using st by (simp add: mount_def fresh_session_def log_of_def)
  have ro: "\<exists>nd'. route_object 1 toy_world 0 env nd = Some nd'" for env
    using toy_routed [of env routes] st(2) mount by (auto simp: route_object_def)
  have run: "\<exists>g'. run_hook toy_delivery hook_route (deliveryDigest ?sig) ''{}'' (on_tables (\<lambda>_. hook_tables\<lparr>tb_seen := ?seen\<rparr>) g2) = Some (g', 202)"
    using st(1) ro [of "hook_envelope toy_delivery hook_route (deliveryDigest ?sig) ''{}''"]
    by (auto simp: run_hook_def on_tables_def node toy_delivery_def toy_world_def hook_route_def unix_milli_def)
  have chk: "\<exists>g'. check_replay toy_delivery hook_route ?sig ''{}'' g2 = Some (g', 202)"
    using run seen by (simp add: check_replay_def node toy_delivery_def hook_node_def)
  have body: "take maxIngressBody ''{}'' = ''{}''" by (simp add: maxIngressBody_def)
  have lr: "loadRoute (ho_fault toy_delivery 0) (ho_name toy_delivery) hook_gateway = (hook_gateway, Some hook_route)"
    by (simp add: loadRoute_def hook_gateway_def toy_delivery_def)
  have hr: "hookRate (ho_now toy_delivery 0) (ho_name toy_delivery) (rateLimit hook_route) hook_gateway = (g2, True)"
    using h by (simp add: toy_delivery_def)
  have vs: "verify_delivery (ho_env toy_delivery) (ho_now toy_delivery 1) hook_route (ho_header toy_delivery (ir_signature_header hook_route))
      (ho_header toy_delivery (ir_timestamp_header hook_route)) ''{}'' = Inr ?sig"
    using toy_signature by (simp add: presented_signature_def)
  have bd: "ho_body toy_delivery = Some ''{}''" by (simp add: toy_delivery_def)
  show ?thesis
    using chk vs by (simp add: receiveHook_def lr hr bd body Let_def)
qed


lemma toy_routes_kept:
  assumes "receiveHook toy_delivery hook_gateway = Some (g1, 202)"
  shows "gt_routes g1 = gt_routes hook_gateway"
proof -
  have through: "let_through (receiveHook toy_delivery hook_gateway)" using assms by (simp add: let_through_def)
  obtain r raw sig h1 h2 where P: "loadRoute (ho_fault toy_delivery 0) (ho_name toy_delivery) hook_gateway = (h1, Some r)"
    "hookRate (ho_now toy_delivery 0) (ho_name toy_delivery) (rateLimit r) h1 = (h2, True)"
    "receiveHook toy_delivery hook_gateway = check_replay toy_delivery r sig (take maxIngressBody raw) h2"
    using taken_up [OF through] by metis
  obtain t where "run_hook toy_delivery r (deliveryDigest sig) (take maxIngressBody raw) (on_tables (\<lambda>_. t) h2) = Some (g1, 202)"
    using check_replay_new through P(3) assms by metis
  then have "gt_routes g1 = gt_routes h1" using run_hook_keeps hookRate_keeps [OF P(2)] by fastforce
  moreover have "h1 = hook_gateway" using P(1) loadRoute_again [of hook_gateway] by (simp add: hook_gateway_def)
  ultimately show ?thesis by simp
qed

theorem delivery_runs_once_witness:
  "\<exists>g1 g2 m. receiveHook toy_delivery hook_gateway = Some (g1, 202) \<and> receiveHook toy_delivery g1 = Some (g2, m) \<and> m \<notin> {202, 503}
     \<and> nd_objects (gt_node g2) = nd_objects (gt_node g1)"
proof -
  obtain g1 where g1: "receiveHook toy_delivery hook_gateway = Some (g1, 202)" using toy_accepted by blast
  have w: "still_remembers (gt_routes g1) (unix_milli (ho_now toy_delivery 3)) toy_delivery"
    unfolding toy_routes_kept [OF g1]
    by (simp add: still_remembers_def hook_gateway_def toy_delivery_def hook_route_def zero_route_def tolerance_def
        defaultReplayWindow_def unix_milli_def)
  obtain g2 m t where "receiveHook toy_delivery g1 = Some (g2, m)" "m \<notin> {202, 503}" "gt_node g2 = (gt_node g1)\<lparr>nd_tables := t\<rparr>"
    using delivery_runs_once [OF g1 _ _ refl refl refl, of "[]" g1] w by auto
  then show ?thesis using g1 by auto
qed

end
