(* ===== verification/Guard.thy ===== *)
theory Guard
  imports Ingress Policy Registry Channel
begin

text \<open>
  \<^verbatim>\<open>kernel/internal/guard/guard.go\<close>, with the tool and its annotations of
  \<^verbatim>\<open>kernel/internal/mcpcli/client.go\<close>: the servers of a configuration, the manifest that makes a tool of
  one of them a skill, the skills a run registers, and the call of a tool for one delivered envelope.
  The transport to a server and the socket to the node are outside: what a server lists and what it
  answers are arguments. The quoting of \<^verbatim>\<open>%q\<close>, which reads the Unicode tables, is an argument too.
\<close>

section \<open>Tools\<close>

record annotations =
  an_title :: string
  an_read_only :: "bool option"
  an_destructive :: "bool option"
  an_idempotent :: "bool option"
  an_open_world :: "bool option"

record tool =
  tl_name :: string
  tl_title :: string
  tl_description :: string
  tl_schema :: bytes
  tl_annotations :: "annotations option"

definition ReadOnly :: "tool \<Rightarrow> bool" where
  "ReadOnly t \<longleftrightarrow>
     (case tl_annotations t of
        None \<Rightarrow> False
      | Some a \<Rightarrow>
          (case an_read_only a of
             None \<Rightarrow> False
           | Some ro \<Rightarrow> if an_destructive a = Some True then False else ro))"

record tool_content =
  tc_type :: string
  tc_text :: string

record call_result =
  cr_content :: "tool_content list"
  cr_structured :: "json option"
  cr_is_error :: bool

definition result_Text :: "call_result \<Rightarrow> string" where
  "result_Text r = concat (map tc_text (filter (\<lambda>c. tc_type c = ''text'') (cr_content r)))"

section \<open>The configuration\<close>

record upstream =
  up_name :: string
  up_command :: string
  up_args :: "string list"
  up_env :: "(string \<times> string) list"
  up_url :: string
  up_headers :: "(string \<times> string) list"
  up_disabled :: bool

definition transport :: "upstream \<Rightarrow> string" where
  "transport u = (if up_url u \<noteq> [] then ''http'' else ''stdio'')"

datatype mcp_config_error = ConfigUnparsed | NoServers | NoCommandOrURL string

text \<open>
  The decoding of the document is an argument. The loop ranges over a Go map, so which of two bad
  servers is reported is open; the model's order is that of the list.
\<close>

fun check_servers :: "(string \<times> upstream) list \<Rightarrow> mcp_config_error + (string \<times> upstream) list" where
  "check_servers [] = Inr []"
| "check_servers ((name, u) # rest) =
     (if up_command u = [] \<and> up_url u = [] then Inl (NoCommandOrURL name)
      else (case check_servers rest of
              Inl e \<Rightarrow> Inl e
            | Inr us \<Rightarrow> Inr ((name, u\<lparr>up_name := name\<rparr>) # us)))"

definition ParseConfig ::
  "(bytes \<Rightarrow> (string \<times> upstream) list option) \<Rightarrow> bytes \<Rightarrow> mcp_config_error + (string \<times> upstream) list" where
  "ParseConfig unmarshal raw =
     (case unmarshal raw of
        None \<Rightarrow> Inl ConfigUnparsed
      | Some servers \<Rightarrow> if servers = [] then Inl NoServers else check_servers servers)"

section \<open>Slugs\<close>

definition cap_char :: "char \<Rightarrow> bool" where
  "cap_char c \<longleftrightarrow> lower_digit c \<or> c = CHR ''_'' \<or> c = CHR ''-''"

text \<open>Every longest run of characters outside a class becomes one character.\<close>

function replace_runs :: "(char \<Rightarrow> bool) \<Rightarrow> char \<Rightarrow> string \<Rightarrow> string" where
  "replace_runs P d [] = []"
| "replace_runs P d (c # s) =
     (if P c then c # replace_runs P d s else d # replace_runs P d (dropWhile (\<lambda>c. \<not> P c) s))"
  by pat_completeness auto
termination
  by (relation "measure (\<lambda>(P, d, s). length s)") (auto simp: le_imp_less_Suc length_dropWhile_le)

definition trim_chars :: "string \<Rightarrow> string \<Rightarrow> string" where
  "trim_chars cs s = rev (dropWhile (\<lambda>c. c \<in> set cs) (rev (dropWhile (\<lambda>c. c \<in> set cs) s)))"

definition slug :: "(char \<Rightarrow> bool) \<Rightarrow> char \<Rightarrow> string \<Rightarrow> string \<Rightarrow> string" where
  "slug P d cs s =
     (let out = trim_chars cs (replace_runs P d (ToLower s));
          out = (if out = [] then ''x'' else out)
      in if 48 < length out then trim_chars cs (take 48 out) else out)"

definition slugID :: "string \<Rightarrow> string" where
  "slugID s = slug id_char (CHR ''-'') ''-'' s"

definition slugCap :: "string \<Rightarrow> string" where
  "slugCap s = slug cap_char (CHR ''_'') ''_-'' s"

section \<open>The manifest of a tool\<close>

fun firstNonEmpty :: "string list \<Rightarrow> string" where
  "firstNonEmpty [] = ''tool''"
| "firstNonEmpty (s # ss) = (if TrimSpace s \<noteq> [] then s else firstNonEmpty ss)"

definition gated_note :: string where
  "gated_note = '' [acts on the world '' @ [CHR 0xE2, CHR 0x80, CHR 0x94] @ '' every call is gated]''"

definition read_only_note :: string where
  "read_only_note = '' [declared read-only by its server]''"

definition tool_type :: "tool \<Rightarrow> bool \<Rightarrow> string" where
  "tool_type t trustAnnotations = (if trustAnnotations \<and> ReadOnly t then TypeSensorial else TypeMotor)"

definition manifestFor :: "(string \<Rightarrow> string) \<Rightarrow> string \<Rightarrow> tool \<Rightarrow> bool \<Rightarrow> manifest" where
  "manifestFor quoted server t trustAnnotations =
     (let skillType = tool_type t trustAnnotations;
          desc = TrimSpace (tl_description t);
          desc = (if desc = []
                  then ''Tool '' @ quoted (tl_name t) @ '' on MCP server '' @ quoted server @ ''.''
                  else desc)
      in \<lparr>mf_id = ''mcp/'' @ slugID server @ ''/'' @ slugID (tl_name t),
          mf_version = ''1.0.0'',
          mf_protocol = ProtocolMajor,
          mf_name = firstNonEmpty [tl_title t, tl_name t],
          mf_description = desc @ (if skillType = TypeMotor then gated_note else read_only_note),
          mf_capability = skillType @ ''.mcp.'' @ slugCap server @ ''.'' @ slugCap (tl_name t),
          mf_type = skillType,
          mf_format = ''projection'',
          mf_ingress = [\<lparr>pt_name = ''call'', pt_schema = ''std/api-request@1''\<rparr>],
          mf_egress = [\<lparr>pt_name = ''result'', pt_schema = ''std/api-response@1''\<rparr>],
          mf_config = [], mf_compensates = None\<rparr>)"

section \<open>A run\<close>

record binding =
  bd_server :: string
  bd_tool :: string
  bd_skill :: string
  bd_capability :: string
  bd_type :: string
  bd_read_only :: bool

definition Gated :: "binding \<Rightarrow> bool" where
  "Gated b \<longleftrightarrow> bd_type b = TypeMotor"

text \<open>
  The servers that could be reached, each with its tools: a disabled one is skipped, and one that does not
  answer the dial or the listing (\<^verbatim>\<open>None\<close>) does not take the others down.
\<close>

definition reached :: "(upstream \<Rightarrow> tool list option) \<Rightarrow> (string \<times> upstream) list \<Rightarrow> (string \<times> tool list) list" where
  "reached listing servers =
     List.map_filter
       (\<lambda>(name, u). if up_disabled u then None
                     else map_option (\<lambda>tools. (name, tools)) (listing (u\<lparr>up_name := name\<rparr>))) servers"

definition binding_of :: "string \<Rightarrow> tool \<Rightarrow> manifest \<Rightarrow> binding" where
  "binding_of server t m =
     \<lparr>bd_server = server, bd_tool = tl_name t, bd_skill = mf_id m, bd_capability = mf_capability m,
      bd_type = mf_type m, bd_read_only = (mf_type m = TypeSensorial)\<rparr>"

definition bindings :: "(string \<Rightarrow> string) \<Rightarrow> bool \<Rightarrow> (string \<times> tool list) list \<Rightarrow> binding list" where
  "bindings quoted trustAnnotations conns =
     concat (map (\<lambda>(server, tools).
       List.map_filter
         (\<lambda>t. let m = manifestFor quoted server t trustAnnotations in
               if manifest_Validate m \<noteq> None then None else Some (binding_of server t m)) tools) conns)"

text \<open>What a run served: the manifests, each with the tool that answers for it. A dry run serves none.\<close>

definition served :: "(string \<Rightarrow> string) \<Rightarrow> bool \<Rightarrow> (string \<times> tool list) list \<Rightarrow> (manifest \<times> tool) list" where
  "served quoted trustAnnotations conns =
     concat (map (\<lambda>(server, tools).
       List.map_filter
         (\<lambda>t. let m = manifestFor quoted server t trustAnnotations in
               if manifest_Validate m \<noteq> None then None else Some (m, t)) tools) conns)"

definition guard_Run ::
  "(string \<Rightarrow> string) \<Rightarrow> (upstream \<Rightarrow> tool list option) \<Rightarrow> bool \<Rightarrow> bool \<Rightarrow> (string \<times> upstream) list
   \<Rightarrow> (binding list \<times> (manifest \<times> tool) list) option" where
  "guard_Run quoted listing trustAnnotations dryRun servers =
     (let conns = reached listing servers in
      if conns = [] then None
      else Some (bindings quoted trustAnnotations conns,
                 if dryRun then [] else served quoted trustAnnotations conns))"

text \<open>The pauses of \<^verbatim>\<open>serve\<close> between one lost connection and the next, in milliseconds.\<close>

fun backoff :: "nat \<Rightarrow> nat" where
  "backoff 0 = 500"
| "backoff (Suc n) = (if backoff n < 15000 then 2 * backoff n else backoff n)"

section \<open>One call\<close>

datatype argument_error = NotAnObject | BodyNotAnObject

text \<open>A Go map keeps the last of the values decoded for a key.\<close>

definition obj_get :: "(string \<times> json) list \<Rightarrow> string \<Rightarrow> json option" where
  "obj_get kvs k = al_get (rev kvs) k"

text \<open>The document \<^verbatim>\<open>null\<close> decodes into the nil map, whose keys are absent.\<close>

definition arguments :: "bytes \<Rightarrow> argument_error + (string \<times> json) list" where
  "arguments payload =
     (if payload = [] then Inr []
      else (case (case json_parse payload of Some (JObj kvs) \<Rightarrow> Some kvs | Some JNull \<Rightarrow> Some [] | _ \<Rightarrow> None) of
              None \<Rightarrow> Inl NotAnObject
            | Some doc \<Rightarrow>
                (case obj_get doc ''body'' of
                   Some (JObj m) \<Rightarrow> Inr m
                 | Some _ \<Rightarrow> Inl BodyNotAnObject
                 | None \<Rightarrow>
                     (case obj_get doc ''params'' of
                        Some (JObj m) \<Rightarrow> Inr m
                      | _ \<Rightarrow> Inr (filter (\<lambda>(k, _). k \<noteq> ''query'' \<and> k \<noteq> ''headers'') doc)))))"

definition argument_text :: "argument_error \<Rightarrow> string" where
  "argument_text e =
     (case e of NotAnObject \<Rightarrow> ''payload is not a JSON object''
      | BodyNotAnObject \<Rightarrow> [dq] @ ''body'' @ [dq] @ '' must be an object of tool arguments'')"

definition guard_reply :: "string \<Rightarrow> envelope \<Rightarrow> nat \<Rightarrow> (string \<times> json) list \<Rightarrow> envelope" where
  "guard_reply newID e seq doc =
     zero_envelope\<lparr>ev_v := ProtocolMajor, ev_id := newID, ev_cause_id := ev_id e, ev_session := ev_session e,
       ev_node := ev_node e, ev_port := ''result'', ev_seq := seq,
       ev_idem := ev_idem e @ '':'' @ ev_node e @ '':result:'' @ dec_nat seq,
       ev_schema := ''std/api-response@1'', ev_kind := KindData, ev_payload := json_print (JObj doc)\<rparr>"

text \<open>The document of an answer, its keys in the order \<^verbatim>\<open>encoding/json\<close> gives those of a map.\<close>

definition result_doc :: "call_result \<Rightarrow> (string \<times> json) list" where
  "result_doc r =
     (let txt = result_Text r;
          body = (case cr_structured r of Some v \<Rightarrow> Some v | None \<Rightarrow> if txt \<noteq> [] then Some (JStr txt) else None)
      in (case body of None \<Rightarrow> [] | Some v \<Rightarrow> [(''body'', v)])
         @ (if cr_is_error r then [(''error'', JStr (firstNonEmpty [txt, ''the tool reported an error'']))] else [])
         @ [(''ok'', JBool (\<not> cr_is_error r))])"

definition refusal_doc :: "string \<Rightarrow> (string \<times> json) list" where
  "refusal_doc err = [(''error'', JStr err), (''ok'', JBool False)]"

text \<open>The tool is called with its name, the arguments and the deadline of the envelope, if it has one.\<close>

definition invoke ::
  "(string \<Rightarrow> (string \<times> json) list \<Rightarrow> int option \<Rightarrow> string + call_result) \<Rightarrow> string \<Rightarrow> tool \<Rightarrow> envelope \<Rightarrow> nat
   \<Rightarrow> envelope" where
  "invoke call newID t e seq =
     (case arguments (ev_payload e) of
        Inl err \<Rightarrow> guard_reply newID e seq (refusal_doc (argument_text err))
      | Inr args \<Rightarrow>
          (case call (tl_name t) args (if 0 < ev_deadline e then Some (ev_deadline e) else None) of
             Inl err \<Rightarrow> guard_reply newID e seq (refusal_doc err)
           | Inr r \<Rightarrow> guard_reply newID e seq (result_doc r)))"

text \<open>
  The session of one tool: every data envelope is numbered and answered, the other kinds are not. The
  calls run side by side; the model answers them in the order they came.
\<close>

fun guard_session ::
  "(string \<Rightarrow> (string \<times> json) list \<Rightarrow> int option \<Rightarrow> string + call_result) \<Rightarrow> (nat \<Rightarrow> string) \<Rightarrow> tool
   \<Rightarrow> nat \<Rightarrow> envelope list \<Rightarrow> envelope list" where
  "guard_session call ids t seq [] = []"
| "guard_session call ids t seq (e # es) =
     (if ev_kind e = KindData
      then invoke call (ids (Suc seq)) t e (Suc seq) # guard_session call ids t (Suc seq) es
      else guard_session call ids t seq es)"

end
