(* ===== verification/Guard_Properties.thy ===== *)
theory Guard_Properties
  imports Guard
begin

text \<open>
  A tool behind the guard: whatever a server calls itself and its tools, the manifest is a valid skill;
  and a tool is gated unless the operator trusts the annotations and the server claims it only reads.
\<close>

section \<open>Splitting what was put together\<close>

lemma split_on_one: "d \<notin> set a \<Longrightarrow> split_on d a = [a]"
  by (induction a) auto

lemma split_on_glue: "d \<notin> set a \<Longrightarrow> split_on d (a @ d # r) = a # split_on d r"
  by (induction a) auto

section \<open>Slugs\<close>

lemma replace_runs_chars: "P d \<Longrightarrow> list_all P (replace_runs P d s)"
  by (induction P d s rule: replace_runs.induct) auto

lemma trim_chars_keep: "list_all P s \<Longrightarrow> list_all P (trim_chars cs s)"
  by (auto simp: trim_chars_def list_all_iff dest!: set_dropWhileD)

lemma trim_chars_starts: "trim_chars cs s \<noteq> [] \<Longrightarrow> hd (trim_chars cs s) \<notin> set cs"
proof -
  assume ne: "trim_chars cs s \<noteq> []"
  let ?m = "dropWhile (\<lambda>c. c \<in> set cs) s"
  obtain p where p: "?m = trim_chars cs s @ p"
    by (metis trim_chars_def rev_append rev_rev_ident takeWhile_dropWhile_id)
  then have "hd (trim_chars cs s) = hd ?m" "?m \<noteq> []" using ne by (auto simp: hd_append)
  then show ?thesis using hd_dropWhile [of "\<lambda>c. c \<in> set cs" s] by auto
qed

lemma trim_chars_ne: "s \<noteq> [] \<Longrightarrow> hd s \<notin> set cs \<Longrightarrow> trim_chars cs s \<noteq> []"
  by (cases s) (auto simp: trim_chars_def)

lemma length_trim_chars: "length (trim_chars cs s) \<le> length s"
  unfolding trim_chars_def by (metis le_trans length_dropWhile_le length_rev)

lemma slug_ok:
  assumes "P d" "P (CHR ''x'')" "CHR ''x'' \<notin> set cs"
  shows "plus_of P (slug P d cs s)" "length (slug P d cs s) \<le> 48"
proof -
  define t where "t = trim_chars cs (replace_runs P d (ToLower s))"
  define u where "u = (if t = [] then ''x'' else t)"
  have s: "slug P d cs s = (if 48 < length u then trim_chars cs (take 48 u) else u)"
    by (simp add: slug_def u_def t_def Let_def)
  have u: "list_all P u" "u \<noteq> []" "hd u \<notin> set cs"
    using assms replace_runs_chars [of P d "ToLower s"] trim_chars_starts [of cs "replace_runs P d (ToLower s)"]
    by (auto simp: u_def t_def intro: trim_chars_keep)
  have "list_all P (take 48 u)" using u by (auto simp: list_all_iff dest: in_set_takeD)
  moreover have "trim_chars cs (take 48 u) \<noteq> []" using u by (intro trim_chars_ne) auto
  ultimately show "plus_of P (slug P d cs s)" using u by (simp add: s plus_of_def trim_chars_keep)
  show "length (slug P d cs s) \<le> 48"
    using length_trim_chars [of cs "take 48 u"] by (auto simp: s)
qed

lemma slugID_ok: "plus_of id_char (slugID s)" "length (slugID s) \<le> 48"
  using slug_ok [of id_char "CHR ''-''" "''-''" s] by (simp_all add: slugID_def id_char_def lower_digit_def)

lemma slugCap_ok: "plus_of cap_char (slugCap s)" "length (slugCap s) \<le> 48"
  using slug_ok [of cap_char "CHR ''_''" "''_-''" s] by (simp_all add: slugCap_def cap_char_def lower_digit_def)

lemma slug_clean: "CHR ''/'' \<notin> set (slugID s)" "CHR ''.'' \<notin> set (slugCap s)"
  using slugID_ok(1) [of s] slugCap_ok(1) [of s]
  by (auto simp: plus_of_def list_all_iff id_char_def cap_char_def lower_digit_def)

section \<open>The manifest is valid\<close>

lemma tool_type_cases: "tool_type t trust = TypeSensorial \<or> tool_type t trust = TypeMotor"
  by (simp add: tool_type_def)

lemma type_differ [simp]: "TypeSensorial \<noteq> TypeMotor"
  by (simp add: TypeSensorial_def TypeMotor_def)

lemma manifestFor_id: "idRe (mf_id (manifestFor quoted server t trust))"
proof -
  have e: "mf_id (manifestFor quoted server t trust)
      = ''mcp'' @ CHR ''/'' # slugID server @ CHR ''/'' # slugID (tl_name t)"
    by (simp add: manifestFor_def Let_def)
  have m: "CHR ''/'' \<notin> set ''mcp''" "plus_of id_char ''mcp''"
    by (simp_all add: plus_of_def id_char_def lower_digit_def)
  have "split_on (CHR ''/'') (mf_id (manifestFor quoted server t trust))
      = [''mcp'', slugID server, slugID (tl_name t)]"
    unfolding e split_on_glue [OF m(1)] split_on_glue [OF slug_clean(1)] split_on_one [OF slug_clean(1)] ..
  then show ?thesis using m(2) slugID_ok by (simp add: idRe_def)
qed

lemma cap_chars: "cap_char = (\<lambda>c. lower_digit c \<or> c = CHR ''_'' \<or> c = CHR ''-'')"
  by (auto simp: cap_char_def)

lemma manifestFor_capability: "capRe (mf_capability (manifestFor quoted server t trust))"
proof -
  have t: "CHR ''.'' \<notin> set (tool_type t trust)" "tool_type t trust \<in> set SkillTypes"
    using tool_type_cases [of t trust] by (auto simp: TypeSensorial_def TypeMotor_def SkillTypes_def)
  have m: "CHR ''.'' \<notin> set ''mcp''" "plus_of cap_char ''mcp''"
    by (simp_all add: plus_of_def cap_char_def lower_digit_def)
  have e: "mf_capability (manifestFor quoted server t trust)
      = tool_type t trust @ CHR ''.'' # ''mcp'' @ CHR ''.'' # slugCap server @ CHR ''.'' # slugCap (tl_name t)"
    by (simp add: manifestFor_def Let_def)
  have "split_on (CHR ''.'') (mf_capability (manifestFor quoted server t trust))
      = [tool_type t trust, ''mcp'', slugCap server, slugCap (tl_name t)]"
    unfolding e split_on_glue [OF t(1)] split_on_glue [OF m(1)] split_on_glue [OF slug_clean(2)]
      split_on_one [OF slug_clean(2)] ..
  then show ?thesis
    using t(2) m(2) slugCap_ok unfolding capRe_def cap_chars by simp
qed

lemma TrimSpace_Nil [simp]: "TrimSpace [] = []"
  by (simp add: TrimSpace_visible visible_def)

lemma firstNonEmpty_ne: "firstNonEmpty ss \<noteq> []"
  by (induction ss) auto

lemma manifestFor_ports:
  "check_ports (mf_ingress (manifestFor quoted server t trust) @ mf_egress (manifestFor quoted server t trust)) = None"
  by (simp add: manifestFor_def Let_def) code_simp

lemma manifestFor_constants:
  "semverRe (mf_version (manifestFor quoted server t trust))" "mf_protocol (manifestFor quoted server t trust) = ''1''"
  "mf_format (manifestFor quoted server t trust) = ''projection''"
  by (simp_all add: manifestFor_def Let_def ProtocolMajor_def) code_simp

lemma manifestFor_type: "mf_type (manifestFor quoted server t trust) = tool_type t trust"
  by (simp add: manifestFor_def Let_def)

lemma manifestFor_valid: "manifest_Validate (manifestFor quoted server t trust) = None"
proof -
  let ?m = "manifestFor quoted server t trust"
  have "mf_name ?m \<noteq> []" "mf_description ?m \<noteq> []" "mf_ingress ?m \<noteq> []" "mf_compensates ?m = None"
    using firstNonEmpty_ne [of "[tl_title t, tl_name t]"]
    by (simp_all add: manifestFor_def Let_def gated_note_def read_only_note_def del: firstNonEmpty.simps)
  moreover have "list_ex (\<lambda>t. mf_type ?m = t) SkillTypes"
    using tool_type_cases [of t trust]
    by (auto simp: manifestFor_type TypeSensorial_def TypeMotor_def SkillTypes_def)
  moreover have "has_prefix (mf_capability ?m) (mf_type ?m @ ''.'')"
    by (simp add: manifestFor_def Let_def has_prefix_iff)
  ultimately show ?thesis
    unfolding manifest_Validate_def
    by (simp add: manifestFor_id manifestFor_capability manifestFor_ports manifestFor_constants)
qed

section \<open>What a run binds\<close>

lemma bindings_all:
  "bindings quoted trust conns
   = concat (map (\<lambda>(server, tools). map (\<lambda>t. binding_of server t (manifestFor quoted server t trust)) tools) conns)"
  by (simp add: bindings_def manifestFor_valid List.map_filter_def Let_def comp_def)

lemma served_all:
  "served quoted trust conns
   = concat (map (\<lambda>(server, tools). map (\<lambda>t. (manifestFor quoted server t trust, t)) tools) conns)"
  by (simp add: served_def manifestFor_valid List.map_filter_def Let_def comp_def)

lemma reached_from:
  "(name, tools) \<in> set (reached listing servers) \<longleftrightarrow>
   (\<exists>u. (name, u) \<in> set servers \<and> \<not> up_disabled u \<and> listing (u\<lparr>up_name := name\<rparr>) = Some tools)"
  by (auto simp: reached_def List.map_filter_def split: if_splits) force

lemma motor_is_gated:
  assumes "has_prefix c (TypeMotor @ ''.'')"
  shows "Authorize (DefaultPolicy yaml) c g
    = Inr (if g = GateNone then \<lparr>au_gate = [], au_waived = True\<rparr>
           else \<lparr>au_gate = GateHumanApproval, au_waived = False\<rparr>)"
  using assms
  by (simp add: Authorize_def Decide_def DefaultPolicy_def finalize_def isEffect_def Let_def GraphWaiverAllowed_def
      DecisionGate_def DecisionDeny_def GateHumanApproval_def GateNone_def)

definition toy_write :: tool where
  "toy_write = \<lparr>tl_name = ''write file'', tl_title = [], tl_description = [], tl_schema = [], tl_annotations = None\<rparr>"

definition toy_read :: tool where
  "toy_read = \<lparr>tl_name = ''read.file'', tl_title = [], tl_description = [], tl_schema = [],
     tl_annotations = Some \<lparr>an_title = [], an_read_only = Some True, an_destructive = None,
                             an_idempotent = None, an_open_world = None\<rparr>\<rparr>"

definition toy_upstream :: upstream where
  "toy_upstream = \<lparr>up_name = [], up_command = ''serve'', up_args = [], up_env = [], up_url = [],
     up_headers = [], up_disabled = False\<rparr>"

definition toy_listing :: "upstream \<Rightarrow> tool list option" where
  "toy_listing u = (if up_name u = ''Files'' then Some [toy_write, toy_read] else None)"

lemma toy_run:
  obtains bound ss where
    "guard_Run id toy_listing True False [(''Files'', toy_upstream), (''gone'', toy_upstream)] = Some (bound, ss)"
proof -
  have "reached toy_listing [(''Files'', toy_upstream), (''gone'', toy_upstream)]
      = [(''Files'', [toy_write, toy_read])]"
    by (simp add: reached_def List.map_filter_def toy_listing_def toy_upstream_def)
  then show thesis using that by (simp add: guard_Run_def Let_def)
qed

text \<open>Every tool a reachable, enabled server lists is fronted: it is bound under the names it has, and
  served under a manifest the node's registration accepts, unless the run is dry. No name, description or
  title of a server or tool makes the guard leave it out.\<close>

theorem every_tool_is_fronted:
  assumes "guard_Run quoted listing trust dryRun servers = Some (bound, ss)"
    and "(name, u) \<in> set servers" "\<not> up_disabled u" "listing (u\<lparr>up_name := name\<rparr>) = Some tools" "t \<in> set tools"
  shows "(\<exists>b \<in> set bound. bd_server b = name \<and> bd_tool b = tl_name t)
    \<and> (\<not> dryRun \<longrightarrow> (\<exists>m. (m, t) \<in> set ss \<and> manifest_Validate m = None))"
proof -
  have c: "(name, tools) \<in> set (reached listing servers)" using assms(2-4) by (auto simp: reached_from)
  have bd: "bound = bindings quoted trust (reached listing servers)"
    and ss: "ss = (if dryRun then [] else served quoted trust (reached listing servers))"
    using assms(1) by (auto simp: guard_Run_def Let_def split: if_splits)
  have "binding_of name t (manifestFor quoted name t trust) \<in> set bound"
    using c assms(5) by (auto simp: bd bindings_all)
  moreover have "(manifestFor quoted name t trust, t) \<in> set (served quoted trust (reached listing servers))"
    using c assms(5) by (auto simp: served_all)
  ultimately show ?thesis by (force simp: ss binding_of_def manifestFor_valid)
qed

theorem every_tool_is_fronted_witness:
  "\<exists>bound ss. guard_Run id toy_listing True False [(''Files'', toy_upstream), (''gone'', toy_upstream)]
       = Some (bound, ss)
     \<and> (\<exists>b \<in> set bound. bd_server b = ''Files'' \<and> bd_tool b = ''read.file'')
     \<and> (\<exists>m. (m, toy_read) \<in> set ss \<and> manifest_Validate m = None)"
proof -
  obtain bound ss where r:
    "guard_Run id toy_listing True False [(''Files'', toy_upstream), (''gone'', toy_upstream)] = Some (bound, ss)"
    by (rule toy_run)
  show ?thesis
    using every_tool_is_fronted [OF r, of "''Files''" toy_upstream "[toy_write, toy_read]" toy_read] r
    by (simp add: toy_listing_def toy_upstream_def) (simp add: toy_read_def)
qed

text \<open>C22: A tool that a run binds belongs to an enabled server that lists it, and it is an effect,
  which the default policy holds at the human gate on every edge, unless the operator trusts the annotations
  of servers and the server claims that the tool only reads and does not claim that it destroys. The
  default policy lets a graph waive: an edge that asks for no gate gets none, and is recorded as waived.\<close>

theorem guarded_tool_is_gated:
  assumes "guard_Run quoted listing trust dryRun servers = Some (bound, ss)" and "b \<in> set bound"
  shows "\<exists>u tools t. (bd_server b, u) \<in> set servers \<and> \<not> up_disabled u
    \<and> listing (u\<lparr>up_name := bd_server b\<rparr>) = Some tools \<and> t \<in> set tools \<and> bd_tool b = tl_name t
    \<and> (Gated b \<and> (\<forall>g. Authorize (DefaultPolicy yaml) (bd_capability b) g
          = Inr (if g = GateNone then \<lparr>au_gate = [], au_waived = True\<rparr>
                 else \<lparr>au_gate = GateHumanApproval, au_waived = False\<rparr>))
       \<or> trust \<and> (\<exists>a. tl_annotations t = Some a \<and> an_read_only a = Some True \<and> an_destructive a \<noteq> Some True))"
proof -
  have "b \<in> set (bindings quoted trust (reached listing servers))"
    using assms by (auto simp: guard_Run_def Let_def split: if_splits)
  then obtain name tools t where n: "(name, tools) \<in> set (reached listing servers)" "t \<in> set tools"
    and b: "b = binding_of name t (manifestFor quoted name t trust)" by (auto simp: bindings_all)
  obtain u where u: "(name, u) \<in> set servers" "\<not> up_disabled u" "listing (u\<lparr>up_name := name\<rparr>) = Some tools"
    using n(1) by (auto simp: reached_from)
  have cap: "bd_capability b = tool_type t trust @ ''.mcp.'' @ slugCap name @ ''.'' @ slugCap (tl_name t)"
    and ty: "bd_type b = tool_type t trust"
    by (simp_all add: b binding_of_def manifestFor_def Let_def)
  have "Gated b \<and> (\<forall>g. Authorize (DefaultPolicy yaml) (bd_capability b) g
          = Inr (if g = GateNone then \<lparr>au_gate = [], au_waived = True\<rparr>
                 else \<lparr>au_gate = GateHumanApproval, au_waived = False\<rparr>))
       \<or> trust \<and> (\<exists>a. tl_annotations t = Some a \<and> an_read_only a = Some True \<and> an_destructive a \<noteq> Some True)"
  proof (cases "tool_type t trust = TypeMotor")
    case True
    then have "Gated b" by (simp add: Gated_def ty)
    moreover have "has_prefix (bd_capability b) (TypeMotor @ ''.'')"
      unfolding cap True by (simp add: has_prefix_iff)
    ultimately show ?thesis using motor_is_gated by blast
  next
    case False
    then show ?thesis by (auto simp: tool_type_def ReadOnly_def split: if_splits option.splits)
  qed
  then show ?thesis using u n(2) by (force simp: b binding_of_def)
qed

theorem guarded_tool_is_gated_witness:
  "\<exists>b. bd_tool b = ''write file'' \<and> Gated b
     \<and> Authorize (DefaultPolicy (\<lambda>_. [])) (bd_capability b) []
         = Inr \<lparr>au_gate = GateHumanApproval, au_waived = False\<rparr>
     \<and> Authorize (DefaultPolicy (\<lambda>_. [])) (bd_capability b) GateNone
         = Inr \<lparr>au_gate = [], au_waived = True\<rparr>"
proof -
  obtain bound ss where r:
    "guard_Run id toy_listing True False [(''Files'', toy_upstream), (''gone'', toy_upstream)] = Some (bound, ss)"
    by (rule toy_run)
  have "guard_Run id toy_listing True False [(''Files'', toy_upstream), (''gone'', toy_upstream)]
      = Some (bindings id True [(''Files'', [toy_write, toy_read])], ss)"
    using r by (simp add: guard_Run_def Let_def reached_def List.map_filter_def toy_listing_def toy_upstream_def)
  then have "bound = bindings id True [(''Files'', [toy_write, toy_read])]" using r by simp
  then obtain b where b: "b \<in> set bound" "bd_tool b = ''write file''"
    by (force simp: bindings_all binding_of_def toy_write_def)
  from guarded_tool_is_gated [OF r b(1), of "\<lambda>_. []"] obtain u tools t where
    u: "(bd_server b, u) \<in> set [(''Files'', toy_upstream), (''gone'', toy_upstream)]"
      "toy_listing (u\<lparr>up_name := bd_server b\<rparr>) = Some tools" "t \<in> set tools" "bd_tool b = tl_name t"
    and g: "Gated b \<and> (\<forall>g. Authorize (DefaultPolicy (\<lambda>_. [])) (bd_capability b) g
          = Inr (if g = GateNone then \<lparr>au_gate = [], au_waived = True\<rparr>
                 else \<lparr>au_gate = GateHumanApproval, au_waived = False\<rparr>))
      \<or> True \<and> (\<exists>a. tl_annotations t = Some a \<and> an_read_only a = Some True \<and> an_destructive a \<noteq> Some True)"
    by blast
  have "t = toy_write"
    using u b(2) by (auto simp: toy_listing_def toy_upstream_def toy_write_def toy_read_def split: if_splits)
  then have "tl_annotations t = None" by (simp add: toy_write_def)
  with g b(2) show ?thesis by (intro exI [of _ b]) (simp add: GateNone_def)
qed

section \<open>Two tools, one skill\<close>

text \<open>The slugs are not injective: two tools of a server whose names differ in a sign only get the same id
  and the same capability, and the registry takes them for two replicas of one skill.\<close>

lemma slugs_collide:
  "slugID ''read file'' = slugID ''read.file'' \<and> slugCap ''read file'' = slugCap ''read.file''"
  by code_simp

lemma colliding_tools_share_a_skill:
  assumes "slugID (tl_name t) = slugID (tl_name t')" "slugCap (tl_name t) = slugCap (tl_name t')"
    "tool_type t trust = tool_type t' trust"
  shows "mf_id (manifestFor quoted server t trust) = mf_id (manifestFor quoted server t' trust)
    \<and> mf_capability (manifestFor quoted server t trust) = mf_capability (manifestFor quoted server t' trust)"
  using assms by (simp add: manifestFor_def Let_def)

section \<open>The pauses\<close>

lemma backoff_bounded: "500 \<le> backoff n \<and> backoff n < 30000"
  by (induction n) auto

end
