(* ===== verification/Approvals_Queue.thy ===== *)
theory Approvals_Queue
  imports Approval Channel
begin

text \<open>
  \<^verbatim>\<open>kernel/internal/approvals/approvals.go\<close>, the two routes of \<^verbatim>\<open>kernel/internal/gateway/approvals.go\<close>
  and \<^verbatim>\<open>awaitApproval\<close> of \<^verbatim>\<open>kernel/internal/mcpsrv/mcpsrv.go\<close>: the questions that wait for a human.
  Every call holds the one mutex, so the steps follow each other. The channel of a waiter is what was
  sent on it; waiters are numbered in the order they were opened, and so are their timers.
\<close>

section \<open>Questions and answers\<close>

record pending =
  pn_id :: string
  pn_question :: string
  pn_origin :: string
  pn_tool :: string
  pn_capability :: string
  pn_session :: string
  pn_arguments :: bytes
  pn_requested :: int
  pn_expires :: int
  pn_node :: string
  pn_envelope :: string
  pn_context_required :: "string list"

record queue_answer =
  as_approve :: bool
  as_approval :: "approval option"

definition approvals_DefaultTTL :: int where "approvals_DefaultTTL = 5 * 60 * 1000000000"

text \<open>\<open>qu_opened\<close>: the id each waiter was opened under, which its release and its timer hold.\<close>

record queue =
  qu_items :: "(string \<times> (nat \<times> pending)) list"
  qu_opened :: "string list"
  qu_chans :: "(nat \<times> queue_answer) list"
  qu_armed :: "nat list"
  qu_ttl :: int
  qu_required :: "string list"

definition WithTTL :: "int \<Rightarrow> queue" where
  "WithTTL d = \<lparr>qu_items = [], qu_opened = [], qu_chans = [], qu_armed = [], qu_ttl = d, qu_required = []\<rparr>"

definition queue_New :: queue where
  "queue_New = WithTTL approvals_DefaultTTL"

definition Require :: "string list \<Rightarrow> queue \<Rightarrow> queue" where
  "Require labels q = q\<lparr>qu_required := labels\<rparr>"

section \<open>Opening, answering, giving up\<close>

definition open_question :: "string \<Rightarrow> int \<Rightarrow> pending \<Rightarrow> queue \<Rightarrow> queue \<times> string \<times> nat" where
  "open_question newID now p q =
     (let p = (if pn_id p = [] then p\<lparr>pn_id := newID\<rparr> else p);
          p = p\<lparr>pn_requested := now, pn_expires := now + qu_ttl q\<rparr>;
          h = length (qu_opened q)
      in (q\<lparr>qu_items := al_put (pn_id p) (h, p\<lparr>pn_context_required := qu_required q\<rparr>) (qu_items q),
            qu_opened := qu_opened q @ [pn_id p], qu_armed := h # qu_armed q\<rparr>, pn_id p, h))"

definition resolve_question :: "string \<Rightarrow> queue_answer \<Rightarrow> queue \<Rightarrow> queue \<times> bool" where
  "resolve_question i a q =
     (case al_get (qu_items q) i of
        None \<Rightarrow> (q, False)
      | Some (h, p) \<Rightarrow> (q\<lparr>qu_items := al_del i (qu_items q), qu_chans := qu_chans q @ [(h, a)]\<rparr>, True))"

definition deny :: queue_answer where
  "deny = \<lparr>as_approve = False, as_approval = None\<rparr>"

text \<open>The timer of a waiter fires once, unless the release stopped it before.\<close>

definition timer_fires :: "nat \<Rightarrow> queue \<Rightarrow> queue" where
  "timer_fires h q =
     (if h \<in> set (qu_armed q) \<and> h < length (qu_opened q)
      then fst (resolve_question (qu_opened q ! h) deny (q\<lparr>qu_armed := removeAll h (qu_armed q)\<rparr>))
      else q)"

definition release :: "nat \<Rightarrow> queue \<Rightarrow> queue" where
  "release h q =
     (if h < length (qu_opened q)
      then q\<lparr>qu_armed := removeAll h (qu_armed q), qu_items := al_del (qu_opened q ! h) (qu_items q)\<rparr>
      else q)"

text \<open>Oldest first: the insertion sort moves a question before those requested strictly later.\<close>

definition list_questions :: "queue \<Rightarrow> pending list" where
  "list_questions q = sort_key pn_requested (map (\<lambda>(_, _, p). p) (qu_items q))"

definition get_question :: "string \<Rightarrow> queue \<Rightarrow> pending option" where
  "get_question i q = map_option snd (al_get (qu_items q) i)"

text \<open>What was sent on the channel of a waiter, in order.\<close>

definition sent_to :: "nat \<Rightarrow> queue \<Rightarrow> queue_answer list" where
  "sent_to h q = map snd (filter (\<lambda>(h', _). h' = h) (qu_chans q))"

section \<open>The routes\<close>

datatype approve_body = Undecoded | Decoded "bool option" "approval option"

definition listApprovals :: "queue option \<Rightarrow> nat \<times> pending list" where
  "listApprovals mq = (case mq of None \<Rightarrow> (404, []) | Some q \<Rightarrow> (200, list_questions q))"

definition resolveApproval :: "string \<Rightarrow> approve_body \<Rightarrow> queue option \<Rightarrow> queue option \<times> nat" where
  "resolveApproval i body mq =
     (case mq of
        None \<Rightarrow> (None, 404)
      | Some q \<Rightarrow>
          (case body of
             Undecoded \<Rightarrow> (Some q, 400)
           | Decoded None _ \<Rightarrow> (Some q, 400)
           | Decoded (Some approve) approval \<Rightarrow>
               (let (q', ok) = resolve_question i \<lparr>as_approve = approve, as_approval = approval\<rparr> q
                in (Some q', if ok then 200 else 404))))"

section \<open>The caller that waits\<close>

text \<open>\<^verbatim>\<open>awaitApproval\<close> up to the wait: the question it opens; and what it returns of the answer it received.\<close>

definition mcp_question :: "string \<Rightarrow> string \<Rightarrow> string \<Rightarrow> string \<Rightarrow> string \<Rightarrow> bytes \<Rightarrow> pending" where
  "mcp_question nodeID question held session tool args =
     \<lparr>pn_id = [], pn_question = (if question = [] then ''Approve this call?'' else question), pn_origin = ''mcp'',
      pn_tool = tool, pn_capability = [], pn_session = session, pn_arguments = args, pn_requested = 0,
      pn_expires = 0, pn_node = nodeID, pn_envelope = held, pn_context_required = []\<rparr>"

definition await_result :: "queue_answer \<Rightarrow> bool \<times> approval option" where
  "await_result a = (if as_approve a then (True, as_approval a) else (False, None))"

section \<open>Any order of steps\<close>

datatype queue_event =
    Required "string list" | Asked string int pending | Answered string queue_answer | TimedOut nat | GaveUp nat

fun queue_step :: "queue_event \<Rightarrow> queue \<Rightarrow> queue" where
  "queue_step (Required ls) q = Require ls q"
| "queue_step (Asked newID now p) q = fst (open_question newID now p q)"
| "queue_step (Answered i a) q = fst (resolve_question i a q)"
| "queue_step (TimedOut h) q = timer_fires h q"
| "queue_step (GaveUp h) q = release h q"

definition queue_run :: "queue_event list \<Rightarrow> queue \<Rightarrow> queue" where
  "queue_run steps q = fold queue_step steps q"

end
