(* ===== verification/Approvals_Properties.thy ===== *)
theory Approvals_Properties
  imports Approvals_Queue
begin

text \<open>
  The queue as its callers rely on it: a channel carries at most one answer, an approval on it is the
  operator's answer to the question that was listed, and a listed question has a timer that will deny it.
\<close>

section \<open>The invariant\<close>

definition queue_inv :: "queue \<Rightarrow> bool" where
  "queue_inv q \<longleftrightarrow>
     (\<forall>i h p. al_get (qu_items q) i = Some (h, p) \<longrightarrow>
        h < length (qu_opened q) \<and> qu_opened q ! h = i \<and> h \<in> set (qu_armed q) \<and> h \<notin> fst ` set (qu_chans q)
        \<and> pn_id p = i \<and> pn_expires p = pn_requested p + qu_ttl q)
     \<and> distinct (map fst (qu_chans q)) \<and> (\<forall>h \<in> fst ` set (qu_chans q). h < length (qu_opened q))"

lemma queue_inv_New [simp]: "queue_inv (WithTTL d)"
  by (simp add: queue_inv_def WithTTL_def)

lemma queue_inv_open: "queue_inv q \<Longrightarrow> queue_inv (fst (open_question newID now p q))"
  by (auto simp: queue_inv_def open_question_def Let_def nth_append less_Suc_eq)

lemma queue_inv_resolve: "queue_inv q \<Longrightarrow> queue_inv (fst (resolve_question i a q))"
  by (auto simp: queue_inv_def resolve_question_def split: option.splits if_splits) (metis+)?

text \<open>The timer of a waiter resolves the id it was opened under; whoever is listed there is gone afterwards.\<close>

lemma queue_inv_fires: "queue_inv q \<Longrightarrow> queue_inv (timer_fires h q)"
  by (auto simp: queue_inv_def timer_fires_def resolve_question_def split: option.splits if_splits) (metis+)?

lemma queue_inv_release: "queue_inv q \<Longrightarrow> queue_inv (release h q)"
  by (auto simp: queue_inv_def release_def split: if_splits)

lemma queue_inv_step: "queue_inv q \<Longrightarrow> queue_inv (queue_step s q)"
  by (cases s)
    (simp_all add: queue_inv_open queue_inv_resolve queue_inv_fires queue_inv_release,
     simp add: queue_inv_def Require_def)

lemma queue_inv_run: "queue_inv q \<Longrightarrow> queue_inv (queue_run steps q)"
  unfolding queue_run_def by (induction steps arbitrary: q) (auto simp: queue_inv_step)

lemma sent_once: "queue_inv q \<Longrightarrow> length (sent_to h q) \<le> 1"
proof -
  assume "queue_inv q"
  then have "distinct (map fst (qu_chans q))" by (simp add: queue_inv_def)
  moreover have "length (filter (\<lambda>(h', _). h' = h) xs) \<le> 1" if "distinct (map fst xs)" for xs :: "(nat \<times> queue_answer) list"
    using that
  proof (induction xs)
    case (Cons x xs)
    have "fst x \<notin> fst ` set xs" using Cons.prems by simp
    then have "filter (\<lambda>p. fst p = h) xs = []" if "fst x = h"
      unfolding filter_empty_conv using that by (auto simp: rev_image_eqI)
    then show ?case using Cons by (cases "fst x = h") (auto simp: case_prod_beta)
  qed simp
  ultimately show ?thesis by (simp add: sent_to_def)
qed

section \<open>Where an approval came from\<close>

lemma resolve_sends:
  "qu_chans (fst (resolve_question i a q))
   = qu_chans q @ (case al_get (qu_items q) i of None \<Rightarrow> [] | Some (h, _) \<Rightarrow> [(h, a)])"
  by (auto simp: resolve_question_def split: option.splits)

text \<open>What one step adds to the channels.\<close>

lemma step_sends:
  assumes "(h, a) \<in> set (qu_chans (queue_step s q))" "(h, a) \<notin> set (qu_chans q)" "as_approve a"
  obtains i p where "s = Answered i a" "al_get (qu_items q) i = Some (h, p)"
proof (cases s)
  case (Answered i b)
  then show ?thesis
    using assms that by (cases "al_get (qu_items q) i") (auto simp: resolve_sends)
next
  case (TimedOut k)
  then show ?thesis
    using assms by (auto simp: timer_fires_def resolve_sends deny_def split: if_splits option.splits)
qed (use assms in \<open>auto simp: Require_def open_question_def release_def Let_def split: if_splits\<close>)

lemma run_sends:
  assumes "(h, a) \<in> set (qu_chans (queue_run steps (WithTTL d)))" "as_approve a"
  shows "\<exists>pre post i p. steps = pre @ Answered i a # post
    \<and> al_get (qu_items (queue_run pre (WithTTL d))) i = Some (h, p)"
  using assms(1)
proof (induction steps rule: rev_induct)
  case Nil
  then show ?case by (simp add: queue_run_def WithTTL_def)
next
  case (snoc s steps)
  let ?q = "queue_run steps (WithTTL d)"
  have run: "queue_run (steps @ [s]) (WithTTL d) = queue_step s ?q" by (simp add: queue_run_def)
  show ?case
  proof (cases "(h, a) \<in> set (qu_chans ?q)")
    case True
    then show ?thesis using snoc.IH by (metis append_Cons append_assoc)
  next
    case False
    with snoc.prems assms(2) obtain i p where "s = Answered i a" "al_get (qu_items ?q) i = Some (h, p)"
      unfolding run by (blast elim: step_sends)
    then show ?thesis by blast
  qed
qed

text \<open>C23: whatever the order of the steps, an approval that reaches a waiting caller is an answer that was
  given to the id of its question while that question was listed: no timer, no release and no answer to
  another question ever approves it.\<close>

theorem approval_answers_listed_question:
  assumes "a \<in> set (sent_to h (queue_run steps (WithTTL d)))" "fst (await_result a)"
  shows "\<exists>pre post i p. steps = pre @ Answered i a # post
    \<and> al_get (qu_items (queue_run pre (WithTTL d))) i = Some (h, p)
    \<and> get_question i (queue_run (pre @ [Answered i a]) (WithTTL d)) = None"
proof -
  have "(h, a) \<in> set (qu_chans (queue_run steps (WithTTL d)))" "as_approve a"
    using assms by (auto simp: sent_to_def await_result_def split: if_splits)
  from run_sends [OF this] obtain pre post i p where
    r: "steps = pre @ Answered i a # post" "al_get (qu_items (queue_run pre (WithTTL d))) i = Some (h, p)"
    by blast
  moreover have "get_question i (queue_run (pre @ [Answered i a]) (WithTTL d)) = None"
    using r(2) by (simp add: queue_run_def get_question_def resolve_question_def)
  ultimately show ?thesis by blast
qed

lemma toy_question:
  "sent_to 0 (queue_run [Asked ''Q1'' 10 (mcp_question [] [] ''E'' ''S'' ''pay'' []), Answered ''Q1'' \<lparr>as_approve = True, as_approval = None\<rparr>]
     (WithTTL 5)) = [\<lparr>as_approve = True, as_approval = None\<rparr>]"
  by (simp add: queue_run_def open_question_def mcp_question_def resolve_question_def sent_to_def WithTTL_def Let_def)

theorem approval_answers_listed_question_witness:
  "\<exists>pre post i p. [Asked ''Q1'' 10 (mcp_question [] [] ''E'' ''S'' ''pay'' []), Answered ''Q1'' \<lparr>as_approve = True, as_approval = None\<rparr>]
      = pre @ Answered i \<lparr>as_approve = True, as_approval = None\<rparr> # post
    \<and> al_get (qu_items (queue_run pre (WithTTL 5))) i = Some (0, p)
    \<and> get_question i (queue_run (pre @ [Answered i \<lparr>as_approve = True, as_approval = None\<rparr>]) (WithTTL 5)) = None"
  by (rule approval_answers_listed_question) (simp_all add: toy_question await_result_def)

section \<open>Every question ends\<close>

text \<open>C38: a waiting caller is answered at most once, so the send neither blocks nor meets a closed
  channel; and a question that is still listed carries the time it expires at and has a timer, which answers
  it with a denial and takes it off the list.\<close>

theorem listed_question_will_be_denied:
  assumes "q = queue_run steps (WithTTL d)"
  shows "length (sent_to h q) \<le> 1
    \<and> (\<forall>i p. al_get (qu_items q) i = Some (h, p) \<longrightarrow>
         pn_expires p = pn_requested p + qu_ttl q \<and> sent_to h q = [] \<and> sent_to h (timer_fires h q) = [deny]
         \<and> get_question i (timer_fires h q) = None \<and> \<not> fst (await_result deny))"
proof -
  have inv: "queue_inv q" by (simp add: assms queue_inv_run)
  have "pn_expires p = pn_requested p + qu_ttl q \<and> sent_to h q = [] \<and> sent_to h (timer_fires h q) = [deny]
         \<and> get_question i (timer_fires h q) = None" if l: "al_get (qu_items q) i = Some (h, p)" for i p
  proof -
    from inv l have i: "h < length (qu_opened q)" "qu_opened q ! h = i" "h \<in> set (qu_armed q)"
      "h \<notin> fst ` set (qu_chans q)" "pn_expires p = pn_requested p + qu_ttl q"
      by (auto simp: queue_inv_def)
    have s: "sent_to h q = []" using i(4) by (force simp: sent_to_def filter_empty_conv)
    then have "sent_to h (timer_fires h q) = [deny]"
      using i l by (auto simp: timer_fires_def resolve_question_def sent_to_def)
    moreover have "get_question i (timer_fires h q) = None"
      using i l by (auto simp: timer_fires_def resolve_question_def get_question_def)
    ultimately show ?thesis using i s by simp
  qed
  then show ?thesis using sent_once [OF inv] by (auto simp: deny_def await_result_def)
qed

theorem listed_question_will_be_denied_witness:
  "sent_to 0 (timer_fires 0 (queue_run [Asked ''Q1'' 10 (mcp_question [] [] ''E'' ''S'' ''pay'' [])] (WithTTL 5))) = [deny]"
proof -
  let ?q = "queue_run [Asked ''Q1'' 10 (mcp_question [] [] ''E'' ''S'' ''pay'' [])] (WithTTL 5)"
  have "al_get (qu_items ?q) ''Q1'' \<noteq> None \<and> fst (the (al_get (qu_items ?q) ''Q1'')) = 0"
    by (simp add: queue_run_def open_question_def mcp_question_def WithTTL_def Let_def)
  then obtain p where "al_get (qu_items ?q) ''Q1'' = Some (0, p)" by auto
  then show ?thesis using listed_question_will_be_denied [OF refl] by blast
qed

end
