(* ===== verification/Skill_Link.thy ===== *)
theory Skill_Link
  imports Manager Gateway_Auth Ingress
begin

text \<open>
  The connections of \<^verbatim>\<open>kernel/internal/gateway/gateway.go\<close> (\<^verbatim>\<open>ServeSkill\<close>, \<^verbatim>\<open>clientWS\<close> and what they call) with
  the memory budget of \<^verbatim>\<open>kernel/internal/gateway/admission.go\<close>. A connection is a transport that hands over
  whole frames; decoding a frame is an argument, since a \<^verbatim>\<open>json.RawMessage\<close> keeps its bytes as they came. So is
  the product of floating point numbers that a memory declaration stands for. An \<^verbatim>\<open>int64\<close> is an \<^typ>\<open>int\<close>
  with its wrap-around written out.
\<close>

section \<open>The memory budget\<close>

record admission =
  ad_budget :: int
  ad_used :: int
  ad_conns :: "(string \<times> int) list"

definition NewAdmission :: "int \<Rightarrow> admission" where
  "NewAdmission budget = \<lparr>ad_budget = budget, ad_used = 0, ad_conns = []\<rparr>"

definition mem_units :: "string list" where
  "mem_units = [''B'', ''Ki'', ''Mi'', ''Gi'', ''Ti'', ''K'', ''M'', ''G'', ''T'']"

text \<open>\<^verbatim>\<open>memRe\<close>: the number, and the unit behind it; the space between is what \<^verbatim>\<open>\s\<close> matches.\<close>

definition mem_number :: "string \<Rightarrow> string \<times> string" where
  "mem_number s =
     (let i = takeWhile decimal s; r = dropWhile decimal s in
      case r of
        c # r' \<Rightarrow> if c = CHR ''.'' \<and> takeWhile decimal r' \<noteq> [] then (i @ c # takeWhile decimal r', dropWhile decimal r')
                  else (i, r)
      | [] \<Rightarrow> (i, r))"

definition mem_unit :: "string \<Rightarrow> string option" where
  "mem_unit r =
     (if r = [] then Some []
      else if r \<in> set mem_units then Some r
      else (case find (\<lambda>u. r = u @ ''B'') mem_units of Some u \<Rightarrow> Some u | None \<Rightarrow> None))"

definition memRe :: "string \<Rightarrow> (string \<times> string) option" where
  "memRe s =
     (let (n, r) = mem_number s;
          r = dropWhile (\<lambda>c. c \<in> {CHR 0x09, CHR 0x0A, CHR 0x0C, CHR 0x0D, CHR '' ''}) r
      in if n = [] then None else map_option (\<lambda>u. (n, u)) (mem_unit r))"

text \<open>\<open>scale\<close>: \<^verbatim>\<open>int64(value * mult)\<close>, or \<open>None\<close> where \<^verbatim>\<open>strconv.ParseFloat\<close> fails.\<close>

definition ParseMemory :: "(string \<Rightarrow> string \<Rightarrow> int option) \<Rightarrow> string \<Rightarrow> int option" where
  "ParseMemory scale s =
     (let s = TrimSpace s in
      if s = [] then Some 0
      else (case memRe s of None \<Rightarrow> None | Some (n, u) \<Rightarrow> scale n u))"

datatype admit_error = BadMemory | OverBudget int int

definition Admit :: "(string \<Rightarrow> string \<Rightarrow> int option) \<Rightarrow> string \<Rightarrow> string \<Rightarrow> admission \<Rightarrow> admission \<times> admit_error option" where
  "Admit scale connID declared a =
     (case ParseMemory scale declared of
        None \<Rightarrow> (a, Some BadMemory)
      | Some need \<Rightarrow>
          if 0 < ad_budget a \<and> ad_budget a < wrap64 (ad_used a + need) then (a, Some (OverBudget need (ad_used a)))
          else (a\<lparr>ad_used := wrap64 (ad_used a + need), ad_conns := al_put connID need (ad_conns a)\<rparr>, None))"

definition Release_conn :: "string \<Rightarrow> admission \<Rightarrow> admission" where
  "Release_conn connID a =
     a\<lparr>ad_used := wrap64 (ad_used a - (case al_get (ad_conns a) connID of None \<Rightarrow> 0 | Some n \<Rightarrow> n)),
       ad_conns := al_del connID (ad_conns a)\<rparr>"

section \<open>The gateway's connections\<close>

record client_conn =
  cc_session :: string
  cc_object :: nat
  cc_seq :: nat
  cc_pinned :: bool

record link_state =
  lk_node :: node_state
  lk_adm :: admission
  lk_config :: "(string \<times> (string \<times> json) list) list"
  lk_skills :: "(string \<times> principal \<times> manifest) list"

section \<open>A skill registers\<close>

definition KindRegister :: string where "KindRegister = ''register''"

datatype refusal =
    NotRegister | NotManifest | ManifestRejected manifest_error | ProtocolMismatch | NotBoundTo string string
  | NotAdmitted admit_error

text \<open>\<open>unmarshal\<close> gives the manifest of a payload and the text of its \<^verbatim>\<open>requirements.memory\<close>, empty where that is
  absent or no text.\<close>

definition check_register ::
  "(bytes \<Rightarrow> envelope option) \<Rightarrow> (bytes \<Rightarrow> (manifest \<times> string) option) \<Rightarrow> principal \<Rightarrow> bytes \<Rightarrow> refusal + manifest \<times> string" where
  "check_register envelope_of unmarshal p first_frame =
     (case envelope_of first_frame of
        None \<Rightarrow> Inl NotRegister
      | Some e \<Rightarrow>
          if ev_kind e \<noteq> KindRegister then Inl NotRegister
          else (case unmarshal (ev_payload e) of
                  None \<Rightarrow> Inl NotManifest
                | Some (m, mem) \<Rightarrow>
                    (case manifest_Validate m of
                       Some err \<Rightarrow> Inl (ManifestRejected err)
                     | None \<Rightarrow>
                         if mf_protocol m \<noteq> ProtocolMajor then Inl ProtocolMismatch
                         else if \<not> MayRegister p (mf_capability m) then Inl (NotBoundTo (pr_capability p) (mf_capability m))
                         else Inr (m, mem))))"

definition effectiveConfig :: "bool \<Rightarrow> manifest \<Rightarrow> link_state \<Rightarrow> Store_Tables.config_error + (string \<times> json) list" where
  "effectiveConfig fault m st =
     (case LoadSkillConfig fault (mf_id m) (nd_tables (lk_node st)) of
        Inl e \<Rightarrow> Inl e
      | Inr storeVals \<Rightarrow>
          Inr (EffectiveConfig m (case al_get (lk_config st) (mf_id m) of None \<Rightarrow> [] | Some v \<Rightarrow> v) storeVals))"

text \<open>The handshake of \<^verbatim>\<open>ServeSkill\<close>: the refusal, or the manifest that was registered and the configuration that
  is acknowledged. A failure to persist the skill or to load its configuration is only logged.\<close>

definition serve_handshake ::
  "(bytes \<Rightarrow> envelope option) \<Rightarrow> (bytes \<Rightarrow> (manifest \<times> string) option) \<Rightarrow> (manifest \<Rightarrow> bytes)
   \<Rightarrow> (string \<Rightarrow> string \<Rightarrow> int option) \<Rightarrow> (nat \<Rightarrow> bool) \<Rightarrow> int \<Rightarrow> principal \<Rightarrow> string \<Rightarrow> bytes \<Rightarrow> link_state
   \<Rightarrow> link_state \<times> (refusal + manifest \<times> (string \<times> json) list)" where
  "serve_handshake envelope_of unmarshal marshal scale fault now p connID first_frame st =
     (case check_register envelope_of unmarshal p first_frame of
        Inl e \<Rightarrow> (st, Inl e)
      | Inr (m, mem) \<Rightarrow>
          (case Admit scale connID mem (lk_adm st) of
             (a, Some e) \<Rightarrow> (st\<lparr>lk_adm := a\<rparr>, Inl (NotAdmitted e))
           | (a, None) \<Rightarrow>
               (let nd = lk_node st;
                    (reg, _) = Register connID \<lparr>lv_manifest = m, lv_connected = now, lv_conn = connID\<rparr> (nd_registry nd);
                    t = (case UpsertSkill (fault 0) (unix_milli now) (mf_id m) (mf_version m) (marshal m) (nd_tables nd) of
                           Inl _ \<Rightarrow> nd_tables nd | Inr t \<Rightarrow> t);
                    st = st\<lparr>lk_adm := a, lk_node := nd\<lparr>nd_registry := reg, nd_tables := t\<rparr>,
                            lk_skills := (connID, p, m) # lk_skills st\<rparr>
                in (st, Inr (m, case effectiveConfig (fault 1) m st of Inl _ \<Rightarrow> [] | Inr vals \<Rightarrow> vals)))))"

text \<open>The deferred calls, when the connection ends: the registry first.\<close>

definition serve_ends :: "string \<Rightarrow> link_state \<Rightarrow> link_state" where
  "serve_ends connID st =
     st\<lparr>lk_node := (lk_node st)\<lparr>nd_registry := Unregister connID (nd_registry (lk_node st))\<rparr>,
        lk_adm := Release_conn connID (lk_adm st),
        lk_skills := filter (\<lambda>(c, _). c \<noteq> connID) (lk_skills st)\<rparr>"

datatype frame_reply = FrameUndecoded | FrameInvalid envelope_error | FrameTaken

text \<open>One turn of the emission loop: the envelope is dispatched to the session it names.\<close>

definition serve_frame ::
  "nat \<Rightarrow> world \<Rightarrow> (bytes \<Rightarrow> envelope option) \<Rightarrow> bytes \<Rightarrow> link_state \<Rightarrow> (link_state \<times> frame_reply) option" where
  "serve_frame fuel w envelope_of raw st =
     (case envelope_of raw of
        None \<Rightarrow> Some (st, FrameUndecoded)
      | Some env \<Rightarrow>
          (case envelope_Validate env of
             Some e \<Rightarrow> Some (st, FrameInvalid e)
           | None \<Rightarrow>
               map_option (\<lambda>(nd, _). (st\<lparr>lk_node := nd\<rparr>, FrameTaken)) (manager_Dispatch fuel w env (lk_node st))))"

section \<open>A client connects\<close>

datatype frame_error = InvalidJson | InvalidEnvelope envelope_error | NeitherForm

definition shorthand_idem :: "string \<Rightarrow> nat \<Rightarrow> string" where
  "shorthand_idem sessionID seq = sessionID @ '':client:text_out:'' @ dec_nat seq"

definition shorthand_envelope :: "string \<Rightarrow> string \<Rightarrow> nat \<Rightarrow> string \<Rightarrow> envelope" where
  "shorthand_envelope newID sessionID seq txt =
     zero_envelope\<lparr>ev_v := ProtocolMajor, ev_id := newID, ev_session := sessionID, ev_node := ClientRef,
       ev_port := ''text_out'', ev_seq := seq, ev_idem := shorthand_idem sessionID seq, ev_schema := ''std/text@1'',
       ev_kind := KindData, ev_payload := json_print (JObj [(''final'', JBool True), (''text'', JStr txt)])\<rparr>"

text \<open>\<open>text_of\<close> decodes the short form. The counter is left as it was where the frame is refused.\<close>

definition parseClientFrame ::
  "(bytes \<Rightarrow> envelope option) \<Rightarrow> (bytes \<Rightarrow> string option) \<Rightarrow> string \<Rightarrow> bytes \<Rightarrow> string \<Rightarrow> nat \<Rightarrow> nat \<times> (frame_error + envelope)" where
  "parseClientFrame envelope_of text_of newID raw sessionID seq =
     (case envelope_of raw of
        None \<Rightarrow> (seq, Inl InvalidJson)
      | Some env \<Rightarrow>
          if ev_v env \<noteq> [] then
            (let env = env\<lparr>ev_session := sessionID\<rparr>;
                 env = (if ev_node env = [] then env\<lparr>ev_node := ClientRef\<rparr> else env)
             in (seq, case envelope_Validate env of Some e \<Rightarrow> Inl (InvalidEnvelope e) | None \<Rightarrow> Inr env))
          else (case text_of raw of
                  None \<Rightarrow> (seq, Inl NeitherForm)
                | Some txt \<Rightarrow>
                    if TrimSpace txt = [] then (seq, Inl NeitherForm)
                    else (seq + 1, Inr (shorthand_envelope newID sessionID (seq + 1) txt))))"

definition KindConfigUpdate :: string where "KindConfigUpdate = ''config_update''"
definition PinSchemaName :: string where "PinSchemaName = ''aura/pins@1''"

datatype pins_outcome = NotPins | PinsClosed | PinsInvalid | PinsRefused pin_error | PinsSet

text \<open>\<open>pins_of\<close> decodes the pins of a frame.\<close>

definition applyPins ::
  "(bytes \<Rightarrow> (string \<times> pin) list option) \<Rightarrow> string \<Rightarrow> envelope \<Rightarrow> bool \<Rightarrow> session \<Rightarrow> session \<times> pins_outcome" where
  "applyPins pins_of mode env pinned s =
     (if ev_kind env \<noteq> KindConfigUpdate \<or> ev_schema env \<noteq> PinSchemaName then (s, NotPins)
      else if pinned then (s, PinsClosed)
      else (case pins_of (ev_payload env) of
              None \<Rightarrow> (s, PinsInvalid)
            | Some pins \<Rightarrow>
                (case SetPins pins mode s of
                   (s, Some e) \<Rightarrow> (s, PinsRefused e)
                 | (s, None) \<Rightarrow> (s, PinsSet))))"

text \<open>\<^verbatim>\<open>clientWS\<close> up to its loop. The generated session id is an argument; \<open>None\<close> is a refusal before or by the
  start of the session.\<close>

definition client_open ::
  "(string \<Rightarrow> string option) \<Rightarrow> (nat \<Rightarrow> bool) \<Rightarrow> (nat \<Rightarrow> bool) \<Rightarrow> bool \<Rightarrow> int \<Rightarrow> string \<Rightarrow> string \<Rightarrow> string \<Rightarrow> string
   \<Rightarrow> link_state \<Rightarrow> link_state \<times> client_conn option" where
  "client_open other fault io readable now newSession graphID asked undoOf st =
     (if graphID = [] then (st, None)
      else (let sessionID = (if asked = [] then newSession else asked) in
            case manager_Start other fault io readable now sessionID graphID undoOf (lk_node st) of
              (nd, Inl _) \<Rightarrow> (st\<lparr>lk_node := nd\<rparr>, None)
            | (nd, Inr k) \<Rightarrow>
                (st\<lparr>lk_node := nd\<rparr>, Some \<lparr>cc_session = sessionID, cc_object = k, cc_seq = 0, cc_pinned = False\<rparr>)))"

datatype client_reply = ClientRefused frame_error | ClientPins pins_outcome | ClientRouted

text \<open>One turn of the loop, on the session object the connection holds.\<close>

definition client_frame ::
  "nat \<Rightarrow> world \<Rightarrow> (bytes \<Rightarrow> envelope option) \<Rightarrow> (bytes \<Rightarrow> string option) \<Rightarrow> (bytes \<Rightarrow> (string \<times> pin) list option) \<Rightarrow> string
   \<Rightarrow> bytes \<Rightarrow> client_conn \<Rightarrow> link_state \<Rightarrow> (link_state \<times> client_conn \<times> client_reply) option" where
  "client_frame fuel w envelope_of text_of pins_of newID raw cl st =
     (let (seq, parsed) = parseClientFrame envelope_of text_of newID raw (cc_session cl) (cc_seq cl);
          cl = cl\<lparr>cc_seq := seq\<rparr>; nd = lk_node st; k = cc_object cl
      in case parsed of
           Inl e \<Rightarrow> Some (st, cl, ClientRefused e)
         | Inr env \<Rightarrow>
             (case applyPins pins_of (nd_mode nd) env (cc_pinned cl) (nd_objects nd ! k) of
                (s, NotPins) \<Rightarrow>
                  (let cl = (if ev_kind env = KindData then cl\<lparr>cc_pinned := True\<rparr> else cl) in
                   map_option (\<lambda>nd. (st\<lparr>lk_node := nd\<rparr>, cl, ClientRouted)) (route_object fuel w k env nd))
              | (s, out) \<Rightarrow>
                  Some (st\<lparr>lk_node := nd\<lparr>nd_objects := (nd_objects nd)[k := s]\<rparr>\<rparr>, cl, ClientPins out)))"

definition client_close :: "bool \<Rightarrow> int \<Rightarrow> client_conn \<Rightarrow> link_state \<Rightarrow> link_state" where
  "client_close fault now cl st = st\<lparr>lk_node := manager_End fault now (cc_session cl) (lk_node st)\<rparr>"

end
