(* ===== verification/Link_Properties.thy ===== *)
theory Link_Properties
  imports Skill_Link Manager_Properties Ingress_Properties Guard_Properties
begin

text \<open>
  What holds of the connections of a node, in whatever order they are opened, speak and close: what is
  registered was allowed to register, the memory budget is kept (where the declarations are sane), and the
  pins of a session are closed by its first message. And what does not: a client that comes back to its
  session in the short form is not heard.
\<close>

section \<open>Routing leaves the pins alone\<close>

definition pins_kept :: "session \<Rightarrow> session \<Rightarrow> bool" where
  "pins_kept s s' \<longleftrightarrow> sn_pins s' = sn_pins s \<and> sn_id s' = sn_id s"

lemma pins_kept_trans: "pins_kept s t \<Longrightarrow> pins_kept t u \<Longrightarrow> pins_kept s u"
  by (simp add: pins_kept_def)

lemma pins_kept_emitError: "pins_kept s (emitError w i m s)"
  by (simp add: pins_kept_def emitError_def Let_def draw_id_def send_def append_event_def)

lemma pins_kept_deliver: "pins_kept s (deliver w src out d s)"
  using pins_kept_emitError
  by (auto simp: pins_kept_def deliver_def dropExpired_def read_clock_def Let_def send_def append_event_def
      split: if_splits prod.splits)

lemma pins_kept_seal: "seal w req l s = Some (t, r) \<Longrightarrow> pins_kept s t"
  by (auto simp: seal_def pins_kept_def split: option.splits)

lemma pins_kept_sealEffect: "sealEffect w out d root s = Some (t, r) \<Longrightarrow> pins_kept s t"
  by (auto simp: sealEffect_def Let_def takeApproval_def pins_kept_def
      split: option.splits if_splits prod.splits sum.splits dest!: pins_kept_seal)

lemma pins_kept_dispatch:
  assumes "dispatch w src d s = Some s'"
  shows "pins_kept s s'"
proof -
  obtain t out where h: "hop_envelope w src d s = (t, out)" by fastforce
  obtain u over where c: "chargeContext out t = (u, over)" by fastforce
  have su: "pins_kept s u"
    using h c by (auto simp: pins_kept_def hop_envelope_def Let_def draw_id_def read_clock_def chargeContext_def
        split: if_splits prod.splits)
  let ?v = "track src d (ev_id out) (rootOf u src) u"
  have sv: "pins_kept s ?v" using su by (simp add: pins_kept_def track_def)
  consider (over) e where "over = Some e" "s' = emitError w (ev_id src) e u"
    | (told) x e where "sealEffect w out d (rootOf u src) ?v = Some (x, Inl e)" "s' = emitError w (ev_id src) (SealRefused e) x"
    | (sent) x r out' where "sealEffect w out d (rootOf u src) ?v = Some (x, r)" "s' = deliver w src out' d x"
    using assms h c by (auto simp: dispatch_def Let_def split: option.splits prod.splits sum.splits if_splits)
  then show ?thesis
    using su sv pins_kept_emitError pins_kept_deliver pins_kept_sealEffect
    by cases (blast intro: pins_kept_trans)+
qed

interpretation pinning: routing w pins_kept "\<lambda>_. True" for w
proof (unfold_locales, goal_cases)
  case (7 d src s s')
  then show ?case by (simp add: pins_kept_dispatch)
next
  case (8 held d a s s')
  then show ?case
    by (auto simp: sealDenial_def Let_def pins_kept_def split: option.splits dest!: pins_kept_seal)
qed (auto simp: pins_kept_def quiet_def append_event_def send_def)

lemma route_object_pins:
  assumes "route_object fuel w k env nd = Some nd'"
  shows "length (nd_objects nd') = length (nd_objects nd)"
    "j < length (nd_objects nd) \<Longrightarrow> pins_kept (nd_objects nd ! j) (nd_objects nd' ! j)"
    "nd_registry nd' = nd_registry nd"
proof -
  obtain s where k: "k < length (nd_objects nd)" and s: "Route fuel w env (mount nd (nd_objects nd ! k)) = Some s"
    and nd': "nd' = unmount k s nd"
    using assms by (auto simp: route_object_def split: if_splits)
  have "pins_kept (mount nd (nd_objects nd ! k)) s" by (rule pinning.Route_all_R [OF TrueI s])
  then have p: "pins_kept (nd_objects nd ! k) s" by (simp add: pins_kept_def mount_def)
  show "length (nd_objects nd') = length (nd_objects nd)" "nd_registry nd' = nd_registry nd"
    by (simp_all add: nd' unmount_def)
  show "pins_kept (nd_objects nd ! j) (nd_objects nd' ! j)" if "j < length (nd_objects nd)"
    using that p k by (cases "j = k") (simp_all add: nd' unmount_def, simp add: pins_kept_def)
qed

lemma dispatch_object_pins:
  assumes "manager_Dispatch fuel w env nd = Some (nd', e)"
  shows "length (nd_objects nd') = length (nd_objects nd)"
    "j < length (nd_objects nd) \<Longrightarrow> pins_kept (nd_objects nd ! j) (nd_objects nd' ! j)"
    "nd_registry nd' = nd_registry nd"
  using assms by (auto simp: manager_Dispatch_def pins_kept_def split: option.splits
      dest: route_object_pins(1,3) route_object_pins(2) [unfolded pins_kept_def])

section \<open>Starting a session leaves the connections alone\<close>

lemma pick_conns: "rg_by_conn (fst (pick c ls r)) = rg_by_conn r"
  by (simp add: pick_def Let_def)

lemma Resolve_conns: "rg_by_conn (fst (Resolve u c r)) = rg_by_conn r"
  by (simp add: Resolve_def Let_def case_prod_beta pick_conns)

lemma ResolvePreferred_conns: "rg_by_conn (fst (ResolvePreferred u c pr av r)) = rg_by_conn r"
  by (simp add: ResolvePreferred_def Let_def case_prod_beta pick_conns Resolve_conns split: option.split)

lemma resolve_nodes_conns: "rg_by_conn (fst (resolve_nodes pol ns reg resolved)) = rg_by_conn reg"
proof (induction pol ns reg resolved rule: resolve_nodes.induct)
  case (2 pol n ns reg resolved)
  obtain pr av where r: "RouteFor pol (no_resolve n) = (pr, av)" by fastforce
  obtain reg' x where x: "ResolvePreferred (no_use n) (no_resolve n) pr av reg = (reg', x)" by fastforce
  then have "rg_by_conn reg' = rg_by_conn reg" using ResolvePreferred_conns by (metis fst_conv)
  then show ?case using 2 r x by (cases x) simp_all
qed simp

lemma NewSession_conns: "NewSession io readable i g reg db events mode pol ldg undoOf = (reg', r) \<Longrightarrow> rg_by_conn reg' = rg_by_conn reg"
  using resolve_nodes_conns [of pol "gr_nodes g" reg "[]"]
  by (auto simp: NewSession_def split: prod.splits sum.splits)


lemma Start_conns:
  assumes "manager_Start other fault io readable now i g u nd = (nd', r)"
  shows "rg_by_conn (nd_registry nd') = rg_by_conn (nd_registry nd)"
    "length (nd_objects nd) \<le> length (nd_objects nd')"
    "j < length (nd_objects nd) \<Longrightarrow> nd_objects nd' ! j = nd_objects nd ! j"
    "r = Inr k \<Longrightarrow> k = length (nd_objects nd) \<and> k < length (nd_objects nd')"
  using assms
  by (auto simp: manager_Start_def nth_append split: sum.splits if_splits prod.splits dest: NewSession_conns)

section \<open>The connections of a node in any order\<close>

inductive link_step :: "(string \<Rightarrow> string \<Rightarrow> int option) \<Rightarrow> link_state \<times> client_conn list \<Rightarrow> link_state \<times> client_conn list \<Rightarrow> bool"
  for scale where
  skill_in: "connID \<notin> fst ` set (lk_skills st) \<Longrightarrow>
     serve_handshake envelope_of unmarshal marshal scale fault now p connID raw st = (st', r) \<Longrightarrow>
     link_step scale (st, cls) (st', cls)"
| skill_says: "serve_frame fuel w envelope_of raw st = Some (st', a) \<Longrightarrow> link_step scale (st, cls) (st', cls)"
| skill_out: "connID \<in> fst ` set (lk_skills st) \<Longrightarrow> link_step scale (st, cls) (serve_ends connID st, cls)"
| client_in: "client_open other faults io readable now new g asked undoOf st = (st', c) \<Longrightarrow>
     link_step scale (st, cls) (st', cls @ (case c of None \<Rightarrow> [] | Some cl \<Rightarrow> [cl]))"
| client_says: "i < length cls \<Longrightarrow>
     client_frame fuel w envelope_of text_of pins_of newID raw (cls ! i) st = Some (st', cl, b) \<Longrightarrow>
     link_step scale (st, cls) (st', cls[i := cl])"
| client_out: "cl \<in> set cls \<Longrightarrow> link_step scale (st, cls) (client_close gone now cl st, cls)"

section \<open>Who is registered\<close>

definition may_be :: "principal \<Rightarrow> manifest \<Rightarrow> bool" where
  "may_be p m \<longleftrightarrow> manifest_Validate m = None \<and> mf_protocol m = ProtocolMajor \<and> MayRegister p (mf_capability m)"

definition link_inv :: "link_state \<Rightarrow> bool" where
  "link_inv st \<longleftrightarrow>
     (\<forall>c l. al_get (rg_by_conn (nd_registry (lk_node st))) c = Some l \<longrightarrow> (\<exists>p. (c, p, lv_manifest l) \<in> set (lk_skills st)))
     \<and> (\<forall>c p m. (c, p, m) \<in> set (lk_skills st) \<longrightarrow> may_be p m)"

lemma check_register_ok: "check_register ef um p raw = Inr (m, mem) \<Longrightarrow> may_be p m"
  by (auto simp: check_register_def may_be_def split: option.splits if_splits)

lemma handshake_cases:
  assumes "serve_handshake ef um ma scale fault now p c raw st = (st', r)"
  obtains (refused) e where "r = Inl e" "lk_node st' = lk_node st" "lk_skills st' = lk_skills st" "lk_adm st' = lk_adm st"
  | (taken) m mem a t where "\<exists>vals. r = Inr (m, vals)" "may_be p m" "Admit scale c mem (lk_adm st) = (a, None)"
      "lk_adm st' = a" "lk_skills st' = (c, p, m) # lk_skills st"
      "lk_node st' = (lk_node st)\<lparr>nd_registry := fst (Register c \<lparr>lv_manifest = m, lv_connected = now, lv_conn = c\<rparr> (nd_registry (lk_node st))),
                                  nd_tables := t\<rparr>"
proof (cases "check_register ef um p raw")
  case (Inl e)
  then show ?thesis using assms by (intro refused) (auto simp: serve_handshake_def)
next
  case (Inr x)
  obtain m mem where x: "x = (m, mem)" by fastforce
  obtain a e where a: "Admit scale c mem (lk_adm st) = (a, e)" by fastforce
  show ?thesis
  proof (cases e)
    case (Some err)
    then have "a = lk_adm st" using a by (auto simp: Admit_def split: option.splits if_splits)
    then show ?thesis using assms Inr x a Some by (intro refused) (auto simp: serve_handshake_def)
  next
    case None
    then show ?thesis
      using assms Inr x a check_register_ok [OF Inr [unfolded x]]
      by (intro taken [of m mem a]) (auto simp: serve_handshake_def Let_def split: prod.splits)
  qed
qed

lemma link_inv_cong:
  "rg_by_conn (nd_registry (lk_node st')) = rg_by_conn (nd_registry (lk_node st)) \<Longrightarrow> lk_skills st' = lk_skills st \<Longrightarrow>
   link_inv st \<Longrightarrow> link_inv st'"
  by (simp add: link_inv_def)

lemma client_frame_conns:
  assumes "client_frame fuel w ef tx pf i raw cl st = Some (st', cl', b)"
  shows "nd_registry (lk_node st') = nd_registry (lk_node st)" "lk_skills st' = lk_skills st" "lk_adm st' = lk_adm st"
  using assms
  by (auto simp: client_frame_def Let_def split: prod.splits sum.splits pins_outcome.splits dest: route_object_pins(3))

lemma serve_frame_conns:
  assumes "serve_frame fuel w ef raw st = Some (st', a)"
  shows "nd_registry (lk_node st') = nd_registry (lk_node st)" "lk_skills st' = lk_skills st" "lk_adm st' = lk_adm st"
  using assms
  by (auto simp: serve_frame_def split: option.splits prod.splits dest: dispatch_object_pins(3))

lemma client_open_conns:
  assumes "client_open other faults io readable now new g asked undoOf st = (st', c)"
  shows "rg_by_conn (nd_registry (lk_node st')) = rg_by_conn (nd_registry (lk_node st))" "lk_skills st' = lk_skills st"
    "lk_adm st' = lk_adm st"
  using assms
  by (auto simp: client_open_def Let_def split: if_splits prod.splits sum.splits dest: Start_conns(1))

lemma link_inv_step: "link_step scale x y \<Longrightarrow> link_inv (fst x) \<Longrightarrow> link_inv (fst y)"
proof (induction rule: link_step.induct)
  case (skill_in connID st envelope_of unmarshal marshal fault now p raw st' r cls)
  from skill_in(2) show ?case
  proof (cases rule: handshake_cases)
    case refused
    then show ?thesis using skill_in(3) by (auto intro: link_inv_cong)
  next
    case (taken m mem a t)
    then show ?thesis using skill_in(3)
      by (auto simp: link_inv_def Register_def Let_def split: if_splits)
  qed
next
  case (skill_out connID st cls)
  then show ?case
    by (auto simp: link_inv_def serve_ends_def Unregister_def split: if_splits)
next
  case (skill_says fuel w envelope_of raw st st' a cls)
  then show ?case using serve_frame_conns by (auto intro: link_inv_cong)
next
  case (client_in other faults io readable now new g asked undoOf st st' c cls)
  then show ?case using client_open_conns by (auto intro: link_inv_cong)
next
  case (client_says i cls fuel w envelope_of text_of pins_of newID raw st st' cl b)
  then show ?case using client_frame_conns(1,2) [OF client_says(2)] by (auto intro: link_inv_cong)
qed (simp add: client_close_def manager_End_def link_inv_def)

text \<open>C20: whatever the order in which the connections of a node open, speak and close, a skill in the
  registry belongs to a connection that is still open and that registered it in a handshake: its manifest is
  valid, speaks this protocol, and declares a capability the credential of that very connection may register.\<close>

theorem registered_skill_may_be:
  assumes "(link_step scale)\<^sup>*\<^sup>* (st, []) (st', cls)"
    "rg_by_conn (nd_registry (lk_node st)) = []" "lk_skills st = []"
    "al_get (rg_by_conn (nd_registry (lk_node st'))) c = Some l"
  shows "\<exists>p. (c, p, lv_manifest l) \<in> set (lk_skills st') \<and> manifest_Validate (lv_manifest l) = None
    \<and> mf_protocol (lv_manifest l) = ProtocolMajor
    \<and> (IsOperator p \<or> pr_scope p = ScopeSkill \<and> pr_capability p = mf_capability (lv_manifest l))"
proof -
  have "link_inv (fst (st', cls))"
    using assms(1)
  proof (induction rule: rtranclp_induct)
    case base
    show ?case using assms(2,3) by (simp add: link_inv_def)
  qed (blast intro: link_inv_step)
  then show ?thesis using assms(4) by (auto simp: link_inv_def may_be_def MayRegister_def) blast
qed

section \<open>The budget\<close>

definition conns_total :: "admission \<Rightarrow> int" where
  "conns_total a = sum_list (map snd (ad_conns a))"

definition adm_inv :: "int \<Rightarrow> link_state \<Rightarrow> bool" where
  "adm_inv budget st \<longleftrightarrow>
     (let a = lk_adm st in ad_budget a = budget \<and> ad_used a = conns_total a \<and> 0 \<le> ad_used a \<and> ad_used a \<le> budget
        \<and> map fst (ad_conns a) = rev (map fst (lk_skills st)) \<and> distinct (map fst (lk_skills st))
        \<and> list_all (\<lambda>(_, n). 0 \<le> n) (ad_conns a))"

lemma al_put_fresh: "k \<notin> fst ` set xs \<Longrightarrow> al_put k v xs = xs @ [(k, v)]"
  by (induction k v xs rule: al_put.induct) auto

lemma total_del:
  "distinct (map fst xs) \<Longrightarrow> sum_list (map snd (al_del c xs)) = sum_list (map snd xs) - (case al_get xs c of None \<Rightarrow> 0 | Some n \<Rightarrow> n)"
  for xs :: "(string \<times> int) list"
proof (induction xs)
  case (Cons x xs)
  have "fst x = c \<Longrightarrow> al_get xs c = None" using Cons.prems by (auto simp: al_get_None_iff)
  then show ?case using Cons by (cases x) (auto simp: al_del_def)
qed (simp add: al_del_def)

lemma filter_rev_keys: "filter (\<lambda>c. c \<noteq> k) (rev (map fst xs)) = rev (map fst (filter (\<lambda>(c, _). c \<noteq> k) xs))"
  by (induction xs) auto

lemma al_get_le_total:
  "list_all (\<lambda>(_, n). 0 \<le> n) xs \<Longrightarrow> al_get xs c = Some n \<Longrightarrow> 0 \<le> n \<and> n \<le> sum_list (map snd xs)"
  for xs :: "(string \<times> int) list"
proof (induction xs)
  case (Cons x xs)
  have "0 \<le> sum_list (map snd xs)" using Cons.prems(1) by (intro sum_list_nonneg) (auto simp: list_all_iff)
  then show ?case using Cons by (cases x) (auto split: if_splits)
qed simp

lemma adm_inv_step:
  assumes "link_step scale x y" "\<forall>n u b. scale n u = Some b \<longrightarrow> 0 \<le> b \<and> b < 2 ^ 62" "0 < budget" "budget \<le> 2 ^ 62"
    "adm_inv budget (fst x)"
  shows "adm_inv budget (fst y)"
  using assms(1,5)
proof (induction rule: link_step.induct)
  case (skill_in connID st envelope_of unmarshal marshal fault now p raw st' r cls)
  from skill_in(2) show ?case
  proof (cases rule: handshake_cases)
    case refused
    then show ?thesis using skill_in(3) by (simp add: adm_inv_def)
  next
    case (taken m mem a t)
    then obtain need where n: "ParseMemory scale mem = Some need"
      and fit: "\<not> ad_budget (lk_adm st) < wrap64 (ad_used (lk_adm st) + need)"
      and a: "a = (lk_adm st)\<lparr>ad_used := wrap64 (ad_used (lk_adm st) + need), ad_conns := al_put connID need (ad_conns (lk_adm st))\<rparr>"
      using skill_in(3) assms(3) by (auto simp: Admit_def adm_inv_def Let_def split: option.splits if_splits)
    have need: "0 \<le> need" "need < 2 ^ 62"
      using n assms(2) by (auto simp: ParseMemory_def Let_def split: if_splits option.splits prod.splits)
    have "connID \<notin> fst ` set (ad_conns (lk_adm st))"
    proof -
      have "set (map fst (ad_conns (lk_adm st))) = set (map fst (lk_skills st))"
        using skill_in(3) by (simp only: adm_inv_def Let_def fst_conv set_rev)
      then show ?thesis using skill_in(1) by (simp only: set_map) blast
    qed
    then have put: "al_put connID need (ad_conns (lk_adm st)) = ad_conns (lk_adm st) @ [(connID, need)]" by (rule al_put_fresh)
    have "wrap64 (ad_used (lk_adm st) + need) = ad_used (lk_adm st) + need"
      using skill_in(3) need assms(4) by (intro wrap64_id) (auto simp: adm_inv_def Let_def)
    then show ?thesis
      using taken(4,5) skill_in(1,3) need fit
      by (auto simp: adm_inv_def Let_def a put conns_total_def)
  qed
next
  case (skill_out connID st cls)
  let ?a = "lk_adm st"
  have inv: "ad_used ?a = conns_total ?a" "0 \<le> ad_used ?a" "ad_used ?a \<le> budget" "ad_budget ?a = budget"
    "map fst (ad_conns ?a) = rev (map fst (lk_skills st))" "distinct (map fst (lk_skills st))"
    "list_all (\<lambda>(_, n). 0 \<le> n) (ad_conns ?a)"
    using skill_out(2) by (simp_all add: adm_inv_def Let_def)
  let ?n = "case al_get (ad_conns ?a) connID of None \<Rightarrow> 0 | Some n \<Rightarrow> n"
  have n: "0 \<le> ?n" "?n \<le> ad_used ?a"
    using al_get_le_total [OF inv(7), of connID] inv(1,2) by (auto simp: conns_total_def split: option.split)
  have w: "wrap64 (ad_used ?a - ?n) = ad_used ?a - ?n"
    using n inv(2,3) assms(4) by (intro wrap64_id) auto
  have "distinct (map fst (ad_conns ?a))" unfolding inv(5) using inv(6) by simp
  then have t: "sum_list (map snd (al_del connID (ad_conns ?a))) = ad_used ?a - ?n" by (simp add: total_del inv(1) conns_total_def)
  have "map fst (al_del connID (ad_conns ?a)) = filter (\<lambda>c. c \<noteq> connID) (map fst (ad_conns ?a))"
    by (simp add: al_del_def filter_map comp_def)
  also have "\<dots> = rev (map fst (filter (\<lambda>(c, _). c \<noteq> connID) (lk_skills st)))"
    unfolding inv(5) by (rule filter_rev_keys)
  finally have k: "map fst (al_del connID (ad_conns ?a)) = rev (map fst (filter (\<lambda>(c, _). c \<noteq> connID) (lk_skills st)))" .
  have d: "distinct (map fst (filter (\<lambda>(c, _). c \<noteq> connID) (lk_skills st)))" using inv(6) by (rule distinct_map_filter)
  have p: "list_all (\<lambda>(_, n). 0 \<le> n) (al_del connID (ad_conns ?a))" using inv(7) by (auto simp: al_del_def list_all_iff)
  show ?case
    using inv(4) n w t k d p inv(3)
    by (simp add: adm_inv_def Let_def serve_ends_def Release_conn_def conns_total_def)
next
  case (skill_says fuel w envelope_of raw st st' a cls)
  then show ?case using serve_frame_conns(2,3) by (auto simp: adm_inv_def)
next
  case (client_in other faults io readable now new g asked undoOf st st' c cls)
  then show ?case using client_open_conns(2,3) by (auto simp: adm_inv_def)
next
  case (client_says i cls fuel w envelope_of text_of pins_of newID raw st st' cl b)
  then show ?case using client_frame_conns(2,3) [OF client_says(2)] by (auto simp: adm_inv_def)
qed (simp add: client_close_def adm_inv_def)

text \<open>C39: as long as no declaration stands for a negative number of bytes or for four exbibytes or more, the
  memory the node has admitted is the sum of what its open connections declared and stays within the budget.\<close>

theorem admission_stays_in_budget:
  assumes "(link_step scale)\<^sup>*\<^sup>* (st, []) (st', cls)" "lk_adm st = NewAdmission budget" "lk_skills st = []"
    "0 < budget" "budget \<le> 2 ^ 62" "\<forall>n u b. scale n u = Some b \<longrightarrow> 0 \<le> b \<and> b < 2 ^ 62"
  shows "ad_used (lk_adm st') = sum_list (map snd (ad_conns (lk_adm st'))) \<and> ad_used (lk_adm st') \<le> budget
    \<and> set (map fst (ad_conns (lk_adm st'))) = set (map fst (lk_skills st'))"
proof -
  have "adm_inv budget (fst (st', cls))"
    using assms(1)
  proof (induction rule: rtranclp_induct)
    case base
    show ?case using assms(2-4) by (simp add: adm_inv_def NewAdmission_def conns_total_def)
  next
    case (step y z)
    then show ?case using adm_inv_step assms(4-6) by blast
  qed
  then show ?thesis by (simp only: adm_inv_def Let_def fst_conv set_rev conns_total_def) simp
qed

section \<open>Pins\<close>

text \<open>Every client connection has a session object of its own.\<close>

definition clients_inv :: "link_state \<times> client_conn list \<Rightarrow> bool" where
  "clients_inv x \<longleftrightarrow> distinct (map cc_object (snd x))
     \<and> (\<forall>cl \<in> set (snd x). cc_object cl < length (nd_objects (lk_node (fst x))))"

text \<open>What a step keeps of the connections that were there: their session objects, and the pins of the objects whose
  connection has closed its pin set.\<close>

definition pins_fixed :: "link_state \<times> client_conn list \<Rightarrow> link_state \<times> client_conn list \<Rightarrow> bool" where
  "pins_fixed x y \<longleftrightarrow> length (snd x) \<le> length (snd y)
     \<and> (\<forall>i < length (snd x). cc_object (snd y ! i) = cc_object (snd x ! i)
          \<and> (cc_pinned (snd x ! i) \<longrightarrow> cc_pinned (snd y ! i)
               \<and> sn_pins (nd_objects (lk_node (fst y)) ! cc_object (snd x ! i))
                 = sn_pins (nd_objects (lk_node (fst x)) ! cc_object (snd x ! i))))"

lemma pins_fixed_trans: "pins_fixed x y \<Longrightarrow> pins_fixed y z \<Longrightarrow> pins_fixed x z"
  unfolding pins_fixed_def by (metis (no_types, lifting) order_less_le_trans order_trans)

lemma client_frame_pins:
  assumes "client_frame fuel w ef tx pf i raw cl st = Some (st', cl', b)" "cc_object cl < length (nd_objects (lk_node st))"
  shows "cc_object cl' = cc_object cl" "cc_pinned cl \<Longrightarrow> cc_pinned cl'"
    "length (nd_objects (lk_node st')) = length (nd_objects (lk_node st))"
    "j < length (nd_objects (lk_node st)) \<Longrightarrow> j \<noteq> cc_object cl \<or> cc_pinned cl \<Longrightarrow>
       sn_pins (nd_objects (lk_node st') ! j) = sn_pins (nd_objects (lk_node st) ! j)"
proof -
  obtain seq parsed where p: "parseClientFrame ef tx i raw (cc_session cl) (cc_seq cl) = (seq, parsed)" by fastforce
  have "cc_object cl' = cc_object cl \<and> (cc_pinned cl \<longrightarrow> cc_pinned cl')
    \<and> length (nd_objects (lk_node st')) = length (nd_objects (lk_node st))
    \<and> (\<forall>j < length (nd_objects (lk_node st)). j \<noteq> cc_object cl \<or> cc_pinned cl \<longrightarrow>
         sn_pins (nd_objects (lk_node st') ! j) = sn_pins (nd_objects (lk_node st) ! j))"
  proof (cases parsed)
    case (Inl e)
    then show ?thesis using assms p by (auto simp: client_frame_def)
  next
    case (Inr env)
    obtain s out where a: "applyPins pf (nd_mode (lk_node st)) env (cc_pinned cl) (nd_objects (lk_node st) ! cc_object cl) = (s, out)"
      by fastforce
    have keep: "cc_pinned cl \<Longrightarrow> s = nd_objects (lk_node st) ! cc_object cl"
      using a by (auto simp: applyPins_def split: if_splits)
    show ?thesis
    proof (cases "out = NotPins")
      case True
      then obtain nd where r: "route_object fuel w (cc_object cl) env (lk_node st) = Some nd" "st' = st\<lparr>lk_node := nd\<rparr>"
        "cl' = (if ev_kind env = KindData then cl\<lparr>cc_seq := seq, cc_pinned := True\<rparr> else cl\<lparr>cc_seq := seq\<rparr>)"
        using assms(1) p Inr a by (auto simp: client_frame_def Let_def)
      then show ?thesis using route_object_pins(1,2) [OF r(1)] by (auto simp: pins_kept_def)
    next
      case False
      then have "st' = st\<lparr>lk_node := (lk_node st)\<lparr>nd_objects := (nd_objects (lk_node st))[cc_object cl := s]\<rparr>\<rparr>"
        "cl' = cl\<lparr>cc_seq := seq\<rparr>"
        using assms(1) p Inr a by (auto simp: client_frame_def Let_def split: pins_outcome.splits)
      then show ?thesis using keep assms(2) by (auto simp: nth_list_update)
    qed
  qed
  then show "cc_object cl' = cc_object cl" "cc_pinned cl \<Longrightarrow> cc_pinned cl'"
    "length (nd_objects (lk_node st')) = length (nd_objects (lk_node st))"
    "j < length (nd_objects (lk_node st)) \<Longrightarrow> j \<noteq> cc_object cl \<or> cc_pinned cl \<Longrightarrow>
       sn_pins (nd_objects (lk_node st') ! j) = sn_pins (nd_objects (lk_node st) ! j)" by blast+
qed

lemma client_open_cases:
  assumes "client_open other faults io readable now new g asked undoOf st = (st', c)"
  obtains (none) "st' = st" "c = None"
  | (started) nd r where "manager_Start other faults io readable now (if asked = [] then new else asked) g undoOf (lk_node st) = (nd, r)"
      "st' = st\<lparr>lk_node := nd\<rparr>"
      "c = (case r of Inl _ \<Rightarrow> None
            | Inr k \<Rightarrow> Some \<lparr>cc_session = (if asked = [] then new else asked), cc_object = k, cc_seq = 0, cc_pinned = False\<rparr>)"
proof (cases "g = []")
  case True
  then show thesis using assms none by (simp add: client_open_def)
next
  case False
  obtain nd r where r: "manager_Start other faults io readable now (if asked = [] then new else asked) g undoOf (lk_node st) = (nd, r)"
    by fastforce
  show thesis using assms False r by (intro started [OF r]) (auto simp: client_open_def Let_def split: sum.splits)
qed

lemma client_open_objects:
  assumes "client_open other faults io readable now new g asked undoOf st = (st', c)"
  shows "length (nd_objects (lk_node st)) \<le> length (nd_objects (lk_node st'))"
    "j < length (nd_objects (lk_node st)) \<Longrightarrow> nd_objects (lk_node st') ! j = nd_objects (lk_node st) ! j"
    "c = Some cl \<Longrightarrow> cc_object cl = length (nd_objects (lk_node st)) \<and> cc_object cl < length (nd_objects (lk_node st'))"
proof -
  from assms have "length (nd_objects (lk_node st)) \<le> length (nd_objects (lk_node st'))
    \<and> (j < length (nd_objects (lk_node st)) \<longrightarrow> nd_objects (lk_node st') ! j = nd_objects (lk_node st) ! j)
    \<and> (c = Some cl \<longrightarrow> cc_object cl = length (nd_objects (lk_node st)) \<and> cc_object cl < length (nd_objects (lk_node st')))"
  proof (cases rule: client_open_cases)
    case (started nd r)
    show ?thesis
      using Start_conns(2-4) [OF started(1)] by (cases r) (auto simp: started(2,3))
  qed simp
  then show "length (nd_objects (lk_node st)) \<le> length (nd_objects (lk_node st'))"
    "j < length (nd_objects (lk_node st)) \<Longrightarrow> nd_objects (lk_node st') ! j = nd_objects (lk_node st) ! j"
    "c = Some cl \<Longrightarrow> cc_object cl = length (nd_objects (lk_node st)) \<and> cc_object cl < length (nd_objects (lk_node st'))" by blast+
qed

lemma handshake_objects:
  "serve_handshake ef um ma scale fault now p c raw st = (st', r) \<Longrightarrow> nd_objects (lk_node st') = nd_objects (lk_node st)"
  by (elim handshake_cases) simp_all

lemma serve_frame_objects:
  assumes "serve_frame fuel w ef raw st = Some (st', a)"
  shows "length (nd_objects (lk_node st')) = length (nd_objects (lk_node st))"
    "j < length (nd_objects (lk_node st)) \<Longrightarrow> pins_kept (nd_objects (lk_node st) ! j) (nd_objects (lk_node st') ! j)"
proof -
  have "length (nd_objects (lk_node st')) = length (nd_objects (lk_node st))
    \<and> (\<forall>j < length (nd_objects (lk_node st)). pins_kept (nd_objects (lk_node st) ! j) (nd_objects (lk_node st') ! j))"
  proof (cases "lk_node st' = lk_node st")
    case True
    then show ?thesis by (simp add: pins_kept_def)
  next
    case False
    then obtain env e where d: "manager_Dispatch fuel w env (lk_node st) = Some (lk_node st', e)"
      using assms by (auto simp: serve_frame_def split: option.splits)
    show ?thesis using dispatch_object_pins(1,2) [OF d] by blast
  qed
  then show "length (nd_objects (lk_node st')) = length (nd_objects (lk_node st))"
    "j < length (nd_objects (lk_node st)) \<Longrightarrow> pins_kept (nd_objects (lk_node st) ! j) (nd_objects (lk_node st') ! j)" by blast+
qed

lemma same_objects:
  assumes "clients_inv (st, cls)" "length (nd_objects (lk_node st')) = length (nd_objects (lk_node st))"
    "\<And>j. j < length (nd_objects (lk_node st)) \<Longrightarrow> pins_kept (nd_objects (lk_node st) ! j) (nd_objects (lk_node st') ! j)"
  shows "clients_inv (st', cls) \<and> pins_fixed (st, cls) (st', cls)"
  using assms by (auto simp: clients_inv_def pins_fixed_def pins_kept_def)

lemma pins_kept_refl [simp]: "pins_kept s s"
  by (simp add: pins_kept_def)

lemma link_step_pins:
  "link_step scale x y \<Longrightarrow> clients_inv x \<Longrightarrow> clients_inv y \<and> pins_fixed x y"
proof (induction rule: link_step.induct)
  case (skill_in connID st envelope_of unmarshal marshal fault now p raw st' r cls)
  then show ?case by (intro same_objects) (simp_all add: handshake_objects)
next
  case (skill_says fuel w envelope_of raw st st' a cls)
  then show ?case using serve_frame_objects by (intro same_objects) blast+
next
  case (skill_out connID st cls)
  then show ?case by (intro same_objects) (simp_all add: serve_ends_def)
next
  case (client_in other faults io readable now new g asked undoOf st st' c cls)
  note O = client_open_objects [OF client_in(1)]
  show ?case
  proof (cases c)
    case None
    then show ?thesis using client_in(2) O by (auto simp: clients_inv_def pins_fixed_def dest: order_less_le_trans)
  next
    case (Some cl)
    have new: "cc_object cl = length (nd_objects (lk_node st))" "cc_object cl < length (nd_objects (lk_node st'))" using O(3) Some by auto
    have old: "cc_object b < length (nd_objects (lk_node st))" if "b \<in> set cls" for b
      using client_in(2) that by (simp add: clients_inv_def)
    have "clients_inv (st', cls @ [cl])"
      using client_in(2) new old O(1) by (auto simp: clients_inv_def dest!: old)
    moreover have "pins_fixed (st, cls) (st', cls @ [cl])"
      using O(2) old by (auto simp: pins_fixed_def nth_append)
    ultimately show ?thesis using Some by simp
  qed
next
  case (client_says i cls fuel w envelope_of text_of pins_of newID raw st st' cl b)
  have k: "cc_object (cls ! i) < length (nd_objects (lk_node st))" "distinct (map cc_object cls)"
    using client_says(1,3) by (auto simp: clients_inv_def)
  note F = client_frame_pins [OF client_says(2) k(1)]
  have ob: "map cc_object (cls[i := cl]) = map cc_object cls"
    using F(1) by (metis list_update_id map_update)
  have at: "cc_object (cls[i := cl] ! j) = cc_object (cls ! j)" if "j < length cls" for j
    using arg_cong [OF ob, of "\<lambda>xs. xs ! j"] that by simp
  have "clients_inv (st', cls[i := cl])"
    unfolding clients_inv_def
  proof (intro conjI ballI)
    show "distinct (map cc_object (snd (st', cls[i := cl])))" using k(2) ob by simp
    fix b assume "b \<in> set (snd (st', cls[i := cl]))"
    then have "cc_object b \<in> set (map cc_object (cls[i := cl]))" by simp
    then have "cc_object b \<in> set (map cc_object cls)" by (simp only: ob)
    then show "cc_object b < length (nd_objects (lk_node (fst (st', cls[i := cl]))))"
      using client_says(3) F(3) by (auto simp: clients_inv_def)
  qed
  moreover have "pins_fixed (st, cls) (st', cls[i := cl])"
    unfolding pins_fixed_def
  proof (intro conjI allI impI)
    fix j assume j: "j < length (snd (st, cls))"
    show "cc_object (snd (st', cls[i := cl]) ! j) = cc_object (snd (st, cls) ! j)" using at j by simp
    assume p: "cc_pinned (snd (st, cls) ! j)"
    show "cc_pinned (snd (st', cls[i := cl]) ! j)" using p j F(2) by (cases "j = i") simp_all
    have "cc_object (cls ! j) < length (nd_objects (lk_node st))" using client_says(3) j by (simp add: clients_inv_def)
    moreover have "cc_object (cls ! j) \<noteq> cc_object (cls ! i) \<or> cc_pinned (cls ! i)"
      using p j k(2) client_says(1) by (cases "j = i") (auto simp: distinct_conv_nth)
    ultimately show "sn_pins (nd_objects (lk_node (fst (st', cls[i := cl]))) ! cc_object (snd (st, cls) ! j))
        = sn_pins (nd_objects (lk_node (fst (st, cls))) ! cc_object (snd (st, cls) ! j))"
      using F(4) by simp
  qed simp
  ultimately show ?case by blast
next
  case (client_out cl cls gone now st)
  then show ?case by (intro same_objects) (simp_all add: client_close_def manager_End_def)
qed

text \<open>C21: once a client connection has routed a data envelope, the pins of its session object never change again,
  whatever this client, other clients and skills do: the object routes the whole of its life for one graph.\<close>

theorem pins_close_with_first_message:
  assumes "(link_step scale)\<^sup>*\<^sup>* (st0, []) (st, cls)" "i < length cls" "cc_pinned (cls ! i)"
    "(link_step scale)\<^sup>*\<^sup>* (st, cls) (st', cls')"
  shows "cc_pinned (cls' ! i) \<and> sn_pins (nd_objects (lk_node st') ! cc_object (cls ! i)) = sn_pins (nd_objects (lk_node st) ! cc_object (cls ! i))"
proof -
  have c: "clients_inv (st, cls)"
    using assms(1) by (induction rule: rtranclp_induct) (simp add: clients_inv_def, use link_step_pins in blast)
  have "clients_inv (st', cls') \<and> pins_fixed (st, cls) (st', cls')"
    using assms(4)
  proof (induction rule: rtranclp_induct)
    case base
    then show ?case using c by (simp add: pins_fixed_def)
  next
    case (step y z)
    then show ?case using link_step_pins pins_fixed_trans by blast
  qed
  then show ?thesis using assms(2,3) by (simp add: pins_fixed_def)
qed

section \<open>A client that comes back\<close>

lemma short_frame:
  "parseClientFrame ef tx i raw sid n = (n + 1, Inr e) \<Longrightarrow> ev_kind e = KindData \<and> ev_idem e = shorthand_idem sid (n + 1) \<and> ev_idem e \<noteq> []"
  by (auto simp: parseClientFrame_def Let_def shorthand_envelope_def shorthand_idem_def split: option.splits if_splits)

lemma seen_is_dropped:
  assumes "cancelled_has (sn_dedup s) (ev_idem m)" "ev_kind m = KindData"
  shows "\<exists>dd. Route (Suc n) w m s = Some ((append_event w m s)\<lparr>sn_dedup := dd\<rparr>)"
proof -
  have "snd (Seen (sn_dedup (append_event w m s)) (ev_idem m))" by (simp add: Seen_eq append_event_def assms(1))
  then obtain dd where "Seen (sn_dedup (append_event w m s)) (ev_idem m) = (dd, True)"
    by (cases "Seen (sn_dedup (append_event w m s)) (ev_idem m)") simp
  then have "Route (Suc n) w m s = Some ((append_event w m s)\<lparr>sn_dedup := dd\<rparr>)"
    using assms(2) by (simp add: route_step_def Let_def kind_defs)
  then show ?thesis ..
qed

lemma Start_new:
  assumes "manager_Start other faults io readable now i g u nd = (nd', Inr k)"
  shows "\<exists>gr reg s ev. NewSession io readable i gr (nd_registry nd) (nd_db nd) (log_of i nd) (nd_mode nd) (nd_policy nd) (nd_ledger nd) u = (reg, Inr s)
    \<and> nd' = nd\<lparr>nd_registry := reg, nd_events := ev, nd_objects := nd_objects nd @ [s\<lparr>sn_approvers := nd_approvers nd\<rparr>],
               nd_live := al_put i (length (nd_objects nd)) (nd_live nd)\<rparr>
    \<and> k = length (nd_objects nd)"
proof -
  obtain raw where raw: "LoadGraph (faults 0) g (nd_tables nd) = Inr raw"
    using assms by (cases "LoadGraph (faults 0) g (nd_tables nd)") (simp_all add: manager_Start_def)
  obtain gr where gr: "ParseGraph other raw = Inr gr"
    using assms raw by (cases "ParseGraph other raw") (simp_all add: manager_Start_def)
  obtain reg x where x: "NewSession io readable i gr (nd_registry nd) (nd_db nd) (log_of i nd) (nd_mode nd) (nd_policy nd) (nd_ledger nd) u = (reg, x)"
    by fastforce
  obtain s where s: "x = Inr s"
    using assms raw gr x by (cases x) (simp_all add: manager_Start_def split: if_splits)
  obtain ev where "StartSession (faults 1) now i g (nd_events nd) = Inr ev"
    using assms raw gr x s by (cases "StartSession (faults 1) now i g (nd_events nd)") (simp_all add: manager_Start_def split: if_splits)
  then show ?thesis using assms raw gr x s by (auto simp: manager_Start_def split: if_splits)
qed

lemma resume_id: "sn_id (resumeFromLog s) = sn_id s"
proof -
  have e: "sn_id (rp_session (fold (replay_event dests) es r)) = sn_id (rp_session r)" for dests es r
    by (induction es arbitrary: r) (auto simp: replay_event_def replay_kind_def replay_hop_def Let_def split: option.splits)
  have g: "sn_id (fold (replay_gate byID) gs s) = sn_id s" for byID gs s
    by (induction gs arbitrary: s) (auto simp: replay_gate_def Let_def split: option.splits)
  show ?thesis by (simp add: resumeFromLog_def Let_def e g)
qed

text \<open>C40: The short form numbers its messages from one in every connection. So when a client opens a
  session whose log holds, among its first thousand events, the first short message of an earlier
  connection, the first short message of the new connection is taken for a repeat of that one, whatever
  either of them says: the frame is accepted, and logged if the log takes it, and nothing is sent or sealed
  for it.\<close>

theorem returning_client_is_unheard:
  assumes "parseClientFrame ef' tx' i' raw' sid 0 = (1, Inr e)" "e \<in> set (take 1000 (log_of sid (lk_node st)))"
    "client_open other faults io readable now new g sid undoOf st = (st1, Some cl)" "sid \<noteq> []"
    "parseClientFrame ef tx i raw sid 0 = (1, Inr m)"
  shows "\<exists>st2 cl2. client_frame (Suc n) w ef tx pf i raw cl st1 = Some (st2, cl2, ClientRouted)
    \<and> log_of sid (lk_node st2) = log_of sid (lk_node st)
        @ (if wo_ok w (sn_tick (nd_objects (lk_node st1) ! cc_object cl)) then [m] else [])
    \<and> sn_sent (nd_objects (lk_node st2) ! cc_object cl) = []
    \<and> nd_ledger (lk_node st2) = nd_ledger (lk_node st) \<and> nd_db (lk_node st2) = nd_db (lk_node st)"
proof -
  from assms(3,4) obtain nd k where start: "manager_Start other faults io readable now sid g undoOf (lk_node st) = (nd, Inr k)"
    and st1: "st1 = st\<lparr>lk_node := nd\<rparr>" and cl: "cl = \<lparr>cc_session = sid, cc_object = k, cc_seq = 0, cc_pinned = False\<rparr>"
    by (cases rule: client_open_cases) (auto split: sum.splits)
  from start obtain gr reg s ev where new: "NewSession io readable sid gr (nd_registry (lk_node st)) (nd_db (lk_node st))
      (log_of sid (lk_node st)) (nd_mode (lk_node st)) (nd_policy (lk_node st)) (nd_ledger (lk_node st)) undoOf = (reg, Inr s)"
    and nd: "nd = (lk_node st)\<lparr>nd_registry := reg, nd_events := ev,
        nd_objects := nd_objects (lk_node st) @ [s\<lparr>sn_approvers := nd_approvers (lk_node st)\<rparr>],
        nd_live := al_put sid (length (nd_objects (lk_node st))) (nd_live (lk_node st))\<rparr>"
    and k: "k = length (nd_objects (lk_node st))"
    using Start_new by blast
  let ?o = "mount nd (nd_objects nd ! k)"
  from new obtain routes where s: "s = resumeFromLog (fresh_session sid gr (nd_policy (lk_node st)) (nd_ledger (lk_node st))
      (nd_db (lk_node st)) (log_of sid (lk_node st)) undoOf routes)"
    by (auto simp: NewSession_def split: prod.splits sum.splits option.splits if_splits)
  have e: "ev_kind e = KindData" "ev_idem e = shorthand_idem sid 1" "ev_idem e \<noteq> []" and m: "ev_kind m = KindData" "ev_idem m = ev_idem e"
    using short_frame [of ef' tx' i' raw' sid 0] short_frame [of ef tx i raw sid 0] assms(1,5) by auto
  have "cancelled_has (sn_dedup s) (ev_idem e)"
    unfolding s by (rule resumed_seen) (use assms(2) e in \<open>simp_all add: fresh_session_def seen_key_def\<close>)
  then have "cancelled_has (sn_dedup ?o) (ev_idem m)" using m by (simp add: nd k mount_def)
  from seen_is_dropped [OF this m(1)] obtain dd where r: "Route (Suc n) w m ?o = Some ((append_event w m ?o)\<lparr>sn_dedup := dd\<rparr>)" by blast
  have sent: "sn_sent ?o = []" using NewSession_sent [OF new] by (simp add: nd k mount_def)
  have o: "route_object (Suc n) w k m nd = Some (unmount k ((append_event w m ?o)\<lparr>sn_dedup := dd\<rparr>) nd)"
    using r by (simp add: route_object_def) (simp add: nd k)
  have a: "applyPins pf (nd_mode nd) m False (nd_objects nd ! k) = (nd_objects nd ! k, NotPins)"
    using m(1) by (simp add: applyPins_def KindConfigUpdate_def kind_defs)
  have "client_frame (Suc n) w ef tx pf i raw cl st1
      = Some (st1\<lparr>lk_node := unmount k ((append_event w m ?o)\<lparr>sn_dedup := dd\<rparr>) nd\<rparr>, cl\<lparr>cc_seq := 1, cc_pinned := True\<rparr>, ClientRouted)"
    using assms(5) a o m(1) by (simp add: client_frame_def cl st1)
  moreover have "k < length (nd_objects nd)" by (simp add: nd k)
  moreover have "sn_id ?o = sid" by (simp add: s resume_id fresh_session_def nd k mount_def)
  moreover have "sn_log ?o = log_of sid (lk_node st)"
    by (simp add: s resume_id fresh_session_def nd k mount_def log_of_def)
  moreover have "sn_tick ?o = sn_tick (nd_objects nd ! k)" by (simp add: mount_def)
  ultimately show ?thesis
    using sent by (simp add: cl st1 unmount_def append_event_def log_of_def) (simp add: mount_def nd)
qed

section \<open>A declaration that disarms the budget\<close>

text \<open>An \<^verbatim>\<open>int64\<close> of a float that is too large is the least one on amd64: it is admitted, and leaves room for anything.\<close>

lemma declaration_disarms_budget:
  assumes "ParseMemory scale declared = Some (- (2 ^ 63))" "ad_budget a = 1024" "ad_used a = 0" "ad_conns a = []"
    "ParseMemory scale other = Some (2 ^ 50)"
  shows "snd (Admit scale ''c1'' declared a) = None \<and> snd (Admit scale ''c2'' other (fst (Admit scale ''c1'' declared a))) = None"
proof -
  have "wrap64 (- (2 ^ 63)) = - (2 ^ 63)" "wrap64 (- (2 ^ 63) + 2 ^ 50) = - (2 ^ 63) + 2 ^ 50" by (rule wrap64_id; simp)+
  then show ?thesis using assms by (simp add: Admit_def)
qed

section \<open>A node for the witnesses\<close>

definition link_start :: link_state where
  "link_start = \<lparr>lk_node = hook_node\<lparr>nd_registry := registry_New\<rparr>, lk_adm = NewAdmission 1024, lk_config = [], lk_skills = []\<rparr>"

definition any_register :: "bytes \<Rightarrow> envelope option" where
  "any_register raw = Some (zero_envelope\<lparr>ev_kind := KindRegister\<rparr>)"

definition toy_scale :: "string \<Rightarrow> string \<Rightarrow> int option" where
  "toy_scale n u = (if n = ''512'' \<and> u = [] then Some 512 else None)"

definition write_manifest :: manifest where
  "write_manifest = manifestFor id ''Files'' toy_write False"

definition toy_handshake :: "link_state \<times> (refusal + manifest \<times> (string \<times> json) list)" where
  "toy_handshake = serve_handshake any_register (\<lambda>_. Some (write_manifest, ''512'')) (\<lambda>_. ''{}'') toy_scale (\<lambda>_. False) 7 the_operator ''c1'' [] link_start"

lemma toy_handshake_state:
  "rg_by_conn (nd_registry (lk_node (fst toy_handshake))) = [(''c1'', \<lparr>lv_manifest = write_manifest, lv_connected = 7, lv_conn = ''c1''\<rparr>)]"
  "lk_skills (fst toy_handshake) = [(''c1'', the_operator, write_manifest)]"
  "ad_conns (lk_adm (fst toy_handshake)) = [(''c1'', 512)]"
proof -
  have v: "manifest_Validate write_manifest = None" "mf_protocol write_manifest = ProtocolMajor"
    by (simp_all add: write_manifest_def manifestFor_valid manifestFor_constants ProtocolMajor_def)
  have p: "ParseMemory toy_scale ''512'' = Some 512" by code_simp
  have c: "check_register any_register (\<lambda>_. Some (write_manifest, ''512'')) the_operator [] = Inr (write_manifest, ''512'')"
    using v by (simp add: check_register_def any_register_def MayRegister_def IsOperator_def the_operator_def nobody_def)
  have "wrap64 512 = 512" by (rule wrap64_id) simp_all
  then have a: "Admit toy_scale ''c1'' ''512'' (NewAdmission 1024) = (\<lparr>ad_budget = 1024, ad_used = 512, ad_conns = [(''c1'', 512)]\<rparr>, None)"
    by (simp add: Admit_def p NewAdmission_def)
  show "rg_by_conn (nd_registry (lk_node (fst toy_handshake))) = [(''c1'', \<lparr>lv_manifest = write_manifest, lv_connected = 7, lv_conn = ''c1''\<rparr>)]"
    "lk_skills (fst toy_handshake) = [(''c1'', the_operator, write_manifest)]"
    "ad_conns (lk_adm (fst toy_handshake)) = [(''c1'', 512)]"
    using a by (simp_all add: toy_handshake_def serve_handshake_def c link_start_def Let_def Register_def registry_New_def)
qed

lemma toy_link_step: "link_step toy_scale (link_start, []) (fst toy_handshake, [])"
proof -
  have h: "serve_handshake any_register (\<lambda>_. Some (write_manifest, ''512'')) (\<lambda>_. ''{}'') toy_scale (\<lambda>_. False) 7 the_operator ''c1'' [] link_start
      = (fst toy_handshake, snd toy_handshake)" by (simp add: toy_handshake_def)
  show ?thesis by (rule link_step.skill_in [OF _ h]) (simp add: link_start_def)
qed

theorem registered_skill_may_be_witness:
  "\<exists>p. (''c1'', p, write_manifest) \<in> set (lk_skills (fst toy_handshake)) \<and> manifest_Validate write_manifest = None
    \<and> (IsOperator p \<or> pr_scope p = ScopeSkill \<and> pr_capability p = mf_capability write_manifest)"
  using registered_skill_may_be [OF r_into_rtranclp [where r = "link_step toy_scale", OF toy_link_step],
      of "''c1''" "\<lparr>lv_manifest = write_manifest, lv_connected = 7, lv_conn = ''c1''\<rparr>"]
  by (simp add: toy_handshake_state(1)) (auto simp: link_start_def registry_New_def)

theorem admission_stays_in_budget_witness:
  "ad_used (lk_adm (fst toy_handshake)) = 512 \<and> ad_used (lk_adm (fst toy_handshake)) \<le> 1024"
proof -
  have "ad_used (lk_adm (fst toy_handshake)) = sum_list (map snd (ad_conns (lk_adm (fst toy_handshake)))) \<and> ad_used (lk_adm (fst toy_handshake)) \<le> 1024
    \<and> set (map fst (ad_conns (lk_adm (fst toy_handshake)))) = set (map fst (lk_skills (fst toy_handshake)))"
    by (rule admission_stays_in_budget [OF r_into_rtranclp [where r = "link_step toy_scale", OF toy_link_step], where budget = 1024])
      (simp_all add: link_start_def toy_scale_def)
  then show ?thesis by (simp add: toy_handshake_state(3))
qed

definition any_shorthand :: "bytes \<Rightarrow> envelope option" where
  "any_shorthand raw = Some zero_envelope"

definition hello_frame :: envelope where
  "hello_frame = shorthand_envelope ''m1'' ''s1'' 1 ''hello''"

definition back_state :: link_state where
  "back_state = \<lparr>lk_node = hook_node\<lparr>nd_logs := [(''s1'', [hello_frame])]\<rparr>, lk_adm = NewAdmission 0, lk_config = [], lk_skills = []\<rparr>"

lemma toy_short: "parseClientFrame any_shorthand (\<lambda>_. Some ''hello'') i raw ''s1'' 0 = (1, Inr (shorthand_envelope i ''s1'' 1 ''hello''))"
proof -
  have "TrimSpace ''hello'' \<noteq> []" by (simp add: visible_def)
  then show ?thesis by (simp add: parseClientFrame_def any_shorthand_def zero_envelope_def)
qed

lemma toy_back:
  "\<exists>st1 cl. client_open (\<lambda>_. None) (\<lambda>_. False) (\<lambda>_. False) True 5 ''new'' ''g'' ''s1'' [] back_state = (st1, Some cl)"
proof -
  obtain routes where w: "wire_edges plain_policy ''dev'' [(''pay'', toy_live ''c1'' 3)] (gr_edges toy_graph) [] = Inr routes"
    using toy_wired by blast
  have "\<exists>reg s. NewSession (\<lambda>_. False) True ''s1'' toy_graph one_skill empty_db [hello_frame] ''dev'' plain_policy None [] = (reg, Inr s)"
    using toy_resolved w by (cases "resolve_nodes plain_policy (gr_nodes toy_graph) one_skill []") (auto simp: NewSession_def)
  then obtain reg s where s: "NewSession (\<lambda>_. False) True ''s1'' toy_graph one_skill empty_db [hello_frame] ''dev'' plain_policy None [] = (reg, Inr s)"
    by blast
  show ?thesis
    using s by (simp add: client_open_def back_state_def manager_Start_def LoadGraph_def hook_node_def hook_tables_def empty_tables_def
        toy_ir_parses LiveSessions_def log_of_def StartSession_def Let_def)
qed

theorem returning_client_is_unheard_witness:
  "\<exists>st1 cl st2 cl2. client_open (\<lambda>_. None) (\<lambda>_. False) (\<lambda>_. False) True 5 ''new'' ''g'' ''s1'' [] back_state = (st1, Some cl)
    \<and> client_frame 1 toy_world any_shorthand (\<lambda>_. Some ''hello'') (\<lambda>_. None) ''m2'' [] cl st1 = Some (st2, cl2, ClientRouted)
    \<and> log_of ''s1'' (lk_node st2) = log_of ''s1'' (lk_node back_state) @ [shorthand_envelope ''m2'' ''s1'' 1 ''hello'']
    \<and> sn_sent (nd_objects (lk_node st2) ! cc_object cl) = []"
proof -
  obtain st1 cl where o: "client_open (\<lambda>_. None) (\<lambda>_. False) (\<lambda>_. False) True 5 ''new'' ''g'' ''s1'' [] back_state = (st1, Some cl)"
    using toy_back by blast
  have l: "hello_frame \<in> set (take 1000 (log_of ''s1'' (lk_node back_state)))"
    by (simp add: back_state_def log_of_def)
  have p: "parseClientFrame any_shorthand (\<lambda>_. Some ''hello'') ''m1'' [] ''s1'' 0 = (1, Inr hello_frame)"
    unfolding hello_frame_def by (rule toy_short)
  have "''s1'' \<noteq> []" by simp
  from returning_client_is_unheard [OF p l o this toy_short [of "''m2''" "[]"], of 0 toy_world "\<lambda>_. None"]
  obtain st2 cl2 where "client_frame 1 toy_world any_shorthand (\<lambda>_. Some ''hello'') (\<lambda>_. None) ''m2'' [] cl st1 = Some (st2, cl2, ClientRouted)"
    "log_of ''s1'' (lk_node st2) = log_of ''s1'' (lk_node back_state) @ [shorthand_envelope ''m2'' ''s1'' 1 ''hello'']"
    "sn_sent (nd_objects (lk_node st2) ! cc_object cl) = []"
    by (auto simp: toy_world_def)
  with o show ?thesis by blast
qed

text \<open>A client opens a session and says something.\<close>

definition first_state :: link_state where
  "first_state = \<lparr>lk_node = hook_node\<lparr>nd_tables := hook_tables\<lparr>tb_seen := []\<rparr>\<rparr>, lk_adm = NewAdmission 0, lk_config = [], lk_skills = []\<rparr>"

lemma toy_said:
  "\<exists>st cl. (link_step toy_scale)\<^sup>*\<^sup>* (first_state, []) (st, [cl]) \<and> cc_pinned cl"
proof -
  obtain nd routes where st: "manager_Start (\<lambda>_. None) (\<lambda>_. False) (\<lambda>_. False) True 5 ''s1'' ''g'' [] (hook_node\<lparr>nd_tables := hook_tables\<lparr>tb_seen := []\<rparr>\<rparr>) = (nd, Inr 0)"
     "nd_objects nd = [fresh_session ''s1'' toy_graph plain_policy None empty_db [] [] routes]"
     "nd_policy nd = plain_policy" "nd_ledger nd = None" "nd_db nd = empty_db" "nd_approvers nd = None" "nd_logs nd = []"
    using toy_start by blast
  let ?s = "fresh_session ''s1'' toy_graph plain_policy None empty_db [] [] routes"
  let ?cl = "\<lparr>cc_session = ''s1'', cc_object = 0, cc_seq = 0, cc_pinned = False\<rparr>"
  let ?st = "first_state\<lparr>lk_node := nd\<rparr>"
  have open1: "client_open (\<lambda>_. None) (\<lambda>_. False) (\<lambda>_. False) True 5 ''new'' ''g'' ''s1'' [] first_state = (?st, Some ?cl)"
    using st(1) by (simp add: client_open_def first_state_def Let_def)
  have mount: "mount nd ?s = ?s" using st by (simp add: mount_def fresh_session_def log_of_def)
  have "\<exists>nd'. route_object 1 toy_world 0 env nd = Some nd'" for env
    using toy_routed [of env routes] st(2) mount by (auto simp: route_object_def)
  then obtain nd' where ro: "route_object 1 toy_world 0 (shorthand_envelope ''m2'' ''s1'' 1 ''hello'') nd = Some nd'" by blast
  have kind: "ev_kind (shorthand_envelope ''m2'' ''s1'' 1 ''hello'') = KindData" by (simp add: shorthand_envelope_def)
  then have a: "applyPins (\<lambda>_. None) (nd_mode nd) (shorthand_envelope ''m2'' ''s1'' 1 ''hello'') False s = (s, NotPins)" for s
    by (simp add: applyPins_def KindConfigUpdate_def KindData_def)
  have says: "client_frame 1 toy_world any_shorthand (\<lambda>_. Some ''hello'') (\<lambda>_. None) ''m2'' [] ?cl ?st
      = Some (?st\<lparr>lk_node := nd'\<rparr>, ?cl\<lparr>cc_seq := 1, cc_pinned := True\<rparr>, ClientRouted)"
    using ro a kind by (simp add: client_frame_def toy_short)
  have one: "link_step toy_scale (first_state, []) (?st, [?cl])"
    using link_step.client_in [OF open1, of toy_scale "[]"] by simp
  have two: "link_step toy_scale (?st, [?cl]) (?st\<lparr>lk_node := nd'\<rparr>, [?cl\<lparr>cc_seq := 1, cc_pinned := True\<rparr>])"
  proof -
    have "client_frame 1 toy_world any_shorthand (\<lambda>_. Some ''hello'') (\<lambda>_. None) ''m2'' [] ([?cl] ! 0) ?st
      = Some (?st\<lparr>lk_node := nd'\<rparr>, ?cl\<lparr>cc_seq := 1, cc_pinned := True\<rparr>, ClientRouted)" using says by simp
    from link_step.client_says [OF _ this, of toy_scale] show ?thesis by simp
  qed
  have "(link_step toy_scale)\<^sup>*\<^sup>* (first_state, []) (?st\<lparr>lk_node := nd'\<rparr>, [?cl\<lparr>cc_seq := 1, cc_pinned := True\<rparr>])"
    by (rule converse_rtranclp_into_rtranclp [OF one r_into_rtranclp [where r = "link_step toy_scale", OF two]])
  then show ?thesis by (intro exI conjI) (assumption, simp)
qed

theorem pins_close_with_first_message_witness:
  "\<exists>st cl. cc_pinned cl \<and> sn_pins (nd_objects (lk_node (client_close False 9 cl st)) ! cc_object cl) = sn_pins (nd_objects (lk_node st) ! cc_object cl)"
proof -
  obtain st cl where s: "(link_step toy_scale)\<^sup>*\<^sup>* (first_state, []) (st, [cl])" "cc_pinned cl" using toy_said by blast
  have "link_step toy_scale (st, [cl]) (client_close False 9 cl st, [cl])" by (rule link_step.client_out) simp
  then have t: "(link_step toy_scale)\<^sup>*\<^sup>* (st, [cl]) (client_close False 9 cl st, [cl])" by (rule r_into_rtranclp)
  from pins_close_with_first_message [OF s(1) _ _ t, of 0] s(2) show ?thesis by (intro exI [of _ st] exI [of _ cl]) simp
qed

end
