(* ===== verification/Spec2Isabelle.thy ===== *)
theory Spec2Isabelle
  imports Witness_Live Policy_Properties Registry_Properties Causal_Properties Session_Safety Wiring_Properties
    Lease_Properties Seglog_Properties Tee_Properties Bundle_Properties Audit_Properties Diff_Properties Tables_Properties Gateway_Properties
    Broker_Properties Manager_Properties Ingress_Properties Guard_Properties Approvals_Properties Link_Properties
begin

text \<open>
  A verification development of the kernel of deepaxiom_aura (\<^verbatim>\<open>src/kernel\<close>): the executor that routes
  the envelopes of a session between skills, and the evidence it keeps of what they do to the world.

  \<^bold>\<open>The program.\<close> Skills connect to a node's gateway (\<^verbatim>\<open>gateway/gateway.go\<close>, \<^verbatim>\<open>gateway/admission.go\<close>) and
  register a capability; the tools of other servers are fronted as skills (\<^verbatim>\<open>guard/guard.go\<close>); the registry
  (\<^verbatim>\<open>registry/registry.go\<close>) lists them. A client that connects or a webhook that is delivered
  (\<^verbatim>\<open>gateway/ingress.go\<close>) opens a session on a graph (\<^verbatim>\<open>executor/ir.go\<close>): skills and the edges between their ports. The manager
  (\<^verbatim>\<open>executor/manager.go\<close>) keeps the live sessions over one ledger, database, policy and event log. A
  session (\<^verbatim>\<open>executor/session.go\<close>, \<^verbatim>\<open>executor/resume.go\<close>) resolves the nodes of its graph in the registry,
  lets the policy (\<^verbatim>\<open>executor/policy.go\<close>) decide what each edge may do, and routes envelopes
  (\<^verbatim>\<open>channel/envelope.go\<close>) along them: it drops repeats and cancelled work, holds what a human must approve
  (\<^verbatim>\<open>approvals/approvals.go\<close>, \<^verbatim>\<open>approver/approver.go\<close>, \<^verbatim>\<open>ledger/approval.go\<close>), speculates on partial outputs
  (\<^verbatim>\<open>executor/speculation.go\<close>), and seals every effect in the ledger (\<^verbatim>\<open>ledger/ledger.go\<close>) before it is sent.
  The receipt of an effect redeems the secrets it needs (\<^verbatim>\<open>broker/broker.go\<close>). The ledger is a hash chain
  under a Merkle tree (\<^verbatim>\<open>ledger/merkle.go\<close>) with signed checkpoints and key successions
  (\<^verbatim>\<open>ledger/succession.go\<close>), read back by \<^verbatim>\<open>ledger/verify.go\<close>, countersigned by witnesses
  (\<^verbatim>\<open>ledger/witness.go\<close>, \<^verbatim>\<open>ledger/witnesslog.go\<close>) and exported as receipts, case files and audit reports
  (\<^verbatim>\<open>ledger/receipt.go\<close>, \<^verbatim>\<open>ledger/bundle.go\<close>, \<^verbatim>\<open>ledger/audit.go\<close>) that are verified from the document alone.
  Events go to a segmented log (\<^verbatim>\<open>seglog/seglog.go\<close>), all else to the tables of \<^verbatim>\<open>store/store.go\<close>; a lease
  (\<^verbatim>\<open>lease/lease.go\<close>) keeps two processes off one data directory.

  \<^bold>\<open>Theories.\<close> A theory models one part and carries the name of it; what is proved of a part is in the
  theories beside it.
  \<^item> \<open>Prelude\<close>, \<open>GoStd\<close>, \<open>Json\<close>: lists, association lists for Go maps, the string functions, SHA-256,
    base64 and the decimal texts the code uses, and \<^verbatim>\<open>encoding/json\<close>, reading and printing.
  \<^item> \<open>Merkle\<close> with \<open>Merkle_Walk\<close>, \<open>Merkle_Proofs\<close>, \<open>Merkle_Consistency\<close>, \<open>Merkle_Compact\<close>,
    \<open>Merkle_Properties\<close>: \<^verbatim>\<open>merkle.go\<close>. The verifiers' loops are related to the recursive definition of the
    tree; the incremental tree refines it. What a proof binds is stated up to a collision of SHA-256 that
    the two inputs exhibit, so nothing is assumed of the hash.
  \<^item> \<open>Signing\<close>, \<open>Approval\<close>, \<open>Ledger_Entry\<close>, \<open>Store_Ledger\<close>, \<open>Succession\<close>, \<open>Ledger\<close>, \<open>Verify\<close>, \<open>Attest\<close>:
    the files of those names under \<^verbatim>\<open>ledger\<close>, \<^verbatim>\<open>signing\<close> and the ledger tables. \<open>Ledger_Inv\<close> is the
    invariant: what the ledger holds in memory and what the tables hold are one history.
    \<open>Verify_Proofs\<close>, \<open>Verify_Sound\<close>, \<open>Ledger_Properties\<close> and \<open>Evidence_Properties\<close> state what that gives.
  \<^item> \<open>Witness\<close>, \<open>Witness_Inv\<close>, \<open>Witness_Properties\<close>, \<open>Witness_Live\<close>: a witness, its log and its answers.
  \<^item> \<open>Policy\<close>, \<open>Policy_Properties\<close>, \<open>Channel\<close>, \<open>Registry\<close>, \<open>Registry_Properties\<close>.
  \<^item> \<open>Causal\<close>, \<open>Causal_Properties\<close>: the four bounded indexes of \<^verbatim>\<open>causal.go\<close>, each an interpretation of
    one contract, \<open>bounded_fifo\<close>.
  \<^item> \<open>Speculation\<close>, \<open>Graph\<close>, \<open>Approver\<close>, \<open>Session\<close>, \<open>Session_Wiring\<close>: the rest of the executor.
    \<open>Session_Frame\<close> holds the contract \<open>routing\<close>: a relation between states that every step of routing
    keeps is kept by \<open>Route\<close>. It is interpreted four times, for gates and for evidence
    (\<open>Session_Sends\<close>), for returning (\<open>Session_Total\<close>) and for pins (\<open>Link_Properties\<close>). \<open>Session_Properties\<close>, \<open>Session_Safety\<close> and
    \<open>Wiring_Properties\<close> state what that gives.
  \<^item> \<open>Lease\<close>, \<open>Lease_Properties\<close>: the lease, its heartbeat and its fencing, over all interleavings of the
    processes that want it.
  \<^item> \<open>Seglog_Codec\<close>, \<open>Seglog\<close>: the records, segments, index and batches of the event log. \<open>Seglog_Inv\<close>,
    \<open>Seglog_Refine\<close> and \<open>Seglog_Run\<close> relate a log on disk to the list of events it stands for;
    \<open>Seglog_Properties\<close> states what is read back, what a crash costs and what a failed \<^verbatim>\<open>fsync\<close> does.
  \<^item> \<open>Tee\<close>, \<open>Receipt\<close>, \<open>Bundle\<close>, \<open>Audit_Report\<close>, \<open>Diff\<close> with their properties: hardware evidence and what the
    ledger exports (\<^verbatim>\<open>tee.go\<close>, \<^verbatim>\<open>receipt.go\<close>, \<^verbatim>\<open>bundle.go\<close>, \<^verbatim>\<open>audit.go\<close>, \<^verbatim>\<open>diff.go\<close>,
    \<^verbatim>\<open>regress.go\<close>): how a document is built from the tables and how it is verified without them.
  \<^item> \<open>Store_Events\<close>, \<open>Store_Tables\<close>, \<open>Tables_Properties\<close>: the rest of \<^verbatim>\<open>store.go\<close>: sessions, events, graphs and
    their revisions, skills, routes, deliveries seen, tokens and the names of secrets.
  \<^item> \<open>Gateway_Auth\<close>, \<open>Gateway_Properties\<close>: \<^verbatim>\<open>auth.go\<close>, \<^verbatim>\<open>scope.go\<close> and the table of routes: who a caller is and
    what it reaches.
  \<^item> \<open>Broker\<close>, \<open>Broker_Properties\<close>: sealed secrets and their release against receipts.
  \<^item> \<open>Manager\<close>, \<open>Manager_Properties\<close>: the sessions of a node over what they share. A session object is mounted on
    the node's ledger, tables and log, routes, and is unmounted; so what \<open>Session_Sends\<close> proves of one session
    holds of every run of the node.
  \<^item> \<open>Ingress\<close>, \<open>Ingress_Properties\<close>: inbound routes, the check of a delivery and the reaper.
  \<^item> \<open>Guard\<close>, \<open>Guard_Properties\<close>: the tools of a server as skills behind the policy.
  \<^item> \<open>Approvals_Queue\<close>, \<open>Approvals_Properties\<close>: the questions that wait for a human and the caller that waits.
  \<^item> \<open>Skill_Link\<close>, \<open>Link_Properties\<close>: the connections of skills and clients and the memory budget; a run of
    the node is a sequence of frames, openings and closings in any order.

  \<^bold>\<open>Conventions.\<close> A Go map is an association list, a byte slice a list of characters, an \<^verbatim>\<open>int64\<close> or a
  \<^verbatim>\<open>uint64\<close> an integer whose wrap-around is written where the code can reach it. An error is the left of
  a sum, a panic or a call that never returns is \<open>None\<close>. A database that may fail is a function \<open>io\<close>
  that says of the \<open>k\<close>-th call of an operation whether it fails. Ed25519 is a record of functions; what is
  relied on (a signature made with a key verifies under it) is the hypothesis \<open>ed_correct\<close>. The clock,
  the ids drawn, the calls to skills and the client are the record \<open>world\<close> of a session, indexed by a tick.

  \<^bold>\<open>Fuel.\<close> \<open>json_parse\<close> runs on the length of its input, which bounds its recursion. \<open>Route\<close> counts down
  the nesting of pinned answers: one more than the highest rank of a pinned node is enough
  (\<open>routing_returns\<close>); round a cycle of pinned nodes no fuel is, and the program does not return either
  (\<open>pinned_cycle_never_returns\<close>). Everything else is total.

  \<^bold>\<open>Not modelled.\<close> The transports (HTTP, WebSocket and WebTransport servers, the MCP server beyond the
  caller that waits for an approval, the MCP client beyond tools and results, federation, projections), the
  gateway's handlers that only decode a request and print an answer, the command line, the runtimes skills
  run in, grammars for decoding, the bill of materials, and the media service. Key files and YAML are read
  by code outside, AES-GCM is a parameter, and floating point is one where a payload's numbers pass through
  it. Concurrency is modelled where the code leaves it to the caller to serialise: an operation is one
  step, and its interleavings are sequences of steps; where an operation is not under one lock
  (\<^verbatim>\<open>Countersign\<close>, the lease) it is several.
\<close>

end
